(* ===== verification/Prelude.thy ===== *)
theory Prelude
  imports Main "HOL-Library.Word" "HOL-Library.Monad_Syntax"
begin

unbundle bit_operations_syntax

section \<open>Prelude: machine integers, loops and shared automation\<close>

text \<open>
  The C integer types as words (\<open>uint8_t\<close>, \<open>uint32_t\<close>, \<open>uint64_t\<close>), the collections of
  rewrite rules the component theories extend, and the generic facts on words, lists and options
  that more than one component needs. C's \<open>int\<close> status codes are \<^typ>\<open>int\<close>.

  A function of the model whose C counterpart may not return (a busy-wait on a device, a failed
  \<open>assert\<close>, a \<open>panic\<close>) has an \<open>option\<close> result, \<open>None\<close> for not returning.
\<close>

type_synonym u8 = "8 word"
type_synonym u32 = "32 word"
type_synonym u64 = "64 word"

text \<open>
  \<open>frame_simps\<close> collects what an operation leaves alone, \<open>reg_defs\<close> the register macros,
  \<open>null_simps\<close> the null-pointer branches of the operations.
\<close>

named_theorems frame_simps
named_theorems reg_defs
named_theorems null_simps

subsection \<open>Words\<close>

lemma unat_add_no_wrap:
  fixes a b :: "'a::len word"
  shows "unat a + unat b < 2 ^ LENGTH('a) \<Longrightarrow> unat (a + b) = unat a + unat b"
  by (simp add: unat_word_ariths)

lemma unat_of_nat_small:
  "n < 2 ^ LENGTH('a) \<Longrightarrow> unat (of_nat n :: 'a::len word) = n"
  by (simp add: unat_of_nat)

lemma or_and_self [simp]:
  fixes a b :: "'a::len word"
  shows "(a OR b) AND b = b"
  by (rule bit_word_eqI) (auto simp: bit_simps)

lemma and_not_and_self [simp]:
  fixes a b :: "'a::len word"
  shows "(a AND NOT b) AND b = 0"
  by (rule bit_word_eqI) (auto simp: bit_simps)

text \<open>Setting or clearing the bits of one mask leaves a disjoint mask's bits alone.\<close>

lemma or_and_disjoint:
  fixes a b c :: "'a::len word"
  assumes "b AND c = 0"
  shows "(a OR b) AND c = a AND c"
proof (rule bit_word_eqI)
  fix n
  assume "n < LENGTH('a)"
  have "bit (b AND c) n = False" using assms by simp
  then show "bit ((a OR b) AND c) n = bit (a AND c) n" by (auto simp: bit_simps)
qed

lemma and_not_and_disjoint:
  fixes a b c :: "'a::len word"
  assumes "b AND c = 0"
  shows "(a AND NOT b) AND c = a AND c"
proof (rule bit_word_eqI)
  fix n
  assume n: "n < LENGTH('a)"
  have "bit (b AND c) n = False" using assms by simp
  with n show "bit ((a AND NOT b) AND c) n = bit (a AND c) n" by (auto simp: bit_simps)
qed

text \<open>Testing one bit: the C idiom \<open>(w & (1 << n)) != 0\<close>.\<close>

lemma and_push_bit_1_neq_0:
  fixes w :: "'a::len word"
  shows "w AND push_bit n 1 \<noteq> 0 \<longleftrightarrow> bit w n"
proof
  assume "w AND push_bit n 1 \<noteq> 0"
  then obtain k where "bit (w AND push_bit n 1) k"
    by (metis bit_0_eq bit_eqI bot_apply bot_bool_def)
  then show "bit w n" by (auto simp: bit_simps)
next
  assume b: "bit w n"
  then have "n < LENGTH('a)" by (rule bit_imp_le_length)
  with b have "bit (w AND push_bit n 1) n" by (auto simp: bit_simps)
  then show "w AND push_bit n 1 \<noteq> 0" by (metis bit_0_eq bot_apply bot_bool_def)
qed

text \<open>Alignment: a word is a multiple of \<open>2 ^ n\<close> when its low bits are clear.\<close>

lemma and_mask_eq_0_iff_dvd:
  fixes w :: "'a::len word"
  shows "w AND mask n = 0 \<longleftrightarrow> 2 ^ n dvd unat w"
proof -
  have "w AND mask n = 0 \<longleftrightarrow> unat (take_bit n w) = 0"
    by (simp add: take_bit_eq_mask unat_eq_0)
  also have "unat (take_bit n w) = take_bit n (unat w)"
    by (simp add: unsigned_take_bit_eq)
  finally show ?thesis by (simp add: take_bit_eq_mod mod_eq_0_iff_dvd)
qed

lemma unat_and_mask: "unat (w AND mask n) = unat w mod 2 ^ n" for w :: "'a::len word"
proof -
  have "unat (w AND mask n) = unat (take_bit n w)" by (simp only: take_bit_eq_mask)
  also have "\<dots> = take_bit n (unat w)" by (rule unsigned_take_bit_eq)
  finally show ?thesis by (simp only: take_bit_eq_mod)
qed

lemma unat_drop_bit: "unat (drop_bit n w) = unat w div 2 ^ n" for w :: "'a::len word"
proof -
  have "unat (drop_bit n w) = drop_bit n (take_bit LENGTH('a) (unat w))"
    by (rule unsigned_drop_bit_eq)
  also have "take_bit LENGTH('a) (unat w) = unat w" by (rule take_bit_nat_eq_self) simp
  finally show ?thesis by (simp only: drop_bit_eq_div)
qed

lemma unat_ucast_mod: "unat (ucast w :: 'b::len word) = unat w mod 2 ^ LENGTH('b)"
  for w :: "'a::len word"
proof -
  have "unat (ucast w :: 'b word) = take_bit LENGTH('b) (unat w)" by (rule unsigned_ucast_eq)
  then show ?thesis by (simp only: take_bit_eq_mod)
qed

lemma and_0xfff_eq_0_iff: "v AND 0xfff = 0 \<longleftrightarrow> 4096 dvd unat v" for v :: u64
  using and_mask_eq_0_iff_dvd [of v 12] by (simp add: mask_eq_exp_minus_1)

subsection \<open>Lists and options\<close>

lemma find_take_Some_nth:
  "find P (take n xs) = Some x \<Longrightarrow> \<exists>i<n. i < length xs \<and> xs ! i = x \<and> P x"
  by (auto simp: find_Some_iff)

lemma find_unique:
  assumes "x \<in> set xs" and "P x" and "\<And>y. y \<in> set xs \<Longrightarrow> P y \<Longrightarrow> y = x"
  shows "find P xs = Some x"
proof (cases "find P xs")
  case None
  then have "\<not> (\<exists>z. z \<in> set xs \<and> P z)" by (simp only: find_None_iff not_False_eq_True)
  with assms(1,2) show ?thesis by blast
next
  case (Some y)
  then obtain i where "i < length xs" "P (xs ! i)" "y = xs ! i"
    unfolding find_Some_iff by blast
  then have "y = x" by (intro assms(3)) auto
  with Some show ?thesis by simp
qed

lemma fold_fun_upd_range:
  "fold (\<lambda>i m. m(b + i := c)) [0..<n] f = (\<lambda>a. if b \<le> a \<and> a < b + n then c else f a)"
  for b :: nat
  by (induction n) (auto simp: fun_eq_iff)

end
