(* ===== verification/Arch_Regs.thy ===== *)
theory Arch_Regs
  imports Prelude
begin

section \<open>Machine state and Hyp registers\<close>

text \<open>
  \<open>include/arch/hyp-regs.h\<close>, \<open>src/arch/hyp-regs.c\<close>, \<open>include/arch/aarch32.h\<close>,
  \<open>src/arch/hyp-banked-regs.S\<close>, \<open>include/arch/hyp-exceptions.h\<close> and \<open>src/arch/mmio.c\<close>:
  the exception frame and the banked registers as records, the syndrome macros, and the
  operations on system registers and on memory-mapped devices.

  The processor is a record \<open>hw\<close>. The registers the hypervisor writes and reads back (HCR, VBAR,
  VTCR, VTTBR, the banked registers) are fields. Everything that reaches a device or orders
  memory is an event of \<open>hw_log\<close>, in program order. What a device register or a counter returns
  is up to the environment: \<open>hw_in n p\<close> is what a read of port \<open>p\<close> returns when \<open>n\<close> events have
  happened, so a statement about every \<open>hw_in\<close> is a statement about every device behaviour.
\<close>

subsection \<open>Syndrome and register macros\<close>

abbreviation (input) HSR_EC_SHIFT :: nat where "HSR_EC_SHIFT \<equiv> 26"
abbreviation (input) HSR_EC_MASK :: u32 where "HSR_EC_MASK \<equiv> 0x3f"
abbreviation (input) HSR_IL_SHIFT :: nat where "HSR_IL_SHIFT \<equiv> 25"
abbreviation (input) HSR_IL_MASK :: u32 where "HSR_IL_MASK \<equiv> 1"
abbreviation (input) HSR_ISS_SHIFT :: nat where "HSR_ISS_SHIFT \<equiv> 0"
abbreviation (input) HSR_ISS_MASK :: u32 where "HSR_ISS_MASK \<equiv> 0x01ffffff"

definition HSR_EC :: "u32 \<Rightarrow> u32" where
  "HSR_EC hsr = drop_bit HSR_EC_SHIFT hsr AND HSR_EC_MASK"

definition EC_BIT :: "u32 \<Rightarrow> u64" where
  "EC_BIT ec = push_bit (unat ec) 1"

definition HSR_IL :: "u32 \<Rightarrow> u32" where
  "HSR_IL hsr = drop_bit HSR_IL_SHIFT hsr AND HSR_IL_MASK"

definition HSR_ISS :: "u32 \<Rightarrow> u32" where
  "HSR_ISS hsr = drop_bit HSR_ISS_SHIFT hsr AND HSR_ISS_MASK"

declare HSR_EC_def [reg_defs] EC_BIT_def [reg_defs] HSR_IL_def [reg_defs] HSR_ISS_def [reg_defs]

abbreviation (input) HSR_ISS_FAULT_STATUS_MASK :: u32 where "HSR_ISS_FAULT_STATUS_MASK \<equiv> 0x3f"
abbreviation (input) HSR_ISS_ABORT_WNR :: u32 where "HSR_ISS_ABORT_WNR \<equiv> 0x40"
abbreviation (input) HSR_ISS_ABORT_S1PTW :: u32 where "HSR_ISS_ABORT_S1PTW \<equiv> 0x80"
abbreviation (input) HSR_ISS_ABORT_FNV :: u32 where "HSR_ISS_ABORT_FNV \<equiv> 0x400"
abbreviation (input) HSR_ISS_ABORT_SRT_SHIFT :: nat where "HSR_ISS_ABORT_SRT_SHIFT \<equiv> 16"
abbreviation (input) HSR_ISS_ABORT_SRT_MASK :: u32 where "HSR_ISS_ABORT_SRT_MASK \<equiv> 0x1f"
abbreviation (input) HSR_ISS_ABORT_SSE :: u32 where "HSR_ISS_ABORT_SSE \<equiv> 0x200000"
abbreviation (input) HSR_ISS_ABORT_SAS_SHIFT :: nat where "HSR_ISS_ABORT_SAS_SHIFT \<equiv> 22"
abbreviation (input) HSR_ISS_ABORT_SAS_MASK :: u32 where "HSR_ISS_ABORT_SAS_MASK \<equiv> 0x3"
abbreviation (input) HSR_ISS_ABORT_ISV :: u32 where "HSR_ISS_ABORT_ISV \<equiv> 0x1000000"
abbreviation (input) HSR_WFI_WFE_IS_WFE :: u32 where "HSR_WFI_WFE_IS_WFE \<equiv> 1"

abbreviation (input) HCR_VM :: u32 where "HCR_VM \<equiv> 0x1"
abbreviation (input) HCR_SWIO :: u32 where "HCR_SWIO \<equiv> 0x2"
abbreviation (input) HCR_IMO :: u32 where "HCR_IMO \<equiv> 0x10"
abbreviation (input) HCR_VI :: u32 where "HCR_VI \<equiv> 0x80"
abbreviation (input) HCR_TWI :: u32 where "HCR_TWI \<equiv> 0x2000"

abbreviation (input) HSR_EC_UNKNOWN :: u32 where "HSR_EC_UNKNOWN \<equiv> 0x00"
abbreviation (input) HSR_EC_WFI_WFE :: u32 where "HSR_EC_WFI_WFE \<equiv> 0x01"
abbreviation (input) HSR_EC_CP15_MCR_MRC :: u32 where "HSR_EC_CP15_MCR_MRC \<equiv> 0x03"
abbreviation (input) HSR_EC_CP15_MCRR_MRRC :: u32 where "HSR_EC_CP15_MCRR_MRRC \<equiv> 0x04"
abbreviation (input) HSR_EC_CP14_MCR_MRC :: u32 where "HSR_EC_CP14_MCR_MRC \<equiv> 0x05"
abbreviation (input) HSR_EC_LDC_STC :: u32 where "HSR_EC_LDC_STC \<equiv> 0x06"
abbreviation (input) HSR_EC_FP_ASIMD :: u32 where "HSR_EC_FP_ASIMD \<equiv> 0x07"
abbreviation (input) HSR_EC_VMRS_ID_TRAP :: u32 where "HSR_EC_VMRS_ID_TRAP \<equiv> 0x08"
abbreviation (input) HSR_EC_CP14_MRRC :: u32 where "HSR_EC_CP14_MRRC \<equiv> 0x0c"
abbreviation (input) HSR_EC_ILLEGAL_EXCEPTION_RETURN_A32 :: u32
  where "HSR_EC_ILLEGAL_EXCEPTION_RETURN_A32 \<equiv> 0x0e"
abbreviation (input) HSR_EC_SVC_A32 :: u32 where "HSR_EC_SVC_A32 \<equiv> 0x11"
abbreviation (input) HSR_EC_HVC_A32 :: u32 where "HSR_EC_HVC_A32 \<equiv> 0x12"
abbreviation (input) HSR_EC_SMC_A32 :: u32 where "HSR_EC_SMC_A32 \<equiv> 0x13"
abbreviation (input) HSR_EC_PREFETCH_ABORT_LOWER :: u32 where "HSR_EC_PREFETCH_ABORT_LOWER \<equiv> 0x20"
abbreviation (input) HSR_EC_PREFETCH_ABORT_SAME :: u32 where "HSR_EC_PREFETCH_ABORT_SAME \<equiv> 0x21"
abbreviation (input) HSR_EC_PC_ALIGNMENT_FAULT :: u32 where "HSR_EC_PC_ALIGNMENT_FAULT \<equiv> 0x22"
abbreviation (input) HSR_EC_DATA_ABORT_LOWER :: u32 where "HSR_EC_DATA_ABORT_LOWER \<equiv> 0x24"
abbreviation (input) HSR_EC_DATA_ABORT_SAME :: u32 where "HSR_EC_DATA_ABORT_SAME \<equiv> 0x25"

abbreviation (input) VTTBR_VMID_SHIFT :: nat where "VTTBR_VMID_SHIFT \<equiv> 48"
abbreviation (input) VTTBR_VMID_MASK :: u64 where "VTTBR_VMID_MASK \<equiv> 0xff"
abbreviation (input) VTTBR_BADDR_MASK :: u64 where "VTTBR_BADDR_MASK \<equiv> 0x000000fffffff000"

abbreviation (input) CPSR_PEMODE_MASK :: u32 where "CPSR_PEMODE_MASK \<equiv> 0x1F"
abbreviation (input) CPSR_PEMODE_USR :: u32 where "CPSR_PEMODE_USR \<equiv> 0x10"
abbreviation (input) CPSR_PEMODE_SVC :: u32 where "CPSR_PEMODE_SVC \<equiv> 0x13"
abbreviation (input) CPSR_PEMODE_HYP :: u32 where "CPSR_PEMODE_HYP \<equiv> 0x1A"
abbreviation (input) CPSR_PEMODE_SYS :: u32 where "CPSR_PEMODE_SYS \<equiv> 0x1F"
abbreviation (input) CPSR_F :: u32 where "CPSR_F \<equiv> 0x40"
abbreviation (input) CPSR_I :: u32 where "CPSR_I \<equiv> 0x80"
abbreviation (input) CPSR_A :: u32 where "CPSR_A \<equiv> 0x100"

definition HYP_LOWER_SVC_CPSR :: u32 where
  "HYP_LOWER_SVC_CPSR = CPSR_PEMODE_SVC OR CPSR_A OR CPSR_I OR CPSR_F"

definition hsr_iss_imm16 :: "u32 \<Rightarrow> u32" where
  "hsr_iss_imm16 hsr = HSR_ISS hsr AND 0xffff"

subsection \<open>The exception frame and the banked registers\<close>

record HypExceptState =
  frame_r :: "u32 list" \<comment> \<open>\<open>uint32_t r[13]\<close>\<close>
  frame_lr :: u32
  frame_hsr :: u32
  frame_elr_hyp :: u32
  frame_spsr_hyp :: u32
  frame_hdfar :: u32
  frame_hifar :: u32
  frame_hpfar :: u32
  frame_exception_type :: u32

record HypBankedRegs =
  bk_sp_usr :: u32
  bk_sp_svc :: u32
  bk_lr_svc :: u32
  bk_spsr_svc :: u32
  bk_sp_irq :: u32
  bk_lr_irq :: u32
  bk_spsr_irq :: u32

definition zero_HypExceptState :: HypExceptState where
  "zero_HypExceptState = \<lparr>frame_r = replicate 13 0, frame_lr = 0, frame_hsr = 0,
     frame_elr_hyp = 0, frame_spsr_hyp = 0, frame_hdfar = 0, frame_hifar = 0, frame_hpfar = 0,
     frame_exception_type = 0\<rparr>"

definition zero_HypBankedRegs :: HypBankedRegs where
  "zero_HypBankedRegs = \<lparr>bk_sp_usr = 0, bk_sp_svc = 0, bk_lr_svc = 0, bk_spsr_svc = 0,
     bk_sp_irq = 0, bk_lr_irq = 0, bk_spsr_irq = 0\<rparr>"

text \<open>\<open>s->r[n]\<close> and \<open>s->r[n] = v\<close>; every use in the code has a constant or checked \<open>n < 13\<close>.\<close>

abbreviation (input) reg :: "HypExceptState \<Rightarrow> nat \<Rightarrow> u32" where
  "reg s n \<equiv> frame_r s ! n"

definition set_reg :: "nat \<Rightarrow> u32 \<Rightarrow> HypExceptState \<Rightarrow> HypExceptState" where
  "set_reg n v s = s\<lparr>frame_r := (frame_r s)[n := v]\<rparr>"

definition frame_ok :: "HypExceptState \<Rightarrow> bool" where
  "frame_ok s \<longleftrightarrow> length (frame_r s) = 13"

lemma set_reg_sel [simp]:
  "frame_lr (set_reg n v s) = frame_lr s" "frame_hsr (set_reg n v s) = frame_hsr s"
  "frame_elr_hyp (set_reg n v s) = frame_elr_hyp s"
  "frame_spsr_hyp (set_reg n v s) = frame_spsr_hyp s"
  "frame_hdfar (set_reg n v s) = frame_hdfar s" "frame_hpfar (set_reg n v s) = frame_hpfar s"
  "frame_exception_type (set_reg n v s) = frame_exception_type s"
  "frame_r (set_reg n v s) = (frame_r s)[n := v]"
  by (simp_all add: set_reg_def)

lemma frame_ok_set_reg [simp]: "frame_ok (set_reg n v s) = frame_ok s"
  by (simp add: frame_ok_def)

subsection \<open>The processor\<close>

datatype hw_port = Dev u32 | CNTHP_CTL | CNTHP_TVAL | CNTFRQ

datatype hw_event =
    EvDSB
  | EvISB
  | EvRd hw_port u32
  | EvWr hw_port u32
  | EvWr8 u32 u8
  | EvHCR u32
  | EvVTCR u32
  | EvVTTBR u64
  | EvVBAR u32
  | EvTLBIALL
  | EvTLBIIPAS2 u32

record hw =
  hcr :: u32
  vbar :: u32
  vtcr :: u32
  vttbr :: u64
  cpsr :: u32
  banked :: HypBankedRegs
  hw_log :: "hw_event list"
  hw_in :: "nat \<Rightarrow> hw_port \<Rightarrow> u32"

definition emit :: "hw_event \<Rightarrow> 'a hw_scheme \<Rightarrow> 'a hw_scheme" where
  "emit e s = s\<lparr>hw_log := hw_log s @ [e]\<rparr>"

definition DSB :: "'a hw_scheme \<Rightarrow> 'a hw_scheme" where
  "DSB s = emit EvDSB s"

definition ISB :: "'a hw_scheme \<Rightarrow> 'a hw_scheme" where
  "ISB s = emit EvISB s"

definition read_port :: "hw_port \<Rightarrow> 'a hw_scheme \<Rightarrow> u32 \<times> 'a hw_scheme" where
  "read_port p s = (let v = hw_in s (length (hw_log s)) p in (v, emit (EvRd p v) s))"

definition write_port :: "hw_port \<Rightarrow> u32 \<Rightarrow> 'a hw_scheme \<Rightarrow> 'a hw_scheme" where
  "write_port p v s = emit (EvWr p v) s"

subsection \<open>System registers\<close>

definition read_cpsr :: "'a hw_scheme \<Rightarrow> u32" where
  "read_cpsr s = cpsr s"

definition read_hcr :: "'a hw_scheme \<Rightarrow> u32" where
  "read_hcr s = hcr s"

definition write_hcr :: "u32 \<Rightarrow> 'a hw_scheme \<Rightarrow> 'a hw_scheme" where
  "write_hcr v s = emit (EvHCR v) (s\<lparr>hcr := v\<rparr>)"

definition set_hcr_bit :: "u32 \<Rightarrow> 'a hw_scheme \<Rightarrow> 'a hw_scheme" where
  "set_hcr_bit b s = (let h = read_hcr s in let h = h OR b in write_hcr h s)"

definition clear_hcr_bit :: "u32 \<Rightarrow> 'a hw_scheme \<Rightarrow> 'a hw_scheme" where
  "clear_hcr_bit b s = (let h = read_hcr s in let h = h AND NOT b in write_hcr h s)"

definition hyp_enable_irq_routing :: "'a hw_scheme \<Rightarrow> 'a hw_scheme" where
  "hyp_enable_irq_routing s = set_hcr_bit HCR_IMO s"

definition read_vbar :: "'a hw_scheme \<Rightarrow> u32" where
  "read_vbar s = vbar s"

definition write_vbar :: "u32 \<Rightarrow> 'a hw_scheme \<Rightarrow> 'a hw_scheme" where
  "write_vbar v s = ISB (emit (EvVBAR v) (s\<lparr>vbar := v\<rparr>))"

definition write_vtcr :: "u32 \<Rightarrow> 'a hw_scheme \<Rightarrow> 'a hw_scheme" where
  "write_vtcr v s = emit (EvVTCR v) (s\<lparr>vtcr := v\<rparr>)"

text \<open>The 64-bit VTTBR goes to the coprocessor as two 32-bit halves.\<close>

definition read_vttbr :: "'a hw_scheme \<Rightarrow> u64" where
  "read_vttbr s =
     (let low = ucast (vttbr s) :: u32; high = ucast (drop_bit 32 (vttbr s)) :: u32
      in push_bit 32 (ucast high) OR ucast low)"

definition write_vttbr :: "u64 \<Rightarrow> 'a hw_scheme \<Rightarrow> 'a hw_scheme" where
  "write_vttbr v s =
     (let low = ucast v :: u32; high = ucast (drop_bit 32 v) :: u32;
          w = push_bit 32 (ucast high) OR ucast low :: u64
      in emit (EvVTTBR w) (s\<lparr>vttbr := w\<rparr>))"

definition hyp_invalidate_stage2_tlb_all :: "'a hw_scheme \<Rightarrow> 'a hw_scheme" where
  "hyp_invalidate_stage2_tlb_all s = emit EvTLBIALL s"

definition hyp_invalidate_stage2_tlb_ipa :: "u64 \<Rightarrow> 'a hw_scheme \<Rightarrow> 'a hw_scheme" where
  "hyp_invalidate_stage2_tlb_ipa ipa s = emit (EvTLBIIPAS2 (ucast (drop_bit 12 ipa))) s"

text \<open>The seven \<open>mrs\<close>/\<open>str\<close> and \<open>ldr\<close>/\<open>msr\<close> pairs of \<open>hyp-banked-regs.S\<close>.\<close>

definition hyp_save_banked_regs :: "'a hw_scheme \<Rightarrow> HypBankedRegs" where
  "hyp_save_banked_regs s =
     \<lparr>bk_sp_usr = bk_sp_usr (banked s), bk_sp_svc = bk_sp_svc (banked s),
      bk_lr_svc = bk_lr_svc (banked s), bk_spsr_svc = bk_spsr_svc (banked s),
      bk_sp_irq = bk_sp_irq (banked s), bk_lr_irq = bk_lr_irq (banked s),
      bk_spsr_irq = bk_spsr_irq (banked s)\<rparr>"

definition hyp_load_banked_regs :: "HypBankedRegs \<Rightarrow> 'a hw_scheme \<Rightarrow> 'a hw_scheme" where
  "hyp_load_banked_regs b s = s\<lparr>banked :=
     \<lparr>bk_sp_usr = bk_sp_usr b, bk_sp_svc = bk_sp_svc b, bk_lr_svc = bk_lr_svc b,
      bk_spsr_svc = bk_spsr_svc b, bk_sp_irq = bk_sp_irq b, bk_lr_irq = bk_lr_irq b,
      bk_spsr_irq = bk_spsr_irq b\<rparr>\<rparr>"

lemma hyp_save_banked_regs_eq [simp]: "hyp_save_banked_regs s = banked s"
  by (simp add: hyp_save_banked_regs_def)

lemma hyp_load_banked_regs_eq [simp]: "hyp_load_banked_regs b s = s\<lparr>banked := b\<rparr>"
  by (simp add: hyp_load_banked_regs_def)

lemma vttbr_halves: "push_bit 32 (ucast (ucast (drop_bit 32 v) :: u32)) OR ucast (ucast v :: u32) = v"
  for v :: u64
proof (rule bit_word_eqI)
  fix n
  assume "n < LENGTH(64)"
  then show "bit (push_bit 32 (ucast (ucast (drop_bit 32 v) :: u32)) OR ucast (ucast v :: u32) :: u64) n
      = bit v n"
    by (cases "n < 32") (auto simp: bit_simps dest: bit_imp_le_length)
qed

lemma write_vttbr_eq: "write_vttbr v s = emit (EvVTTBR v) (s\<lparr>vttbr := v\<rparr>)"
  by (simp add: write_vttbr_def Let_def vttbr_halves)

lemma read_vttbr_eq [simp]: "read_vttbr s = vttbr s"
  by (simp add: read_vttbr_def Let_def vttbr_halves)

subsection \<open>Memory-mapped devices: mmio.c\<close>

definition PUT32 :: "u32 \<Rightarrow> u32 \<Rightarrow> 'a hw_scheme \<Rightarrow> 'a hw_scheme" where
  "PUT32 location v s = write_port (Dev location) v s"

definition GET32 :: "u32 \<Rightarrow> 'a hw_scheme \<Rightarrow> u32 \<times> 'a hw_scheme" where
  "GET32 location s = read_port (Dev location) s"

definition PUT8 :: "u32 \<Rightarrow> u8 \<Rightarrow> 'a hw_scheme \<Rightarrow> 'a hw_scheme" where
  "PUT8 location v s = emit (EvWr8 location v) s"

definition GET8 :: "u32 \<Rightarrow> 'a hw_scheme \<Rightarrow> u8 \<times> 'a hw_scheme" where
  "GET8 location s = (let (v, s) = read_port (Dev location) s in (ucast v, s))"

definition RMW_OR :: "u32 \<Rightarrow> u32 \<Rightarrow> 'a hw_scheme \<Rightarrow> 'a hw_scheme" where
  "RMW_OR r m s = (let (v, s) = GET32 r s in PUT32 r (v OR m) s)"

definition RMW_AND :: "u32 \<Rightarrow> u32 \<Rightarrow> 'a hw_scheme \<Rightarrow> 'a hw_scheme" where
  "RMW_AND r m s = (let (v, s) = GET32 r s in PUT32 r (v AND m) s)"

definition OR32 :: "u32 \<Rightarrow> u32 \<Rightarrow> 'a hw_scheme \<Rightarrow> u32 \<times> 'a hw_scheme" where
  "OR32 addr x s = (let (v, s) = GET32 addr s in let v = v OR x in (v, PUT32 addr v s))"

lemmas dev_defs = PUT32_def GET32_def PUT8_def RMW_OR_def RMW_AND_def OR32_def
  read_port_def write_port_def emit_def DSB_def ISB_def Let_def

lemmas sysreg_defs = read_hcr_def write_hcr_def set_hcr_bit_def clear_hcr_bit_def
  read_vbar_def write_vbar_def write_vtcr_def write_vttbr_eq hyp_enable_irq_routing_def
  hyp_invalidate_stage2_tlb_all_def hyp_invalidate_stage2_tlb_ipa_def

end
