(* ===== verification/Printk.thy ===== *)
theory Printk
  imports Uart
begin

section \<open>Formatted output: printk\_format.c\<close>

text \<open>
  \<open>vprintk_with_putc\<close> for an arbitrary \<open>putc\<close> on an arbitrary state. A format is the list of its
  characters without the terminating NUL; a variadic argument is a 32-bit integer or a string
  pointer (null is \<open>None\<close>). Undefined behaviour is \<open>None\<close>, like not returning: a missing argument or
  one of the wrong type, a width that overflows \<open>int\<close>, and reading past the NUL after \<open>%0\<close> at the
  end of the format.

  \<open>format\<close> is the text of a call as the code computes it, with the code's own helpers: printing is
  computing that text and putting it out, character by character, for every \<open>putc\<close>. The number
  lemmas show that the digits denote the number. A reference that shares no helper with the code is in
  the theory \<open>Format_Spec\<close>.
\<close>

datatype printk_arg = PInt u32 | PStr "string option"

primrec putcs :: "(char \<Rightarrow> 's \<Rightarrow> 's option) \<Rightarrow> string \<Rightarrow> 's \<Rightarrow> 's option" where
  "putcs putc [] s = Some s"
| "putcs putc (c # cs) s = do { s \<leftarrow> putc c s; putcs putc cs s }"

definition BASE2_CHARS :: string where "BASE2_CHARS = ''01''"
definition BASE10_CHARS :: string where "BASE10_CHARS = ''0123456789''"
definition BASE16_CHARS :: string where "BASE16_CHARS = ''0123456789abcdef''"

text \<open>
  The do-while that buffers the digits of \<open>n\<close>, least significant first; it is called with the bases
  2, 10 and 16, and buffers at most 32 of the 33 characters of \<open>num\<close>.
\<close>

function num_digits :: "string \<Rightarrow> u32 \<Rightarrow> u32 \<Rightarrow> string" where
  "num_digits chars base n =
     (if base < 2 then []
      else chars ! unat (n mod base) #
        (let n = n div base in if n = 0 then [] else num_digits chars base n))"
  by pat_completeness auto
termination
proof (relation "measure (\<lambda>(chars, base, n). unat n)")
  fix chars :: string and base n x :: u32
  assume b: "\<not> base < 2" and x: "x = n div base" "x \<noteq> 0"
  then have "n \<noteq> 0" by auto
  then have "unat n div unat base < unat n"
    using b by (intro div_less_dividend) (simp_all add: word_less_nat_alt unat_gt_0)
  then show "((chars, base, x), chars, base, n) \<in> measure (\<lambda>(chars, base, n). unat n)"
    by (simp add: x unat_div)
qed simp

declare num_digits.simps [simp del]

definition emit_num :: "(char \<Rightarrow> 's \<Rightarrow> 's option) \<Rightarrow> string \<Rightarrow> nat \<Rightarrow> 's \<Rightarrow> 's option" where
  "emit_num putc num padding s = do {
     s \<leftarrow> putcs putc (replicate (padding - length num) (CHR ''0'')) s;
     putcs putc (rev num) s
   }"

definition output_num ::
    "(char \<Rightarrow> 's \<Rightarrow> 's option) \<Rightarrow> u32 \<Rightarrow> u32 \<Rightarrow> nat \<Rightarrow> 's \<Rightarrow> 's option" where
  "output_num putc base n padding s =
     (if base = 2 then emit_num putc (num_digits BASE2_CHARS 2 n) padding s
      else if base = 10 then emit_num putc (num_digits BASE10_CHARS 10 n) padding s
      else if base = 16 then emit_num putc (num_digits BASE16_CHARS 16 n) padding s
      else putc (CHR ''?'') s)"

definition output_signed :: "(char \<Rightarrow> 's \<Rightarrow> 's option) \<Rightarrow> u32 \<Rightarrow> nat \<Rightarrow> 's \<Rightarrow> 's option" where
  "output_signed putc n padding s =
     (if sint n < 0
      then do { s \<leftarrow> putc (CHR ''-'') s; output_num putc 10 (0 - n) (padding - 1) s }
      else output_num putc 10 n padding s)"

definition output_string :: "(char \<Rightarrow> 's \<Rightarrow> 's option) \<Rightarrow> string option \<Rightarrow> 's \<Rightarrow> 's option" where
  "output_string putc sp s = putcs putc (case sp of None \<Rightarrow> ''(null)'' | Some t \<Rightarrow> t) s"

text \<open>The width after \<open>%0\<close>: a non-negative \<open>int\<close>, and the rest of the format.\<close>

definition is_digit :: "char \<Rightarrow> bool" where
  "is_digit c \<longleftrightarrow> 48 \<le> (of_char c :: nat) \<and> (of_char c :: nat) \<le> 57"

fun parse_padding :: "string \<Rightarrow> nat \<Rightarrow> (nat \<times> string) option" where
  "parse_padding [] padding = Some (padding, [])"
| "parse_padding (c # fmt) padding =
     (if is_digit c
      then let padding = padding * 10 + (of_char c - 48)
           in if padding \<ge> 2 ^ 31 then None else parse_padding fmt padding
      else Some (padding, c # fmt))"

lemma parse_padding_length: "parse_padding fmt p = Some (q, rest) \<Longrightarrow> length rest \<le> length fmt"
  by (induction fmt p rule: parse_padding.induct) (fastforce simp: Let_def split: if_splits)+

text \<open>One integer or string argument, and the rest.\<close>

definition arg_int :: "printk_arg list \<Rightarrow> (u32 \<times> printk_arg list) option" where
  "arg_int args = (case args of PInt n # args \<Rightarrow> Some (n, args) | _ \<Rightarrow> None)"

definition arg_str :: "printk_arg list \<Rightarrow> (string option \<times> printk_arg list) option" where
  "arg_str args = (case args of PStr t # args \<Rightarrow> Some (t, args) | _ \<Rightarrow> None)"

function vprintk_with_putc ::
    "(char \<Rightarrow> 's \<Rightarrow> 's option) \<Rightarrow> string \<Rightarrow> printk_arg list \<Rightarrow> 's \<Rightarrow> 's option" where
  "vprintk_with_putc putc [] args s = Some s"
| "vprintk_with_putc putc (c # fmt) args s =
     (if c \<noteq> CHR ''%'' then do { s \<leftarrow> putc c s; vprintk_with_putc putc fmt args s }
      else case fmt of
        [] \<Rightarrow> putc (CHR ''%'') s
      | d # fmt \<Rightarrow>
          if d = CHR ''b'' then do {
            s \<leftarrow> putc (CHR ''0'') s;
            s \<leftarrow> putc (CHR ''b'') s;
            (n, args) \<leftarrow> arg_int args;
            s \<leftarrow> output_num putc 2 n 0 s;
            vprintk_with_putc putc fmt args s }
          else if d = CHR ''u'' then do {
            (n, args) \<leftarrow> arg_int args;
            s \<leftarrow> output_num putc 10 n 0 s;
            vprintk_with_putc putc fmt args s }
          else if d = CHR ''c'' then do {
            (n, args) \<leftarrow> arg_int args;
            s \<leftarrow> putc (char_of (unat n)) s;
            vprintk_with_putc putc fmt args s }
          else if d = CHR ''x'' then do {
            (n, args) \<leftarrow> arg_int args;
            s \<leftarrow> output_num putc 16 n 0 s;
            vprintk_with_putc putc fmt args s }
          else if d = CHR ''p'' then do {
            s \<leftarrow> putc (CHR ''0'') s;
            s \<leftarrow> putc (CHR ''x'') s;
            (n, args) \<leftarrow> arg_int args;
            s \<leftarrow> output_num putc 16 n 0 s;
            vprintk_with_putc putc fmt args s }
          else if d = CHR ''d'' then do {
            (n, args) \<leftarrow> arg_int args;
            s \<leftarrow> output_signed putc n 0 s;
            vprintk_with_putc putc fmt args s }
          else if d = CHR ''0'' then
            (case parse_padding fmt 0 of
               None \<Rightarrow> None
             | Some (padding, rest) \<Rightarrow>
                 (case rest of
                    [] \<Rightarrow> None
                  | e # rest \<Rightarrow>
                      if e = CHR ''x'' then do {
                        (n, args) \<leftarrow> arg_int args;
                        s \<leftarrow> output_num putc 16 n padding s;
                        vprintk_with_putc putc rest args s }
                      else if e = CHR ''d'' then do {
                        (n, args) \<leftarrow> arg_int args;
                        s \<leftarrow> output_signed putc n padding s;
                        vprintk_with_putc putc rest args s }
                      else do {
                        s \<leftarrow> putc (CHR ''%'') s;
                        s \<leftarrow> putc (CHR ''0'') s;
                        s \<leftarrow> output_num putc 10 (of_nat padding) 0 s;
                        s \<leftarrow> putc e s;
                        vprintk_with_putc putc rest args s }))
          else if d = CHR ''s'' then do {
            (t, args) \<leftarrow> arg_str args;
            s \<leftarrow> output_string putc t s;
            vprintk_with_putc putc fmt args s }
          else if d = CHR ''%'' then do {
            s \<leftarrow> putc (CHR ''%'') s;
            vprintk_with_putc putc fmt args s }
          else do {
            s \<leftarrow> putc (CHR ''%'') s;
            s \<leftarrow> putc d s;
            vprintk_with_putc putc fmt args s })"
  by pat_completeness auto
termination
  by (relation "measure (\<lambda>(putc, fmt, args, s). length fmt)") (auto dest: parse_padding_length)

declare vprintk_with_putc.simps(2) [simp del]

subsection \<open>The text of a format\<close>

definition num_text :: "string \<Rightarrow> u32 \<Rightarrow> u32 \<Rightarrow> nat \<Rightarrow> string" where
  "num_text chars base n padding =
     (let num = num_digits chars base n in replicate (padding - length num) (CHR ''0'') @ rev num)"

definition signed_text :: "u32 \<Rightarrow> nat \<Rightarrow> string" where
  "signed_text n padding =
     (if sint n < 0 then CHR ''-'' # num_text BASE10_CHARS 10 (0 - n) (padding - 1)
      else num_text BASE10_CHARS 10 n padding)"

definition string_text :: "string option \<Rightarrow> string" where
  "string_text sp = (case sp of None \<Rightarrow> ''(null)'' | Some t \<Rightarrow> t)"

text \<open>The directive after a \<open>%\<close>: its text, the rest of the format and of the arguments.\<close>

definition directive :: "char \<Rightarrow> string \<Rightarrow> printk_arg list \<Rightarrow> (string \<times> string \<times> printk_arg list) option" where
  "directive d fmt args =
     (if d \<in> {CHR ''b'', CHR ''u'', CHR ''c'', CHR ''x'', CHR ''p'', CHR ''d''} then
        map_option (\<lambda>(n, args).
          (if d = CHR ''b'' then ''0b'' @ num_text BASE2_CHARS 2 n 0
           else if d = CHR ''u'' then num_text BASE10_CHARS 10 n 0
           else if d = CHR ''c'' then [char_of (unat n)]
           else if d = CHR ''x'' then num_text BASE16_CHARS 16 n 0
           else if d = CHR ''p'' then ''0x'' @ num_text BASE16_CHARS 16 n 0
           else signed_text n 0, fmt, args)) (arg_int args)
      else if d = CHR ''0'' then
        (case parse_padding fmt 0 of
           None \<Rightarrow> None
         | Some (padding, []) \<Rightarrow> None
         | Some (padding, e # rest) \<Rightarrow>
             if e = CHR ''x'' \<or> e = CHR ''d'' then
               map_option (\<lambda>(n, args).
                 (if e = CHR ''x'' then num_text BASE16_CHARS 16 n padding else signed_text n padding,
                  rest, args)) (arg_int args)
             else Some (''%0'' @ num_text BASE10_CHARS 10 (of_nat padding) 0 @ [e], rest, args))
      else if d = CHR ''s'' then map_option (\<lambda>(t, args). (string_text t, fmt, args)) (arg_str args)
      else if d = CHR ''%'' then Some (''%'', fmt, args)
      else Some (CHR ''%'' # [d], fmt, args))"

lemma directive_length: "directive d fmt args = Some (t, rest, args') \<Longrightarrow> length rest \<le> length fmt"
  by (auto simp: directive_def split: if_splits option.splits list.splits dest!: parse_padding_length)

function format :: "string \<Rightarrow> printk_arg list \<Rightarrow> string option" where
  "format [] args = Some []"
| "format (c # fmt) args =
     (if c \<noteq> CHR ''%'' then map_option ((#) c) (format fmt args)
      else case fmt of
        [] \<Rightarrow> Some ''%''
      | d # fmt \<Rightarrow>
          (case directive d fmt args of
             None \<Rightarrow> None
           | Some (t, rest, args) \<Rightarrow> map_option ((@) t) (format rest args)))"
  by pat_completeness auto
termination
  by (relation "measure (\<lambda>(fmt, args). length fmt)") (auto dest: directive_length)

declare format.simps(2) [simp del]

lemma format_lit: "c \<noteq> CHR ''%'' \<Longrightarrow> format (c # fmt) args = map_option ((#) c) (format fmt args)"
  by (simp add: format.simps)

lemma format_int_directive:
  "format (CHR ''%'' # CHR ''d'' # fmt) (PInt n # args) = map_option ((@) (signed_text n 0)) (format fmt args)"
  "format (CHR ''%'' # CHR ''u'' # fmt) (PInt n # args) =
     map_option ((@) (num_text BASE10_CHARS 10 n 0)) (format fmt args)"
  "format (CHR ''%'' # CHR ''x'' # fmt) (PInt n # args) =
     map_option ((@) (num_text BASE16_CHARS 16 n 0)) (format fmt args)"
  "format (CHR ''%'' # CHR ''p'' # fmt) (PInt n # args) =
     map_option ((@) (''0x'' @ num_text BASE16_CHARS 16 n 0)) (format fmt args)"
  "format (CHR ''%'' # CHR ''b'' # fmt) (PInt n # args) =
     map_option ((@) (''0b'' @ num_text BASE2_CHARS 2 n 0)) (format fmt args)"
  by (simp_all add: format.simps(2) directive_def arg_int_def)

lemma format_str_directive:
  "format (CHR ''%'' # CHR ''s'' # fmt) (PStr t # args) = map_option ((@) (string_text t)) (format fmt args)"
  by (simp add: format.simps(2) directive_def arg_str_def)

lemmas format_simps = format_lit format_int_directive format_str_directive

lemma putcs_append: "putcs putc (a @ b) s = Option.bind (putcs putc a s) (putcs putc b)"
  by (induction a arbitrary: s) (auto split: bind_splits)

lemma putcs_one [simp]: "putcs putc [c] s = putc c s"
  by (cases "putc c s") auto

lemma emit_num_text:
  "emit_num putc num padding s = putcs putc (replicate (padding - length num) (CHR ''0'') @ rev num) s"
  by (simp add: emit_num_def putcs_append)

lemma output_text:
  "output_num putc 2 n p s = putcs putc (num_text BASE2_CHARS 2 n p) s"
  "output_num putc 10 n p s = putcs putc (num_text BASE10_CHARS 10 n p) s"
  "output_num putc 16 n p s = putcs putc (num_text BASE16_CHARS 16 n p) s"
  "output_signed putc n p s = putcs putc (signed_text n p) s"
  "output_string putc t s = putcs putc (string_text t) s"
  by (simp_all add: output_num_def emit_num_text num_text_def output_signed_def signed_text_def
      output_string_def string_text_def Let_def)

lemma bind_None_const [simp]: "Option.bind x (\<lambda>_. None) = None"
  by (cases x) auto

text \<open>One directive of the interpreter prints its text and goes on with the rest.\<close>

lemma vprintk_directive:
  "vprintk_with_putc putc (CHR ''%'' # d # fmt) args s =
     (case directive d fmt args of
        None \<Rightarrow> None
      | Some (t, rest, args) \<Rightarrow>
          Option.bind (putcs putc t s) (\<lambda>s. vprintk_with_putc putc rest args s))"
proof (cases "d = CHR ''0''")
  case True
  show ?thesis
  proof (cases "parse_padding fmt 0")
    case None
    then show ?thesis using True by (simp add: vprintk_with_putc.simps directive_def)
  next
    case (Some pr)
    obtain padding rest where pr: "pr = (padding, rest)" by (cases pr)
    show ?thesis
    proof (cases rest)
      case Nil
      then show ?thesis using True Some pr by (simp add: vprintk_with_putc.simps directive_def)
    next
      case (Cons e rest')
      then show ?thesis using True Some pr
        by (cases "arg_int args")
           (auto simp: vprintk_with_putc.simps directive_def output_text putcs_append)
    qed
  qed
next
  case False
  note defs = vprintk_with_putc.simps directive_def output_text putcs_append
  consider "d = CHR ''b''" | "d = CHR ''u''" | "d = CHR ''c''" | "d = CHR ''x''" | "d = CHR ''p''"
    | "d = CHR ''d''" | "d = CHR ''s''" | "d = CHR ''%''"
    | "d \<notin> {CHR ''b'', CHR ''u'', CHR ''c'', CHR ''x'', CHR ''p'', CHR ''d'', CHR ''s'', CHR ''%''}"
    by blast
  then show ?thesis
  proof cases
    case 1 then show ?thesis by (cases "arg_int args") (auto simp: defs)
  next
    case 2 then show ?thesis by (cases "arg_int args") (auto simp: defs)
  next
    case 3 then show ?thesis by (cases "arg_int args") (auto simp: defs)
  next
    case 4 then show ?thesis by (cases "arg_int args") (auto simp: defs)
  next
    case 5 then show ?thesis by (cases "arg_int args") (auto simp: defs)
  next
    case 6 then show ?thesis by (cases "arg_int args") (auto simp: defs)
  next
    case 7 then show ?thesis by (cases "arg_str args") (auto simp: defs)
  next
    case 8 then show ?thesis by (simp add: defs)
  next
    case 9 then show ?thesis using False by (simp add: defs)
  qed
qed

lemma vprintk_format:
  "vprintk_with_putc putc fmt args s = Option.bind (format fmt args) (\<lambda>t. putcs putc t s)"
proof (induction fmt args arbitrary: s rule: format.induct)
  case (1 args)
  then show ?case by simp
next
  case (2 c fmt args)
  show ?case
  proof (cases "c = CHR ''%''")
    case False
    then have IH: "vprintk_with_putc putc fmt args s1 = Option.bind (format fmt args) (\<lambda>t. putcs putc t s1)"
      for s1 using 2 by blast
    show ?thesis
      using False by (cases "format fmt args"; cases "putc c s")
        (simp_all add: vprintk_with_putc.simps format.simps IH)
  next
    case True
    show ?thesis
    proof (cases fmt)
      case Nil
      then show ?thesis using True by (simp add: vprintk_with_putc.simps format.simps)
    next
      case (Cons d fmt')
      show ?thesis
      proof (cases "directive d fmt' args")
        case None
        then show ?thesis using True Cons by (simp add: vprintk_directive format.simps)
      next
        case (Some r)
        obtain t rest args' where r: "r = (t, rest, args')" by (cases r)
        have IH: "vprintk_with_putc putc rest args' s1 =
            Option.bind (format rest args') (\<lambda>t. putcs putc t s1)" for s1
          using 2(2) True Cons Some r by simp
        show ?thesis
          using True Cons Some r by (cases "format rest args'"; cases "putcs putc t s")
            (simp_all add: vprintk_directive format.simps IH putcs_append)
      qed
    qed
  qed
qed

subsection \<open>The digits denote the number\<close>

definition digit_val :: "char \<Rightarrow> nat" where
  "digit_val c = (if is_digit c then of_char c - 48 else of_char c - 87)"

definition text_val :: "nat \<Rightarrow> string \<Rightarrow> nat" where
  "text_val b t = foldl (\<lambda>a c. a * b + digit_val c) 0 t"

lemma text_val_simps [simp]: "text_val b [] = 0" "text_val b (t @ [c]) = text_val b t * b + digit_val c"
  by (simp_all add: text_val_def)

lemma text_val_zeros: "text_val b (replicate k (CHR ''0'') @ t) = text_val b t"
proof -
  have z: "digit_val (CHR ''0'') = 0" by (simp add: digit_val_def is_digit_def)
  have "foldl (\<lambda>a c. a * b + digit_val c) 0 (replicate k (CHR ''0'')) = 0"
    by (induction k) (simp_all add: z)
  then show ?thesis by (simp add: text_val_def)
qed

lemma num_digits_val:
  assumes "2 \<le> base" and "\<And>i. i < unat base \<Longrightarrow> digit_val (chars ! i) = i"
  shows "text_val (unat base) (rev (num_digits chars base n)) = unat n"
  using assms
proof (induction chars base n rule: num_digits.induct)
  case (1 chars base n)
  let ?m = "n div base"
  have b: "\<not> base < 2" using 1(2) by (simp add: not_less)
  have "0 < unat base" using 1(2) by (simp add: word_le_nat_alt)
  then have d: "digit_val (chars ! unat (n mod base)) = unat n mod unat base"
    using 1(3) by (simp add: unat_mod)
  have u: "num_digits chars base n = chars ! unat (n mod base) #
      (if ?m = 0 then [] else num_digits chars base ?m)"
    using b by (subst num_digits.simps) (simp add: Let_def)
  show ?case
  proof (cases "?m = 0")
    case True
    then have "unat n div unat base = 0" by (metis unat_div unat_0)
    then have "unat n mod unat base = unat n" by (metis div_mod_decomp mult_0 add_0)
    with True u d show ?thesis using text_val_simps(2) [of "unat base" "[]"] by simp
  next
    case False
    have "text_val (unat base) (rev (num_digits chars base ?m)) = unat ?m"
      using 1(1) [OF b refl False] 1(2,3) by simp
    then show ?thesis using False u d by (simp add: unat_div)
  qed
qed

lemma char_vals:
  "i < 2 \<Longrightarrow> digit_val (BASE2_CHARS ! i) = i"
  "i < 10 \<Longrightarrow> digit_val (BASE10_CHARS ! i) = i"
  "i < 16 \<Longrightarrow> digit_val (BASE16_CHARS ! i) = i"
  by (simp_all add: BASE2_CHARS_def BASE10_CHARS_def BASE16_CHARS_def digit_val_def is_digit_def
      less_Suc_eq numeral_eq_Suc) auto

lemma num_text_val:
  "text_val 2 (num_text BASE2_CHARS 2 n p) = unat n"
  "text_val 10 (num_text BASE10_CHARS 10 n p) = unat n"
  "text_val 16 (num_text BASE16_CHARS 16 n p) = unat n"
  using num_digits_val [of 2 BASE2_CHARS n] num_digits_val [of 10 BASE10_CHARS n]
    num_digits_val [of 16 BASE16_CHARS n]
  by (simp_all add: num_text_def Let_def text_val_zeros char_vals)

lemma num_text_length: "p \<le> length (num_text chars base n p)"
  by (simp add: num_text_def Let_def)

lemma sint_cases: "sint n = uint n - (if bit n 31 then 2 ^ 32 else 0)" for n :: u32
proof -
  have "sint n = signed_take_bit 31 (uint n)" by (simp add: sint_uint)
  also have "\<dots> = take_bit 32 (uint n) - 2 ^ 32 * of_bool (bit (uint n) 31)"
    using signed_take_bit_eq_take_bit_minus [of 31 "uint n"] by (simp add: numeral_eq_Suc)
  also have "take_bit 32 (uint n) = uint n" by (rule take_bit_int_eq_self) (use uint_lt2p [of n] in simp_all)
  finally show ?thesis by (simp add: bit_uint_iff)
qed

lemma int_unat_pos: "\<not> sint n < 0 \<Longrightarrow> int (unat n) = sint n" for n :: u32
  using uint_lt2p [of n] by (simp add: sint_cases split: if_splits)

lemma int_unat_neg: "sint n < 0 \<Longrightarrow> int (unat (0 - n)) = - sint n" for n :: u32
proof -
  assume n: "sint n < 0"
  have lt: "uint n < 2 ^ 32" using uint_lt2p [of n] by simp
  have ge: "0 \<le> uint n" by simp
  have s: "sint n = uint n - 2 ^ 32" using n ge unfolding sint_cases by (simp split: if_splits)
  have z: "0 < uint n" using n ge sint_0 by (metis less_irrefl order_le_less uint_0_iff)
  have "uint (0 - n) = (0 - uint n) mod 2 ^ 32" by (simp add: uint_word_ariths)
  also have "\<dots> = (2 ^ 32 - uint n) mod 2 ^ 32"
    by (metis add.commute add_diff_eq diff_0 diff_conv_add_uminus mod_add_self1)
  also have "\<dots> = 2 ^ 32 - uint n" by (rule mod_pos_pos_trivial) (use z lt in linarith)+
  finally show "int (unat (0 - n)) = - sint n" using s by simp
qed

subsection \<open>The console: printk.c, panic.h\<close>

definition printk_uart_putc :: "char \<Rightarrow> 'a hw_scheme \<Rightarrow> 'a hw_scheme option" where
  "printk_uart_putc c s = do {
     s \<leftarrow> (if c = CHR 0x0A then UART_Put8 0x0D s else Some s);
     UART_Put8 (of_char c) s
   }"

definition vprintk :: "string \<Rightarrow> printk_arg list \<Rightarrow> 'a hw_scheme \<Rightarrow> 'a hw_scheme option" where
  "vprintk fmt args s = vprintk_with_putc printk_uart_putc fmt args s"

definition printk :: "string \<Rightarrow> printk_arg list \<Rightarrow> 'a hw_scheme \<Rightarrow> 'a hw_scheme option" where
  "printk fmt args s = vprintk fmt args s"

definition trace_current_el :: "'a hw_scheme \<Rightarrow> string" where
  "trace_current_el s =
     (let m = read_cpsr s AND CPSR_PEMODE_MASK
      in if m = CPSR_PEMODE_HYP then ''EL2'' else if m = CPSR_PEMODE_USR then ''EL0'' else ''EL1'')"

text \<open>\<open>trace\<close> names the calling function (\<open>__FUNCTION__\<close>); \<open>nl\<close> is the newline of a C format.\<close>

definition trace :: "string \<Rightarrow> string \<Rightarrow> printk_arg list \<Rightarrow> 'a hw_scheme \<Rightarrow> 'a hw_scheme option" where
  "trace func fmt args s = do {
     s \<leftarrow> printk ''TRACE[%s]:%s: '' [PStr (Some (trace_current_el s)), PStr (Some func)] s;
     printk fmt args s
   }"

definition nl :: string where "nl = [CHR 0x0A]"

text \<open>Each newline goes out as carriage return and newline.\<close>

definition crlf :: "string \<Rightarrow> u8 list" where
  "crlf t = concat (map (\<lambda>c. if c = CHR 0x0A then [0x0D, 0x0A] else [of_char c]) t)"

lemma printk_uart_putc_io:
  assumes "printk_uart_putc c s = Some s'"
  shows "io_out s s' (crlf [c])"
proof (cases "c = CHR 0x0A")
  case True
  with assms obtain s1 where "UART_Put8 0x0D s = Some s1" "UART_Put8 0x0A s1 = Some s'"
    by (auto simp: printk_uart_putc_def of_char_def split: bind_splits)
  with io_out_trans [OF UART_Put8_io UART_Put8_io] True show ?thesis by (fastforce simp: crlf_def)
next
  case False
  with assms UART_Put8_io show ?thesis by (auto simp: printk_uart_putc_def crlf_def)
qed

lemma putcs_uart_io: "putcs printk_uart_putc t s = Some s' \<Longrightarrow> io_out s s' (crlf t)"
proof (induction t arbitrary: s)
  case (Cons c t)
  then obtain s1 where "printk_uart_putc c s = Some s1" "putcs printk_uart_putc t s1 = Some s'"
    by (auto split: bind_splits)
  with Cons.IH io_out_trans [OF printk_uart_putc_io, of c s s1] show ?case by (fastforce simp: crlf_def)
qed (simp add: crlf_def io_out_refl)

lemma printk_uart_putc_live: "uart_live s \<Longrightarrow> \<exists>s'. printk_uart_putc c s = Some s'"
proof -
  assume l: "uart_live s"
  obtain s1 where s1: "UART_Put8 0x0D s = Some s1" using UART_Put8_live [OF l] by blast
  have "uart_live s1" using io_out_live [OF UART_Put8_io [OF s1]] l by simp
  from UART_Put8_live [OF this] UART_Put8_live [OF l] s1 show ?thesis
    by (auto simp: printk_uart_putc_def)
qed

lemma putcs_uart_live: "uart_live s \<Longrightarrow> \<exists>s'. putcs printk_uart_putc t s = Some s'"
proof (induction t arbitrary: s)
  case (Cons c t)
  obtain s1 where s1: "printk_uart_putc c s = Some s1" using printk_uart_putc_live [OF Cons.prems] by blast
  then have "uart_live s1" using io_out_live [OF printk_uart_putc_io [OF s1]] Cons.prems by simp
  with Cons.IH s1 show ?case by fastforce
qed simp

lemma printk_io:
  "printk fmt args s = Some s' \<longleftrightarrow> (\<exists>t. format fmt args = Some t \<and> putcs printk_uart_putc t s = Some s')"
  by (auto simp: printk_def vprintk_def vprintk_format split: bind_splits)

lemma printk_io_out: "printk fmt args s = Some s' \<Longrightarrow> \<exists>out. io_out s s' out"
  using putcs_uart_io by (fastforce simp: printk_io)

lemma trace_io_out: "trace func fmt args s = Some s' \<Longrightarrow> \<exists>out. io_out s s' out"
proof -
  assume "trace func fmt args s = Some s'"
  then obtain f0 a0 s1 where "printk f0 a0 s = Some s1" "printk fmt args s1 = Some s'"
    by (auto simp: trace_def split: bind_splits)
  then obtain a b where "io_out s s1 a" "io_out s1 s' b" using printk_io_out by meson
  then show "\<exists>out. io_out s s' out" by (blast intro: io_out_trans)
qed

lemma printk_live:
  "uart_live s \<Longrightarrow> format fmt args \<noteq> None \<Longrightarrow> \<exists>s'. printk fmt args s = Some s'"
  using putcs_uart_live by (fastforce simp: printk_io)

lemma trace_prefix: "format ''TRACE[%s]:%s: '' [PStr (Some a), PStr (Some b)] \<noteq> None"
  by (simp add: format_simps)

lemma trace_live:
  assumes "uart_live s" "format fmt args \<noteq> None"
  shows "\<exists>s'. trace func fmt args s = Some s'"
proof -
  obtain s1 where p: "printk ''TRACE[%s]:%s: '' [PStr (Some (trace_current_el s)), PStr (Some func)] s = Some s1"
    using printk_live [OF assms(1) trace_prefix] by blast
  then have "uart_live s1" using printk_io_out io_out_live assms(1) by blast
  from printk_live [OF this assms(2)] p show ?thesis by (simp add: trace_def)
qed

subsection \<open>Properties\<close>

text \<open>The numeric directives are exact. \<open>%u\<close>, \<open>%x\<close>, \<open>%p\<close>, \<open>%b\<close> and \<open>%d\<close> print a text that
  reads back as the 32-bit argument in base ten, sixteen and two, and as the signed number; a
  zero-padded width is a lower bound on the length, without changing the value.\<close>

theorem printk_numbers_roundtrip:
  "(\<exists>t. format ''%u'' [PInt n] = Some t \<and> text_val 10 t = unat n) \<and>
   (\<exists>t. format ''%x'' [PInt n] = Some t \<and> text_val 16 t = unat n) \<and>
   (\<exists>t. format ''%p'' [PInt n] = Some (''0x'' @ t) \<and> text_val 16 t = unat n) \<and>
   (\<exists>t. format ''%b'' [PInt n] = Some (''0b'' @ t) \<and> text_val 2 t = unat n) \<and>
   (\<exists>t. format ''%08x'' [PInt n] = Some t \<and> text_val 16 t = unat n \<and> 8 \<le> length t) \<and>
   (\<exists>t. format ''%d'' [PInt n] = Some ((if sint n < 0 then ''-'' else []) @ t) \<and>
      (if sint n < 0 then - int (text_val 10 t) else int (text_val 10 t)) = sint n)"
proof (intro conjI)
  have pad: "format ''%08x'' [PInt n] = Some (num_text BASE16_CHARS 16 n 8)"
    by (simp add: format.simps(2) directive_def arg_int_def is_digit_def Let_def)
  show "\<exists>t. format ''%08x'' [PInt n] = Some t \<and> text_val 16 t = unat n \<and> 8 \<le> length t"
    using pad num_text_val(3) [of n 8] num_text_length [of 8 BASE16_CHARS 16 n] by simp
  show "\<exists>t. format ''%d'' [PInt n] = Some ((if sint n < 0 then ''-'' else []) @ t) \<and>
      (if sint n < 0 then - int (text_val 10 t) else int (text_val 10 t)) = sint n"
  proof (cases "sint n < 0")
    case True
    then have "int (unat (0 - n)) = - sint n" by (rule int_unat_neg)
    then show ?thesis using True num_text_val(2) [of "0 - n" 0]
      by (simp add: format_simps signed_text_def)
  next
    case False
    then have "int (unat n) = sint n" by (rule int_unat_pos)
    then show ?thesis using False num_text_val(2) [of n 0] by (simp add: format_simps signed_text_def)
  qed
qed (simp_all add: format_simps num_text_val)

text \<open>C39: \<open>printk\<close> writes its text to the serial line with every newline preceded by a carriage
  return, and nothing else, and changes nothing but the device history. It returns when the
  transmitter is ready infinitely often and the call is defined.\<close>

theorem printk_correct:
  "(\<forall>s'. printk fmt args s = Some s' \<longrightarrow>
     (\<exists>t es. format fmt args = Some t \<and> s' = s\<lparr>hw_log := hw_log s @ es\<rparr> \<and> uart_bytes es = crlf t)) \<and>
   (uart_live s \<and> format fmt args \<noteq> None \<longrightarrow> (\<exists>s'. printk fmt args s = Some s'))"
  using putcs_uart_io printk_live [of s fmt args] by (fastforce simp: printk_io io_out_def)

theorem printk_correct_witness:
  "\<exists>s'. printk ''%u%c'' [PInt 42, PInt 0x0A] reset_hw = Some s' \<and>
     uart_bytes (hw_log s') = [0x34, 0x32, 0x0D, 0x0A]"
proof -
  have live: "uart_live reset_hw" by (auto simp: uart_live_def port_live_def reset_hw_def)
  have f: "format ''%u%c'' [PInt 42, PInt 0x0A] = Some (''42'' @ nl)" by code_simp
  obtain s' where s': "printk ''%u%c'' [PInt 42, PInt 0x0A] reset_hw = Some s'"
    using printk_correct [of "''%u%c''" "[PInt 42, PInt 0x0A]" reset_hw] live f by auto
  then obtain es where "s' = reset_hw\<lparr>hw_log := hw_log reset_hw @ es\<rparr>"
      "uart_bytes es = crlf (''42'' @ nl)"
    using printk_correct [of "''%u%c''" "[PInt 42, PInt 0x0A]" reset_hw] f by auto
  moreover have "crlf (''42'' @ nl) = [0x34, 0x32, 0x0D, 0x0A]"
    by (simp add: crlf_def nl_def of_char_def)
  ultimately show ?thesis using s' by (simp add: reset_hw_def)
qed

end
