(* ===== verification/Format_Spec.thy ===== *)
theory Format_Spec
  imports Printk
begin

section \<open>Formatted output, as a manual page would have it\<close>

text \<open>
  A reference for \<open>vprintk_with_putc\<close> that shares no helper with it: numerals are computed on natural
  numbers, most significant digit first; the sign is that of the 32-bit two's complement value; the width
  after \<open>%0\<close> is the number its digits write in positional notation. \<open>None\<close> is the undefined cases: an
  argument that is missing or of the wrong type, a width of \<open>2^31\<close> or more, and a format that ends in
  its width.
\<close>

definition digit_char :: "nat \<Rightarrow> char" where
  "digit_char d = char_of (if d < 10 then 48 + d else 87 + d)"

fun radix_text :: "nat \<Rightarrow> nat \<Rightarrow> string" where
  "radix_text b n = (if b < 2 \<or> n < b then [digit_char n] else radix_text b (n div b) @ [digit_char (n mod b)])"

declare radix_text.simps [simp del]

definition zero_padded :: "nat \<Rightarrow> string \<Rightarrow> string" where
  "zero_padded w t = replicate (w - length t) (CHR ''0'') @ t"

definition signed_decimal :: "nat \<Rightarrow> int \<Rightarrow> string" where
  "signed_decimal w i =
     (if i < 0 then ''-'' @ zero_padded (w - 1) (radix_text 10 (nat \<bar>i\<bar>)) else zero_padded w (radix_text 10 (nat \<bar>i\<bar>)))"

text \<open>The number a row of decimal digits writes.\<close>

definition decimal_digits :: string where "decimal_digits = ''0123456789''"

definition digit_number :: "char \<Rightarrow> nat" where
  "digit_number c = length (takeWhile (\<lambda>x. x \<noteq> c) decimal_digits)"

definition decimal_number :: "string \<Rightarrow> nat" where
  "decimal_number ds = (\<Sum>i < length ds. digit_number (ds ! i) * 10 ^ (length ds - 1 - i))"

text \<open>The text of an integer argument under a conversion, without and with a width.\<close>

definition integer_text :: "char \<Rightarrow> u32 \<Rightarrow> string option" where
  "integer_text d n =
     (if d = CHR ''d'' then Some (signed_decimal 0 (sint n))
      else if d = CHR ''u'' then Some (radix_text 10 (unat n))
      else if d = CHR ''x'' then Some (radix_text 16 (unat n))
      else if d = CHR ''p'' then Some (''0x'' @ radix_text 16 (unat n))
      else if d = CHR ''b'' then Some (''0b'' @ radix_text 2 (unat n))
      else if d = CHR ''c'' then Some [char_of (unat n mod 256)]
      else None)"

definition padded_text :: "char \<Rightarrow> nat \<Rightarrow> u32 \<Rightarrow> string option" where
  "padded_text d w n =
     (if d = CHR ''d'' then Some (signed_decimal w (sint n))
      else if d = CHR ''x'' then Some (zero_padded w (radix_text 16 (unat n)))
      else None)"

lemma dropWhile_shorter: "dropWhile P xs = e # rest \<Longrightarrow> length rest < length xs"
  using length_dropWhile_le [of P xs] by (metis Suc_le_eq length_Cons)

function printf_text :: "string \<Rightarrow> printk_arg list \<Rightarrow> string option" where
  "printf_text [] args = Some []"
| "printf_text [c] args = Some [c]"
| "printf_text (c # d # fmt) args =
     (if c \<noteq> CHR ''%'' then map_option ((@) [c]) (printf_text (d # fmt) args)
      else if d = CHR ''0'' then
        (let w = decimal_number (takeWhile (\<lambda>x. x \<in> set decimal_digits) fmt)
         in case dropWhile (\<lambda>x. x \<in> set decimal_digits) fmt of
              [] \<Rightarrow> None
            | e # rest \<Rightarrow>
                if w \<ge> 2 ^ 31 then None
                else if e \<in> set ''dx'' then
                  (case args of
                     PInt n # args \<Rightarrow> do { t \<leftarrow> padded_text e w n; map_option ((@) t) (printf_text rest args) }
                   | _ \<Rightarrow> None)
                else map_option ((@) (''%0'' @ radix_text 10 w @ [e])) (printf_text rest args))
      else if d \<in> set ''duxpbc'' then
        (case args of
           PInt n # args \<Rightarrow> do { t \<leftarrow> integer_text d n; map_option ((@) t) (printf_text fmt args) }
         | _ \<Rightarrow> None)
      else if d = CHR ''s'' then
        (case args of
           PStr p # args \<Rightarrow> map_option ((@) (case p of None \<Rightarrow> ''(null)'' | Some t \<Rightarrow> t)) (printf_text fmt args)
         | _ \<Rightarrow> None)
      else map_option ((@) (if d = CHR ''%'' then ''%'' else [CHR ''%'', d])) (printf_text fmt args))"
  by pat_completeness auto
termination
  by (relation "measure (\<lambda>(fmt, args). length fmt)") (auto dest: dropWhile_shorter)

declare printf_text.simps(3) [simp del]

subsection \<open>Numerals\<close>

lemma chars_digit:
  "i < 2 \<Longrightarrow> BASE2_CHARS ! i = digit_char i" "i < 10 \<Longrightarrow> BASE10_CHARS ! i = digit_char i"
  "i < 16 \<Longrightarrow> BASE16_CHARS ! i = digit_char i"
proof -
  have all: "list_all (\<lambda>i. BASE2_CHARS ! i = digit_char i) [0..<2]" "list_all (\<lambda>i. BASE10_CHARS ! i = digit_char i) [0..<10]"
    "list_all (\<lambda>i. BASE16_CHARS ! i = digit_char i) [0..<16]"
    by code_simp+
  show "i < 2 \<Longrightarrow> BASE2_CHARS ! i = digit_char i" "i < 10 \<Longrightarrow> BASE10_CHARS ! i = digit_char i"
    "i < 16 \<Longrightarrow> BASE16_CHARS ! i = digit_char i"
    using all unfolding list_all_iff by simp_all
qed

text \<open>The buffered digits, turned round, are the numeral.\<close>

lemma num_digits_radix:
  assumes "2 \<le> base" "\<And>i. i < unat base \<Longrightarrow> chars ! i = digit_char i"
  shows "rev (num_digits chars base n) = radix_text (unat base) (unat n)"
  using assms
proof (induction chars base n rule: num_digits.induct)
  case (1 chars base n)
  let ?m = "n div base"
  have b: "\<not> base < 2" "\<not> unat base < 2" using 1(2) by (simp_all add: not_less word_le_nat_alt)
  have d: "chars ! unat (n mod base) = digit_char (unat n mod unat base)"
    using b(2) by (simp add: 1(3) unat_mod)
  have z: "?m = 0 \<longleftrightarrow> unat n < unat base"
    using b(2) by (auto simp: unat_eq_0 [symmetric] unat_div div_eq_0_iff)
  show ?case
  proof (cases "?m = 0")
    case True
    then show ?thesis using z d b(1) by (simp add: num_digits.simps [of chars base n] radix_text.simps [of "unat base"] Let_def)
  next
    case False
    have IH: "rev (num_digits chars base ?m) = radix_text (unat base) (unat ?m)"
      using 1(1) [OF b(1) refl False] 1(2,3) by simp
    from False show ?thesis using z d b
      by (simp add: num_digits.simps [of chars base n] radix_text.simps [of "unat base" "unat n"] Let_def IH unat_div)
  qed
qed

lemma num_text_radix:
  "num_text BASE2_CHARS 2 n w = zero_padded w (radix_text 2 (unat n))"
  "num_text BASE10_CHARS 10 n w = zero_padded w (radix_text 10 (unat n))"
  "num_text BASE16_CHARS 16 n w = zero_padded w (radix_text 16 (unat n))"
proof -
  have any: "num_text chars base n w = zero_padded w (radix_text (unat base) (unat n))"
    if "2 \<le> base" "\<And>i. i < unat base \<Longrightarrow> chars ! i = digit_char i" for chars base
    using num_digits_radix [OF that] by (metis num_text_def zero_padded_def length_rev)
  show "num_text BASE2_CHARS 2 n w = zero_padded w (radix_text 2 (unat n))" using any [of 2 BASE2_CHARS] chars_digit(1) by simp
  show "num_text BASE10_CHARS 10 n w = zero_padded w (radix_text 10 (unat n))" using any [of 10 BASE10_CHARS] chars_digit(2) by simp
  show "num_text BASE16_CHARS 16 n w = zero_padded w (radix_text 16 (unat n))" using any [of 16 BASE16_CHARS] chars_digit(3) by simp
qed

lemma unpadded [simp]: "zero_padded 0 t = t"
  by (simp add: zero_padded_def)

lemma signed_text_decimal: "signed_text n w = signed_decimal w (sint n)"
proof (cases "sint n < 0")
  case True
  then have "unat (0 - n) = nat \<bar>sint n\<bar>" using int_unat_neg [OF True] True by (metis abs_of_neg nat_int)
  then show ?thesis using True unfolding signed_text_def signed_decimal_def num_text_radix by simp
next
  case False
  then have "unat n = nat \<bar>sint n\<bar>" using int_unat_pos [OF False] False by (metis abs_of_nonneg nat_int not_less)
  then show ?thesis using False unfolding signed_text_def signed_decimal_def num_text_radix by simp
qed

subsection \<open>Widths\<close>

lemma digits_ascii: "c \<in> set decimal_digits \<longleftrightarrow> is_digit c" "is_digit c \<Longrightarrow> digit_number c = of_char c - 48"
proof -
  have all: "list_all (\<lambda>c. is_digit c \<and> digit_number c = of_char c - 48) decimal_digits" by code_simp
  have ascii: "list_all (\<lambda>k. char_of k \<in> set decimal_digits) [48..<58 :: nat]" by code_simp
  have "c \<in> set decimal_digits" if "is_digit c"
  proof -
    have "of_char c \<in> set [48..<58 :: nat]" using that unfolding is_digit_def set_upt atLeastLessThan_iff by simp
    with ascii have "char_of (of_char c :: nat) \<in> set decimal_digits" unfolding list_all_iff by blast
    then show ?thesis by simp
  qed
  then show "c \<in> set decimal_digits \<longleftrightarrow> is_digit c" "is_digit c \<Longrightarrow> digit_number c = of_char c - 48"
    using all unfolding list_all_iff by blast+
qed

lemma decimal_Cons: "decimal_number (c # ds) = digit_number c * 10 ^ length ds + decimal_number ds"
  by (simp add: decimal_number_def sum.lessThan_Suc_shift del: sum.lessThan_Suc)

lemma parse_padding_decimal:
  assumes "p < 2 ^ 31"
  shows "parse_padding fmt p =
    (let ds = takeWhile (\<lambda>x. x \<in> set decimal_digits) fmt; w = p * 10 ^ length ds + decimal_number ds
     in if w \<ge> 2 ^ 31 then None else Some (w, dropWhile (\<lambda>x. x \<in> set decimal_digits) fmt))"
  using assms
proof (induction fmt arbitrary: p)
  case Nil
  then show ?case by (simp add: decimal_number_def)
next
  case (Cons c fmt)
  let ?ds = "takeWhile (\<lambda>x. x \<in> set decimal_digits) fmt"
  show ?case
  proof (cases "is_digit c")
    case False
    then show ?thesis using Cons.prems by (simp add: digits_ascii(1) decimal_number_def)
  next
    case True
    let ?q = "p * 10 + digit_number c"
    have w: "p * 10 ^ length (c # ?ds) + decimal_number (c # ?ds) = ?q * 10 ^ length ?ds + decimal_number ?ds"
      by (simp add: decimal_Cons algebra_simps)
    have le: "?q \<le> ?q * 10 ^ length ?ds + decimal_number ?ds" by (simp add: trans_le_add1)
    have step: "parse_padding (c # fmt) p = (if ?q \<ge> 2 ^ 31 then None else parse_padding fmt ?q)"
      using True by (simp add: digits_ascii(2) Let_def)
    have tw: "takeWhile (\<lambda>x. x \<in> set decimal_digits) (c # fmt) = c # ?ds"
      "dropWhile (\<lambda>x. x \<in> set decimal_digits) (c # fmt) = dropWhile (\<lambda>x. x \<in> set decimal_digits) fmt"
      using True by (simp_all add: digits_ascii(1))
    show ?thesis
    proof (cases "?q \<ge> 2 ^ 31")
      case True
      then show ?thesis unfolding step tw Let_def w using le by simp
    next
      case False
      then have "?q < 2 ^ 31" by simp
      from Cons.IH [OF this] show ?thesis unfolding step tw Let_def w using False by simp
    qed
  qed
qed

subsection \<open>The printer and the reference\<close>

lemma of_nat_width: "w < 2 ^ 31 \<Longrightarrow> unat (of_nat w :: u32) = w"
  by (simp add: unat_of_nat_small)

lemma text_bases:
  "num_text BASE2_CHARS 2 n 0 = radix_text 2 (unat n)" "num_text BASE10_CHARS 10 n 0 = radix_text 10 (unat n)"
  "num_text BASE16_CHARS 16 n 0 = radix_text 16 (unat n)"
  by (simp_all add: num_text_radix)

lemma format_printf: "format fmt args = printf_text fmt args"
proof (induction fmt args rule: printf_text.induct)
  case (2 c args)
  then show ?case by (simp add: format.simps)
next
  case (3 c d fmt args)
  show ?case
  proof (cases "c = CHR ''%''")
    case False
    then show ?thesis using 3(1) by (simp add: format_lit printf_text.simps(3) fun_eq_iff map_option_case split: option.split)
  next
    case c: True
    have split: "format (c # d # fmt) args = (case directive d fmt args of
         None \<Rightarrow> None | Some (t, rest, args) \<Rightarrow> map_option ((@) t) (format rest args))"
      by (simp add: c format.simps(2))
    show ?thesis
    proof (cases "d = CHR ''0''")
      case False
      then show ?thesis unfolding split using c 3
        by (auto simp: printf_text.simps(3) directive_def arg_int_def arg_str_def integer_text_def text_bases
            signed_text_decimal string_text_def split: list.split printk_arg.split)
    next
      case d: True
      let ?w = "decimal_number (takeWhile (\<lambda>x. x \<in> set decimal_digits) fmt)"
      have parse: "parse_padding fmt 0 = (if ?w \<ge> 2 ^ 31 then None
          else Some (?w, dropWhile (\<lambda>x. x \<in> set decimal_digits) fmt))"
        using parse_padding_decimal [of 0 fmt] by (simp add: Let_def)
      show ?thesis
      proof (cases "dropWhile (\<lambda>x. x \<in> set decimal_digits) fmt")
        case Nil
        then show ?thesis unfolding split by (simp add: c d printf_text.simps(3) directive_def parse Let_def del: dropWhile_eq_Nil_conv)
      next
        case (Cons e rest)
        show ?thesis unfolding split using c d Cons 3
          by (auto simp: printf_text.simps(3) directive_def arg_int_def parse padded_text_def num_text_radix
              signed_text_decimal of_nat_width split: list.split printk_arg.split)
      qed
    qed
  qed
qed simp

subsection \<open>Properties\<close>

text \<open>C38: the printer prints what a format and its arguments mean. For every output function,
  \<open>vprintk_with_putc\<close> outputs exactly the text of the reference above, one character at a time and in
  order: literal characters, \<open>%d\<close>, \<open>%u\<close>, \<open>%x\<close>, \<open>%p\<close> and \<open>%b\<close> as numerals of the
  argument, \<open>%0nd\<close> and \<open>%0nx\<close> filled up with zeros, the sign included in the width, \<open>%c\<close>,
  \<open>%s\<close> and \<open>%%\<close>, and an unknown conversion as it stands. It goes wrong exactly when the output function
  does or the call is undefined.\<close>

theorem vprintk_refines_printf:
  "vprintk_with_putc putc fmt args s =
     (case printf_text fmt args of None \<Rightarrow> None | Some t \<Rightarrow> putcs putc t s)"
  by (simp add: vprintk_format format_printf split: option.split)

end
