(* ===== verification/Vm_Region.thy ===== *)
theory Vm_Region
  imports Arch_Regs
begin

section \<open>VM regions\<close>

text \<open>
  \<open>include/hv/vm.h\<close>, \<open>include/hv/stage2.h\<close> (the types) and the region half of \<open>src/hv/vm.c\<close>:
  what a guest's address space is made of. A region is RAM backed by physical memory, a guard, or
  an emulated device. The lemmas read the 64-bit bounds as intervals of natural numbers, show that
  the overlap test decides intersection, and that \<open>hv_vm_add_region\<close> keeps the region table valid
  and pairwise disjoint, so that \<open>hv_vm_find_region\<close> has at most one answer.

  A \<open>const HvVmRegion *\<close> that may be null is an option. \<open>regions[HV_MAX_VM_REGIONS]\<close> is a list of
  that length, of which the first \<open>region_count\<close> entries are in use.
\<close>

abbreviation (input) HV_VM_OK :: int where "HV_VM_OK \<equiv> 0"
abbreviation (input) HV_VM_ERR_INVAL :: int where "HV_VM_ERR_INVAL \<equiv> -1"
abbreviation (input) HV_VM_ERR_RANGE :: int where "HV_VM_ERR_RANGE \<equiv> -2"
abbreviation (input) HV_VM_ERR_FULL :: int where "HV_VM_ERR_FULL \<equiv> -3"
abbreviation (input) HV_VM_ERR_OVERLAP :: int where "HV_VM_ERR_OVERLAP \<equiv> -4"
abbreviation (input) HV_MAX_VMS :: nat where "HV_MAX_VMS \<equiv> 2"
abbreviation (input) HV_MAX_VM_REGIONS :: nat where "HV_MAX_VM_REGIONS \<equiv> 8"
abbreviation (input) HV_STAGE2_PAGE_SIZE :: u64 where "HV_STAGE2_PAGE_SIZE \<equiv> 0x1000"

datatype HvVmRegionType = HV_VM_REGION_RAM | HV_VM_REGION_RAM_GUARD | HV_VM_REGION_MMIO

datatype HvVmMmioDevice = HV_VM_MMIO_DEVICE_NONE | HV_VM_MMIO_DEVICE_VUART

record HvVmRegion =
  ipa_base :: u64
  region_size :: u64
  pa_base :: u64
  attrs :: u64
  region_type :: HvVmRegionType
  region_device :: HvVmMmioDevice

text \<open>
  The stage-2 state of a VM. A \<open>HvStage2Desc *\<close> is an index into the static array
  \<open>stage2_table_pools\<close> seen as one flat array of descriptors.
\<close>

record HvStage2 =
  root_va :: nat
  root_pa :: u64
  pool_va :: nat
  pool_pa :: u64
  pool_pages :: u32
  pool_used :: u32

record HvVm =
  vm_id :: u32
  vm_vmid :: u32
  vm_regions :: "HvVmRegion list"
  region_count :: u32
  stage2 :: HvStage2

definition zero_HvVmRegion :: HvVmRegion where
  "zero_HvVmRegion = \<lparr>ipa_base = 0, region_size = 0, pa_base = 0, attrs = 0,
     region_type = HV_VM_REGION_RAM, region_device = HV_VM_MMIO_DEVICE_NONE\<rparr>"

definition zero_HvStage2 :: HvStage2 where
  "zero_HvStage2 = \<lparr>root_va = 0, root_pa = 0, pool_va = 0, pool_pa = 0, pool_pages = 0,
     pool_used = 0\<rparr>"

definition zero_HvVm :: HvVm where
  "zero_HvVm = \<lparr>vm_id = 0, vm_vmid = 0, vm_regions = replicate HV_MAX_VM_REGIONS zero_HvVmRegion,
     region_count = 0, stage2 = zero_HvStage2\<rparr>"

subsection \<open>Operations\<close>

definition hv_vm_aligned :: "u64 \<Rightarrow> bool" where
  "hv_vm_aligned v \<longleftrightarrow> v AND (HV_STAGE2_PAGE_SIZE - 1) = 0"

definition hv_vm_fits_v1_32bit :: "u64 \<Rightarrow> u64 \<Rightarrow> bool" where
  "hv_vm_fits_v1_32bit base sz =
     (if base > 0xffffffff \<or> sz > 0x100000000 then False
      else base \<le> 0x100000000 - sz)"

definition hv_vm_region_backed :: "HvVmRegion \<Rightarrow> bool" where
  "hv_vm_region_backed region \<longleftrightarrow> region_type region = HV_VM_REGION_RAM"

definition hv_vm_region_valid :: "HvVmRegion option \<Rightarrow> bool" where
  "hv_vm_region_valid region_p =
     (case region_p of
        None \<Rightarrow> False
      | Some region \<Rightarrow>
          if region_size region = 0 \<or> \<not> hv_vm_aligned (ipa_base region) \<or>
             \<not> hv_vm_aligned (region_size region) then False
          else if \<not> hv_vm_fits_v1_32bit (ipa_base region) (region_size region) then False
          else if hv_vm_region_backed region \<and>
             (\<not> hv_vm_aligned (pa_base region) \<or>
              \<not> hv_vm_fits_v1_32bit (pa_base region) (region_size region)) then False
          else if region_type region = HV_VM_REGION_MMIO
            then region_device region \<noteq> HV_VM_MMIO_DEVICE_NONE
          else region_type region = HV_VM_REGION_RAM \<or>
               region_type region = HV_VM_REGION_RAM_GUARD)"

definition hv_vm_region_contains :: "HvVmRegion option \<Rightarrow> u64 \<Rightarrow> bool" where
  "hv_vm_region_contains region_p ipa =
     (case region_p of
        None \<Rightarrow> False
      | Some region \<Rightarrow> ipa \<ge> ipa_base region \<and> ipa - ipa_base region < region_size region)"

definition hv_vm_regions_overlap :: "HvVmRegion \<Rightarrow> HvVmRegion \<Rightarrow> bool" where
  "hv_vm_regions_overlap a b =
     (let a_end = ipa_base a + region_size a; b_end = ipa_base b + region_size b
      in ipa_base a < b_end \<and> ipa_base b < a_end)"

text \<open>The region table in use: what the loops of \<open>vm.c\<close> iterate over.\<close>

definition active_regions :: "HvVm \<Rightarrow> HvVmRegion list" where
  "active_regions vm = take (unat (region_count vm)) (vm_regions vm)"

definition hv_vm_add_region :: "HvVm option \<Rightarrow> HvVmRegion option \<Rightarrow> int \<times> HvVm option" where
  "hv_vm_add_region vm_p region_p =
     (case (vm_p, region_p) of
        (Some vm, Some region) \<Rightarrow>
          if \<not> hv_vm_region_valid (Some region) then (HV_VM_ERR_INVAL, Some vm)
          else if region_count vm \<ge> of_nat HV_MAX_VM_REGIONS then (HV_VM_ERR_FULL, Some vm)
          else if list_ex (\<lambda>r. hv_vm_regions_overlap r region) (active_regions vm)
            then (HV_VM_ERR_OVERLAP, Some vm)
          else (HV_VM_OK,
                Some (vm\<lparr>vm_regions := (vm_regions vm)[unat (region_count vm) := region],
                         region_count := region_count vm + 1\<rparr>))
      | _ \<Rightarrow> (HV_VM_ERR_INVAL, vm_p))"

definition hv_vm_find_region :: "HvVm option \<Rightarrow> u64 \<Rightarrow> HvVmRegion option" where
  "hv_vm_find_region vm_p ipa =
     (case vm_p of
        None \<Rightarrow> None
      | Some vm \<Rightarrow> find (\<lambda>r. hv_vm_region_contains (Some r) ipa) (active_regions vm))"

subsection \<open>Regions as intervals\<close>

definition region_lo :: "HvVmRegion \<Rightarrow> nat" where
  "region_lo r = unat (ipa_base r)"

definition region_hi :: "HvVmRegion \<Rightarrow> nat" where
  "region_hi r = unat (ipa_base r) + unat (region_size r)"

lemma hv_vm_aligned_iff: "hv_vm_aligned v \<longleftrightarrow> 4096 dvd unat v"
  by (simp add: hv_vm_aligned_def and_0xfff_eq_0_iff)

lemma hv_vm_fits_iff:
  "hv_vm_fits_v1_32bit base sz \<longleftrightarrow> unat base < 2 ^ 32 \<and> unat base + unat sz \<le> 2 ^ 32"
proof (cases "base > 0xffffffff \<or> sz > 0x100000000")
  case True
  then have "2 ^ 32 \<le> unat base \<or> 2 ^ 32 < unat sz" by (auto simp: word_less_nat_alt)
  with True show ?thesis by (auto simp: hv_vm_fits_v1_32bit_def)
next
  case False
  then have b: "unat base < 2 ^ 32" and s: "unat sz \<le> 2 ^ 32"
    by (simp_all add: word_less_nat_alt not_less)
  from s have "unat (0x100000000 - sz) = 2 ^ 32 - unat sz"
    by (simp add: unat_sub word_le_nat_alt)
  with False b s show ?thesis
    by (auto simp: hv_vm_fits_v1_32bit_def word_le_nat_alt)
qed

lemma hv_vm_region_contains_iff:
  "hv_vm_region_contains (Some r) ipa \<longleftrightarrow> region_lo r \<le> unat ipa \<and> unat ipa < region_hi r"
proof (cases "ipa_base r \<le> ipa")
  case True
  then show ?thesis
    by (auto simp: hv_vm_region_contains_def region_lo_def region_hi_def word_le_nat_alt
        word_less_nat_alt unat_sub)
next
  case False
  then show ?thesis
    by (auto simp: hv_vm_region_contains_def region_lo_def region_hi_def word_le_nat_alt)
qed

lemma hv_vm_region_contains_None [null_simps]: "\<not> hv_vm_region_contains None ipa"
  by (simp add: hv_vm_region_contains_def)

lemma hv_vm_region_valid_None [null_simps]: "\<not> hv_vm_region_valid None"
  by (simp add: hv_vm_region_valid_def)

lemma region_valid_iff:
  "hv_vm_region_valid (Some r) \<longleftrightarrow>
     region_size r \<noteq> 0 \<and> 4096 dvd region_lo r \<and> 4096 dvd unat (region_size r) \<and>
     region_hi r \<le> 2 ^ 32 \<and>
     (region_type r = HV_VM_REGION_RAM \<longrightarrow>
        4096 dvd unat (pa_base r) \<and> unat (pa_base r) + unat (region_size r) \<le> 2 ^ 32) \<and>
     (region_type r = HV_VM_REGION_MMIO \<longrightarrow> region_device r \<noteq> HV_VM_MMIO_DEVICE_NONE)"
proof -
  have pos: "x + unat (region_size r) \<le> 2 ^ 32 \<Longrightarrow> region_size r \<noteq> 0 \<Longrightarrow> x < 2 ^ 32" for x
    by (metis add_leE le_neq_implies_less less_add_same_cancel1 linorder_not_less unat_gt_0)
  show ?thesis
    by (cases "region_type r")
       (use pos in \<open>auto simp: hv_vm_region_valid_def hv_vm_aligned_iff hv_vm_fits_iff
          hv_vm_region_backed_def region_lo_def region_hi_def\<close>)
qed

lemma region_valid_bounds:
  assumes "hv_vm_region_valid (Some r)"
  shows "region_lo r < region_hi r" "region_hi r \<le> 2 ^ 32" "4096 dvd region_lo r"
    "4096 dvd region_hi r"
  using assms by (auto simp: region_valid_iff region_lo_def region_hi_def unat_gt_0)

lemma overlap_iff:
  assumes "hv_vm_region_valid (Some a)" and "hv_vm_region_valid (Some b)"
  shows "hv_vm_regions_overlap a b \<longleftrightarrow> region_lo a < region_hi b \<and> region_lo b < region_hi a"
proof -
  have "unat (ipa_base r + region_size r) = region_hi r" if "hv_vm_region_valid (Some r)" for r
    using region_valid_bounds(2) [OF that] by (simp add: region_hi_def unat_add_no_wrap)
  with assms show ?thesis
    by (simp add: hv_vm_regions_overlap_def word_less_nat_alt Let_def region_lo_def)
qed

subsection \<open>The region table invariant\<close>

definition regions_disjoint :: "HvVmRegion \<Rightarrow> HvVmRegion \<Rightarrow> bool" where
  "regions_disjoint a b \<longleftrightarrow> region_hi a \<le> region_lo b \<or> region_hi b \<le> region_lo a"

definition region_table_ok :: "HvVm \<Rightarrow> bool" where
  "region_table_ok vm \<longleftrightarrow>
     length (vm_regions vm) = HV_MAX_VM_REGIONS \<and>
     unat (region_count vm) \<le> HV_MAX_VM_REGIONS \<and>
     (\<forall>r \<in> set (active_regions vm). hv_vm_region_valid (Some r)) \<and>
     sorted_wrt regions_disjoint (active_regions vm)"

lemma active_regions_stage2 [simp]:
  "active_regions (vm\<lparr>stage2 := x\<rparr>) = active_regions vm"
  "region_table_ok (vm\<lparr>stage2 := x\<rparr>) = region_table_ok vm"
  by (simp_all add: active_regions_def region_table_ok_def)

lemma region_table_ok_zero: "region_table_ok (zero_HvVm\<lparr>vm_id := i, vm_vmid := j\<rparr>)"
  by (simp add: region_table_ok_def active_regions_def zero_HvVm_def)

lemma active_regions_append:
  assumes "length (vm_regions vm) = HV_MAX_VM_REGIONS" and "unat (region_count vm) < HV_MAX_VM_REGIONS"
  shows "active_regions (vm\<lparr>vm_regions := (vm_regions vm)[unat (region_count vm) := r],
     region_count := region_count vm + 1\<rparr>) = active_regions vm @ [r]"
proof -
  have "unat (region_count vm + 1) = Suc (unat (region_count vm))"
    using assms(2) by (subst unat_add_no_wrap) auto
  with assms show ?thesis
    by (simp add: active_regions_def take_Suc_conv_app_nth)
qed

lemma region_count_full_iff:
  "region_count vm \<ge> of_nat HV_MAX_VM_REGIONS \<longleftrightarrow> HV_MAX_VM_REGIONS \<le> unat (region_count vm)"
  by (simp add: word_le_nat_alt)

lemma hv_vm_add_region_null [null_simps]:
  "hv_vm_add_region None r = (HV_VM_ERR_INVAL, None)"
  "hv_vm_add_region (Some vm) None = (HV_VM_ERR_INVAL, Some vm)"
  by (simp_all add: hv_vm_add_region_def split: option.split)

lemma hv_vm_add_region_Some:
  "hv_vm_add_region (Some vm) (Some r) =
     (if \<not> hv_vm_region_valid (Some r) then (HV_VM_ERR_INVAL, Some vm)
      else if HV_MAX_VM_REGIONS \<le> unat (region_count vm) then (HV_VM_ERR_FULL, Some vm)
      else if list_ex (\<lambda>x. hv_vm_regions_overlap x r) (active_regions vm)
        then (HV_VM_ERR_OVERLAP, Some vm)
      else (HV_VM_OK, Some (vm\<lparr>vm_regions := (vm_regions vm)[unat (region_count vm) := r],
              region_count := region_count vm + 1\<rparr>)))"
  unfolding hv_vm_add_region_def region_count_full_iff by simp

lemma hv_vm_add_region_OK:
  assumes "hv_vm_add_region (Some vm) (Some r) = (HV_VM_OK, vm')" and "region_table_ok vm"
  obtains v where "vm' = Some v" "region_table_ok v" "active_regions v = active_regions vm @ [r]"
    "stage2 v = stage2 vm" "vm_id v = vm_id vm" "vm_vmid v = vm_vmid vm"
proof -
  let ?v = "vm\<lparr>vm_regions := (vm_regions vm)[unat (region_count vm) := r],
              region_count := region_count vm + 1\<rparr>"
  from assms(1) have v: "vm' = Some ?v" and valid: "hv_vm_region_valid (Some r)"
    and room: "unat (region_count vm) < 8"
    and no: "\<not> list_ex (\<lambda>x. hv_vm_regions_overlap x r) (active_regions vm)"
    by (auto simp: hv_vm_add_region_Some split: if_splits)
  from assms(2) room have app: "active_regions ?v = active_regions vm @ [r]"
    by (intro active_regions_append) (simp_all add: region_table_ok_def)
  have "regions_disjoint x r" if "x \<in> set (active_regions vm)" for x
    using that no assms(2) valid
    by (fastforce simp: list_ex_iff regions_disjoint_def region_table_ok_def overlap_iff)
  moreover have "unat (region_count vm + 1) = Suc (unat (region_count vm))"
    using room by (subst unat_add_no_wrap) auto
  ultimately have "region_table_ok ?v"
    using assms(2) room valid unfolding region_table_ok_def app
    by (auto simp: sorted_wrt_append)
  with that v app show thesis by simp
qed

lemma find_region_Some:
  assumes "hv_vm_find_region (Some vm) ipa = Some r"
  shows "r \<in> set (active_regions vm)" "region_lo r \<le> unat ipa" "unat ipa < region_hi r"
proof -
  from assms obtain i where "i < length (active_regions vm)" "active_regions vm ! i = r"
    "hv_vm_region_contains (Some r) ipa"
    unfolding hv_vm_find_region_def option.case find_Some_iff by blast
  then show "r \<in> set (active_regions vm)" "region_lo r \<le> unat ipa" "unat ipa < region_hi r"
    by (auto simp: hv_vm_region_contains_iff)
qed

lemma find_region_None:
  "hv_vm_find_region (Some vm) ipa = None \<longleftrightarrow>
     (\<forall>r \<in> set (active_regions vm). \<not> (region_lo r \<le> unat ipa \<and> unat ipa < region_hi r))"
  by (auto simp: hv_vm_find_region_def find_None_iff hv_vm_region_contains_iff)

lemma hv_vm_find_region_null [null_simps]: "hv_vm_find_region None ipa = None"
  by (simp add: hv_vm_find_region_def)

lemma sorted_wrt_sym_distinct_unique:
  assumes "sorted_wrt R xs" and "x \<in> set xs" "y \<in> set xs" and "\<And>a b. R a b \<Longrightarrow> R b a"
  shows "x = y \<or> R x y"
  using assms(1-3)
proof (induction xs)
  case (Cons z zs)
  then show ?case using assms(4) by auto
qed simp

lemma find_region_unique:
  assumes ok: "region_table_ok vm" and r: "r \<in> set (active_regions vm)"
    and "region_lo r \<le> unat ipa" "unat ipa < region_hi r"
  shows "hv_vm_find_region (Some vm) ipa = Some r"
proof -
  have "y = r" if "y \<in> set (active_regions vm)" "hv_vm_region_contains (Some y) ipa" for y
  proof -
    have "y = r \<or> regions_disjoint y r"
      using ok that(1) r by (intro sorted_wrt_sym_distinct_unique [of regions_disjoint])
        (auto simp: region_table_ok_def regions_disjoint_def)
    with that(2) assms(3,4) show ?thesis
      by (auto simp: regions_disjoint_def hv_vm_region_contains_iff)
  qed
  moreover have "hv_vm_region_contains (Some r) ipa"
    using assms(3,4) by (simp add: hv_vm_region_contains_iff)
  ultimately show ?thesis
    unfolding hv_vm_find_region_def option.case using r by (intro find_unique)
qed

subsection \<open>Properties\<close>

lemma length_active_regions:
  "region_table_ok vm \<Longrightarrow> length (active_regions vm) = unat (region_count vm)"
  by (simp add: region_table_ok_def active_regions_def)

definition intervals_meet :: "HvVmRegion \<Rightarrow> HvVmRegion \<Rightarrow> bool" where
  "intervals_meet a b \<longleftrightarrow> region_lo a < region_hi b \<and> region_lo b < region_hi a"

text \<open>On a valid region table \<open>hv_vm_add_region\<close> answers \<open>INVAL\<close> exactly for an invalid region,
  \<open>FULL\<close> exactly when all eight entries are used, \<open>OVERLAP\<close> exactly when an active region
  intersects the new one, and \<open>OK\<close> otherwise. On \<open>OK\<close> the region is appended and the table stays
  valid and disjoint, on an error nothing changes.\<close>

theorem add_region_correct:
  assumes "region_table_ok vm" and "hv_vm_add_region (Some vm) (Some r) = (res, vm')"
  shows "res = (if \<not> hv_vm_region_valid (Some r) then HV_VM_ERR_INVAL
      else if length (active_regions vm) = HV_MAX_VM_REGIONS then HV_VM_ERR_FULL
      else if \<exists>x \<in> set (active_regions vm). intervals_meet x r then HV_VM_ERR_OVERLAP
      else HV_VM_OK) \<and>
    (if res = HV_VM_OK then \<exists>v. vm' = Some v \<and> region_table_ok v \<and>
      active_regions v = active_regions vm @ [r] \<and> stage2 v = stage2 vm \<and>
      vm_id v = vm_id vm \<and> vm_vmid v = vm_vmid vm
     else vm' = Some vm)"
proof (intro conjI)
  have len: "8 \<le> unat (region_count vm) \<longleftrightarrow> length (active_regions vm) = 8"
    using assms(1) by (auto simp: length_active_regions region_table_ok_def)
  have meet: "list_ex (\<lambda>x. hv_vm_regions_overlap x r) (active_regions vm) \<longleftrightarrow>
      (\<exists>x \<in> set (active_regions vm). intervals_meet x r)" if "hv_vm_region_valid (Some r)"
    using assms(1) that
    by (auto simp: list_ex_iff overlap_iff region_table_ok_def intervals_meet_def)
  show "res = (if \<not> hv_vm_region_valid (Some r) then HV_VM_ERR_INVAL
      else if length (active_regions vm) = HV_MAX_VM_REGIONS then HV_VM_ERR_FULL
      else if \<exists>x \<in> set (active_regions vm). intervals_meet x r then HV_VM_ERR_OVERLAP
      else HV_VM_OK)"
    using assms(2) unfolding hv_vm_add_region_Some len by (auto simp: meet split: if_splits)
  show "if res = HV_VM_OK then \<exists>v. vm' = Some v \<and> region_table_ok v \<and>
      active_regions v = active_regions vm @ [r] \<and> stage2 v = stage2 vm \<and>
      vm_id v = vm_id vm \<and> vm_vmid v = vm_vmid vm
     else vm' = Some vm"
  proof (cases "res = HV_VM_OK")
    case True
    show ?thesis using True by (auto intro: hv_vm_add_region_OK [OF assms(2) [unfolded True] assms(1)])
  next
    case False
    with assms(2) show ?thesis unfolding hv_vm_add_region_Some by (auto split: if_splits)
  qed
qed

definition example_region :: HvVmRegion where
  "example_region = \<lparr>ipa_base = 0x20000, region_size = 0xf000, pa_base = 0x30000, attrs = 0x7ff,
     region_type = HV_VM_REGION_RAM, region_device = HV_VM_MMIO_DEVICE_NONE\<rparr>"

lemma example_region_valid: "hv_vm_region_valid (Some example_region)"
  by (simp add: hv_vm_region_valid_def hv_vm_aligned_def hv_vm_fits_v1_32bit_def
      hv_vm_region_backed_def example_region_def)

lemma zero_HvVm_table: "region_table_ok zero_HvVm" "active_regions zero_HvVm = []"
  using region_table_ok_zero [of 0 0] by (simp_all add: zero_HvVm_def active_regions_def)

theorem add_region_correct_witness:
  "\<exists>v. hv_vm_add_region (Some zero_HvVm) (Some example_region) = (HV_VM_OK, Some v) \<and>
     region_table_ok v \<and> active_regions v = [example_region]"
proof -
  obtain res vm' where a: "hv_vm_add_region (Some zero_HvVm) (Some example_region) = (res, vm')"
    by fastforce
  from add_region_correct [OF zero_HvVm_table(1) a] show ?thesis
    by (auto simp: a zero_HvVm_table example_region_valid)
qed

text \<open>A VM with one RAM region, for the concrete instances.\<close>

definition example_vm :: HvVm where
  "example_vm = zero_HvVm\<lparr>vm_regions := example_region # replicate 7 zero_HvVmRegion,
     region_count := 1\<rparr>"

lemma example_vm_table: "region_table_ok example_vm" "active_regions example_vm = [example_region]"
  "stage2 (example_vm\<lparr>stage2 := x\<rparr>) = x"
proof -
  show "active_regions example_vm = [example_region]"
    by (simp add: active_regions_def example_vm_def zero_HvVm_def)
  then show "region_table_ok example_vm"
    by (simp add: region_table_ok_def example_region_valid) (simp add: example_vm_def zero_HvVm_def)
qed simp

text \<open>\<open>hv_vm_find_region\<close> is the lookup of a finite map from addresses to regions: on a table
  that is valid and disjoint it returns a region exactly when that region is active and contains
  the address, so the answer does not depend on the order of the table.\<close>

theorem find_region_correct:
  assumes "region_table_ok vm"
  shows "hv_vm_find_region (Some vm) ipa = Some r \<longleftrightarrow>
    r \<in> set (active_regions vm) \<and> region_lo r \<le> unat ipa \<and> unat ipa < region_hi r"
  using find_region_Some [of vm ipa r] find_region_unique [OF assms, of r ipa] by blast

theorem find_region_correct_witness:
  "hv_vm_find_region (Some example_vm) 0x2efff = Some example_region \<and>
   hv_vm_find_region (Some example_vm) 0x2f000 \<noteq> Some example_region"
  using find_region_correct [OF example_vm_table(1), of "0x2efff" example_region]
    find_region_correct [OF example_vm_table(1), of "0x2f000" example_region]
  by (simp add: example_vm_table region_lo_def region_hi_def example_region_def)

end
