(* ===== verification/Stage2.thy ===== *)
theory Stage2
  imports Vm_Region
begin

section \<open>Stage-2 translation tables: the operations\<close>

text \<open>
  \<open>src/hv/stage2.c\<close>. The static array \<open>stage2_table_pools\<close> is the field \<open>stage2_tables\<close> of the
  state, a function from the index of a descriptor in the flat array to the descriptor; a
  \<open>HvStage2Desc *\<close> is such an index, a null one is \<open>None\<close>. The address the linker gives the array
  is the argument \<open>tables_base\<close> of \<open>hv_stage2_init\<close>. Reads and writes of the tables are explicit in
  the order the code makes them; barriers and TLB maintenance are events of the processor's log.
\<close>

abbreviation (input) HV_STAGE2_OK :: int where "HV_STAGE2_OK \<equiv> 0"
abbreviation (input) HV_STAGE2_ERR_INVAL :: int where "HV_STAGE2_ERR_INVAL \<equiv> -1"
abbreviation (input) HV_STAGE2_ERR_RANGE :: int where "HV_STAGE2_ERR_RANGE \<equiv> -2"
abbreviation (input) HV_STAGE2_ERR_NO_TABLES :: int where "HV_STAGE2_ERR_NO_TABLES \<equiv> -3"
abbreviation (input) HV_STAGE2_ERR_MAPPED :: int where "HV_STAGE2_ERR_MAPPED \<equiv> -4"
abbreviation (input) HV_STAGE2_ERR_UNMAPPED :: int where "HV_STAGE2_ERR_UNMAPPED \<equiv> -5"

abbreviation (input) HV_STAGE2_DESCS_PER_TABLE :: u32 where "HV_STAGE2_DESCS_PER_TABLE \<equiv> 512"
abbreviation (input) HV_STAGE2_MAX_TABLE_PAGES :: u32 where "HV_STAGE2_MAX_TABLE_PAGES \<equiv> 8"
abbreviation (input) HV_STAGE2_L1_SHIFT :: nat where "HV_STAGE2_L1_SHIFT \<equiv> 30"
abbreviation (input) HV_STAGE2_L2_SHIFT :: nat where "HV_STAGE2_L2_SHIFT \<equiv> 21"
abbreviation (input) HV_STAGE2_L3_SHIFT :: nat where "HV_STAGE2_L3_SHIFT \<equiv> 12"
abbreviation (input) HV_STAGE2_INDEX_MASK :: u64 where "HV_STAGE2_INDEX_MASK \<equiv> 0x1ff"
abbreviation (input) HV_STAGE2_DESC_INVALID :: u64 where "HV_STAGE2_DESC_INVALID \<equiv> 0"
abbreviation (input) HV_STAGE2_DESC_TABLE :: u64 where "HV_STAGE2_DESC_TABLE \<equiv> 3"
abbreviation (input) HV_STAGE2_DESC_PAGE :: u64 where "HV_STAGE2_DESC_PAGE \<equiv> 3"
abbreviation (input) HV_STAGE2_DESC_ADDR_MASK :: u64
  where "HV_STAGE2_DESC_ADDR_MASK \<equiv> 0x000000fffffff000"

text \<open>Attribute fields of a page descriptor: access flag, shareability, permissions, memory type.\<close>

abbreviation (input) HV_STAGE2_AF_SET :: u64 where "HV_STAGE2_AF_SET \<equiv> 0x400"
abbreviation (input) HV_STAGE2_SH_NON_SHAREABLE :: u64 where "HV_STAGE2_SH_NON_SHAREABLE \<equiv> 0"
abbreviation (input) HV_STAGE2_S2AP_RW :: u64 where "HV_STAGE2_S2AP_RW \<equiv> 0xc0"
abbreviation (input) HV_STAGE2_MEMATTR_NORMAL_OUTER_NC_INNER_NC :: u64
  where "HV_STAGE2_MEMATTR_NORMAL_OUTER_NC_INNER_NC \<equiv> 0x14"

definition HV_STAGE2_PAGE_NORMAL_NC_RW :: u64 where
  "HV_STAGE2_PAGE_NORMAL_NC_RW =
     HV_STAGE2_DESC_PAGE OR HV_STAGE2_AF_SET OR HV_STAGE2_SH_NON_SHAREABLE OR
     HV_STAGE2_S2AP_RW OR HV_STAGE2_MEMATTR_NORMAL_OUTER_NC_INNER_NC"

text \<open>T0SZ 0 (4 GB), start at level 1, non-cacheable and non-shareable walks.\<close>

definition HV_STAGE2_VTCR_DEFAULT :: u32 where
  "HV_STAGE2_VTCR_DEFAULT = 0 OR push_bit 6 1 OR push_bit 8 0 OR push_bit 10 0 OR push_bit 12 0"

record s2hw = hw +
  stage2_tables :: "nat \<Rightarrow> u64"

subsection \<open>Helpers\<close>

definition stage2_page_index :: "u64 \<Rightarrow> nat \<Rightarrow> u32" where
  "stage2_page_index ipa shift = ucast (drop_bit shift ipa AND HV_STAGE2_INDEX_MASK)"

definition stage2_aligned :: "u64 \<Rightarrow> bool" where
  "stage2_aligned v \<longleftrightarrow> v AND (HV_STAGE2_PAGE_SIZE - 1) = 0"

definition stage2_fits_v1_32bit :: "u64 \<Rightarrow> bool" where
  "stage2_fits_v1_32bit v \<longleftrightarrow> v \<le> 0xffffffff"

definition stage2_range_end :: "u64 \<Rightarrow> u64 \<Rightarrow> u64 option" where
  "stage2_range_end base sz =
     (if sz = 0 \<or> base > 0xffffffffffffffff - (sz - 1) then None
      else Some (base + sz - 1))"

text \<open>The loop over \<open>HV_STAGE2_DESCS_PER_TABLE\<close> entries.\<close>

definition stage2_zero_table :: "nat \<Rightarrow> (nat \<Rightarrow> u64) \<Rightarrow> (nat \<Rightarrow> u64)" where
  "stage2_zero_table table tm =
     fold (\<lambda>i m. m(table + i := HV_STAGE2_DESC_INVALID))
       [0..<unat HV_STAGE2_DESCS_PER_TABLE] tm"

definition stage2_table_at :: "HvStage2 \<Rightarrow> u32 \<Rightarrow> nat" where
  "stage2_table_at st page_table_idx =
     pool_va st + unat (page_table_idx * HV_STAGE2_DESCS_PER_TABLE)"

definition stage2_table_pa :: "HvStage2 \<Rightarrow> u32 \<Rightarrow> u64" where
  "stage2_table_pa st page_table_idx = pool_pa st + ucast (page_table_idx * 0x1000)"

definition stage2_alloc_table ::
    "HvStage2 \<Rightarrow> (nat \<Rightarrow> u64) \<Rightarrow> nat option \<times> HvStage2 \<times> (nat \<Rightarrow> u64)" where
  "stage2_alloc_table st tm =
     (if pool_used st \<ge> pool_pages st then (None, st, tm)
      else let table = stage2_table_at st (pool_used st);
               tm = stage2_zero_table table tm
           in (Some table, st\<lparr>pool_used := pool_used st + 1\<rparr>, tm))"

definition stage2_desc_to_table :: "HvStage2 \<Rightarrow> u64 \<Rightarrow> nat option" where
  "stage2_desc_to_table st desc =
     (if desc AND HV_STAGE2_DESC_TABLE \<noteq> HV_STAGE2_DESC_TABLE then None
      else let pa = desc AND HV_STAGE2_DESC_ADDR_MASK
      in if pa < pool_pa st \<or> \<not> stage2_aligned (pa - pool_pa st) then None
         else let page_idx = ucast ((pa - pool_pa st) div HV_STAGE2_PAGE_SIZE) :: u32
         in if page_idx \<ge> pool_pages st then None
            else Some (stage2_table_at st page_idx))"

definition stage2_next_table ::
    "HvStage2 \<Rightarrow> nat \<Rightarrow> (nat \<Rightarrow> u64) \<Rightarrow> nat option \<times> HvStage2 \<times> (nat \<Rightarrow> u64)" where
  "stage2_next_table st entry tm =
     (if tm entry AND HV_STAGE2_DESC_TABLE = HV_STAGE2_DESC_TABLE
        then (stage2_desc_to_table st (tm entry), st, tm)
      else if tm entry AND 1 \<noteq> 0 then (None, st, tm)
      else let page_idx = pool_used st
      in case stage2_alloc_table st tm of
           (None, st, tm) \<Rightarrow> (None, st, tm)
         | (Some next, st, tm) \<Rightarrow>
             (Some next, st,
              tm(entry := (stage2_table_pa st page_idx AND HV_STAGE2_DESC_ADDR_MASK) OR
                          HV_STAGE2_DESC_TABLE)))"

definition stage2_walk_l3 ::
    "HvStage2 \<Rightarrow> u64 \<Rightarrow> bool \<Rightarrow> (nat \<Rightarrow> u64) \<Rightarrow> nat option \<times> HvStage2 \<times> (nat \<Rightarrow> u64)" where
  "stage2_walk_l3 st ipa alloc tm =
     (let l1 = root_va st;
          l1e = l1 + unat (stage2_page_index ipa HV_STAGE2_L1_SHIFT)
      in case (if alloc then stage2_next_table st l1e tm
               else (stage2_desc_to_table st (tm l1e), st, tm)) of
           (None, st, tm) \<Rightarrow> (None, st, tm)
         | (Some l2, st, tm) \<Rightarrow>
             let l2e = l2 + unat (stage2_page_index ipa HV_STAGE2_L2_SHIFT)
             in case (if alloc then stage2_next_table st l2e tm
                      else (stage2_desc_to_table st (tm l2e), st, tm)) of
                  (None, st, tm) \<Rightarrow> (None, st, tm)
                | (Some l3, st, tm) \<Rightarrow>
                    (Some (l3 + unat (stage2_page_index ipa HV_STAGE2_L3_SHIFT)), st, tm))"

definition stage2_region_contains_mapping ::
    "HvVmRegion option \<Rightarrow> u64 \<Rightarrow> u64 \<Rightarrow> u64 \<Rightarrow> bool" where
  "stage2_region_contains_mapping region_p ipa pa sz =
     (case region_p of
        None \<Rightarrow> False
      | Some region \<Rightarrow>
          if region_type region \<noteq> HV_VM_REGION_RAM \<or> sz = 0 \<or> ipa < ipa_base region \<or>
             sz > region_size region \<or> ipa - ipa_base region > region_size region - sz
          then False
          else let offset = ipa - ipa_base region in pa = pa_base region + offset)"

subsection \<open>Operations\<close>

text \<open>The address of descriptor \<open>i\<close> of the pools array, as a \<open>uintptr_t\<close>.\<close>

definition desc_addr :: "u32 \<Rightarrow> nat \<Rightarrow> u32" where
  "desc_addr tables_base i = tables_base + of_nat (8 * i)"

definition hv_stage2_init ::
    "u32 \<Rightarrow> HvVm option \<Rightarrow> 'a s2hw_scheme \<Rightarrow> int \<times> HvVm option \<times> 'a s2hw_scheme" where
  "hv_stage2_init tables_base vm_p s =
     (case vm_p of
        None \<Rightarrow> (HV_STAGE2_ERR_INVAL, None, s)
      | Some vm \<Rightarrow>
          if vm_id vm \<ge> of_nat HV_MAX_VMS then (HV_STAGE2_ERR_INVAL, Some vm, s)
          else let st = stage2 vm;
                   st = st\<lparr>pool_va := unat (vm_id vm) *
                             (unat HV_STAGE2_MAX_TABLE_PAGES * unat HV_STAGE2_DESCS_PER_TABLE)\<rparr>;
                   st = st\<lparr>pool_pa := ucast (desc_addr tables_base (pool_va st))\<rparr>;
                   st = st\<lparr>pool_pages := HV_STAGE2_MAX_TABLE_PAGES\<rparr>;
                   st = st\<lparr>pool_used := 1\<rparr>;
                   st = st\<lparr>root_va := stage2_table_at st 0\<rparr>;
                   st = st\<lparr>root_pa := stage2_table_pa st 0\<rparr>;
                   tm = fold (\<lambda>i. stage2_zero_table (stage2_table_at st (of_nat i)))
                          [0..<unat (pool_pages st)] (stage2_tables s)
               in (HV_STAGE2_OK, Some (vm\<lparr>stage2 := st\<rparr>), DSB (s\<lparr>stage2_tables := tm\<rparr>)))"

definition stage2_map_page ::
    "HvVm \<Rightarrow> u64 \<Rightarrow> u64 \<Rightarrow> u64 \<Rightarrow> (nat \<Rightarrow> u64) \<Rightarrow> int \<times> HvVm \<times> (nat \<Rightarrow> u64)" where
  "stage2_map_page vm ipa pa ats tm =
     (case stage2_walk_l3 (stage2 vm) ipa True tm of
        (None, st, tm) \<Rightarrow> (HV_STAGE2_ERR_NO_TABLES, vm\<lparr>stage2 := st\<rparr>, tm)
      | (Some entry, st, tm) \<Rightarrow>
          if tm entry AND 1 \<noteq> 0 then (HV_STAGE2_ERR_MAPPED, vm\<lparr>stage2 := st\<rparr>, tm)
          else (HV_STAGE2_OK, vm\<lparr>stage2 := st\<rparr>,
                tm(entry := (pa AND HV_STAGE2_DESC_ADDR_MASK) OR
                            (ats AND NOT HV_STAGE2_DESC_ADDR_MASK) OR HV_STAGE2_DESC_PAGE)))"

text \<open>
  The page loop of \<open>hv_stage2_map_region\<close>: \<open>n\<close> iterations are left, from \<open>offset\<close> on, in steps of
  a page. The first failing page ends it.
\<close>

fun stage2_map_pages ::
    "nat \<Rightarrow> u64 \<Rightarrow> HvVm \<Rightarrow> u64 \<Rightarrow> u64 \<Rightarrow> u64 \<Rightarrow> (nat \<Rightarrow> u64) \<Rightarrow> int \<times> HvVm \<times> (nat \<Rightarrow> u64)" where
  "stage2_map_pages 0 offset vm ipa pa ats tm = (HV_STAGE2_OK, vm, tm)"
| "stage2_map_pages (Suc n) offset vm ipa pa ats tm =
     (case stage2_map_page vm (ipa + offset) (pa + offset) ats tm of
        (res, vm, tm) \<Rightarrow>
          if res \<noteq> HV_STAGE2_OK then (res, vm, tm)
          else stage2_map_pages n (offset + HV_STAGE2_PAGE_SIZE) vm ipa pa ats tm)"

definition stage2_tlb_sync :: "'a hw_scheme \<Rightarrow> 'a hw_scheme" where
  "stage2_tlb_sync s = ISB (DSB (hyp_invalidate_stage2_tlb_all s))"

definition hv_stage2_map_region ::
    "HvVm option \<Rightarrow> u64 \<Rightarrow> u64 \<Rightarrow> u64 \<Rightarrow> u64 \<Rightarrow> 'a s2hw_scheme
      \<Rightarrow> int \<times> HvVm option \<times> 'a s2hw_scheme" where
  "hv_stage2_map_region vm_p ipa pa sz ats s =
     (case vm_p of
        None \<Rightarrow> (HV_STAGE2_ERR_INVAL, None, s)
      | Some vm \<Rightarrow>
          if \<not> stage2_aligned ipa \<or> \<not> stage2_aligned pa \<or> \<not> stage2_aligned sz \<or> sz = 0
            then (HV_STAGE2_ERR_INVAL, vm_p, s)
          else case (stage2_range_end ipa sz, stage2_range_end pa sz) of
            (Some ipa_end, Some pa_end) \<Rightarrow>
              if \<not> stage2_fits_v1_32bit ipa_end \<or> \<not> stage2_fits_v1_32bit pa_end
                then (HV_STAGE2_ERR_RANGE, vm_p, s)
              else let region = hv_vm_find_region vm_p ipa in
              if \<not> stage2_region_contains_mapping region ipa pa sz
                then (HV_STAGE2_ERR_RANGE, vm_p, s)
              else (case stage2_map_pages (unat sz div unat HV_STAGE2_PAGE_SIZE) 0 vm ipa pa ats
                           (stage2_tables s) of
                      (res, vm, tm) \<Rightarrow>
                        (res, Some vm, stage2_tlb_sync (s\<lparr>stage2_tables := tm\<rparr>)))
          | _ \<Rightarrow> (HV_STAGE2_ERR_INVAL, vm_p, s))"

definition hv_stage2_unmap_page ::
    "HvVm option \<Rightarrow> u64 \<Rightarrow> 'a s2hw_scheme \<Rightarrow> int \<times> 'a s2hw_scheme" where
  "hv_stage2_unmap_page vm_p ipa s =
     (case vm_p of
        None \<Rightarrow> (HV_STAGE2_ERR_INVAL, s)
      | Some vm \<Rightarrow>
          if \<not> stage2_aligned ipa then (HV_STAGE2_ERR_INVAL, s)
          else case hv_vm_find_region vm_p ipa of
            None \<Rightarrow> (HV_STAGE2_ERR_RANGE, s)
          | Some region \<Rightarrow>
              if ipa < ipa_base region \<or>
                 ipa - ipa_base region > region_size region - HV_STAGE2_PAGE_SIZE
                then (HV_STAGE2_ERR_RANGE, s)
              else let tm = stage2_tables s;
                       tm = (case stage2_walk_l3 (stage2 vm) ipa False tm of
                               (Some entry, _, _) \<Rightarrow> tm(entry := HV_STAGE2_DESC_INVALID)
                             | (None, _, _) \<Rightarrow> tm);
                       s = s\<lparr>stage2_tables := tm\<rparr>
                   in (HV_STAGE2_OK, ISB (DSB (hyp_invalidate_stage2_tlb_ipa ipa s))))"

text \<open>
  \<open>hv_stage2_translate\<close>: the physical address on \<open>HV_STAGE2_OK\<close>, the status otherwise. The flag
  \<open>pa_out\<close> says whether the caller passed a pointer for the result.
\<close>

definition hv_stage2_translate ::
    "HvVm option \<Rightarrow> u64 \<Rightarrow> bool \<Rightarrow> (nat \<Rightarrow> u64) \<Rightarrow> int + u64" where
  "hv_stage2_translate vm_p ipa pa_out tm =
     (case vm_p of
        None \<Rightarrow> Inl HV_STAGE2_ERR_INVAL
      | Some vm \<Rightarrow>
          if \<not> pa_out \<or> \<not> stage2_fits_v1_32bit ipa then Inl HV_STAGE2_ERR_INVAL
          else case stage2_walk_l3 (stage2 vm) ipa False tm of
            (None, _, _) \<Rightarrow> Inl HV_STAGE2_ERR_UNMAPPED
          | (Some entry, _, _) \<Rightarrow>
              if tm entry AND HV_STAGE2_DESC_PAGE \<noteq> HV_STAGE2_DESC_PAGE
                then Inl HV_STAGE2_ERR_UNMAPPED
              else Inr ((tm entry AND HV_STAGE2_DESC_ADDR_MASK) OR
                        (ipa AND (HV_STAGE2_PAGE_SIZE - 1))))"

subsection \<open>Null pointers\<close>

lemma stage2_null [null_simps]:
  "hv_stage2_init b None s = (HV_STAGE2_ERR_INVAL, None, s)"
  "hv_stage2_map_region None ipa pa sz ats s = (HV_STAGE2_ERR_INVAL, None, s)"
  "hv_stage2_unmap_page None ipa s = (HV_STAGE2_ERR_INVAL, s)"
  "hv_stage2_translate None ipa p tm = Inl HV_STAGE2_ERR_INVAL"
  by (simp_all add: hv_stage2_init_def hv_stage2_map_region_def hv_stage2_unmap_page_def
      hv_stage2_translate_def)

lemma stage2_zero_table_eq:
  "stage2_zero_table t tm = (\<lambda>a. if t \<le> a \<and> a < t + 512 then 0 else tm a)"
  by (simp add: stage2_zero_table_def fold_fun_upd_range)

lemma stage2_aligned_iff: "stage2_aligned v \<longleftrightarrow> 4096 dvd unat v"
  by (simp add: stage2_aligned_def and_0xfff_eq_0_iff)

lemma unat_stage2_page_index: "unat (stage2_page_index ipa sh) = unat ipa div 2 ^ sh mod 512"
  using unat_and_mask [of "drop_bit sh ipa" 9]
  by (simp add: stage2_page_index_def unat_ucast_mod unat_drop_bit mask_eq_exp_minus_1)

lemma stage2_page_index_bound [simp]: "unat (stage2_page_index ipa sh) < 512"
  by (simp add: unat_stage2_page_index)

end
