(* ===== verification/Stage2_Map.thy ===== *)
theory Stage2_Map
  imports Stage2_Tables
begin

section \<open>Stage-2 translation tables: allocation and leaf writes\<close>

text \<open>
  What a walk with allocation and a leaf write do to the tree of \<open>s2_inv\<close> and to the view: the two
  steps \<open>stage2_map_page\<close> is made of. \<open>s2_ext\<close> relates the tables before and after an allocation.
\<close>

definition s2_frame :: "HvStage2 \<Rightarrow> (nat \<Rightarrow> u64) \<Rightarrow> HvStage2 \<Rightarrow> (nat \<Rightarrow> u64) \<Rightarrow> bool" where
  "s2_frame st tm st' tm' \<longleftrightarrow>
     st' = st\<lparr>pool_used := pool_used st'\<rparr> \<and> unat (pool_used st) \<le> unat (pool_used st') \<and>
     (\<forall>a. a < pool_va st \<or> pool_va st + 4096 \<le> a \<longrightarrow> tm' a = tm a)"

definition s2_ext :: "(nat \<Rightarrow> nat) \<Rightarrow> HvStage2 \<Rightarrow> (nat \<Rightarrow> u64) \<Rightarrow>
    (nat \<Rightarrow> nat) \<Rightarrow> HvStage2 \<Rightarrow> (nat \<Rightarrow> u64) \<Rightarrow> bool" where
  "s2_ext kind st tm kind' st' tm' \<longleftrightarrow>
     s2_inv kind' st' tm' \<and> s2_frame st tm st' tm' \<and>
     (\<forall>p < unat (pool_used st). kind' p = kind p) \<and>
     (\<forall>p < unat (pool_used st). \<forall>i < 512. tm (slot st p i) \<noteq> 0 \<longrightarrow> tm' (slot st p i) = tm (slot st p i)) \<and>
     (\<forall>ipa. s2_view st' tm' ipa = s2_view st tm ipa)"

lemma s2_frame_refl [simp]: "s2_frame st tm st tm"
  by (simp add: s2_frame_def)

lemma s2_frameE:
  assumes "s2_frame st tm st' tm'"
  obtains u where "st' = st\<lparr>pool_used := u\<rparr>" "unat (pool_used st) \<le> unat u"
    "\<And>a. a < pool_va st \<or> pool_va st + 4096 \<le> a \<Longrightarrow> tm' a = tm a"
proof -
  have "st' = st\<lparr>pool_used := pool_used st'\<rparr>" "unat (pool_used st) \<le> unat (pool_used st')"
    using assms unfolding s2_frame_def by blast+
  moreover have "\<And>a. a < pool_va st \<or> pool_va st + 4096 \<le> a \<Longrightarrow> tm' a = tm a"
    using assms unfolding s2_frame_def by blast
  ultimately show thesis by (rule that)
qed

lemma s2_frameI:
  "st' = st\<lparr>pool_used := u\<rparr> \<Longrightarrow> unat (pool_used st) \<le> unat u \<Longrightarrow>
   (\<And>a. a < pool_va st \<or> pool_va st + 4096 \<le> a \<Longrightarrow> tm' a = tm a) \<Longrightarrow> s2_frame st tm st' tm'"
  by (simp add: s2_frame_def)

lemma s2_frame_trans:
  assumes "s2_frame st tm st1 tm1" "s2_frame st1 tm1 st2 tm2"
  shows "s2_frame st tm st2 tm2"
  using assms by (elim s2_frameE) (rule s2_frameI [where u = "pool_used st2"], auto)

lemma s2_frame_slot:
  assumes "s2_frame st tm st' tm'"
  shows "slot st' p i = slot st p i" "table_desc st' q = table_desc st q"
    "stage2_desc_to_table st' d = stage2_desc_to_table st d" "pool_va st' = pool_va st"
  using assms by (auto elim!: s2_frameE)

lemma s2_ext_refl: "s2_inv kind st tm \<Longrightarrow> s2_ext kind st tm kind st tm"
  by (simp add: s2_ext_def)

lemma s2_ext_trans:
  assumes "s2_ext kind st tm k1 st1 tm1" "s2_ext k1 st1 tm1 k2 st2 tm2"
  shows "s2_ext kind st tm k2 st2 tm2"
proof -
  have f: "s2_frame st tm st1 tm1" and used: "unat (pool_used st) \<le> unat (pool_used st1)"
    using assms(1) by (simp_all add: s2_ext_def s2_frame_def)
  from assms show ?thesis
    unfolding s2_ext_def s2_frame_slot(1) [OF f]
    using s2_frame_trans used by (auto simp: le_less_trans)
qed

subsection \<open>A leaf slot has one page\<close>

definition same_page :: "u64 \<Rightarrow> u64 \<Rightarrow> bool" where
  "same_page a b \<longleftrightarrow> unat a div 4096 = unat b div 4096"

lemma page_indices_eq:
  assumes "ix1 a = ix1 b" "ix2 a = ix2 b" "ix3 a = ix3 b" "unat a < 2 ^ 39" "unat b < 2 ^ 39"
  shows "same_page a b"
proof -
  have idx: "x div 4096 = (x div 2 ^ 30 mod 512 * 512 + x div 2 ^ 21 mod 512) * 512 +
      x div 2 ^ 12 mod 512" if "x < 2 ^ 39" for x :: nat
  proof -
    define y where "y = x div 4096"
    have d: "x div 2 ^ 12 = y" "x div 2 ^ 21 = y div 512" "x div 2 ^ 30 = y div 512 div 512"
      by (simp_all add: y_def div_mult2_eq [symmetric])
    have "y div 512 div 512 < 512" using that by (simp add: y_def div_mult2_eq [symmetric] div_less_iff_less_mult)
    then have "y div 512 div 512 mod 512 * 512 + y div 512 mod 512 = y div 512" by simp
    then show ?thesis unfolding d y_def [symmetric] by (simp only: div_mult_mod_eq)
  qed
  show ?thesis
    using idx [OF assms(4)] idx [OF assms(5)] assms(1-3)
    by (simp add: same_page_def unat_stage2_page_index)
qed

lemma same_page_indices:
  assumes "same_page a b"
  shows "ix1 a = ix1 b" "ix2 a = ix2 b" "ix3 a = ix3 b"
proof -
  have "x div 2 ^ 30 = x div 4096 div 2 ^ 18" "x div 2 ^ 21 = x div 4096 div 2 ^ 9"
    "x div 2 ^ 12 = x div 4096" for x :: nat by (simp_all add: div_mult2_eq [symmetric])
  with assms show "ix1 a = ix1 b" "ix2 a = ix2 b" "ix3 a = ix3 b"
    by (simp_all only: unat_stage2_page_index same_page_def)
qed

lemma s2_view_same_page: "same_page a b \<Longrightarrow> s2_view st tm a = s2_view st tm b"
  by (simp add: s2_view_def walk_ro_def same_page_indices cong: option.case_cong)

subsection \<open>Taking the next table\<close>

lemma walk_ro_none1:
  assumes "root_va st = slot st 0 0" "tm (slot st 0 (ix1 ipa)) = 0"
  shows "walk_ro st tm ipa = None"
  using assms by (simp add: walk_ro_def slot_add)

lemma walk_ro_none2:
  assumes "s2_static st" "root_va st = slot st 0 0" "q < 8"
    "tm (slot st 0 (ix1 ipa)) = table_desc st q" "tm (slot st q (ix2 ipa)) = 0"
  shows "walk_ro st tm ipa = None"
  using assms by (simp add: walk_ro_def slot_add desc_to_table_table_desc)

lemma walk_ro_leaf:
  assumes "s2_static st" "root_va st = slot st 0 0" "q < 8" "r < 8"
    "tm (slot st 0 (ix1 ipa)) = table_desc st q" "tm (slot st q (ix2 ipa)) = table_desc st r"
  shows "walk_ro st tm ipa = Some (slot st r (ix3 ipa))"
  using assms by (simp add: walk_ro_def slot_add desc_to_table_table_desc)

text \<open>The tables after page \<open>u\<close>, the first unused one, has been cleared and linked at \<open>slot p i\<close>.\<close>

definition s2_link :: "HvStage2 \<Rightarrow> nat \<Rightarrow> nat \<Rightarrow> (nat \<Rightarrow> u64) \<Rightarrow> (nat \<Rightarrow> u64)" where
  "s2_link st p i tm =
     (let u = unat (pool_used st)
      in (stage2_zero_table (slot st u 0) tm)(slot st p i := table_desc st u))"

lemma s2_link_slot:
  assumes "p < unat (pool_used st)" "i < 512" "j < 512"
  shows "s2_link st p i tm (slot st r j) =
    (if r = unat (pool_used st) then 0 else if r = p \<and> j = i then table_desc st (unat (pool_used st))
     else tm (slot st r j))"
  using assms by (simp add: s2_link_def Let_def stage2_zero_table_eq slot_eq_iff slot_in_page_iff)

lemma s2_invI:
  assumes "s2_static st" "kind 0 = 1"
    "\<And>p. p < unat (pool_used st) \<Longrightarrow> 0 < p \<Longrightarrow> kind p = 2 \<or> kind p = 3"
    "\<And>p i. p < unat (pool_used st) \<Longrightarrow> i < 512 \<Longrightarrow> kind p < 3 \<Longrightarrow> tm (slot st p i) = 0 \<or>
       (\<exists>q < unat (pool_used st). 0 < q \<and> kind q = Suc (kind p) \<and> tm (slot st p i) = table_desc st q)"
    "\<And>a b c d. a < unat (pool_used st) \<Longrightarrow> b < 512 \<Longrightarrow> c < unat (pool_used st) \<Longrightarrow> d < 512 \<Longrightarrow>
       kind a < 3 \<Longrightarrow> kind c < 3 \<Longrightarrow> tm (slot st a b) \<noteq> 0 \<Longrightarrow>
       tm (slot st a b) = tm (slot st c d) \<Longrightarrow> a = c \<and> b = d"
  shows "s2_inv kind st tm"
  unfolding s2_inv_def using assms by simp

lemma s2_link_inv:
  assumes inv: "s2_inv kind st tm" and p: "p < unat (pool_used st)" "kind p < 3" and i: "i < 512"
    and free: "tm (slot st p i) = 0" and room: "unat (pool_used st) < 8"
  shows "s2_inv (kind(unat (pool_used st) := Suc (kind p))) (st\<lparr>pool_used := pool_used st + 1\<rparr>)
    (s2_link st p i tm)"
proof -
  let ?u = "unat (pool_used st)" and ?st = "st\<lparr>pool_used := pool_used st + 1\<rparr>"
  let ?tm = "s2_link st p i tm" and ?k = "kind(unat (pool_used st) := Suc (kind p))"
  note D = s2_invD [OF inv]
  note E = s2_link_slot [OF p(1) i]
  have kinds: "\<And>r. r < ?u \<Longrightarrow> 0 < r \<Longrightarrow> kind r = 2 \<or> kind r = 3"
    and links: "\<And>r j. r < ?u \<Longrightarrow> j < 512 \<Longrightarrow> kind r < 3 \<Longrightarrow> tm (slot st r j) = 0 \<or>
        (\<exists>q < ?u. 0 < q \<and> kind q = Suc (kind r) \<and> tm (slot st r j) = table_desc st q)"
    and uniq: "\<And>a b c d. a < ?u \<Longrightarrow> b < 512 \<Longrightarrow> c < ?u \<Longrightarrow> d < 512 \<Longrightarrow> kind a < 3 \<Longrightarrow> kind c < 3 \<Longrightarrow>
        tm (slot st a b) \<noteq> 0 \<Longrightarrow> tm (slot st a b) = tm (slot st c d) \<Longrightarrow> a = c \<and> b = d"
    using inv unfolding s2_inv_def by blast+
  have used: "unat (pool_used st + 1) = Suc ?u" using room by (subst unat_add_no_wrap) auto
  have F1: "s2_static ?st" using D(1) room by (simp add: s2_static_def used)
  have F2: "?k 0 = 1" using D by simp
  have kp: "kind p = 1 \<or> kind p = 2" using kinds [OF p(1)] p(2) D(2) by (cases "p = 0") auto
  then have F3: "?k r = 2 \<or> ?k r = 3" if "r < Suc ?u" "0 < r" for r
    using kinds [of r] that by (cases "r = ?u") auto
  have F4: "?tm (slot st r j) = 0 \<or>
      (\<exists>q < Suc ?u. 0 < q \<and> ?k q = Suc (?k r) \<and> ?tm (slot st r j) = table_desc st q)"
    if r: "r < Suc ?u" "j < 512" "?k r < 3" for r j
  proof (cases "r = ?u \<or> r = p \<and> j = i")
    case True
    then show ?thesis using E [OF r(2)] p(1) D(4) by auto
  next
    case False
    then have "?tm (slot st r j) = tm (slot st r j)" and "r < ?u" and "kind r < 3"
      using E [OF r(2)] r by auto
    moreover have "?k q = kind q" if "q < ?u" for q using that by simp
    moreover have "?k r = kind r" using \<open>r < ?u\<close> by simp
    ultimately show ?thesis using links [of r j] r(2) less_SucI by metis
  qed
  have F5: "a = c \<and> b = d"
    if h: "a < Suc ?u" "b < 512" "c < Suc ?u" "d < 512" "?k a < 3" "?k c < 3"
      "?tm (slot st a b) \<noteq> 0" "?tm (slot st a b) = ?tm (slot st c d)" for a b c d
  proof -
    have a: "a < ?u" "kind a < 3" and c: "c < ?u" "kind c < 3"
      using h E [of b tm a] E [of d tm c] by (auto split: if_splits)
    have new: "tm (slot st r j) \<noteq> table_desc st ?u" if "r < ?u" "kind r < 3" "j < 512" for r j
    proof
      assume e: "tm (slot st r j) = table_desc st ?u"
      with links [OF that(1,3,2)] obtain q where q: "q < ?u" "tm (slot st r j) = table_desc st q"
        by (metis table_desc_neq_0)
      with e have "table_desc st q = table_desc st ?u" by simp
      with table_desc_inj [OF D(1), of q ?u] q(1) room show False by simp
    qed
    have val: "?tm (slot st r j) = (if r = p \<and> j = i then table_desc st ?u else tm (slot st r j))"
      if "r < ?u" "j < 512" for r j using E [OF that(2)] that(1) by simp
    note va = val [OF a(1) h(2)] and vc = val [OF c(1) h(4)]
    show ?thesis
    proof (cases "a = p \<and> b = i")
      case True
      with va have "?tm (slot st a b) = table_desc st ?u" by simp
      with h(8) vc new [OF c h(4)] True show ?thesis by (metis (no_types))
    next
      case False
      with va h(7,8) have t: "tm (slot st a b) \<noteq> 0" "tm (slot st a b) = ?tm (slot st c d)" by simp_all
      with vc new [OF a h(2)] have "tm (slot st a b) = tm (slot st c d)" by (metis (no_types))
      with uniq [OF a(1) h(2) c(1) h(4) a(2) c(2) t(1)] show ?thesis by simp
    qed
  qed
  have used': "unat (pool_used ?st) = Suc ?u" using used by simp
  show ?thesis
    by (rule s2_invI; (unfold used' slot_pool_used)?; rule F1 F2 F3 F4 F5; assumption)
qed

text \<open>Linking a cleared table changes no translation: the new page is empty.\<close>

lemma s2_link_view:
  assumes inv: "s2_inv kind st tm" and p: "p < unat (pool_used st)" "kind p < 3" and i: "i < 512"
    and free: "tm (slot st p i) = 0" and room: "unat (pool_used st) < 8"
  shows "s2_view st (s2_link st p i tm) ipa = s2_view st tm ipa"
proof -
  let ?u = "unat (pool_used st)" and ?tm = "s2_link st p i tm"
  note D = s2_invD [OF inv]
  note E = s2_link_slot [OF p(1) i]
  note none1 = walk_ro_none1 [OF D(5)] and none2 = walk_ro_none2 [OF D(1) D(5), where tm = ?tm]
    and leaf = walk_ro_leaf [OF D(1) D(5), where tm = ?tm]
  have keep: "?tm (slot st r j) = tm (slot st r j)"
    if "r < ?u" "j < 512" "tm (slot st r j) \<noteq> 0" for r j
    using that E [of j tm r] free by auto
  show ?thesis using inv
  proof (cases rule: walk_ro_cases [where ipa = ipa])
    case no_l2
    have "s2_view st ?tm ipa = 0"
    proof (cases "p = 0 \<and> i = ix1 ipa")
      case True
      then have "?tm (slot st 0 (ix1 ipa)) = table_desc st ?u" "?tm (slot st ?u (ix2 ipa)) = 0"
        using E D(4) by simp_all
      then show ?thesis using none2 [OF room] by (simp add: s2_view_def)
    next
      case False
      then have "?tm (slot st 0 (ix1 ipa)) = 0" using E no_l2 D(4) by auto
      then show ?thesis using none1 by (simp add: s2_view_def)
    qed
    with no_l2 show ?thesis by (simp add: s2_view_def)
  next
    case (no_l3 q)
    then have q: "?tm (slot st 0 (ix1 ipa)) = table_desc st q" "q < 8" using keep D(3,4) by simp_all
    have "s2_view st ?tm ipa = 0"
    proof (cases "p = q \<and> i = ix2 ipa")
      case True
      then have "?tm (slot st q (ix2 ipa)) = table_desc st ?u" "?tm (slot st ?u (ix3 ipa)) = 0"
        using E no_l3 by simp_all
      then show ?thesis using leaf [OF q(2) room q(1)] by (simp add: s2_view_def)
    next
      case False
      then have "?tm (slot st q (ix2 ipa)) = 0" using E no_l3 by auto
      then show ?thesis using none2 [OF q(2,1)] by (simp add: s2_view_def)
    qed
    with no_l3 show ?thesis by (simp add: s2_view_def)
  next
    case (leaf q r)
    then have "?tm (slot st 0 (ix1 ipa)) = table_desc st q" "?tm (slot st q (ix2 ipa)) = table_desc st r"
      and "q < 8" "r < 8" using keep D(3,4) by simp_all
    then have "walk_ro st ?tm ipa = Some (slot st r (ix3 ipa))" using walk_ro_leaf D by blast
    moreover have "?tm (slot st r (ix3 ipa)) = tm (slot st r (ix3 ipa))" using E leaf p(2) by auto
    ultimately show ?thesis using leaf by (simp add: s2_view_def)
  qed
qed

lemma s2_link_frame:
  assumes "p < unat (pool_used st)" "i < 512" "unat (pool_used st) < 8"
  shows "s2_frame st tm (st\<lparr>pool_used := pool_used st + 1\<rparr>) (s2_link st p i tm)"
proof (rule s2_frameI)
  show "unat (pool_used st) \<le> unat (pool_used st + 1)"
    using assms(3) by (subst unat_add_no_wrap) auto
  fix a assume "a < pool_va st \<or> pool_va st + 4096 \<le> a"
  then show "s2_link st p i tm a = tm a"
    using assms by (auto simp: s2_link_def Let_def stage2_zero_table_eq slot_def)
qed simp

lemma s2_link_ext:
  assumes inv: "s2_inv kind st tm" and p: "p < unat (pool_used st)" "kind p < 3" and i: "i < 512"
    and free: "tm (slot st p i) = 0" and room: "unat (pool_used st) < 8"
  shows "s2_ext kind st tm (kind(unat (pool_used st) := Suc (kind p)))
     (st\<lparr>pool_used := pool_used st + 1\<rparr>) (s2_link st p i tm)"
  unfolding s2_ext_def
  using s2_link_inv [OF assms] s2_link_frame [OF p(1) i room] s2_link_view [OF assms]
    s2_link_slot [OF p(1) i] free
  by (auto simp: s2_view_def)

lemma next_table_cases:
  assumes inv: "s2_inv kind st tm" and p: "p < unat (pool_used st)" "kind p < 3" and i: "i < 512"
  obtains (full) "stage2_next_table st (slot st p i) tm = (None, st, tm)" "unat (pool_used st) = 8"
      "tm (slot st p i) = 0"
  | (used) q where "stage2_next_table st (slot st p i) tm = (Some (slot st q 0), st, tm)"
      "0 < q" "q < unat (pool_used st)" "kind q = Suc (kind p)" "tm (slot st p i) = table_desc st q"
  | (new) "unat (pool_used st) < 8" "tm (slot st p i) = 0"
      "stage2_next_table st (slot st p i) tm =
        (Some (slot st (unat (pool_used st)) 0), st\<lparr>pool_used := pool_used st + 1\<rparr>,
         s2_link st p i tm)"
proof -
  note D = s2_invD [OF inv]
  show thesis
  proof (rule s2_link_cases [OF inv p i])
    fix q
    assume q: "0 < q" "q < unat (pool_used st)" "kind q = Suc (kind p)"
      "tm (slot st p i) = table_desc st q"
      "stage2_desc_to_table st (tm (slot st p i)) = Some (slot st q 0)"
    then show thesis by (intro used [of q]) (simp_all add: stage2_next_table_def)
  next
    assume z: "tm (slot st p i) = 0"
    show thesis
    proof (cases "unat (pool_used st) < 8")
      case True
      then have "\<not> pool_pages st \<le> pool_used st" using D by (simp add: word_le_nat_alt)
      then have "stage2_next_table st (slot st p i) tm =
        (Some (slot st (unat (pool_used st)) 0), st\<lparr>pool_used := pool_used st + 1\<rparr>,
         s2_link st p i tm)"
        using next_table_entry [OF D(1) True] stage2_table_at_slot [OF True] z
        by (simp add: stage2_next_table_def stage2_alloc_table_def Let_def s2_link_def
            stage2_table_pa_def)
      with True z show thesis by (intro new)
    next
      case False
      with D have "pool_pages st \<le> pool_used st" "unat (pool_used st) = 8"
        by (simp_all add: word_le_nat_alt)
      with z show thesis
        by (intro full) (simp_all add: stage2_next_table_def stage2_alloc_table_def)
    qed
  qed
qed

subsection \<open>The allocating walk\<close>

lemma s2_extD:
  assumes "s2_ext kind st tm k' st' tm'"
  shows "s2_inv k' st' tm'" "s2_frame st tm st' tm'" "s2_view st' tm' ipa = s2_view st tm ipa"
    "p < unat (pool_used st) \<Longrightarrow> k' p = kind p"
    "p < unat (pool_used st) \<Longrightarrow> i < 512 \<Longrightarrow> tm (slot st p i) \<noteq> 0 \<Longrightarrow>
       tm' (slot st p i) = tm (slot st p i)"
    "unat (pool_used st) \<le> unat (pool_used st')"
  using assms unfolding s2_ext_def s2_frame_def by blast+

lemma s2_ext_walk:
  assumes "s2_ext kind st tm k' st' tm'" "s2_inv kind st tm" "walk_ro st tm ipa = Some e"
  shows "walk_ro st' tm' ipa = Some e"
  using assms(2)
proof (cases rule: walk_ro_cases [where ipa = ipa])
  case (leaf q r)
  note X = s2_extD [OF assms(1)] and S = s2_frame_slot [OF s2_extD(2) [OF assms(1)]]
  have "tm' (slot st 0 (ix1 ipa)) = table_desc st q" "tm' (slot st q (ix2 ipa)) = table_desc st r"
    using X(5) leaf s2_invD(4) [OF assms(2)] by simp_all
  moreover have "q < 8" "r < 8" using leaf s2_invD(3) [OF assms(2)] by simp_all
  ultimately have "walk_ro st' tm' ipa = Some (slot st' r (ix3 ipa))"
    using s2_invD(1,5) [OF X(1)] walk_ro_leaf [where st = st' and tm = tm' and ipa = ipa and q = q and r = r] S by simp
  then show ?thesis using S leaf assms(3) by simp
qed (use assms(3) in simp_all)

lemma stage2_walk_l3_alloc:
  "stage2_walk_l3 st ipa True tm =
     (case stage2_next_table st (root_va st + ix1 ipa) tm of
        (None, st, tm) \<Rightarrow> (None, st, tm)
      | (Some l2, st, tm) \<Rightarrow>
          (case stage2_next_table st (l2 + ix2 ipa) tm of
             (None, st, tm) \<Rightarrow> (None, st, tm)
           | (Some l3, st, tm) \<Rightarrow> (Some (l3 + ix3 ipa), st, tm)))"
  unfolding stage2_walk_l3_def Let_def if_True ..

text \<open>One step of the walk: the next table, present or allocated, and what it costs.\<close>

lemma next_table_step:
  assumes inv: "s2_inv kind st tm" and p: "p < unat (pool_used st)" "kind p < 3" and i: "i < 512"
  obtains (full) "stage2_next_table st (slot st p i) tm = (None, st, tm)" "unat (pool_used st) = 8"
      "tm (slot st p i) = 0"
  | (step) q k' st' tm' where
      "stage2_next_table st (slot st p i) tm = (Some (slot st' q 0), st', tm')"
      "s2_ext kind st tm k' st' tm'" "0 < q" "q < unat (pool_used st')" "k' q = Suc (kind p)"
      "tm' (slot st' p i) = table_desc st' q"
      "unat (pool_used st') \<le> Suc (unat (pool_used st))"
      "tm (slot st p i) \<noteq> 0 \<Longrightarrow> st' = st \<and> tm' = tm"
  using assms
proof (cases rule: next_table_cases)
  case full
  then show thesis by (rule that(1))
next
  case (used q)
  then show thesis using s2_ext_refl [OF inv] by (intro that(2) [where q = q and k' = kind]) auto
next
  case new
  have u: "unat (pool_used st + 1) = Suc (unat (pool_used st))"
    using new(1) by (subst unat_add_no_wrap) auto
  show thesis
  proof (rule that(2) [OF _ s2_link_ext [OF assms new(2,1)]])
    show "stage2_next_table st (slot st p i) tm =
        (Some (slot (st\<lparr>pool_used := pool_used st + 1\<rparr>) (unat (pool_used st)) 0),
         st\<lparr>pool_used := pool_used st + 1\<rparr>, s2_link st p i tm)"
      using new by simp
  qed (use new s2_invD(4) [OF inv] p(1) in \<open>simp_all add: u s2_link_slot [OF p(1) i i]\<close>)
qed

lemma walk_alloc_cases:
  assumes inv: "s2_inv kind st tm"
  obtains (full) k' st' tm' where "stage2_walk_l3 st ipa True tm = (None, st', tm')"
      "s2_ext kind st tm k' st' tm'" "7 \<le> unat (pool_used st)" "walk_ro st tm ipa = None"
  | (ok) e k' st' tm' where "stage2_walk_l3 st ipa True tm = (Some e, st', tm')"
      "s2_ext kind st tm k' st' tm'" "walk_ro st' tm' ipa = Some e"
      "unat (pool_used st') \<le> unat (pool_used st) + 2"
      "walk_ro st tm ipa \<noteq> None \<Longrightarrow> st' = st \<and> tm' = tm"
proof -
  note D = s2_invD [OF inv]
  have root: "root_va st + ix1 ipa = slot st 0 (ix1 ipa)" by (simp add: D(5) slot_add)
  note W = stage2_walk_l3_alloc [of st ipa tm, unfolded root]
  have p0: "kind 0 < 3" using D(2) by simp
  show thesis
  proof (rule next_table_step [OF inv D(4) p0, of "ix1 ipa"])
    show "ix1 ipa < 512" by simp
  next
    assume n: "stage2_next_table st (slot st 0 (ix1 ipa)) tm = (None, st, tm)"
      "unat (pool_used st) = 8" "tm (slot st 0 (ix1 ipa)) = 0"
    then show thesis
      using W s2_ext_refl [OF inv] walk_ro_none1 [where tm = tm and ipa = ipa, OF D(5) n(3)] by (intro full) simp_all
  next
    fix q k1 st1 tm1
    assume n1: "stage2_next_table st (slot st 0 (ix1 ipa)) tm = (Some (slot st1 q 0), st1, tm1)"
      and x1: "s2_ext kind st tm k1 st1 tm1" and q: "0 < q" "q < unat (pool_used st1)"
      "k1 q = Suc (kind 0)" "tm1 (slot st1 0 (ix1 ipa)) = table_desc st1 q"
      and u1: "unat (pool_used st1) \<le> Suc (unat (pool_used st))"
      and same1: "tm (slot st 0 (ix1 ipa)) \<noteq> 0 \<Longrightarrow> st1 = st \<and> tm1 = tm"
    note inv1 = s2_extD(1) [OF x1]
    note D1 = s2_invD [OF inv1]
    note W1 = W [unfolded n1 prod.case option.case slot_add]
    have kq: "k1 q < 3" and q8: "q < 8" using q D(2) D1(3) by simp_all
    show thesis
    proof (rule next_table_step [OF inv1 q(2) kq, of "ix2 ipa"])
      show "ix2 ipa < 512" by simp
    next
      assume n2: "stage2_next_table st1 (slot st1 q (ix2 ipa)) tm1 = (None, st1, tm1)"
        "unat (pool_used st1) = 8" "tm1 (slot st1 q (ix2 ipa)) = 0"
      have "walk_ro st1 tm1 ipa = None" using walk_ro_none2 [where tm = tm1 and ipa = ipa, OF D1(1,5) q8 q(4) n2(3)] .
      then have "walk_ro st tm ipa = None" using s2_ext_walk [OF x1 inv]
        by (cases "walk_ro st tm ipa") auto
      with n2 u1 x1 W1 show thesis by (intro full) simp_all
    next
      fix r k2 st2 tm2
      assume n2: "stage2_next_table st1 (slot st1 q (ix2 ipa)) tm1 = (Some (slot st2 r 0), st2, tm2)"
        and x2: "s2_ext k1 st1 tm1 k2 st2 tm2" and r: "0 < r" "r < unat (pool_used st2)"
        "k2 r = Suc (k1 q)" "tm2 (slot st2 q (ix2 ipa)) = table_desc st2 r"
        and u2: "unat (pool_used st2) \<le> Suc (unat (pool_used st1))"
        and same2: "tm1 (slot st1 q (ix2 ipa)) \<noteq> 0 \<Longrightarrow> st2 = st1 \<and> tm2 = tm1"
      note D2 = s2_invD [OF s2_extD(1) [OF x2]] and S = s2_frame_slot [OF s2_extD(2) [OF x2]]
      have "tm2 (slot st2 0 (ix1 ipa)) = table_desc st2 q"
        using s2_extD(5) [OF x2 D1(4), of "ix1 ipa"] q(4) by (simp add: S)
      then have wr: "walk_ro st2 tm2 ipa = Some (slot st2 r (ix3 ipa))"
        using walk_ro_leaf [where tm = tm2 and ipa = ipa, OF D2(1,5) q8 _ _ r(4)] r(2) D2(3) by simp
      have "st2 = st \<and> tm2 = tm" if "walk_ro st tm ipa \<noteq> None"
        using inv
      proof (cases rule: walk_ro_cases [where ipa = ipa])
        case (leaf q' r')
        then have e1: "st1 = st" "tm1 = tm" using same1 by simp_all
        then have "table_desc st q = table_desc st q'" using q(4) leaf by simp
        then have "q = q'" using table_desc_inj [OF D(1) q8] leaf D(3) by simp
        then show ?thesis using same2 e1 leaf by simp
      qed (use that in simp_all)
      with wr u1 u2 show thesis
        using W1 n2 s2_ext_trans [OF x1 x2]
        by (intro ok) (simp_all add: slot_add)
    qed
  qed
qed

subsection \<open>Writing a leaf\<close>

lemma set_leaf:
  assumes inv: "s2_inv kind st tm" and w: "walk_ro st tm ipa = Some e"
  shows "s2_inv kind st (tm(e := d))" "walk_ro st (tm(e := d)) b = walk_ro st tm b"
    "s2_frame st tm st (tm(e := d))"
    "unat ipa < 2 ^ 39 \<Longrightarrow> unat b < 2 ^ 39 \<Longrightarrow>
       s2_view st (tm(e := d)) b = (if same_page ipa b then d else s2_view st tm b)"
proof -
  note D = s2_invD [OF inv]
  obtain q r where q: "0 < q" "q < unat (pool_used st)" "kind q = 2" "0 < r"
      "r < unat (pool_used st)" "kind r = 3" "tm (slot st 0 (ix1 ipa)) = table_desc st q"
      "tm (slot st q (ix2 ipa)) = table_desc st r" and e: "e = slot st r (ix3 ipa)"
    using inv w by (cases rule: walk_ro_cases [where ipa = ipa]) auto
  have keep: "(tm(e := d)) (slot st p i) = tm (slot st p i)" if "kind p < 3" "i < 512" for p i
    using that q(6) by (auto simp: e slot_eq_iff)
  show "s2_inv kind st (tm(e := d))"
    using inv unfolding s2_inv_def by (simp only: keep simp_thms cong: conj_cong imp_cong)
  show wb: "walk_ro st (tm(e := d)) b = walk_ro st tm b" for b
    using inv
  proof (cases rule: walk_ro_cases [where ipa = b])
    case no_l2
    then show ?thesis using keep [of 0] D walk_ro_none1 [OF D(5)] by simp
  next
    case (no_l3 x)
    then show ?thesis
      using keep [of 0 "ix1 b"] keep [of x "ix2 b"] D walk_ro_none2 [OF D(1,5), where q = x] by simp
  next
    case (leaf x y)
    then show ?thesis
      using keep [of 0 "ix1 b"] keep [of x "ix2 b"] D walk_ro_leaf [OF D(1,5), where q = x and r = y] by simp
  qed
  have "r * 512 + ix3 ipa < 4096" using q(5) D(3) stage2_page_index_bound [of ipa 12] by linarith
  then show "s2_frame st tm st (tm(e := d))" by (intro s2_frameI) (auto simp: e slot_def)
  assume small: "unat ipa < 2 ^ 39" "unat b < 2 ^ 39"
  show "s2_view st (tm(e := d)) b = (if same_page ipa b then d else s2_view st tm b)"
  proof (cases "same_page ipa b")
    case True
    then have "walk_ro st (tm(e := d)) b = Some e"
      using w wb by (simp add: walk_ro_def same_page_indices cong: option.case_cong)
    with True show ?thesis by (simp add: s2_view_def)
  next
    case False
    have "walk_ro st tm b \<noteq> Some e"
    proof
      assume wb': "walk_ro st tm b = Some e"
      obtain x y where x: "0 < x" "x < unat (pool_used st)" "kind x = 2"
        "y < unat (pool_used st)" "tm (slot st 0 (ix1 b)) = table_desc st x"
        "tm (slot st x (ix2 b)) = table_desc st y" "e = slot st y (ix3 b)"
        using inv wb' by (cases rule: walk_ro_cases [where ipa = b]) auto
      then have y: "y = r" "ix3 b = ix3 ipa" using e by (simp_all add: slot_eq_iff)
      have "x = q" "ix2 b = ix2 ipa"
        using s2_unique_parent [OF inv x(2) _ q(2), of "ix2 b" "ix2 ipa" r] x q y by simp_all
      moreover from this have "ix1 b = ix1 ipa"
        using s2_unique_parent(2) [OF inv D(4) _ D(4), of "ix1 b" "ix1 ipa" q] x q D(2) by simp
      ultimately show False using False y page_indices_eq small by metis
    qed
    with False show ?thesis by (auto simp: s2_view_def wb split: option.split)
  qed
qed

subsection \<open>Mapping one page\<close>

text \<open>The descriptor \<open>stage2_map_page\<close> writes.\<close>

definition page_desc :: "u64 \<Rightarrow> u64 \<Rightarrow> u64" where
  "page_desc pa ats = (pa AND HV_STAGE2_DESC_ADDR_MASK) OR
     (ats AND NOT HV_STAGE2_DESC_ADDR_MASK) OR HV_STAGE2_DESC_PAGE"

lemma page_desc_and_3 [simp]: "page_desc pa ats AND 3 = 3"
  unfolding page_desc_def or.assoc [symmetric] by (rule or_and_self)

lemma page_desc_addr: "page_desc pa ats AND HV_STAGE2_DESC_ADDR_MASK = pa AND HV_STAGE2_DESC_ADDR_MASK"
proof -
  have "page_desc pa ats AND HV_STAGE2_DESC_ADDR_MASK =
      ((pa AND HV_STAGE2_DESC_ADDR_MASK) OR (ats AND NOT HV_STAGE2_DESC_ADDR_MASK)) AND
      HV_STAGE2_DESC_ADDR_MASK"
    unfolding page_desc_def or.assoc [symmetric] by (rule or_3_addr_mask)
  also have "\<dots> = (pa AND HV_STAGE2_DESC_ADDR_MASK) AND HV_STAGE2_DESC_ADDR_MASK"
    by (rule or_and_disjoint) (rule and_not_and_self)
  also have "\<dots> = pa AND HV_STAGE2_DESC_ADDR_MASK" by (simp only: and.assoc and.idem)
  finally show ?thesis .
qed

lemma map_page_cases:
  assumes inv: "s2_inv kind (stage2 vm) tm" and small: "unat ipa < 2 ^ 39"
  obtains (no_tables) k' st' tm' where
      "stage2_map_page vm ipa pa ats tm = (HV_STAGE2_ERR_NO_TABLES, vm\<lparr>stage2 := st'\<rparr>, tm')"
      "s2_ext kind (stage2 vm) tm k' st' tm'" "7 \<le> unat (pool_used (stage2 vm))"
      "walk_ro (stage2 vm) tm ipa = None"
  | (mapped) k' st' tm' where
      "stage2_map_page vm ipa pa ats tm = (HV_STAGE2_ERR_MAPPED, vm\<lparr>stage2 := st'\<rparr>, tm')"
      "s2_ext kind (stage2 vm) tm k' st' tm'" "s2_view (stage2 vm) tm ipa AND 1 \<noteq> 0"
  | (ok) k' st' tm' where
      "stage2_map_page vm ipa pa ats tm = (HV_STAGE2_OK, vm\<lparr>stage2 := st'\<rparr>, tm')"
      "s2_inv k' st' tm'" "s2_frame (stage2 vm) tm st' tm'"
      "\<And>b. unat b < 2 ^ 39 \<Longrightarrow> s2_view st' tm' b =
         (if same_page ipa b then page_desc pa ats else s2_view (stage2 vm) tm b)"
      "walk_ro st' tm' ipa \<noteq> None"
      "\<And>b. walk_ro (stage2 vm) tm b \<noteq> None \<Longrightarrow> walk_ro st' tm' b \<noteq> None"
      "unat (pool_used st') \<le> unat (pool_used (stage2 vm)) +
         (if walk_ro (stage2 vm) tm ipa = None then 2 else 0)"
      "s2_view (stage2 vm) tm ipa AND 1 = 0"
  using inv
proof (cases rule: walk_alloc_cases [where ipa = ipa])
  case (full k' st' tm')
  then show thesis by (intro no_tables) (simp_all add: stage2_map_page_def)
next
  case (ok e k' st' tm')
  note X = s2_extD [OF ok(2)]
  have v: "tm' e = s2_view (stage2 vm) tm ipa" using X(3) [of ipa] ok(3) by (simp add: s2_view_def)
  show thesis
  proof (cases "tm' e AND 1 = 0")
    case False
    with ok v show thesis by (intro mapped) (simp_all add: stage2_map_page_def)
  next
    case True
    note L = set_leaf [OF X(1) ok(3), where d = "page_desc pa ats"]
    show thesis
    proof (rule that(3))
      show "stage2_map_page vm ipa pa ats tm =
          (HV_STAGE2_OK, vm\<lparr>stage2 := st'\<rparr>, tm'(e := page_desc pa ats))"
        using ok(1) True by (simp add: stage2_map_page_def page_desc_def)
      show "s2_inv k' st' (tm'(e := page_desc pa ats))" by (rule L(1))
      show "s2_frame (stage2 vm) tm st' (tm'(e := page_desc pa ats))"
        by (rule s2_frame_trans [OF X(2) L(3)])
      show "s2_view st' (tm'(e := page_desc pa ats)) b =
          (if same_page ipa b then page_desc pa ats else s2_view (stage2 vm) tm b)"
        if "unat b < 2 ^ 39" for b using L(4) [OF small that] X(3) by simp
      show "walk_ro st' (tm'(e := page_desc pa ats)) ipa \<noteq> None" using L(2) ok(3) by simp
      show "walk_ro st' (tm'(e := page_desc pa ats)) b \<noteq> None"
        if "walk_ro (stage2 vm) tm b \<noteq> None" for b
        using that s2_ext_walk [OF ok(2) inv] L(2) by auto
      show "unat (pool_used st') \<le> unat (pool_used (stage2 vm)) +
          (if walk_ro (stage2 vm) tm ipa = None then 2 else 0)" using ok(4,5) by auto
      show "s2_view (stage2 vm) tm ipa AND 1 = 0" using True v by simp
    qed
  qed
qed

end
