(* ===== verification/Stage2_Range.thy ===== *)
theory Stage2_Range
  imports Stage2_Map
begin

section \<open>Stage-2 translation tables: mapping a range of pages\<close>

text \<open>
  The interface between the page-table tree and the page loop of \<open>hv_stage2_map_region\<close> is the
  locale \<open>page_table\<close>: what mapping one page promises of the translation, of the tables it needs
  and of the memory it leaves alone. \<open>page_loop\<close> adds the loop. Its lemmas say which pages a loop
  that ended early has mapped, and when it cannot run out of tables. The interpretations discharge
  the laws for \<open>stage2_map_page\<close> and \<open>stage2_map_pages\<close>.
\<close>

definition same_block :: "u64 \<Rightarrow> u64 \<Rightarrow> bool" where
  "same_block a b \<longleftrightarrow> unat a div 2 ^ 21 = unat b div 2 ^ 21"

locale page_table =
  fixes wf :: "'s \<Rightarrow> bool"
    and view :: "'s \<Rightarrow> u64 \<Rightarrow> u64"
    and map1 :: "u64 \<Rightarrow> u64 \<Rightarrow> u64 \<Rightarrow> 's \<Rightarrow> int \<times> 's"
    and frame :: "'s \<Rightarrow> 's \<Rightarrow> bool"
    and backed :: "'s \<Rightarrow> u64 \<Rightarrow> bool"
    and used :: "'s \<Rightarrow> nat"
  assumes frame_refl: "frame s s"
    and frame_trans: "frame s s1 \<Longrightarrow> frame s1 s2 \<Longrightarrow> frame s s2"
    and backed_block: "same_block a b \<Longrightarrow> backed s a \<longleftrightarrow> backed s b"
    and map1_wf: "wf s \<Longrightarrow> unat ipa < 2 ^ 39 \<Longrightarrow> map1 ipa pa ats s = (r, s') \<Longrightarrow> wf s' \<and> frame s s'"
    and map1_ok: "wf s \<Longrightarrow> unat ipa < 2 ^ 39 \<Longrightarrow> map1 ipa pa ats s = (HV_STAGE2_OK, s') \<Longrightarrow>
      unat b < 2 ^ 39 \<Longrightarrow>
      view s' b = (if same_page ipa b then page_desc pa ats else view s b)"
    and map1_ok_free: "wf s \<Longrightarrow> unat ipa < 2 ^ 39 \<Longrightarrow> map1 ipa pa ats s = (HV_STAGE2_OK, s') \<Longrightarrow>
      same_page ipa b \<Longrightarrow> view s b AND 1 = 0"
    and map1_fail: "wf s \<Longrightarrow> unat ipa < 2 ^ 39 \<Longrightarrow> map1 ipa pa ats s = (r, s') \<Longrightarrow>
      r \<noteq> HV_STAGE2_OK \<Longrightarrow> view s' b = view s b"
    and map1_codes: "wf s \<Longrightarrow> unat ipa < 2 ^ 39 \<Longrightarrow> map1 ipa pa ats s = (r, s') \<Longrightarrow>
      r = HV_STAGE2_OK \<and> backed s' ipa \<or>
      r = HV_STAGE2_ERR_MAPPED \<and> view s ipa AND 1 \<noteq> 0 \<or>
      r = HV_STAGE2_ERR_NO_TABLES \<and> \<not> backed s ipa \<and> 7 \<le> used s"
    and map1_used: "wf s \<Longrightarrow> unat ipa < 2 ^ 39 \<Longrightarrow> map1 ipa pa ats s = (HV_STAGE2_OK, s') \<Longrightarrow>
      used s' \<le> used s + (if backed s ipa then 0 else 2)"

locale page_loop = page_table wf view map1 frame backed used
  for wf :: "'s \<Rightarrow> bool" and view map1 frame backed used +
  fixes loop :: "nat \<Rightarrow> u64 \<Rightarrow> u64 \<Rightarrow> u64 \<Rightarrow> u64 \<Rightarrow> 's \<Rightarrow> int \<times> 's"
  assumes loop_0: "loop 0 off ipa pa ats s = (HV_STAGE2_OK, s)"
    and loop_fail: "map1 (ipa + off) (pa + off) ats s = (r, s') \<Longrightarrow> r \<noteq> HV_STAGE2_OK \<Longrightarrow>
      loop (Suc n) off ipa pa ats s = (r, s')"
    and loop_ok: "map1 (ipa + off) (pa + off) ats s = (HV_STAGE2_OK, s') \<Longrightarrow>
      loop (Suc n) off ipa pa ats s = loop n (off + HV_STAGE2_PAGE_SIZE) ipa pa ats s'"

text \<open>The interval of addresses that \<open>k\<close> pages from \<open>base\<close> cover, and address arithmetic on it.\<close>

definition in_pages :: "nat \<Rightarrow> nat \<Rightarrow> u64 \<Rightarrow> bool" where
  "in_pages base k b \<longleftrightarrow> base \<le> unat b \<and> unat b < base + k * 4096"

lemma in_pages_0 [simp]: "\<not> in_pages base 0 b"
  by (simp add: in_pages_def)

lemma in_pages_Suc: "in_pages base (Suc k) b \<longleftrightarrow> in_pages base 1 b \<or> in_pages (base + 4096) k b"
  by (auto simp: in_pages_def)

lemma same_page_in_pages:
  assumes "4096 dvd unat a"
  shows "same_page a b \<longleftrightarrow> in_pages (unat a) 1 b"
proof -
  from assms obtain k where "unat a = 4096 * k" ..
  then show ?thesis by (auto simp: same_page_def in_pages_def)
qed

lemma same_page_refl [simp]: "same_page a a"
  by (simp add: same_page_def)

lemma page_desc_offset:
  fixes x y :: u64
  assumes "4096 dvd unat x" "unat y < 4096"
  shows "page_desc (x + y) ats = page_desc x ats"
proof -
  have "unat y mod 4096 = unat y" using assms(2) by simp
  then have "unat (y AND mask 12) = unat y" by (simp only: unat_and_mask) simp
  then have y: "y AND 0xfff = y" by (simp add: mask_eq_exp_minus_1 word_unat_eq_iff)
  have "x OR y = x + y" using page_offset_disjoint [OF assms(1), of y] by (simp only: y)
  moreover have "y AND HV_STAGE2_DESC_ADDR_MASK = 0"
  proof -
    have "y AND HV_STAGE2_DESC_ADDR_MASK = y AND (0xfff AND HV_STAGE2_DESC_ADDR_MASK)"
      by (metis and.assoc y)
    then show ?thesis by simp
  qed
  ultimately have "(x + y) AND HV_STAGE2_DESC_ADDR_MASK = x AND HV_STAGE2_DESC_ADDR_MASK"
    by (metis or_and_disjoint)
  then show ?thesis by (simp only: page_desc_def)
qed

text \<open>On the page of \<open>ipa + off\<close> the descriptor of \<open>pa + off\<close> is that of \<open>pa + (b - ipa)\<close>.\<close>

lemma page_desc_in_page:
  assumes "same_page (ipa + off) b" "4096 dvd unat (ipa + off)" "4096 dvd unat (pa + off)"
  shows "page_desc (pa + off) ats = page_desc (pa + (b - ipa)) ats"
proof -
  have b: "unat (ipa + off) \<le> unat b" "unat b < unat (ipa + off) + 4096"
    using assms(1,2) by (simp_all add: same_page_in_pages in_pages_def)
  then have "unat (b - (ipa + off)) < 4096" by (simp add: unat_sub word_le_nat_alt)
  with assms(3) have "page_desc ((pa + off) + (b - (ipa + off))) ats = page_desc (pa + off) ats"
    by (rule page_desc_offset)
  then show ?thesis by (simp add: algebra_simps)
qed

context page_loop
begin

text \<open>
  The loop stops after \<open>k\<close> of its \<open>n\<close> pages. The pages before are mapped to the pages of \<open>pa\<close>,
  every other translation is as it was, and \<open>k = n\<close> exactly when the loop succeeds.
\<close>

lemma loop_view:
  assumes "wf s" "unat ipa + (unat off + n * 4096) \<le> 2 ^ 32" "unat pa + (unat off + n * 4096) \<le> 2 ^ 32"
    "4096 dvd unat ipa" "4096 dvd unat pa" "4096 dvd unat off" "loop n off ipa pa ats s = (r, s')"
  shows "wf s' \<and> frame s s' \<and> (\<exists>k \<le> n. (r = HV_STAGE2_OK \<longleftrightarrow> k = n) \<and>
    (\<forall>b. unat b < 2 ^ 39 \<longrightarrow> view s' b =
       (if in_pages (unat ipa + unat off) k b then page_desc (pa + (b - ipa)) ats else view s b)))"
  using assms
proof (induction n arbitrary: s off)
  case 0
  then show ?case by (auto simp: loop_0 frame_refl)
next
  case (Suc n)
  obtain r1 s1 where m: "map1 (ipa + off) (pa + off) ats s = (r1, s1)" by force
  have ipa: "unat (ipa + off) = unat ipa + unat off" "unat (pa + off) = unat pa + unat off"
    using Suc.prems(2,3) by (simp_all add: unat_add_no_wrap)
  have small: "unat (ipa + off) < 2 ^ 39" using ipa Suc.prems(2) by simp
  have al: "4096 dvd unat (ipa + off)" "4096 dvd unat (pa + off)" using ipa Suc.prems by simp_all
  note W = map1_wf [OF Suc.prems(1) small m]
  show ?case
  proof (cases "r1 = HV_STAGE2_OK")
    case False
    then have "r = r1" "s' = s1" using loop_fail [OF m False] Suc.prems(7) by simp_all
    with W False map1_fail [OF Suc.prems(1) small m False] show ?thesis
      by (intro conjI exI [of _ 0]) auto
  next
    case True
    note V = map1_ok [OF Suc.prems(1) small m [unfolded True]]
    have off: "unat (off + 0x1000) = unat off + 4096"
      using Suc.prems(2) by (subst unat_add_no_wrap) auto
    have "loop n (off + 0x1000) ipa pa ats s1 = (r, s')"
      using loop_ok [OF m [unfolded True]] Suc.prems(7) by simp
    with Suc.IH [of s1 "off + 0x1000"] W Suc.prems(2-6) off
    obtain k where k: "wf s'" "frame s1 s'" "k \<le> n" "r = HV_STAGE2_OK \<longleftrightarrow> k = n"
      "\<And>b. unat b < 2 ^ 39 \<Longrightarrow> view s' b =
         (if in_pages (unat ipa + unat off + 4096) k b then page_desc (pa + (b - ipa)) ats else view s1 b)"
      by (auto simp: add.assoc)
    have "view s' b = (if in_pages (unat ipa + unat off) (Suc k) b
        then page_desc (pa + (b - ipa)) ats else view s b)" if b: "unat b < 2 ^ 39" for b
      using k(5) [OF b] V [OF b] page_desc_in_page [OF _ al, of b ats] same_page_in_pages [OF al(1), of b]
      by (simp add: in_pages_Suc [of _ k] ipa)
    with k(1-4) W frame_trans show ?thesis by (intro conjI exI [of _ "Suc k"]) auto
  qed
qed

text \<open>The loop reports \<open>MAPPED\<close> only for an address of the range that was translated before.\<close>

lemma loop_mapped:
  assumes "wf s" "unat ipa + (unat off + n * 4096) \<le> 2 ^ 32" "4096 dvd unat ipa" "4096 dvd unat off"
    "loop n off ipa pa ats s = (r, s')"
  shows "(r = HV_STAGE2_ERR_MAPPED \<longrightarrow>
      (\<exists>b. in_pages (unat ipa + unat off) n b \<and> view s b AND 1 \<noteq> 0)) \<and>
    (r = HV_STAGE2_OK \<longrightarrow> (\<forall>b. in_pages (unat ipa + unat off) n b \<longrightarrow> view s b AND 1 = 0)) \<and>
    r \<in> {HV_STAGE2_OK, HV_STAGE2_ERR_MAPPED, HV_STAGE2_ERR_NO_TABLES}"
  using assms
proof (induction n arbitrary: s off)
  case 0
  then show ?case by (auto simp: loop_0)
next
  case (Suc n)
  obtain r1 s1 where m: "map1 (ipa + off) (pa + off) ats s = (r1, s1)" by force
  have ipa: "unat (ipa + off) = unat ipa + unat off"
    using Suc.prems(2) by (simp add: unat_add_no_wrap)
  have small: "unat (ipa + off) < 2 ^ 39" using ipa Suc.prems(2) by simp
  have al: "4096 dvd unat (ipa + off)" using ipa Suc.prems by simp
  have first: "in_pages (unat ipa + unat off) (Suc n) (ipa + off)" by (simp add: in_pages_def ipa)
  note C = map1_codes [OF Suc.prems(1) small m]
  show ?case
  proof (cases "r1 = HV_STAGE2_OK")
    case False
    then have "r = r1" using loop_fail [OF m False] Suc.prems(5) by simp
    with C False first show ?thesis by auto
  next
    case True
    note V = map1_ok [OF Suc.prems(1) small m [unfolded True]]
    note F = map1_ok_free [OF Suc.prems(1) small m [unfolded True]]
    have off: "unat (off + 0x1000) = unat off + 4096"
      using Suc.prems(2) by (subst unat_add_no_wrap) auto
    have l: "loop n (off + 0x1000) ipa pa ats s1 = (r, s')"
      using loop_ok [OF m [unfolded True]] Suc.prems(5) by simp
    have "wf s1" using map1_wf [OF Suc.prems(1) small m] by simp
    from Suc.IH [OF this _ Suc.prems(3) _ l] Suc.prems(2,4) off
    have IH: "(r = HV_STAGE2_ERR_MAPPED \<longrightarrow>
        (\<exists>b. in_pages (unat ipa + unat off + 4096) n b \<and> view s1 b AND 1 \<noteq> 0)) \<and>
      (r = HV_STAGE2_OK \<longrightarrow> (\<forall>b. in_pages (unat ipa + unat off + 4096) n b \<longrightarrow> view s1 b AND 1 = 0)) \<and>
      r \<in> {HV_STAGE2_OK, HV_STAGE2_ERR_MAPPED, HV_STAGE2_ERR_NO_TABLES}"
      by (simp add: add.assoc)
    have rest: "view s1 b = view s b" if "in_pages (unat ipa + unat off + 4096) n b" for b
    proof -
      have "\<not> same_page (ipa + off) b" "unat b < 2 ^ 39"
        using that Suc.prems(2) by (auto simp: same_page_in_pages [OF al] in_pages_def ipa)
      then show ?thesis using V by simp
    qed
    have "view s b AND 1 = 0" if "in_pages (unat ipa + unat off) 1 b" for b
      using F [of b] that same_page_in_pages [OF al, of b] by (simp add: ipa)
    with IH rest show ?thesis unfolding in_pages_Suc [of _ n] by metis
  qed
qed

text \<open>
  Inside one 2 MB block, the range of a level-3 table, a loop needs at most two new tables, and
  none when the block has its table.
\<close>

lemma loop_tables:
  assumes "wf s" "unat ipa + (unat off + n * 4096) \<le> 2 ^ 32"
    "\<And>b. in_pages (unat ipa + unat off) n b \<Longrightarrow> same_block a b"
    "backed s a \<or> used s \<le> 6" "loop n off ipa pa ats s = (r, s')"
  shows "r \<noteq> HV_STAGE2_ERR_NO_TABLES \<and>
    (r = HV_STAGE2_OK \<longrightarrow> used s' \<le> used s + (if backed s a then 0 else 2))"
  using assms
proof (induction n arbitrary: s off)
  case 0
  then show ?case by (auto simp: loop_0)
next
  case (Suc n)
  obtain r1 s1 where m: "map1 (ipa + off) (pa + off) ats s = (r1, s1)" by force
  have ipa: "unat (ipa + off) = unat ipa + unat off"
    using Suc.prems(2) by (simp add: unat_add_no_wrap)
  have small: "unat (ipa + off) < 2 ^ 39" using ipa Suc.prems(2) by simp
  have bl: "same_block a (ipa + off)" by (rule Suc.prems(3)) (simp add: in_pages_def ipa)
  note C = map1_codes [OF Suc.prems(1) small m]
  show ?case
  proof (cases "r1 = HV_STAGE2_OK")
    case False
    then have "r = r1" using loop_fail [OF m False] Suc.prems(5) by simp
    with C False Suc.prems(4) backed_block [OF bl] show ?thesis by auto
  next
    case True
    have off: "unat (off + 0x1000) = unat off + 4096"
      using Suc.prems(2) by (subst unat_add_no_wrap) auto
    have l: "loop n (off + 0x1000) ipa pa ats s1 = (r, s')"
      using loop_ok [OF m [unfolded True]] Suc.prems(5) by simp
    have b1: "backed s1 a" using C True backed_block [OF bl] by auto
    have "wf s1" using map1_wf [OF Suc.prems(1) small m] by simp
    from Suc.IH [OF this _ _ _ l] b1 Suc.prems(2,3) off
    have "r \<noteq> HV_STAGE2_ERR_NO_TABLES \<and> (r = HV_STAGE2_OK \<longrightarrow> used s' \<le> used s1)"
      by (simp add: add.assoc in_pages_Suc [of _ n])
    moreover have "used s1 \<le> used s + (if backed s a then 0 else 2)"
      using map1_used [OF Suc.prems(1) small m [unfolded True]] backed_block [OF bl] by simp
    ultimately show ?thesis by auto
  qed
qed

end

end
