(* ===== verification/Stage2_Spec.thy ===== *)
theory Stage2_Spec
  imports Stage2_Range
begin

section \<open>What the operations of stage2.c guarantee\<close>

text \<open>
  The interpretation of the page-table interface on \<open>stage2_map_page\<close> and on the loop of
  \<open>hv_stage2_map_region\<close>, and the contracts of the four operations a VM is built with, stated over
  \<open>hv_stage2_translate\<close>: initialising unmaps everything, mapping a region adds exactly the
  translations of its pages, unmapping a page removes exactly that page. \<open>vm_tables_ok\<close> is the
  precondition they keep: the tables form a tree inside the VM's own pool, and every leaf is
  invalid or a page descriptor.
\<close>

definition vm_tables_ok :: "HvVm \<Rightarrow> (nat \<Rightarrow> u64) \<Rightarrow> bool" where
  "vm_tables_ok vm tm \<longleftrightarrow> (\<exists>kind. s2_inv kind (stage2 vm) tm) \<and>
     (\<forall>b. unat b < 2 ^ 39 \<longrightarrow>
        s2_view (stage2 vm) tm b = 0 \<or> s2_view (stage2 vm) tm b AND 3 = 3)"

text \<open>The state the loop works on, and the interface's operations on it.\<close>

type_synonym s2_state = "HvVm \<times> (nat \<Rightarrow> u64)"

definition tables_wf :: "s2_state \<Rightarrow> bool" where
  "tables_wf s = vm_tables_ok (fst s) (snd s)"

definition tables_view :: "s2_state \<Rightarrow> u64 \<Rightarrow> u64" where
  "tables_view s = s2_view (stage2 (fst s)) (snd s)"

definition tables_map1 :: "u64 \<Rightarrow> u64 \<Rightarrow> u64 \<Rightarrow> s2_state \<Rightarrow> int \<times> s2_state" where
  "tables_map1 ipa pa ats s = stage2_map_page (fst s) ipa pa ats (snd s)"

definition tables_loop :: "nat \<Rightarrow> u64 \<Rightarrow> u64 \<Rightarrow> u64 \<Rightarrow> u64 \<Rightarrow> s2_state \<Rightarrow> int \<times> s2_state" where
  "tables_loop n off ipa pa ats s = stage2_map_pages n off (fst s) ipa pa ats (snd s)"

definition tables_frame :: "s2_state \<Rightarrow> s2_state \<Rightarrow> bool" where
  "tables_frame s s' \<longleftrightarrow> (\<exists>st. fst s' = (fst s)\<lparr>stage2 := st\<rparr> \<and>
     s2_frame (stage2 (fst s)) (snd s) st (snd s'))"

definition tables_backed :: "s2_state \<Rightarrow> u64 \<Rightarrow> bool" where
  "tables_backed s a \<longleftrightarrow> walk_ro (stage2 (fst s)) (snd s) a \<noteq> None"

definition tables_used :: "s2_state \<Rightarrow> nat" where
  "tables_used s = unat (pool_used (stage2 (fst s)))"

lemmas tables_defs = tables_wf_def tables_view_def tables_map1_def tables_loop_def
  tables_backed_def tables_used_def vm_tables_ok_def

lemma walk_ro_same_block:
  assumes "same_block a b"
  shows "walk_ro st tm a = None \<longleftrightarrow> walk_ro st tm b = None"
proof -
  have "x div 2 ^ 30 = x div 2 ^ 21 div 2 ^ 9" for x :: nat by (simp add: div_mult2_eq [symmetric])
  with assms have "ix1 a = ix1 b" "ix2 a = ix2 b"
    by (simp_all only: unat_stage2_page_index same_block_def)
  then show ?thesis
    unfolding walk_ro_def by (simp split: option.split)
qed

lemma stage2_map_page_cases:
  assumes "tables_wf s" "unat ipa < 2 ^ 39" "tables_map1 ipa pa ats s = (r, s')"
  shows "tables_wf s' \<and> tables_frame s s' \<and>
    (r = HV_STAGE2_OK \<and> tables_backed s' ipa \<and>
       (\<forall>b. unat b < 2 ^ 39 \<longrightarrow> tables_view s' b =
          (if same_page ipa b then page_desc pa ats else tables_view s b)) \<and>
       tables_view s ipa AND 1 = 0 \<and>
       tables_used s' \<le> tables_used s + (if tables_backed s ipa then 0 else 2) \<or>
     r = HV_STAGE2_ERR_MAPPED \<and> tables_view s ipa AND 1 \<noteq> 0 \<and> tables_view s' = tables_view s \<or>
     r = HV_STAGE2_ERR_NO_TABLES \<and> \<not> tables_backed s ipa \<and> 7 \<le> tables_used s \<and>
       tables_view s' = tables_view s)"
proof -
  obtain vm tm vm' tm' where s: "s = (vm, tm)" "s' = (vm', tm')" by fastforce
  with assms obtain kind where inv: "s2_inv kind (stage2 vm) tm"
    and leaf: "\<forall>b. unat b < 2 ^ 39 \<longrightarrow> s2_view (stage2 vm) tm b = 0 \<or> s2_view (stage2 vm) tm b AND 3 = 3"
    and m: "stage2_map_page vm ipa pa ats tm = (r, vm', tm')" by (auto simp: tables_defs)
  from inv assms(2) show ?thesis
  proof (cases rule: map_page_cases [where pa = pa and ats = ats])
    case (no_tables k' st' tm'')
    with m s2_extD(1,2) [OF no_tables(2)] s2_extD(3) [OF no_tables(2)] leaf show ?thesis
      unfolding s by (auto simp: tables_defs tables_frame_def)
  next
    case (mapped k' st' tm'')
    with m s2_extD(1,2) [OF mapped(2)] s2_extD(3) [OF mapped(2)] leaf show ?thesis
      unfolding s by (auto simp: tables_defs tables_frame_def)
  next
    case (ok k' st' tm'')
    with m have "vm' = vm\<lparr>stage2 := st'\<rparr>" "tm' = tm''" "r = HV_STAGE2_OK" by simp_all
    with ok leaf show ?thesis
      unfolding s by (auto simp: tables_defs tables_frame_def)
  qed
qed

lemma s2_view_page_eq: "same_page a b \<Longrightarrow> tables_view s a = tables_view s b"
  unfolding tables_view_def by (rule s2_view_same_page)

interpretation s2_table: page_table tables_wf tables_view tables_map1 tables_frame tables_backed
  tables_used
proof
  fix s s1 s2 :: s2_state
  show "tables_frame s s" unfolding tables_frame_def
    by (intro exI [of _ "stage2 (fst s)"]) simp
  show "tables_frame s s2" if "tables_frame s s1" "tables_frame s1 s2"
  proof -
    from that obtain st1 st2 where "fst s1 = (fst s)\<lparr>stage2 := st1\<rparr>"
      "s2_frame (stage2 (fst s)) (snd s) st1 (snd s1)" "fst s2 = (fst s1)\<lparr>stage2 := st2\<rparr>"
      "s2_frame (stage2 (fst s1)) (snd s1) st2 (snd s2)" by (auto simp: tables_frame_def)
    then show ?thesis unfolding tables_frame_def
      by (intro exI [of _ st2]) (auto intro: s2_frame_trans)
  qed
next
  fix s :: s2_state and a b :: u64
  show "tables_backed s a = tables_backed s b" if "same_block a b"
    using walk_ro_same_block [OF that] by (simp add: tables_backed_def)
next
  fix s s' :: s2_state and ipa pa ats b :: u64 and r :: int
  assume wf: "tables_wf s" and small: "unat ipa < 2 ^ 39"
  show "tables_wf s' \<and> tables_frame s s'" if "tables_map1 ipa pa ats s = (r, s')"
    using stage2_map_page_cases [OF wf small that] by blast
  show "tables_view s' b = (if same_page ipa b then page_desc pa ats else tables_view s b)"
    if "tables_map1 ipa pa ats s = (HV_STAGE2_OK, s')" "unat b < 2 ^ 39"
    using stage2_map_page_cases [OF wf small that(1)] that(2) by simp
  show "tables_view s b AND 1 = 0"
    if "tables_map1 ipa pa ats s = (HV_STAGE2_OK, s')" "same_page ipa b"
    using stage2_map_page_cases [OF wf small that(1)] s2_view_page_eq [OF that(2), of s] by simp
  show "tables_view s' b = tables_view s b"
    if "tables_map1 ipa pa ats s = (r, s')" "r \<noteq> HV_STAGE2_OK"
    using stage2_map_page_cases [OF wf small that(1)] that(2) by auto
  show "r = HV_STAGE2_OK \<and> tables_backed s' ipa \<or>
      r = HV_STAGE2_ERR_MAPPED \<and> tables_view s ipa AND 1 \<noteq> 0 \<or>
      r = HV_STAGE2_ERR_NO_TABLES \<and> \<not> tables_backed s ipa \<and> 7 \<le> tables_used s"
    if "tables_map1 ipa pa ats s = (r, s')"
    using stage2_map_page_cases [OF wf small that(1)] by blast
  show "tables_used s' \<le> tables_used s + (if tables_backed s ipa then 0 else 2)"
    if "tables_map1 ipa pa ats s = (HV_STAGE2_OK, s')"
    using stage2_map_page_cases [OF wf small that(1)] by simp
qed

interpretation s2_loop: page_loop tables_wf tables_view tables_map1 tables_frame tables_backed
  tables_used tables_loop
  by unfold_locales (auto simp: tables_loop_def tables_map1_def)

subsection \<open>Translation over the view\<close>

lemma stage2_fits_iff: "stage2_fits_v1_32bit v \<longleftrightarrow> unat v < 2 ^ 32"
  by (auto simp: stage2_fits_v1_32bit_def word_le_nat_alt)

lemma translate_view:
  "hv_stage2_translate (Some vm) ipa True tm =
     (if unat ipa < 2 ^ 32 then
        if s2_view (stage2 vm) tm ipa AND 3 = 3
          then Inr ((s2_view (stage2 vm) tm ipa AND HV_STAGE2_DESC_ADDR_MASK) OR (ipa AND 0xfff))
        else Inl HV_STAGE2_ERR_UNMAPPED
      else Inl HV_STAGE2_ERR_INVAL)"
  by (simp add: hv_stage2_translate_def stage2_walk_l3_ro s2_view_def stage2_fits_iff
      split: option.split)

lemma translate_page_desc:
  fixes ipa pa b ats :: u64
  assumes "s2_view (stage2 vm) tm b = page_desc (pa + (b - ipa)) ats"
    and "4096 dvd unat ipa" "4096 dvd unat pa" "unat ipa \<le> unat b" "unat b < 2 ^ 32"
    "unat pa + (unat b - unat ipa) < 2 ^ 32"
  shows "hv_stage2_translate (Some vm) b True tm = Inr (pa + (b - ipa))"
proof -
  let ?x = "pa + (b - ipa)"
  have d: "unat (b - ipa) = unat b - unat ipa" using assms(4) by (simp add: unat_sub word_le_nat_alt)
  have x: "unat ?x = unat pa + (unat b - unat ipa)" using assms(6) d by (simp add: unat_add_no_wrap)
  define p where "p = ?x - (b AND 0xfff)"
  have low: "unat (b AND 0xfff) = unat b mod 4096"
    using unat_and_mask [of b 12] by (simp add: mask_eq_exp_minus_1)
  from assms(2,3) obtain i j where ij: "unat ipa = 4096 * i" "unat pa = 4096 * j" by (auto elim!: dvdE)
  have xmod: "unat ?x mod 4096 = unat b mod 4096"
  proof -
    have "unat ?x + 4096 * i = 4096 * j + unat b" using x ij assms(4) by linarith
    then have "(unat ?x + 4096 * i) mod 4096 = (4096 * j + unat b) mod 4096" by simp
    then show ?thesis by simp
  qed
  have "b AND 0xfff \<le> ?x"
    unfolding word_le_nat_alt low xmod [symmetric] by (rule mod_less_eq_dividend)
  then have p: "unat p = unat ?x - unat ?x mod 4096"
    unfolding p_def xmod low [symmetric] by (rule unat_sub)
  have pal: "4096 dvd unat p" by (simp only: p dvd_minus_mod)
  have "unat p \<le> unat ?x" by (simp only: p diff_le_self)
  then have p40: "unat p < 2 ^ 40" using x assms(6) by simp
  have "?x = p + (b AND 0xfff)" by (simp add: p_def)
  moreover have "unat (b AND 0xfff) < 4096" unfolding low by simp
  ultimately have "page_desc ?x ats = page_desc p ats" using page_desc_offset [OF pal] by metis
  then have "s2_view (stage2 vm) tm b AND HV_STAGE2_DESC_ADDR_MASK = p"
    using assms(1) addr_mask_id [OF pal p40] by (simp only: page_desc_addr)
  moreover have "p OR (b AND 0xfff) = ?x"
    using page_offset_disjoint [OF pal, of b] by (simp add: p_def)
  moreover have "s2_view (stage2 vm) tm b AND 3 = 3" using assms(1) by (simp only: page_desc_and_3)
  ultimately show ?thesis using assms(5) by (simp only: translate_view if_True simp_thms)
qed

subsection \<open>Initialisation\<close>

lemma zero_pool:
  assumes "n \<le> 8"
  shows "fold (\<lambda>i. stage2_zero_table (stage2_table_at st (of_nat i))) [0..<n] tm =
    (\<lambda>a. if pool_va st \<le> a \<and> a < pool_va st + n * 512 then 0 else tm a)"
  using assms
proof (induction n)
  case (Suc n)
  have "unat (of_nat n :: u32) = n" using Suc.prems by (intro unat_of_nat_small) simp
  then have "stage2_table_at st (of_nat n) = pool_va st + n * 512"
    using stage2_table_at_slot [of "of_nat n" st] Suc.prems by (simp add: slot_def)
  with Suc show ?case by (auto simp: fun_eq_iff stage2_zero_table_eq)
qed (auto simp: fun_eq_iff)

definition tables_base_ok :: "u32 \<Rightarrow> bool" where
  "tables_base_ok base \<longleftrightarrow> 4096 dvd unat base \<and> unat base + 65536 \<le> 2 ^ 32"

definition init_stage2 :: "u32 \<Rightarrow> nat \<Rightarrow> HvStage2" where
  "init_stage2 base i = (let pa = ucast (base + of_nat (i * 32768))
     in \<lparr>root_va = i * 4096, root_pa = pa, pool_va = i * 4096, pool_pa = pa, pool_pages = 8,
         pool_used = 1\<rparr>)"

lemma hv_stage2_init_eq:
  assumes "unat (vm_id vm) < 2"
  shows "hv_stage2_init base (Some vm) s =
     (HV_STAGE2_OK, Some (vm\<lparr>stage2 := init_stage2 base (unat (vm_id vm))\<rparr>),
      DSB (s\<lparr>stage2_tables := (\<lambda>a. if unat (vm_id vm) * 4096 \<le> a \<and> a < unat (vm_id vm) * 4096 + 4096
                 then 0 else stage2_tables s a)\<rparr>))"
proof -
  have "\<not> vm_id vm \<ge> of_nat 2" using assms by (simp add: word_le_nat_alt)
  moreover have "stage2_table_at st 0 = pool_va st" "stage2_table_pa st 0 = pool_pa st" for st
    by (simp_all add: stage2_table_at_def stage2_table_pa_def)
  moreover have "unat (8 :: u32) = 8" by simp
  ultimately show ?thesis
    unfolding hv_stage2_init_def option.case Let_def
    by (simp add: zero_pool init_stage2_def desc_addr_def mult.commute Let_def)
qed

lemma s2_static_init:
  assumes "tables_base_ok base" "i < 2"
  shows "s2_static (init_stage2 base i)"
proof -
  have i: "unat (of_nat (i * 32768) :: u32) = i * 32768"
    using assms(2) by (intro unat_of_nat_small) simp
  have "unat (base + of_nat (i * 32768)) = unat base + i * 32768"
    using assms by (subst unat_add_no_wrap) (simp_all only: i, simp add: tables_base_ok_def)
  then have "unat (ucast (base + of_nat (i * 32768)) :: u64) = unat base + i * 32768"
    by (simp only: unat_ucast_mod) (use assms in \<open>simp add: tables_base_ok_def\<close>)
  then show ?thesis
    using assms unfolding s2_static_def init_stage2_def Let_def tables_base_ok_def
    by (simp del: unsigned_ucast_eq of_nat_mult)
qed

lemma s2_inv_init:
  assumes "tables_base_ok base" "i < 2"
    and z: "\<And>a. i * 4096 \<le> a \<Longrightarrow> a < i * 4096 + 4096 \<Longrightarrow> tm a = 0"
  shows "s2_inv (\<lambda>_. 1) (init_stage2 base i) tm" "s2_view (init_stage2 base i) tm b = 0"
proof -
  let ?st = "init_stage2 base i"
  have e: "tm (slot ?st 0 j) = 0" if "j < 512" for j
    by (rule z) (use that in \<open>simp_all add: slot_def init_stage2_def Let_def\<close>)
  have u: "unat (pool_used ?st) = 1" by (simp add: init_stage2_def Let_def)
  show "s2_inv (\<lambda>_. 1) ?st tm"
    by (rule s2_invI) (use s2_static_init [OF assms(1,2)] e in \<open>simp_all add: u\<close>)
  have "root_va ?st = slot ?st 0 0" by (simp add: slot_def init_stage2_def Let_def)
  then have "walk_ro ?st tm b = None" using e by (intro walk_ro_none1) simp_all
  then show "s2_view ?st tm b = 0" by (simp add: s2_view_def)
qed

subsection \<open>The guards of hv\_stage2\_map\_region\<close>

lemma stage2_range_end_iff:
  "stage2_range_end base sz =
     (if sz = 0 \<or> 2 ^ 64 < unat base + unat sz then None else Some (base + sz - 1))"
proof (cases "sz = 0")
  case False
  then have m: "unat (sz - 1) = unat sz - 1" and pos: "0 < unat sz"
    by (simp_all add: unat_minus_one unat_gt_0)
  have sz: "unat sz < 2 ^ 64" using unsigned_less [of sz] by simp
  then have le: "sz - 1 \<le> 0xffffffffffffffff" by (simp add: word_le_nat_alt m)
  have "unat (0xffffffffffffffff - (sz - 1)) = 2 ^ 64 - unat sz"
    using pos sz unfolding unat_sub [OF le] m by simp
  then have "base > 0xffffffffffffffff - (sz - 1) \<longleftrightarrow> 2 ^ 64 < unat base + unat sz"
    using sz unfolding word_less_nat_alt by auto
  with False show ?thesis by (simp only: stage2_range_end_def)
qed (simp add: stage2_range_end_def)

lemma stage2_range_end_fits:
  assumes "sz \<noteq> 0" "unat base + unat sz \<le> 2 ^ 64"
  shows "stage2_fits_v1_32bit (base + sz - 1) \<longleftrightarrow> unat base + unat sz \<le> 2 ^ 32"
proof -
  have pos: "0 < unat sz" using assms(1) by (simp add: unat_gt_0)
  have m: "unat (sz - 1) = unat sz - 1" using assms(1) by (simp add: unat_minus_one)
  have "unat (base + (sz - 1)) = unat base + (unat sz - 1)"
    using assms(2) pos m by (subst unat_add_no_wrap) simp_all
  with pos show ?thesis by (auto simp: stage2_fits_iff add_diff_eq [symmetric])
qed

definition mapping_in_region :: "HvVmRegion \<Rightarrow> u64 \<Rightarrow> u64 \<Rightarrow> u64 \<Rightarrow> bool" where
  "mapping_in_region r ipa pa sz \<longleftrightarrow> region_type r = HV_VM_REGION_RAM \<and> sz \<noteq> 0 \<and>
     region_lo r \<le> unat ipa \<and> unat ipa + unat sz \<le> region_hi r \<and>
     pa = pa_base r + (ipa - ipa_base r)"

lemma stage2_region_contains_mapping_iff:
  "stage2_region_contains_mapping (Some r) ipa pa sz \<longleftrightarrow> mapping_in_region r ipa pa sz"
proof (cases "ipa < ipa_base r \<or> sz > region_size r")
  case True
  then show ?thesis
    by (auto simp: stage2_region_contains_mapping_def mapping_in_region_def region_lo_def
        region_hi_def word_less_nat_alt)
next
  case False
  then have "unat (ipa - ipa_base r) = unat ipa - unat (ipa_base r)"
    "unat (region_size r - sz) = unat (region_size r) - unat sz"
    by (simp_all add: unat_sub not_less word_le_nat_alt)
  with False show ?thesis
    by (auto simp: stage2_region_contains_mapping_def mapping_in_region_def region_lo_def
        region_hi_def word_less_nat_alt)
qed

lemma stage2_region_contains_mapping_None [null_simps]:
  "\<not> stage2_region_contains_mapping None ipa pa sz"
  by (simp add: stage2_region_contains_mapping_def)

subsection \<open>Mapping a region\<close>

lemma stage2_tables_frame [simp, frame_simps]:
  "stage2_tables (emit e s) = stage2_tables s" "stage2_tables (DSB s) = stage2_tables s"
  "stage2_tables (ISB s) = stage2_tables s" "stage2_tables (stage2_tlb_sync s) = stage2_tables s"
  "stage2_tables (hyp_invalidate_stage2_tlb_ipa a s) = stage2_tables s"
  by (simp_all add: emit_def DSB_def ISB_def stage2_tlb_sync_def hyp_invalidate_stage2_tlb_all_def
      hyp_invalidate_stage2_tlb_ipa_def)

definition map_args_ok :: "HvVm \<Rightarrow> u64 \<Rightarrow> u64 \<Rightarrow> u64 \<Rightarrow> bool" where
  "map_args_ok vm ipa pa sz \<longleftrightarrow>
     4096 dvd unat ipa \<and> 4096 dvd unat pa \<and> 4096 dvd unat sz \<and> sz \<noteq> 0 \<and>
     unat ipa + unat sz \<le> 2 ^ 32 \<and> unat pa + unat sz \<le> 2 ^ 32 \<and>
     (\<exists>r. hv_vm_find_region (Some vm) ipa = Some r \<and> mapping_in_region r ipa pa sz)"

lemma map_region_checked:
  assumes "map_args_ok vm ipa pa sz"
  shows "hv_stage2_map_region (Some vm) ipa pa sz ats s =
    (case stage2_map_pages (unat sz div 4096) 0 vm ipa pa ats (stage2_tables s) of
       (res, vm, tm) \<Rightarrow> (res, Some vm, stage2_tlb_sync (s\<lparr>stage2_tables := tm\<rparr>)))"
proof -
  note A = assms [unfolded map_args_ok_def]
  from A obtain r where r: "hv_vm_find_region (Some vm) ipa = Some r" "mapping_in_region r ipa pa sz"
    by blast
  have e: "stage2_range_end ipa sz = Some (ipa + sz - 1)" "stage2_range_end pa sz = Some (pa + sz - 1)"
    using A by (simp_all add: stage2_range_end_iff)
  have f: "stage2_fits_v1_32bit (ipa + sz - 1)" "stage2_fits_v1_32bit (pa + sz - 1)"
    using A by (simp_all add: stage2_range_end_fits)
  have al: "stage2_aligned ipa" "stage2_aligned pa" "stage2_aligned sz" "sz \<noteq> 0"
    using A by (simp_all add: stage2_aligned_iff)
  have p: "unat (0x1000 :: u64) = 4096" by simp
  show ?thesis
    unfolding hv_stage2_map_region_def option.case e prod.case Let_def r(1)
    by (simp only: al f r(2) stage2_region_contains_mapping_iff p simp_thms if_False)
qed

lemma map_region_rejected:
  assumes "\<not> map_args_ok vm ipa pa sz"
  shows "hv_stage2_map_region (Some vm) ipa pa sz ats s = (HV_STAGE2_ERR_INVAL, Some vm, s) \<or>
    hv_stage2_map_region (Some vm) ipa pa sz ats s = (HV_STAGE2_ERR_RANGE, Some vm, s)"
proof (cases "\<not> stage2_aligned ipa \<or> \<not> stage2_aligned pa \<or> \<not> stage2_aligned sz \<or> sz = 0 \<or>
    stage2_range_end ipa sz = None \<or> stage2_range_end pa sz = None")
  case True
  then show ?thesis by (auto simp: hv_stage2_map_region_def split: option.split)
next
  case False
  then have A: "4096 dvd unat ipa" "4096 dvd unat pa" "4096 dvd unat sz" "sz \<noteq> 0"
    and e: "stage2_range_end ipa sz = Some (ipa + sz - 1)" "unat ipa + unat sz \<le> 2 ^ 64"
    "stage2_range_end pa sz = Some (pa + sz - 1)" "unat pa + unat sz \<le> 2 ^ 64"
    by (auto simp: stage2_aligned_iff stage2_range_end_iff split: if_splits)
  have "hv_stage2_map_region (Some vm) ipa pa sz ats s = (HV_STAGE2_ERR_RANGE, Some vm, s)"
  proof (cases "stage2_fits_v1_32bit (ipa + sz - 1) \<and> stage2_fits_v1_32bit (pa + sz - 1)")
    case True
    then have "unat ipa + unat sz \<le> 2 ^ 32" "unat pa + unat sz \<le> 2 ^ 32"
      using A e by (simp_all add: stage2_range_end_fits)
    with assms A have "\<not> stage2_region_contains_mapping (hv_vm_find_region (Some vm) ipa) ipa pa sz"
      by (cases "hv_vm_find_region (Some vm) ipa")
         (auto simp: map_args_ok_def stage2_region_contains_mapping_iff null_simps)
    with True False e show ?thesis by (simp add: hv_stage2_map_region_def Let_def)
  next
    case F: False
    with False e show ?thesis by (auto simp: hv_stage2_map_region_def)
  qed
  then show ?thesis by simp
qed

text \<open>Every outcome: \<open>k\<close> pages have been mapped, all of them exactly on success.\<close>

lemma map_region_spec:
  assumes ok: "vm_tables_ok vm (stage2_tables s)"
    and m: "hv_stage2_map_region (Some vm) ipa pa sz ats s = (r, vm', s')"
  obtains v k where "vm' = Some v" "v = vm\<lparr>stage2 := stage2 v\<rparr>" "vm_tables_ok v (stage2_tables s')"
    "s2_frame (stage2 vm) (stage2_tables s) (stage2 v) (stage2_tables s')"
    "r = HV_STAGE2_OK \<Longrightarrow> map_args_ok vm ipa pa sz \<and> k * 4096 = unat sz"
    "r \<noteq> HV_STAGE2_OK \<Longrightarrow> k = 0 \<or> k * 4096 < unat sz \<and> map_args_ok vm ipa pa sz"
    "\<And>b. hv_stage2_translate (Some v) b True (stage2_tables s') =
       (if in_pages (unat ipa) k b then Inr (pa + (b - ipa))
        else hv_stage2_translate (Some vm) b True (stage2_tables s))"
proof (cases "map_args_ok vm ipa pa sz")
  case False
  from map_region_rejected [OF False, of ats s] m
  have e: "vm' = Some vm" "s' = s" "r \<noteq> HV_STAGE2_OK" by auto
  show thesis
    by (rule that [where v = vm and k = 0]) (use e ok in simp_all)
next
  case True
  note A = True [unfolded map_args_ok_def]
  obtain v tm where l: "stage2_map_pages (unat sz div 4096) 0 vm ipa pa ats (stage2_tables s) = (r, v, tm)"
    and v: "vm' = Some v" and s': "stage2_tables s' = tm"
    using m unfolding map_region_checked [OF True] by (auto split: prod.splits)
  have n: "unat sz div 4096 * 4096 = unat sz" using A by simp
  have loop: "tables_loop (unat sz div 4096) 0 ipa pa ats (vm, stage2_tables s) = (r, (v, tm))"
    using l by (simp add: tables_loop_def)
  have wf: "tables_wf (vm, stage2_tables s)" using ok by (simp add: tables_wf_def)
  have b1: "unat ipa + (unat (0 :: u64) + unat sz div 4096 * 4096) \<le> 2 ^ 32"
    and b2: "unat pa + (unat (0 :: u64) + unat sz div 4096 * 4096) \<le> 2 ^ 32"
    and d: "4096 dvd unat ipa" "4096 dvd unat pa" "4096 dvd unat (0 :: u64)"
    using A unfolding n by simp_all
  from s2_loop.loop_view [OF wf b1 b2 d loop]
  obtain k where k: "k \<le> unat sz div 4096" "r = HV_STAGE2_OK \<longleftrightarrow> k = unat sz div 4096"
    and wf': "tables_wf (v, tm)" and fr: "tables_frame (vm, stage2_tables s) (v, tm)"
    and view: "\<And>b. unat b < 2 ^ 39 \<Longrightarrow> tables_view (v, tm) b = (if in_pages (unat ipa) k b
      then page_desc (pa + (b - ipa)) ats else tables_view (vm, stage2_tables s) b)"
    by auto
  have kn: "k * 4096 \<le> unat sz" using k(1) n by (metis mult_le_mono1)
  show thesis
  proof (rule that [OF v])
    from fr obtain st where "v = vm\<lparr>stage2 := st\<rparr>" by (auto simp: tables_frame_def)
    then show "v = vm\<lparr>stage2 := stage2 v\<rparr>" by simp
    show "vm_tables_ok v (stage2_tables s')" using wf' by (simp add: tables_wf_def s')
    show "s2_frame (stage2 vm) (stage2_tables s) (stage2 v) (stage2_tables s')"
      using fr by (auto simp: tables_frame_def s')
    show "map_args_ok vm ipa pa sz \<and> k * 4096 = unat sz" if "r = HV_STAGE2_OK"
      using that k n True by simp
    show "k = 0 \<or> k * 4096 < unat sz \<and> map_args_ok vm ipa pa sz" if "r \<noteq> HV_STAGE2_OK"
    proof -
      from that k have "k < unat sz div 4096" by simp
      then have "k * 4096 < unat sz div 4096 * 4096" by simp
      with n True show ?thesis by simp
    qed
    fix b
    show "hv_stage2_translate (Some v) b True (stage2_tables s') =
       (if in_pages (unat ipa) k b then Inr (pa + (b - ipa))
        else hv_stage2_translate (Some vm) b True (stage2_tables s))"
    proof (cases "in_pages (unat ipa) k b")
      case True
      then have "unat ipa \<le> unat b" "unat b < 2 ^ 32" "unat pa + (unat b - unat ipa) < 2 ^ 32"
        using A kn by (auto simp: in_pages_def)
      then show ?thesis
        using view [of b] True d translate_page_desc [of v tm b pa ipa ats]
        by (simp add: tables_view_def s')
    next
      case False
      then have "s2_view (stage2 v) tm b = s2_view (stage2 vm) (stage2_tables s) b" if "unat b < 2 ^ 32"
        using view [of b] that by (simp add: tables_view_def)
      with False show ?thesis by (simp add: translate_view s')
    qed
  qed
qed

text \<open>Success: a range inside one 2 MB block, not mapped before, with two tables to spare.\<close>

lemma and_3_and_1: "v AND 3 = 3 \<Longrightarrow> v AND 1 \<noteq> 0" for v :: u64
proof
  assume "v AND 3 = 3" "v AND 1 = 0"
  moreover have "v AND 1 = (v AND 3) AND 1" by (simp add: and.assoc)
  ultimately show False by simp
qed

lemma translate_unmapped_iff:
  assumes "vm_tables_ok vm tm" "unat b < 2 ^ 32"
  shows "hv_stage2_translate (Some vm) b True tm = Inl HV_STAGE2_ERR_UNMAPPED \<longleftrightarrow>
    s2_view (stage2 vm) tm b AND 1 = 0"
proof -
  have "s2_view (stage2 vm) tm b = 0 \<or> s2_view (stage2 vm) tm b AND 3 = 3"
    using assms by (simp add: vm_tables_ok_def)
  then show ?thesis using assms(2) and_3_and_1 [of "s2_view (stage2 vm) tm b"]
    by (auto simp: translate_view)
qed

lemma map_region_frame:
  assumes "vm_tables_ok vm (stage2_tables s)"
    and "hv_stage2_map_region (Some vm) ipa pa sz ats s = (r, vm', s')"
  shows "\<exists>st. s2_frame (stage2 vm) (stage2_tables s) st (stage2_tables s')"
  by (rule map_region_spec [OF assms]) (rule exI)

lemma map_region_codes:
  assumes ok: "vm_tables_ok vm (stage2_tables s)" and A: "map_args_ok vm ipa pa sz"
    and m: "hv_stage2_map_region (Some vm) ipa pa sz ats s = (r, vm', s')"
  shows "r \<in> {HV_STAGE2_OK, HV_STAGE2_ERR_MAPPED, HV_STAGE2_ERR_NO_TABLES}"
    "r = HV_STAGE2_ERR_MAPPED \<longrightarrow> (\<exists>b. unat ipa \<le> unat b \<and> unat b < unat ipa + unat sz \<and>
       hv_stage2_translate (Some vm) b True (stage2_tables s) \<noteq> Inl HV_STAGE2_ERR_UNMAPPED)"
    "r = HV_STAGE2_OK \<longrightarrow> (\<forall>b. unat ipa \<le> unat b \<and> unat b < unat ipa + unat sz \<longrightarrow>
       hv_stage2_translate (Some vm) b True (stage2_tables s) = Inl HV_STAGE2_ERR_UNMAPPED)"
    "(\<And>b. unat ipa \<le> unat b \<Longrightarrow> unat b < unat ipa + unat sz \<Longrightarrow> same_block ipa b) \<Longrightarrow>
     unat (pool_used (stage2 vm)) \<le> 6 \<Longrightarrow> r \<noteq> HV_STAGE2_ERR_NO_TABLES \<and> (r = HV_STAGE2_OK \<longrightarrow>
       unat (pool_used (stage2 (the vm'))) \<le> unat (pool_used (stage2 vm)) + 2)"
proof -
  note B = A [unfolded map_args_ok_def]
  obtain v tm where l: "stage2_map_pages (unat sz div 4096) 0 vm ipa pa ats (stage2_tables s) = (r, v, tm)"
    and v: "vm' = Some v"
    using m unfolding map_region_checked [OF A] by (auto split: prod.splits)
  have n: "unat sz div 4096 * 4096 = unat sz" using B by simp
  have loop: "tables_loop (unat sz div 4096) 0 ipa pa ats (vm, stage2_tables s) = (r, (v, tm))"
    using l by (simp add: tables_loop_def)
  have wf: "tables_wf (vm, stage2_tables s)" using ok by (simp add: tables_wf_def)
  have b1: "unat ipa + (unat (0 :: u64) + unat sz div 4096 * 4096) \<le> 2 ^ 32"
    and d: "4096 dvd unat ipa" "4096 dvd unat (0 :: u64)"
    using B unfolding n by simp_all
  have rng: "in_pages (unat ipa + unat (0 :: u64)) (unat sz div 4096) b \<longleftrightarrow>
      unat ipa \<le> unat b \<and> unat b < unat ipa + unat sz" for b
    unfolding in_pages_def n by simp
  note M = s2_loop.loop_mapped [OF wf b1 d loop, unfolded rng]
  have un: "hv_stage2_translate (Some vm) b True (stage2_tables s) = Inl HV_STAGE2_ERR_UNMAPPED \<longleftrightarrow>
      tables_view (vm, stage2_tables s) b AND 1 = 0"
    if "unat b < unat ipa + unat sz" for b
    using that B translate_unmapped_iff [OF ok, of b] by (simp add: tables_view_def)
  from M show "r \<in> {HV_STAGE2_OK, HV_STAGE2_ERR_MAPPED, HV_STAGE2_ERR_NO_TABLES}" by blast
  from M un show "r = HV_STAGE2_ERR_MAPPED \<longrightarrow> (\<exists>b. unat ipa \<le> unat b \<and> unat b < unat ipa + unat sz \<and>
       hv_stage2_translate (Some vm) b True (stage2_tables s) \<noteq> Inl HV_STAGE2_ERR_UNMAPPED)" by blast
  from M un show "r = HV_STAGE2_OK \<longrightarrow> (\<forall>b. unat ipa \<le> unat b \<and> unat b < unat ipa + unat sz \<longrightarrow>
       hv_stage2_translate (Some vm) b True (stage2_tables s) = Inl HV_STAGE2_ERR_UNMAPPED)" by blast
  assume blk: "\<And>b. unat ipa \<le> unat b \<Longrightarrow> unat b < unat ipa + unat sz \<Longrightarrow> same_block ipa b"
    and u: "unat (pool_used (stage2 vm)) \<le> 6"
  then have "tables_backed (vm, stage2_tables s) ipa \<or> tables_used (vm, stage2_tables s) \<le> 6"
    by (simp add: tables_used_def)
  from s2_loop.loop_tables [OF wf b1 _ this loop, unfolded rng] blk
  show "r \<noteq> HV_STAGE2_ERR_NO_TABLES \<and> (r = HV_STAGE2_OK \<longrightarrow>
      unat (pool_used (stage2 (the vm'))) \<le> unat (pool_used (stage2 vm)) + 2)"
    by (auto simp: tables_used_def v split: if_splits)
qed

subsection \<open>Unmapping a page\<close>

lemma unmap_page_spec:
  assumes ok: "vm_tables_ok vm (stage2_tables s)" and rt: "region_table_ok vm"
    and u: "hv_stage2_unmap_page (Some vm) ipa s = (r, s')"
  shows "r = (if \<not> 4096 dvd unat ipa then HV_STAGE2_ERR_INVAL
      else if hv_vm_find_region (Some vm) ipa = None then HV_STAGE2_ERR_RANGE else HV_STAGE2_OK)"
    "r \<noteq> HV_STAGE2_OK \<Longrightarrow> s' = s"
    "vm_tables_ok vm (stage2_tables s')"
    "s2_frame (stage2 vm) (stage2_tables s) (stage2 vm) (stage2_tables s')"
    "r = HV_STAGE2_OK \<Longrightarrow> hv_stage2_translate (Some vm) b True (stage2_tables s') =
       (if unat ipa \<le> unat b \<and> unat b < unat ipa + 4096 then Inl HV_STAGE2_ERR_UNMAPPED
        else hv_stage2_translate (Some vm) b True (stage2_tables s))"
proof -
  let ?t = "stage2_tables s" and ?st = "stage2 vm"
  from ok obtain kind where inv: "s2_inv kind ?st ?t" by (auto simp: vm_tables_ok_def)
  have all: "r = (if \<not> 4096 dvd unat ipa then HV_STAGE2_ERR_INVAL
      else if hv_vm_find_region (Some vm) ipa = None then HV_STAGE2_ERR_RANGE else HV_STAGE2_OK) \<and>
    (r \<noteq> HV_STAGE2_OK \<longrightarrow> s' = s) \<and> vm_tables_ok vm (stage2_tables s') \<and>
    s2_frame ?st ?t ?st (stage2_tables s') \<and>
    (r = HV_STAGE2_OK \<longrightarrow> (\<forall>b. hv_stage2_translate (Some vm) b True (stage2_tables s') =
       (if unat ipa \<le> unat b \<and> unat b < unat ipa + 4096 then Inl HV_STAGE2_ERR_UNMAPPED
        else hv_stage2_translate (Some vm) b True ?t)))"
  proof (cases "4096 dvd unat ipa \<and> hv_vm_find_region (Some vm) ipa \<noteq> None")
    case False
    then show ?thesis
      using u ok by (auto simp: hv_stage2_unmap_page_def stage2_aligned_iff)
  next
    case True
    then obtain reg where f: "hv_vm_find_region (Some vm) ipa = Some reg" by auto
    note F = find_region_Some [OF f]
    from F(1) rt have val: "hv_vm_region_valid (Some reg)" by (auto simp: region_table_ok_def)
    note V = region_valid_bounds [OF val]
    have "4096 dvd region_hi reg - unat ipa" using True V(4) by (simp add: dvd_diff_nat)
    then have last: "unat ipa + 4096 \<le> region_hi reg" using F(3) by (auto dest: dvd_imp_le)
    have small: "unat ipa < 2 ^ 32" using F(3) V(2) by simp
    have le: "ipa_base reg \<le> ipa" using F(2) by (simp add: region_lo_def word_le_nat_alt)
    have d: "unat (ipa - ipa_base reg) = unat ipa - unat (ipa_base reg)"
      using le by (rule unat_sub)
    have "4096 \<le> unat (region_size reg)"
      using last F(2) V(3) val by (auto simp: region_valid_iff region_lo_def unat_gt_0 dest: dvd_imp_le)
    then have sz: "unat (region_size reg - 0x1000) = unat (region_size reg) - 4096"
      by (subst unat_sub) (simp_all add: word_le_nat_alt)
    have guard: "\<not> (ipa < ipa_base reg \<or> ipa - ipa_base reg > region_size reg - 0x1000)"
      using le last by (simp add: word_less_nat_alt d sz not_less word_le_nat_alt region_hi_def)
    define t' where "t' = (case walk_ro ?st ?t ipa of Some e \<Rightarrow> ?t(e := 0) | None \<Rightarrow> ?t)"
    have us: "r = HV_STAGE2_OK" "stage2_tables s' = t'"
      using u True f guard
      by (auto simp: hv_stage2_unmap_page_def stage2_aligned_iff stage2_walk_l3_ro Let_def t'_def
          split: option.splits)
    have view: "s2_view ?st t' b = (if same_page ipa b then 0 else s2_view ?st ?t b)"
      if "unat b < 2 ^ 39" for b
    proof (cases "walk_ro ?st ?t ipa")
      case None
      then have "s2_view ?st ?t b = 0" if "same_page ipa b"
        using s2_view_same_page [OF that, of ?st ?t] by (simp add: s2_view_def)
      with None show ?thesis by (simp add: t'_def)
    next
      case (Some e)
      then show ?thesis using set_leaf(4) [OF inv Some _ that] small by (simp add: t'_def)
    qed
    have inv': "s2_inv kind ?st t'" and fr: "s2_frame ?st ?t ?st t'"
      using inv set_leaf(1,3) [OF inv] by (auto simp: t'_def split: option.split)
    have "vm_tables_ok vm t'" using ok inv' view by (auto simp: vm_tables_ok_def)
    moreover have "hv_stage2_translate (Some vm) b True t' =
       (if unat ipa \<le> unat b \<and> unat b < unat ipa + 4096 then Inl HV_STAGE2_ERR_UNMAPPED
        else hv_stage2_translate (Some vm) b True ?t)" for b
    proof -
      have p: "same_page ipa b \<longleftrightarrow> unat ipa \<le> unat b \<and> unat b < unat ipa + 4096"
        using True by (simp add: same_page_in_pages in_pages_def)
      have "unat b < 2 ^ 32" if "unat b < unat ipa + 4096" using that last V(2) by simp
      then show ?thesis using view [of b] by (auto simp: translate_view p)
    qed
    ultimately show ?thesis using us fr True by simp
  qed
  from all show "r = (if \<not> 4096 dvd unat ipa then HV_STAGE2_ERR_INVAL
      else if hv_vm_find_region (Some vm) ipa = None then HV_STAGE2_ERR_RANGE else HV_STAGE2_OK)"
    "r \<noteq> HV_STAGE2_OK \<Longrightarrow> s' = s" "vm_tables_ok vm (stage2_tables s')"
    "s2_frame ?st ?t ?st (stage2_tables s')"
    "r = HV_STAGE2_OK \<Longrightarrow> hv_stage2_translate (Some vm) b True (stage2_tables s') =
       (if unat ipa \<le> unat b \<and> unat b < unat ipa + 4096 then Inl HV_STAGE2_ERR_UNMAPPED
        else hv_stage2_translate (Some vm) b True ?t)" by blast+
qed

subsection \<open>Two VMs\<close>

text \<open>The tables of a VM live in its own pool: descriptors outside it do not matter.\<close>

lemma pool_slot_range:
  assumes "p < 8" "i < 512"
  shows "pool_va st \<le> slot st p i \<and> slot st p i < pool_va st + 4096"
proof -
  have "p * 512 + i < 4096" using assms by linarith
  then show ?thesis by (simp add: slot_def)
qed

lemma s2_inv_local:
  assumes inv: "s2_inv kind st tm"
    and same: "\<And>a. pool_va st \<le> a \<Longrightarrow> a < pool_va st + 4096 \<Longrightarrow> tm' a = tm a"
  shows "s2_inv kind st tm'" "s2_view st tm' b = s2_view st tm b"
proof -
  note D = s2_invD [OF inv]
  have e: "tm' (slot st p i) = tm (slot st p i)" if "p < unat (pool_used st)" "i < 512" for p i
    by (rule same) (use pool_slot_range [of p i st] that D(3) in simp_all)
  show "s2_inv kind st tm'"
    using inv unfolding s2_inv_def by (simp only: e simp_thms cong: conj_cong imp_cong)
  show "s2_view st tm' b = s2_view st tm b"
    using inv
  proof (cases rule: walk_ro_cases [where ipa = b])
    case no_l2
    then have "walk_ro st tm' b = None" using walk_ro_none1 [OF D(5)] e [OF D(4)] by simp
    with no_l2 show ?thesis by (simp add: s2_view_def)
  next
    case (no_l3 q)
    then have "walk_ro st tm' b = None"
      using walk_ro_none2 [OF D(1,5), where q = q and tm = tm' and ipa = b] e [OF D(4)] e [of q] D(3)
      by simp
    with no_l3 show ?thesis by (simp add: s2_view_def)
  next
    case (leaf q r)
    then have "walk_ro st tm' b = Some (slot st r (ix3 b))"
      using walk_ro_leaf [OF D(1,5), where q = q and r = r and tm = tm' and ipa = b] e [OF D(4)]
        e [of q] D(3) by simp
    with leaf e [of r "ix3 b"] show ?thesis by (simp add: s2_view_def)
  qed
qed

definition pools_disjoint :: "HvVm \<Rightarrow> HvVm \<Rightarrow> bool" where
  "pools_disjoint a b \<longleftrightarrow> pool_va (stage2 a) + 4096 \<le> pool_va (stage2 b) \<or>
     pool_va (stage2 b) + 4096 \<le> pool_va (stage2 a)"

lemma vm_tables_local:
  assumes "vm_tables_ok vm tm"
    and same: "\<And>a. pool_va (stage2 vm) \<le> a \<Longrightarrow> a < pool_va (stage2 vm) + 4096 \<Longrightarrow> tm' a = tm a"
  shows "vm_tables_ok vm tm'" "hv_stage2_translate (Some vm) b p tm' = hv_stage2_translate (Some vm) b p tm"
proof -
  from assms(1) obtain kind where inv: "s2_inv kind (stage2 vm) tm" by (auto simp: vm_tables_ok_def)
  note L = s2_inv_local [OF inv, of tm', OF same]
  show "vm_tables_ok vm tm'" using assms(1) L by (auto simp: vm_tables_ok_def)
  show "hv_stage2_translate (Some vm) b p tm' = hv_stage2_translate (Some vm) b p tm"
  proof (cases p)
    case True
    then show ?thesis using L(2) [of b] by (simp add: translate_view)
  qed (simp add: hv_stage2_translate_def)
qed

lemma frame_other_vm:
  assumes "s2_frame (stage2 a) tm st' tm'" "pools_disjoint a b" "vm_tables_ok b tm"
  shows "vm_tables_ok b tm'" "hv_stage2_translate (Some b) x p tm' = hv_stage2_translate (Some b) x p tm"
proof -
  have "tm' y = tm y" if "pool_va (stage2 b) \<le> y" "y < pool_va (stage2 b) + 4096" for y
    using assms(1,2) that by (auto simp: s2_frame_def pools_disjoint_def)
  from vm_tables_local [OF assms(3), of tm', OF this]
  show "vm_tables_ok b tm'" "hv_stage2_translate (Some b) x p tm' = hv_stage2_translate (Some b) x p tm"
    by simp_all
qed

subsection \<open>Properties\<close>

text \<open>A machine just out of reset, with all memory clear, for the concrete instances.\<close>

definition reset_s2hw :: s2hw where
  "reset_s2hw = \<lparr>hcr = 0, vbar = 0, vtcr = 0, vttbr = 0, cpsr = CPSR_PEMODE_HYP,
     banked = zero_HypBankedRegs, hw_log = [], hw_in = (\<lambda>_ _. 0), stage2_tables = (\<lambda>_. 0)\<rparr>"

definition example_vm0 :: HvVm where
  "example_vm0 = example_vm\<lparr>stage2 := init_stage2 0 0\<rparr>"

definition example_vm1 :: HvVm where
  "example_vm1 = example_vm\<lparr>stage2 := init_stage2 0 1\<rparr>"

lemma example_vms:
  "vm_tables_ok example_vm0 (stage2_tables reset_s2hw)" "region_table_ok example_vm0"
  "vm_tables_ok example_vm1 (stage2_tables reset_s2hw)" "region_table_ok example_vm1"
  "pools_disjoint example_vm0 example_vm1" "active_regions example_vm0 = [example_region]"
  "stage2 example_vm0 = init_stage2 0 0"
  "unat b < 2 ^ 32 \<Longrightarrow> hv_stage2_translate (Some example_vm0) b True (stage2_tables reset_s2hw) =
     Inl HV_STAGE2_ERR_UNMAPPED"
proof -
  have base: "tables_base_ok 0" by (simp add: tables_base_ok_def)
  have I: "s2_inv (\<lambda>_. 1) (init_stage2 0 i) (stage2_tables reset_s2hw)"
    "s2_view (init_stage2 0 i) (stage2_tables reset_s2hw) b = 0" if "i < 2" for i b
    by (rule s2_inv_init [OF base that]; simp add: reset_s2hw_def)+
  show t: "stage2 example_vm0 = init_stage2 0 0" by (simp add: example_vm0_def)
  show "vm_tables_ok example_vm0 (stage2_tables reset_s2hw)"
    "vm_tables_ok example_vm1 (stage2_tables reset_s2hw)"
    unfolding vm_tables_ok_def example_vm0_def example_vm1_def using I by fastforce+
  show "region_table_ok example_vm0" "region_table_ok example_vm1"
    "active_regions example_vm0 = [example_region]"
    by (simp_all add: example_vm0_def example_vm1_def example_vm_table)
  show "pools_disjoint example_vm0 example_vm1"
    by (simp add: pools_disjoint_def example_vm0_def example_vm1_def init_stage2_def Let_def)
  show "hv_stage2_translate (Some example_vm0) b True (stage2_tables reset_s2hw) =
     Inl HV_STAGE2_ERR_UNMAPPED" if "unat b < 2 ^ 32"
    using I(2) [of 0 b] that by (simp add: translate_view t)
qed

lemma example_map_args: "map_args_ok example_vm0 0x20000 0x30000 0xf000"
proof -
  have "hv_vm_find_region (Some example_vm0) 0x20000 = Some example_region"
    by (rule find_region_unique)
       (simp_all add: example_vms region_lo_def region_hi_def example_region_def)
  then show ?thesis
    by (simp add: map_args_ok_def mapping_in_region_def example_region_def region_lo_def region_hi_def)
qed

lemma example_map:
  obtains vm' s' where "hv_stage2_map_region (Some example_vm0) 0x20000 0x30000 0xf000 ats reset_s2hw =
    (HV_STAGE2_OK, vm', s')"
proof -
  obtain r vm' s' where m: "hv_stage2_map_region (Some example_vm0) 0x20000 0x30000 0xf000 ats
      reset_s2hw = (r, vm', s')" by (metis prod_cases3)
  note C = map_region_codes [OF example_vms(1) example_map_args m]
  have "unat (pool_used (stage2 example_vm0)) \<le> 6"
    by (simp add: example_vms(7) init_stage2_def Let_def)
  moreover have "same_block 0x20000 b"
    if "unat (0x20000 :: u64) \<le> unat b" "unat b < unat (0x20000 :: u64) + unat (0xf000 :: u64)"
    for b :: u64
    using that by (simp add: same_block_def)
  ultimately have "r \<noteq> HV_STAGE2_ERR_NO_TABLES" using C(4) by blast
  moreover have "r \<noteq> HV_STAGE2_ERR_MAPPED" using C(2) example_vms(8) by fastforce
  ultimately have "r = HV_STAGE2_OK" using C(1) by simp
  with m that show thesis by simp
qed

text \<open>\<open>hv_stage2_init\<close> gives a VM of the pool table its own empty translation tables: the tables
  are well formed, every address of the 32-bit space is unmapped, the VM's regions are untouched and
  no descriptor of another VM's pool is written.\<close>

theorem stage2_init_correct:
  assumes "unat (vm_id vm) < HV_MAX_VMS" and "tables_base_ok base"
    and "hv_stage2_init base (Some vm) s = (res, vm', s')"
  shows "res = HV_STAGE2_OK \<and> (\<exists>v. vm' = Some v \<and> active_regions v = active_regions vm \<and>
    pool_va (stage2 v) = unat (vm_id vm) * 4096 \<and> unat (pool_used (stage2 v)) = 1 \<and>
    vm_tables_ok v (stage2_tables s') \<and>
    (\<forall>b. unat b < 2 ^ 32 \<longrightarrow>
       hv_stage2_translate (Some v) b True (stage2_tables s') = Inl HV_STAGE2_ERR_UNMAPPED) \<and>
    (\<forall>a. a < pool_va (stage2 v) \<or> pool_va (stage2 v) + 4096 \<le> a \<longrightarrow>
       stage2_tables s' a = stage2_tables s a))"
proof -
  let ?i = "unat (vm_id vm)"
  let ?tm = "\<lambda>a. if ?i * 4096 \<le> a \<and> a < ?i * 4096 + 4096 then 0 else stage2_tables s a"
  from assms(3) have e: "res = HV_STAGE2_OK" "vm' = Some (vm\<lparr>stage2 := init_stage2 base ?i\<rparr>)"
    "stage2_tables s' = ?tm"
    unfolding hv_stage2_init_eq [OF assms(1)] by auto
  note I = s2_inv_init [OF assms(2,1), of ?tm]
  have "vm_tables_ok (vm\<lparr>stage2 := init_stage2 base ?i\<rparr>) ?tm"
    unfolding vm_tables_ok_def using I by fastforce
  moreover have "pool_va (init_stage2 base ?i) = ?i * 4096" "unat (pool_used (init_stage2 base ?i)) = 1"
    by (simp_all add: init_stage2_def Let_def)
  ultimately show ?thesis using e I(2) by (simp add: translate_view)
qed

theorem stage2_init_correct_witness:
  "\<exists>v s'. hv_stage2_init 0x10000 (Some example_vm) reset_s2hw = (HV_STAGE2_OK, Some v, s') \<and>
     hv_stage2_translate (Some v) 0x20000 True (stage2_tables s') = Inl HV_STAGE2_ERR_UNMAPPED"
proof -
  obtain r vm' s' where i: "hv_stage2_init 0x10000 (Some example_vm) reset_s2hw = (r, vm', s')"
    by (metis prod_cases3)
  have "unat (vm_id example_vm) < 2" "tables_base_ok 0x10000"
    by (simp_all add: example_vm_def zero_HvVm_def tables_base_ok_def)
  from stage2_init_correct [OF this i] i show ?thesis by auto
qed

text \<open>C19: whatever \<open>hv_stage2_map_region\<close> answers, the tables stay well formed and its effect on
  translation is that of a prefix of the requested range: on \<open>OK\<close> the whole range \<open>[ipa, ipa + size)\<close>
  translates to \<open>[pa, pa + size)\<close> address by address, on an error only the pages before the failing
  one do, and every other address translates as before. The VM's regions do not change.\<close>

theorem map_region_correct:
  assumes "vm_tables_ok vm (stage2_tables s)"
    and "hv_stage2_map_region (Some vm) ipa pa sz ats s = (res, vm', s')"
  shows "\<exists>v k. vm' = Some v \<and> active_regions v = active_regions vm \<and>
    vm_tables_ok v (stage2_tables s') \<and>
    (if res = HV_STAGE2_OK then k * 4096 = unat sz else k = 0 \<or> k * 4096 < unat sz) \<and>
    (\<forall>b. hv_stage2_translate (Some v) b True (stage2_tables s') =
       (if unat ipa \<le> unat b \<and> unat b < unat ipa + k * 4096 then Inr (pa + (b - ipa))
        else hv_stage2_translate (Some vm) b True (stage2_tables s)))"
proof -
  from map_region_spec [OF assms] obtain v k where M: "vm' = Some v" "v = vm\<lparr>stage2 := stage2 v\<rparr>"
    "vm_tables_ok v (stage2_tables s')"
    "res = HV_STAGE2_OK \<Longrightarrow> map_args_ok vm ipa pa sz \<and> k * 4096 = unat sz"
    "res \<noteq> HV_STAGE2_OK \<Longrightarrow> k = 0 \<or> k * 4096 < unat sz \<and> map_args_ok vm ipa pa sz"
    "\<And>b. hv_stage2_translate (Some v) b True (stage2_tables s') =
       (if in_pages (unat ipa) k b then Inr (pa + (b - ipa))
        else hv_stage2_translate (Some vm) b True (stage2_tables s))" by metis
  have "active_regions v = active_regions vm" using M(2) by (metis active_regions_stage2(1))
  moreover have "if res = HV_STAGE2_OK then k * 4096 = unat sz else k = 0 \<or> k * 4096 < unat sz"
    using M(4,5) by auto
  ultimately show ?thesis
    using M(1,3) M(6) [unfolded in_pages_def] by (intro exI [of _ v] exI [of _ k]) simp
qed

theorem map_region_correct_witness:
  "\<exists>v s'. hv_stage2_map_region (Some example_vm0) 0x20000 0x30000 0xf000 0x7ff reset_s2hw =
     (HV_STAGE2_OK, Some v, s') \<and>
     hv_stage2_translate (Some v) 0x2e123 True (stage2_tables s') = Inr 0x3e123 \<and>
     hv_stage2_translate (Some v) 0x2f000 True (stage2_tables s') = Inl HV_STAGE2_ERR_UNMAPPED"
proof -
  obtain vm' s' where m: "hv_stage2_map_region (Some example_vm0) 0x20000 0x30000 0xf000 0x7ff
      reset_s2hw = (HV_STAGE2_OK, vm', s')" by (rule example_map)
  from map_region_correct [OF example_vms(1) m] obtain v where "vm' = Some v"
    and t: "\<And>b. hv_stage2_translate (Some v) b True (stage2_tables s') =
       (if 0x20000 \<le> unat b \<and> unat b < 0x2f000 then Inr (0x30000 + (b - 0x20000))
        else hv_stage2_translate (Some example_vm0) b True (stage2_tables reset_s2hw))" by auto
  then show ?thesis using m t [of "0x2e123"] t [of "0x2f000"] example_vms(8) [of "0x2f000"] by simp
qed

text \<open>C20: when \<open>hv_stage2_map_region\<close> succeeds. It answers \<open>INVAL\<close> or \<open>RANGE\<close>, changing nothing, for
  arguments that are misaligned, empty, out of the 32-bit space or not inside one RAM region with the
  matching physical range. Otherwise it answers \<open>MAPPED\<close> only if some address of the range is
  already translated, \<open>OK\<close> only if none is, and it cannot run out of tables while the range lies in
  one 2 MB block and two table pages are free.\<close>

theorem map_region_result:
  assumes "vm_tables_ok vm (stage2_tables s)"
    and "hv_stage2_map_region (Some vm) ipa pa sz ats s = (res, vm', s')"
  shows "if map_args_ok vm ipa pa sz
    then res \<in> {HV_STAGE2_OK, HV_STAGE2_ERR_MAPPED, HV_STAGE2_ERR_NO_TABLES} \<and>
      (res \<noteq> HV_STAGE2_ERR_NO_TABLES \<longrightarrow>
        (res = HV_STAGE2_OK \<longleftrightarrow> (\<forall>b. unat ipa \<le> unat b \<and> unat b < unat ipa + unat sz \<longrightarrow>
           hv_stage2_translate (Some vm) b True (stage2_tables s) = Inl HV_STAGE2_ERR_UNMAPPED))) \<and>
      ((\<forall>b. unat ipa \<le> unat b \<and> unat b < unat ipa + unat sz \<longrightarrow> same_block ipa b) \<and>
        unat (pool_used (stage2 vm)) \<le> 6 \<longrightarrow> res \<noteq> HV_STAGE2_ERR_NO_TABLES)
    else res \<in> {HV_STAGE2_ERR_INVAL, HV_STAGE2_ERR_RANGE} \<and> vm' = Some vm \<and> s' = s"
proof (cases "map_args_ok vm ipa pa sz")
  case False
  with map_region_rejected [OF False, of ats s] assms(2) show ?thesis by auto
next
  case True
  from map_region_codes [OF assms(1) True assms(2)] True show ?thesis by auto
qed

theorem map_region_result_witness:
  "fst (hv_stage2_map_region (Some example_vm0) 0x20000 0x30000 0xf000 0x7ff reset_s2hw) = HV_STAGE2_OK"
proof -
  obtain r vm' s' where m: "hv_stage2_map_region (Some example_vm0) 0x20000 0x30000 0xf000 0x7ff
      reset_s2hw = (r, vm', s')" by (metis prod_cases3)
  have u: "unat (pool_used (stage2 example_vm0)) \<le> 6"
    by (simp add: example_vms(7) init_stage2_def Let_def)
  have b: "\<forall>b. unat (0x20000 :: u64) \<le> unat b \<and> unat b < unat (0x20000 :: u64) + unat (0xf000 :: u64)
      \<longrightarrow> same_block 0x20000 b"
    by (auto simp: same_block_def)
  have f: "\<forall>b. unat (0x20000 :: u64) \<le> unat b \<and> unat b < unat (0x20000 :: u64) + unat (0xf000 :: u64)
      \<longrightarrow> hv_stage2_translate (Some example_vm0) b True (stage2_tables reset_s2hw) =
          Inl HV_STAGE2_ERR_UNMAPPED"
    using example_vms(8) by auto
  from map_region_result [OF example_vms(1) m] example_map_args u b f have "r = HV_STAGE2_OK"
    by (simp only: if_True simp_thms)
  with m show ?thesis by simp
qed

text \<open>C21: \<open>hv_stage2_unmap_page\<close> on a valid VM answers \<open>INVAL\<close> for a misaligned address, \<open>RANGE\<close> for
  one outside every region, changing nothing, and \<open>OK\<close> otherwise. Then the page is unmapped, every
  other address translates as before, and the tables stay well formed.\<close>

theorem unmap_page_correct:
  assumes "vm_tables_ok vm (stage2_tables s)" and "region_table_ok vm"
    and "hv_stage2_unmap_page (Some vm) ipa s = (res, s')"
  shows "res = (if \<not> 4096 dvd unat ipa then HV_STAGE2_ERR_INVAL
      else if hv_vm_find_region (Some vm) ipa = None then HV_STAGE2_ERR_RANGE else HV_STAGE2_OK) \<and>
    vm_tables_ok vm (stage2_tables s') \<and>
    (if res = HV_STAGE2_OK
     then \<forall>b. hv_stage2_translate (Some vm) b True (stage2_tables s') =
       (if unat ipa \<le> unat b \<and> unat b < unat ipa + 4096 then Inl HV_STAGE2_ERR_UNMAPPED
        else hv_stage2_translate (Some vm) b True (stage2_tables s))
     else s' = s)"
  using unmap_page_spec [OF assms] by simp

theorem unmap_page_correct_witness:
  "fst (hv_stage2_unmap_page (Some example_vm0) 0x20000 reset_s2hw) = HV_STAGE2_OK \<and>
   fst (hv_stage2_unmap_page (Some example_vm0) 0x20001 reset_s2hw) = HV_STAGE2_ERR_INVAL \<and>
   fst (hv_stage2_unmap_page (Some example_vm0) 0x2f000 reset_s2hw) = HV_STAGE2_ERR_RANGE"
proof -
  have r: "fst (hv_stage2_unmap_page (Some example_vm0) a reset_s2hw) =
     (if \<not> 4096 dvd unat a then HV_STAGE2_ERR_INVAL
      else if hv_vm_find_region (Some example_vm0) a = None then HV_STAGE2_ERR_RANGE
      else HV_STAGE2_OK)" for a
  proof -
    obtain r s' where "hv_stage2_unmap_page (Some example_vm0) a reset_s2hw = (r, s')" by fastforce
    from unmap_page_correct [OF example_vms(1,2) this] this show ?thesis by simp
  qed
  have f: "hv_vm_find_region (Some example_vm0) a = None \<longleftrightarrow> \<not> (0x20000 \<le> unat a \<and> unat a < 0x2f000)" for a
    unfolding find_region_None
    by (simp add: example_vms region_lo_def region_hi_def example_region_def)
  have d: "\<not> (4096 :: nat) dvd 131073" by presburger
  show ?thesis unfolding r f by (simp add: d)
qed

text \<open>C12: the VMs are separated. Mapping into or unmapping from one VM changes neither the tables'
  validity nor a single translation of another VM whose pool is elsewhere, whatever the arguments
  and the outcome.\<close>

theorem stage2_vms_isolated:
  assumes "vm_tables_ok vm (stage2_tables s)" and "region_table_ok vm"
    and "vm_tables_ok other (stage2_tables s)" and "pools_disjoint vm other"
    and "hv_stage2_map_region (Some vm) ipa pa sz ats s = (res, vm', s')"
    and "hv_stage2_unmap_page (Some vm) ipa s = (res2, s2)"
  shows "vm_tables_ok other (stage2_tables s') \<and> vm_tables_ok other (stage2_tables s2) \<and>
    hv_stage2_translate (Some other) b True (stage2_tables s') =
      hv_stage2_translate (Some other) b True (stage2_tables s) \<and>
    hv_stage2_translate (Some other) b True (stage2_tables s2) =
      hv_stage2_translate (Some other) b True (stage2_tables s)"
proof -
  obtain st where m: "s2_frame (stage2 vm) (stage2_tables s) st (stage2_tables s')"
    using map_region_frame [OF assms(1,5)] ..
  have u: "s2_frame (stage2 vm) (stage2_tables s) (stage2 vm) (stage2_tables s2)"
    by (rule unmap_page_spec(4) [OF assms(1,2,6)])
  show ?thesis
    by (intro conjI frame_other_vm [OF m assms(4,3)] frame_other_vm [OF u assms(4,3)])
qed

theorem stage2_vms_isolated_witness:
  "\<exists>v s'. hv_stage2_map_region (Some example_vm0) 0x20000 0x30000 0xf000 0x7ff reset_s2hw =
     (HV_STAGE2_OK, v, s') \<and> vm_tables_ok example_vm1 (stage2_tables s') \<and>
     hv_stage2_translate (Some example_vm1) 0x20000 True (stage2_tables s') =
       hv_stage2_translate (Some example_vm1) 0x20000 True (stage2_tables reset_s2hw)"
proof -
  obtain vm' s' where m: "hv_stage2_map_region (Some example_vm0) 0x20000 0x30000 0xf000 0x7ff
      reset_s2hw = (HV_STAGE2_OK, vm', s')" by (rule example_map)
  obtain r s2 where "hv_stage2_unmap_page (Some example_vm0) 0x20000 reset_s2hw = (r, s2)" by fastforce
  from stage2_vms_isolated [OF example_vms(1,2,3,5) m this, where b = "0x20000"] m
  show ?thesis by simp
qed

end
