(* ===== verification/Timers.thy ===== *)
theory Timers
  imports Printk Stage2_Spec
begin

section \<open>Interrupt controller and timers: irq.c, timer.c, generic\_timer.c\<close>

text \<open>
  The BCM interrupt controller, the legacy ARM timer that backs the guests' virtual timers, the free
  running system timer, and the ARM generic timer that drives pre-emption. Their registers are
  device ports; the one variable the drivers keep, \<open>gen_tim_period_ticks\<close>, is a field of the machine.

  The lemmas show what is programmed: the load value \<open>TIM_Arm_Usec\<close> chooses against the ideal
  number of ticks, the bank and bit of every interrupt source, and how long a delay lasts.
\<close>

record timer_hw = s2hw +
  gen_tim_period_ticks :: u32

subsection \<open>Interrupt controller\<close>

abbreviation (input) IRQ_BASE_PENDING :: u32 where "IRQ_BASE_PENDING \<equiv> IRQ_BASE + 0x200"
abbreviation (input) IRQ_PENDING_1 :: u32 where "IRQ_PENDING_1 \<equiv> IRQ_BASE + 0x204"
abbreviation (input) IRQ_PENDING_2 :: u32 where "IRQ_PENDING_2 \<equiv> IRQ_BASE + 0x208"
abbreviation (input) IRQ_ENABLE_1 :: u32 where "IRQ_ENABLE_1 \<equiv> IRQ_BASE + 0x210"
abbreviation (input) IRQ_ENABLE_BASIC :: u32 where "IRQ_ENABLE_BASIC \<equiv> IRQ_BASE + 0x218"
abbreviation (input) IRQ_DISABLE_1 :: u32 where "IRQ_DISABLE_1 \<equiv> IRQ_BASE + 0x21C"
abbreviation (input) IRQ_DISABLE_2 :: u32 where "IRQ_DISABLE_2 \<equiv> IRQ_BASE + 0x220"
abbreviation (input) IRQ_DISABLE_BASIC :: u32 where "IRQ_DISABLE_BASIC \<equiv> IRQ_BASE + 0x224"
abbreviation (input) IRQ_AUX_INT :: u32 where "IRQ_AUX_INT \<equiv> 29"
abbreviation (input) IRQ_ARM_TIMER_INT :: u32 where "IRQ_ARM_TIMER_INT \<equiv> 0"

definition IRQ_Check_Interrupt :: "u32 \<Rightarrow> 'a hw_scheme \<Rightarrow> bool \<times> 'a hw_scheme" where
  "IRQ_Check_Interrupt source s =
     (if source \<ge> IRQ_AUX_INT
      then let pending_reg = (if source < 32 then IRQ_PENDING_1 else IRQ_PENDING_2);
               (v, s) = GET32 pending_reg s
           in (drop_bit (unat (source mod 32)) v AND 1 \<noteq> 0, s)
      else let (v, s) = GET32 IRQ_BASE_PENDING s
           in (drop_bit (unat source) v AND 1 \<noteq> 0, s))"

definition IRQ_Enable_Interrupt :: "u32 \<Rightarrow> 'a hw_scheme \<Rightarrow> 'a hw_scheme" where
  "IRQ_Enable_Interrupt source s =
     (if source \<ge> IRQ_AUX_INT
      then let enable_reg = (if source < 32 then IRQ_ENABLE_1 else IRQ_ENABLE_2)
           in PUT32 enable_reg (push_bit (unat (source mod 32)) 1) s
      else PUT32 IRQ_ENABLE_BASIC (push_bit (unat source) 1) s)"

definition IRQ_Disable_Interrupt :: "u32 \<Rightarrow> 'a hw_scheme \<Rightarrow> 'a hw_scheme" where
  "IRQ_Disable_Interrupt source s =
     (if source \<ge> IRQ_AUX_INT
      then let disable_reg = (if source < 32 then IRQ_DISABLE_1 else IRQ_DISABLE_2)
           in PUT32 disable_reg (push_bit (unat (source mod 32)) 1) s
      else PUT32 IRQ_DISABLE_BASIC (push_bit (unat source) 1) s)"

subsection \<open>The ARM timer and the system timer\<close>

abbreviation (input) TIM_BASE :: u32 where "TIM_BASE \<equiv> PERIPHERAL_BASE + 0xB000"
abbreviation (input) TIM_SYS_BASE :: u32 where "TIM_SYS_BASE \<equiv> PERIPHERAL_BASE + 0x3000"
abbreviation (input) TIM_ARM_TIMER_CLOCK_RATE :: u32 where "TIM_ARM_TIMER_CLOCK_RATE \<equiv> 250000000"
abbreviation (input) TIM_LOAD_MAX :: u64 where "TIM_LOAD_MAX \<equiv> 0x7fffff"
abbreviation (input) TIM_ARM_TIMER_PRESCALE :: u64 where "TIM_ARM_TIMER_PRESCALE \<equiv> 256"
abbreviation (input) TIM_LOAD :: u32 where "TIM_LOAD \<equiv> TIM_BASE + 0x400"
abbreviation (input) TIM_CTRL :: u32 where "TIM_CTRL \<equiv> TIM_BASE + 0x408"
abbreviation (input) TIM_IRQ_CLR :: u32 where "TIM_IRQ_CLR \<equiv> TIM_BASE + 0x40C"
abbreviation (input) TIM_MASK_IRQ :: u32 where "TIM_MASK_IRQ \<equiv> TIM_BASE + 0x414"
abbreviation (input) TIM_RELOAD :: u32 where "TIM_RELOAD \<equiv> TIM_BASE + 0x418"
abbreviation (input) TIM_PREDIVIDER :: u32 where "TIM_PREDIVIDER \<equiv> TIM_BASE + 0x41C"
abbreviation (input) TIM_CTRL_FREE_RUNNING_COUNTER :: u32 where "TIM_CTRL_FREE_RUNNING_COUNTER \<equiv> 0x200"
abbreviation (input) TIM_CTRL_TIMER_ENABLE :: u32 where "TIM_CTRL_TIMER_ENABLE \<equiv> 0x80"
abbreviation (input) TIM_CTRL_TIMER_INTERRUPT :: u32 where "TIM_CTRL_TIMER_INTERRUPT \<equiv> 0x20"
abbreviation (input) TIM_CTRL_PRESCALE_256 :: u32 where "TIM_CTRL_PRESCALE_256 \<equiv> 0x8"
abbreviation (input) TIM_CTRL_23BIT_COUNTER :: u32 where "TIM_CTRL_23BIT_COUNTER \<equiv> 0x2"
abbreviation (input) TIM_CTRL_FRC_PRESCALE_BIT :: nat where "TIM_CTRL_FRC_PRESCALE_BIT \<equiv> 16"
abbreviation (input) TIM_SYS_CLO :: u32 where "TIM_SYS_CLO \<equiv> TIM_SYS_BASE + 0x4"

definition TIM_ARM_TIMER_MAX_DELTA_US :: u32 where
  "TIM_ARM_TIMER_MAX_DELTA_US =
     ucast (TIM_LOAD_MAX * TIM_ARM_TIMER_PRESCALE div (ucast (TIM_ARM_TIMER_CLOCK_RATE div 1000000)))"

definition TIM_Enable_IRQ :: "'a hw_scheme \<Rightarrow> 'a hw_scheme" where
  "TIM_Enable_IRQ s = IRQ_Enable_Interrupt IRQ_ARM_TIMER_INT s"

definition TIM_Disable_IRQ :: "'a hw_scheme \<Rightarrow> 'a hw_scheme" where
  "TIM_Disable_IRQ s = IRQ_Disable_Interrupt IRQ_ARM_TIMER_INT s"

definition TIM_Enable :: "'a hw_scheme \<Rightarrow> 'a hw_scheme" where
  "TIM_Enable s =
     (let s = PUT32 TIM_CTRL
            (TIM_CTRL_TIMER_INTERRUPT OR TIM_CTRL_TIMER_ENABLE OR TIM_CTRL_23BIT_COUNTER) s
      in PUT32 TIM_PREDIVIDER 0 s)"

definition TIM_Disable :: "'a hw_scheme \<Rightarrow> 'a hw_scheme" where
  "TIM_Disable s = (let s = RMW_AND TIM_CTRL (NOT TIM_CTRL_TIMER_ENABLE) s in TIM_Disable_IRQ s)"

definition TIM_Set_Load :: "u32 \<Rightarrow> 'a hw_scheme \<Rightarrow> 'a hw_scheme" where
  "TIM_Set_Load count s = PUT32 TIM_LOAD count s"

text \<open>\<open>None\<close> for the division by zero.\<close>

definition TIM_Set_Frequency :: "u32 \<Rightarrow> 'a hw_scheme \<Rightarrow> 'a hw_scheme option" where
  "TIM_Set_Frequency hz s =
     (if hz = 0 then None else Some (TIM_Set_Load (TIM_ARM_TIMER_CLOCK_RATE div hz) s))"

definition TIM_Pending :: "'a hw_scheme \<Rightarrow> bool \<times> 'a hw_scheme" where
  "TIM_Pending s = (let (v, s) = GET32 TIM_MASK_IRQ s in (v AND 1 \<noteq> 0, s))"

definition TIM_Check_IRQ :: "'a hw_scheme \<Rightarrow> bool \<times> 'a hw_scheme" where
  "TIM_Check_IRQ s =
     (let (p, s) = TIM_Pending s
      in if p then IRQ_Check_Interrupt IRQ_ARM_TIMER_INT s else (False, s))"

definition TIM_Clear_Pending :: "'a hw_scheme \<Rightarrow> 'a hw_scheme" where
  "TIM_Clear_Pending s = PUT32 TIM_IRQ_CLR 1 s"

definition TIM_Arm_Usec :: "u32 \<Rightarrow> 'a hw_scheme \<Rightarrow> 'a hw_scheme" where
  "TIM_Arm_Usec delta_us s =
     (let timer_ticks = drop_bit 8 (ucast delta_us * ucast (TIM_ARM_TIMER_CLOCK_RATE div 1000000) +
            TIM_ARM_TIMER_PRESCALE - 1) :: u64;
          timer_ticks = (if timer_ticks = 0 then 1
            else if timer_ticks > TIM_LOAD_MAX then TIM_LOAD_MAX else timer_ticks);
          s = TIM_Disable_IRQ s;
          s = PUT32 TIM_CTRL 0 s;
          s = TIM_Clear_Pending s;
          s = PUT32 TIM_PREDIVIDER 0 s;
          s = PUT32 TIM_RELOAD 0 s;
          s = PUT32 TIM_LOAD (ucast timer_ticks) s;
          s = PUT32 TIM_CTRL (TIM_CTRL_TIMER_INTERRUPT OR TIM_CTRL_TIMER_ENABLE OR
                TIM_CTRL_23BIT_COUNTER OR TIM_CTRL_PRESCALE_256) s
      in TIM_Enable_IRQ s)"

definition TIM_Enable_Free_Running :: "'a hw_scheme \<Rightarrow> 'a hw_scheme" where
  "TIM_Enable_Free_Running s =
     (let s = PUT32 TIM_CTRL (TIM_CTRL_TIMER_INTERRUPT OR TIM_CTRL_TIMER_ENABLE OR
            TIM_CTRL_23BIT_COUNTER OR TIM_CTRL_FREE_RUNNING_COUNTER OR
            push_bit TIM_CTRL_FRC_PRESCALE_BIT 24) s
      in PUT32 TIM_PREDIVIDER 0 s)"

text \<open>The spin of the two delays: until the counter is \<open>wait\<close> past \<open>start\<close>, modulo its 32 bits.\<close>

partial_function (option) sys_delay_loop :: "u32 \<Rightarrow> u32 \<Rightarrow> 'a hw_scheme \<Rightarrow> 'a hw_scheme option" where
  "sys_delay_loop start wait s =
     (let (v, s) = GET32 TIM_SYS_CLO s
      in if v - start < wait then sys_delay_loop start wait s else Some s)"

definition TIM_SYS_Delay_Micros :: "u32 \<Rightarrow> 'a hw_scheme \<Rightarrow> 'a hw_scheme option" where
  "TIM_SYS_Delay_Micros us s =
     (let (start, s) = GET32 TIM_SYS_CLO s in sys_delay_loop start us s)"

definition TIM_SYS_Delay_Millis :: "u32 \<Rightarrow> 'a hw_scheme \<Rightarrow> 'a hw_scheme option" where
  "TIM_SYS_Delay_Millis ms s =
     (let (start, s) = GET32 TIM_SYS_CLO s; wait = ms * 1000 in sys_delay_loop start wait s)"

definition TIM_SYS_Get_Ticks :: "'a hw_scheme \<Rightarrow> u32 \<times> 'a hw_scheme" where
  "TIM_SYS_Get_Ticks s = GET32 TIM_SYS_CLO s"

subsection \<open>The generic timer\<close>

abbreviation (input) GEN_TIM_LOCAL_CONTROL :: u32 where "GEN_TIM_LOCAL_CONTROL \<equiv> ARM_LOCAL_PERIPHERAL_BASE + 0x00"
abbreviation (input) GEN_TIM_LOCAL_PRESCALER :: u32 where "GEN_TIM_LOCAL_PRESCALER \<equiv> ARM_LOCAL_PERIPHERAL_BASE + 0x08"
abbreviation (input) GEN_TIM_CORE0_TIMER_IRQCNTL :: u32 where "GEN_TIM_CORE0_TIMER_IRQCNTL \<equiv> ARM_LOCAL_PERIPHERAL_BASE + 0x40"
abbreviation (input) GEN_TIM_CORE0_IRQ_SOURCE :: u32 where "GEN_TIM_CORE0_IRQ_SOURCE \<equiv> ARM_LOCAL_PERIPHERAL_BASE + 0x60"
abbreviation (input) GEN_TIM_CNTHPIRQ_BIT :: u32 where "GEN_TIM_CNTHPIRQ_BIT \<equiv> 4"
abbreviation (input) GEN_TIM_CTL_ENABLE :: u32 where "GEN_TIM_CTL_ENABLE \<equiv> 1"
abbreviation (input) GEN_TIM_CTL_IMASK :: u32 where "GEN_TIM_CTL_IMASK \<equiv> 2"
abbreviation (input) GEN_TIM_CTL_ISTATUS :: u32 where "GEN_TIM_CTL_ISTATUS \<equiv> 4"
abbreviation (input) GEN_TIM_DEFAULT_PRESCALER :: u32 where "GEN_TIM_DEFAULT_PRESCALER \<equiv> 0x80000000"

definition read_cntfrq :: "'a hw_scheme \<Rightarrow> u32 \<times> 'a hw_scheme" where
  "read_cntfrq s = read_port CNTFRQ s"

definition write_cnthp_tval :: "u32 \<Rightarrow> 'a hw_scheme \<Rightarrow> 'a hw_scheme" where
  "write_cnthp_tval v s = ISB (write_port CNTHP_TVAL v s)"

definition read_cnthp_ctl :: "'a hw_scheme \<Rightarrow> u32 \<times> 'a hw_scheme" where
  "read_cnthp_ctl s = read_port CNTHP_CTL s"

definition write_cnthp_ctl :: "u32 \<Rightarrow> 'a hw_scheme \<Rightarrow> 'a hw_scheme" where
  "write_cnthp_ctl v s = ISB (write_port CNTHP_CTL v s)"

definition init_local_counter_frequency :: "'a hw_scheme \<Rightarrow> 'a hw_scheme" where
  "init_local_counter_frequency s =
     (let s = DSB s;
          s = PUT32 GEN_TIM_LOCAL_CONTROL 0 s;
          s = PUT32 GEN_TIM_LOCAL_PRESCALER GEN_TIM_DEFAULT_PRESCALER s;
          s = DSB s
      in ISB s)"

definition enable_local_cnthp_irq :: "'a hw_scheme \<Rightarrow> 'a hw_scheme" where
  "enable_local_cnthp_irq s =
     (let s = DSB s;
          (v, s) = GET32 GEN_TIM_CORE0_TIMER_IRQCNTL s;
          s = PUT32 GEN_TIM_CORE0_TIMER_IRQCNTL (v OR GEN_TIM_CNTHPIRQ_BIT) s
      in DSB s)"

definition disable_local_cnthp_irq :: "'a hw_scheme \<Rightarrow> 'a hw_scheme" where
  "disable_local_cnthp_irq s =
     (let s = DSB s;
          (v, s) = GET32 GEN_TIM_CORE0_TIMER_IRQCNTL s;
          s = PUT32 GEN_TIM_CORE0_TIMER_IRQCNTL (v AND NOT GEN_TIM_CNTHPIRQ_BIT) s
      in DSB s)"

definition GEN_TIM_init :: "u32 \<Rightarrow> 'a timer_hw_scheme \<Rightarrow> 'a timer_hw_scheme option" where
  "GEN_TIM_init hz s = do {
     s \<leftarrow> hv_assert (hz \<noteq> 0) s;
     let s = init_local_counter_frequency s;
     let (cntfrq, s) = read_cntfrq s;
     s \<leftarrow> hv_assert (cntfrq \<noteq> 0) s;
     let s = s\<lparr>gen_tim_period_ticks := cntfrq div hz\<rparr>;
     let s = write_cnthp_ctl GEN_TIM_CTL_IMASK s;
     Some (disable_local_cnthp_irq s)
   }"

definition GEN_TIM_enable :: "'a timer_hw_scheme \<Rightarrow> 'a timer_hw_scheme option" where
  "GEN_TIM_enable s = do {
     s \<leftarrow> hv_assert (gen_tim_period_ticks s \<noteq> 0) s;
     let s = enable_local_cnthp_irq s;
     let s = write_cnthp_tval (gen_tim_period_ticks s) s;
     Some (write_cnthp_ctl GEN_TIM_CTL_ENABLE s)
   }"

definition GEN_TIM_disable :: "'a hw_scheme \<Rightarrow> 'a hw_scheme" where
  "GEN_TIM_disable s = (let s = write_cnthp_ctl GEN_TIM_CTL_IMASK s in disable_local_cnthp_irq s)"

definition GEN_TIM_istatus :: "'a hw_scheme \<Rightarrow> bool \<times> 'a hw_scheme" where
  "GEN_TIM_istatus s =
     (let (ctl, s) = read_cnthp_ctl s in (ctl AND GEN_TIM_CTL_ISTATUS \<noteq> 0, s))"

definition GEN_TIM_irq_pending :: "'a hw_scheme \<Rightarrow> bool \<times> 'a hw_scheme" where
  "GEN_TIM_irq_pending s =
     (let (st, s) = GEN_TIM_istatus s
      in if \<not> st then (False, s)
         else let s = DSB s; (v, s) = GET32 GEN_TIM_CORE0_IRQ_SOURCE s
              in (v AND GEN_TIM_CNTHPIRQ_BIT \<noteq> 0, s))"

definition GEN_TIM_ack :: "'a hw_scheme \<Rightarrow> 'a hw_scheme" where
  "GEN_TIM_ack s =
     (let (ctl, s) = read_cnthp_ctl s
      in write_cnthp_ctl ((ctl AND GEN_TIM_CTL_ENABLE) OR GEN_TIM_CTL_IMASK) s)"

definition GEN_TIM_rearm :: "'a timer_hw_scheme \<Rightarrow> 'a timer_hw_scheme option" where
  "GEN_TIM_rearm s = do {
     s \<leftarrow> hv_assert (gen_tim_period_ticks s \<noteq> 0) s;
     let s = write_cnthp_tval (gen_tim_period_ticks s) s;
     Some (write_cnthp_ctl GEN_TIM_CTL_ENABLE s)
   }"

subsection \<open>What the operations change\<close>

text \<open>Every operation of the three drivers but \<open>GEN_TIM_init\<close> changes nothing but the history, and puts
  nothing on the serial line.\<close>

lemma io_out_steps:
  "io_out s s1 [] \<Longrightarrow> io_out s1 s2 t \<Longrightarrow> io_out s s2 t"
  using io_out_trans [of s s1 "[]" s2 t] by simp

lemma io_out_log: "io_out s (s\<lparr>hw_log := hw_log s @ es\<rparr>) (uart_bytes es)"
  by (auto simp: io_out_def)

lemma io_out_log_nil: "s' = s\<lparr>hw_log := hw_log s @ es\<rparr> \<Longrightarrow> uart_bytes es = [] \<Longrightarrow> io_out s s' []"
  by (auto simp: io_out_def)

lemma io_out_irq:
  "io_out s (IRQ_Enable_Interrupt n s) []" "io_out s (IRQ_Disable_Interrupt n s) []"
  "IRQ_Check_Interrupt n s = (b, s') \<Longrightarrow> io_out s s' []"
  by (auto simp: IRQ_Enable_Interrupt_def IRQ_Disable_Interrupt_def IRQ_Check_Interrupt_def Let_def
      intro!: io_out_PUT32 split: prod.splits if_splits dest: io_out_GET32)

definition arm_ticks :: "u32 \<Rightarrow> u64" where
  "arm_ticks delta_us = drop_bit 8 (ucast delta_us * 250 + 255)"

definition arm_load :: "u32 \<Rightarrow> u32" where
  "arm_load delta_us =
     (let t = arm_ticks delta_us in if t = 0 then 1 else if t > 0x7fffff then 0x7fffff else ucast t)"

lemma TIM_Arm_Usec_events:
  "TIM_Arm_Usec d s = s\<lparr>hw_log := hw_log s @
     [EvWr (Dev IRQ_DISABLE_BASIC) 1, EvWr (Dev TIM_CTRL) 0, EvWr (Dev TIM_IRQ_CLR) 1,
      EvWr (Dev TIM_PREDIVIDER) 0, EvWr (Dev TIM_RELOAD) 0, EvWr (Dev TIM_LOAD) (arm_load d),
      EvWr (Dev TIM_CTRL) 0xAA, EvWr (Dev IRQ_ENABLE_BASIC) 1]\<rparr>"
proof -
  have t: "drop_bit 8 (ucast d * ucast (TIM_ARM_TIMER_CLOCK_RATE div 1000000) + TIM_ARM_TIMER_PRESCALE - 1)
      = arm_ticks d" by (simp add: arm_ticks_def add_diff_eq [symmetric])
  show ?thesis
    unfolding TIM_Arm_Usec_def Let_def t arm_load_def
    by (simp add: TIM_Disable_IRQ_def TIM_Enable_IRQ_def TIM_Clear_Pending_def
        IRQ_Enable_Interrupt_def IRQ_Disable_Interrupt_def PUT32_def write_port_def emit_def)
qed

lemma io_out_timer:
  "io_out s (TIM_Disable_IRQ s) []" "io_out s (TIM_Arm_Usec d s) []" "io_out s (TIM_Clear_Pending s) []"
  "TIM_SYS_Get_Ticks s = (v, s') \<Longrightarrow> io_out s s' []"
  by (auto simp: TIM_Disable_IRQ_def TIM_Clear_Pending_def TIM_SYS_Get_Ticks_def TIM_Arm_Usec_events
      intro: io_out_irq io_out_PUT32 io_out_GET32 io_out_log_nil [OF refl])

lemma io_out_TIM_Check_IRQ: "TIM_Check_IRQ s = (b, s') \<Longrightarrow> io_out s s' []"
  by (auto simp: TIM_Check_IRQ_def TIM_Pending_def Let_def split: prod.splits if_splits
      dest!: io_out_GET32 io_out_irq(3) intro: io_out_steps)

lemma io_out_cnthp: "io_out s (write_cnthp_ctl v s) []" "io_out s (write_cnthp_tval v s) []"
  by (auto simp: write_cnthp_ctl_def write_cnthp_tval_def dev_defs intro!: io_out_log_nil)

lemma io_out_GEN_TIM:
  "GEN_TIM_irq_pending s = (b, s') \<Longrightarrow> io_out s s' []" "io_out s (GEN_TIM_ack s) []"
  "GEN_TIM_rearm t = Some t' \<Longrightarrow> io_out t t' []"
  by (auto simp: GEN_TIM_irq_pending_def GEN_TIM_istatus_def read_cnthp_ctl_def GEN_TIM_ack_def
      GEN_TIM_rearm_def write_cnthp_ctl_def write_cnthp_tval_def hv_assert_def dev_defs
      split: if_splits intro!: io_out_log_nil)

lemma GEN_TIM_rearm_live: "gen_tim_period_ticks s \<noteq> 0 \<Longrightarrow> \<exists>s'. GEN_TIM_rearm s = Some s'"
  by (simp add: GEN_TIM_rearm_def hv_assert_def)

subsection \<open>The load value\<close>

lemma unat_ucast_up: "unat (ucast d :: u64) = unat d" for d :: u32
  using unat_ucast_mod [of d, where 'b = 64] unsigned_less [of d, where 'a = nat] by simp

lemma unat_arm_ticks: "unat (arm_ticks d) = (250 * unat d + 255) div 256"
proof -
  have d: "unat d < 2 ^ 32" using unsigned_less [of d, where 'a = nat] by simp
  have m: "unat (ucast d * 250 :: u64) = unat d * 250"
    using d by (simp add: unat_word_ariths unat_ucast_up)
  have "unat (ucast d * 250 + 255 :: u64) = unat d * 250 + 255"
    using d m by (simp add: unat_add_no_wrap)
  then show ?thesis using unat_drop_bit [of 8 "ucast d * 250 + 255 :: u64"]
    by (simp add: arm_ticks_def mult.commute)
qed

lemma TIM_ARM_TIMER_MAX_DELTA_US_eq: "TIM_ARM_TIMER_MAX_DELTA_US = 8589933"
  by (simp add: TIM_ARM_TIMER_MAX_DELTA_US_def)

lemma unat_arm_load:
  "unat (arm_load d) = (if unat d = 0 then 1 else min 0x7fffff ((250 * unat d + 255) div 256))"
proof -
  have z: "arm_ticks d = 0 \<longleftrightarrow> unat d = 0"
    using unat_arm_ticks [of d] by (auto simp: unat_eq_0 [symmetric])
  have g: "arm_ticks d > 0x7fffff \<longleftrightarrow> 0x7fffff < (250 * unat d + 255) div 256"
    by (simp add: word_less_nat_alt unat_arm_ticks)
  have u: "unat (ucast (arm_ticks d) :: u32) = (250 * unat d + 255) div 256"
    if "\<not> 0x7fffff < (250 * unat d + 255) div 256"
    using unat_ucast_mod [of "arm_ticks d", where 'b = 32] that by (simp add: unat_arm_ticks)
  show ?thesis by (auto simp: arm_load_def Let_def z g u min_def)
qed

subsection \<open>Delays\<close>

lemma sys_delay_loop_reads:
  assumes "sys_delay_loop start wait s = Some s'"
  shows "\<exists>vs. s' = s\<lparr>hw_log := hw_log s @ map (EvRd (Dev TIM_SYS_CLO)) vs\<rparr> \<and> vs \<noteq> [] \<and>
    wait \<le> last vs - start \<and> (\<forall>v \<in> set (butlast vs). v - start < wait)"
proof (rule sys_delay_loop.raw_induct [OF _ assms])
  fix f :: "u32 \<Rightarrow> u32 \<Rightarrow> 'a hw_scheme \<Rightarrow> 'a hw_scheme option" and start wait s s'
  let ?P = "\<lambda>start wait s s'. \<exists>vs. s' = s\<lparr>hw_log := hw_log s @ map (EvRd (Dev TIM_SYS_CLO)) vs\<rparr> \<and>
    vs \<noteq> [] \<and> wait \<le> last vs - start \<and> (\<forall>v \<in> set (butlast vs). v - start < wait)"
  assume IH: "\<And>start wait s s'. f start wait s = Some s' \<Longrightarrow> ?P start wait s s'"
    and st: "(let (v, s) = GET32 TIM_SYS_CLO s
              in if v - start < wait then f start wait s else Some s) = Some s'"
  obtain v s1 where g: "GET32 TIM_SYS_CLO s = (v, s1)" by fastforce
  then have s1: "s1 = s\<lparr>hw_log := hw_log s @ [EvRd (Dev TIM_SYS_CLO) v]\<rparr>"
    by (auto simp: GET32_def read_port_def Let_def emit_def)
  show "?P start wait s s'"
  proof (cases "v - start < wait")
    case True
    with st g have "f start wait s1 = Some s'" by simp
    then obtain vs where "s' = s1\<lparr>hw_log := hw_log s1 @ map (EvRd (Dev TIM_SYS_CLO)) vs\<rparr>" "vs \<noteq> []"
      "wait \<le> last vs - start" "\<forall>v \<in> set (butlast vs). v - start < wait" using IH by blast
    with True s1 show ?thesis by (intro exI [of _ "v # vs"]) auto
  next
    case False
    with st g have "s' = s1" by simp
    with False s1 show ?thesis by (intro exI [of _ "[v]"]) simp
  qed
qed

lemma sys_delay_loop_live:
  assumes "length (hw_log s) \<le> k" "wait \<le> hw_in s k (Dev TIM_SYS_CLO) - start"
  shows "\<exists>s'. sys_delay_loop start wait s = Some s'"
  using assms
proof (induction "k - length (hw_log s)" arbitrary: s)
  case 0
  then have "k = length (hw_log s)" by simp
  with 0 have "\<not> hw_in s (length (hw_log s)) (Dev TIM_SYS_CLO) - start < wait" by simp
  then show ?case by (subst sys_delay_loop.simps) (simp add: GET32_def read_port_def Let_def)
next
  case (Suc n)
  obtain v s1 where g: "GET32 TIM_SYS_CLO s = (v, s1)" by fastforce
  then have s1: "hw_in s1 = hw_in s" "length (hw_log s1) = Suc (length (hw_log s))"
    by (auto simp: GET32_def read_port_def Let_def emit_def)
  have "\<exists>s'. sys_delay_loop start wait s1 = Some s'"
    using Suc.hyps(2) Suc.prems by (intro Suc.hyps(1)) (simp_all add: s1)
  then show ?case using g by (subst sys_delay_loop.simps) auto
qed

subsection \<open>Properties\<close>

text \<open>C40: arming the ARM timer. \<open>TIM_Arm_Usec\<close> disables the interrupt, stops and clears the timer,
  loads it, starts it with the 256 prescaler and only then enables the interrupt. The load value is
  never zero and fits the 23-bit counter; up to \<open>TIM_ARM_TIMER_MAX_DELTA_US\<close> the timer never fires
  early, and less than one prescaled tick late; above, it is set to the longest interval.\<close>

theorem tim_arm_usec_correct:
  "\<exists>L. TIM_Arm_Usec d s = s\<lparr>hw_log := hw_log s @
       [EvWr (Dev IRQ_DISABLE_BASIC) 1, EvWr (Dev TIM_CTRL) 0, EvWr (Dev TIM_IRQ_CLR) 1,
        EvWr (Dev TIM_PREDIVIDER) 0, EvWr (Dev TIM_RELOAD) 0, EvWr (Dev TIM_LOAD) L,
        EvWr (Dev TIM_CTRL) 0xAA, EvWr (Dev IRQ_ENABLE_BASIC) 1]\<rparr> \<and>
     1 \<le> unat L \<and> unat L < 2 ^ 23 \<and>
     (d \<le> TIM_ARM_TIMER_MAX_DELTA_US \<longrightarrow> 250 * unat d \<le> 256 * unat L \<and>
        (d \<noteq> 0 \<longrightarrow> 256 * unat L < 250 * unat d + 256)) \<and>
     (d > TIM_ARM_TIMER_MAX_DELTA_US \<longrightarrow> unat L = 0x7fffff)"
proof (intro exI conjI impI)
  let ?t = "(250 * unat d + 255) div 256"
  show "TIM_Arm_Usec d s = s\<lparr>hw_log := hw_log s @
       [EvWr (Dev IRQ_DISABLE_BASIC) 1, EvWr (Dev TIM_CTRL) 0, EvWr (Dev TIM_IRQ_CLR) 1,
        EvWr (Dev TIM_PREDIVIDER) 0, EvWr (Dev TIM_RELOAD) 0, EvWr (Dev TIM_LOAD) (arm_load d),
        EvWr (Dev TIM_CTRL) 0xAA, EvWr (Dev IRQ_ENABLE_BASIC) 1]\<rparr>"
    by (rule TIM_Arm_Usec_events)
  have up: "d \<le> TIM_ARM_TIMER_MAX_DELTA_US \<longleftrightarrow> unat d \<le> 8589933"
    by (simp add: TIM_ARM_TIMER_MAX_DELTA_US_eq word_le_nat_alt)
  have t: "256 * ?t \<le> 250 * unat d + 255" "250 * unat d < 256 * ?t + 1"
    using div_mult_mod_eq [of "250 * unat d + 255" 256] mod_less_divisor [of 256 "250 * unat d + 255"]
    by linarith+
  then have pos: "unat d \<noteq> 0 \<Longrightarrow> 1 \<le> ?t" by linarith
  then show "1 \<le> unat (arm_load d)" by (simp add: unat_arm_load min_def)
  show "unat (arm_load d) < 2 ^ 23" by (simp add: unat_arm_load min_def)
  have small: "unat (arm_load d) = (if unat d = 0 then 1 else ?t)" if "unat d \<le> 8589933"
  proof -
    have "?t \<le> 0x7fffff" using t that by linarith
    then show ?thesis by (simp only: unat_arm_load min_absorb2 if_cancel)
  qed
  { assume "d \<le> TIM_ARM_TIMER_MAX_DELTA_US"
    then have l: "unat (arm_load d) = (if unat d = 0 then 1 else ?t)" using up small by simp
    show "250 * unat d \<le> 256 * unat (arm_load d)" unfolding l using t by simp
    show "256 * unat (arm_load d) < 250 * unat d + 256" if "d \<noteq> 0"
    proof -
      have "unat d \<noteq> 0" using that by (simp add: unat_eq_0)
      then show ?thesis unfolding l using t by simp
    qed }
  assume "d > TIM_ARM_TIMER_MAX_DELTA_US"
  then have l: "unat d > 8589933" using up by (simp add: not_le [symmetric])
  then have "?t \<ge> 0x7fffff" using t by linarith
  then show "unat (arm_load d) = 0x7fffff" using l by (simp add: unat_arm_load min_def)
qed

theorem tim_arm_usec_correct_witness:
  "\<exists>L. EvWr (Dev TIM_LOAD) L \<in> set (hw_log (TIM_Arm_Usec 1000 reset_hw)) \<and> unat L = 977"
proof -
  obtain L where e: "TIM_Arm_Usec 1000 reset_hw = reset_hw\<lparr>hw_log := hw_log reset_hw @
       [EvWr (Dev IRQ_DISABLE_BASIC) 1, EvWr (Dev TIM_CTRL) 0, EvWr (Dev TIM_IRQ_CLR) 1,
        EvWr (Dev TIM_PREDIVIDER) 0, EvWr (Dev TIM_RELOAD) 0, EvWr (Dev TIM_LOAD) L,
        EvWr (Dev TIM_CTRL) 0xAA, EvWr (Dev IRQ_ENABLE_BASIC) 1]\<rparr>"
    and l: "250 * unat (1000 :: u32) \<le> 256 * unat L" "256 * unat L < 250 * unat (1000 :: u32) + 256"
    using tim_arm_usec_correct [of 1000 reset_hw] by (auto simp: TIM_ARM_TIMER_MAX_DELTA_US_eq)
  from l have "unat L = 977" by simp
  with e show ?thesis by auto
qed

text \<open>A delay lasts. Whatever the counter does, \<open>TIM_SYS_Delay_Micros\<close> and
  \<open>TIM_SYS_Delay_Millis\<close> only read it, return at the first reading that is the requested distance past
  the first one modulo 2 to the 32, and do return if the counter ever shows such a value. The
  distance of the second is its argument times 1000, reduced modulo 2 to the 32.\<close>

theorem sys_delay_correct:
  "(\<exists>start t. t = length (hw_log s) \<and> start = hw_in s t (Dev TIM_SYS_CLO) \<and>
     (\<forall>s'. TIM_SYS_Delay_Micros us s = Some s' \<longrightarrow>
        (\<exists>vs. s' = s\<lparr>hw_log := hw_log s @ map (EvRd (Dev TIM_SYS_CLO)) (start # vs)\<rparr> \<and> vs \<noteq> [] \<and>
           us \<le> last vs - start \<and> (\<forall>v \<in> set (butlast vs). v - start < us))) \<and>
     ((\<exists>k > t. us \<le> hw_in s k (Dev TIM_SYS_CLO) - start) \<longrightarrow> TIM_SYS_Delay_Micros us s \<noteq> None)) \<and>
   (\<exists>w. unat w = unat ms * 1000 mod 2 ^ 32 \<and> TIM_SYS_Delay_Millis ms s = TIM_SYS_Delay_Micros w s)"
proof (intro conjI)
  let ?t = "length (hw_log s)"
  let ?start = "hw_in s ?t (Dev TIM_SYS_CLO)"
  let ?s1 = "s\<lparr>hw_log := hw_log s @ [EvRd (Dev TIM_SYS_CLO) ?start]\<rparr>"
  have d: "TIM_SYS_Delay_Micros us s = sys_delay_loop ?start us ?s1"
    by (simp add: TIM_SYS_Delay_Micros_def GET32_def read_port_def Let_def emit_def)
  have "\<exists>vs. s' = s\<lparr>hw_log := hw_log s @ map (EvRd (Dev TIM_SYS_CLO)) (?start # vs)\<rparr> \<and> vs \<noteq> [] \<and>
           us \<le> last vs - ?start \<and> (\<forall>v \<in> set (butlast vs). v - ?start < us)"
    if "TIM_SYS_Delay_Micros us s = Some s'" for s'
    using sys_delay_loop_reads [OF that [unfolded d]] by auto
  moreover have "TIM_SYS_Delay_Micros us s \<noteq> None"
    if "\<exists>k > ?t. us \<le> hw_in s k (Dev TIM_SYS_CLO) - ?start"
  proof -
    from that obtain k where "k > ?t" "us \<le> hw_in s k (Dev TIM_SYS_CLO) - ?start" by blast
    then have "\<exists>s'. sys_delay_loop ?start us ?s1 = Some s'"
      by (intro sys_delay_loop_live [where k = k]) simp_all
    then show ?thesis by (auto simp: d)
  qed
  ultimately show "\<exists>start t. t = length (hw_log s) \<and> start = hw_in s t (Dev TIM_SYS_CLO) \<and>
     (\<forall>s'. TIM_SYS_Delay_Micros us s = Some s' \<longrightarrow>
        (\<exists>vs. s' = s\<lparr>hw_log := hw_log s @ map (EvRd (Dev TIM_SYS_CLO)) (start # vs)\<rparr> \<and> vs \<noteq> [] \<and>
           us \<le> last vs - start \<and> (\<forall>v \<in> set (butlast vs). v - start < us))) \<and>
     ((\<exists>k > t. us \<le> hw_in s k (Dev TIM_SYS_CLO) - start) \<longrightarrow> TIM_SYS_Delay_Micros us s \<noteq> None)"
    by blast
  have "unat (ms * 1000) = unat ms * 1000 mod 2 ^ 32" by (simp add: unat_word_ariths)
  then show "\<exists>w. unat w = unat ms * 1000 mod 2 ^ 32 \<and> TIM_SYS_Delay_Millis ms s = TIM_SYS_Delay_Micros w s"
    by (intro exI [of _ "ms * 1000"]) (simp add: TIM_SYS_Delay_Millis_def TIM_SYS_Delay_Micros_def)
qed

definition counting_hw :: hw where
  "counting_hw = reset_hw\<lparr>hw_in := (\<lambda>n p. of_nat (100 * n))\<rparr>"

theorem sys_delay_correct_witness:
  "TIM_SYS_Delay_Micros 250 counting_hw \<noteq> None"
proof -
  have "\<exists>k > 0. 250 \<le> hw_in counting_hw k (Dev TIM_SYS_CLO) - hw_in counting_hw 0 (Dev TIM_SYS_CLO)"
    by (intro exI [of _ 3]) (simp add: counting_hw_def)
  then show ?thesis
    using sys_delay_correct [of counting_hw 250 0] by (auto simp: counting_hw_def reset_hw_def)
qed

text \<open>The generic timer's period. After \<open>GEN_TIM_init hz\<close> returned with counter frequency \<open>f\<close>, the
  period is the largest number of ticks that gives at least \<open>hz\<close> interrupts a second; if it is at
  least one, \<open>GEN_TIM_enable\<close> and \<open>GEN_TIM_rearm\<close> return after programming exactly that countdown
  and enabling the timer, and if \<open>hz\<close> is above the frequency they never return.\<close>

theorem gen_tim_period_correct:
  "GEN_TIM_init hz s = Some s1 \<Longrightarrow> \<exists>f. EvRd CNTFRQ f \<in> set (hw_log s1) \<and>
     (let p = gen_tim_period_ticks s1 in
        unat p * unat hz \<le> unat f \<and> unat f < (unat p + 1) * unat hz \<and>
        (if f < hz then GEN_TIM_enable s1 = None \<and> GEN_TIM_rearm s1 = None
         else p \<noteq> 0 \<and>
           GEN_TIM_rearm s1 = Some (s1\<lparr>hw_log := hw_log s1 @
             [EvWr CNTHP_TVAL p, EvISB, EvWr CNTHP_CTL 1, EvISB]\<rparr>) \<and>
           (\<exists>v. GEN_TIM_enable s1 = Some (s1\<lparr>hw_log := hw_log s1 @
             [EvDSB, EvRd (Dev GEN_TIM_CORE0_TIMER_IRQCNTL) v,
              EvWr (Dev GEN_TIM_CORE0_TIMER_IRQCNTL) (v OR GEN_TIM_CNTHPIRQ_BIT), EvDSB,
              EvWr CNTHP_TVAL p, EvISB, EvWr CNTHP_CTL 1, EvISB]\<rparr>))))"
proof -
  assume a: "GEN_TIM_init hz s = Some s1"
  obtain f s2 where r: "read_cntfrq (init_local_counter_frequency s) = (f, s2)" by fastforce
  have hz: "hz \<noteq> 0" using a by (auto simp: GEN_TIM_init_def hv_assert_def split: if_splits)
  have s1: "s1 = disable_local_cnthp_irq (write_cnthp_ctl GEN_TIM_CTL_IMASK
      (s2\<lparr>gen_tim_period_ticks := f div hz\<rparr>))"
    using a r hz by (auto simp: GEN_TIM_init_def hv_assert_def split: if_splits)
  have p: "gen_tim_period_ticks s1 = f div hz" and ev: "EvRd CNTFRQ f \<in> set (hw_log s1)"
    using r by (auto simp: s1 disable_local_cnthp_irq_def write_cnthp_ctl_def read_cntfrq_def dev_defs)
  have q: "unat (f div hz) = unat f div unat hz" by (simp add: unat_div)
  have hz': "0 < unat hz" using hz by (simp add: unat_gt_0)
  have b: "unat (f div hz) * unat hz \<le> unat f" "unat f < (unat (f div hz) + 1) * unat hz"
    using dividend_less_div_times [OF hz', of "unat f"] by (simp_all add: q)
  have lt: "f < hz \<longleftrightarrow> f div hz = 0"
    using hz' by (simp add: unat_eq_0 [symmetric] q word_less_nat_alt div_eq_0_iff)
  show ?thesis
  proof (intro exI [of _ f] conjI)
    show "let p = gen_tim_period_ticks s1 in
        unat p * unat hz \<le> unat f \<and> unat f < (unat p + 1) * unat hz \<and>
        (if f < hz then GEN_TIM_enable s1 = None \<and> GEN_TIM_rearm s1 = None
         else p \<noteq> 0 \<and>
           GEN_TIM_rearm s1 = Some (s1\<lparr>hw_log := hw_log s1 @
             [EvWr CNTHP_TVAL p, EvISB, EvWr CNTHP_CTL 1, EvISB]\<rparr>) \<and>
           (\<exists>v. GEN_TIM_enable s1 = Some (s1\<lparr>hw_log := hw_log s1 @
             [EvDSB, EvRd (Dev GEN_TIM_CORE0_TIMER_IRQCNTL) v,
              EvWr (Dev GEN_TIM_CORE0_TIMER_IRQCNTL) (v OR GEN_TIM_CNTHPIRQ_BIT), EvDSB,
              EvWr CNTHP_TVAL p, EvISB, EvWr CNTHP_CTL 1, EvISB]\<rparr>)))"
      unfolding p Let_def using b lt
      by (auto simp: GEN_TIM_enable_def GEN_TIM_rearm_def p hv_assert_def enable_local_cnthp_irq_def
          write_cnthp_ctl_def write_cnthp_tval_def dev_defs)
  qed (rule ev)
qed

definition reset_timer_hw :: timer_hw where
  "reset_timer_hw = \<lparr>hcr = 0, vbar = 0, vtcr = 0, vttbr = 0, cpsr = CPSR_PEMODE_HYP,
     banked = zero_HypBankedRegs, hw_log = [], hw_in = (\<lambda>_ _. 1000), stage2_tables = (\<lambda>_. 0),
     gen_tim_period_ticks = 0\<rparr>"

theorem gen_tim_period_correct_witness:
  "\<exists>s1. GEN_TIM_init 10 reset_timer_hw = Some s1 \<and> gen_tim_period_ticks s1 = 100 \<and>
     GEN_TIM_rearm s1 \<noteq> None"
proof -
  obtain s1 where i: "GEN_TIM_init 10 reset_timer_hw = Some s1" and p: "gen_tim_period_ticks s1 = 100"
    by (simp add: GEN_TIM_init_def hv_assert_def init_local_counter_frequency_def read_cntfrq_def
        disable_local_cnthp_irq_def write_cnthp_ctl_def dev_defs reset_timer_hw_def)
  have "GEN_TIM_rearm s1 \<noteq> None"
    using gen_tim_period_correct [OF i] unfolding Let_def p
    by (elim exE conjE) (simp add: word_less_nat_alt split: if_splits)
  with i p show ?thesis by blast
qed

end
