(* ===== verification/Vm.thy ===== *)
theory Vm
  imports Stage2_Spec
begin

section \<open>Building a VM's address space: vm.c\<close>

text \<open>
  \<open>hv_vm_init\<close> and \<open>hv_vm_build_stage2\<close> of \<open>src/hv/vm.c\<close>. The specification is
  \<open>vm_translation\<close>: the translation a region table asks for, an address of a RAM region going to the
  region's physical memory and every other address, guard pages and emulated devices included,
  being unmapped. The lemmas show that the tables a successful build leaves implement exactly that,
  that a build of a valid table can only fail for want of table pages, that even then no address
  translates to anything but what its region asks for, and when the pool of eight pages is enough.
\<close>

definition hv_vm_init ::
    "u32 \<Rightarrow> HvVm option \<Rightarrow> u32 \<Rightarrow> u32 \<Rightarrow> 'a s2hw_scheme \<Rightarrow> int \<times> HvVm option \<times> 'a s2hw_scheme" where
  "hv_vm_init tables_base vm_p i vmid s =
     (case vm_p of
        None \<Rightarrow> (HV_VM_ERR_INVAL, None, s)
      | Some vm \<Rightarrow>
          if i \<ge> of_nat HV_MAX_VMS then (HV_VM_ERR_INVAL, Some vm, s)
          else let vm = zero_HvVm;
                   vm = vm\<lparr>vm_id := i\<rparr>;
                   vm = vm\<lparr>vm_vmid := vmid\<rparr>
               in hv_stage2_init tables_base (Some vm) s)"

text \<open>The loop of \<open>hv_vm_build_stage2\<close>: \<open>n\<close> regions are left, the next one is region \<open>i\<close>.\<close>

fun hv_vm_build_loop :: "nat \<Rightarrow> nat \<Rightarrow> HvVm \<Rightarrow> 'a s2hw_scheme \<Rightarrow> int \<times> HvVm \<times> 'a s2hw_scheme" where
  "hv_vm_build_loop 0 i vm s = (HV_VM_OK, vm, s)"
| "hv_vm_build_loop (Suc n) i vm s =
     (let region = vm_regions vm ! i
      in if region_type region \<noteq> HV_VM_REGION_RAM then hv_vm_build_loop n (Suc i) vm s
         else case hv_stage2_map_region (Some vm) (ipa_base region) (pa_base region)
                     (region_size region) (attrs region) s of
                (res, vm_p, s) \<Rightarrow>
                  let vm = (case vm_p of None \<Rightarrow> vm | Some vm \<Rightarrow> vm)
                  in if res \<noteq> HV_STAGE2_OK then (res, vm, s)
                     else hv_vm_build_loop n (Suc i) vm s)"

definition hv_vm_build_stage2 :: "HvVm option \<Rightarrow> 'a s2hw_scheme \<Rightarrow> int \<times> HvVm option \<times> 'a s2hw_scheme" where
  "hv_vm_build_stage2 vm_p s =
     (case vm_p of
        None \<Rightarrow> (HV_VM_ERR_INVAL, None, s)
      | Some vm \<Rightarrow>
          (case hv_vm_build_loop (unat (region_count vm)) 0 vm s of
             (res, vm, s) \<Rightarrow> (res, Some vm, s)))"

lemma hv_vm_null [null_simps]:
  "hv_vm_init base None i j s = (HV_VM_ERR_INVAL, None, s)"
  "hv_vm_build_stage2 None s = (HV_VM_ERR_INVAL, None, s)"
  by (simp_all add: hv_vm_init_def hv_vm_build_stage2_def)

subsection \<open>The translation a region table asks for\<close>

definition vm_translation :: "HvVmRegion list \<Rightarrow> u64 \<Rightarrow> int + u64" where
  "vm_translation rs b =
     (case find (\<lambda>r. hv_vm_region_contains (Some r) b) rs of
        None \<Rightarrow> Inl HV_STAGE2_ERR_UNMAPPED
      | Some r \<Rightarrow>
          if region_type r = HV_VM_REGION_RAM then Inr (pa_base r + (b - ipa_base r))
          else Inl HV_STAGE2_ERR_UNMAPPED)"

lemma find_append_single:
  "find P (xs @ [y]) = (case find P xs of None \<Rightarrow> if P y then Some y else None | Some x \<Rightarrow> Some x)"
  by (induction xs) auto

lemma vm_translation_snoc:
  assumes "\<And>x. x \<in> set rs \<Longrightarrow> regions_disjoint x r"
  shows "vm_translation (rs @ [r]) b =
    (if region_lo r \<le> unat b \<and> unat b < region_hi r
     then if region_type r = HV_VM_REGION_RAM then Inr (pa_base r + (b - ipa_base r))
          else Inl HV_STAGE2_ERR_UNMAPPED
     else vm_translation rs b)"
    "region_lo r \<le> unat b \<and> unat b < region_hi r \<Longrightarrow> vm_translation rs b = Inl HV_STAGE2_ERR_UNMAPPED"
proof -
  have none: "find (\<lambda>r. hv_vm_region_contains (Some r) b) rs = None"
    if "region_lo r \<le> unat b \<and> unat b < region_hi r"
    unfolding find_None_iff using that assms
    by (fastforce simp: hv_vm_region_contains_iff regions_disjoint_def)
  show "vm_translation (rs @ [r]) b =
    (if region_lo r \<le> unat b \<and> unat b < region_hi r
     then if region_type r = HV_VM_REGION_RAM then Inr (pa_base r + (b - ipa_base r))
          else Inl HV_STAGE2_ERR_UNMAPPED
     else vm_translation rs b)"
    using none
    by (auto simp: vm_translation_def find_append_single hv_vm_region_contains_iff split: option.split)
  show "vm_translation rs b = Inl HV_STAGE2_ERR_UNMAPPED"
    if "region_lo r \<le> unat b \<and> unat b < region_hi r"
    using none [OF that] by (simp add: vm_translation_def)
qed

lemma vm_translation_prefix:
  "vm_translation xs b = vm_translation (xs @ ys) b \<or> vm_translation xs b = Inl HV_STAGE2_ERR_UNMAPPED"
proof (cases "find (\<lambda>r. hv_vm_region_contains (Some r) b) xs")
  case None
  then show ?thesis by (simp add: vm_translation_def)
next
  case (Some r)
  then have "find (\<lambda>r. hv_vm_region_contains (Some r) b) (xs @ ys) = Some r"
    by (induction xs) (auto split: if_splits)
  with Some show ?thesis by (simp add: vm_translation_def)
qed

lemma vm_translation_find:
  "vm_translation (active_regions vm) b =
     (case hv_vm_find_region (Some vm) b of
        None \<Rightarrow> Inl HV_STAGE2_ERR_UNMAPPED
      | Some r \<Rightarrow>
          if region_type r = HV_VM_REGION_RAM then Inr (pa_base r + (b - ipa_base r))
          else Inl HV_STAGE2_ERR_UNMAPPED)"
  by (simp add: vm_translation_def hv_vm_find_region_def)

text \<open>What the tables translate, over the whole 32-bit input space.\<close>

definition translates :: "HvVm \<Rightarrow> (nat \<Rightarrow> u64) \<Rightarrow> (u64 \<Rightarrow> int + u64) \<Rightarrow> bool" where
  "translates vm tm f \<longleftrightarrow>
     (\<forall>b. unat b < 2 ^ 32 \<longrightarrow> hv_stage2_translate (Some vm) b True tm = f b)"

definition one_block :: "HvVmRegion \<Rightarrow> bool" where
  "one_block r \<longleftrightarrow> region_lo r div 2 ^ 21 = (region_hi r - 1) div 2 ^ 21"

lemma one_block_same:
  assumes "one_block r" "region_lo r \<le> unat b" "unat b < region_hi r"
  shows "same_block (ipa_base r) b"
proof -
  have "region_lo r div 2 ^ 21 \<le> unat b div 2 ^ 21" "unat b div 2 ^ 21 \<le> (region_hi r - 1) div 2 ^ 21"
    using assms(2,3) by (intro div_le_mono; simp)+
  then show ?thesis
    using assms(1) unfolding one_block_def same_block_def region_lo_def by simp
qed

definition ram_regions :: "HvVmRegion list \<Rightarrow> HvVmRegion list" where
  "ram_regions rs = filter (\<lambda>r. region_type r = HV_VM_REGION_RAM) rs"

text \<open>Each RAM region inside a 2 MB block, and two table pages for each of them.\<close>

definition tables_suffice :: "HvVm \<Rightarrow> HvVmRegion list \<Rightarrow> bool" where
  "tables_suffice vm rs \<longleftrightarrow> list_all one_block (ram_regions rs) \<and>
     unat (pool_used (stage2 vm)) + 2 * length (ram_regions rs) \<le> 8"

subsection \<open>The build\<close>

lemma region_map_args:
  assumes ok: "region_table_ok vm" and r: "r \<in> set (active_regions vm)"
    and ram: "region_type r = HV_VM_REGION_RAM"
  shows "map_args_ok vm (ipa_base r) (pa_base r) (region_size r)"
proof -
  have val: "hv_vm_region_valid (Some r)" using ok r by (simp add: region_table_ok_def)
  note B = region_valid_bounds [OF val]
  have "hv_vm_find_region (Some vm) (ipa_base r) = Some r"
    using find_region_unique [OF ok r] B(1) by (simp add: region_lo_def)
  moreover have "mapping_in_region r (ipa_base r) (pa_base r) (region_size r)"
    using val ram by (simp add: mapping_in_region_def region_lo_def region_hi_def region_valid_iff)
  ultimately show ?thesis
    using val ram by (auto simp: map_args_ok_def region_valid_iff region_lo_def region_hi_def)
qed

lemma build_loop_spec:
  assumes "region_table_ok vm" "vm_tables_ok vm (stage2_tables s)"
    "i + n = length (active_regions vm)"
    "translates vm (stage2_tables s) (vm_translation (take i (active_regions vm)))"
    "hv_vm_build_loop n i vm s = (res, v, s')"
  shows "v = vm\<lparr>stage2 := stage2 v\<rparr> \<and> vm_tables_ok v (stage2_tables s') \<and>
    s2_frame (stage2 vm) (stage2_tables s) (stage2 v) (stage2_tables s') \<and>
    (res = HV_VM_OK \<or> res = HV_STAGE2_ERR_NO_TABLES) \<and>
    (res = HV_VM_OK \<longrightarrow> translates v (stage2_tables s') (vm_translation (active_regions vm))) \<and>
    (\<forall>b. unat b < 2 ^ 32 \<longrightarrow>
       hv_stage2_translate (Some v) b True (stage2_tables s') = vm_translation (active_regions vm) b \<or>
       hv_stage2_translate (Some v) b True (stage2_tables s') = Inl HV_STAGE2_ERR_UNMAPPED) \<and>
    (tables_suffice vm (drop i (active_regions vm)) \<longrightarrow> res = HV_VM_OK)"
  using assms
proof (induction n arbitrary: i vm s)
  case 0
  then show ?case by (auto simp: translates_def)
next
  case (Suc n)
  let ?rs = "active_regions vm" and ?t = "stage2_tables s"
  let ?r = "?rs ! i"
  have i: "i < length ?rs" using Suc.prems(3) by simp
  have ri: "vm_regions vm ! i = ?r" using i by (simp add: active_regions_def)
  have rin: "?r \<in> set ?rs" using i by simp
  have sw: "sorted_wrt regions_disjoint ?rs" using Suc.prems(1) by (simp add: region_table_ok_def)
  have split: "take (Suc i) ?rs = take i ?rs @ [?r]" "drop i ?rs = ?r # drop (Suc i) ?rs"
    using i by (simp_all add: take_Suc_conv_app_nth Cons_nth_drop_Suc)
  have disj: "regions_disjoint x ?r" if "x \<in> set (take i ?rs)" for x
  proof -
    from that obtain j where "j < i" "x = ?rs ! j" using i by (auto simp: in_set_conv_nth)
    then show ?thesis using sw i by (simp add: sorted_wrt_iff_nth_less)
  qed
  note T = vm_translation_snoc [of "take i ?rs" ?r, OF disj, folded split(1)]
  note old = Suc.prems(4) [unfolded translates_def, rule_format]
  show ?case
  proof (cases "region_type ?r = HV_VM_REGION_RAM")
    case False
    then have l: "hv_vm_build_loop n (Suc i) vm s = (res, v, s')" using Suc.prems(5) by (simp add: ri)
    have "vm_translation (take (Suc i) ?rs) b = vm_translation (take i ?rs) b" for b
      using T [of b] False by auto
    then have "translates vm ?t (vm_translation (take (Suc i) ?rs))"
      using old by (simp add: translates_def)
    from Suc.IH [OF Suc.prems(1,2) _ this l] Suc.prems(3) False show ?thesis
      by (simp add: split(2) tables_suffice_def ram_regions_def)
  next
    case ram: True
    obtain r1 vp s1 where m: "hv_stage2_map_region (Some vm) (ipa_base ?r) (pa_base ?r)
        (region_size ?r) (attrs ?r) s = (r1, vp, s1)" by (metis prod_cases3)
    note args = region_map_args [OF Suc.prems(1) rin ram]
    note C = map_region_codes [OF Suc.prems(2) args m]
    from map_region_spec [OF Suc.prems(2) m]
    obtain v1 k where v1: "vp = Some v1" "v1 = vm\<lparr>stage2 := stage2 v1\<rparr>"
        "vm_tables_ok v1 (stage2_tables s1)"
        "s2_frame (stage2 vm) ?t (stage2 v1) (stage2_tables s1)"
        "r1 = HV_STAGE2_OK \<Longrightarrow> k * 4096 = unat (region_size ?r)"
        "r1 \<noteq> HV_STAGE2_OK \<Longrightarrow> k = 0 \<or> k * 4096 < unat (region_size ?r)"
      and tr: "\<And>b. hv_stage2_translate (Some v1) b True (stage2_tables s1) =
         (if in_pages (region_lo ?r) k b then Inr (pa_base ?r + (b - ipa_base ?r))
          else hv_stage2_translate (Some vm) b True ?t)"
      unfolding region_lo_def by metis
    have act: "active_regions v1 = ?rs" "region_table_ok v1"
      using v1(2) Suc.prems(1) by (metis active_regions_stage2)+
    have hi: "region_hi ?r = region_lo ?r + unat (region_size ?r)"
      by (simp add: region_hi_def region_lo_def)
    have small: "unat b < 2 ^ 32" if "unat b < region_hi ?r" for b
      using that region_valid_bounds(2) [of ?r] Suc.prems(1) rin by (auto simp: region_table_ok_def)
    have free: "hv_stage2_translate (Some vm) b True ?t = Inl HV_STAGE2_ERR_UNMAPPED"
      if "region_lo ?r \<le> unat b" "unat b < region_hi ?r" for b
      using T(2) [of b] old [of b] small [of b] that by simp
    have r1: "r1 = HV_STAGE2_OK \<or> r1 = HV_STAGE2_ERR_NO_TABLES"
      using C(1,2) free unfolding hi region_lo_def by fastforce
    show ?thesis
    proof (cases "r1 = HV_STAGE2_OK")
      case False
      then have e: "res = r1" "v = v1" "s' = s1" using Suc.prems(5) m v1(1) ram by (simp_all add: ri)
      have "hv_stage2_translate (Some v1) b True (stage2_tables s1) = vm_translation ?rs b \<or>
          hv_stage2_translate (Some v1) b True (stage2_tables s1) = Inl HV_STAGE2_ERR_UNMAPPED"
        if b: "unat b < 2 ^ 32" for b
      proof (cases "in_pages (region_lo ?r) k b")
        case True
        then have "region_lo ?r \<le> unat b" "unat b < region_hi ?r"
          using v1(6) [OF False] unfolding in_pages_def hi by auto
        then have "vm_translation (take (Suc i) ?rs) b = Inr (pa_base ?r + (b - ipa_base ?r))"
          using T(1) [of b] ram by simp
        then show ?thesis
          using vm_translation_prefix [of "take (Suc i) ?rs" b "drop (Suc i) ?rs"] tr [of b] True by simp
      next
        case False
        then show ?thesis
          using vm_translation_prefix [of "take i ?rs" b "drop i ?rs"] tr [of b] old [OF b] by simp
      qed
      moreover have "\<not> tables_suffice vm (drop i ?rs)"
      proof
        assume "tables_suffice vm (drop i ?rs)"
        then have "one_block ?r" "unat (pool_used (stage2 vm)) \<le> 6"
          using ram by (simp_all add: tables_suffice_def split(2) ram_regions_def)
        then have "r1 \<noteq> HV_STAGE2_ERR_NO_TABLES"
          using C(4) one_block_same [of ?r] by (simp add: region_lo_def region_hi_def)
        with r1 False show False by simp
      qed
      ultimately show ?thesis using e v1 r1 False by auto
    next
      case True
      then have l: "hv_vm_build_loop n (Suc i) v1 s1 = (res, v, s')"
        using Suc.prems(5) m v1(1) ram by (simp add: ri)
      have ip: "in_pages (region_lo ?r) k b \<longleftrightarrow> region_lo ?r \<le> unat b \<and> unat b < region_hi ?r" for b
        using v1(5) [OF True] unfolding in_pages_def hi by simp
      have "translates v1 (stage2_tables s1) (vm_translation (take (Suc i) (active_regions v1)))"
        unfolding translates_def act
        using tr T(1) old ram by (simp add: ip)
      from Suc.IH [OF act(2) v1(3) _ this l] Suc.prems(3)
      have IH: "v = v1\<lparr>stage2 := stage2 v\<rparr> \<and> vm_tables_ok v (stage2_tables s') \<and>
        s2_frame (stage2 v1) (stage2_tables s1) (stage2 v) (stage2_tables s') \<and>
        (res = HV_VM_OK \<or> res = HV_STAGE2_ERR_NO_TABLES) \<and>
        (res = HV_VM_OK \<longrightarrow> translates v (stage2_tables s') (vm_translation ?rs)) \<and>
        (\<forall>b. unat b < 2 ^ 32 \<longrightarrow>
           hv_stage2_translate (Some v) b True (stage2_tables s') = vm_translation ?rs b \<or>
           hv_stage2_translate (Some v) b True (stage2_tables s') = Inl HV_STAGE2_ERR_UNMAPPED) \<and>
        (tables_suffice v1 (drop (Suc i) ?rs) \<longrightarrow> res = HV_VM_OK)" by (simp add: act)
      have "tables_suffice v1 (drop (Suc i) ?rs)" if "tables_suffice vm (drop i ?rs)"
      proof -
        from that have "one_block ?r" "unat (pool_used (stage2 vm)) \<le> 6"
          using ram by (simp_all add: tables_suffice_def split(2) ram_regions_def)
        then have "unat (pool_used (stage2 v1)) \<le> unat (pool_used (stage2 vm)) + 2"
          using C(4) one_block_same [of ?r] True v1(1) by (simp add: region_lo_def region_hi_def)
        with that ram show ?thesis by (simp add: tables_suffice_def split(2) ram_regions_def)
      qed
      moreover have "v = vm\<lparr>stage2 := stage2 v\<rparr>" using IH v1(2)
        by (metis HvVm.update_convs(5) HvVm.surjective)
      ultimately show ?thesis using IH v1(4) s2_frame_trans by blast
    qed
  qed
qed

lemma build_stage2_spec:
  assumes "region_table_ok vm" "vm_tables_ok vm (stage2_tables s)"
    and empty: "\<And>b. unat b < 2 ^ 32 \<Longrightarrow>
      hv_stage2_translate (Some vm) b True (stage2_tables s) = Inl HV_STAGE2_ERR_UNMAPPED"
    and b: "hv_vm_build_stage2 (Some vm) s = (res, vm', s')"
  obtains v where "vm' = Some v" "v = vm\<lparr>stage2 := stage2 v\<rparr>" "active_regions v = active_regions vm"
    "region_table_ok v" "vm_tables_ok v (stage2_tables s')"
    "s2_frame (stage2 vm) (stage2_tables s) (stage2 v) (stage2_tables s')"
    "res = HV_VM_OK \<or> res = HV_STAGE2_ERR_NO_TABLES"
    "res = HV_VM_OK \<Longrightarrow> translates v (stage2_tables s') (vm_translation (active_regions vm))"
    "\<And>b. unat b < 2 ^ 32 \<Longrightarrow>
       hv_stage2_translate (Some v) b True (stage2_tables s') = vm_translation (active_regions vm) b \<or>
       hv_stage2_translate (Some v) b True (stage2_tables s') = Inl HV_STAGE2_ERR_UNMAPPED"
    "tables_suffice vm (active_regions vm) \<Longrightarrow> res = HV_VM_OK"
proof -
  obtain v where l: "hv_vm_build_loop (unat (region_count vm)) 0 vm s = (res, v, s')" "vm' = Some v"
    using b by (auto simp: hv_vm_build_stage2_def split: prod.splits)
  have n: "0 + unat (region_count vm) = length (active_regions vm)"
    using length_active_regions [OF assms(1)] by simp
  have t: "translates vm (stage2_tables s) (vm_translation (take 0 (active_regions vm)))"
    using empty by (simp add: translates_def vm_translation_def)
  from build_loop_spec [OF assms(1,2) n t l(1)] have B: "v = vm\<lparr>stage2 := stage2 v\<rparr>"
    "vm_tables_ok v (stage2_tables s')"
    "s2_frame (stage2 vm) (stage2_tables s) (stage2 v) (stage2_tables s')"
    "res = HV_VM_OK \<or> res = HV_STAGE2_ERR_NO_TABLES"
    "res = HV_VM_OK \<longrightarrow> translates v (stage2_tables s') (vm_translation (active_regions vm))"
    "\<forall>b. unat b < 2 ^ 32 \<longrightarrow>
       hv_stage2_translate (Some v) b True (stage2_tables s') = vm_translation (active_regions vm) b \<or>
       hv_stage2_translate (Some v) b True (stage2_tables s') = Inl HV_STAGE2_ERR_UNMAPPED"
    "tables_suffice vm (active_regions vm) \<longrightarrow> res = HV_VM_OK" unfolding drop_0 by blast+
  have a: "active_regions v = active_regions vm" "region_table_ok v"
    using B(1) assms(1) by (metis active_regions_stage2)+
  show thesis by (rule that [OF l(2) B(1) a B(2,3,4)]) (use B(5-7) in blast)+
qed

lemma hv_vm_init_eq:
  assumes "unat i < HV_MAX_VMS"
  shows "hv_vm_init base (Some vm) i vmid s =
    hv_stage2_init base (Some (zero_HvVm\<lparr>vm_id := i, vm_vmid := vmid\<rparr>)) s"
proof -
  have "\<not> i \<ge> of_nat 2" using assms by (simp add: word_le_nat_alt)
  then show ?thesis unfolding hv_vm_init_def by (simp add: Let_def)
qed

subsection \<open>Properties\<close>

text \<open>C18: \<open>hv_vm_build_stage2\<close> implements the region table. Started on empty tables and a table of
  regions \<open>hv_vm_add_region\<close> can build, it never reports an invalid or already mapped range: it
  succeeds or runs out of table pages, and the latter cannot happen while every RAM region lies in
  one 2 MB block and two free pages are left for each. After success an address of a RAM region
  translates to its offset in the region's physical memory, and every other address, guard and
  device regions included, is unmapped. After a failure no address translates to anything else.\<close>

theorem build_stage2_correct:
  assumes "region_table_ok vm" and "vm_tables_ok vm (stage2_tables s)"
    and "\<And>b. unat b < 2 ^ 32 \<Longrightarrow>
      hv_stage2_translate (Some vm) b True (stage2_tables s) = Inl HV_STAGE2_ERR_UNMAPPED"
    and "hv_vm_build_stage2 (Some vm) s = (res, vm', s')"
  shows "(res = HV_VM_OK \<or> res = HV_STAGE2_ERR_NO_TABLES \<and> \<not> tables_suffice vm (active_regions vm)) \<and>
    (\<exists>v. vm' = Some v \<and> active_regions v = active_regions vm \<and> vm_tables_ok v (stage2_tables s') \<and>
      (\<forall>b. unat b < 2 ^ 32 \<longrightarrow>
        hv_stage2_translate (Some v) b True (stage2_tables s') =
          (case hv_vm_find_region (Some vm) b of
             None \<Rightarrow> Inl HV_STAGE2_ERR_UNMAPPED
           | Some r \<Rightarrow>
               if region_type r = HV_VM_REGION_RAM then Inr (pa_base r + (b - ipa_base r))
               else Inl HV_STAGE2_ERR_UNMAPPED) \<or>
        res \<noteq> HV_VM_OK \<and>
        hv_stage2_translate (Some v) b True (stage2_tables s') = Inl HV_STAGE2_ERR_UNMAPPED))"
proof (rule build_stage2_spec [OF assms(1,2,3,4)], assumption)
  fix v
  assume "vm' = Some v" "v = vm\<lparr>stage2 := stage2 v\<rparr>" "active_regions v = active_regions vm"
    "vm_tables_ok v (stage2_tables s')"
    and r: "res = HV_VM_OK \<or> res = HV_STAGE2_ERR_NO_TABLES"
    "res = HV_VM_OK \<Longrightarrow> translates v (stage2_tables s') (vm_translation (active_regions vm))"
    "\<And>b. unat b < 2 ^ 32 \<Longrightarrow>
       hv_stage2_translate (Some v) b True (stage2_tables s') = vm_translation (active_regions vm) b \<or>
       hv_stage2_translate (Some v) b True (stage2_tables s') = Inl HV_STAGE2_ERR_UNMAPPED"
    "tables_suffice vm (active_regions vm) \<Longrightarrow> res = HV_VM_OK"
  then show ?thesis
    unfolding vm_translation_find [symmetric] translates_def by (intro conjI exI [of _ v]) auto
qed

theorem build_stage2_correct_witness:
  "\<exists>v s'. hv_vm_build_stage2 (Some example_vm0) reset_s2hw = (HV_VM_OK, Some v, s') \<and>
     hv_stage2_translate (Some v) 0x2e123 True (stage2_tables s') = Inr 0x3e123 \<and>
     hv_stage2_translate (Some v) 0x2f000 True (stage2_tables s') = Inl HV_STAGE2_ERR_UNMAPPED"
proof -
  obtain r vm' s' where b: "hv_vm_build_stage2 (Some example_vm0) reset_s2hw = (r, vm', s')"
    by (metis prod_cases3)
  have "tables_suffice example_vm0 (active_regions example_vm0)"
    by (simp add: tables_suffice_def example_vms ram_regions_def example_region_def one_block_def
        region_lo_def region_hi_def init_stage2_def Let_def)
  moreover have "hv_vm_find_region (Some example_vm0) 0x2e123 = Some example_region"
    by (rule find_region_unique)
       (simp_all add: example_vms region_lo_def region_hi_def example_region_def)
  moreover have "hv_vm_find_region (Some example_vm0) 0x2f000 = None"
    unfolding find_region_None
    by (simp add: example_vms region_lo_def region_hi_def example_region_def)
  ultimately show ?thesis
    using build_stage2_correct [OF example_vms(2,1,8) b] b
    by (auto simp: example_region_def dest: spec [of _ "0x2e123"] spec [of _ "0x2f000"])
qed

end
