(* ===== verification/Vcpu.thy ===== *)
theory Vcpu
  imports Vm
begin

section \<open>Virtual CPUs: vcpu.h, vcpu.c, mmu.c and the guest entry of hyp-enter-vcpu.S\<close>

text \<open>
  The per-guest execution context and its operations: initialisation, blocking and waking, the
  virtual timer, and the halves of a context switch. A \<open>HvVcpu *\<close> that may be null is an option, and
  \<open>vcpu->vm\<close> an index into the scheduler's VM array. \<open>hv_vcpu_timer_advance\<close> is a do-while on 64-bit
  arithmetic that wraps, so it may not end: it is a \<open>partial_function\<close> over \<open>option\<close>.

  The lemmas give the closed form of the timer advance and the condition under which it returns,
  the state machine of blocking and waking, and that loading a saved context restores it.
\<close>

datatype HvVcpuState =
  HV_VCPU_IDLE | HV_VCPU_RUNNABLE | HV_VCPU_RUNNING | HV_VCPU_BLOCKED | HV_VCPU_EXITED

record HvGuestSysRegs =
  gs_sctlr :: u32
  gs_ttbr0 :: u64
  gs_ttbr1 :: u64
  gs_ttbcr :: u32
  gs_dacr :: u32
  gs_vbar :: u32

record HvVcpuContext =
  ctx_hyp_state :: HypExceptState
  ctx_banked_regs :: HypBankedRegs
  ctx_vbar :: u32
  ctx_sys_regs :: HvGuestSysRegs

record HvVcpuTimer =
  tm_enabled :: bool
  tm_deadline :: u64
  tm_period :: u64

record HvVcpu =
  vcpu_id :: u32
  vcpu_vm :: "nat option"
  vcpu_state :: HvVcpuState
  vcpu_context :: HvVcpuContext
  virq_pending :: u32
  virq_active :: u32
  vcpu_timer :: HvVcpuTimer

text \<open>All bytes zero, as the word loop of \<open>hv_vcpu_init\<close> and the C startup leave a vCPU.\<close>

definition zero_HvVcpu :: HvVcpu where
  "zero_HvVcpu = \<lparr>vcpu_id = 0, vcpu_vm = None, vcpu_state = HV_VCPU_IDLE,
     vcpu_context = \<lparr>ctx_hyp_state = zero_HypExceptState, ctx_banked_regs = zero_HypBankedRegs,
       ctx_vbar = 0, ctx_sys_regs = \<lparr>gs_sctlr = 0, gs_ttbr0 = 0, gs_ttbr1 = 0, gs_ttbcr = 0,
         gs_dacr = 0, gs_vbar = 0\<rparr>\<rparr>,
     virq_pending = 0, virq_active = 0,
     vcpu_timer = \<lparr>tm_enabled = False, tm_deadline = 0, tm_period = 0\<rparr>\<rparr>"

subsection \<open>Stage-2 activation: mmu.c\<close>

definition hv_mmu_vttbr_for_vm :: "HvVm \<Rightarrow> u64" where
  "hv_mmu_vttbr_for_vm vm =
     (let vmid = push_bit VTTBR_VMID_SHIFT (ucast (vm_vmid vm) AND VTTBR_VMID_MASK);
          baddr = root_pa (stage2 vm) AND VTTBR_BADDR_MASK
      in vmid OR baddr)"

definition hv_mmu_deactivate_stage2 :: "'a hw_scheme \<Rightarrow> 'a hw_scheme" where
  "hv_mmu_deactivate_stage2 s =
     (let s = clear_hcr_bit HCR_VM s;
          s = hyp_invalidate_stage2_tlb_all s;
          s = DSB s
      in ISB s)"

definition hv_mmu_activate_vcpu :: "HvVm list \<Rightarrow> HvVcpu option \<Rightarrow> 'a hw_scheme \<Rightarrow> 'a hw_scheme" where
  "hv_mmu_activate_vcpu vms vcpu_p s =
     (case vcpu_p of
        None \<Rightarrow> hv_mmu_deactivate_stage2 s
      | Some vcpu \<Rightarrow>
          (case vcpu_vm vcpu of
             None \<Rightarrow> hv_mmu_deactivate_stage2 s
           | Some i \<Rightarrow>
               let s = DSB s;
                   s = write_vtcr HV_STAGE2_VTCR_DEFAULT s;
                   s = write_vttbr (hv_mmu_vttbr_for_vm (vms ! i)) s;
                   s = ISB s;
                   s = hyp_invalidate_stage2_tlb_all s;
                   s = DSB s;
                   s = ISB s;
                   s = set_hcr_bit HCR_VM s
               in ISB s))"

subsection \<open>Initialisation and entry\<close>

definition hv_vcpu_init :: "HvVcpu \<Rightarrow> u32 \<Rightarrow> u32 \<Rightarrow> u32 \<Rightarrow> u32 \<Rightarrow> HvVcpu" where
  "hv_vcpu_init vcpu i entry_point stack_top psr =
     (let vm = vcpu_vm vcpu;
          vcpu = zero_HvVcpu;
          vcpu = vcpu\<lparr>vcpu_id := i\<rparr>;
          vcpu = vcpu\<lparr>vcpu_vm := vm\<rparr>;
          vcpu = vcpu\<lparr>vcpu_state := HV_VCPU_RUNNABLE\<rparr>;
          vcpu = vcpu\<lparr>virq_pending := 0\<rparr>;
          vcpu = vcpu\<lparr>virq_active := 0\<rparr>;
          f = ctx_hyp_state (vcpu_context vcpu);
          f = f\<lparr>frame_elr_hyp := entry_point\<rparr>;
          f = f\<lparr>frame_spsr_hyp := psr\<rparr>;
          f = set_reg 0 stack_top f;
          b = ctx_banked_regs (vcpu_context vcpu);
          b = b\<lparr>bk_sp_usr := stack_top\<rparr>;
          b = b\<lparr>bk_sp_svc := stack_top\<rparr>
      in vcpu\<lparr>vcpu_context := (vcpu_context vcpu)\<lparr>ctx_hyp_state := f, ctx_banked_regs := b\<rparr>\<rparr>)"

text \<open>
  What the processor runs after an \<open>eret\<close>: the program counter, the status register and the
  registers the frame supplies. \<open>hyp_enter_vcpu_context\<close> loads the banked registers, then
  \<open>elr_hyp\<close>, \<open>spsr_hyp\<close>, \<open>lr\<close> and \<open>r0\<close> to \<open>r12\<close> from the frame.
\<close>

record guest_entry =
  ge_pc :: u32
  ge_cpsr :: u32
  ge_r :: "u32 list"
  ge_lr :: u32

definition eret_frame :: "HypExceptState \<Rightarrow> guest_entry" where
  "eret_frame f = \<lparr>ge_pc = frame_elr_hyp f, ge_cpsr = frame_spsr_hyp f, ge_r = frame_r f,
     ge_lr = frame_lr f\<rparr>"

definition hyp_enter_vcpu_context ::
    "HypExceptState \<Rightarrow> HypBankedRegs \<Rightarrow> 'a hw_scheme \<Rightarrow> guest_entry \<times> 'a hw_scheme" where
  "hyp_enter_vcpu_context f b s = (eret_frame f, hyp_load_banked_regs b s)"

definition hv_vcpu_enter_initial ::
    "HvVm list \<Rightarrow> HvVcpu \<Rightarrow> 'a hw_scheme \<Rightarrow> guest_entry \<times> 'a hw_scheme" where
  "hv_vcpu_enter_initial vms vcpu s =
     (let s = hv_mmu_activate_vcpu vms (Some vcpu) s
      in hyp_enter_vcpu_context (ctx_hyp_state (vcpu_context vcpu))
           (ctx_banked_regs (vcpu_context vcpu)) s)"

subsection \<open>Blocking and the virtual timer\<close>

definition hv_vcpu_block :: "HvVcpu option \<Rightarrow> HvVcpu option" where
  "hv_vcpu_block vcpu_p = map_option (\<lambda>v. v\<lparr>vcpu_state := HV_VCPU_BLOCKED\<rparr>) vcpu_p"

definition hv_vcpu_wake :: "HvVcpu option \<Rightarrow> HvVcpu option" where
  "hv_vcpu_wake vcpu_p =
     map_option (\<lambda>v. if vcpu_state v = HV_VCPU_BLOCKED then v\<lparr>vcpu_state := HV_VCPU_RUNNABLE\<rparr> else v)
       vcpu_p"

definition hv_vcpu_timer_start_periodic :: "HvVcpu option \<Rightarrow> u64 \<Rightarrow> u64 \<Rightarrow> HvVcpu option" where
  "hv_vcpu_timer_start_periodic vcpu_p now period =
     (case vcpu_p of
        None \<Rightarrow> None
      | Some v \<Rightarrow>
          if period = 0 then Some v
          else Some (v\<lparr>vcpu_timer :=
                 \<lparr>tm_enabled = True, tm_deadline = now + period, tm_period = period\<rparr>\<rparr>))"

definition hv_vcpu_timer_disable :: "HvVcpu option \<Rightarrow> HvVcpu option" where
  "hv_vcpu_timer_disable vcpu_p =
     map_option (\<lambda>v. v\<lparr>vcpu_timer := \<lparr>tm_enabled = False, tm_deadline = 0, tm_period = 0\<rparr>\<rparr>) vcpu_p"

definition hv_vcpu_timer_expired :: "HvVcpu option \<Rightarrow> u64 \<Rightarrow> bool" where
  "hv_vcpu_timer_expired vcpu_p now =
     (case vcpu_p of
        None \<Rightarrow> False
      | Some v \<Rightarrow> tm_enabled (vcpu_timer v) \<and> now \<ge> tm_deadline (vcpu_timer v))"

text \<open>The do-while of \<open>hv_vcpu_timer_advance\<close>, from deadline \<open>d\<close>.\<close>

partial_function (option) timer_advance_loop :: "u64 \<Rightarrow> u64 \<Rightarrow> u64 \<Rightarrow> u64 option" where
  "timer_advance_loop now period d =
     (let d = d + period
      in if now \<ge> d then timer_advance_loop now period d else Some d)"

text \<open>\<open>None\<close> is a call that does not return.\<close>

definition hv_vcpu_timer_advance :: "HvVcpu option \<Rightarrow> u64 \<Rightarrow> HvVcpu option option" where
  "hv_vcpu_timer_advance vcpu_p now =
     (case vcpu_p of
        None \<Rightarrow> Some None
      | Some v \<Rightarrow>
          if \<not> tm_enabled (vcpu_timer v) then Some (Some v)
          else if tm_period (vcpu_timer v) = 0 then Some (hv_vcpu_timer_disable (Some v))
          else map_option (\<lambda>d. Some (v\<lparr>vcpu_timer := (vcpu_timer v)\<lparr>tm_deadline := d\<rparr>\<rparr>))
                 (timer_advance_loop now (tm_period (vcpu_timer v)) (tm_deadline (vcpu_timer v))))"

definition hv_vcpu_timer_delay :: "HvVcpu option \<Rightarrow> u64 \<Rightarrow> u64 \<Rightarrow> HvVcpu option" where
  "hv_vcpu_timer_delay vcpu_p now delay_ticks =
     (case vcpu_p of
        None \<Rightarrow> None
      | Some v \<Rightarrow>
          if delay_ticks = 0 then Some v
          else hv_vcpu_block (Some (v\<lparr>vcpu_timer := (vcpu_timer v)
                 \<lparr>tm_enabled := True, tm_deadline := now + delay_ticks\<rparr>\<rparr>)))"

abbreviation (input) HV_TIMER_TICKS_PER_SEC :: u32 where "HV_TIMER_TICKS_PER_SEC \<equiv> 1000000"

text \<open>The division is by the low half of the period: \<open>None\<close> when that half is zero.\<close>

definition hv_vcpu_timer_get_frequency :: "HvVcpu option \<Rightarrow> u32 option" where
  "hv_vcpu_timer_get_frequency vcpu_p =
     (case vcpu_p of
        None \<Rightarrow> Some 0
      | Some v \<Rightarrow>
          if \<not> tm_enabled (vcpu_timer v) \<or> tm_period (vcpu_timer v) = 0 then Some 0
          else let p = ucast (tm_period (vcpu_timer v)) :: u32
               in if p = 0 then None else Some (HV_TIMER_TICKS_PER_SEC div p))"

subsection \<open>Context switch\<close>

definition copy_hyp_state :: "HypExceptState \<Rightarrow> HypExceptState" where
  "copy_hyp_state src = src"

definition hv_vcpu_save :: "HvVcpu \<Rightarrow> HypExceptState \<Rightarrow> 'a hw_scheme \<Rightarrow> HvVcpu" where
  "hv_vcpu_save vcpu hyp_state s =
     (let c = vcpu_context vcpu;
          c = c\<lparr>ctx_hyp_state := copy_hyp_state hyp_state\<rparr>;
          c = c\<lparr>ctx_banked_regs := hyp_save_banked_regs s\<rparr>;
          c = c\<lparr>ctx_vbar := read_vbar s\<rparr>;
          c = c\<lparr>ctx_sys_regs := (ctx_sys_regs c)\<lparr>gs_vbar := ctx_vbar c\<rparr>\<rparr>
      in vcpu\<lparr>vcpu_context := c\<rparr>)"

definition hv_vcpu_load ::
    "HvVcpu \<Rightarrow> 'a hw_scheme \<Rightarrow> HvVcpu \<times> HypExceptState \<times> 'a hw_scheme" where
  "hv_vcpu_load vcpu s =
     (let s = hyp_load_banked_regs (ctx_banked_regs (vcpu_context vcpu)) s;
          c = vcpu_context vcpu;
          c = c\<lparr>ctx_vbar := gs_vbar (ctx_sys_regs c)\<rparr>;
          s = write_vbar (gs_vbar (ctx_sys_regs c)) s
      in (vcpu\<lparr>vcpu_context := c\<rparr>, copy_hyp_state (ctx_hyp_state c), s))"

subsection \<open>Null vCPUs\<close>

lemma vcpu_null [null_simps]:
  "hv_vcpu_block None = None" "hv_vcpu_wake None = None" "hv_vcpu_timer_disable None = None"
  "hv_vcpu_timer_start_periodic None now p = None" "\<not> hv_vcpu_timer_expired None now"
  "hv_vcpu_timer_advance None now = Some None" "hv_vcpu_timer_delay None now p = None"
  "hv_vcpu_timer_get_frequency None = Some 0"
  by (simp_all add: hv_vcpu_block_def hv_vcpu_wake_def hv_vcpu_timer_disable_def
      hv_vcpu_timer_start_periodic_def hv_vcpu_timer_expired_def hv_vcpu_timer_advance_def
      hv_vcpu_timer_delay_def hv_vcpu_timer_get_frequency_def)

lemmas vcpu_op_defs = hv_vcpu_block_def hv_vcpu_wake_def hv_vcpu_timer_disable_def
  hv_vcpu_timer_start_periodic_def hv_vcpu_timer_expired_def hv_vcpu_timer_delay_def

subsection \<open>The timer advance\<close>

lemma timer_advance_loop_gt:
  assumes "timer_advance_loop now period d = Some y"
  shows "now < y"
  by (rule timer_advance_loop.raw_induct [OF _ assms]) (auto simp: Let_def not_le split: if_splits)

lemma timer_advance_loop_closed:
  assumes p: "period \<noteq> 0" and fit: "unat now + unat period < 2 ^ 64" and d: "d \<le> now"
  shows "\<exists>d' k. timer_advance_loop now period d = Some d' \<and> unat d' = unat d + k * unat period \<and>
    unat now < unat d' \<and> unat d' \<le> unat now + unat period"
  using d
proof (induction "unat now - unat d" arbitrary: d rule: less_induct)
  case less
  have le: "unat d \<le> unat now" using less.prems by (simp add: word_le_nat_alt)
  have u: "unat (d + period) = unat d + unat period" using le fit by (simp add: unat_add_no_wrap)
  have pos: "0 < unat period" using p by (simp add: unat_gt_0)
  show ?case
  proof (cases "now \<ge> d + period")
    case False
    then have "timer_advance_loop now period d = Some (d + period)"
      by (subst timer_advance_loop.simps) simp
    with False u le show ?thesis
      by (intro exI [of _ "d + period"] exI [of _ 1]) (simp add: word_le_nat_alt)
  next
    case True
    then have le2: "unat d + unat period \<le> unat now" by (simp add: word_le_nat_alt u)
    have "unat now - unat (d + period) < unat now - unat d" using u pos le2 by simp
    from less.hyps [OF this True] obtain d' k where
      "timer_advance_loop now period (d + period) = Some d'"
      "unat d' = unat (d + period) + k * unat period" "unat now < unat d'"
      "unat d' \<le> unat now + unat period" by blast
    moreover from True have "timer_advance_loop now period d = timer_advance_loop now period (d + period)"
      by (subst timer_advance_loop.simps) simp
    ultimately show ?thesis by (intro exI [of _ d'] exI [of _ "Suc k"]) (simp add: u)
  qed
qed

subsection \<open>The table base register\<close>

lemma vttbr_fields:
  fixes x b :: u64
  shows "(push_bit 48 (x AND VTTBR_VMID_MASK) OR (b AND VTTBR_BADDR_MASK)) AND VTTBR_BADDR_MASK =
      b AND VTTBR_BADDR_MASK"
    and "drop_bit 48 (push_bit 48 (x AND VTTBR_VMID_MASK) OR (b AND VTTBR_BADDR_MASK)) =
      x AND VTTBR_VMID_MASK"
proof -
  have m: "VTTBR_BADDR_MASK = NOT (mask 12) AND mask 40" "VTTBR_VMID_MASK = mask 8"
    by (simp_all add: mask_eq_exp_minus_1)
  show "(push_bit 48 (x AND VTTBR_VMID_MASK) OR (b AND VTTBR_BADDR_MASK)) AND VTTBR_BADDR_MASK =
      b AND VTTBR_BADDR_MASK"
    unfolding m by (rule bit_word_eqI) (auto simp: bit_simps)
  show "drop_bit 48 (push_bit 48 (x AND VTTBR_VMID_MASK) OR (b AND VTTBR_BADDR_MASK)) =
      x AND VTTBR_VMID_MASK"
    unfolding m by (rule bit_word_eqI) (auto simp: bit_simps)
qed

lemma vttbr_for_vm:
  assumes "s2_static (stage2 vm)"
  shows "hv_mmu_vttbr_for_vm vm AND VTTBR_BADDR_MASK = root_pa (stage2 vm)"
    "unat (hv_mmu_vttbr_for_vm vm) div 2 ^ 48 = unat (vm_vmid vm) mod 2 ^ 8"
proof -
  have "root_pa (stage2 vm) AND VTTBR_BADDR_MASK = root_pa (stage2 vm)"
    using assms by (intro addr_mask_id) (auto simp: s2_static_def)
  then show "hv_mmu_vttbr_for_vm vm AND VTTBR_BADDR_MASK = root_pa (stage2 vm)"
    unfolding hv_mmu_vttbr_for_vm_def Let_def vttbr_fields(1) .
  have "drop_bit 48 (hv_mmu_vttbr_for_vm vm) = ucast (vm_vmid vm) AND VTTBR_VMID_MASK"
    unfolding hv_mmu_vttbr_for_vm_def Let_def by (rule vttbr_fields(2))
  then have "unat (hv_mmu_vttbr_for_vm vm) div 2 ^ 48 = unat (ucast (vm_vmid vm) AND mask 8 :: u64)"
    by (simp only: unat_drop_bit [symmetric]) (simp add: mask_eq_exp_minus_1)
  also have "\<dots> = unat (vm_vmid vm) mod 2 ^ 8"
    by (simp only: unat_and_mask unat_ucast_mod) (simp add: mod_mod_cancel)
  finally show "unat (hv_mmu_vttbr_for_vm vm) div 2 ^ 48 = unat (vm_vmid vm) mod 2 ^ 8" .
qed

subsection \<open>Properties\<close>

text \<open>C36: catching up with an expired periodic timer. If the current time plus a period fits in 64
  bits, \<open>hv_vcpu_timer_advance\<close> returns, and moves the deadline by a whole number of periods to the
  first one after the current time, leaving everything else alone. It never returns with a deadline
  that has already passed.\<close>

theorem timer_advance_correct:
  assumes "tm_enabled (vcpu_timer v)" and "tm_period (vcpu_timer v) \<noteq> 0"
    and "tm_deadline (vcpu_timer v) \<le> now"
    and "unat now + unat (tm_period (vcpu_timer v)) < 2 ^ 64"
  shows "\<exists>d k. hv_vcpu_timer_advance (Some v) now =
      Some (Some (v\<lparr>vcpu_timer := (vcpu_timer v)\<lparr>tm_deadline := d\<rparr>\<rparr>)) \<and>
    unat d = unat (tm_deadline (vcpu_timer v)) + k * unat (tm_period (vcpu_timer v)) \<and>
    unat now < unat d \<and> unat d \<le> unat now + unat (tm_period (vcpu_timer v))"
  using timer_advance_loop_closed [OF assms(2,4,3)] assms(1,2)
  by (fastforce simp: hv_vcpu_timer_advance_def)

definition example_timer_vcpu :: HvVcpu where
  "example_timer_vcpu = zero_HvVcpu\<lparr>vcpu_timer :=
     \<lparr>tm_enabled = True, tm_deadline = 3333, tm_period = 3333\<rparr>\<rparr>"

theorem timer_advance_correct_witness:
  "\<exists>d. hv_vcpu_timer_advance (Some example_timer_vcpu) 10000 =
     Some (Some (example_timer_vcpu\<lparr>vcpu_timer := (vcpu_timer example_timer_vcpu)\<lparr>tm_deadline := d\<rparr>\<rparr>)) \<and>
     10000 < unat d \<and> unat d \<le> 13333"
  using timer_advance_correct [of example_timer_vcpu 10000]
  by (auto simp: example_timer_vcpu_def)

text \<open>The loop of \<open>hv_vcpu_timer_advance\<close> does not end for every input: at the last 64-bit instant
  no deadline lies in the future, and an expired enabled periodic timer makes the call spin for
  ever. The 32-bit clock the hypervisor passes keeps it away from this case.\<close>

theorem timer_advance_diverges:
  assumes "tm_enabled (vcpu_timer v)" and "tm_period (vcpu_timer v) \<noteq> 0"
  shows "hv_vcpu_timer_advance (Some v) (- 1) = None"
proof -
  have "timer_advance_loop (- 1) (tm_period (vcpu_timer v)) (tm_deadline (vcpu_timer v)) = None"
  proof (cases "timer_advance_loop (- 1) (tm_period (vcpu_timer v)) (tm_deadline (vcpu_timer v))")
    case (Some y)
    then have "- 1 < y" by (rule timer_advance_loop_gt)
    moreover have "y \<le> - 1" by (rule word_n1_ge)
    ultimately show ?thesis by simp
  qed
  with assms show ?thesis by (simp add: hv_vcpu_timer_advance_def)
qed

theorem timer_advance_diverges_witness:
  "hv_vcpu_timer_advance (Some example_timer_vcpu) (- 1) = None"
  by (rule timer_advance_diverges) (simp_all add: example_timer_vcpu_def)

text \<open>A context switch loses nothing. Saving a vCPU on exception entry and loading it later, on
  whatever the machine has become, gives back the exception frame, the banked registers and the
  vector base of the moment of the save; the vCPU's identity, virtual interrupts and timer and the
  hypervisor's own control registers are not touched.\<close>

theorem vcpu_switch_roundtrip:
  "\<exists>v' s'. hv_vcpu_load (hv_vcpu_save v f s) s0 = (v', f, s') \<and>
     v' = hv_vcpu_save v f s \<and> banked s' = banked s \<and> vbar s' = vbar s \<and>
     hcr s' = hcr s0 \<and> vttbr s' = vttbr s0 \<and> vtcr s' = vtcr s0 \<and>
     vcpu_id v' = vcpu_id v \<and> vcpu_vm v' = vcpu_vm v \<and> vcpu_state v' = vcpu_state v \<and>
     virq_pending v' = virq_pending v \<and> virq_active v' = virq_active v \<and>
     vcpu_timer v' = vcpu_timer v"
  by (simp add: hv_vcpu_load_def hv_vcpu_save_def copy_hyp_state_def Let_def sysreg_defs
      ISB_def emit_def)

text \<open>A vCPU that \<open>hv_vcpu_init\<close> has set up enters the guest where it was told to: the entry
  point as program counter, the given status register, the stack top in \<open>r0\<close> and as both banked
  stack pointers, every other register zero, no virtual interrupt and no timer, and stage-2
  translation on for the VM the vCPU already belonged to.\<close>

theorem vcpu_init_enters:
  "vcpu_vm v = Some i \<Longrightarrow>
   \<exists>e s'. hv_vcpu_enter_initial vms (hv_vcpu_init v ident entry stk psr) s = (e, s') \<and>
     ge_pc e = entry \<and> ge_cpsr e = psr \<and> ge_r e = stk # replicate 12 0 \<and> ge_lr e = 0 \<and>
     bk_sp_usr (banked s') = stk \<and> bk_sp_svc (banked s') = stk \<and>
     hcr s' = (hcr s OR HCR_VM) \<and> vttbr s' = hv_mmu_vttbr_for_vm (vms ! i) \<and>
     vcpu_id (hv_vcpu_init v ident entry stk psr) = ident \<and>
     vcpu_state (hv_vcpu_init v ident entry stk psr) = HV_VCPU_RUNNABLE \<and>
     virq_pending (hv_vcpu_init v ident entry stk psr) = 0 \<and>
     virq_active (hv_vcpu_init v ident entry stk psr) = 0 \<and>
     \<not> tm_enabled (vcpu_timer (hv_vcpu_init v ident entry stk psr))"
  by (simp add: hv_vcpu_enter_initial_def hv_vcpu_init_def zero_HvVcpu_def zero_HypExceptState_def
      zero_HypBankedRegs_def hyp_enter_vcpu_context_def eret_frame_def hv_mmu_activate_vcpu_def
      Let_def sysreg_defs DSB_def ISB_def emit_def set_reg_def numeral_eq_Suc)

theorem vcpu_init_enters_witness:
  "\<exists>e s'. hv_vcpu_enter_initial [example_vm0]
       (hv_vcpu_init (zero_HvVcpu\<lparr>vcpu_vm := Some 0\<rparr>) 0 0x20000 0 HYP_LOWER_SVC_CPSR) reset_s2hw =
     (e, s') \<and> ge_pc e = 0x20000 \<and> hcr s' = HCR_VM"
  using vcpu_init_enters [of "zero_HvVcpu\<lparr>vcpu_vm := Some 0\<rparr>" 0 "[example_vm0]" 0 "0x20000" 0
      HYP_LOWER_SVC_CPSR reset_s2hw]
  by (auto simp: reset_s2hw_def)

text \<open>\<open>hv_mmu_activate_vcpu\<close> follows the order the architecture asks for: table writes are
  complete before the table base changes, the TLB is invalidated between the new base and the
  enabling of translation, and barriers separate the steps. The base register then holds the VM's
  identifier and its root table, whatever tables the VM has. Without a VM it turns translation off
  and invalidates.\<close>

theorem mmu_activate_correct:
  "vcpu_vm v = Some i \<Longrightarrow> s2_static (stage2 (vms ! i)) \<Longrightarrow>
   (let s' = hv_mmu_activate_vcpu vms (Some v) s
    in hw_log s' = hw_log s @ [EvDSB, EvVTCR HV_STAGE2_VTCR_DEFAULT, EvVTTBR (vttbr s'), EvISB,
         EvTLBIALL, EvDSB, EvISB, EvHCR (hcr s OR HCR_VM), EvISB] \<and>
       hcr s' AND HCR_VM = HCR_VM \<and> hcr s' AND NOT HCR_VM = hcr s AND NOT HCR_VM \<and>
       vttbr s' AND VTTBR_BADDR_MASK = root_pa (stage2 (vms ! i)) \<and>
       unat (vttbr s') div 2 ^ 48 = unat (vm_vmid (vms ! i)) mod 2 ^ 8) \<and>
   (let s' = hv_mmu_activate_vcpu vms None s
    in hw_log s' = hw_log s @ [EvHCR (hcr s AND NOT HCR_VM), EvTLBIALL, EvDSB, EvISB] \<and>
       hcr s' AND HCR_VM = 0 \<and> vttbr s' = vttbr s)"
proof -
  assume v: "vcpu_vm v = Some i" and st: "s2_static (stage2 (vms ! i))"
  have n: "(hcr s OR HCR_VM) AND NOT HCR_VM = hcr s AND NOT HCR_VM"
    by (rule bit_word_eqI) (auto simp: bit_simps)
  have c: "(hcr s AND NOT HCR_VM) AND HCR_VM = 0" by (rule and_not_and_self)
  show ?thesis
    using v vttbr_for_vm [OF st] n c
    by (simp add: hv_mmu_activate_vcpu_def hv_mmu_deactivate_stage2_def Let_def sysreg_defs
        DSB_def ISB_def emit_def)
qed

theorem mmu_activate_correct_witness:
  "vttbr (hv_mmu_activate_vcpu [example_vm0, example_vm1] (Some (zero_HvVcpu\<lparr>vcpu_vm := Some 1\<rparr>))
     reset_s2hw) AND VTTBR_BADDR_MASK = 0x8000"
proof -
  have st: "s2_static (stage2 ([example_vm0, example_vm1] ! 1))"
    using s2_static_init [of 0 1] by (simp add: example_vm1_def tables_base_ok_def)
  have "vcpu_vm (zero_HvVcpu\<lparr>vcpu_vm := Some 1\<rparr>) = Some 1" by simp
  from mmu_activate_correct [OF this st, of reset_s2hw] show ?thesis
    by (simp add: Let_def example_vm1_def init_stage2_def)
qed

end
