(* ===== verification/Vuart.thy ===== *)
theory Vuart
  imports Timers Vcpu
begin

section \<open>The emulated serial port: mmio-abi.h, vuart.c\<close>

text \<open>
  The mini UART each guest sees: a bank of registers per VM, whose data register goes to the physical
  UART. \<open>vuarts\<close> is the static array; the C status codes are integers, and \<open>None\<close> is a call that
  spins on the physical device for ever. The \<open>value\<close> pointer of a read is an option.

  The lemmas show that a guest only ever reaches its own bank, that the registers hold what was
  written, and that exactly the bytes stored to the data register reach the line.
\<close>

abbreviation (input) HV_GUEST_AUX_ENABLES :: u32 where "HV_GUEST_AUX_ENABLES \<equiv> 0x04"
abbreviation (input) HV_GUEST_AUX_MU_IO_REG :: u32 where "HV_GUEST_AUX_MU_IO_REG \<equiv> 0x40"
abbreviation (input) HV_GUEST_AUX_MU_IER_REG :: u32 where "HV_GUEST_AUX_MU_IER_REG \<equiv> 0x44"
abbreviation (input) HV_GUEST_AUX_MU_IIR_REG :: u32 where "HV_GUEST_AUX_MU_IIR_REG \<equiv> 0x48"
abbreviation (input) HV_GUEST_AUX_MU_LCR_REG :: u32 where "HV_GUEST_AUX_MU_LCR_REG \<equiv> 0x4C"
abbreviation (input) HV_GUEST_AUX_MU_MCR_REG :: u32 where "HV_GUEST_AUX_MU_MCR_REG \<equiv> 0x50"
abbreviation (input) HV_GUEST_AUX_MU_LSR_REG :: u32 where "HV_GUEST_AUX_MU_LSR_REG \<equiv> 0x54"
abbreviation (input) HV_GUEST_AUX_MU_MSR_REG :: u32 where "HV_GUEST_AUX_MU_MSR_REG \<equiv> 0x58"
abbreviation (input) HV_GUEST_AUX_MU_SCRATCH :: u32 where "HV_GUEST_AUX_MU_SCRATCH \<equiv> 0x5C"
abbreviation (input) HV_GUEST_AUX_MU_CNTL_REG :: u32 where "HV_GUEST_AUX_MU_CNTL_REG \<equiv> 0x60"
abbreviation (input) HV_GUEST_AUX_MU_STAT_REG :: u32 where "HV_GUEST_AUX_MU_STAT_REG \<equiv> 0x64"
abbreviation (input) HV_GUEST_AUX_MU_BAUD_REG :: u32 where "HV_GUEST_AUX_MU_BAUD_REG \<equiv> 0x68"
abbreviation (input) VUART_LSR_RX_READY :: u32 where "VUART_LSR_RX_READY \<equiv> 0x1"
abbreviation (input) VUART_LSR_TX_READY :: u32 where "VUART_LSR_TX_READY \<equiv> 0x20"
abbreviation (input) VUART_LSR_TX_EMPTY :: u32 where "VUART_LSR_TX_EMPTY \<equiv> 0x40"
abbreviation (input) VUART_STAT_TX_CAN_ACCEPT :: u32 where "VUART_STAT_TX_CAN_ACCEPT \<equiv> 0x2"
abbreviation (input) HV_MMIO_OK :: int where "HV_MMIO_OK \<equiv> 0"
abbreviation (input) HV_MMIO_ERR_UNHANDLED :: int where "HV_MMIO_ERR_UNHANDLED \<equiv> -1"

record HvVirtualUart =
  aux_enables :: u32
  ier :: u32
  iir :: u32
  lcr :: u32
  mcr :: u32
  msr :: u32
  scratch :: u32
  cntl :: u32
  stat :: u32
  baud :: u32

record vuart_hw = timer_hw +
  vuarts :: "HvVirtualUart list"

definition zero_HvVirtualUart :: HvVirtualUart where
  "zero_HvVirtualUart = \<lparr>aux_enables = 0, ier = 0, iir = 0, lcr = 0, mcr = 0, msr = 0, scratch = 0,
     cntl = 0, stat = 0, baud = 0\<rparr>"

definition vuart_valid_access :: "u32 \<Rightarrow> u32 \<Rightarrow> bool" where
  "vuart_valid_access vmid sz \<longleftrightarrow> vmid < of_nat HV_MAX_VMS \<and> (sz = 1 \<or> sz = 2 \<or> sz = 4)"

definition upd_vuart ::
    "u32 \<Rightarrow> (HvVirtualUart \<Rightarrow> HvVirtualUart) \<Rightarrow> 'a vuart_hw_scheme \<Rightarrow> 'a vuart_hw_scheme" where
  "upd_vuart vmid f s =
     s\<lparr>vuarts := (vuarts s)[unat vmid := f (vuarts s ! unat vmid)]\<rparr>"

definition hv_vuart_write ::
    "u32 \<Rightarrow> u32 \<Rightarrow> u32 \<Rightarrow> u32 \<Rightarrow> 'a vuart_hw_scheme \<Rightarrow> (int \<times> 'a vuart_hw_scheme) option" where
  "hv_vuart_write vmid offset v sz s =
     (if \<not> vuart_valid_access vmid sz then Some (HV_MMIO_ERR_UNHANDLED, s)
      else if offset = HV_GUEST_AUX_ENABLES
        then Some (HV_MMIO_OK, upd_vuart vmid (aux_enables_update (\<lambda>_. v AND 1)) s)
      else if offset = HV_GUEST_AUX_MU_IO_REG
        then do { s \<leftarrow> UART_Put8 (ucast v) s; Some (HV_MMIO_OK, s) }
      else if offset = HV_GUEST_AUX_MU_IER_REG
        then Some (HV_MMIO_OK, upd_vuart vmid (ier_update (\<lambda>_. v)) s)
      else if offset = HV_GUEST_AUX_MU_IIR_REG
        then Some (HV_MMIO_OK, upd_vuart vmid (iir_update (\<lambda>_. v)) s)
      else if offset = HV_GUEST_AUX_MU_LCR_REG
        then Some (HV_MMIO_OK, upd_vuart vmid (lcr_update (\<lambda>_. v)) s)
      else if offset = HV_GUEST_AUX_MU_MCR_REG
        then Some (HV_MMIO_OK, upd_vuart vmid (mcr_update (\<lambda>_. v)) s)
      else if offset = HV_GUEST_AUX_MU_SCRATCH
        then Some (HV_MMIO_OK, upd_vuart vmid (scratch_update (\<lambda>_. v)) s)
      else if offset = HV_GUEST_AUX_MU_CNTL_REG
        then Some (HV_MMIO_OK, upd_vuart vmid (cntl_update (\<lambda>_. v)) s)
      else if offset = HV_GUEST_AUX_MU_STAT_REG
        then Some (HV_MMIO_OK, upd_vuart vmid (stat_update (\<lambda>_. v)) s)
      else if offset = HV_GUEST_AUX_MU_BAUD_REG
        then Some (HV_MMIO_OK, upd_vuart vmid (baud_update (\<lambda>_. v)) s)
      else Some (HV_MMIO_ERR_UNHANDLED, s))"

definition hv_vuart_read ::
    "u32 \<Rightarrow> u32 \<Rightarrow> u32 \<Rightarrow> u32 option \<Rightarrow> 'a vuart_hw_scheme
      \<Rightarrow> (int \<times> u32 option \<times> 'a vuart_hw_scheme) option" where
  "hv_vuart_read vmid offset sz value_p s =
     (if \<not> vuart_valid_access vmid sz \<or> value_p = None then Some (HV_MMIO_ERR_UNHANDLED, value_p, s)
      else let uart = vuarts s ! unat vmid in
        if offset = HV_GUEST_AUX_ENABLES then Some (HV_MMIO_OK, Some (aux_enables uart), s)
        else if offset = HV_GUEST_AUX_MU_IO_REG
          then do {
            (c, s) \<leftarrow> UART_Get8_Async s;
            Some (HV_MMIO_OK, Some (if c < 0 then 0 else of_int c), s) }
        else if offset = HV_GUEST_AUX_MU_IER_REG then Some (HV_MMIO_OK, Some (ier uart), s)
        else if offset = HV_GUEST_AUX_MU_IIR_REG then Some (HV_MMIO_OK, Some (iir uart), s)
        else if offset = HV_GUEST_AUX_MU_LCR_REG then Some (HV_MMIO_OK, Some (lcr uart), s)
        else if offset = HV_GUEST_AUX_MU_MCR_REG then Some (HV_MMIO_OK, Some (mcr uart), s)
        else if offset = HV_GUEST_AUX_MU_LSR_REG
          then let v = VUART_LSR_TX_READY OR VUART_LSR_TX_EMPTY;
                   (d, s) = UART_Has_Data s;
                   v = (if d then v OR VUART_LSR_RX_READY else v)
               in Some (HV_MMIO_OK, Some v, s)
        else if offset = HV_GUEST_AUX_MU_MSR_REG then Some (HV_MMIO_OK, Some (msr uart), s)
        else if offset = HV_GUEST_AUX_MU_SCRATCH then Some (HV_MMIO_OK, Some (scratch uart), s)
        else if offset = HV_GUEST_AUX_MU_CNTL_REG then Some (HV_MMIO_OK, Some (cntl uart), s)
        else if offset = HV_GUEST_AUX_MU_STAT_REG
          then Some (HV_MMIO_OK, Some (stat uart OR VUART_STAT_TX_CAN_ACCEPT), s)
        else if offset = HV_GUEST_AUX_MU_BAUD_REG then Some (HV_MMIO_OK, Some (baud uart), s)
        else Some (HV_MMIO_ERR_UNHANDLED, value_p, s))"

subsection \<open>What an access changes\<close>

lemma UART_Put8_ok: "UART_Put8 c s = Some s' \<Longrightarrow> \<exists>es. s' = s\<lparr>hw_log := hw_log s @ es\<rparr> \<and> uart_bytes es = [c]"
  using UART_Put8_io by (auto simp: io_out_def)

lemma vuart_same: "s = s\<lparr>hw_log := hw_log s @ [], vuarts := (vuarts s)[i := vuarts s ! i]\<rparr>"
  for s :: "'a vuart_hw_scheme"
  by simp

definition vuart_writable :: "u32 \<Rightarrow> bool" where
  "vuart_writable offset \<longleftrightarrow> offset \<in> {HV_GUEST_AUX_ENABLES, HV_GUEST_AUX_MU_IO_REG,
     HV_GUEST_AUX_MU_IER_REG, HV_GUEST_AUX_MU_IIR_REG, HV_GUEST_AUX_MU_LCR_REG,
     HV_GUEST_AUX_MU_MCR_REG, HV_GUEST_AUX_MU_SCRATCH, HV_GUEST_AUX_MU_CNTL_REG,
     HV_GUEST_AUX_MU_STAT_REG, HV_GUEST_AUX_MU_BAUD_REG}"

lemma hv_vuart_write_cases:
  assumes "hv_vuart_write vmid offset v sz s = Some (res, s')"
  shows "res = (if vuart_valid_access vmid sz \<and> vuart_writable offset then HV_MMIO_OK else HV_MMIO_ERR_UNHANDLED)"
    and "\<exists>es u. s' = s\<lparr>hw_log := hw_log s @ es, vuarts := (vuarts s)[unat vmid := u]\<rparr> \<and>
      uart_bytes es = (if res = HV_MMIO_OK \<and> offset = HV_GUEST_AUX_MU_IO_REG then [ucast v] else [])"
proof -
  show "res = (if vuart_valid_access vmid sz \<and> vuart_writable offset then HV_MMIO_OK else HV_MMIO_ERR_UNHANDLED)"
    using assms by (auto simp: hv_vuart_write_def vuart_writable_def split: if_splits bind_splits)
  have nil: "s' = s \<Longrightarrow> \<exists>es u. s' = s\<lparr>hw_log := hw_log s @ es, vuarts := (vuarts s)[unat vmid := u]\<rparr> \<and>
      uart_bytes es = []"
    by (intro exI [of _ "[]"] exI [of _ "vuarts s ! unat vmid"]) simp
  have upd: "s' = upd_vuart vmid f s \<Longrightarrow>
      \<exists>es u. s' = s\<lparr>hw_log := hw_log s @ es, vuarts := (vuarts s)[unat vmid := u]\<rparr> \<and> uart_bytes es = []" for f
    by (intro exI [of _ "[]"] exI [of _ "f (vuarts s ! unat vmid)"]) (simp add: upd_vuart_def)
  show "\<exists>es u. s' = s\<lparr>hw_log := hw_log s @ es, vuarts := (vuarts s)[unat vmid := u]\<rparr> \<and>
      uart_bytes es = (if res = HV_MMIO_OK \<and> offset = HV_GUEST_AUX_MU_IO_REG then [ucast v] else [])"
  proof (cases "res = HV_MMIO_OK \<and> offset = HV_GUEST_AUX_MU_IO_REG")
    case True
    then obtain s1 where "UART_Put8 (ucast v) s = Some s1" "s' = s1"
      using assms by (auto simp: hv_vuart_write_def split: if_splits bind_splits)
    then obtain es where "s' = s\<lparr>hw_log := hw_log s @ es\<rparr>" "uart_bytes es = [ucast v]"
      using UART_Put8_ok by blast
    with True show ?thesis
      by (intro exI [of _ es] exI [of _ "vuarts s ! unat vmid"]) simp
  next
    case False
    then have "s' = s \<or> (\<exists>f. s' = upd_vuart vmid f s)"
      using assms by (auto simp: hv_vuart_write_def split: if_splits bind_splits)
    with nil upd False show ?thesis by auto
  qed
qed

lemma hv_vuart_read_frame:
  assumes "hv_vuart_read vmid offset sz p s = Some (res, p', s')"
  shows "io_out s s' []" and "res = HV_MMIO_OK \<or> res = HV_MMIO_ERR_UNHANDLED"
    and "res = HV_MMIO_OK \<Longrightarrow> p' \<noteq> None"
  using assms
  by (auto simp: hv_vuart_read_def Let_def io_out_refl
      split: if_splits bind_splits prod.splits dest: UART_Get8_Async_io UART_Has_Data_io)

subsection \<open>The register file\<close>

text \<open>The bank as a map: the registers a guest can store to and load from.\<close>

definition vuart_reg :: "HvVirtualUart \<Rightarrow> u32 \<Rightarrow> u32 option" where
  "vuart_reg u = [HV_GUEST_AUX_ENABLES \<mapsto> aux_enables u, HV_GUEST_AUX_MU_IER_REG \<mapsto> ier u,
     HV_GUEST_AUX_MU_IIR_REG \<mapsto> iir u, HV_GUEST_AUX_MU_LCR_REG \<mapsto> lcr u,
     HV_GUEST_AUX_MU_MCR_REG \<mapsto> mcr u, HV_GUEST_AUX_MU_MSR_REG \<mapsto> msr u,
     HV_GUEST_AUX_MU_SCRATCH \<mapsto> scratch u, HV_GUEST_AUX_MU_CNTL_REG \<mapsto> cntl u,
     HV_GUEST_AUX_MU_STAT_REG \<mapsto> stat u, HV_GUEST_AUX_MU_BAUD_REG \<mapsto> baud u]"

definition vuart_offsets :: "u32 set" where
  "vuart_offsets = {HV_GUEST_AUX_ENABLES, HV_GUEST_AUX_MU_IER_REG, HV_GUEST_AUX_MU_IIR_REG,
     HV_GUEST_AUX_MU_LCR_REG, HV_GUEST_AUX_MU_MCR_REG, HV_GUEST_AUX_MU_MSR_REG,
     HV_GUEST_AUX_MU_SCRATCH, HV_GUEST_AUX_MU_CNTL_REG, HV_GUEST_AUX_MU_STAT_REG,
     HV_GUEST_AUX_MU_BAUD_REG}"

lemma vuart_reg_dom: "dom (vuart_reg u) = vuart_offsets"
  by (auto simp: vuart_reg_def vuart_offsets_def)

lemma vuart_write_reg:
  assumes "vuart_valid_access vmid sz" and "unat vmid < length (vuarts s)"
    and "offset \<in> vuart_offsets" and "offset \<noteq> HV_GUEST_AUX_MU_MSR_REG"
  shows "\<exists>u. hv_vuart_write vmid offset v sz s =
      Some (HV_MMIO_OK, s\<lparr>vuarts := (vuarts s)[unat vmid := u]\<rparr>) \<and>
    vuart_reg u = (vuart_reg (vuarts s ! unat vmid))
      (offset \<mapsto> (if offset = HV_GUEST_AUX_ENABLES then v AND 1 else v))"
proof -
  let ?u = "vuarts s ! unat vmid"
  have w: "\<exists>f. hv_vuart_write vmid offset v sz s = Some (HV_MMIO_OK, upd_vuart vmid f s) \<and>
      vuart_reg (f ?u) = (vuart_reg ?u)(offset \<mapsto> (if offset = HV_GUEST_AUX_ENABLES then v AND 1 else v))"
    using assms(1,3,4) unfolding vuart_offsets_def hv_vuart_write_def
    by (elim insertE emptyE) (auto simp: vuart_reg_def fun_eq_iff intro!: exI)
  then obtain f where "hv_vuart_write vmid offset v sz s = Some (HV_MMIO_OK, upd_vuart vmid f s)"
    "vuart_reg (f ?u) = (vuart_reg ?u)(offset \<mapsto> (if offset = HV_GUEST_AUX_ENABLES then v AND 1 else v))"
    by blast
  then show ?thesis by (intro exI [of _ "f ?u"]) (simp add: upd_vuart_def)
qed

lemma vuart_read_reg:
  assumes "vuart_valid_access vmid sz" and "offset \<in> vuart_offsets"
  shows "hv_vuart_read vmid offset sz (Some p) s =
    Some (HV_MMIO_OK, map_option (\<lambda>v. if offset = HV_GUEST_AUX_MU_STAT_REG
        then v OR VUART_STAT_TX_CAN_ACCEPT else v) (vuart_reg (vuarts s ! unat vmid) offset), s)"
  using assms unfolding vuart_offsets_def hv_vuart_read_def
  by (elim insertE emptyE) (simp_all add: vuart_reg_def Let_def)

subsection \<open>Properties\<close>

text \<open>C37: the emulated UART is a register file per VM. For a legal VM and access size, storing to a
  register returns OK and updates exactly that register of exactly that VM's bank (\<open>AUX_ENABLES\<close>
  keeps only bit 0), loading one returns what it holds (\<open>STAT\<close> with the transmitter-ready bit
  forced) and changes nothing, and \<open>MSR\<close> is read-only.\<close>

theorem vuart_register_file:
  assumes "unat vmid < HV_MAX_VMS" and "sz \<in> {1, 2, 4}" and "length (vuarts s) = HV_MAX_VMS"
    and "offset \<in> vuart_offsets"
  shows "(offset \<noteq> HV_GUEST_AUX_MU_MSR_REG \<longrightarrow>
      (\<exists>s'. hv_vuart_write vmid offset v sz s = Some (HV_MMIO_OK, s') \<and>
         s' = s\<lparr>vuarts := vuarts s'\<rparr> \<and> length (vuarts s') = HV_MAX_VMS \<and>
         vuart_reg (vuarts s' ! unat vmid) = (vuart_reg (vuarts s ! unat vmid))
           (offset \<mapsto> (if offset = HV_GUEST_AUX_ENABLES then v AND 1 else v)) \<and>
         (\<forall>j. j \<noteq> unat vmid \<longrightarrow> vuarts s' ! j = vuarts s ! j))) \<and>
    (offset = HV_GUEST_AUX_MU_MSR_REG \<longrightarrow>
       hv_vuart_write vmid offset v sz s = Some (HV_MMIO_ERR_UNHANDLED, s)) \<and>
    (\<exists>r. vuart_reg (vuarts s ! unat vmid) offset = Some r \<and>
       hv_vuart_read vmid offset sz (Some p) s = Some (HV_MMIO_OK,
         Some (if offset = HV_GUEST_AUX_MU_STAT_REG then r OR VUART_STAT_TX_CAN_ACCEPT else r), s))"
proof (intro conjI impI)
  have a: "vuart_valid_access vmid sz"
    using assms(1,2) by (auto simp: vuart_valid_access_def word_less_nat_alt)
  { assume "offset \<noteq> HV_GUEST_AUX_MU_MSR_REG"
    then obtain u where u: "hv_vuart_write vmid offset v sz s =
        Some (HV_MMIO_OK, s\<lparr>vuarts := (vuarts s)[unat vmid := u]\<rparr>)"
      "vuart_reg u = (vuart_reg (vuarts s ! unat vmid))
        (offset \<mapsto> (if offset = HV_GUEST_AUX_ENABLES then v AND 1 else v))"
      using vuart_write_reg [OF a _ assms(4), of s v] assms(1,3) by auto
    show "\<exists>s'. hv_vuart_write vmid offset v sz s = Some (HV_MMIO_OK, s') \<and>
         s' = s\<lparr>vuarts := vuarts s'\<rparr> \<and> length (vuarts s') = HV_MAX_VMS \<and>
         vuart_reg (vuarts s' ! unat vmid) = (vuart_reg (vuarts s ! unat vmid))
           (offset \<mapsto> (if offset = HV_GUEST_AUX_ENABLES then v AND 1 else v)) \<and>
         (\<forall>j. j \<noteq> unat vmid \<longrightarrow> vuarts s' ! j = vuarts s ! j)"
      using u assms(1,3) by (intro exI [of _ "s\<lparr>vuarts := (vuarts s)[unat vmid := u]\<rparr>"]) simp }
  show "hv_vuart_write vmid offset v sz s = Some (HV_MMIO_ERR_UNHANDLED, s)"
    if "offset = HV_GUEST_AUX_MU_MSR_REG" using that by (simp add: hv_vuart_write_def)
  obtain r where r: "vuart_reg (vuarts s ! unat vmid) offset = Some r"
    using assms(4) vuart_reg_dom by blast
  then show "\<exists>r. vuart_reg (vuarts s ! unat vmid) offset = Some r \<and>
       hv_vuart_read vmid offset sz (Some p) s = Some (HV_MMIO_OK,
         Some (if offset = HV_GUEST_AUX_MU_STAT_REG then r OR VUART_STAT_TX_CAN_ACCEPT else r), s)"
    using vuart_read_reg [OF a assms(4), of p s] by simp
qed

definition reset_vuart_hw :: vuart_hw where
  "reset_vuart_hw = \<lparr>hcr = 0, vbar = 0, vtcr = 0, vttbr = 0, cpsr = CPSR_PEMODE_HYP,
     banked = zero_HypBankedRegs, hw_log = [], hw_in = (\<lambda>_ _. 0x20), stage2_tables = (\<lambda>_. 0),
     gen_tim_period_ticks = 0, vuarts = replicate 2 zero_HvVirtualUart\<rparr>"

theorem vuart_register_file_witness:
  "\<exists>s'. hv_vuart_write 1 HV_GUEST_AUX_MU_BAUD_REG 270 4 reset_vuart_hw = Some (0, s') \<and>
     baud (vuarts s' ! 1) = 270 \<and> vuarts s' ! 0 = zero_HvVirtualUart"
proof -
  obtain s' where w: "hv_vuart_write 1 HV_GUEST_AUX_MU_BAUD_REG 270 4 reset_vuart_hw = Some (0, s')"
    and r: "vuart_reg (vuarts s' ! 1) = (vuart_reg (vuarts reset_vuart_hw ! 1))(0x68 \<mapsto> 270)"
    and o: "vuarts s' ! 0 = vuarts reset_vuart_hw ! 0"
    using vuart_register_file [of 1 4 reset_vuart_hw HV_GUEST_AUX_MU_BAUD_REG 270 0]
    by (auto simp: vuart_offsets_def reset_vuart_hw_def)
  have "vuart_reg (vuarts s' ! 1) 0x68 = Some 270" using r by simp
  then have "baud (vuarts s' ! 1) = 270" by (simp add: vuart_reg_def)
  with w o show ?thesis by (simp add: reset_vuart_hw_def)
qed

text \<open>Output and confinement. A store by VM \<open>vmid\<close> that returns is OK exactly for a legal VM and
  size and a writable offset; it puts exactly the low byte of the value on the physical line when it is
  an accepted store to the data register, and nothing otherwise; it changes the machine in nothing but
  the device history and that VM's own bank.\<close>

theorem vuart_write_confined:
  assumes "hv_vuart_write vmid offset v sz s = Some (res, s')"
  shows "(res = HV_MMIO_OK \<longleftrightarrow> unat vmid < HV_MAX_VMS \<and> sz \<in> {1, 2, 4} \<and> vuart_writable offset) \<and>
    (res \<noteq> HV_MMIO_OK \<longrightarrow> res = HV_MMIO_ERR_UNHANDLED) \<and>
    (\<exists>es u. s' = s\<lparr>hw_log := hw_log s @ es, vuarts := (vuarts s)[unat vmid := u]\<rparr> \<and>
      uart_bytes es = (if res = HV_MMIO_OK \<and> offset = HV_GUEST_AUX_MU_IO_REG then [ucast v] else []))"
  using hv_vuart_write_cases [OF assms] by (auto simp: vuart_valid_access_def word_less_nat_alt)

theorem vuart_write_confined_witness:
  "\<exists>s'. hv_vuart_write 0 HV_GUEST_AUX_MU_IO_REG 0x141 1 reset_vuart_hw = Some (0, s') \<and>
     uart_bytes (hw_log s') = [0x41]"
proof -
  have "uart_live reset_vuart_hw" by (auto simp: uart_live_def port_live_def reset_vuart_hw_def)
  then obtain s1 where "UART_Put8 (ucast (0x141 :: u32)) reset_vuart_hw = Some s1"
    using UART_Put8_live by blast
  then have w: "hv_vuart_write 0 HV_GUEST_AUX_MU_IO_REG 0x141 1 reset_vuart_hw = Some (0, s1)"
    by (simp add: hv_vuart_write_def vuart_valid_access_def)
  then obtain es u where "s1 = reset_vuart_hw\<lparr>hw_log := hw_log reset_vuart_hw @ es,
      vuarts := (vuarts reset_vuart_hw)[unat (0 :: u32) := u]\<rparr>" "uart_bytes es = [ucast (0x141 :: u32)]"
    using vuart_write_confined [OF w] by auto
  then have "uart_bytes (hw_log s1) = [ucast (0x141 :: u32)]" by (simp add: reset_vuart_hw_def)
  with w show ?thesis by simp
qed

end
