(* ===== verification/Mmio.thy ===== *)
theory Mmio
  imports Vuart
begin

section \<open>Trapped device accesses: fault.h, virtual-device.c, mmio.c\<close>

text \<open>
  The decoded stage-2 fault, the dispatch to the emulated devices, and \<open>hv_mmio_handle_fault\<close>, which
  emulates the one load or store that trapped. \<open>vms\<close> is the scheduler's VM array, which \<open>vcpu->vm\<close>
  points into. The exception frame and the fault are addresses of live objects at every call, so
  they are records and not options; the vCPU and the region may be null.

  The lemmas relate the masks to word conversions, show what an emulated access does to the frame and
  the device, and that an access that is refused leaves both as they were.
\<close>

datatype HvStage2Access =
  HV_STAGE2_ACCESS_READ | HV_STAGE2_ACCESS_WRITE | HV_STAGE2_ACCESS_INSTRUCTION

record HvStage2FaultInfo =
  fault_vcpu_id :: u32
  fault_vm_id :: u32
  fault_ec :: u32
  fault_iss :: u32
  fault_status :: u32
  fault_level :: u32
  fault_ipa :: u64
  fault_access :: HvStage2Access
  is_write :: bool
  is_instruction :: bool
  ipa_offset_valid :: bool

record HvMmioAccess =
  access_size :: u32
  access_reg :: u32
  access_value :: u32

primrec access_num :: "HvStage2Access \<Rightarrow> u32" where
  "access_num HV_STAGE2_ACCESS_READ = 0"
| "access_num HV_STAGE2_ACCESS_WRITE = 1"
| "access_num HV_STAGE2_ACCESS_INSTRUCTION = 2"

subsection \<open>The device switch: virtual-device.c\<close>

definition hv_virtual_device_access ::
    "HvVm list \<Rightarrow> HvVcpu option \<Rightarrow> HvVmRegion option \<Rightarrow> HvStage2FaultInfo \<Rightarrow> u32 \<Rightarrow> u32 \<Rightarrow> u32 option
      \<Rightarrow> 'a vuart_hw_scheme \<Rightarrow> (int \<times> u32 option \<times> 'a vuart_hw_scheme) option" where
  "hv_virtual_device_access vms vcpu_p region_p fault sz write_value read_value s =
     (case (Option.bind vcpu_p vcpu_vm, region_p) of
        (Some i, Some region) \<Rightarrow>
          let vmid = vm_id (vms ! i) in
          if vmid \<ge> of_nat HV_MAX_VMS then Some (HV_MMIO_ERR_UNHANDLED, read_value, s)
          else let offset = ucast (fault_ipa fault - ipa_base region) :: u32 in
            if offset AND (sz - 1) \<noteq> 0 then Some (HV_MMIO_ERR_UNHANDLED, read_value, s)
            else (case region_device region of
                HV_VM_MMIO_DEVICE_VUART \<Rightarrow>
                  if is_write fault then do {
                    (res, s) \<leftarrow> hv_vuart_write vmid offset write_value sz s;
                    Some (res, read_value, s) }
                  else hv_vuart_read vmid offset sz read_value s
              | HV_VM_MMIO_DEVICE_NONE \<Rightarrow> Some (HV_MMIO_ERR_UNHANDLED, read_value, s))
      | _ \<Rightarrow> Some (HV_MMIO_ERR_UNHANDLED, read_value, s))"

subsection \<open>Decoding: mmio.c\<close>

definition mmio_access_size :: "u32 \<Rightarrow> u32" where
  "mmio_access_size iss =
     (let sas = drop_bit HSR_ISS_ABORT_SAS_SHIFT iss AND HSR_ISS_ABORT_SAS_MASK
      in if sas = 0 then 1 else if sas = 1 then 2 else if sas = 2 then 4 else 0)"

definition mmio_access_reg :: "u32 \<Rightarrow> u32" where
  "mmio_access_reg iss = drop_bit HSR_ISS_ABORT_SRT_SHIFT iss AND HSR_ISS_ABORT_SRT_MASK"

definition mmio_read_guest_reg :: "HypExceptState \<Rightarrow> u32 \<Rightarrow> int + u32" where
  "mmio_read_guest_reg hyp_state r =
     (if r < 13 then Inr (reg hyp_state (unat r))
      else if r = 14 then Inr (frame_lr hyp_state)
      else Inl HV_MMIO_ERR_UNHANDLED)"

definition mmio_write_guest_reg :: "HypExceptState \<Rightarrow> u32 \<Rightarrow> u32 \<Rightarrow> int \<times> HypExceptState" where
  "mmio_write_guest_reg hyp_state r v =
     (if r < 13 then (HV_MMIO_OK, set_reg (unat r) v hyp_state)
      else if r = 14 then (HV_MMIO_OK, hyp_state\<lparr>frame_lr := v\<rparr>)
      else (HV_MMIO_ERR_UNHANDLED, hyp_state))"

definition mmio_mask_value :: "u32 \<Rightarrow> u32 \<Rightarrow> bool \<Rightarrow> u32" where
  "mmio_mask_value v sz sign_extend =
     (if sz = 1 then
        (let v = v AND 0xff
         in if sign_extend \<and> v AND 0x80 \<noteq> 0 then v OR 0xffffff00 else v)
      else if sz = 2 then
        (let v = v AND 0xffff
         in if sign_extend \<and> v AND 0x8000 \<noteq> 0 then v OR 0xffff0000 else v)
      else if sz = 4 then v
      else 0)"

definition mmio_decode_access :: "HvStage2FaultInfo \<Rightarrow> int + HvMmioAccess" where
  "mmio_decode_access fault =
     (if is_instruction fault \<or> \<not> ipa_offset_valid fault \<or>
         fault_iss fault AND HSR_ISS_ABORT_ISV = 0 \<or> fault_iss fault AND HSR_ISS_ABORT_S1PTW \<noteq> 0
      then Inl HV_MMIO_ERR_UNHANDLED
      else let sz = mmio_access_size (fault_iss fault)
        in if sz = 0 then Inl HV_MMIO_ERR_UNHANDLED
           else Inr \<lparr>access_size = sz, access_reg = mmio_access_reg (fault_iss fault), access_value = 0\<rparr>)"

definition hv_mmio_handle_fault ::
    "HvVm list \<Rightarrow> HvVcpu option \<Rightarrow> HypExceptState \<Rightarrow> HvStage2FaultInfo \<Rightarrow> 'a vuart_hw_scheme
      \<Rightarrow> (int \<times> HypExceptState \<times> 'a vuart_hw_scheme) option" where
  "hv_mmio_handle_fault vms vcpu_p hyp_state fault s =
     (case Option.bind vcpu_p vcpu_vm of
        None \<Rightarrow> Some (HV_MMIO_ERR_UNHANDLED, hyp_state, s)
      | Some i \<Rightarrow>
        (case mmio_decode_access fault of
           Inl e \<Rightarrow> do {
             s \<leftarrow> trace ''hv_mmio_handle_fault''
               (''unsupported mmio fault decode: vcpu=%d vm=%d ipa=%p iss=%p'' @ nl)
               [PInt (fault_vcpu_id fault), PInt (fault_vm_id fault), PInt (ucast (fault_ipa fault)),
                PInt (fault_iss fault)] s;
             Some (HV_MMIO_ERR_UNHANDLED, hyp_state, s) }
         | Inr access \<Rightarrow>
           (case hv_vm_find_region (Some (vms ! i)) (fault_ipa fault) of
              None \<Rightarrow> Some (HV_MMIO_ERR_UNHANDLED, hyp_state, s)
            | Some region \<Rightarrow>
              if region_type region \<noteq> HV_VM_REGION_MMIO then Some (HV_MMIO_ERR_UNHANDLED, hyp_state, s)
              else (case (if is_write fault
                  then map_sum id (\<lambda>v. mmio_mask_value v (access_size access) False)
                         (mmio_read_guest_reg hyp_state (access_reg access))
                  else Inr 0) of
                Inl e \<Rightarrow> Some (HV_MMIO_ERR_UNHANDLED, hyp_state, s)
              | Inr v \<Rightarrow> do {
                  (res, read_p, s) \<leftarrow> hv_virtual_device_access vms vcpu_p (Some region) fault
                    (access_size access) v (Some (access_value access)) s;
                  if res \<noteq> HV_MMIO_OK then do {
                    s \<leftarrow> trace ''hv_mmio_handle_fault''
                      (''unsupported mmio access: vcpu=%d vm=%d ipa=%p offset=%p access=%d size=%d'' @ nl)
                      [PInt (fault_vcpu_id fault), PInt (fault_vm_id fault),
                       PInt (ucast (fault_ipa fault)), PInt (ucast (fault_ipa fault - ipa_base region)),
                       PInt (access_num (fault_access fault)), PInt (access_size access)] s;
                    Some (HV_MMIO_ERR_UNHANDLED, hyp_state, s) }
                  else if is_write fault then Some (HV_MMIO_OK, hyp_state, s)
                  else
                    let sign_extend = fault_iss fault AND HSR_ISS_ABORT_SSE \<noteq> 0;
                        v = mmio_mask_value (case read_p of None \<Rightarrow> 0 | Some w \<Rightarrow> w) (access_size access) sign_extend;
                        (r, hyp_state') = mmio_write_guest_reg hyp_state (access_reg access) v
                    in if r \<noteq> HV_MMIO_OK then Some (HV_MMIO_ERR_UNHANDLED, hyp_state, s)
                       else Some (HV_MMIO_OK, hyp_state', s) }))))"

subsection \<open>Masks are conversions\<close>

lemma ucast_down_mask: "v AND mask LENGTH('b) = ucast (ucast v :: 'b::len word)" for v :: "'a::len word"
  by (rule bit_word_eqI) (auto simp: bit_simps)

lemma mask_low:
  fixes v :: u32
  shows "v AND 0xff = ucast (ucast v :: u8)" "v AND 0xffff = ucast (ucast v :: 16 word)"
  using ucast_down_mask [of v, where 'b = 8] ucast_down_mask [of v, where 'b = 16]
  by (simp_all add: mask_eq_exp_minus_1)

lemma scast_extend:
  fixes w :: "'b::len word"
  assumes "LENGTH('b) \<le> LENGTH('a)"
  shows "(scast w :: 'a::len word) = (if bit w (LENGTH('b) - 1)
     then ucast w OR push_bit LENGTH('b) (- 1) else ucast w :: 'a word)"
proof (rule bit_word_eqI)
  fix n
  assume n: "n < LENGTH('a)"
  show "bit (scast w :: 'a word) n = bit (if bit w (LENGTH('b) - 1)
     then ucast w OR push_bit LENGTH('b) (- 1) else ucast w :: 'a word) n"
  proof (cases "n < LENGTH('b)")
    case True
    then have "n = LENGTH('b) - 1 \<or> n < LENGTH('b) - 1" by linarith
    then show ?thesis using n True by (auto simp: bit_simps min_def not_le)
  next
    case False
    then have "\<not> bit w n" using bit_imp_le_length by blast
    with False n assms show ?thesis by (auto simp: bit_simps min_def not_le)
  qed
qed

lemma sign_bit: "v AND 0x80 \<noteq> 0 \<longleftrightarrow> bit v 7" "v AND 0x8000 \<noteq> 0 \<longleftrightarrow> bit v 15" for v :: u32
  using and_push_bit_1_neq_0 [of v 7] and_push_bit_1_neq_0 [of v 15] by (simp_all add: push_bit_eq_mult)

lemma mask_value_signed:
  "mmio_mask_value v 1 True = scast (ucast v :: u8)"
  "mmio_mask_value v 2 True = scast (ucast v :: 16 word)"
proof -
  have b: "bit (ucast (ucast v :: u8) :: u32) 7 = bit (ucast v :: u8) 7"
    "bit (ucast (ucast v :: 16 word) :: u32) 15 = bit (ucast v :: 16 word) 15"
    by (simp_all add: bit_simps)
  have m: "(- 256 :: u32) = 0xffffff00" "(- 65536 :: u32) = 0xffff0000" by simp_all
  show "mmio_mask_value v 1 True = scast (ucast v :: u8)"
    using scast_extend [of "ucast v :: u8", where 'a = 32]
    by (simp add: mmio_mask_value_def Let_def mask_low sign_bit b push_bit_eq_mult m)
  show "mmio_mask_value v 2 True = scast (ucast v :: 16 word)"
    using scast_extend [of "ucast v :: 16 word", where 'a = 32]
    by (simp add: mmio_mask_value_def Let_def mask_low sign_bit b push_bit_eq_mult m)
qed

lemma mask_value_unsigned:
  "mmio_mask_value v 1 False = ucast (ucast v :: u8)"
  "mmio_mask_value v 2 False = ucast (ucast v :: 16 word)"
  "mmio_mask_value v 4 sg = v"
  by (simp_all add: mmio_mask_value_def mask_low)

subsection \<open>What a handled fault changes\<close>

text \<open>\<open>bank_step i s s'\<close>: nothing but the device history and bank \<open>i\<close> changed.\<close>

definition bank_step :: "nat \<Rightarrow> 'a vuart_hw_scheme \<Rightarrow> 'a vuart_hw_scheme \<Rightarrow> bool" where
  "bank_step i s s' \<longleftrightarrow> (\<exists>es u. s' = s\<lparr>hw_log := hw_log s @ es, vuarts := (vuarts s)[i := u]\<rparr>)"

lemma bank_step_io: "io_out s s' t \<Longrightarrow> bank_step i s s'"
  unfolding io_out_def bank_step_def
  by (elim exE conjE) (rule_tac x = es in exI, rule_tac x = "vuarts s ! i" in exI, simp)

lemma bank_step_trans: "bank_step i s s1 \<Longrightarrow> bank_step i s1 s2 \<Longrightarrow> bank_step i s s2"
  unfolding bank_step_def
  by (elim exE) (rule_tac x = "es @ esa" in exI, rule_tac x = ua in exI, simp)

lemma bank_step_refl [simp]: "bank_step i s s"
  using bank_step_io [OF io_out_refl] .

lemma virtual_device_cases:
  assumes "hv_virtual_device_access vms vcpu_p (Some r) fault sz v (Some w) s = Some (res, p', s')"
    and "Option.bind vcpu_p vcpu_vm = Some i"
  shows "res = HV_MMIO_OK \<or> res = HV_MMIO_ERR_UNHANDLED"
    and "bank_step (unat (vm_id (vms ! i))) s s'"
    and "res \<noteq> HV_MMIO_OK \<or> \<not> is_write fault \<Longrightarrow> io_out s s' []"
    and "res = HV_MMIO_OK \<Longrightarrow> unat (vm_id (vms ! i)) < HV_MAX_VMS"
proof -
  let ?off = "ucast (fault_ipa fault - ipa_base r) :: u32"
  let ?id = "vm_id (vms ! i)"
  consider (none) "res = HV_MMIO_ERR_UNHANDLED" "s' = s"
    | (wr) "is_write fault" "hv_vuart_write ?id ?off v sz s = Some (res, s')" "?id < of_nat HV_MAX_VMS"
    | (rd) "\<not> is_write fault" "hv_vuart_read ?id ?off sz (Some w) s = Some (res, p', s')"
        "?id < of_nat HV_MAX_VMS"
    using assms by (auto simp: hv_virtual_device_access_def Let_def not_le
        split: if_splits HvVmMmioDevice.splits bind_splits)
  note C = this
  from C have "(res = HV_MMIO_OK \<or> res = HV_MMIO_ERR_UNHANDLED) \<and> bank_step (unat ?id) s s' \<and>
    (res \<noteq> HV_MMIO_OK \<or> \<not> is_write fault \<longrightarrow> io_out s s' []) \<and>
    (res = HV_MMIO_OK \<longrightarrow> unat ?id < HV_MAX_VMS)"
  proof cases
    case none
    then show ?thesis by (simp add: io_out_refl)
  next
    case wr
    note w = hv_vuart_write_cases [OF wr(2)]
    have b: "bank_step (unat ?id) s s'" using w(2) unfolding bank_step_def by blast
    have "io_out s s' []" if "res \<noteq> HV_MMIO_OK"
    proof -
      have "s' = s"
        using wr(2) that by (auto simp: hv_vuart_write_def split: if_splits bind_splits)
      then show ?thesis by (simp add: io_out_refl)
    qed
    with w(1) b wr(1,3) show ?thesis by (auto simp: word_less_nat_alt split: if_splits)
  next
    case rd
    note r = hv_vuart_read_frame [OF rd(2)]
    with rd(3) show ?thesis by (auto simp: word_less_nat_alt intro: bank_step_io)
  qed
  then show "res = HV_MMIO_OK \<or> res = HV_MMIO_ERR_UNHANDLED" "bank_step (unat ?id) s s'"
    "res \<noteq> HV_MMIO_OK \<or> \<not> is_write fault \<Longrightarrow> io_out s s' []"
    "res = HV_MMIO_OK \<Longrightarrow> unat ?id < HV_MAX_VMS" by blast+
qed

lemma mmio_write_guest_reg_cases:
  assumes "mmio_write_guest_reg f r v = (res, f')"
  shows "frame_ok f' = frame_ok f" "frame_elr_hyp f' = frame_elr_hyp f"
    "frame_spsr_hyp f' = frame_spsr_hyp f" "frame_hsr f' = frame_hsr f"
  using assms by (auto simp: mmio_write_guest_reg_def frame_ok_def split: if_splits)

lemma hv_mmio_handle_fault_cases:
  assumes "hv_mmio_handle_fault vms (Some v) f fault s = Some (res, f', s')" and "vcpu_vm v = Some i"
  shows "res = HV_MMIO_OK \<or> res = HV_MMIO_ERR_UNHANDLED"
    and "bank_step (unat (vm_id (vms ! i))) s s'"
    and "res \<noteq> HV_MMIO_OK \<Longrightarrow> f' = f \<and> (\<exists>t. io_out s s' t)"
    and "res = HV_MMIO_OK \<Longrightarrow> f' \<noteq> f \<Longrightarrow>
      (\<exists>w. (0, f') = mmio_write_guest_reg f (mmio_access_reg (fault_iss fault)) w) \<and> \<not> is_write fault"
proof -
  let ?id = "unat (vm_id (vms ! i))"
  let ?P = "(res = HV_MMIO_OK \<or> res = HV_MMIO_ERR_UNHANDLED) \<and> bank_step ?id s s' \<and>
    (res \<noteq> HV_MMIO_OK \<longrightarrow> f' = f \<and> (\<exists>t. io_out s s' t)) \<and>
    (res = HV_MMIO_OK \<longrightarrow> f' \<noteq> f \<longrightarrow>
      (\<exists>w. (0, f') = mmio_write_guest_reg f (mmio_access_reg (fault_iss fault)) w) \<and> \<not> is_write fault)"
  have vm: "Option.bind (Some v) vcpu_vm = Some i" using assms(2) by simp
  have same: ?P if "res = HV_MMIO_ERR_UNHANDLED" "f' = f" "s' = s"
    using that io_out_refl [of s] by auto
  have traced: ?P if "res = HV_MMIO_ERR_UNHANDLED" "f' = f" "io_out s s1 []" "bank_step ?id s s1"
      "trace fn fmt args s1 = Some s'" for fn fmt args s1
  proof -
    note H = that
    obtain t where t: "io_out s1 s' t" using trace_io_out [OF H(5)] by blast
    then have "bank_step ?id s s'" using bank_step_trans [OF H(4)] bank_step_io by blast
    moreover have "io_out s s' t" using io_out_trans [OF H(3) t] by simp
    ultimately show ?P using H by auto
  qed
  have ?P
  proof (cases "mmio_decode_access fault")
    case (Inl e)
    then show ?P using assms traced [OF _ _ io_out_refl bank_step_refl]
      by (auto simp: hv_mmio_handle_fault_def split: bind_splits)
  next
    case (Inr access)
    have reg: "access_reg access = mmio_access_reg (fault_iss fault)"
      using Inr by (auto simp: mmio_decode_access_def Let_def split: if_splits)
    show ?P
    proof (cases "hv_vm_find_region (Some (vms ! i)) (fault_ipa fault)")
      case None
      then show ?P using assms Inr same by (simp add: hv_mmio_handle_fault_def)
    next
      case (Some region)
      show ?P
      proof (cases "region_type region = HV_VM_REGION_MMIO")
        case False
        then show ?P using assms Inr Some same by (simp add: hv_mmio_handle_fault_def)
      next
        case True
        let ?val = "if is_write fault
          then map_sum id (\<lambda>v. mmio_mask_value v (access_size access) False)
                 (mmio_read_guest_reg f (access_reg access)) else Inr 0"
        show ?P
        proof (cases ?val)
          case (Inl e)
          then show ?P using assms Inr Some True same by (simp add: hv_mmio_handle_fault_def)
        next
          case V: (Inr w)
          obtain r1 p1 s1 where d: "hv_virtual_device_access vms (Some v) (Some region) fault
              (access_size access) w (Some (access_value access)) s = Some (r1, p1, s1)"
            using assms Inr Some True V
            by (cases "hv_virtual_device_access vms (Some v) (Some region) fault
              (access_size access) w (Some (access_value access)) s") (auto simp: hv_mmio_handle_fault_def)
          note D = virtual_device_cases [OF d vm]
          note run = assms(1) [unfolded hv_mmio_handle_fault_def vm Inr Some option.case sum.case V d]
          show ?P
          proof (cases "r1 = HV_MMIO_OK")
            case False
            then show ?P using run True traced [OF _ _ D(3) D(2)]
              by (auto split: bind_splits)
          next
            case ok: True
            show ?P
            proof (cases "is_write fault")
              case wr: True
              then show ?P using run ok True D(2) by simp
            next
              case rd: False
              then have io: "io_out s s1 []" using D(3) by blast
              obtain r2 f2 where g: "mmio_write_guest_reg f (access_reg access)
                  (mmio_mask_value (case p1 of None \<Rightarrow> 0 | Some w \<Rightarrow> w) (access_size access)
                     (fault_iss fault AND HSR_ISS_ABORT_SSE \<noteq> 0)) = (r2, f2)" by fastforce
              have s': "s' = s1" and rf: "(r2 = HV_MMIO_OK \<and> res = HV_MMIO_OK \<and> f' = f2) \<or>
                  (r2 \<noteq> HV_MMIO_OK \<and> res = HV_MMIO_ERR_UNHANDLED \<and> f' = f)"
                using run ok True rd g by (auto simp: Let_def split: if_splits)
              have "\<exists>w. (0, f') = mmio_write_guest_reg f (mmio_access_reg (fault_iss fault)) w"
                if "res = HV_MMIO_OK"
              proof -
                have "r2 = 0" "f2 = f'" using rf that by simp_all
                with g reg have "mmio_write_guest_reg f (mmio_access_reg (fault_iss fault))
                  (mmio_mask_value (case p1 of None \<Rightarrow> 0 | Some w \<Rightarrow> w) (access_size access)
                     (fault_iss fault AND HSR_ISS_ABORT_SSE \<noteq> 0)) = (0, f')" by simp
                then show ?thesis by (blast intro: sym)
              qed
              moreover have "bank_step ?id s s'" "\<exists>t. io_out s s' t" using D(2) io s' by blast+
              ultimately show ?P using rf rd by blast
            qed
          qed
        qed
      qed
    qed
  qed
  then show "res = HV_MMIO_OK \<or> res = HV_MMIO_ERR_UNHANDLED" "bank_step ?id s s'"
    "res \<noteq> HV_MMIO_OK \<Longrightarrow> f' = f \<and> (\<exists>t. io_out s s' t)"
    "res = HV_MMIO_OK \<Longrightarrow> f' \<noteq> f \<Longrightarrow>
      (\<exists>w. (0, f') = mmio_write_guest_reg f (mmio_access_reg (fault_iss fault)) w) \<and> \<not> is_write fault"
    by blast+
qed

lemma mmio_emulates:
  assumes "vcpu_vm v = Some i" and "unat (vm_id (vms ! i)) < HV_MAX_VMS"
    and "hv_vm_find_region (Some (vms ! i)) (fault_ipa fault) = Some region"
    and "region_type region = HV_VM_REGION_MMIO" and "region_device region = HV_VM_MMIO_DEVICE_VUART"
    and "\<not> is_instruction fault" and "ipa_offset_valid fault"
    and "fault_iss fault AND HSR_ISS_ABORT_ISV \<noteq> 0" and "fault_iss fault AND HSR_ISS_ABORT_S1PTW = 0"
    and "mmio_access_size (fault_iss fault) = sz" and "sz \<noteq> 0"
    and "mmio_access_reg (fault_iss fault) = r" and "unat r < 13"
    and "offset = ucast (fault_ipa fault - ipa_base region)" and "offset AND (sz - 1) = 0"
  shows "(is_write fault \<longrightarrow> (\<forall>s1.
      hv_vuart_write (vm_id (vms ! i)) offset (mmio_mask_value (reg f (unat r)) sz False) sz s = Some (0, s1) \<longrightarrow>
      hv_mmio_handle_fault vms (Some v) f fault s = Some (HV_MMIO_OK, f, s1))) \<and>
    (\<not> is_write fault \<longrightarrow> (\<forall>s1 w.
      hv_vuart_read (vm_id (vms ! i)) offset sz (Some 0) s = Some (0, Some w, s1) \<longrightarrow>
      hv_mmio_handle_fault vms (Some v) f fault s = Some (HV_MMIO_OK,
        f\<lparr>frame_r := (frame_r f)[unat r := mmio_mask_value w sz (fault_iss fault AND HSR_ISS_ABORT_SSE \<noteq> 0)]\<rparr>,
        s1))) \<and>
    (is_write fault \<longrightarrow> hv_vuart_write (vm_id (vms ! i)) offset (mmio_mask_value (reg f (unat r)) sz False) sz s = None \<longrightarrow>
      hv_mmio_handle_fault vms (Some v) f fault s = None)"
proof -
  have dec: "mmio_decode_access fault = Inr \<lparr>access_size = sz, access_reg = r, access_value = 0\<rparr>"
    using assms by (simp add: mmio_decode_access_def Let_def)
  have r13: "r < 13" using assms(13) by (simp add: word_less_nat_alt)
  have id: "\<not> vm_id (vms ! i) \<ge> of_nat HV_MAX_VMS" using assms(2) by (simp add: word_le_nat_alt)
  have dev: "hv_virtual_device_access vms (Some v) (Some region) fault sz w p s =
      (if is_write fault then do {
         (res, s) \<leftarrow> hv_vuart_write (vm_id (vms ! i)) offset w sz s; Some (res, p, s) }
       else hv_vuart_read (vm_id (vms ! i)) offset sz p s)" for w p
    using assms(1,5,14,15) id by (simp add: hv_virtual_device_access_def Let_def)
  show ?thesis
    using assms(1,3,4) dec r13
    by (auto simp: hv_mmio_handle_fault_def dev mmio_read_guest_reg_def mmio_write_guest_reg_def
        set_reg_def Let_def)
qed

subsection \<open>Properties\<close>

text \<open>The value masks are conversions between widths: an unsigned access of one or two bytes
  keeps the low byte or halfword, a signed one sign-extends it, a word access is the identity, and
  the access size is two to the power of the syndrome's size field.\<close>

theorem mmio_mask_is_conversion:
  "mmio_mask_value v 1 False = ucast (ucast v :: u8) \<and>
   mmio_mask_value v 1 True = scast (ucast v :: u8) \<and>
   mmio_mask_value v 2 False = ucast (ucast v :: 16 word) \<and>
   mmio_mask_value v 2 True = scast (ucast v :: 16 word) \<and>
   mmio_mask_value v 4 sg = v \<and>
   mmio_access_size iss = (let sas = unat (drop_bit 22 iss) mod 4 in if sas = 3 then 0 else 2 ^ sas)"
proof -
  let ?w = "drop_bit 22 iss AND 3 :: u32"
  have u: "unat ?w = unat (drop_bit 22 iss) mod 4"
    using unat_and_mask [of "drop_bit 22 iss" 2] by (simp add: mask_eq_exp_minus_1)
  have eq: "?w = 0 \<longleftrightarrow> unat ?w = 0" "?w = 1 \<longleftrightarrow> unat ?w = 1" "?w = 2 \<longleftrightarrow> unat ?w = 2"
    by (simp_all add: word_unat_eq_iff)
  have "unat ?w < 4" by (simp add: u)
  then consider "unat ?w = 0" | "unat ?w = 1" | "unat ?w = 2" | "unat ?w = 3" by linarith
  then have "mmio_access_size iss = (let sas = unat ?w in if sas = 3 then 0 else 2 ^ sas)"
    unfolding mmio_access_size_def Let_def eq by cases simp_all
  then show ?thesis by (simp add: mask_value_signed mask_value_unsigned u)
qed

text \<open>Containment of a trapped device access. Whatever the fault, the guest and the devices,
  a handled access ends in OK or UNHANDLED and changes only the device history and the bank of the
  faulting vCPU's own VM; a refused access leaves the exception frame alone; an accepted one changes
  it only for a load, and then only the register the syndrome names.\<close>

theorem mmio_fault_contained:
  assumes "hv_mmio_handle_fault vms (Some v) f fault s = Some (res, f', s')" and "vcpu_vm v = Some i"
  shows "(res = HV_MMIO_OK \<or> res = HV_MMIO_ERR_UNHANDLED) \<and>
    (\<exists>es u. s' = s\<lparr>hw_log := hw_log s @ es, vuarts := (vuarts s)[unat (vm_id (vms ! i)) := u]\<rparr>) \<and>
    (res = HV_MMIO_ERR_UNHANDLED \<longrightarrow> f' = f) \<and>
    (f' \<noteq> f \<longrightarrow> \<not> is_write fault \<and>
      (let r = mmio_access_reg (fault_iss fault)
       in \<exists>w. (r < 13 \<and> f' = f\<lparr>frame_r := (frame_r f)[unat r := w]\<rparr>) \<or> (r = 14 \<and> f' = f\<lparr>frame_lr := w\<rparr>)))"
proof -
  note C = hv_mmio_handle_fault_cases [OF assms]
  have "\<not> is_write fault \<and> (let r = mmio_access_reg (fault_iss fault)
      in \<exists>w. (r < 13 \<and> f' = f\<lparr>frame_r := (frame_r f)[unat r := w]\<rparr>) \<or> (r = 14 \<and> f' = f\<lparr>frame_lr := w\<rparr>))"
    if ne: "f' \<noteq> f"
  proof -
    have ok: "res = HV_MMIO_OK" using C(1,3) ne by blast
    obtain w where w: "(0, f') = mmio_write_guest_reg f (mmio_access_reg (fault_iss fault)) w"
      and rd: "\<not> is_write fault" using C(4) [OF ok ne] by blast
    from w show ?thesis using rd
      by (auto simp: mmio_write_guest_reg_def set_reg_def Let_def split: if_splits)
  qed
  with C(1-3) show ?thesis by (auto simp: bank_step_def)
qed

text \<open>C32: a legal trapped access is emulated. For a decodable access of \<open>2 ^ k\<close> bytes by register
  \<open>r\<close> (\<open>r0\<close> to \<open>r12\<close>) that is aligned and falls in a virtual-UART region of the vCPU's VM, a store
  hands the register's low bytes to the VM's UART and leaves the frame alone, and a load puts what the
  UART returns, sign- or zero-extended as the syndrome asks, in the register.\<close>

theorem mmio_fault_emulated:
  assumes "vcpu_vm v = Some i" and "unat (vm_id (vms ! i)) < HV_MAX_VMS"
    and "hv_vm_find_region (Some (vms ! i)) (fault_ipa fault) = Some region"
    and "region_type region = HV_VM_REGION_MMIO" and "region_device region = HV_VM_MMIO_DEVICE_VUART"
    and "\<not> is_instruction fault" and "ipa_offset_valid fault"
    and "fault_iss fault AND HSR_ISS_ABORT_ISV \<noteq> 0" and "fault_iss fault AND HSR_ISS_ABORT_S1PTW = 0"
    and "mmio_access_size (fault_iss fault) = sz" and "sz \<noteq> 0"
    and "mmio_access_reg (fault_iss fault) = r" and "unat r < 13"
    and "offset = ucast (fault_ipa fault - ipa_base region)" and "offset AND (sz - 1) = 0"
  shows "(is_write fault \<longrightarrow> (\<forall>s1.
      hv_vuart_write (vm_id (vms ! i)) offset (mmio_mask_value (reg f (unat r)) sz False) sz s = Some (0, s1) \<longrightarrow>
      hv_mmio_handle_fault vms (Some v) f fault s = Some (HV_MMIO_OK, f, s1))) \<and>
    (\<not> is_write fault \<longrightarrow> (\<forall>s1 w.
      hv_vuart_read (vm_id (vms ! i)) offset sz (Some 0) s = Some (0, Some w, s1) \<longrightarrow>
      hv_mmio_handle_fault vms (Some v) f fault s = Some (HV_MMIO_OK,
        f\<lparr>frame_r := (frame_r f)[unat r := mmio_mask_value w sz (fault_iss fault AND HSR_ISS_ABORT_SSE \<noteq> 0)]\<rparr>,
        s1)))"
  using mmio_emulates [OF assms, of f s] by blast

definition example_uart_region :: HvVmRegion where
  "example_uart_region = \<lparr>ipa_base = 0x10000000, region_size = 0x1000, pa_base = 0, attrs = 0,
     region_type = HV_VM_REGION_MMIO, region_device = HV_VM_MMIO_DEVICE_VUART\<rparr>"

definition example_uart_vm :: HvVm where
  "example_uart_vm = zero_HvVm\<lparr>vm_regions := example_uart_region # replicate 7 zero_HvVmRegion,
     region_count := 1\<rparr>"

text \<open>The syndrome of \<open>strb r1, [..]\<close> and of \<open>ldrsb r1, [..]\<close>.\<close>

definition example_fault :: "u64 \<Rightarrow> bool \<Rightarrow> HvStage2FaultInfo" where
  "example_fault ipa wr = \<lparr>fault_vcpu_id = 0, fault_vm_id = 0, fault_ec = 0x24,
     fault_iss = (if wr then 0x1010047 else 0x1210007), fault_status = 7, fault_level = 3, fault_ipa = ipa,
     fault_access = (if wr then HV_STAGE2_ACCESS_WRITE else HV_STAGE2_ACCESS_READ),
     is_write = wr, is_instruction = False, ipa_offset_valid = True\<rparr>"

definition example_vcpu :: HvVcpu where
  "example_vcpu = zero_HvVcpu\<lparr>vcpu_vm := Some 0\<rparr>"

lemma example_uart_find:
  "hv_vm_find_region (Some example_uart_vm) 0x10000068 = Some example_uart_region"
  by (simp add: hv_vm_find_region_def example_uart_vm_def active_regions_def hv_vm_region_contains_def
      example_uart_region_def zero_HvVm_def)

lemma example_uart_sel:
  "vm_id example_uart_vm = 0" "ipa_base example_uart_region = 0x10000000"
  "region_type example_uart_region = HV_VM_REGION_MMIO"
  "region_device example_uart_region = HV_VM_MMIO_DEVICE_VUART"
  by (simp_all add: example_uart_vm_def zero_HvVm_def example_uart_region_def)

lemma example_store:
  "hv_mmio_handle_fault [example_uart_vm] (Some example_vcpu) (set_reg 1 0x123 zero_HypExceptState)
     (example_fault 0x10000068 True) reset_vuart_hw =
   Some (HV_MMIO_OK, set_reg 1 0x123 zero_HypExceptState,
     upd_vuart 0 (baud_update (\<lambda>_. 0x23)) reset_vuart_hw)"
  by (simp add: hv_mmio_handle_fault_def example_vcpu_def example_fault_def example_uart_find
      mmio_decode_access_def mmio_access_size_def mmio_access_reg_def example_uart_sel
      hv_virtual_device_access_def hv_vuart_write_def vuart_valid_access_def mmio_read_guest_reg_def
      mmio_mask_value_def zero_HypExceptState_def Let_def)

theorem mmio_fault_contained_witness:
  "\<exists>s'. hv_mmio_handle_fault [example_uart_vm] (Some example_vcpu) (set_reg 1 0x123 zero_HypExceptState)
     (example_fault 0x10000068 True) reset_vuart_hw =
       Some (HV_MMIO_OK, set_reg 1 0x123 zero_HypExceptState, s') \<and>
     (\<exists>es u. s' = reset_vuart_hw\<lparr>hw_log := es, vuarts := (vuarts reset_vuart_hw)[0 := u]\<rparr>)"
  using mmio_fault_contained [OF example_store, of 0] example_store
  by (auto simp: example_vcpu_def example_uart_sel)

theorem mmio_fault_emulated_witness:
  "hv_mmio_handle_fault [example_uart_vm] (Some example_vcpu) (set_reg 1 0x123 zero_HypExceptState)
     (example_fault 0x10000068 True) reset_vuart_hw =
   Some (HV_MMIO_OK, set_reg 1 0x123 zero_HypExceptState,
     upd_vuart 0 (baud_update (\<lambda>_. 0x23)) reset_vuart_hw)"
proof -
  let ?f = "set_reg 1 0x123 zero_HypExceptState"
  have w: "hv_vuart_write 0 0x68 (mmio_mask_value (reg ?f (unat (1 :: u32))) 1 False) 1 reset_vuart_hw =
      Some (0, upd_vuart 0 (baud_update (\<lambda>_. 0x23)) reset_vuart_hw)"
    by (simp add: hv_vuart_write_def vuart_valid_access_def mmio_mask_value_def zero_HypExceptState_def)
  have "hv_mmio_handle_fault [example_uart_vm] (Some example_vcpu) ?f (example_fault 0x10000068 True)
      reset_vuart_hw = Some (HV_MMIO_OK, ?f, upd_vuart 0 (baud_update (\<lambda>_. 0x23)) reset_vuart_hw)"
    using mmio_fault_emulated [of example_vcpu 0 "[example_uart_vm]" "example_fault 0x10000068 True"
        example_uart_region 1 1 "0x68" ?f reset_vuart_hw] w
    by (simp add: example_vcpu_def example_uart_sel
        example_uart_find example_fault_def mmio_access_size_def mmio_access_reg_def
        Let_def)
  then show ?thesis .
qed

end
