(* ===== verification/Virq.thy ===== *)
theory Virq
  imports Vcpu
begin

section \<open>Virtual interrupts: virq.h, virq-abi.h, virq.c\<close>

text \<open>
  Thirty-two interrupt lines per vCPU, in two bitmaps. A line is raised by the hypervisor, claimed by
  the guest and completed by the guest. \<open>VIRQ_Source\<close> values come from the guest unchecked, so they
  are 32-bit words. Null vCPU pointers are options.

  The locale \<open>irq_lines\<close> is what a guest may rely on, over any representation of the lines. Its
  client lemmas follow a line through an arbitrary history of operations: no interrupt is lost and
  none is delivered twice. The interpretation discharges the laws for the bitmaps of \<open>virq.c\<close>.
\<close>

abbreviation (input) HV_MAX_VIRQS :: u32 where "HV_MAX_VIRQS \<equiv> 32"
abbreviation (input) HV_VIRQ_ERR_INVALID_VCPU :: int where "HV_VIRQ_ERR_INVALID_VCPU \<equiv> -1"
abbreviation (input) HV_VIRQ_ERR_INVALID_VIRQ :: int where "HV_VIRQ_ERR_INVALID_VIRQ \<equiv> -2"
abbreviation (input) HV_VIRQ_ERR_BUSY :: int where "HV_VIRQ_ERR_BUSY \<equiv> -3"
abbreviation (input) HV_VIRQ_ERR_NO_PENDING :: int where "HV_VIRQ_ERR_NO_PENDING \<equiv> -4"
abbreviation (input) HV_VIRQ_ERR_NOT_ACTIVE :: int where "HV_VIRQ_ERR_NOT_ACTIVE \<equiv> -5"
abbreviation (input) VIRQ_TIMER :: u32 where "VIRQ_TIMER \<equiv> 0"
abbreviation (input) VIRQ_UART :: u32 where "VIRQ_UART \<equiv> 1"
abbreviation (input) VIRQ_GPIO :: u32 where "VIRQ_GPIO \<equiv> 2"

record HvVirqController =
  vc_initialized :: bool

definition hv_virq_init :: "HvVirqController \<Rightarrow> HvVirqController" where
  "hv_virq_init controller = controller\<lparr>vc_initialized := True\<rparr>"

definition validate :: "HvVcpu option \<Rightarrow> u32 \<Rightarrow> int" where
  "validate vcpu_p virq_source =
     (if vcpu_p = None then HV_VIRQ_ERR_INVALID_VCPU
      else if virq_source \<ge> HV_MAX_VIRQS then HV_VIRQ_ERR_INVALID_VIRQ
      else 0)"

definition hv_virq_is_pending :: "HvVcpu option \<Rightarrow> u32 \<Rightarrow> bool" where
  "hv_virq_is_pending vcpu_p virq_source =
     (if validate vcpu_p virq_source \<noteq> 0 then False
      else case vcpu_p of None \<Rightarrow> False
           | Some v \<Rightarrow> virq_pending v AND push_bit (unat virq_source) 1 \<noteq> 0)"

definition hv_virq_is_active :: "HvVcpu option \<Rightarrow> u32 \<Rightarrow> bool" where
  "hv_virq_is_active vcpu_p virq_source =
     (if validate vcpu_p virq_source \<noteq> 0 then False
      else case vcpu_p of None \<Rightarrow> False
           | Some v \<Rightarrow> virq_active v AND push_bit (unat virq_source) 1 \<noteq> 0)"

definition hv_virq_sync :: "HvVcpu option \<Rightarrow> 'a hw_scheme \<Rightarrow> 'a hw_scheme" where
  "hv_virq_sync vcpu_p s =
     (case vcpu_p of
        None \<Rightarrow> clear_hcr_bit HCR_VI s
      | Some v \<Rightarrow> if virq_pending v = 0 then clear_hcr_bit HCR_VI s else set_hcr_bit HCR_VI s)"

definition hv_virq_raise :: "HvVcpu option \<Rightarrow> u32 \<Rightarrow> int \<times> HvVcpu option" where
  "hv_virq_raise vcpu_p virq_source =
     (let err = validate vcpu_p virq_source
      in if err \<noteq> 0 then (err, vcpu_p)
         else if hv_virq_is_pending vcpu_p virq_source \<or> hv_virq_is_active vcpu_p virq_source
           then (HV_VIRQ_ERR_BUSY, vcpu_p)
         else (0, hv_vcpu_wake (map_option (\<lambda>v. v\<lparr>virq_pending :=
                    virq_pending v OR push_bit (unat virq_source) 1\<rparr>) vcpu_p)))"

definition hv_virq_claim :: "HvVcpu option \<Rightarrow> int \<times> HvVcpu option" where
  "hv_virq_claim vcpu_p =
     (let err = validate vcpu_p 0
      in case vcpu_p of
           None \<Rightarrow> (err, None)
         | Some v \<Rightarrow>
             if err \<noteq> 0 then (err, Some v)
             else let pending = virq_pending v
             in if pending = 0 then (HV_VIRQ_ERR_NO_PENDING, Some v)
                else (case find (\<lambda>i. pending AND push_bit i 1 \<noteq> 0) [0..<unat HV_MAX_VIRQS] of
                        None \<Rightarrow> (HV_VIRQ_ERR_NO_PENDING, Some v)
                      | Some i \<Rightarrow>
                          let virq_mask = push_bit i 1
                          in (int i, Some (v\<lparr>virq_pending := virq_pending v AND NOT virq_mask,
                                virq_active := virq_active v OR virq_mask\<rparr>))))"

definition hv_virq_complete :: "HvVcpu option \<Rightarrow> u32 \<Rightarrow> int \<times> HvVcpu option" where
  "hv_virq_complete vcpu_p virq =
     (let err = validate vcpu_p virq
      in if err \<noteq> 0 then (err, vcpu_p)
         else if \<not> hv_virq_is_active vcpu_p virq then (HV_VIRQ_ERR_NOT_ACTIVE, vcpu_p)
         else (0, map_option (\<lambda>v. v\<lparr>virq_active := virq_active v AND NOT (push_bit (unat virq) 1)\<rparr>) vcpu_p))"

subsection \<open>The contract of a set of interrupt lines\<close>

datatype virq_op = Raise u32 | Claim | Complete u32

text \<open>A history: the operations with their results.\<close>

fun virq_step ::
    "(u32 \<Rightarrow> 's \<Rightarrow> int \<times> 's) \<Rightarrow> ('s \<Rightarrow> int \<times> 's) \<Rightarrow> (u32 \<Rightarrow> 's \<Rightarrow> int \<times> 's) \<Rightarrow> virq_op \<Rightarrow> 's \<Rightarrow> int \<times> 's" where
  "virq_step r c d (Raise i) s = r i s"
| "virq_step r c d Claim s = c s"
| "virq_step r c d (Complete i) s = d i s"

fun virq_run :: "(virq_op \<Rightarrow> 's \<Rightarrow> int \<times> 's) \<Rightarrow> virq_op list \<Rightarrow> 's \<Rightarrow> (virq_op \<times> int) list \<times> 's" where
  "virq_run step [] s = ([], s)"
| "virq_run step (p # ps) s =
     (case step p s of (res, s1) \<Rightarrow>
        (case virq_run step ps s1 of (tr, s2) \<Rightarrow> ((p, res) # tr, s2)))"

definition raised :: "nat \<Rightarrow> (virq_op \<times> int) list \<Rightarrow> nat" where
  "raised i tr = length (filter (\<lambda>(p, res). res = 0 \<and> (\<exists>n. p = Raise n \<and> unat n = i)) tr)"

definition claimed :: "nat \<Rightarrow> (virq_op \<times> int) list \<Rightarrow> nat" where
  "claimed i tr = length (filter (\<lambda>(p, res). p = Claim \<and> res = int i) tr)"

definition completed :: "nat \<Rightarrow> (virq_op \<times> int) list \<Rightarrow> nat" where
  "completed i tr = length (filter (\<lambda>(p, res). res = 0 \<and> (\<exists>n. p = Complete n \<and> unat n = i)) tr)"

locale irq_lines =
  fixes pend :: "'s \<Rightarrow> nat \<Rightarrow> bool"
    and act :: "'s \<Rightarrow> nat \<Rightarrow> bool"
    and raise_line :: "u32 \<Rightarrow> 's \<Rightarrow> int \<times> 's"
    and claim_line :: "'s \<Rightarrow> int \<times> 's"
    and complete_line :: "u32 \<Rightarrow> 's \<Rightarrow> int \<times> 's"
  assumes raise_ok: "raise_line n s = (0, s') \<Longrightarrow> \<not> pend s (unat n) \<and> \<not> act s (unat n) \<and>
      pend s' = (pend s)(unat n := True) \<and> act s' = act s"
    and raise_fail: "raise_line n s = (res, s') \<Longrightarrow> res \<noteq> 0 \<Longrightarrow> s' = s"
    and claim_ok: "claim_line s = (int i, s') \<Longrightarrow> pend s i \<and> (\<forall>j < i. \<not> pend s j) \<and>
      pend s' = (pend s)(i := False) \<and> act s' = (act s)(i := True)"
    and claim_fail: "claim_line s = (res, s') \<Longrightarrow> res < 0 \<Longrightarrow> s' = s \<and> (\<forall>i. \<not> pend s i)"
    and complete_ok: "complete_line n s = (0, s') \<Longrightarrow> act s (unat n) \<and>
      pend s' = pend s \<and> act s' = (act s)(unat n := False)"
    and complete_fail: "complete_line n s = (res, s') \<Longrightarrow> res \<noteq> 0 \<Longrightarrow> s' = s"
begin

definition excl :: "'s \<Rightarrow> bool" where
  "excl s \<longleftrightarrow> (\<forall>i. \<not> (pend s i \<and> act s i))"

lemma claim_cases:
  assumes "claim_line s = (res, s')"
  obtains i where "res = int i" | "res < 0"
  by (metis assms nonneg_int_cases not_le)

text \<open>A line is never pending and active at once.\<close>

lemma step_excl:
  assumes "excl s" "virq_step raise_line claim_line complete_line p s = (res, s')"
  shows "excl s'"
proof (cases p)
  case (Raise n)
  with assms raise_ok [of n s s'] raise_fail [of n s res s'] show ?thesis
    by (cases "res = 0") (auto simp: excl_def)
next
  case Claim
  with assms(2) have c: "claim_line s = (res, s')" by simp
  then show ?thesis
  proof (cases rule: claim_cases)
    case (1 i)
    with c claim_ok [of s i s'] assms(1) show ?thesis by (auto simp: excl_def)
  next
    case 2
    with c claim_fail assms(1) show ?thesis by blast
  qed
next
  case (Complete n)
  with assms complete_ok [of n s s'] complete_fail [of n s res s'] show ?thesis
    by (cases "res = 0") (auto simp: excl_def)
qed

text \<open>One step changes each of the three counts and the line together.\<close>

lemma step_balance:
  assumes "virq_step raise_line claim_line complete_line p s = (res, s')" "excl s"
  shows "raised i [(p, res)] + of_bool (pend s i) = claimed i [(p, res)] + of_bool (pend s' i)"
    and "claimed i [(p, res)] + of_bool (act s i) = completed i [(p, res)] + of_bool (act s' i)"
proof -
  have "raised i [(p, res)] + of_bool (pend s i) = claimed i [(p, res)] + of_bool (pend s' i) \<and>
    claimed i [(p, res)] + of_bool (act s i) = completed i [(p, res)] + of_bool (act s' i)"
  proof (cases p)
    case (Raise n)
    with assms raise_ok [of n s s'] raise_fail [of n s res s'] show ?thesis
      by (cases "res = 0") (auto simp: raised_def claimed_def completed_def)
  next
    case Claim
    with assms(1) have c: "claim_line s = (res, s')" by simp
    then show ?thesis
    proof (cases rule: claim_cases)
      case (1 k)
      with c claim_ok [of s k s'] assms(2) Claim show ?thesis
        by (auto simp: raised_def claimed_def completed_def excl_def)
    next
      case 2
      with c claim_fail [of s res s'] Claim show ?thesis
        by (auto simp: raised_def claimed_def completed_def)
    qed
  next
    case (Complete n)
    with assms complete_ok [of n s s'] complete_fail [of n s res s'] show ?thesis
      by (cases "res = 0") (auto simp: raised_def claimed_def completed_def)
  qed
  then show "raised i [(p, res)] + of_bool (pend s i) = claimed i [(p, res)] + of_bool (pend s' i)"
    "claimed i [(p, res)] + of_bool (act s i) = completed i [(p, res)] + of_bool (act s' i)" by blast+
qed

lemma count_Cons:
  "raised i (x # tr) = raised i [x] + raised i tr"
  "claimed i (x # tr) = claimed i [x] + claimed i tr"
  "completed i (x # tr) = completed i [x] + completed i tr"
  by (simp_all add: raised_def claimed_def completed_def)

lemma run_balance:
  assumes "excl s" "virq_run (virq_step raise_line claim_line complete_line) ps s = (tr, s')"
  shows "raised i tr + of_bool (pend s i) = claimed i tr + of_bool (pend s' i) \<and>
    claimed i tr + of_bool (act s i) = completed i tr + of_bool (act s' i) \<and> excl s'"
  using assms
proof (induction ps arbitrary: s tr)
  case Nil
  then show ?case by (simp add: raised_def claimed_def completed_def)
next
  case (Cons p ps)
  obtain res s1 where st: "virq_step raise_line claim_line complete_line p s = (res, s1)" by fastforce
  obtain tr1 where r: "virq_run (virq_step raise_line claim_line complete_line) ps s1 = (tr1, s')"
    and tr: "tr = (p, res) # tr1" using Cons.prems(2) st by (auto split: prod.splits)
  from Cons.IH [OF step_excl [OF Cons.prems(1) st] r] step_balance [OF st Cons.prems(1), of i]
  show ?case unfolding tr count_Cons [of i "(p, res)" tr1] by linarith
qed

end

subsection \<open>The bitmaps of virq.c\<close>

definition vcpu_raise :: "u32 \<Rightarrow> HvVcpu option \<Rightarrow> int \<times> HvVcpu option" where
  "vcpu_raise n v = hv_virq_raise v n"

definition vcpu_complete :: "u32 \<Rightarrow> HvVcpu option \<Rightarrow> int \<times> HvVcpu option" where
  "vcpu_complete n v = hv_virq_complete v n"

definition line_pending :: "HvVcpu option \<Rightarrow> nat \<Rightarrow> bool" where
  "line_pending vcpu_p i = (case vcpu_p of None \<Rightarrow> False | Some v \<Rightarrow> bit (virq_pending v) i)"

definition line_active :: "HvVcpu option \<Rightarrow> nat \<Rightarrow> bool" where
  "line_active vcpu_p i = (case vcpu_p of None \<Rightarrow> False | Some v \<Rightarrow> bit (virq_active v) i)"

lemma line_None [simp]: "\<not> line_pending None i" "\<not> line_active None i"
  by (simp_all add: line_pending_def line_active_def)

lemma line_wake [simp]:
  "line_pending (hv_vcpu_wake v) i = line_pending v i" "line_active (hv_vcpu_wake v) i = line_active v i"
  by (cases v; simp add: line_pending_def line_active_def hv_vcpu_wake_def)+

lemma validate_Some: "validate (Some v) n = 0 \<longleftrightarrow> unat n < 32"
  by (simp add: validate_def word_le_nat_alt)

lemma virq_lookup_Some:
  "hv_virq_is_pending (Some v) n \<longleftrightarrow> unat n < 32 \<and> bit (virq_pending v) (unat n)"
  "hv_virq_is_active (Some v) n \<longleftrightarrow> unat n < 32 \<and> bit (virq_active v) (unat n)"
  by (simp_all only: hv_virq_is_pending_def hv_virq_is_active_def validate_Some and_push_bit_1_neq_0
      option.case split: if_splits) auto

lemma hv_virq_raise_Some:
  "hv_virq_raise (Some v) n =
     (if \<not> unat n < 32 then (HV_VIRQ_ERR_INVALID_VIRQ, Some v)
      else if bit (virq_pending v) (unat n) \<or> bit (virq_active v) (unat n)
        then (HV_VIRQ_ERR_BUSY, Some v)
      else (0, hv_vcpu_wake (Some (v\<lparr>virq_pending := virq_pending v OR push_bit (unat n) 1\<rparr>))))"
proof -
  have "validate (Some v) n = (if unat n < 32 then 0 else HV_VIRQ_ERR_INVALID_VIRQ)"
    by (simp add: validate_def word_le_nat_alt)
  then show ?thesis
    by (simp only: hv_virq_raise_def Let_def virq_lookup_Some option.map split: if_splits) auto
qed

lemma hv_virq_complete_Some:
  "hv_virq_complete (Some v) n =
     (if \<not> unat n < 32 then (HV_VIRQ_ERR_INVALID_VIRQ, Some v)
      else if \<not> bit (virq_active v) (unat n) then (HV_VIRQ_ERR_NOT_ACTIVE, Some v)
      else (0, Some (v\<lparr>virq_active := virq_active v AND NOT (push_bit (unat n) 1)\<rparr>)))"
proof -
  have "validate (Some v) n = (if unat n < 32 then 0 else HV_VIRQ_ERR_INVALID_VIRQ)"
    by (simp add: validate_def word_le_nat_alt)
  then show ?thesis
    by (simp only: hv_virq_complete_def Let_def virq_lookup_Some option.map split: if_splits) auto
qed

lemma hv_virq_claim_cases:
  obtains (none) "virq_pending v = 0" "hv_virq_claim (Some v) = (HV_VIRQ_ERR_NO_PENDING, Some v)"
  | (line) i where "i < 32" "bit (virq_pending v) i" "\<And>j. j < i \<Longrightarrow> \<not> bit (virq_pending v) j"
      "hv_virq_claim (Some v) = (int i, Some (v\<lparr>virq_pending := virq_pending v AND NOT (push_bit i 1),
         virq_active := virq_active v OR push_bit i 1\<rparr>))"
proof (cases "virq_pending v = 0")
  case True
  then show thesis by (intro none) (simp_all add: hv_virq_claim_def validate_def)
next
  case False
  then obtain k where "bit (virq_pending v) k" by (metis bit_0_eq bit_eqI bot_apply bot_bool_def)
  moreover from this have "k < 32" by (auto dest: bit_imp_le_length)
  ultimately have "find (\<lambda>i. virq_pending v AND push_bit i 1 \<noteq> 0) [0..<32] \<noteq> None"
    unfolding find_None_iff and_push_bit_1_neq_0 by auto
  then obtain i where f: "find (\<lambda>i. virq_pending v AND push_bit i 1 \<noteq> 0) [0..<32] = Some i" by blast
  then obtain m where m: "m < length [0..<32]" "bit (virq_pending v) ([0..<32] ! m)" "i = [0..<32] ! m"
    "\<forall>j<m. \<not> bit (virq_pending v) ([0..<32] ! j)"
    unfolding find_Some_iff and_push_bit_1_neq_0 by blast
  then have i: "i = m" "i < 32" "bit (virq_pending v) i" "\<And>j. j < i \<Longrightarrow> \<not> bit (virq_pending v) j"
    by auto
  have "validate (Some v) 0 = 0" "unat (32 :: u32) = 32" by (simp_all add: validate_Some)
  then have "hv_virq_claim (Some v) = (int i, Some (v\<lparr>virq_pending := virq_pending v AND NOT (push_bit i 1),
         virq_active := virq_active v OR push_bit i 1\<rparr>))"
    using False by (simp only: hv_virq_claim_def Let_def option.case f) simp
  with i show thesis by (intro line) auto
qed

lemma virq_null [null_simps]:
  "hv_virq_raise None n = (HV_VIRQ_ERR_INVALID_VCPU, None)"
  "hv_virq_claim None = (HV_VIRQ_ERR_INVALID_VCPU, None)"
  "hv_virq_complete None n = (HV_VIRQ_ERR_INVALID_VCPU, None)"
  by (simp_all add: hv_virq_raise_def hv_virq_claim_def hv_virq_complete_def validate_def)

lemma bit_or_push: "bit (w OR push_bit n 1) = (bit w)(n := True)" if "n < LENGTH('a)" for w :: "'a::len word"
  using that by (auto simp: fun_eq_iff bit_simps)

lemma bit_and_not_push: "bit (w AND NOT (push_bit n 1)) = (bit w)(n := False)" for w :: "'a::len word"
  by (rule ext) (auto simp: bit_simps dest: bit_imp_le_length)

lemmas bit_line_simps = bit_or_push bit_and_not_push bit_or_push [unfolded push_bit_of_1]
  bit_and_not_push [unfolded push_bit_of_1]

lemma raise_ok_line:
  assumes "vcpu_raise n s = (0, s')"
  shows "\<not> line_pending s (unat n) \<and> \<not> line_active s (unat n) \<and>
    line_pending s' = (line_pending s)(unat n := True) \<and> line_active s' = line_active s"
proof (cases s)
  case None
  then show ?thesis using assms by (simp add: vcpu_raise_def null_simps)
next
  case (Some v)
  with assms have n: "unat n < 32" "\<not> bit (virq_pending v) (unat n)" "\<not> bit (virq_active v) (unat n)"
    and s': "s' = hv_vcpu_wake (Some (v\<lparr>virq_pending := virq_pending v OR push_bit (unat n) 1\<rparr>))"
    by (auto simp: vcpu_raise_def hv_virq_raise_Some split: if_splits)
  have "line_pending s' = (line_pending s)(unat n := True)"
  proof
    fix i
    show "line_pending s' i = ((line_pending s)(unat n := True)) i"
      unfolding s' line_wake using n(1) Some bit_or_push [of "unat n" "virq_pending v"]
      by (simp add: line_pending_def)
  qed
  moreover have "line_active s' = line_active s"
    by (rule ext) (simp add: s' Some, simp add: line_active_def)
  ultimately show ?thesis using n Some by (simp add: line_pending_def line_active_def)
qed

lemma claim_ok_line:
  assumes "hv_virq_claim s = (int i, s')"
  shows "line_pending s i \<and> (\<forall>j < i. \<not> line_pending s j) \<and>
    line_pending s' = (line_pending s)(i := False) \<and> line_active s' = (line_active s)(i := True)"
proof (cases s)
  case None
  then show ?thesis using assms by (simp add: null_simps)
next
  case (Some v)
  show ?thesis
  proof (cases rule: hv_virq_claim_cases [of v])
    case none
    then show ?thesis using assms Some by simp
  next
    case (line k)
    then have "k = i" "s' = Some (v\<lparr>virq_pending := virq_pending v AND NOT (push_bit i 1),
         virq_active := virq_active v OR push_bit i 1\<rparr>)" using assms Some by auto
    with line Some show ?thesis
      by (simp add: line_pending_def line_active_def bit_line_simps fun_eq_iff)
  qed
qed

interpretation virq_lines: irq_lines line_pending line_active vcpu_raise hv_virq_claim vcpu_complete
proof
  fix n i res and s s' :: "HvVcpu option"
  show "\<not> line_pending s (unat n) \<and> \<not> line_active s (unat n) \<and>
      line_pending s' = (line_pending s)(unat n := True) \<and> line_active s' = line_active s"
    if "vcpu_raise n s = (0, s')" using raise_ok_line [OF that] .
  show "s' = s" if "vcpu_raise n s = (res, s')" "res \<noteq> 0"
    using that by (cases s) (auto simp: vcpu_raise_def null_simps hv_virq_raise_Some split: if_splits)
  show "line_pending s i \<and> (\<forall>j < i. \<not> line_pending s j) \<and>
      line_pending s' = (line_pending s)(i := False) \<and> line_active s' = (line_active s)(i := True)"
    if "hv_virq_claim s = (int i, s')" using claim_ok_line [OF that] .
  show "s' = s \<and> (\<forall>i. \<not> line_pending s i)" if "hv_virq_claim s = (res, s')" "res < 0"
  proof (cases s)
    case (Some v)
    with that show ?thesis by (cases rule: hv_virq_claim_cases [of v]) (auto simp: line_pending_def)
  qed (use that in \<open>simp add: null_simps\<close>)
  show "line_active s (unat n) \<and> line_pending s' = line_pending s \<and>
      line_active s' = (line_active s)(unat n := False)" if "vcpu_complete n s = (0, s')"
  proof (cases s)
    case (Some v)
    with that show ?thesis
      by (auto simp: vcpu_complete_def hv_virq_complete_Some line_pending_def line_active_def
          bit_line_simps fun_eq_iff split: if_splits)
  qed (use that in \<open>simp add: vcpu_complete_def null_simps\<close>)
  show "s' = s" if "vcpu_complete n s = (res, s')" "res \<noteq> 0"
    using that by (cases s) (auto simp: vcpu_complete_def null_simps hv_virq_complete_Some split: if_splits)
qed

subsection \<open>Properties\<close>

text \<open>\<open>hv_virq_raise\<close> accepts a line exactly when it is one of the 32 lines and neither pending
  nor active. It then sets that pending bit alone and makes a blocked vCPU runnable. A refused raise
  changes nothing: in particular a vCPU that blocked with the line still pending or active is not
  woken.\<close>

theorem virq_raise_correct:
  "hv_virq_raise (Some v) n = (res, vp) \<Longrightarrow>
   res = (if \<not> unat n < 32 then HV_VIRQ_ERR_INVALID_VIRQ
     else if bit (virq_pending v) (unat n) \<or> bit (virq_active v) (unat n) then HV_VIRQ_ERR_BUSY
     else 0) \<and>
   (if res = 0
    then \<exists>w. vp = Some w \<and> bit (virq_pending w) = (bit (virq_pending v))(unat n := True) \<and>
      virq_active w = virq_active v \<and> vcpu_timer w = vcpu_timer v \<and>
      vcpu_context w = vcpu_context v \<and>
      vcpu_state w = (if vcpu_state v = HV_VCPU_BLOCKED then HV_VCPU_RUNNABLE else vcpu_state v)
    else vp = Some v)"
  by (auto simp: hv_virq_raise_Some hv_vcpu_wake_def bit_line_simps split: if_splits)

theorem virq_raise_correct_witness:
  "\<exists>w. hv_virq_raise (Some (zero_HvVcpu\<lparr>vcpu_state := HV_VCPU_BLOCKED\<rparr>)) VIRQ_TIMER = (0, Some w) \<and>
     vcpu_state w = HV_VCPU_RUNNABLE"
proof -
  let ?v = "zero_HvVcpu\<lparr>vcpu_state := HV_VCPU_BLOCKED\<rparr>"
  obtain res vp where r: "hv_virq_raise (Some ?v) VIRQ_TIMER = (res, vp)" by fastforce
  from virq_raise_correct [OF r] have "res = 0" by (simp add: zero_HvVcpu_def)
  with virq_raise_correct [OF r] r show ?thesis by auto
qed

text \<open>\<open>hv_virq_claim\<close> answers the lowest pending line, moving it from the pending to the active
  bitmap, and reports \<open>NO_PENDING\<close> exactly when no line is pending. \<open>hv_virq_complete\<close> ends
  exactly an active line of the 32, and changes nothing otherwise.\<close>

theorem virq_claim_complete_correct:
  "hv_virq_claim (Some v) = (c, vc) \<Longrightarrow> hv_virq_complete (Some v) n = (d, vd) \<Longrightarrow>
   (if virq_pending v = 0 then c = HV_VIRQ_ERR_NO_PENDING \<and> vc = Some v
    else \<exists>i w. c = int i \<and> i < 32 \<and> bit (virq_pending v) i \<and> (\<forall>j < i. \<not> bit (virq_pending v) j) \<and>
      vc = Some w \<and> bit (virq_pending w) = (bit (virq_pending v))(i := False) \<and>
      bit (virq_active w) = (bit (virq_active v))(i := True)) \<and>
   (if unat n < 32 \<and> bit (virq_active v) (unat n)
    then d = 0 \<and> (\<exists>w. vd = Some w \<and> virq_pending w = virq_pending v \<and>
      bit (virq_active w) = (bit (virq_active v))(unat n := False))
    else d < 0 \<and> vd = Some v)"
proof (rule conjI)
  assume c: "hv_virq_claim (Some v) = (c, vc)" and d: "hv_virq_complete (Some v) n = (d, vd)"
  show "if virq_pending v = 0 then c = HV_VIRQ_ERR_NO_PENDING \<and> vc = Some v
    else \<exists>i w. c = int i \<and> i < 32 \<and> bit (virq_pending v) i \<and> (\<forall>j < i. \<not> bit (virq_pending v) j) \<and>
      vc = Some w \<and> bit (virq_pending w) = (bit (virq_pending v))(i := False) \<and>
      bit (virq_active w) = (bit (virq_active v))(i := True)"
  proof (cases rule: hv_virq_claim_cases [of v])
    case none
    with c show ?thesis by simp
  next
    case (line i)
    then have "virq_pending v \<noteq> 0" by auto
    with line c show ?thesis by (auto simp: bit_line_simps)
  qed
  show "if unat n < 32 \<and> bit (virq_active v) (unat n)
    then d = 0 \<and> (\<exists>w. vd = Some w \<and> virq_pending w = virq_pending v \<and>
      bit (virq_active w) = (bit (virq_active v))(unat n := False))
    else d < 0 \<and> vd = Some v"
    using d by (auto simp: hv_virq_complete_Some bit_line_simps split: if_splits)
qed

theorem virq_claim_complete_correct_witness:
  "fst (hv_virq_claim (Some (zero_HvVcpu\<lparr>virq_pending := 6\<rparr>))) = 1 \<and>
   fst (hv_virq_complete (Some (zero_HvVcpu\<lparr>virq_pending := 6\<rparr>)) 1) < 0"
proof -
  let ?v = "zero_HvVcpu\<lparr>virq_pending := 6\<rparr>"
  obtain c vc where c: "hv_virq_claim (Some ?v) = (c, vc)" by fastforce
  obtain d vd where d: "hv_virq_complete (Some ?v) 1 = (d, vd)" by fastforce
  note C = virq_claim_complete_correct [OF c d]
  then obtain i where i: "c = int i" "bit (6 :: u32) i" "\<forall>j < i. \<not> bit (6 :: u32) j" by auto
  have b: "bit (6 :: u32) 1" "\<not> bit (6 :: u32) 0" by simp_all
  then have "i = 1" using i(2,3) by (metis less_one linorder_neqE_nat)
  moreover have "d < 0" using C by (simp add: zero_HvVcpu_def)
  ultimately show ?thesis using c d i(1) by simp
qed

text \<open>C31: interrupts are conserved. Over any history of raises, claims and completions of a vCPU that
  starts with no line both pending and active, each line is claimed as often as it was successfully
  raised, plus one if it was pending before and minus one if it still is, and completed as often as
  it was claimed, up to one still active. Nothing is lost, delivered twice, or completed without a
  claim, and no line is ever pending and active at once.\<close>

theorem virq_conservation:
  assumes "virq_pending v AND virq_active v = 0"
    and "virq_run (virq_step vcpu_raise hv_virq_claim vcpu_complete) ps (Some v) = (tr, Some w)"
  shows "raised i tr + of_bool (bit (virq_pending v) i) = claimed i tr + of_bool (bit (virq_pending w) i) \<and>
    claimed i tr + of_bool (bit (virq_active v) i) = completed i tr + of_bool (bit (virq_active w) i) \<and>
    virq_pending w AND virq_active w = 0"
proof -
  have "\<not> (bit (virq_pending v) j \<and> bit (virq_active v) j)" for j
    using assms(1) by (metis bit_and_iff bit_0_eq bot_apply bot_bool_def)
  then have e: "virq_lines.excl (Some v)"
    by (simp add: virq_lines.excl_def line_pending_def line_active_def)
  note R = virq_lines.run_balance [OF e assms(2)]
  have "virq_pending w AND virq_active w = 0"
    using R by (intro bit_word_eqI)
      (auto simp: virq_lines.excl_def line_pending_def line_active_def bit_and_iff)
  with R [of i] show ?thesis by (simp add: line_pending_def line_active_def)
qed

lemma example_history:
  "virq_run (virq_step vcpu_raise hv_virq_claim vcpu_complete) [Raise 0, Claim] (Some zero_HvVcpu) =
     ([(Raise 0, 0), (Claim, 0)], Some (zero_HvVcpu\<lparr>virq_active := 1\<rparr>))"
proof -
  have r: "vcpu_raise 0 (Some zero_HvVcpu) = (0, Some (zero_HvVcpu\<lparr>virq_pending := 1\<rparr>))"
    by (simp add: vcpu_raise_def hv_virq_raise_Some hv_vcpu_wake_def zero_HvVcpu_def)
  have "[0..<32] = 0 # [Suc 0..<32]" by (simp add: upt_conv_Cons)
  then have "hv_virq_claim (Some (zero_HvVcpu\<lparr>virq_pending := 1\<rparr>)) =
      (0, Some (zero_HvVcpu\<lparr>virq_active := 1\<rparr>))"
    by (simp add: hv_virq_claim_def validate_def zero_HvVcpu_def Let_def)
  with r show ?thesis by simp
qed

theorem virq_conservation_witness:
  "\<exists>tr w. virq_run (virq_step vcpu_raise hv_virq_claim vcpu_complete) [Raise 0, Claim] (Some zero_HvVcpu) =
     (tr, Some w) \<and> claimed 0 tr = 1 \<and> completed 0 tr + of_bool (bit (virq_active w) 0) = 1"
proof -
  have "virq_pending zero_HvVcpu AND virq_active zero_HvVcpu = 0" by (simp add: zero_HvVcpu_def)
  from virq_conservation [OF this example_history, of 0]
  have c: "completed 0 [(Raise 0, 0), (Claim, 0)] + of_bool (bit (1 :: u32) 0) = 1 \<and>
      claimed 0 [(Raise 0, 0), (Claim, 0)] = 1"
    by (simp add: claimed_def zero_HvVcpu_def)
  show ?thesis by (intro exI conjI, rule example_history) (use c in simp_all)
qed

end
