(* ===== verification/Scheduler.thy ===== *)
theory Scheduler
  imports Mmio Virq
begin

section \<open>The scheduler: scheduler.h, scheduler.c, guest-image.h\<close>

text \<open>
  The global \<open>scheduler\<close>, which every operation is called on, is a field of the machine; \<open>HvVcpu *\<close>
  values that point into its array are indices, so that two pointers are equal when the indices are,
  and a write through one is seen through the other. What the linker decides (where the tables, the
  idle loop and its stack are, the guest programs it embeds) is the record \<open>hv_image\<close>.

  A machine may not come back from an operation that traces (the transmitter may never be ready):
  these return options.
\<close>

abbreviation (input) HV_MAX_GUEST_VCPUS :: nat where "HV_MAX_GUEST_VCPUS \<equiv> HV_MAX_VMS"
abbreviation (input) HV_IDLE_VCPU_IDX :: nat where "HV_IDLE_VCPU_IDX \<equiv> HV_MAX_GUEST_VCPUS"
abbreviation (input) HV_MAX_VCPUS :: nat where "HV_MAX_VCPUS \<equiv> HV_MAX_GUEST_VCPUS + 1"
abbreviation (input) HV_IDLE_VCPU_ID :: u32 where "HV_IDLE_VCPU_ID \<equiv> 0xffffffff"
abbreviation (input) HYP_ACTION_RETURN :: int where "HYP_ACTION_RETURN \<equiv> 0"
abbreviation (input) HYP_ACTION_HALT :: int where "HYP_ACTION_HALT \<equiv> 1"
abbreviation (input) GUEST_BASE :: u64 where "GUEST_BASE \<equiv> 0x20000"
abbreviation (input) GUEST_SLOT_SIZE :: u64 where "GUEST_SLOT_SIZE \<equiv> 0x10000"
abbreviation (input) HV_GUEST_UART_BASE :: u64 where "HV_GUEST_UART_BASE \<equiv> 0x10000000"
abbreviation (input) HV_GUEST_UART_SIZE :: u64 where "HV_GUEST_UART_SIZE \<equiv> HV_STAGE2_PAGE_SIZE"

definition GUEST_SLOT_BASE :: "u64 \<Rightarrow> u64" where
  "GUEST_SLOT_BASE n = GUEST_BASE + n * GUEST_SLOT_SIZE"

record HvScheduler =
  sch_vm :: "HvVm list"
  sch_vcpus :: "HvVcpu list"
  cur_idx :: u32
  cur_vcpu :: "nat option"

record machine = vuart_hw +
  scheduler :: HvScheduler
  virq_controller :: HvVirqController
  hv_scheduler_verbose :: bool
  hyp_except_verbose :: bool
  irq_counter :: u32

record hv_image =
  img_tables :: u32
  img_idle_entry :: u32
  img_idle_stack_top :: u32
  img_guests :: "u8 list list"

subsection \<open>Reading and writing the vCPU array\<close>

definition vcpu_at :: "nat \<Rightarrow> machine \<Rightarrow> HvVcpu" where
  "vcpu_at i s = sch_vcpus (scheduler s) ! i"

definition upd_vcpu :: "nat \<Rightarrow> (HvVcpu \<Rightarrow> HvVcpu) \<Rightarrow> machine \<Rightarrow> machine" where
  "upd_vcpu i f s = s\<lparr>scheduler := (scheduler s)
     \<lparr>sch_vcpus := (sch_vcpus (scheduler s))[i := f (sch_vcpus (scheduler s) ! i)]\<rparr>\<rparr>"

definition upd_vm :: "nat \<Rightarrow> HvVm \<Rightarrow> machine \<Rightarrow> machine" where
  "upd_vm i vm s = s\<lparr>scheduler := (scheduler s)\<lparr>sch_vm := (sch_vm (scheduler s))[i := vm]\<rparr>\<rparr>"

text \<open>A pointer argument as its target, and storing through it what a vCPU operation made of it.\<close>

definition deref :: "nat option \<Rightarrow> machine \<Rightarrow> HvVcpu option" where
  "deref p s = map_option (\<lambda>i. vcpu_at i s) p"

definition store :: "nat option \<Rightarrow> HvVcpu option \<Rightarrow> machine \<Rightarrow> machine" where
  "store p v s = (case (p, v) of (Some i, Some v) \<Rightarrow> upd_vcpu i (\<lambda>_. v) s | _ \<Rightarrow> s)"

subsection \<open>Queries\<close>

definition hv_scheduler_get_current :: "machine \<Rightarrow> nat option" where
  "hv_scheduler_get_current s = cur_vcpu (scheduler s)"

definition hv_scheduler_is_idle_idx :: "u32 \<Rightarrow> bool" where
  "hv_scheduler_is_idle_idx idx \<longleftrightarrow> idx = of_nat HV_IDLE_VCPU_IDX"

definition hv_scheduler_is_idle_vcpu :: "HvVcpu option \<Rightarrow> bool" where
  "hv_scheduler_is_idle_vcpu vcpu_p =
     (case vcpu_p of None \<Rightarrow> False | Some v \<Rightarrow> vcpu_id v = HV_IDLE_VCPU_ID)"

definition hv_scheduler_has_runnable :: "machine \<Rightarrow> bool" where
  "hv_scheduler_has_runnable s =
     list_ex (\<lambda>i. vcpu_state (vcpu_at i s) = HV_VCPU_RUNNABLE) [0..<HV_MAX_GUEST_VCPUS]"

definition hv_scheduler_pick_next_idx :: "machine \<Rightarrow> int" where
  "hv_scheduler_pick_next_idx s =
     (let start = cur_idx (scheduler s) in
      case find (\<lambda>idx. \<not> hv_scheduler_is_idle_idx idx \<and>
                   vcpu_state (vcpu_at (unat idx) s) = HV_VCPU_RUNNABLE)
             (map (\<lambda>offset. (start + of_nat offset) mod of_nat HV_MAX_VCPUS) [1..<HV_MAX_VCPUS + 1]) of
        Some idx \<Rightarrow> uint idx
      | None \<Rightarrow> -1)"

definition hv_scheduler_pick_next :: "machine \<Rightarrow> nat option" where
  "hv_scheduler_pick_next s =
     (let idx = hv_scheduler_pick_next_idx s in if idx = -1 then None else Some (nat idx))"

subsection \<open>Switching\<close>

definition hv_scheduler_sync_traps :: "u32 \<Rightarrow> 'a hw_scheme \<Rightarrow> 'a hw_scheme" where
  "hv_scheduler_sync_traps next_idx s =
     (if hv_scheduler_is_idle_idx next_idx then clear_hcr_bit HCR_TWI s else set_hcr_bit HCR_TWI s)"

definition hv_scheduler_advance_trapped_wfi :: "HypExceptState \<Rightarrow> HypExceptState" where
  "hv_scheduler_advance_trapped_wfi hyp_state =
     (let instr_len = (if HSR_IL (frame_hsr hyp_state) \<noteq> 0 then 4 else 2)
      in hyp_state\<lparr>frame_elr_hyp := frame_elr_hyp hyp_state + instr_len\<rparr>)"

text \<open>What \<open>switch_to\<close> and \<open>advance\<close> make of a running vCPU.\<close>

definition leave_running :: "HvVcpu \<Rightarrow> HvVcpu" where
  "leave_running v =
     (if vcpu_state v = HV_VCPU_RUNNING
      then if hv_scheduler_is_idle_vcpu (Some v) then v\<lparr>vcpu_state := HV_VCPU_IDLE\<rparr>
           else v\<lparr>vcpu_state := HV_VCPU_RUNNABLE\<rparr>
      else v)"

definition hv_scheduler_switch_to ::
    "HypExceptState \<Rightarrow> int \<Rightarrow> machine \<Rightarrow> (int \<times> HypExceptState \<times> machine) option" where
  "hv_scheduler_switch_to hyp_state next_idx s = do {
     let prev = cur_vcpu (scheduler s);
     let nxt = nat next_idx;
     let prev_id = (case prev of None \<Rightarrow> 0xffffffff | Some p \<Rightarrow> vcpu_id (vcpu_at p s));
     let s = (case prev of
         None \<Rightarrow> s
       | Some p \<Rightarrow>
           let s = upd_vcpu p (\<lambda>v. hv_vcpu_save v hyp_state s) s
           in upd_vcpu p leave_running s);
     s \<leftarrow> (if hv_scheduler_verbose s
          then trace ''hv_scheduler_switch_to'' (''sched switch prev=%d next=%d elr=%p'' @ nl)
                 [PInt prev_id, PInt (vcpu_id (vcpu_at nxt s)),
                  PInt (frame_elr_hyp (ctx_hyp_state (vcpu_context (vcpu_at nxt s))))] s
          else Some s);
     let s = upd_vcpu nxt (vcpu_state_update (\<lambda>_. HV_VCPU_RUNNING)) s;
     let s = s\<lparr>scheduler := (scheduler s)\<lparr>cur_idx := of_int next_idx\<rparr>\<rparr>;
     let s = s\<lparr>scheduler := (scheduler s)\<lparr>cur_vcpu := Some nxt\<rparr>\<rparr>;
     let s = hv_scheduler_sync_traps (of_int next_idx) s;
     let s = hv_mmu_activate_vcpu (sch_vm (scheduler s)) (Some (vcpu_at nxt s)) s;
     let (v, hyp_state, s) = hv_vcpu_load (vcpu_at nxt s) s;
     let s = upd_vcpu nxt (\<lambda>_. v) s;
     let s = hv_virq_sync (Some (vcpu_at nxt s)) s;
     Some (HYP_ACTION_RETURN, hyp_state, s)
   }"

definition hv_scheduler_enter_idle ::
    "HypExceptState \<Rightarrow> machine \<Rightarrow> (int \<times> HypExceptState \<times> machine) option" where
  "hv_scheduler_enter_idle hyp_state s =
     (if cur_vcpu (scheduler s) = Some HV_IDLE_VCPU_IDX
      then let s = upd_vcpu HV_IDLE_VCPU_IDX (vcpu_state_update (\<lambda>_. HV_VCPU_RUNNING)) s;
               s = s\<lparr>scheduler := (scheduler s)\<lparr>cur_idx := of_nat HV_IDLE_VCPU_IDX\<rparr>\<rparr>;
               s = hv_scheduler_sync_traps (of_nat HV_IDLE_VCPU_IDX) s;
               s = hv_mmu_activate_vcpu (sch_vm (scheduler s)) (Some (vcpu_at HV_IDLE_VCPU_IDX s)) s;
               s = hv_virq_sync (Some (vcpu_at HV_IDLE_VCPU_IDX s)) s
           in Some (HYP_ACTION_RETURN, hyp_state, s)
      else hv_scheduler_switch_to hyp_state (int HV_IDLE_VCPU_IDX) s)"

definition hv_scheduler_yield ::
    "HypExceptState \<Rightarrow> machine \<Rightarrow> (int \<times> HypExceptState \<times> machine) option" where
  "hv_scheduler_yield hyp_state s =
     (case cur_vcpu (scheduler s) of
        None \<Rightarrow> Some (HYP_ACTION_RETURN, hyp_state, s)
      | Some cur \<Rightarrow>
          let s = upd_vcpu cur (vcpu_state_update (\<lambda>_. HV_VCPU_RUNNABLE)) s;
              next_idx = hv_scheduler_pick_next_idx s
          in if next_idx < 0 \<or> nat next_idx = cur
             then let s = upd_vcpu cur (vcpu_state_update (\<lambda>_. HV_VCPU_RUNNING)) s
                  in Some (HYP_ACTION_RETURN, hyp_state, s)
             else hv_scheduler_switch_to hyp_state next_idx s)"

definition hv_scheduler_advance ::
    "HypExceptState \<Rightarrow> machine \<Rightarrow> (int \<times> HypExceptState \<times> machine) option" where
  "hv_scheduler_advance hyp_state s =
     (case cur_vcpu (scheduler s) of
        None \<Rightarrow> hv_scheduler_enter_idle hyp_state s
      | Some cur \<Rightarrow>
          let s = upd_vcpu cur leave_running s;
              next_idx = hv_scheduler_pick_next_idx s
          in if next_idx < 0 then hv_scheduler_enter_idle hyp_state s
             else hv_scheduler_switch_to hyp_state next_idx s)"

definition hv_scheduler_handle_wfi ::
    "HypExceptState \<Rightarrow> machine \<Rightarrow> (int \<times> HypExceptState \<times> machine) option" where
  "hv_scheduler_handle_wfi hyp_state s =
     (let cur = cur_vcpu (scheduler s)
      in if cur = None \<or> hv_scheduler_is_idle_vcpu (deref cur s)
         then hv_scheduler_enter_idle hyp_state s
         else let hyp_state = hv_scheduler_advance_trapped_wfi hyp_state
           in if map_option virq_pending (deref cur s) \<noteq> Some 0
              then Some (HYP_ACTION_RETURN, hyp_state, hv_virq_sync (deref cur s) s)
              else let s = store cur (hv_vcpu_block (deref cur s)) s
                   in hv_scheduler_advance hyp_state s)"

subsection \<open>The physical timer\<close>

text \<open>The scan for the earliest deadline: \<open>None\<close> is \<open>!found\<close>.\<close>

definition earliest_step :: "HvVcpu \<Rightarrow> u64 option \<Rightarrow> u64 option" where
  "earliest_step vcpu earliest =
     (if vcpu_state vcpu = HV_VCPU_IDLE \<or> vcpu_state vcpu = HV_VCPU_EXITED \<or>
         \<not> tm_enabled (vcpu_timer vcpu) then earliest
      else case earliest of
          None \<Rightarrow> Some (tm_deadline (vcpu_timer vcpu))
        | Some e \<Rightarrow> if tm_deadline (vcpu_timer vcpu) < e then Some (tm_deadline (vcpu_timer vcpu))
                    else Some e)"

definition earliest_deadline :: "HvVcpu list \<Rightarrow> u64 option" where
  "earliest_deadline vcpus = fold earliest_step vcpus None"

definition hv_vtimer_rearm_physical :: "machine \<Rightarrow> machine" where
  "hv_vtimer_rearm_physical s =
     (case earliest_deadline (take HV_MAX_GUEST_VCPUS (sch_vcpus (scheduler s))) of
        None \<Rightarrow> TIM_Disable_IRQ s
      | Some earliest \<Rightarrow>
          let (t, s) = TIM_SYS_Get_Ticks s;
              now = ucast t :: u64;
              delta = (if earliest > now then earliest - now else 1);
              delta = (if delta > ucast TIM_ARM_TIMER_MAX_DELTA_US
                       then ucast TIM_ARM_TIMER_MAX_DELTA_US else delta)
          in TIM_Arm_Usec (ucast delta) s)"

subsection \<open>Initialisation\<close>

definition ram_region_of :: "nat \<Rightarrow> HvVmRegion" where
  "ram_region_of i = \<lparr>ipa_base = GUEST_BASE, region_size = GUEST_SLOT_SIZE - HV_STAGE2_PAGE_SIZE,
     pa_base = GUEST_SLOT_BASE (of_nat i), attrs = HV_STAGE2_PAGE_NORMAL_NC_RW,
     region_type = HV_VM_REGION_RAM, region_device = HV_VM_MMIO_DEVICE_NONE\<rparr>"

definition guard_region :: HvVmRegion where
  "guard_region = \<lparr>ipa_base = GUEST_BASE + GUEST_SLOT_SIZE - HV_STAGE2_PAGE_SIZE,
     region_size = HV_STAGE2_PAGE_SIZE, pa_base = 0, attrs = 0,
     region_type = HV_VM_REGION_RAM_GUARD, region_device = HV_VM_MMIO_DEVICE_NONE\<rparr>"

definition uart_region :: HvVmRegion where
  "uart_region = \<lparr>ipa_base = HV_GUEST_UART_BASE, region_size = HV_GUEST_UART_SIZE, pa_base = 0,
     attrs = 0, region_type = HV_VM_REGION_MMIO, region_device = HV_VM_MMIO_DEVICE_VUART\<rparr>"

text \<open>\<open>scheduler->vm[i]\<close>, or a null-pointer VM for \<open>None\<close>, which no operation here returns.\<close>

definition vm_res :: "nat \<Rightarrow> int \<times> HvVm option \<Rightarrow> machine \<Rightarrow> machine option" where
  "vm_res i r s = do {
     s \<leftarrow> hv_assert (fst r = HV_VM_OK) s;
     Some (case snd r of None \<Rightarrow> s | Some vm \<Rightarrow> upd_vm i vm s) }"

definition scheduler_init_vm :: "u32 \<Rightarrow> nat \<Rightarrow> machine \<Rightarrow> machine option" where
  "scheduler_init_vm tables_base i s = do {
     let (res, vm, s) = hv_vm_init tables_base (Some (sch_vm (scheduler s) ! i)) (of_nat i) (of_nat i) s;
     s \<leftarrow> vm_res i (res, vm) s;
     s \<leftarrow> vm_res i (hv_vm_add_region (Some (sch_vm (scheduler s) ! i)) (Some (ram_region_of i))) s;
     s \<leftarrow> vm_res i (hv_vm_add_region (Some (sch_vm (scheduler s) ! i)) (Some guard_region)) s;
     s \<leftarrow> vm_res i (hv_vm_add_region (Some (sch_vm (scheduler s) ! i)) (Some uart_region)) s;
     let (res, vm, s) = hv_vm_build_stage2 (Some (sch_vm (scheduler s) ! i)) s;
     s \<leftarrow> vm_res i (res, vm) s;
     s \<leftarrow> (if hv_scheduler_verbose s
          then let vm = sch_vm (scheduler s) ! i in
            trace ''hv_scheduler_init'' (''vm map id=%d vmid=%d ipa=%p pa=%p root=%p'' @ nl)
              [PInt (vm_id vm), PInt (vm_vmid vm), PInt (ucast (ipa_base (ram_region_of i))),
               PInt (ucast (pa_base (ram_region_of i))), PInt (ucast (root_pa (stage2 vm)))] s
          else Some s);
     Some (upd_vcpu i (vcpu_vm_update (\<lambda>_. Some i)) s)
   }"

definition scheduler_init_vcpu :: "nat \<Rightarrow> machine \<Rightarrow> machine" where
  "scheduler_init_vcpu i s = upd_vcpu i (\<lambda>v. v\<lparr>vcpu_id := of_nat i, vcpu_vm := None,
     vcpu_state := HV_VCPU_IDLE, virq_pending := 0, virq_active := 0\<rparr>) s"

definition hv_scheduler_init :: "hv_image \<Rightarrow> machine \<Rightarrow> machine option" where
  "hv_scheduler_init img s = do {
     let s = s\<lparr>scheduler := (scheduler s)\<lparr>cur_idx := 0\<rparr>\<rparr>;
     let s = fold scheduler_init_vcpu [0..<HV_MAX_VCPUS] s;
     s \<leftarrow> scheduler_init_vm (img_tables img) 0 s;
     s \<leftarrow> scheduler_init_vm (img_tables img) 1 s;
     let s = upd_vcpu HV_IDLE_VCPU_IDX (\<lambda>v. hv_vcpu_init v HV_IDLE_VCPU_ID (img_idle_entry img)
               (img_idle_stack_top img) HYP_LOWER_SVC_CPSR) s;
     let s = upd_vcpu HV_IDLE_VCPU_IDX (vcpu_state_update (\<lambda>_. HV_VCPU_IDLE)) s;
     let s = upd_vcpu 0 (vcpu_state_update (\<lambda>_. HV_VCPU_RUNNABLE)) s;
     let s = s\<lparr>scheduler := (scheduler s)\<lparr>cur_vcpu := Some 0\<rparr>\<rparr>;
     Some (set_hcr_bit HCR_TWI s)
   }"

subsection \<open>Well-formed schedulers\<close>

text \<open>
  \<open>sched_wf\<close> holds from initialisation on, in the middle of every handler too: guest \<open>i\<close> belongs to VM
  \<open>i\<close>, the third vCPU is the idle one, and no vCPU but the current one is running. \<open>hw_for c s\<close> says
  that the trap, interrupt and translation controls are those of vCPU \<open>c\<close>; \<open>sched_run\<close> adds both up,
  for the moments when a guest runs.
\<close>

definition sched_wf :: "HvScheduler \<Rightarrow> bool" where
  "sched_wf c \<longleftrightarrow> length (sch_vm c) = HV_MAX_VMS \<and> length (sch_vcpus c) = HV_MAX_VCPUS \<and>
     unat (cur_idx c) < HV_MAX_VCPUS \<and> cur_vcpu c = Some (unat (cur_idx c)) \<and>
     (\<forall>i < HV_MAX_GUEST_VCPUS. vcpu_vm (sch_vcpus c ! i) = Some i \<and> vcpu_id (sch_vcpus c ! i) = of_nat i) \<and>
     vcpu_vm (sch_vcpus c ! HV_IDLE_VCPU_IDX) = None \<and>
     vcpu_id (sch_vcpus c ! HV_IDLE_VCPU_IDX) = HV_IDLE_VCPU_ID \<and>
     vcpu_state (sch_vcpus c ! HV_IDLE_VCPU_IDX) \<in> {HV_VCPU_IDLE, HV_VCPU_RUNNING} \<and>
     (\<forall>i < HV_MAX_VCPUS. i \<noteq> unat (cur_idx c) \<longrightarrow> vcpu_state (sch_vcpus c ! i) \<noteq> HV_VCPU_RUNNING) \<and>
     (\<forall>i < HV_MAX_VCPUS. frame_ok (ctx_hyp_state (vcpu_context (sch_vcpus c ! i))))"

definition cur_of :: "machine \<Rightarrow> nat" where
  "cur_of s = unat (cur_idx (scheduler s))"

definition hcr_bit :: "u32 \<Rightarrow> 'a hw_scheme \<Rightarrow> bool" where
  "hcr_bit b s \<longleftrightarrow> hcr s AND b \<noteq> 0"

definition hw_for :: "nat \<Rightarrow> machine \<Rightarrow> bool" where
  "hw_for c s \<longleftrightarrow>
     (hcr_bit HCR_TWI s \<longleftrightarrow> c \<noteq> HV_IDLE_VCPU_IDX) \<and>
     (hcr_bit HCR_VI s \<longleftrightarrow> virq_pending (vcpu_at c s) \<noteq> 0) \<and>
     (case vcpu_vm (vcpu_at c s) of
        None \<Rightarrow> \<not> hcr_bit HCR_VM s
      | Some i \<Rightarrow> hcr_bit HCR_VM s \<and> vttbr s = hv_mmu_vttbr_for_vm (sch_vm (scheduler s) ! i) \<and>
          vtcr s = HV_STAGE2_VTCR_DEFAULT)"

definition sched_run :: "machine \<Rightarrow> bool" where
  "sched_run s \<longleftrightarrow> sched_wf (scheduler s) \<and> vcpu_state (vcpu_at (cur_of s) s) = HV_VCPU_RUNNING \<and>
     hw_for (cur_of s) s"

text \<open>What no scheduling operation touches.\<close>

definition env_same :: "machine \<Rightarrow> machine \<Rightarrow> bool" where
  "env_same s s' \<longleftrightarrow> stage2_tables s' = stage2_tables s \<and> vuarts s' = vuarts s \<and>
     gen_tim_period_ticks s' = gen_tim_period_ticks s \<and> hw_in s' = hw_in s \<and> cpsr s' = cpsr s \<and>
     sch_vm (scheduler s') = sch_vm (scheduler s) \<and> virq_controller s' = virq_controller s \<and>
     hv_scheduler_verbose s' = hv_scheduler_verbose s \<and> hyp_except_verbose s' = hyp_except_verbose s \<and>
     irq_counter s' = irq_counter s"

lemma env_same_refl [simp]: "env_same s s"
  by (simp add: env_same_def)

lemma env_same_trans: "env_same s s1 \<Longrightarrow> env_same s1 s2 \<Longrightarrow> env_same s s2"
  by (simp add: env_same_def)

lemma log_simps:
  "vcpu_at i (s\<lparr>hw_log := l\<rparr>) = vcpu_at i s" "cur_of (s\<lparr>hw_log := l\<rparr>) = cur_of s"
  "hw_for c (s\<lparr>hw_log := l\<rparr>) = hw_for c s" "sched_run (s\<lparr>hw_log := l\<rparr>) = sched_run s"
  by (simp_all add: vcpu_at_def cur_of_def hw_for_def sched_run_def hcr_bit_def cong: option.case_cong)

lemma io_machine:
  fixes s s' :: machine
  assumes "io_out s s' t"
  shows "scheduler s' = scheduler s" "env_same s s'" "hcr s' = hcr s" "vttbr s' = vttbr s"
    "vtcr s' = vtcr s" "banked s' = banked s" "vbar s' = vbar s" "vcpu_at i s' = vcpu_at i s"
    "cur_of s' = cur_of s" "hw_for c s' = hw_for c s" "sched_run s' = sched_run s"
    "hw_in s' = hw_in s" "gen_tim_period_ticks s' = gen_tim_period_ticks s"
  using assms
  by (auto simp: io_out_def env_same_def log_simps)

lemma vcpu_at_upd [simp]:
  "i < length (sch_vcpus (scheduler s)) \<Longrightarrow>
     vcpu_at j (upd_vcpu i f s) = (if j = i then f (vcpu_at i s) else vcpu_at j s)"
  by (simp add: vcpu_at_def upd_vcpu_def nth_list_update)

lemma upd_vcpu_sel [simp]:
  "sch_vm (scheduler (upd_vcpu i f s)) = sch_vm (scheduler s)"
  "cur_idx (scheduler (upd_vcpu i f s)) = cur_idx (scheduler s)"
  "cur_vcpu (scheduler (upd_vcpu i f s)) = cur_vcpu (scheduler s)"
  "length (sch_vcpus (scheduler (upd_vcpu i f s))) = length (sch_vcpus (scheduler s))"
  "cur_of (upd_vcpu i f s) = cur_of s" "env_same s (upd_vcpu i f s)"
  "hv_scheduler_verbose (upd_vcpu i f s) = hv_scheduler_verbose s"
  by (simp_all add: upd_vcpu_def cur_of_def env_same_def)

lemma sched_wfD:
  assumes "sched_wf (scheduler s)"
  shows "length (sch_vm (scheduler s)) = 2" "length (sch_vcpus (scheduler s)) = 3" "cur_of s < 3"
    "cur_vcpu (scheduler s) = Some (cur_of s)" "cur_idx (scheduler s) = of_nat (cur_of s)"
    "i < 2 \<Longrightarrow> vcpu_vm (vcpu_at i s) = Some i" "i < 2 \<Longrightarrow> vcpu_id (vcpu_at i s) = of_nat i"
    "vcpu_vm (vcpu_at 2 s) = None" "vcpu_id (vcpu_at 2 s) = 0xffffffff"
    "vcpu_state (vcpu_at 2 s) = HV_VCPU_IDLE \<or> vcpu_state (vcpu_at 2 s) = HV_VCPU_RUNNING"
    "i < 3 \<Longrightarrow> i \<noteq> cur_of s \<Longrightarrow> vcpu_state (vcpu_at i s) \<noteq> HV_VCPU_RUNNING"
    "i < 3 \<Longrightarrow> frame_ok (ctx_hyp_state (vcpu_context (vcpu_at i s)))"
  using assms by (auto simp: sched_wf_def vcpu_at_def cur_of_def)

lemma sched_wfI:
  assumes "length (sch_vm (scheduler s)) = 2" "length (sch_vcpus (scheduler s)) = 3" "cur_of s < 3"
    "cur_vcpu (scheduler s) = Some (cur_of s)"
    "\<And>i. i < 2 \<Longrightarrow> vcpu_vm (vcpu_at i s) = Some i \<and> vcpu_id (vcpu_at i s) = of_nat i"
    "vcpu_vm (vcpu_at 2 s) = None" "vcpu_id (vcpu_at 2 s) = 0xffffffff"
    "vcpu_state (vcpu_at 2 s) = HV_VCPU_IDLE \<or> vcpu_state (vcpu_at 2 s) = HV_VCPU_RUNNING"
    "\<And>i. i < 3 \<Longrightarrow> i \<noteq> cur_of s \<Longrightarrow> vcpu_state (vcpu_at i s) \<noteq> HV_VCPU_RUNNING"
    "\<And>i. i < 3 \<Longrightarrow> frame_ok (ctx_hyp_state (vcpu_context (vcpu_at i s)))"
  shows "sched_wf (scheduler s)"
  using assms unfolding sched_wf_def vcpu_at_def cur_of_def by auto

lemma is_idle_vcpu_at:
  assumes "sched_wf (scheduler s)" "i < 3"
  shows "hv_scheduler_is_idle_vcpu (Some (vcpu_at i s)) \<longleftrightarrow> i = 2"
proof -
  consider "i = 0" | "i = 1" | "i = 2" using assms(2) by linarith
  then show ?thesis
    using sched_wfD(7,9) [OF assms(1)]
    by cases (simp_all add: hv_scheduler_is_idle_vcpu_def)
qed

subsection \<open>Round robin\<close>

definition runnable :: "machine \<Rightarrow> nat \<Rightarrow> bool" where
  "runnable s i \<longleftrightarrow> i < HV_MAX_GUEST_VCPUS \<and> vcpu_state (vcpu_at i s) = HV_VCPU_RUNNABLE"

lemma runnable_cases: "(\<exists>i. runnable s i) \<longleftrightarrow> runnable s 0 \<or> runnable s 1"
proof
  assume "\<exists>i. runnable s i"
  then obtain i where i: "runnable s i" by blast
  then have "i = 0 \<or> i = 1" by (auto simp: runnable_def)
  with i show "runnable s 0 \<or> runnable s 1" by blast
qed blast

lemma pick_next_cases:
  assumes "cur_of s < 3"
  shows "hv_scheduler_pick_next_idx s =
    (if cur_of s = 0 then if runnable s 1 then 1 else if runnable s 0 then 0 else -1
     else if runnable s 0 then 0 else if runnable s 1 then 1 else -1)"
proof -
  have l: "[1..<HV_MAX_VCPUS + 1] = [1, 2, 3]" by (simp add: upt_rec)
  have c: "cur_idx (scheduler s) = of_nat (cur_of s)" by (simp add: cur_of_def)
  consider "cur_of s = 0" | "cur_of s = 1" | "cur_of s = 2" using assms by linarith
  then show ?thesis
    unfolding hv_scheduler_pick_next_idx_def l
    by cases (simp_all add: c hv_scheduler_is_idle_idx_def runnable_def Let_def)
qed

lemma has_runnable_iff: "hv_scheduler_has_runnable s \<longleftrightarrow> (\<exists>i. runnable s i)"
  unfolding runnable_cases by (simp add: hv_scheduler_has_runnable_def runnable_def upt_rec)

subsection \<open>The context switch\<close>

text \<open>One control bit at a time.\<close>

lemma hcr_bit_ops:
  "b \<noteq> 0 \<Longrightarrow> hcr_bit b (set_hcr_bit b s)" "\<not> hcr_bit b (clear_hcr_bit b s)"
  "b AND c = 0 \<Longrightarrow> hcr_bit c (set_hcr_bit b s) = hcr_bit c s"
  "b AND c = 0 \<Longrightarrow> hcr_bit c (clear_hcr_bit b s) = hcr_bit c s"
  by (simp_all add: hcr_bit_def sysreg_defs emit_def Let_def or_and_disjoint and_not_and_disjoint)

lemma hcr_bit_frame:
  "hcr_bit b (emit e s) = hcr_bit b s" "hcr_bit b (DSB s) = hcr_bit b s" "hcr_bit b (ISB s) = hcr_bit b s"
  "hcr_bit b (write_vtcr x s) = hcr_bit b s" "hcr_bit b (write_vttbr y s) = hcr_bit b s"
  "hcr_bit b (write_vbar x s) = hcr_bit b s" "hcr_bit b (hyp_load_banked_regs g s) = hcr_bit b s"
  "hcr_bit b (hyp_invalidate_stage2_tlb_all s) = hcr_bit b s"
  "hcr_bit b (m\<lparr>scheduler := c\<rparr>) = hcr_bit b m" "hcr_bit b (upd_vcpu i f m) = hcr_bit b m"
  by (simp_all add: hcr_bit_def sysreg_defs DSB_def ISB_def emit_def Let_def upd_vcpu_def)

text \<open>An operation on the control registers of a machine: it moves neither the scheduler nor what
  \<open>env_same\<close> protects.\<close>

definition ctrl_step :: "machine \<Rightarrow> machine \<Rightarrow> bool" where
  "ctrl_step s s' \<longleftrightarrow> scheduler s' = scheduler s \<and> env_same s s'"

lemma ctrl_step_ops:
  "ctrl_step s (set_hcr_bit b s)" "ctrl_step s (clear_hcr_bit b s)"
  "ctrl_step s (hv_mmu_activate_vcpu vms p s)" "ctrl_step s (hv_virq_sync q s)"
  "ctrl_step s (hv_scheduler_sync_traps i s)" "hv_vcpu_load v s = (v', f, s') \<Longrightarrow> ctrl_step s s'"
  by (auto simp: ctrl_step_def env_same_def hv_mmu_activate_vcpu_def hv_mmu_deactivate_stage2_def
      hv_virq_sync_def hv_scheduler_sync_traps_def hv_vcpu_load_def sysreg_defs DSB_def ISB_def emit_def
      Let_def split: option.splits)

lemma ctrl_stepD:
  assumes "ctrl_step s s'"
  shows "scheduler s' = scheduler s" "vcpu_at i s' = vcpu_at i s" "cur_of s' = cur_of s" "env_same s s'"
  using assms by (simp_all add: ctrl_step_def vcpu_at_def cur_of_def)

lemma sync_traps_bits:
  "hcr_bit HCR_TWI (hv_scheduler_sync_traps i s) \<longleftrightarrow> i \<noteq> 2"
  "hcr_bit HCR_VI (hv_scheduler_sync_traps i s) = hcr_bit HCR_VI s"
  "hcr_bit HCR_VM (hv_scheduler_sync_traps i s) = hcr_bit HCR_VM s"
  by (auto simp: hv_scheduler_sync_traps_def hv_scheduler_is_idle_idx_def hcr_bit_ops)

lemma virq_sync_bits:
  "hcr_bit HCR_VI (hv_virq_sync (Some v) s) \<longleftrightarrow> virq_pending v \<noteq> 0"
  "hcr_bit HCR_TWI (hv_virq_sync q s) = hcr_bit HCR_TWI s"
  "hcr_bit HCR_VM (hv_virq_sync q s) = hcr_bit HCR_VM s"
  "vttbr (hv_virq_sync q s) = vttbr s" "vtcr (hv_virq_sync q s) = vtcr s"
  "banked (hv_virq_sync q s) = banked s" "vbar (hv_virq_sync q s) = vbar s"
  by (simp_all add: hv_virq_sync_def hcr_bit_ops split: option.splits)
     (simp_all add: sysreg_defs emit_def Let_def)

lemma activate_bits:
  "hcr_bit HCR_TWI (hv_mmu_activate_vcpu vms p s) = hcr_bit HCR_TWI s"
  "hcr_bit HCR_VI (hv_mmu_activate_vcpu vms p s) = hcr_bit HCR_VI s"
  "hcr_bit HCR_VM (hv_mmu_activate_vcpu vms (Some v) s) \<longleftrightarrow> vcpu_vm v \<noteq> None"
  "vcpu_vm v = Some i \<Longrightarrow> vttbr (hv_mmu_activate_vcpu vms (Some v) s) = hv_mmu_vttbr_for_vm (vms ! i)"
  "vcpu_vm v = Some i \<Longrightarrow> vtcr (hv_mmu_activate_vcpu vms (Some v) s) = HV_STAGE2_VTCR_DEFAULT"
  by (auto simp: hv_mmu_activate_vcpu_def hv_mmu_deactivate_stage2_def Let_def hcr_bit_ops hcr_bit_frame
      split: option.splits)
     (simp_all add: sysreg_defs DSB_def ISB_def emit_def Let_def)

lemma load_sel:
  assumes "hv_vcpu_load v s = (v', f, s')"
  shows "f = ctx_hyp_state (vcpu_context v)" "hcr_bit b s' = hcr_bit b s"
    "banked s' = ctx_banked_regs (vcpu_context v)" "vbar s' = gs_vbar (ctx_sys_regs (vcpu_context v))"
    "vttbr s' = vttbr s" "vtcr s' = vtcr s" "vcpu_id v' = vcpu_id v" "vcpu_vm v' = vcpu_vm v"
    "vcpu_state v' = vcpu_state v" "virq_pending v' = virq_pending v" "virq_active v' = virq_active v"
    "vcpu_timer v' = vcpu_timer v" "ctx_hyp_state (vcpu_context v') = ctx_hyp_state (vcpu_context v)"
    "ctx_banked_regs (vcpu_context v') = ctx_banked_regs (vcpu_context v)"
    "ctx_sys_regs (vcpu_context v') = ctx_sys_regs (vcpu_context v)"
  using assms
  by (auto simp: hv_vcpu_load_def copy_hyp_state_def Let_def hcr_bit_frame sysreg_defs ISB_def emit_def hcr_bit_def)

text \<open>A context switch after the previous vCPU was saved.\<close>

definition switch_in :: "nat \<Rightarrow> machine \<Rightarrow> HypExceptState \<times> machine" where
  "switch_in n s =
     (let s = upd_vcpu n (vcpu_state_update (\<lambda>_. HV_VCPU_RUNNING)) s;
          s = s\<lparr>scheduler := (scheduler s)\<lparr>cur_idx := of_nat n\<rparr>\<rparr>;
          s = s\<lparr>scheduler := (scheduler s)\<lparr>cur_vcpu := Some n\<rparr>\<rparr>;
          s = hv_scheduler_sync_traps (of_nat n) s;
          s = hv_mmu_activate_vcpu (sch_vm (scheduler s)) (Some (vcpu_at n s)) s;
          (v, f, s) = hv_vcpu_load (vcpu_at n s) s;
          s = upd_vcpu n (\<lambda>_. v) s;
          s = hv_virq_sync (Some (vcpu_at n s)) s
      in (f, s))"

lemma switch_to_eq:
  assumes "cur_vcpu (scheduler s) = Some c"
  shows "hv_scheduler_switch_to f (int n) s = do {
     let s1 = upd_vcpu c leave_running (upd_vcpu c (\<lambda>v. hv_vcpu_save v f s) s);
     s2 \<leftarrow> (if hv_scheduler_verbose s1
          then trace ''hv_scheduler_switch_to'' (''sched switch prev=%d next=%d elr=%p'' @ nl)
                 [PInt (vcpu_id (vcpu_at c s)), PInt (vcpu_id (vcpu_at n s1)),
                  PInt (frame_elr_hyp (ctx_hyp_state (vcpu_context (vcpu_at n s1))))] s1
          else Some s1);
     let (f', s') = switch_in n s2;
     Some (HYP_ACTION_RETURN, f', s') }"
  by (simp add: hv_scheduler_switch_to_def assms switch_in_def Let_def case_prod_beta)

lemma switch_in_spec:
  assumes len: "length (sch_vcpus (scheduler s)) = 3" and n: "n < 3"
    and run: "switch_in n s = (f', s')"
  shows "f' = ctx_hyp_state (vcpu_context (vcpu_at n s))"
    and "banked s' = ctx_banked_regs (vcpu_context (vcpu_at n s))"
    and "vbar s' = gs_vbar (ctx_sys_regs (vcpu_context (vcpu_at n s)))"
    and "cur_of s' = n" "cur_vcpu (scheduler s') = Some n" "env_same s s'"
    and "length (sch_vcpus (scheduler s')) = 3"
    and "i \<noteq> n \<Longrightarrow> vcpu_at i s' = vcpu_at i s"
    and "vcpu_state (vcpu_at n s') = HV_VCPU_RUNNING"
    and "vcpu_id (vcpu_at n s') = vcpu_id (vcpu_at n s)" "vcpu_vm (vcpu_at n s') = vcpu_vm (vcpu_at n s)"
    and "virq_pending (vcpu_at n s') = virq_pending (vcpu_at n s)"
      "virq_active (vcpu_at n s') = virq_active (vcpu_at n s)"
      "vcpu_timer (vcpu_at n s') = vcpu_timer (vcpu_at n s)"
    and "ctx_hyp_state (vcpu_context (vcpu_at n s')) = ctx_hyp_state (vcpu_context (vcpu_at n s))"
    and "hw_for n s'"
proof -
  define s1 where "s1 = (upd_vcpu n (vcpu_state_update (\<lambda>_. HV_VCPU_RUNNING)) s)
     \<lparr>scheduler := (scheduler (upd_vcpu n (vcpu_state_update (\<lambda>_. HV_VCPU_RUNNING)) s))
        \<lparr>cur_idx := of_nat n, cur_vcpu := Some n\<rparr>\<rparr>"
  define s2 where "s2 = hv_scheduler_sync_traps (of_nat n) s1"
  define s3 where "s3 = hv_mmu_activate_vcpu (sch_vm (scheduler s2)) (Some (vcpu_at n s2)) s2"
  obtain v g s4 where l: "hv_vcpu_load (vcpu_at n s3) s3 = (v, g, s4)" by (metis prod_cases3)
  define s5 where "s5 = upd_vcpu n (\<lambda>_. v) s4"
  have fs: "f' = g" "s' = hv_virq_sync (Some (vcpu_at n s5)) s5"
    using run l unfolding switch_in_def by (simp_all add: s1_def s2_def s3_def s5_def Let_def)
  have v1: "vcpu_at i s1 = (if i = n then vcpu_state_update (\<lambda>_. HV_VCPU_RUNNING) (vcpu_at n s) else vcpu_at i s)"
    for i using n len by (simp add: s1_def vcpu_at_def upd_vcpu_def nth_list_update)
  have un: "unat (of_nat n :: u32) = n" using n by (intro unat_of_nat_small) simp
  have c1: "cur_of s1 = n" "cur_vcpu (scheduler s1) = Some n" "sch_vm (scheduler s1) = sch_vm (scheduler s)"
    "length (sch_vcpus (scheduler s1)) = 3" "env_same s s1"
    using len un by (simp_all add: s1_def cur_of_def env_same_def upd_vcpu_def)
  note c2 = ctrl_stepD [OF ctrl_step_ops(5) [of s1 "of_nat n"], folded s2_def]
  note c3 = ctrl_stepD [OF ctrl_step_ops(3) [of s2 "sch_vm (scheduler s2)" "Some (vcpu_at n s2)"], folded s3_def]
  note c4 = ctrl_stepD [OF ctrl_step_ops(6) [OF l]]
  note c5 = ctrl_stepD [OF ctrl_step_ops(4) [of s5 "Some (vcpu_at n s5)"], folded fs(2)]
  note L = load_sel [OF l]
  have len4: "n < length (sch_vcpus (scheduler s4))" using n c1(4) c2(1) c3(1) c4(1) by simp
  have e5: "env_same s4 s5" by (simp add: s5_def)
  have v': "vcpu_at i s' = (if i = n then v else vcpu_at i s)" for i
    using len4 by (simp add: c5 s5_def c4 c3 c2 v1)
  have vn: "vcpu_at n s3 = vcpu_state_update (\<lambda>_. HV_VCPU_RUNNING) (vcpu_at n s)" by (simp add: c3 c2 v1)
  show "f' = ctx_hyp_state (vcpu_context (vcpu_at n s))" using L(1) fs(1) vn by simp
  have b5: "banked s5 = banked s4" "vbar s5 = vbar s4" "vttbr s5 = vttbr s4" "vtcr s5 = vtcr s4"
    by (simp_all add: s5_def upd_vcpu_def)
  show "banked s' = ctx_banked_regs (vcpu_context (vcpu_at n s))"
    and "vbar s' = gs_vbar (ctx_sys_regs (vcpu_context (vcpu_at n s)))"
    using L(3,4) vn by (simp_all add: fs(2) virq_sync_bits b5)
  show "cur_of s' = n" by (simp add: c5(3) s5_def c4(3) c3(3) c2(3) c1)
  show "cur_vcpu (scheduler s') = Some n" "length (sch_vcpus (scheduler s')) = 3"
    by (simp_all add: c5(1) s5_def c4(1) c3(1) c2(1) c1)
  show env: "env_same s s'"
    using env_same_trans [OF c1(5) env_same_trans [OF c2(4) env_same_trans [OF c3(4)
          env_same_trans [OF c4(4) env_same_trans [OF e5 c5(4)]]]]] .
  show "i \<noteq> n \<Longrightarrow> vcpu_at i s' = vcpu_at i s" by (simp add: v')
  show "vcpu_state (vcpu_at n s') = HV_VCPU_RUNNING"
    "vcpu_id (vcpu_at n s') = vcpu_id (vcpu_at n s)" "vcpu_vm (vcpu_at n s') = vcpu_vm (vcpu_at n s)"
    "virq_pending (vcpu_at n s') = virq_pending (vcpu_at n s)"
    "virq_active (vcpu_at n s') = virq_active (vcpu_at n s)"
    "vcpu_timer (vcpu_at n s') = vcpu_timer (vcpu_at n s)"
    "ctx_hyp_state (vcpu_context (vcpu_at n s')) = ctx_hyp_state (vcpu_context (vcpu_at n s))"
    using L vn by (simp_all add: v')
  have vm2: "vcpu_vm (vcpu_at n s2) = vcpu_vm (vcpu_at n s)" by (simp add: c2 v1)
  have hb: "hcr_bit HCR_TWI s' = hcr_bit HCR_TWI s3" "hcr_bit HCR_VM s' = hcr_bit HCR_VM s3"
    unfolding fs(2) virq_sync_bits s5_def hcr_bit_frame by (rule L(2))+
  have vm': "sch_vm (scheduler s') = sch_vm (scheduler s2)"
    by (simp add: c5(1) s5_def c4(1) c3(1))
  have v5: "vcpu_at n s5 = vcpu_at n s'" by (rule c5(2) [symmetric])
  have twi: "hcr_bit HCR_TWI s' \<longleftrightarrow> n \<noteq> 2"
  proof -
    have "(of_nat n :: u32) = 2 \<longleftrightarrow> n = 2"
    proof -
      consider "n = 0" | "n = 1" | "n = 2" using n by linarith
      then show ?thesis by cases simp_all
    qed
    then show ?thesis by (simp add: hb s3_def activate_bits s2_def sync_traps_bits)
  qed
  have vi: "hcr_bit HCR_VI s' \<longleftrightarrow> virq_pending (vcpu_at n s') \<noteq> 0"
    by (subst fs(2)) (simp only: virq_sync_bits v5)
  have vm: "case vcpu_vm (vcpu_at n s') of None \<Rightarrow> \<not> hcr_bit HCR_VM s'
     | Some i \<Rightarrow> hcr_bit HCR_VM s' \<and> vttbr s' = hv_mmu_vttbr_for_vm (sch_vm (scheduler s') ! i) \<and>
         vtcr s' = HV_STAGE2_VTCR_DEFAULT"
  proof (cases "vcpu_vm (vcpu_at n s)")
    case None
    then show ?thesis
      using \<open>vcpu_vm (vcpu_at n s') = _\<close> vm2 by (simp add: hb s3_def activate_bits)
  next
    case (Some i)
    then have i2: "vcpu_vm (vcpu_at n s2) = Some i" using vm2 by simp
    have "vttbr s' = hv_mmu_vttbr_for_vm (sch_vm (scheduler s2) ! i)" "vtcr s' = HV_STAGE2_VTCR_DEFAULT"
      using L(5,6) i2 by (simp_all add: fs(2) virq_sync_bits b5 s3_def activate_bits)
    with Some i2 show ?thesis
      using \<open>vcpu_vm (vcpu_at n s') = _\<close> vm' by (simp add: hb s3_def activate_bits)
  qed
  show "hw_for n s'" unfolding hw_for_def using twi vi vm by simp
qed

lemma sel_save [simp]:
  "vcpu_id (hv_vcpu_save v f s) = vcpu_id v" "vcpu_vm (hv_vcpu_save v f s) = vcpu_vm v"
  "vcpu_state (hv_vcpu_save v f s) = vcpu_state v"
  "virq_pending (hv_vcpu_save v f s) = virq_pending v" "virq_active (hv_vcpu_save v f s) = virq_active v"
  "vcpu_timer (hv_vcpu_save v f s) = vcpu_timer v"
  "ctx_hyp_state (vcpu_context (hv_vcpu_save v f s)) = f"
  "ctx_banked_regs (vcpu_context (hv_vcpu_save v f s)) = banked s"
  "gs_vbar (ctx_sys_regs (vcpu_context (hv_vcpu_save v f s))) = vbar s"
  by (simp_all add: hv_vcpu_save_def copy_hyp_state_def read_vbar_def Let_def)

lemma sel_leave [simp]:
  "vcpu_id (leave_running v) = vcpu_id v" "vcpu_vm (leave_running v) = vcpu_vm v"
  "virq_pending (leave_running v) = virq_pending v" "virq_active (leave_running v) = virq_active v"
  "vcpu_timer (leave_running v) = vcpu_timer v" "vcpu_context (leave_running v) = vcpu_context v"
  "vcpu_state (leave_running v) \<noteq> HV_VCPU_RUNNING"
  by (simp_all add: leave_running_def)

lemma leave_state:
  "vcpu_state (leave_running v) = (if vcpu_state v = HV_VCPU_RUNNING
     then if vcpu_id v = HV_IDLE_VCPU_ID then HV_VCPU_IDLE else HV_VCPU_RUNNABLE else vcpu_state v)"
  by (simp add: leave_running_def hv_scheduler_is_idle_vcpu_def)

text \<open>The vCPU a switch saves, and the one it enters.\<close>

definition saved_vcpu :: "HypExceptState \<Rightarrow> machine \<Rightarrow> HvVcpu" where
  "saved_vcpu f s = leave_running (hv_vcpu_save (vcpu_at (cur_of s) s) f s)"

definition entered_vcpu :: "HypExceptState \<Rightarrow> nat \<Rightarrow> machine \<Rightarrow> HvVcpu" where
  "entered_vcpu f n s = (if n = cur_of s then saved_vcpu f s else vcpu_at n s)"

lemma trace_if_io:
  fixes s :: machine
  assumes "(if b then trace fn fmt args s else Some s) = Some s'"
  shows "\<exists>t. io_out s s' t"
  using assms trace_io_out io_out_refl by (cases b) fastforce+

lemma switch_to_spec:
  assumes wf: "sched_wf (scheduler s)" and n: "n < 3" and f: "frame_ok f"
    and run: "hv_scheduler_switch_to f (int n) s = Some (r, f', s')"
  shows "r = HYP_ACTION_RETURN" "sched_run s'" "env_same s s'" "cur_of s' = n" "frame_ok f'"
    and "f' = ctx_hyp_state (vcpu_context (entered_vcpu f n s))"
    and "banked s' = ctx_banked_regs (vcpu_context (entered_vcpu f n s))"
    and "vbar s' = gs_vbar (ctx_sys_regs (vcpu_context (entered_vcpu f n s)))"
    and "i \<noteq> n \<Longrightarrow> vcpu_at i s' = (if i = cur_of s then saved_vcpu f s else vcpu_at i s)"
    and "virq_pending (vcpu_at i s') = virq_pending (vcpu_at i s)"
      "virq_active (vcpu_at i s') = virq_active (vcpu_at i s)"
      "vcpu_timer (vcpu_at i s') = vcpu_timer (vcpu_at i s)"
proof -
  let ?c = "cur_of s"
  note W = sched_wfD [OF wf]
  define s1 where "s1 = upd_vcpu ?c leave_running (upd_vcpu ?c (\<lambda>v. hv_vcpu_save v f s) s)"
  have len: "?c < length (sch_vcpus (scheduler s))" using W(2,3) by simp
  have v1: "vcpu_at i s1 = (if i = ?c then saved_vcpu f s else vcpu_at i s)" for i
    using len by (simp add: s1_def saved_vcpu_def)
  obtain s2 where t: "(if hv_scheduler_verbose s1
          then trace ''hv_scheduler_switch_to'' (''sched switch prev=%d next=%d elr=%p'' @ nl)
                 [PInt (vcpu_id (vcpu_at ?c s)), PInt (vcpu_id (vcpu_at n s1)),
                  PInt (frame_elr_hyp (ctx_hyp_state (vcpu_context (vcpu_at n s1))))] s1
          else Some s1) = Some s2"
    and sw: "switch_in n s2 = (f', s')" and r: "r = HYP_ACTION_RETURN"
    using run unfolding switch_to_eq [OF W(4)] s1_def [symmetric]
    by (auto simp: Let_def case_prod_beta split: bind_splits)
  obtain u where io: "io_out s1 s2 u" using trace_if_io [OF t] by blast
  note M = io_machine [OF io]
  have len2: "length (sch_vcpus (scheduler s2)) = 3" by (simp add: M(1) s1_def W(2))
  have v2: "vcpu_at i s2 = (if i = ?c then saved_vcpu f s else vcpu_at i s)" for i
    by (simp add: M(8) v1)
  have en: "vcpu_at n s2 = entered_vcpu f n s" by (simp add: v2 entered_vcpu_def)
  note S = switch_in_spec [OF len2 n sw]
  show "r = HYP_ACTION_RETURN" by (rule r)
  have env: "env_same s s2" using env_same_trans [OF _ M(2)] by (simp add: s1_def env_same_def upd_vcpu_def)
  then show "env_same s s'" using env_same_trans S(6) by blast
  show c: "cur_of s' = n" by (rule S(4))
  show "f' = ctx_hyp_state (vcpu_context (entered_vcpu f n s))"
    "banked s' = ctx_banked_regs (vcpu_context (entered_vcpu f n s))"
    "vbar s' = gs_vbar (ctx_sys_regs (vcpu_context (entered_vcpu f n s)))"
    using S(1-3) unfolding en by blast+
  show other: "vcpu_at i s' = (if i = ?c then saved_vcpu f s else vcpu_at i s)" if "i \<noteq> n" for i
    using S(8) [OF that] by (simp add: v2)
  have sv: "virq_pending (saved_vcpu f s) = virq_pending (vcpu_at ?c s)"
    "virq_active (saved_vcpu f s) = virq_active (vcpu_at ?c s)"
    "vcpu_timer (saved_vcpu f s) = vcpu_timer (vcpu_at ?c s)"
    "vcpu_id (saved_vcpu f s) = vcpu_id (vcpu_at ?c s)" "vcpu_vm (saved_vcpu f s) = vcpu_vm (vcpu_at ?c s)"
    "ctx_hyp_state (vcpu_context (saved_vcpu f s)) = f" "vcpu_state (saved_vcpu f s) \<noteq> HV_VCPU_RUNNING"
    by (simp_all add: saved_vcpu_def)
  show "virq_pending (vcpu_at i s') = virq_pending (vcpu_at i s)"
    "virq_active (vcpu_at i s') = virq_active (vcpu_at i s)"
    "vcpu_timer (vcpu_at i s') = vcpu_timer (vcpu_at i s)"
    using S(12-14) sv(1-3) other [of i] by (cases "i = n"; simp add: en entered_vcpu_def)+
  have keep: "vcpu_id (vcpu_at i s') = vcpu_id (vcpu_at i s)" "vcpu_vm (vcpu_at i s') = vcpu_vm (vcpu_at i s)"
    for i using S(10,11) sv(4,5) other [of i] by (cases "i = n"; simp add: en entered_vcpu_def)+
  have fr: "frame_ok (ctx_hyp_state (vcpu_context (vcpu_at i s2)))" if "i < 3" for i
    using W(12) [OF that] f by (simp add: v2 sv(6))
  show "frame_ok f'" using S(1) fr [OF n] by simp
  have "sched_wf (scheduler s')"
  proof (rule sched_wfI)
    show "length (sch_vm (scheduler s')) = 2" using W(1) env S(6) by (simp add: env_same_def)
    show "length (sch_vcpus (scheduler s')) = 3" by (rule S(7))
    show "cur_of s' < 3" "cur_vcpu (scheduler s') = Some (cur_of s')" using n c S(5) by simp_all
    show "vcpu_vm (vcpu_at i s') = Some i \<and> vcpu_id (vcpu_at i s') = of_nat i" if "i < 2" for i
      using keep [of i] W(6,7) that by simp
    show "vcpu_vm (vcpu_at 2 s') = None" "vcpu_id (vcpu_at 2 s') = 0xffffffff"
      using keep [of 2] W(8,9) by simp_all
    show "vcpu_state (vcpu_at 2 s') = HV_VCPU_IDLE \<or> vcpu_state (vcpu_at 2 s') = HV_VCPU_RUNNING"
    proof (cases "n = 2")
      case True then show ?thesis using S(9) by simp
    next
      case False
      then have "vcpu_at 2 s' = (if 2 = ?c then saved_vcpu f s else vcpu_at 2 s)" using other [of 2] by simp
      then show ?thesis using W(9,10) by (auto simp: saved_vcpu_def leave_state)
    qed
    show "vcpu_state (vcpu_at i s') \<noteq> HV_VCPU_RUNNING" if "i < 3" "i \<noteq> cur_of s'" for i
      using other [of i] that c sv(7) W(11) [of i] by auto
    show "frame_ok (ctx_hyp_state (vcpu_context (vcpu_at i s')))" if "i < 3" for i
      using S(8) [of i] S(15) fr [OF that] by (cases "i = n") simp_all
  qed
  then show "sched_run s'" unfolding sched_run_def c using S(9,16) by blast
qed

subsection \<open>Scheduling operations\<close>

lemma upd_wf:
  assumes wf: "sched_wf (scheduler s)" and i: "i < 3"
    and v: "vcpu_id (g (vcpu_at i s)) = vcpu_id (vcpu_at i s)"
      "vcpu_vm (g (vcpu_at i s)) = vcpu_vm (vcpu_at i s)"
      "ctx_hyp_state (vcpu_context (g (vcpu_at i s))) = ctx_hyp_state (vcpu_context (vcpu_at i s))"
    and st: "i \<noteq> cur_of s \<Longrightarrow> vcpu_state (g (vcpu_at i s)) \<noteq> HV_VCPU_RUNNING"
      "i = 2 \<Longrightarrow> vcpu_state (g (vcpu_at i s)) = HV_VCPU_IDLE \<or> vcpu_state (g (vcpu_at i s)) = HV_VCPU_RUNNING"
  shows "sched_wf (scheduler (upd_vcpu i g s))"
proof -
  note W = sched_wfD [OF wf]
  have len: "i < length (sch_vcpus (scheduler s))" using W(2) i by simp
  show ?thesis
  proof (rule sched_wfI)
    show "vcpu_vm (vcpu_at j (upd_vcpu i g s)) = Some j \<and> vcpu_id (vcpu_at j (upd_vcpu i g s)) = of_nat j"
      if "j < 2" for j using W(6,7) [OF that] len v by auto
    show "vcpu_state (vcpu_at 2 (upd_vcpu i g s)) = HV_VCPU_IDLE \<or>
        vcpu_state (vcpu_at 2 (upd_vcpu i g s)) = HV_VCPU_RUNNING"
      using W(10) len st(2) by auto
    show "vcpu_state (vcpu_at j (upd_vcpu i g s)) \<noteq> HV_VCPU_RUNNING"
      if "j < 3" "j \<noteq> cur_of (upd_vcpu i g s)" for j
      using W(11) [of j] that len st(1) by auto
    show "frame_ok (ctx_hyp_state (vcpu_context (vcpu_at j (upd_vcpu i g s))))" if "j < 3" for j
      using W(12) [OF that] W(12) [OF i] len v(3) by auto
  qed (use W len v in auto)
qed

definition sched_post :: "machine \<Rightarrow> nat \<Rightarrow> int \<Rightarrow> HypExceptState \<Rightarrow> machine \<Rightarrow> bool" where
  "sched_post s n r f' s' \<longleftrightarrow> r = HYP_ACTION_RETURN \<and> sched_run s' \<and> env_same s s' \<and> cur_of s' = n \<and>
     frame_ok f' \<and> (\<forall>i. virq_pending (vcpu_at i s') = virq_pending (vcpu_at i s) \<and>
        virq_active (vcpu_at i s') = virq_active (vcpu_at i s) \<and>
        vcpu_timer (vcpu_at i s') = vcpu_timer (vcpu_at i s))"

lemma switch_to_post:
  assumes "sched_wf (scheduler s)" "n < 3" "frame_ok f"
    and "hv_scheduler_switch_to f (int n) s = Some (r, f', s')"
  shows "sched_post s n r f' s'"
  using switch_to_spec [OF assms] by (simp add: sched_post_def)

lemma enter_idle_spec:
  assumes wf: "sched_wf (scheduler s)" and f: "frame_ok f"
    and run: "hv_scheduler_enter_idle f s = Some (r, f', s')"
  shows "sched_post s HV_IDLE_VCPU_IDX r f' s'"
    and "f' = (if cur_of s = HV_IDLE_VCPU_IDX then f
               else ctx_hyp_state (vcpu_context (vcpu_at HV_IDLE_VCPU_IDX s)))"
    and "cur_of s \<noteq> HV_IDLE_VCPU_IDX \<Longrightarrow> hv_scheduler_switch_to f (int HV_IDLE_VCPU_IDX) s = Some (r, f', s')"
    and "cur_of s = HV_IDLE_VCPU_IDX \<Longrightarrow> i \<noteq> HV_IDLE_VCPU_IDX \<Longrightarrow> vcpu_at i s' = vcpu_at i s"
proof -
  note W = sched_wfD [OF wf]
  have "sched_post s 2 r f' s' \<and>
      f' = (if cur_of s = 2 then f else ctx_hyp_state (vcpu_context (vcpu_at 2 s))) \<and>
      (cur_of s \<noteq> 2 \<longrightarrow> hv_scheduler_switch_to f (int HV_IDLE_VCPU_IDX) s = Some (r, f', s')) \<and>
      (cur_of s = 2 \<longrightarrow> (\<forall>i. i \<noteq> 2 \<longrightarrow> vcpu_at i s' = vcpu_at i s))"
  proof (cases "cur_of s = 2")
    case False
    then have sw: "hv_scheduler_switch_to f (int 2) s = Some (r, f', s')"
      using run W(4) by (simp add: hv_scheduler_enter_idle_def)
    have "f' = ctx_hyp_state (vcpu_context (vcpu_at 2 s))"
      using switch_to_spec(6) [OF wf _ f sw] False by (simp add: entered_vcpu_def)
    then show ?thesis using switch_to_post [OF wf _ f sw] False sw by simp
  next
    case True
    have c2: "cur_idx (scheduler s) = 2" using W(5) True by simp
    define s1 where "s1 = upd_vcpu 2 (vcpu_state_update (\<lambda>_. HV_VCPU_RUNNING)) s"
    define s2 where "s2 = hv_scheduler_sync_traps 2 s1"
    define s3 where "s3 = hv_mmu_activate_vcpu (sch_vm (scheduler s2)) (Some (vcpu_at 2 s2)) s2"
    have same: "s1\<lparr>scheduler := (scheduler s1)\<lparr>cur_idx := 2\<rparr>\<rparr> = s1"
      using c2 by (simp add: s1_def upd_vcpu_def)
    have e: "r = 0" "f' = f" "s' = hv_virq_sync (Some (vcpu_at 2 s3)) s3"
      using run W(4) True same
      by (simp_all add: hv_scheduler_enter_idle_def s1_def [symmetric] s2_def [symmetric]
          s3_def [symmetric] Let_def)
    have len: "2 < length (sch_vcpus (scheduler s))" using W(2) by simp
    have v1: "vcpu_at i s1 = (if i = 2 then vcpu_state_update (\<lambda>_. HV_VCPU_RUNNING) (vcpu_at 2 s) else vcpu_at i s)"
      for i using len by (simp add: s1_def)
    note c2 = ctrl_stepD [OF ctrl_step_ops(5) [of s1 2], folded s2_def]
    note c3 = ctrl_stepD [OF ctrl_step_ops(3) [of s2 "sch_vm (scheduler s2)" "Some (vcpu_at 2 s2)"], folded s3_def]
    note c4 = ctrl_stepD [OF ctrl_step_ops(4) [of s3 "Some (vcpu_at 2 s3)"], folded e(3)]
    have v': "vcpu_at i s' = vcpu_at i s1" for i by (simp add: c4 c3 c2)
    have cur: "cur_of s' = 2" by (simp add: c4 c3 c2 s1_def True)
    have env: "env_same s s'"
      using env_same_trans [OF _ env_same_trans [OF c2(4) env_same_trans [OF c3(4) c4(4)]], of s]
      by (simp add: s1_def)
    have "sched_wf (scheduler s1)"
      unfolding s1_def using True by (intro upd_wf [OF wf]) auto
    then have wf': "sched_wf (scheduler s')" by (simp add: c4(1) c3(1) c2(1))
    have v3: "vcpu_at 2 s3 = vcpu_at 2 s'" by (rule c4(2) [symmetric])
    have vi: "hcr_bit HCR_VI s' \<longleftrightarrow> virq_pending (vcpu_at 2 s') \<noteq> 0"
      by (subst e(3)) (simp only: virq_sync_bits v3)
    have tv: "\<not> hcr_bit HCR_TWI s'" "\<not> hcr_bit HCR_VM s'"
      using W(8) by (simp_all add: e(3) virq_sync_bits s3_def activate_bits s2_def sync_traps_bits v1
          ctrl_stepD [OF ctrl_step_ops(5)])
    have "vcpu_vm (vcpu_at 2 s') = None" using sched_wfD(8) [OF wf'] .
    then have "sched_run s'"
      using wf' vi tv by (simp add: sched_run_def cur hw_for_def v' v1)
    then show ?thesis
      using e(1,2) f env cur True v' v1 by (auto simp: sched_post_def)
  qed
  then show "sched_post s 2 r f' s'"
    "f' = (if cur_of s = 2 then f else ctx_hyp_state (vcpu_context (vcpu_at 2 s)))"
    "cur_of s \<noteq> 2 \<Longrightarrow> hv_scheduler_switch_to f (int HV_IDLE_VCPU_IDX) s = Some (r, f', s')"
    "cur_of s = 2 \<Longrightarrow> i \<noteq> 2 \<Longrightarrow> vcpu_at i s' = vcpu_at i s" by blast+
qed

text \<open>What switching from the current vCPU to \<open>n\<close> does to the array, and to the frame.\<close>

definition switched :: "HypExceptState \<Rightarrow> nat \<Rightarrow> machine \<Rightarrow> HypExceptState \<Rightarrow> machine \<Rightarrow> bool" where
  "switched f n s f' s' \<longleftrightarrow>
     f' = (if n = cur_of s then f else ctx_hyp_state (vcpu_context (vcpu_at n s))) \<and>
     (n \<noteq> HV_IDLE_VCPU_IDX \<longrightarrow> banked s' = ctx_banked_regs (vcpu_context (entered_vcpu f n s)) \<and>
        vbar s' = gs_vbar (ctx_sys_regs (vcpu_context (entered_vcpu f n s)))) \<and>
     (n \<noteq> cur_of s \<longrightarrow> vcpu_at (cur_of s) s' = saved_vcpu f s) \<and>
     (\<forall>i. i \<noteq> n \<longrightarrow> i \<noteq> cur_of s \<longrightarrow> vcpu_at i s' = vcpu_at i s)"

lemma switch_to_switched:
  assumes "sched_wf (scheduler s)" "n < 3" "frame_ok f"
    and "hv_scheduler_switch_to f (int n) s = Some (r, f', s')"
  shows "switched f n s f' s'"
proof -
  note S = switch_to_spec [OF assms]
  have "f' = f" if "n = cur_of s" using S(6) that by (simp add: entered_vcpu_def saved_vcpu_def)
  then show ?thesis using S(6-9) by (auto simp: switched_def entered_vcpu_def)
qed

lemma enter_idle_switched:
  assumes "sched_wf (scheduler s)" "frame_ok f" "hv_scheduler_enter_idle f s = Some (r, f', s')"
  shows "switched f HV_IDLE_VCPU_IDX s f' s'"
proof (cases "cur_of s = HV_IDLE_VCPU_IDX")
  case True
  then show ?thesis using enter_idle_spec(2,4) [OF assms] by (simp add: switched_def)
next
  case False
  then show ?thesis using enter_idle_spec(3) [OF assms] switch_to_switched [OF assms(1) _ assms(2)] by simp
qed

lemma saved_leave:
  assumes "cur_of s < length (sch_vcpus (scheduler s))"
  shows "saved_vcpu f (upd_vcpu (cur_of s) leave_running s) = saved_vcpu f s"
proof -
  have "leave_running (hv_vcpu_save (leave_running v) f s1) = leave_running (hv_vcpu_save v f s)"
    if "banked s1 = banked s" "vbar s1 = vbar s" for v :: HvVcpu and s1 :: machine
    using that by (simp add: leave_running_def hv_scheduler_is_idle_vcpu_def hv_vcpu_save_def
        copy_hyp_state_def read_vbar_def Let_def)
  then show ?thesis using assms by (simp add: saved_vcpu_def) (simp add: upd_vcpu_def)
qed

text \<open>The vCPU \<open>advance\<close> goes to: the next runnable guest, a guest that was running counting as
  runnable, or the idle vCPU.\<close>

definition advance_target :: "machine \<Rightarrow> nat" where
  "advance_target s =
     (let p = hv_scheduler_pick_next_idx (upd_vcpu (cur_of s) leave_running s)
      in if p < 0 then HV_IDLE_VCPU_IDX else nat p)"

lemma advance_wf:
  assumes "sched_wf (scheduler s)"
  shows "sched_wf (scheduler (upd_vcpu (cur_of s) leave_running s))"
  using sched_wfD [OF assms] by (intro upd_wf [OF assms]) (auto simp: leave_state)

lemma advance_target_lt: "cur_of s < 3 \<Longrightarrow> advance_target s < 3"
  using pick_next_cases [of "upd_vcpu (cur_of s) leave_running s"]
  by (auto simp: advance_target_def Let_def split: if_splits)

lemma advance_spec:
  assumes wf: "sched_wf (scheduler s)" and f: "frame_ok f"
    and run: "hv_scheduler_advance f s = Some (r, f', s')"
  shows "sched_post s (advance_target s) r f' s'" "switched f (advance_target s) s f' s'"
proof -
  let ?s1 = "upd_vcpu (cur_of s) leave_running s"
  let ?n = "advance_target s"
  note W = sched_wfD [OF wf]
  have len: "cur_of s < length (sch_vcpus (scheduler s))" using W(2,3) by simp
  have n: "?n < 3" by (rule advance_target_lt [OF W(3)])
  note wf1 = advance_wf [OF wf]
  have v1: "vcpu_at i ?s1 = (if i = cur_of s then leave_running (vcpu_at i s) else vcpu_at i s)" for i
    using len by simp
  have r1: "hv_scheduler_enter_idle f ?s1 = Some (r, f', s') \<and> ?n = 2 \<or>
      hv_scheduler_switch_to f (int ?n) ?s1 = Some (r, f', s')"
    using run W(4) by (auto simp: hv_scheduler_advance_def advance_target_def Let_def split: if_splits)
  then have P: "sched_post ?s1 ?n r f' s'" and S: "switched f ?n ?s1 f' s'"
    using enter_idle_spec(1) [OF wf1 f] enter_idle_switched [OF wf1 f]
      switch_to_post [OF wf1 n f] switch_to_switched [OF wf1 n f] by fastforce+
  show "sched_post s ?n r f' s'"
    using P env_same_trans [of s ?s1 s'] v1 by (auto simp: sched_post_def)
  have "vcpu_context (vcpu_at ?n ?s1) = vcpu_context (vcpu_at ?n s)" by (simp add: v1)
  then show "switched f ?n s f' s'"
    using S v1 saved_leave [OF len] by (auto simp: switched_def entered_vcpu_def)
qed

text \<open>\<open>hw_novi\<close> is \<open>hw_for\<close> but for the virtual interrupt line, which \<open>hv_virq_sync\<close> sets.\<close>

definition hw_novi :: "nat \<Rightarrow> machine \<Rightarrow> bool" where
  "hw_novi c s \<longleftrightarrow>
     (hcr_bit HCR_TWI s \<longleftrightarrow> c \<noteq> HV_IDLE_VCPU_IDX) \<and>
     (case vcpu_vm (vcpu_at c s) of
        None \<Rightarrow> \<not> hcr_bit HCR_VM s
      | Some i \<Rightarrow> hcr_bit HCR_VM s \<and> vttbr s = hv_mmu_vttbr_for_vm (sch_vm (scheduler s) ! i) \<and>
          vtcr s = HV_STAGE2_VTCR_DEFAULT)"

lemma hw_for_iff: "hw_for c s \<longleftrightarrow> hw_novi c s \<and> (hcr_bit HCR_VI s \<longleftrightarrow> virq_pending (vcpu_at c s) \<noteq> 0)"
  by (auto simp: hw_for_def hw_novi_def)

lemma hw_novi_upd:
  assumes "hw_novi c s" "vcpu_vm (g (vcpu_at i s)) = vcpu_vm (vcpu_at i s)" "i < length (sch_vcpus (scheduler s))"
  shows "hw_novi c (upd_vcpu i g s)"
proof -
  have e: "vttbr (upd_vcpu i g s) = vttbr s" "vtcr (upd_vcpu i g s) = vtcr s" by (simp_all add: upd_vcpu_def)
  have v: "vcpu_vm (vcpu_at c (upd_vcpu i g s)) = vcpu_vm (vcpu_at c s)" using assms(2,3) by simp
  show ?thesis using assms(1) unfolding hw_novi_def hcr_bit_frame upd_vcpu_sel(1) e v .
qed

lemma virq_sync_machine:
  fixes s :: machine
  assumes "sched_wf (scheduler s)" "vcpu_state (vcpu_at (cur_of s) s) = HV_VCPU_RUNNING"
    "hw_novi (cur_of s) s"
  shows "sched_run (hv_virq_sync (Some (vcpu_at (cur_of s) s)) s)"
    "env_same s (hv_virq_sync q s)" "vcpu_at i (hv_virq_sync q s) = vcpu_at i s"
    "cur_of (hv_virq_sync q s) = cur_of s" "scheduler (hv_virq_sync q s) = scheduler s"
proof -
  note C = ctrl_stepD [OF ctrl_step_ops(4) [of s q]]
  show "env_same s (hv_virq_sync q s)" "vcpu_at i (hv_virq_sync q s) = vcpu_at i s"
    "cur_of (hv_virq_sync q s) = cur_of s" "scheduler (hv_virq_sync q s) = scheduler s"
    by (rule C)+
  let ?v = "Some (vcpu_at (cur_of s) s)"
  note C = ctrl_stepD [OF ctrl_step_ops(4) [of s ?v]]
  have "hw_novi (cur_of s) (hv_virq_sync ?v s)"
    using assms(3) unfolding hw_novi_def virq_sync_bits C(1) C(2) .
  then show "sched_run (hv_virq_sync ?v s)"
    unfolding sched_run_def hw_for_iff C(1) C(2) C(3) virq_sync_bits using assms(1,2) by blast
qed

lemma state_id: "vcpu_state v = x \<Longrightarrow> v\<lparr>vcpu_state := x\<rparr> = v" for v :: HvVcpu
  by (cases v) simp

definition yield_target :: "machine \<Rightarrow> nat" where
  "yield_target s = (if runnable s (1 - cur_of s) then 1 - cur_of s else cur_of s)"

lemma yield_spec:
  assumes sr: "sched_run s" and g: "cur_of s < 2" and f: "frame_ok f"
    and run: "hv_scheduler_yield f s = Some (r, f', s')"
  shows "sched_post s (yield_target s) r f' s'" "switched f (yield_target s) s f' s'"
    "yield_target s = cur_of s \<Longrightarrow> s' = s"
proof -
  let ?c = "cur_of s"
  let ?n = "yield_target s"
  have wf: "sched_wf (scheduler s)" and st: "vcpu_state (vcpu_at ?c s) = HV_VCPU_RUNNING"
    using sr by (simp_all add: sched_run_def)
  note W = sched_wfD [OF wf]
  have len: "?c < length (sch_vcpus (scheduler s))" using W(2,3) by simp
  define s1 where "s1 = upd_vcpu ?c (vcpu_state_update (\<lambda>_. HV_VCPU_RUNNABLE)) s"
  have v1: "vcpu_at i s1 = (if i = ?c then (vcpu_at ?c s)\<lparr>vcpu_state := HV_VCPU_RUNNABLE\<rparr> else vcpu_at i s)"
    for i using len by (simp add: s1_def)
  have c1: "cur_of s1 = ?c" by (simp add: s1_def)
  have p: "hv_scheduler_pick_next_idx s1 = int ?n"
    using g pick_next_cases [of s1] W(3)
    by (auto simp: c1 yield_target_def runnable_def v1 less_2_cases_iff)
  have undo: "upd_vcpu ?c (vcpu_state_update (\<lambda>_. HV_VCPU_RUNNING)) s1 = s"
    using st len by (simp add: s1_def upd_vcpu_def vcpu_at_def state_id)
  have y: "hv_scheduler_yield f s = (if ?n = ?c then Some (HYP_ACTION_RETURN, f, s)
      else hv_scheduler_switch_to f (int ?n) s1)"
    using W(4) p undo by (simp add: hv_scheduler_yield_def s1_def [symmetric] Let_def)
  have "sched_post s ?n r f' s' \<and> switched f ?n s f' s' \<and> (?n = ?c \<longrightarrow> s' = s)"
  proof (cases "?n = ?c")
    case True
    then show ?thesis using run y sr f by (auto simp: sched_post_def switched_def entered_vcpu_def saved_vcpu_def)
  next
    case False
    have n: "?n < 3" using g by (auto simp: yield_target_def)
    have wf1: "sched_wf (scheduler s1)" unfolding s1_def
      using g by (intro upd_wf [OF wf]) auto
    have sw: "hv_scheduler_switch_to f (int ?n) s1 = Some (r, f', s')" using run y False by simp
    have "saved_vcpu f s1 = saved_vcpu f s"
    proof -
      have "hv_scheduler_is_idle_vcpu (Some (vcpu_at ?c s)) = False"
        using is_idle_vcpu_at [OF wf W(3)] g by simp
      then have "vcpu_id (vcpu_at ?c s) \<noteq> HV_IDLE_VCPU_ID" by (simp add: hv_scheduler_is_idle_vcpu_def)
      moreover have "banked s1 = banked s" "vbar s1 = vbar s" by (simp_all add: s1_def upd_vcpu_def)
      ultimately show ?thesis
        using st by (simp add: saved_vcpu_def c1 v1 leave_running_def hv_scheduler_is_idle_vcpu_def
            hv_vcpu_save_def copy_hyp_state_def read_vbar_def Let_def)
    qed
    then show ?thesis
      using switch_to_post [OF wf1 n f sw] switch_to_switched [OF wf1 n f sw] False v1 c1
        env_same_trans [of s s1 s']
      by (auto simp: sched_post_def switched_def entered_vcpu_def s1_def)
  qed
  then show "sched_post s ?n r f' s'" "switched f ?n s f' s'" "?n = ?c \<Longrightarrow> s' = s" by blast+
qed

lemma frame_ok_wfi: "frame_ok (hv_scheduler_advance_trapped_wfi f) = frame_ok f"
  by (simp add: hv_scheduler_advance_trapped_wfi_def frame_ok_def Let_def)

text \<open>A guest's WFI: it goes on at once when an interrupt is pending, and blocks otherwise.\<close>

lemma wfi_guest:
  assumes sr: "sched_run s" and g: "cur_of s < 2" and f: "frame_ok f"
    and run: "hv_scheduler_handle_wfi f s = Some (r, f', s')"
  shows "virq_pending (vcpu_at (cur_of s) s) \<noteq> 0 \<Longrightarrow>
      sched_post s (cur_of s) r f' s' \<and> f' = hv_scheduler_advance_trapped_wfi f \<and>
      (\<forall>i. vcpu_at i s' = vcpu_at i s)"
    and "virq_pending (vcpu_at (cur_of s) s) = 0 \<Longrightarrow>
      let s1 = upd_vcpu (cur_of s) (vcpu_state_update (\<lambda>_. HV_VCPU_BLOCKED)) s
      in sched_post s (advance_target s1) r f' s' \<and> advance_target s1 \<noteq> cur_of s \<and>
        switched (hv_scheduler_advance_trapped_wfi f) (advance_target s1) s1 f' s' \<and>
        vcpu_state (vcpu_at (cur_of s) s') = HV_VCPU_BLOCKED"
proof -
  let ?c = "cur_of s"
  let ?f = "hv_scheduler_advance_trapped_wfi f"
  have wf: "sched_wf (scheduler s)" and st: "vcpu_state (vcpu_at ?c s) = HV_VCPU_RUNNING"
    and hw: "hw_novi ?c s"
    using sr by (simp_all add: sched_run_def hw_for_iff)
  note W = sched_wfD [OF wf]
  have idle: "\<not> hv_scheduler_is_idle_vcpu (Some (vcpu_at ?c s))"
    using is_idle_vcpu_at [OF wf W(3)] g by simp
  { assume p: "virq_pending (vcpu_at ?c s) \<noteq> 0"
    have "r = 0" "f' = ?f" "s' = hv_virq_sync (Some (vcpu_at ?c s)) s"
      using run W(4) idle p by (auto simp: hv_scheduler_handle_wfi_def deref_def Let_def)
    then show "sched_post s ?c r f' s' \<and> f' = ?f \<and> (\<forall>i. vcpu_at i s' = vcpu_at i s)"
      using virq_sync_machine [OF wf st hw] f by (simp add: sched_post_def frame_ok_wfi) }
  assume p: "virq_pending (vcpu_at ?c s) = 0"
  define s1 where "s1 = upd_vcpu ?c (vcpu_state_update (\<lambda>_. HV_VCPU_BLOCKED)) s"
  have len: "?c < length (sch_vcpus (scheduler s))" using W(2,3) by simp
  have v1: "vcpu_at i s1 = (if i = ?c then (vcpu_at ?c s)\<lparr>vcpu_state := HV_VCPU_BLOCKED\<rparr> else vcpu_at i s)"
    for i using len by (simp add: s1_def)
  have c1: "cur_of s1 = ?c" by (simp add: s1_def)
  have st1: "store (cur_vcpu (scheduler s)) (hv_vcpu_block (deref (cur_vcpu (scheduler s)) s)) s = s1"
    using W(4) by (simp add: store_def deref_def hv_vcpu_block_def s1_def upd_vcpu_def vcpu_at_def)
  have adv: "hv_scheduler_advance ?f s1 = Some (r, f', s')"
    using run W(4) idle p st1 by (auto simp: hv_scheduler_handle_wfi_def deref_def Let_def)
  have wf1: "sched_wf (scheduler s1)" unfolding s1_def using g by (intro upd_wf [OF wf]) auto
  have f1: "frame_ok ?f" using f by (simp add: frame_ok_wfi)
  note A = advance_spec [OF wf1 f1 adv]
  have len1: "?c < length (sch_vcpus (scheduler s1))" using len by (simp add: s1_def)
  have "leave_running (vcpu_at ?c s1) = vcpu_at ?c s1" by (simp add: v1 leave_running_def)
  then have vl: "vcpu_at i (upd_vcpu ?c leave_running s1) = vcpu_at i s1" for i using len1 by simp
  have "\<not> runnable (upd_vcpu ?c leave_running s1) ?c" by (simp add: runnable_def vl v1)
  then have ne: "advance_target s1 \<noteq> ?c"
    using g pick_next_cases [of "upd_vcpu ?c leave_running s1"]
    by (auto simp: advance_target_def c1 Let_def less_2_cases_iff split: if_splits)
  have b: "vcpu_state (vcpu_at ?c s') = HV_VCPU_BLOCKED"
  proof -
    have "vcpu_at ?c s' = saved_vcpu ?f s1" using A(2) ne by (simp add: switched_def c1)
    then show ?thesis by (simp add: saved_vcpu_def leave_state c1 v1)
  qed
  show "let s1 = upd_vcpu ?c (vcpu_state_update (\<lambda>_. HV_VCPU_BLOCKED)) s
      in sched_post s (advance_target s1) r f' s' \<and> advance_target s1 \<noteq> ?c \<and>
        switched ?f (advance_target s1) s1 f' s' \<and> vcpu_state (vcpu_at ?c s') = HV_VCPU_BLOCKED"
    unfolding Let_def s1_def [symmetric]
    using A ne b env_same_trans [of s s1 s'] v1 by (auto simp: sched_post_def s1_def)
qed

lemma wfi_idle:
  assumes "sched_run s" "cur_of s = 2" "frame_ok f" "hv_scheduler_handle_wfi f s = Some (r, f', s')"
  shows "sched_post s 2 r f' s'" "f' = f"
proof -
  have wf: "sched_wf (scheduler s)" using assms(1) by (simp add: sched_run_def)
  have "hv_scheduler_is_idle_vcpu (Some (vcpu_at 2 s))" using is_idle_vcpu_at [OF wf, of 2] by simp
  then have "hv_scheduler_enter_idle f s = Some (r, f', s')"
    using assms(2,4) sched_wfD(4) [OF wf] by (simp add: hv_scheduler_handle_wfi_def deref_def Let_def)
  from enter_idle_spec(1,2) [OF wf assms(3) this] assms(2)
  show "sched_post s 2 r f' s'" "f' = f" by simp_all
qed

subsection \<open>The operations return\<close>

text \<open>They can only spin on the serial line, and only to trace.\<close>

definition returns_ok :: "machine \<Rightarrow> bool" where
  "returns_ok s \<longleftrightarrow> uart_live s \<or> \<not> hv_scheduler_verbose s"

lemma uart_live_cong: "hw_in s' = hw_in s \<Longrightarrow> length (hw_log s') = length (hw_log s) \<Longrightarrow> uart_live s' = uart_live s"
  for s s' :: "'a hw_scheme"
  by (simp add: uart_live_def port_live_def)

lemma uart_live_in: "hw_in s' = hw_in s \<Longrightarrow> uart_live s' = uart_live s"
  for s s' :: "'a hw_scheme"
  by (simp add: uart_live_def port_live_def)

lemma returns_ok_env: "env_same s s' \<Longrightarrow> returns_ok s' = returns_ok s"
  using uart_live_in [of s' s] by (simp add: returns_ok_def env_same_def)

lemma trace_if_live:
  fixes s :: machine
  assumes "uart_live s \<or> \<not> b" "format fmt args \<noteq> None"
  shows "\<exists>s'. (if b then trace fn fmt args s else Some s) = Some s'"
  using assms(1) trace_live [OF _ assms(2), of s fn] by (cases b) auto

lemma switch_to_returns:
  assumes "cur_vcpu (scheduler s) = Some c" "returns_ok s"
  shows "hv_scheduler_switch_to f (int n) s \<noteq> None"
proof -
  define s1 where "s1 = upd_vcpu c leave_running (upd_vcpu c (\<lambda>v. hv_vcpu_save v f s) s)"
  have "env_same s s1" by (simp add: s1_def env_same_def upd_vcpu_def)
  then have ok: "uart_live s1 \<or> \<not> hv_scheduler_verbose s1"
    using assms(2) returns_ok_env returns_ok_def by blast
  have fmt: "format (''sched switch prev=%d next=%d elr=%p'' @ nl) [PInt x, PInt y, PInt z] \<noteq> None" for x y z
    by (simp add: format_simps nl_def)
  obtain s2 where "(if hv_scheduler_verbose s1
          then trace ''hv_scheduler_switch_to'' (''sched switch prev=%d next=%d elr=%p'' @ nl)
                 [PInt (vcpu_id (vcpu_at c s)), PInt (vcpu_id (vcpu_at n s1)),
                  PInt (frame_elr_hyp (ctx_hyp_state (vcpu_context (vcpu_at n s1))))] s1
          else Some s1) = Some s2"
    using trace_if_live [OF ok fmt] by blast
  then show ?thesis
    unfolding switch_to_eq [OF assms(1)] s1_def [symmetric] by (simp add: Let_def case_prod_beta)
qed

lemma enter_idle_returns:
  "cur_vcpu (scheduler s) = Some c \<Longrightarrow> returns_ok s \<Longrightarrow> hv_scheduler_enter_idle f s \<noteq> None"
  using switch_to_returns [of s c f 2] by (auto simp: hv_scheduler_enter_idle_def Let_def)

lemma pick_next_nonneg: "\<not> hv_scheduler_pick_next_idx s < 0 \<Longrightarrow> int (nat (hv_scheduler_pick_next_idx s)) = hv_scheduler_pick_next_idx s"
  by simp

lemma advance_returns:
  assumes "cur_vcpu (scheduler s) = Some c" "returns_ok s"
  shows "hv_scheduler_advance f s \<noteq> None"
proof -
  let ?s1 = "upd_vcpu c leave_running s"
  have ok: "returns_ok ?s1" "cur_vcpu (scheduler ?s1) = Some c"
    using assms returns_ok_env [of s ?s1] by simp_all
  show ?thesis
    using enter_idle_returns [OF ok(2,1)] switch_to_returns [OF ok(2,1), of f "nat (hv_scheduler_pick_next_idx ?s1)"]
      assms(1) pick_next_nonneg [of ?s1]
    by (auto simp: hv_scheduler_advance_def Let_def)
qed

lemma yield_returns:
  assumes "cur_vcpu (scheduler s) = Some c" "returns_ok s"
  shows "hv_scheduler_yield f s \<noteq> None"
proof -
  let ?s1 = "upd_vcpu c (vcpu_state_update (\<lambda>_. HV_VCPU_RUNNABLE)) s"
  have ok: "returns_ok ?s1" "cur_vcpu (scheduler ?s1) = Some c"
    using assms returns_ok_env [of s ?s1] by simp_all
  show ?thesis
    using switch_to_returns [OF ok(2,1), of f "nat (hv_scheduler_pick_next_idx ?s1)"]
      assms(1) pick_next_nonneg [of ?s1]
    by (auto simp: hv_scheduler_yield_def Let_def)
qed

lemma wfi_returns:
  assumes "cur_vcpu (scheduler s) = Some c" "returns_ok s"
  shows "hv_scheduler_handle_wfi f s \<noteq> None"
proof -
  let ?s1 = "upd_vcpu c (\<lambda>_. (vcpu_at c s)\<lparr>vcpu_state := HV_VCPU_BLOCKED\<rparr>) s"
  have ok: "returns_ok ?s1" "cur_vcpu (scheduler ?s1) = Some c"
    using assms returns_ok_env [of s ?s1] by simp_all
  show ?thesis
    using enter_idle_returns [OF assms] advance_returns [OF ok(2,1)] assms(1)
    by (auto simp: hv_scheduler_handle_wfi_def deref_def store_def hv_vcpu_block_def Let_def)
qed

subsection \<open>The physical timer\<close>

text \<open>A vCPU counts when it has an enabled timer and is neither idle nor exited.\<close>

definition timer_counts :: "HvVcpu \<Rightarrow> bool" where
  "timer_counts v \<longleftrightarrow> vcpu_state v \<noteq> HV_VCPU_IDLE \<and> vcpu_state v \<noteq> HV_VCPU_EXITED \<and>
     tm_enabled (vcpu_timer v)"

definition deadlines :: "HvVcpu list \<Rightarrow> u64 list" where
  "deadlines vs = map (\<lambda>v. tm_deadline (vcpu_timer v)) (filter timer_counts vs)"

lemma deadlines_simps [simp]:
  "deadlines [] = []"
  "deadlines (v # vs) = (if timer_counts v then tm_deadline (vcpu_timer v) # deadlines vs else deadlines vs)"
  by (simp_all add: deadlines_def)

lemma earliest_step_simps:
  "\<not> timer_counts v \<Longrightarrow> earliest_step v x = x"
  "timer_counts v \<Longrightarrow> earliest_step v None = Some (tm_deadline (vcpu_timer v))"
  "timer_counts v \<Longrightarrow> earliest_step v (Some e) = Some (min (tm_deadline (vcpu_timer v)) e)"
  by (auto simp: earliest_step_def timer_counts_def min_def)

lemma earliest_fold: "fold earliest_step vs (Some e) = Some (Min (insert e (set (deadlines vs))))"
proof (induction vs arbitrary: e)
  case (Cons v vs)
  have m: "Min (insert (min x e) A) = Min (insert e (insert x A))" if "finite A" for x e :: u64 and A
    using that by (cases "A = {}") (simp_all add: Min_insert min.assoc min.commute min.left_commute)
  show ?case
  proof (cases "timer_counts v")
    case True
    then show ?thesis by (simp add: earliest_step_simps Cons.IH m)
  next
    case False
    then show ?thesis by (simp add: earliest_step_simps Cons.IH)
  qed
qed simp

lemma earliest_deadline_Min:
  "earliest_deadline vs = (if deadlines vs = [] then None else Some (Min (set (deadlines vs))))"
proof (induction vs)
  case (Cons v vs)
  show ?case
  proof (cases "timer_counts v")
    case True
    then show ?thesis by (simp add: earliest_deadline_def earliest_step_simps earliest_fold)
  next
    case False
    then show ?thesis using Cons.IH by (simp add: earliest_deadline_def earliest_step_simps)
  qed
qed (simp add: earliest_deadline_def)

text \<open>The interval it arms: to the earliest deadline, one microsecond if that has passed, and never
  more than the timer can count.\<close>

definition rearm_delta :: "u64 \<Rightarrow> u32 \<Rightarrow> u32" where
  "rearm_delta earliest now =
     (let delta = (if earliest > ucast now then earliest - ucast now else 1)
      in ucast (min delta (ucast TIM_ARM_TIMER_MAX_DELTA_US)))"

lemma rearm_eq:
  "hv_vtimer_rearm_physical s =
     (if deadlines (take HV_MAX_GUEST_VCPUS (sch_vcpus (scheduler s))) = [] then TIM_Disable_IRQ s
      else case TIM_SYS_Get_Ticks s of (t, s1) \<Rightarrow>
        TIM_Arm_Usec (rearm_delta (Min (set (deadlines (take HV_MAX_GUEST_VCPUS (sch_vcpus (scheduler s)))))) t) s1)"
  by (simp add: hv_vtimer_rearm_physical_def earliest_deadline_Min rearm_delta_def Let_def min_def
      not_less [symmetric] cong: if_cong split: prod.splits)

lemma rearm_io: "io_out s (hv_vtimer_rearm_physical s) []"
proof -
  obtain t s1 where g: "TIM_SYS_Get_Ticks s = (t, s1)" by fastforce
  show ?thesis
    using io_out_timer(1) [of s] io_out_steps [OF io_out_timer(4) [OF g] io_out_timer(2)]
    by (simp add: rearm_eq g)
qed

lemma unat_rearm_delta:
  "unat (rearm_delta e t) = min (if unat t < unat e then unat e - unat t else 1) 8589933"
proof -
  let ?d = "if e > ucast t then e - ucast t else 1 :: u64"
  have lt: "e > ucast t \<longleftrightarrow> unat t < unat e" by (simp add: word_less_nat_alt unat_ucast_up)
  have d: "unat ?d = (if unat t < unat e then unat e - unat t else 1)"
    using lt unat_sub [of "ucast t" e] by (auto simp: unat_ucast_up word_le_nat_alt)
  have m: "unat (min ?d (ucast TIM_ARM_TIMER_MAX_DELTA_US)) = min (unat ?d) 8589933"
    by (simp add: min_def word_le_nat_alt TIM_ARM_TIMER_MAX_DELTA_US_eq)
  have "unat (ucast (min ?d (ucast TIM_ARM_TIMER_MAX_DELTA_US)) :: u32) = min (unat ?d) 8589933"
    using m by (simp add: unat_ucast_mod)
  then show ?thesis unfolding rearm_delta_def Let_def d .
qed

end
