(* ===== verification/Scheduler_Init.thy ===== *)
theory Scheduler_Init
  imports Scheduler
begin

section \<open>What hv\_scheduler\_init establishes\<close>

text \<open>
  The initial state: each guest VM has three regions and translates exactly its own slot of physical
  memory; the vCPUs belong to their VMs and the scheduler is well formed. The lemmas follow one VM
  through its initialisation, and show that initialising one does not disturb the other's tables.
\<close>

subsection \<open>Table operations keep the rest of the machine\<close>

definition table_step :: "'a s2hw_scheme \<Rightarrow> 'a s2hw_scheme \<Rightarrow> bool" where
  "table_step s s' \<longleftrightarrow> (\<exists>tm es. s' = s\<lparr>stage2_tables := tm, hw_log := hw_log s @ es\<rparr>)"

lemma table_step_refl: "table_step s s"
  unfolding table_step_def by (rule exI [of _ "stage2_tables s"], rule exI [of _ "[]"]) simp

lemma table_step_trans: "table_step s s1 \<Longrightarrow> table_step s1 s2 \<Longrightarrow> table_step s s2"
  unfolding table_step_def
  by (elim exE) (rule_tac x = tma in exI, rule_tac x = "es @ esa" in exI, simp)

lemma table_step_init: "hv_stage2_init base p s = (r, p', s') \<Longrightarrow> table_step s s'"
proof -
  assume a: "hv_stage2_init base p s = (r, p', s')"
  have "s' = s \<or> (\<exists>tm. s' = DSB (s\<lparr>stage2_tables := tm\<rparr>))"
    using a by (auto simp: hv_stage2_init_def Let_def split: option.splits if_splits)
  then show ?thesis
    by (auto simp: table_step_refl) (auto simp: table_step_def DSB_def emit_def)
qed

lemma table_step_map: "hv_stage2_map_region p ipa pa sz ats s = (r, p', s') \<Longrightarrow> table_step s s'"
proof -
  assume a: "hv_stage2_map_region p ipa pa sz ats s = (r, p', s')"
  have "s' = s \<or> (\<exists>tm. s' = stage2_tlb_sync (s\<lparr>stage2_tables := tm\<rparr>))"
    using a unfolding hv_stage2_map_region_def
    by (auto simp: Let_def split: option.splits if_splits prod.splits)
  then show ?thesis
    by (auto simp: table_step_refl)
       (auto simp: table_step_def stage2_tlb_sync_def hyp_invalidate_stage2_tlb_all_def DSB_def
          ISB_def emit_def)
qed

lemma table_step_build_loop: "hv_vm_build_loop n i vm s = (r, vm', s') \<Longrightarrow> table_step s s'"
proof (induction n arbitrary: i vm s)
  case (Suc n)
  show ?case
  proof (cases "region_type (vm_regions vm ! i) = HV_VM_REGION_RAM")
    case False
    then show ?thesis using Suc by simp
  next
    case True
    obtain r1 p1 s1 where m: "hv_stage2_map_region (Some vm) (ipa_base (vm_regions vm ! i))
        (pa_base (vm_regions vm ! i)) (region_size (vm_regions vm ! i)) (attrs (vm_regions vm ! i)) s =
        (r1, p1, s1)" by (metis prod_cases3)
    note T = table_step_map [OF m]
    show ?thesis
      using Suc.prems True m T table_step_trans [OF T Suc.IH]
      by (auto simp: Let_def split: if_splits)
  qed
qed (simp add: table_step_refl)

lemma table_step_build: "hv_vm_build_stage2 p s = (r, p', s') \<Longrightarrow> table_step s s'"
  by (auto simp: hv_vm_build_stage2_def table_step_refl split: option.splits prod.splits
      dest: table_step_build_loop)

lemma table_stepD:
  assumes "table_step s s'"
  shows "hw_in s' = hw_in s" "hcr s' = hcr s" "s2hw.more s' = s2hw.more s"
  using assms by (auto simp: table_step_def)

lemma table_step_machine:
  fixes s s' :: machine
  assumes "table_step s s'"
  shows "scheduler s' = scheduler s" "hv_scheduler_verbose s' = hv_scheduler_verbose s"
    "vuarts s' = vuarts s" "hcr s' = hcr s" "hw_in s' = hw_in s" "irq_counter s' = irq_counter s"
    "hyp_except_verbose s' = hyp_except_verbose s" "gen_tim_period_ticks s' = gen_tim_period_ticks s"
  using assms by (auto simp: table_step_def)

subsection \<open>The regions of a guest\<close>

definition guest_regions :: "nat \<Rightarrow> HvVmRegion list" where
  "guest_regions i = [ram_region_of i, guard_region, uart_region]"

text \<open>A guest's view of memory: 60 KB from \<open>0x20000\<close> on, in its own 64 KB slot; nothing else.\<close>

definition guest_translation :: "nat \<Rightarrow> u64 \<Rightarrow> int + u64" where
  "guest_translation i b =
     (if 0x20000 \<le> unat b \<and> unat b < 0x2f000 then Inr (b + of_nat (i * 0x10000))
      else Inl HV_STAGE2_ERR_UNMAPPED)"

lemma guest_region_bounds:
  "region_lo (ram_region_of i) = 0x20000" "region_hi (ram_region_of i) = 0x2f000"
  "region_lo guard_region = 0x2f000" "region_hi guard_region = 0x30000"
  "region_lo uart_region = 0x10000000" "region_hi uart_region = 0x10001000"
  "region_type (ram_region_of i) = HV_VM_REGION_RAM" "region_type guard_region = HV_VM_REGION_RAM_GUARD"
  "region_type uart_region = HV_VM_REGION_MMIO"
  by (simp_all add: region_lo_def region_hi_def ram_region_of_def guard_region_def uart_region_def)

lemma guest_region_valid:
  "i < 2 \<Longrightarrow> hv_vm_region_valid (Some (ram_region_of i))" "hv_vm_region_valid (Some guard_region)"
  "hv_vm_region_valid (Some uart_region)"
proof -
  assume "i < 2"
  then consider "i = 0" | "i = 1" by linarith
  then show "hv_vm_region_valid (Some (ram_region_of i))"
    by cases (simp_all add: hv_vm_region_valid_def hv_vm_aligned_def hv_vm_fits_v1_32bit_def
      hv_vm_region_backed_def ram_region_of_def GUEST_SLOT_BASE_def)
qed (simp_all add: hv_vm_region_valid_def hv_vm_aligned_def hv_vm_fits_v1_32bit_def
      hv_vm_region_backed_def guard_region_def uart_region_def)

lemma guest_regions_translation: "vm_translation (guest_regions i) = guest_translation i"
proof
  fix b
  have c: "hv_vm_region_contains (Some (ram_region_of i)) b \<longleftrightarrow> 0x20000 \<le> unat b \<and> unat b < 0x2f000"
    "hv_vm_region_contains (Some guard_region) b \<longleftrightarrow> 0x2f000 \<le> unat b \<and> unat b < 0x30000"
    "hv_vm_region_contains (Some uart_region) b \<longleftrightarrow> 0x10000000 \<le> unat b \<and> unat b < 0x10001000"
    by (simp_all only: hv_vm_region_contains_iff guest_region_bounds)
  have p: "pa_base (ram_region_of i) + (b - ipa_base (ram_region_of i)) = b + of_nat (i * 0x10000)"
    by (simp add: ram_region_of_def GUEST_SLOT_BASE_def)
  show "vm_translation (guest_regions i) b = guest_translation i b"
    using p guest_region_bounds(7-9)
    by (auto simp: vm_translation_def guest_regions_def guest_translation_def c)
qed

lemma add_region_ok:
  assumes "region_table_ok vm" "hv_vm_region_valid (Some r)" "length (active_regions vm) < 8"
    and "\<And>x. x \<in> set (active_regions vm) \<Longrightarrow> \<not> intervals_meet x r"
  obtains v where "hv_vm_add_region (Some vm) (Some r) = (HV_VM_OK, Some v)" "region_table_ok v"
    "active_regions v = active_regions vm @ [r]" "stage2 v = stage2 vm" "vm_id v = vm_id vm"
    "vm_vmid v = vm_vmid vm"
proof -
  have "\<not> list_ex (\<lambda>x. hv_vm_regions_overlap x r) (active_regions vm)"
    using assms(1,2,4) by (auto simp: list_ex_iff overlap_iff region_table_ok_def intervals_meet_def)
  then obtain vm' where a: "hv_vm_add_region (Some vm) (Some r) = (HV_VM_OK, vm')"
    using assms(2,3) length_active_regions [OF assms(1)] by (simp add: hv_vm_add_region_Some)
  from hv_vm_add_region_OK [OF a assms(1)] obtain v where "vm' = Some v" "region_table_ok v"
    "active_regions v = active_regions vm @ [r]" "stage2 v = stage2 vm" "vm_id v = vm_id vm"
    "vm_vmid v = vm_vmid vm" by metis
  with a that show thesis by blast
qed

subsection \<open>Initialising one VM\<close>

definition guest_vm_ok :: "nat \<Rightarrow> HvVm \<Rightarrow> (nat \<Rightarrow> u64) \<Rightarrow> bool" where
  "guest_vm_ok i vm tm \<longleftrightarrow> vm_id vm = of_nat i \<and> vm_vmid vm = of_nat i \<and>
     active_regions vm = guest_regions i \<and> region_table_ok vm \<and> vm_tables_ok vm tm \<and>
     pool_va (stage2 vm) = i * 4096 \<and> translates vm tm (guest_translation i)"

lemma guest_vm_ok_local:
  assumes "guest_vm_ok i vm tm" "\<And>a. i * 4096 \<le> a \<Longrightarrow> a < i * 4096 + 4096 \<Longrightarrow> tm' a = tm a"
  shows "guest_vm_ok i vm tm'"
  using assms vm_tables_local [of vm tm tm'] by (simp add: guest_vm_ok_def translates_def)

lemma vm_res_ok [simp]: "vm_res i (HV_VM_OK, Some v) s = Some (upd_vm i v s)"
  by (simp add: vm_res_def)

lemma upd_vm_simps [simp]:
  "upd_vm i a (upd_vm i b s) = upd_vm i a s"
  "i < length (sch_vm (scheduler s)) \<Longrightarrow> sch_vm (scheduler (upd_vm i a s)) ! i = a"
  "stage2_tables (upd_vm i a s) = stage2_tables s" "env_same s t \<Longrightarrow> hw_in (upd_vm i a s) = hw_in s"
  by (simp_all add: upd_vm_def)

lemma init_vm_regions:
  assumes "i < 2" "tables_base_ok base"
  obtains v3 where
    "\<forall>s. i < length (sch_vm (scheduler s)) \<longrightarrow> sch_vm (scheduler s) ! i =
       zero_HvVm\<lparr>vm_id := of_nat i, vm_vmid := of_nat i, stage2 := init_stage2 base i\<rparr> \<longrightarrow>
       do { s \<leftarrow> vm_res i (hv_vm_add_region (Some (sch_vm (scheduler s) ! i)) (Some (ram_region_of i))) s;
            s \<leftarrow> vm_res i (hv_vm_add_region (Some (sch_vm (scheduler s) ! i)) (Some guard_region)) s;
            vm_res i (hv_vm_add_region (Some (sch_vm (scheduler s) ! i)) (Some uart_region)) s } =
       Some (upd_vm i v3 s)"
    "region_table_ok v3" "active_regions v3 = guest_regions i" "stage2 v3 = init_stage2 base i"
    "vm_id v3 = of_nat i" "vm_vmid v3 = of_nat i"
proof -
  let ?v0 = "zero_HvVm\<lparr>vm_id := of_nat i, vm_vmid := of_nat i, stage2 := init_stage2 base i\<rparr>"
  note V = guest_region_valid(1) [OF assms(1)] guest_region_valid(2,3)
  have v0: "region_table_ok ?v0" "active_regions ?v0 = []"
    using region_table_ok_zero [of "of_nat i" "of_nat i"]
    by (simp_all add: active_regions_def zero_HvVm_def region_table_ok_def)
  obtain v1 where v1: "hv_vm_add_region (Some ?v0) (Some (ram_region_of i)) = (HV_VM_OK, Some v1)"
    "region_table_ok v1" "active_regions v1 = [ram_region_of i]" "stage2 v1 = init_stage2 base i"
    "vm_id v1 = of_nat i" "vm_vmid v1 = of_nat i"
    using add_region_ok [OF v0(1) V(1)] v0(2) by auto
  obtain v2 where v2: "hv_vm_add_region (Some v1) (Some guard_region) = (HV_VM_OK, Some v2)"
    "region_table_ok v2" "active_regions v2 = [ram_region_of i, guard_region]"
    "stage2 v2 = init_stage2 base i" "vm_id v2 = of_nat i" "vm_vmid v2 = of_nat i"
    using add_region_ok [OF v1(2) V(2)] v1(3-6) by (auto simp: intervals_meet_def guest_region_bounds)
  have nm: "\<not> intervals_meet x uart_region" if "x \<in> set (active_regions v2)" for x
    using that v2(3) by (auto simp: intervals_meet_def guest_region_bounds)
  obtain v3 where v3: "hv_vm_add_region (Some v2) (Some uart_region) = (HV_VM_OK, Some v3)"
    "region_table_ok v3" "active_regions v3 = guest_regions i"
    "stage2 v3 = init_stage2 base i" "vm_id v3 = of_nat i" "vm_vmid v3 = of_nat i"
    using add_region_ok [OF v2(2) V(3) _ nm] v2(3-6) by (auto simp: guest_regions_def)
  show thesis
  proof (rule that [OF _ v3(2-6)], intro allI impI)
    fix s :: machine
    assume len: "i < length (sch_vm (scheduler s))" and z: "sch_vm (scheduler s) ! i = ?v0"
    show "do { s \<leftarrow> vm_res i (hv_vm_add_region (Some (sch_vm (scheduler s) ! i)) (Some (ram_region_of i))) s;
            s \<leftarrow> vm_res i (hv_vm_add_region (Some (sch_vm (scheduler s) ! i)) (Some guard_region)) s;
            vm_res i (hv_vm_add_region (Some (sch_vm (scheduler s) ! i)) (Some uart_region)) s } =
       Some (upd_vm i v3 s)"
      unfolding z v1(1) vm_res_ok Option.bind.bind_lunit upd_vm_simps(2) [OF len] v2(1) v3(1) upd_vm_simps(1) by (rule refl)
  qed
qed

lemma init_vm_step:
  assumes i: "i < 2" and base: "tables_base_ok base"
    and len: "length (sch_vm (scheduler s)) = 2" "length (sch_vcpus (scheduler s)) = 3"
  obtains s4 v where
    "scheduler_init_vm base i s = do {
       s5 \<leftarrow> (if hv_scheduler_verbose s4
          then trace ''hv_scheduler_init'' (''vm map id=%d vmid=%d ipa=%p pa=%p root=%p'' @ nl)
              [PInt (vm_id v), PInt (vm_vmid v), PInt (ucast (ipa_base (ram_region_of i))),
               PInt (ucast (pa_base (ram_region_of i))), PInt (ucast (root_pa (stage2 v)))] s4
          else Some s4);
       Some (upd_vcpu i (vcpu_vm_update (\<lambda>_. Some i)) s5) }"
    "guest_vm_ok i v (stage2_tables s4)"
    "\<forall>a. a < i * 4096 \<or> i * 4096 + 4096 \<le> a \<longrightarrow> stage2_tables s4 a = stage2_tables s a"
    "\<exists>tm es. s4 = s\<lparr>stage2_tables := tm, hw_log := hw_log s @ es,
       scheduler := (scheduler s)\<lparr>sch_vm := (sch_vm (scheduler s))[i := v]\<rparr>\<rparr>"
proof -
  let ?n = "of_nat i :: u32"
  have un: "unat ?n = i" using i by (intro unat_of_nat_small) simp
  let ?v0 = "zero_HvVm\<lparr>vm_id := ?n, vm_vmid := ?n, stage2 := init_stage2 base i\<rparr>"
  let ?tm = "\<lambda>a. if i * 4096 \<le> a \<and> a < i * 4096 + 4096 then 0 else stage2_tables s a"
  define s1 where "s1 = DSB (s\<lparr>stage2_tables := ?tm\<rparr>)"
  have init: "hv_vm_init base (Some (sch_vm (scheduler s) ! i)) ?n ?n s = (HV_VM_OK, Some ?v0, s1)"
  proof -
    have lt: "unat ?n < HV_MAX_VMS" using i un by simp
    have "hv_vm_init base (Some (sch_vm (scheduler s) ! i)) ?n ?n s =
        hv_stage2_init base (Some (zero_HvVm\<lparr>vm_id := ?n, vm_vmid := ?n\<rparr>)) s"
      by (rule hv_vm_init_eq [OF lt])
    also have "\<dots> = (HV_STAGE2_OK, Some ?v0, s1)"
      using hv_stage2_init_eq [of "zero_HvVm\<lparr>vm_id := ?n, vm_vmid := ?n\<rparr>" base s] i un
      by (simp add: s1_def)
    finally show ?thesis .
  qed
  have T1: "table_step s s1" unfolding s1_def table_step_def DSB_def emit_def
    by (rule exI [of _ ?tm], rule exI [of _ "[EvDSB]"]) simp
  have len1: "i < length (sch_vm (scheduler s1))" using table_step_machine(1) [OF T1] len i by simp
  obtain v3 where v3:
    "\<forall>s. i < length (sch_vm (scheduler s)) \<longrightarrow> sch_vm (scheduler s) ! i = ?v0 \<longrightarrow>
       do { s \<leftarrow> vm_res i (hv_vm_add_region (Some (sch_vm (scheduler s) ! i)) (Some (ram_region_of i))) s;
            s \<leftarrow> vm_res i (hv_vm_add_region (Some (sch_vm (scheduler s) ! i)) (Some guard_region)) s;
            vm_res i (hv_vm_add_region (Some (sch_vm (scheduler s) ! i)) (Some uart_region)) s } =
       Some (upd_vm i v3 s)"
    "region_table_ok v3" "active_regions v3 = guest_regions i" "stage2 v3 = init_stage2 base i"
    "vm_id v3 = ?n" "vm_vmid v3 = ?n"
    proof (rule init_vm_regions [OF i base], goal_cases)
    case (1 v3)
    show thesis by (rule 1(1) [OF 1(2-)])
  qed
  define s2 where "s2 = upd_vm i v3 s1"
  have tm2: "stage2_tables s2 = ?tm" by (simp add: s2_def s1_def)
  have I: "s2_inv (\<lambda>_. 1) (stage2 v3) (stage2_tables s2)" "s2_view (stage2 v3) (stage2_tables s2) b = 0" for b
    using s2_inv_init [OF base i, of ?tm] by (simp_all add: tm2 v3(4))
  have ok3: "vm_tables_ok v3 (stage2_tables s2)" unfolding vm_tables_ok_def using I by fastforce
  have empty: "hv_stage2_translate (Some v3) b True (stage2_tables s2) = Inl HV_STAGE2_ERR_UNMAPPED"
    if "unat b < 2 ^ 32" for b using I(2) [of b] that by (simp add: translate_view)
  obtain r p s3 where b: "hv_vm_build_stage2 (Some v3) s2 = (r, p, s3)" by (metis prod_cases3)
  have suff: "tables_suffice v3 (active_regions v3)"
    by (simp add: tables_suffice_def v3(3,4) guest_regions_def ram_regions_def guest_region_bounds
        one_block_def init_stage2_def Let_def)
  obtain v where v: "p = Some v" "v = v3\<lparr>stage2 := stage2 v\<rparr>" "active_regions v = active_regions v3"
    "region_table_ok v" "vm_tables_ok v (stage2_tables s3)"
    "s2_frame (stage2 v3) (stage2_tables s2) (stage2 v) (stage2_tables s3)"
    "r = HV_VM_OK \<Longrightarrow> translates v (stage2_tables s3) (vm_translation (active_regions v3))"
    "tables_suffice v3 (active_regions v3) \<Longrightarrow> r = HV_VM_OK"
  proof (rule build_stage2_spec [OF v3(2) ok3 empty b], goal_cases)
    case (2 v)
    show thesis by (rule 2(1)) (fact 2)+
  qed assumption
  have r: "r = HV_VM_OK" by (rule v(8) [OF suff])
  have T3: "table_step s2 s3" by (rule table_step_build [OF b])
  have sc3: "scheduler s3 = scheduler s2" by (rule table_step_machine(1) [OF T3])
  have len3: "i < length (sch_vm (scheduler s3))" using len1 by (simp add: sc3 s2_def upd_vm_def)
  define s4 where "s4 = upd_vm i v s3"
  obtain u where "stage2 v = (stage2 v3)\<lparr>pool_used := u\<rparr>"
    and fr: "\<And>a. a < pool_va (stage2 v3) \<or> pool_va (stage2 v3) + 4096 \<le> a \<Longrightarrow>
      stage2_tables s3 a = stage2_tables s2 a" using s2_frameE [OF v(6)] by metis
  then have pool: "pool_va (stage2 v) = i * 4096" "pool_va (stage2 v3) = i * 4096"
    by (simp_all add: v3(4) init_stage2_def Let_def)
  have ids: "vm_id v = ?n" "vm_vmid v = ?n" by (subst v(2), simp add: v3(5,6))+
  show thesis
  proof (rule that [of s4 v])
    show "scheduler_init_vm base i s = do {
       s5 \<leftarrow> (if hv_scheduler_verbose s4
          then trace ''hv_scheduler_init'' (''vm map id=%d vmid=%d ipa=%p pa=%p root=%p'' @ nl)
              [PInt (vm_id v), PInt (vm_vmid v), PInt (ucast (ipa_base (ram_region_of i))),
               PInt (ucast (pa_base (ram_region_of i))), PInt (ucast (root_pa (stage2 v)))] s4
          else Some s4);
       Some (upd_vcpu i (vcpu_vm_update (\<lambda>_. Some i)) s5) }"
    proof -
      have z: "sch_vm (scheduler (upd_vm i ?v0 s1)) ! i = ?v0" "i < length (sch_vm (scheduler (upd_vm i ?v0 s1)))"
        using len1 by (simp_all add: upd_vm_def)
      have z3: "sch_vm (scheduler s2) ! i = v3"
        unfolding s2_def by (rule upd_vm_simps(2) [OF len1])
      have z4: "sch_vm (scheduler (upd_vm i v s3)) ! i = v" by (rule upd_vm_simps(2) [OF len3])
      have s2e: "upd_vm i v3 (upd_vm i ?v0 s1) = s2" by (simp add: s2_def)
      have b': "hv_vm_build_stage2 (Some v3) s2 = (HV_VM_OK, Some v, s3)" using b r v(1) by simp
      have R: "do { s \<leftarrow> vm_res i (hv_vm_add_region (Some (sch_vm (scheduler (upd_vm i ?v0 s1)) ! i)) (Some (ram_region_of i))) (upd_vm i ?v0 s1);
            s \<leftarrow> vm_res i (hv_vm_add_region (Some (sch_vm (scheduler s) ! i)) (Some guard_region)) s;
            s \<leftarrow> vm_res i (hv_vm_add_region (Some (sch_vm (scheduler s) ! i)) (Some uart_region)) s;
            K s } = K s2" for K :: "machine \<Rightarrow> machine option"
        using arg_cong [OF v3(1) [rule_format, OF z(2) z(1)], of "\<lambda>m. Option.bind m K"]
        by (simp only: Option.bind_assoc Option.bind.bind_lunit s2e)
      show ?thesis
        unfolding scheduler_init_vm_def Let_def init prod.case vm_res_ok Option.bind.bind_lunit R
        unfolding z3 b' prod.case vm_res_ok Option.bind.bind_lunit
        unfolding s4_def z4 ..
    qed
    show "guest_vm_ok i v (stage2_tables s4)"
      using v(3-5) v(7) [OF r] v3(3) ids pool guest_regions_translation
      by (simp add: guest_vm_ok_def s4_def)
    show "\<forall>a. a < i * 4096 \<or> i * 4096 + 4096 \<le> a \<longrightarrow> stage2_tables s4 a = stage2_tables s a"
      using fr pool(2) by (auto simp: s4_def tm2)
    show "\<exists>tm es. s4 = s\<lparr>stage2_tables := tm, hw_log := hw_log s @ es,
       scheduler := (scheduler s)\<lparr>sch_vm := (sch_vm (scheduler s))[i := v]\<rparr>\<rparr>"
      using T1 T3 unfolding table_step_def s4_def s2_def
      by (elim exE) (rule_tac x = tma in exI, rule_tac x = "es @ esa" in exI, simp add: upd_vm_def)
  qed
qed


text \<open>
  One VM, from the outside: what \<open>scheduler_init_vm\<close> leaves behind. The rest of the machine is as
  before, apart from the tables of this VM's pool and the device history.
\<close>

definition vm_installed :: "nat \<Rightarrow> machine \<Rightarrow> machine \<Rightarrow> bool" where
  "vm_installed i s s' \<longleftrightarrow>
     (\<exists>v. guest_vm_ok i v (stage2_tables s') \<and> sch_vm (scheduler s') = (sch_vm (scheduler s))[i := v]) \<and>
     (\<forall>a. a < i * 4096 \<or> i * 4096 + 4096 \<le> a \<longrightarrow> stage2_tables s' a = stage2_tables s a) \<and>
     sch_vcpus (scheduler s') = (sch_vcpus (scheduler s))
       [i := vcpu_vm_update (\<lambda>_. Some i) (sch_vcpus (scheduler s) ! i)] \<and>
     cur_idx (scheduler s') = cur_idx (scheduler s) \<and> hcr s' = hcr s \<and> hw_in s' = hw_in s \<and>
     vuarts s' = vuarts s \<and> hv_scheduler_verbose s' = hv_scheduler_verbose s \<and>
     hyp_except_verbose s' = hyp_except_verbose s \<and> irq_counter s' = irq_counter s"

lemma init_vm_installed:
  assumes "i < 2" "tables_base_ok base" "length (sch_vm (scheduler s)) = 2"
    "length (sch_vcpus (scheduler s)) = 3"
  shows "scheduler_init_vm base i s = Some s' \<Longrightarrow> vm_installed i s s'"
    and "returns_ok s \<Longrightarrow> scheduler_init_vm base i s \<noteq> None"
proof -
  obtain s4 v where eq: "scheduler_init_vm base i s = do {
       s5 \<leftarrow> (if hv_scheduler_verbose s4
          then trace ''hv_scheduler_init'' (''vm map id=%d vmid=%d ipa=%p pa=%p root=%p'' @ nl)
              [PInt (vm_id v), PInt (vm_vmid v), PInt (ucast (ipa_base (ram_region_of i))),
               PInt (ucast (pa_base (ram_region_of i))), PInt (ucast (root_pa (stage2 v)))] s4
          else Some s4);
       Some (upd_vcpu i (vcpu_vm_update (\<lambda>_. Some i)) s5) }"
    and ok: "guest_vm_ok i v (stage2_tables s4)"
    and loc: "\<forall>a. a < i * 4096 \<or> i * 4096 + 4096 \<le> a \<longrightarrow> stage2_tables s4 a = stage2_tables s a"
    and s4: "\<exists>tm es. s4 = s\<lparr>stage2_tables := tm, hw_log := hw_log s @ es,
       scheduler := (scheduler s)\<lparr>sch_vm := (sch_vm (scheduler s))[i := v]\<rparr>\<rparr>"
    by (rule init_vm_step [OF assms])
  have env: "hw_in s4 = hw_in s" "hv_scheduler_verbose s4 = hv_scheduler_verbose s"
    "scheduler s4 = (scheduler s)\<lparr>sch_vm := (sch_vm (scheduler s))[i := v]\<rparr>" "hcr s4 = hcr s"
    "vuarts s4 = vuarts s" "hyp_except_verbose s4 = hyp_except_verbose s" "irq_counter s4 = irq_counter s"
    using s4 by auto
  show "vm_installed i s s'" if s': "scheduler_init_vm base i s = Some s'"
  proof -
    obtain s5 where t: "(if hv_scheduler_verbose s4
          then trace ''hv_scheduler_init'' (''vm map id=%d vmid=%d ipa=%p pa=%p root=%p'' @ nl)
              [PInt (vm_id v), PInt (vm_vmid v), PInt (ucast (ipa_base (ram_region_of i))),
               PInt (ucast (pa_base (ram_region_of i))), PInt (ucast (root_pa (stage2 v)))] s4
          else Some s4) = Some s5" and s5: "s' = upd_vcpu i (vcpu_vm_update (\<lambda>_. Some i)) s5"
      using s' unfolding eq bind_eq_Some_conv by (auto split del: if_split)
    obtain u where io: "io_out s4 s5 u" using trace_if_io [OF t] ..
    note m = io_machine [OF io]
    have "stage2_tables s5 = stage2_tables s4" "vuarts s5 = vuarts s4" "hyp_except_verbose s5 = hyp_except_verbose s4"
      "hv_scheduler_verbose s5 = hv_scheduler_verbose s4" "irq_counter s5 = irq_counter s4"
      using m(2) by (simp_all add: env_same_def)
    then show ?thesis
      using ok loc env m(1,3,12) by (auto simp: vm_installed_def s5 upd_vcpu_def)
  qed
  show "scheduler_init_vm base i s \<noteq> None" if "returns_ok s"
  proof -
    have live: "uart_live s4 \<or> \<not> hv_scheduler_verbose s4"
      using that uart_live_in [of s4 s] env(1,2) by (simp add: returns_ok_def)
    have fmt: "format (''vm map id=%d vmid=%d ipa=%p pa=%p root=%p'' @ nl)
        [PInt (vm_id v), PInt (vm_vmid v), PInt (ucast (ipa_base (ram_region_of i))),
         PInt (ucast (pa_base (ram_region_of i))), PInt (ucast (root_pa (stage2 v)))] \<noteq> None"
      by (simp add: format_simps nl_def)
    from trace_if_live [OF live fmt, of "''hv_scheduler_init''"] show ?thesis
      unfolding eq by (auto split del: if_split)
  qed
qed


subsection \<open>The scheduler as a whole\<close>

text \<open>The machine the boot code starts on: the scheduler is the zero-initialised global.\<close>

definition reset_machine :: machine where
  "reset_machine = vuart_hw.extend reset_vuart_hw
     \<lparr>scheduler = \<lparr>sch_vm = replicate 2 zero_HvVm, sch_vcpus = replicate 3 zero_HvVcpu,
        cur_idx = 0, cur_vcpu = None\<rparr>,
      virq_controller = \<lparr>vc_initialized = False\<rparr>,
      hv_scheduler_verbose = False, hyp_except_verbose = False, irq_counter = 0\<rparr>"

definition fresh_vcpu :: "nat \<Rightarrow> HvVcpu \<Rightarrow> HvVcpu" where
  "fresh_vcpu i v = v\<lparr>vcpu_id := of_nat i, vcpu_vm := None, vcpu_state := HV_VCPU_IDLE,
     virq_pending := 0, virq_active := 0\<rparr>"

definition fresh_sched :: "machine \<Rightarrow> machine" where
  "fresh_sched s = s\<lparr>scheduler := (scheduler s)\<lparr>cur_idx := 0,
     sch_vcpus := [fresh_vcpu 0 (vcpu_at 0 s), fresh_vcpu 1 (vcpu_at 1 s), fresh_vcpu 2 (vcpu_at 2 s)]\<rparr>\<rparr>"

lemma list3: "length xs = 3 \<Longrightarrow> \<exists>a b c. xs = [a, b, c]"
  by (auto simp: length_Suc_conv numeral_eq_Suc)

lemma fold_init_vcpu:
  assumes "length (sch_vcpus (scheduler s)) = 3"
  shows "fold scheduler_init_vcpu [0..<HV_MAX_VCPUS] (s\<lparr>scheduler := (scheduler s)\<lparr>cur_idx := 0\<rparr>\<rparr>) =
    fresh_sched s"
proof -
  obtain a b c where "sch_vcpus (scheduler s) = [a, b, c]" using list3 [OF assms] by blast
  then show ?thesis
    by (simp add: upt_rec scheduler_init_vcpu_def upd_vcpu_def fresh_sched_def fresh_vcpu_def vcpu_at_def)
qed

text \<open>The scheduler after initialisation: two guests on their own VMs, and the idle loop.\<close>

definition idle_vcpu :: "hv_image \<Rightarrow> HvVcpu" where
  "idle_vcpu img = (hv_vcpu_init zero_HvVcpu HV_IDLE_VCPU_ID (img_idle_entry img)
     (img_idle_stack_top img) HYP_LOWER_SVC_CPSR)\<lparr>vcpu_state := HV_VCPU_IDLE\<rparr>"

definition init_vcpus :: "hv_image \<Rightarrow> machine \<Rightarrow> HvVcpu list" where
  "init_vcpus img s =
     [(fresh_vcpu 0 (vcpu_at 0 s))\<lparr>vcpu_vm := Some 0, vcpu_state := HV_VCPU_RUNNABLE\<rparr>,
      (fresh_vcpu 1 (vcpu_at 1 s))\<lparr>vcpu_vm := Some 1\<rparr>, idle_vcpu img]"

lemma set_hcr_bit_machine:
  "scheduler (set_hcr_bit b s) = scheduler s" "stage2_tables (set_hcr_bit b s) = stage2_tables s"
  "hcr (set_hcr_bit b s) = hcr s OR b" "vuarts (set_hcr_bit b s) = vuarts s"
  "hw_in (set_hcr_bit b s) = hw_in s" "hv_scheduler_verbose (set_hcr_bit b s) = hv_scheduler_verbose s"
  "hyp_except_verbose (set_hcr_bit b s) = hyp_except_verbose s"
  "irq_counter (set_hcr_bit b s) = irq_counter s"
  by (simp_all add: set_hcr_bit_def write_hcr_def read_hcr_def emit_def Let_def)

lemma scheduler_init_result:
  assumes base: "tables_base_ok (img_tables img)"
    and len: "length (sch_vm (scheduler s)) = 2" "length (sch_vcpus (scheduler s)) = 3"
    and init: "hv_scheduler_init img s = Some s'"
  shows "sch_vcpus (scheduler s') = init_vcpus img s" "cur_idx (scheduler s') = 0"
    "cur_vcpu (scheduler s') = Some 0" "length (sch_vm (scheduler s')) = 2"
    "i < 2 \<Longrightarrow> guest_vm_ok i (sch_vm (scheduler s') ! i) (stage2_tables s')"
    "hcr s' = hcr s OR HCR_TWI" "vuarts s' = vuarts s" "hw_in s' = hw_in s"
    "hv_scheduler_verbose s' = hv_scheduler_verbose s" "hyp_except_verbose s' = hyp_except_verbose s"
    "irq_counter s' = irq_counter s"
proof -
  have lf: "length (sch_vm (scheduler (fresh_sched s))) = 2" "length (sch_vcpus (scheduler (fresh_sched s))) = 3"
    using len by (simp_all add: fresh_sched_def)
  obtain s1 s2 where s1: "scheduler_init_vm (img_tables img) 0 (fresh_sched s) = Some s1"
    and s2: "scheduler_init_vm (img_tables img) 1 s1 = Some s2"
    and s': "s' = set_hcr_bit HCR_TWI ((upd_vcpu 0 (vcpu_state_update (\<lambda>_. HV_VCPU_RUNNABLE))
      (upd_vcpu 2 (vcpu_state_update (\<lambda>_. HV_VCPU_IDLE)) (upd_vcpu 2 (\<lambda>v. hv_vcpu_init v HV_IDLE_VCPU_ID
         (img_idle_entry img) (img_idle_stack_top img) HYP_LOWER_SVC_CPSR) s2)))
      \<lparr>scheduler := (scheduler (upd_vcpu 0 (vcpu_state_update (\<lambda>_. HV_VCPU_RUNNABLE))
      (upd_vcpu 2 (vcpu_state_update (\<lambda>_. HV_VCPU_IDLE)) (upd_vcpu 2 (\<lambda>v. hv_vcpu_init v HV_IDLE_VCPU_ID
         (img_idle_entry img) (img_idle_stack_top img) HYP_LOWER_SVC_CPSR) s2))))\<lparr>cur_vcpu := Some 0\<rparr>\<rparr>)"
    using init unfolding hv_scheduler_init_def Let_def fold_init_vcpu [OF len(2)] bind_eq_Some_conv
    by blast
  have i1: "vm_installed 0 (fresh_sched s) s1" using init_vm_installed(1) [OF _ base lf s1] by simp
  then have l1: "length (sch_vm (scheduler s1)) = 2" "length (sch_vcpus (scheduler s1)) = 3"
    using lf by (auto simp: vm_installed_def)
  have i2: "vm_installed 1 s1 s2" using init_vm_installed(1) [OF _ base l1 s2] by simp
  obtain v0 v1 where v0: "guest_vm_ok 0 v0 (stage2_tables s1)"
      "sch_vm (scheduler s1) = (sch_vm (scheduler (fresh_sched s)))[0 := v0]"
    and v1: "guest_vm_ok 1 v1 (stage2_tables s2)" "sch_vm (scheduler s2) = (sch_vm (scheduler s1))[1 := v1]"
    using i1 i2 by (auto simp: vm_installed_def)
  have "guest_vm_ok 0 v0 (stage2_tables s2)"
    using i2 by (intro guest_vm_ok_local [OF v0(1)]) (auto simp: vm_installed_def)
  moreover have vms: "sch_vm (scheduler s2) = [v0, v1]"
    using v0(2) v1(2) lf(1) by (auto simp: length_Suc_conv numeral_eq_Suc)
  ultimately show "i < 2 \<Longrightarrow> guest_vm_ok i (sch_vm (scheduler s') ! i) (stage2_tables s')"
    using v1(1) by (auto simp: s' less_2_cases_iff set_hcr_bit_machine upd_vcpu_def)
  have vc: "sch_vcpus (scheduler s2) =
     [(fresh_vcpu 0 (vcpu_at 0 s))\<lparr>vcpu_vm := Some 0\<rparr>, (fresh_vcpu 1 (vcpu_at 1 s))\<lparr>vcpu_vm := Some 1\<rparr>,
      fresh_vcpu 2 (vcpu_at 2 s)]"
  proof -
    have c1: "sch_vcpus (scheduler s1) = (sch_vcpus (scheduler (fresh_sched s)))
        [0 := vcpu_vm_update (\<lambda>_. Some 0) (sch_vcpus (scheduler (fresh_sched s)) ! 0)]"
      using i1 unfolding vm_installed_def by blast
    have c2: "sch_vcpus (scheduler s2) = (sch_vcpus (scheduler s1))
        [1 := vcpu_vm_update (\<lambda>_. Some 1) (sch_vcpus (scheduler s1) ! 1)]"
      using i2 unfolding vm_installed_def by blast
    show ?thesis unfolding c2 c1 by (simp add: fresh_sched_def)
  qed
  show "sch_vcpus (scheduler s') = init_vcpus img s"
    by (simp add: s' upd_vcpu_def vc init_vcpus_def idle_vcpu_def numeral_eq_Suc hv_vcpu_init_def Let_def
        fresh_vcpu_def zero_HvVcpu_def set_hcr_bit_machine)
  show "length (sch_vm (scheduler s')) = 2"
    by (simp add: s' upd_vcpu_def vms set_hcr_bit_machine)
  show "cur_idx (scheduler s') = 0" "cur_vcpu (scheduler s') = Some 0"
    "hcr s' = hcr s OR HCR_TWI" "vuarts s' = vuarts s" "hw_in s' = hw_in s"
    "hv_scheduler_verbose s' = hv_scheduler_verbose s" "hyp_except_verbose s' = hyp_except_verbose s"
    "irq_counter s' = irq_counter s"
    using i1 i2 by (simp_all add: vm_installed_def s' fresh_sched_def upd_vcpu_def set_hcr_bit_machine)
qed


lemma scheduler_init_returns:
  assumes base: "tables_base_ok (img_tables img)"
    and len: "length (sch_vm (scheduler s)) = 2" "length (sch_vcpus (scheduler s)) = 3"
    and ok: "returns_ok s"
  shows "hv_scheduler_init img s \<noteq> None"
proof -
  have lf: "length (sch_vm (scheduler (fresh_sched s))) = 2" "length (sch_vcpus (scheduler (fresh_sched s))) = 3"
    using len by (simp_all add: fresh_sched_def)
  have okf: "returns_ok (fresh_sched s)"
    using ok uart_live_in [of "fresh_sched s" s] by (simp add: returns_ok_def fresh_sched_def)
  obtain s1 where s1: "scheduler_init_vm (img_tables img) 0 (fresh_sched s) = Some s1"
    using init_vm_installed(2) [OF _ base lf okf, of 0] by auto
  have i1: "vm_installed 0 (fresh_sched s) s1" using init_vm_installed(1) [OF _ base lf s1] by simp
  then have l1: "length (sch_vm (scheduler s1)) = 2" "length (sch_vcpus (scheduler s1)) = 3"
    using lf by (auto simp: vm_installed_def)
  have "hw_in s1 = hw_in (fresh_sched s)" "hv_scheduler_verbose s1 = hv_scheduler_verbose (fresh_sched s)"
    using i1 unfolding vm_installed_def by blast+
  then have ok1: "returns_ok s1" using okf uart_live_in [of s1 "fresh_sched s"] by (simp add: returns_ok_def)
  obtain s2 where "scheduler_init_vm (img_tables img) 1 s1 = Some s2"
    using init_vm_installed(2) [OF _ base l1 ok1, of 1] by auto
  then show ?thesis
    unfolding hv_scheduler_init_def Let_def fold_init_vcpu [OF len(2)] s1 by simp
qed

lemma init_vcpus_simps:
  assumes "sch_vcpus (scheduler s') = init_vcpus img s"
  shows "vcpu_at 0 s' = (fresh_vcpu 0 (vcpu_at 0 s))\<lparr>vcpu_vm := Some 0, vcpu_state := HV_VCPU_RUNNABLE\<rparr>"
    "vcpu_at (Suc 0) s' = (fresh_vcpu 1 (vcpu_at 1 s))\<lparr>vcpu_vm := Some 1\<rparr>" "vcpu_at 2 s' = idle_vcpu img"
    "length (sch_vcpus (scheduler s')) = 3"
  using assms by (simp_all add: vcpu_at_def init_vcpus_def)

lemma vcpu_init_sel [simp]:
  "vcpu_id (hv_vcpu_init v i e k p) = i" "vcpu_vm (hv_vcpu_init v i e k p) = vcpu_vm v"
  "vcpu_state (hv_vcpu_init v i e k p) = HV_VCPU_RUNNABLE" "virq_pending (hv_vcpu_init v i e k p) = 0"
  "virq_active (hv_vcpu_init v i e k p) = 0" "\<not> tm_enabled (vcpu_timer (hv_vcpu_init v i e k p))"
  "frame_ok (ctx_hyp_state (vcpu_context (hv_vcpu_init v i e k p)))"
  "frame_elr_hyp (ctx_hyp_state (vcpu_context (hv_vcpu_init v i e k p))) = e"
  "frame_spsr_hyp (ctx_hyp_state (vcpu_context (hv_vcpu_init v i e k p))) = p"
  "reg (ctx_hyp_state (vcpu_context (hv_vcpu_init v i e k p))) 0 = k"
  by (simp_all add: hv_vcpu_init_def Let_def zero_HvVcpu_def zero_HypExceptState_def frame_ok_def
      set_reg_def numeral_eq_Suc)

lemma fresh_vcpu_sel [simp]:
  "vcpu_id (fresh_vcpu i v) = of_nat i" "vcpu_state (fresh_vcpu i v) = HV_VCPU_IDLE"
  "virq_pending (fresh_vcpu i v) = 0" "virq_active (fresh_vcpu i v) = 0" "vcpu_vm (fresh_vcpu i v) = None"
  "vcpu_context (fresh_vcpu i v) = vcpu_context v" "vcpu_timer (fresh_vcpu i v) = vcpu_timer v"
  by (simp_all add: fresh_vcpu_def)

lemma idle_vcpu_sel [simp]:
  "vcpu_id (idle_vcpu img) = HV_IDLE_VCPU_ID" "vcpu_vm (idle_vcpu img) = None"
  "vcpu_state (idle_vcpu img) = HV_VCPU_IDLE" "virq_pending (idle_vcpu img) = 0"
  "frame_ok (ctx_hyp_state (vcpu_context (idle_vcpu img)))"
  by (simp_all add: idle_vcpu_def zero_HvVcpu_def)

lemma scheduler_init_wf:
  assumes "tables_base_ok (img_tables img)"
    and "length (sch_vm (scheduler s)) = 2" "length (sch_vcpus (scheduler s)) = 3"
    and fr: "\<And>i. i < 2 \<Longrightarrow> frame_ok (ctx_hyp_state (vcpu_context (vcpu_at i s)))"
    and "hv_scheduler_init img s = Some s'"
  shows "sched_wf (scheduler s')" "cur_of s' = 0"
proof -
  note R = scheduler_init_result [OF assms(1-3,5)]
  note V = init_vcpus_simps [OF R(1)]
  show c: "cur_of s' = 0" by (simp add: cur_of_def R(2))
  have three: "\<And>i. i < (3::nat) \<Longrightarrow> i = 0 \<or> i = 1 \<or> i = 2" by linarith
  show "sched_wf (scheduler s')"
  proof (rule sched_wfI)
    show "length (sch_vm (scheduler s')) = 2" "length (sch_vcpus (scheduler s')) = 3" by (rule R V)+
    show "cur_of s' < 3" "cur_vcpu (scheduler s') = Some (cur_of s')" by (simp_all add: c R(3))
    show "vcpu_vm (vcpu_at i s') = Some i \<and> vcpu_id (vcpu_at i s') = of_nat i" if "i < 2" for i
      using that V(1,2) by (auto simp: less_2_cases_iff)
    show "vcpu_vm (vcpu_at 2 s') = None" "vcpu_id (vcpu_at 2 s') = 0xffffffff"
      "vcpu_state (vcpu_at 2 s') = HV_VCPU_IDLE \<or> vcpu_state (vcpu_at 2 s') = HV_VCPU_RUNNING"
      by (simp_all add: V(3))
    show "vcpu_state (vcpu_at i s') \<noteq> HV_VCPU_RUNNING" if "i < 3" "i \<noteq> cur_of s'" for i
      using three [OF that(1)] by (elim disjE) (simp_all add: V)
    show "frame_ok (ctx_hyp_state (vcpu_context (vcpu_at i s')))" if "i < 3" for i
      using three [OF that] fr [of 0] fr [of 1] by (elim disjE) (simp_all add: V)
  qed
qed

text \<open>C22: what \<open>hv_scheduler_init\<close> sets up. It returns if tracing does, and leaves a well-formed
  scheduler with guest 0 runnable and current, guest 1 and the idle vCPU idle, no interrupt pending
  anywhere and waiting trapped. Guest \<open>i\<close> then translates exactly \<open>[0x20000, 0x2f000)\<close>, to its own
  64 KB slot of physical memory, and faults everywhere else.\<close>

theorem scheduler_init_correct:
  assumes "tables_base_ok (img_tables img)"
    and "length (sch_vm (scheduler s)) = 2" and "length (sch_vcpus (scheduler s)) = 3"
    and "\<And>i. i < 2 \<Longrightarrow> frame_ok (ctx_hyp_state (vcpu_context (vcpu_at i s)))"
  shows "(returns_ok s \<longrightarrow> hv_scheduler_init img s \<noteq> None) \<and>
    (\<forall>s'. hv_scheduler_init img s = Some s' \<longrightarrow>
       sched_wf (scheduler s') \<and> cur_of s' = 0 \<and>
       map vcpu_state (sch_vcpus (scheduler s')) = [HV_VCPU_RUNNABLE, HV_VCPU_IDLE, HV_VCPU_IDLE] \<and>
       map virq_pending (sch_vcpus (scheduler s')) = [0, 0, 0] \<and>
       frame_elr_hyp (ctx_hyp_state (vcpu_context (vcpu_at 2 s'))) = img_idle_entry img \<and>
       hcr s' = hcr s OR HCR_TWI \<and> vuarts s' = vuarts s \<and>
       (\<forall>i b. i < 2 \<longrightarrow> unat b < 2 ^ 32 \<longrightarrow>
          hv_stage2_translate (Some (sch_vm (scheduler s') ! i)) b True (stage2_tables s') =
          (if 0x20000 \<le> unat b \<and> unat b < 0x2f000 then Inr (b + of_nat (i * 0x10000))
           else Inl HV_STAGE2_ERR_UNMAPPED)))"
proof (intro conjI impI allI)
  show "hv_scheduler_init img s \<noteq> None" if "returns_ok s"
    by (rule scheduler_init_returns [OF assms(1-3) that])
  fix s' assume h: "hv_scheduler_init img s = Some s'"
  note R = scheduler_init_result [OF assms(1-3) h]
  have W: "sched_wf (scheduler s')" "cur_of s' = 0"
    using scheduler_init_wf [OF assms(1-3) _ h] assms(4) by blast+
  show "sched_wf (scheduler s')" "cur_of s' = 0" by (rule W)+
  show "hcr s' = hcr s OR HCR_TWI" "vuarts s' = vuarts s" by (rule R)+
  show "map vcpu_state (sch_vcpus (scheduler s')) = [HV_VCPU_RUNNABLE, HV_VCPU_IDLE, HV_VCPU_IDLE]"
    "map virq_pending (sch_vcpus (scheduler s')) = [0, 0, 0]"
    by (simp_all add: R(1) init_vcpus_def)
  show "frame_elr_hyp (ctx_hyp_state (vcpu_context (vcpu_at 2 s'))) = img_idle_entry img"
    by (simp add: init_vcpus_simps(3) [OF R(1)] idle_vcpu_def)
  show "hv_stage2_translate (Some (sch_vm (scheduler s') ! i)) b True (stage2_tables s') =
      (if 0x20000 \<le> unat b \<and> unat b < 0x2f000 then Inr (b + of_nat (i * 0x10000))
       else Inl HV_STAGE2_ERR_UNMAPPED)" if "i < 2" "unat b < 2 ^ 32" for i b
    using R(5) [OF that(1)] that(2) by (simp add: guest_vm_ok_def translates_def guest_translation_def)
qed

definition boot_image :: hv_image where
  "boot_image = \<lparr>img_tables = 0x100000, img_idle_entry = 0x8000, img_idle_stack_top = 0x9000,
     img_guests = [[0xfe, 0xff, 0xff, 0xea], [0x00, 0x00, 0xa0, 0xe1, 0xfd, 0xff, 0xff, 0xea]]\<rparr>"

theorem scheduler_init_correct_witness:
  "\<exists>s'. hv_scheduler_init boot_image reset_machine = Some s' \<and> sched_wf (scheduler s') \<and>
     hv_stage2_translate (Some (sch_vm (scheduler s') ! 1)) 0x20004 True (stage2_tables s') =
       Inr 0x30004"
proof -
  have b: "tables_base_ok (img_tables boot_image)" by (simp add: tables_base_ok_def boot_image_def)
  have l: "length (sch_vm (scheduler reset_machine)) = 2" "length (sch_vcpus (scheduler reset_machine)) = 3"
    and r: "returns_ok reset_machine"
    by (simp_all add: reset_machine_def vuart_hw.defs reset_vuart_hw_def returns_ok_def)
  have f: "frame_ok (ctx_hyp_state (vcpu_context (vcpu_at i reset_machine)))" if "i < 2" for i
    using that by (simp add: reset_machine_def vuart_hw.defs vcpu_at_def zero_HvVcpu_def
        zero_HypExceptState_def frame_ok_def)
  from scheduler_init_correct [OF b l f] r obtain s' where "hv_scheduler_init boot_image reset_machine = Some s'"
    "sched_wf (scheduler s')"
    "\<forall>i b. i < 2 \<longrightarrow> unat b < 2 ^ 32 \<longrightarrow>
        hv_stage2_translate (Some (sch_vm (scheduler s') ! i)) b True (stage2_tables s') =
        (if 0x20000 \<le> unat b \<and> unat b < 0x2f000 then Inr (b + of_nat (i * 0x10000))
         else Inl HV_STAGE2_ERR_UNMAPPED)" by blast
  moreover from this(3) [rule_format, of 1 "0x20004"]
  have "hv_stage2_translate (Some (sch_vm (scheduler s') ! 1)) 0x20004 True (stage2_tables s') = Inr 0x30004"
    by simp
  ultimately show ?thesis by blast
qed

end
