(* ===== verification/Scheduler_Spec.thy ===== *)
theory Scheduler_Spec
  imports Scheduler_Init
begin

section \<open>What the scheduler promises\<close>

text \<open>
  The properties of scheduler.c that its callers rely on, over well-formed schedulers: which vCPU is
  picked, what a switch saves and loads, that every operation leaves a state a guest can run in, and
  what the physical timer is armed for.
\<close>

subsection \<open>Round robin\<close>

text \<open>How many steps round the array vCPU \<open>j\<close> is behind the one after the current.\<close>

definition rr_distance :: "machine \<Rightarrow> nat \<Rightarrow> int" where
  "rr_distance s j = (int j - int (cur_of s) - 1) mod 3"

lemma all_runnable:
  "(\<forall>j. runnable s j \<longrightarrow> P j) \<longleftrightarrow> (runnable s 0 \<longrightarrow> P 0) \<and> (runnable s 1 \<longrightarrow> P 1)"
proof -
  have "j = 0 \<or> j = 1" if "runnable s j" for j using that by (auto simp: runnable_def)
  then show ?thesis by metis
qed

text \<open>Picking is round robin. \<open>hv_scheduler_pick_next_idx\<close> answers -1 exactly when no guest is
  runnable, which is what \<open>hv_scheduler_has_runnable\<close> tells, and otherwise the runnable guest that
  comes first after the current index, going round. So it never picks the idle vCPU, and picks the
  current guest again only when the other one cannot run.\<close>

theorem pick_next_round_robin:
  assumes "sched_wf (scheduler s)"
  shows "(hv_scheduler_pick_next_idx s = -1 \<longleftrightarrow> \<not> hv_scheduler_has_runnable s) \<and>
    (hv_scheduler_has_runnable s \<longrightarrow>
       (\<exists>i. hv_scheduler_pick_next_idx s = int i \<and> hv_scheduler_pick_next s = Some i \<and> runnable s i \<and>
          (\<forall>j. runnable s j \<longrightarrow> rr_distance s i \<le> rr_distance s j) \<and>
          (\<forall>j. runnable s j \<longrightarrow> i = cur_of s \<longrightarrow> j = i)))"
proof -
  have c: "cur_of s < 3" by (rule sched_wfD(3) [OF assms])
  note p = pick_next_cases [OF c]
  have h: "hv_scheduler_has_runnable s \<longleftrightarrow> runnable s 0 \<or> runnable s 1"
    by (simp add: has_runnable_iff runnable_cases)
  consider "cur_of s = 0" | "cur_of s = 1" | "cur_of s = 2" using c by linarith
  then show ?thesis
    by cases (simp_all add: p h rr_distance_def hv_scheduler_pick_next_def Let_def all_runnable)
qed

subsection \<open>Switching\<close>



text \<open>A machine in which guest 0 runs and guest 1 is ready, for the examples.\<close>

definition guest_vcpu :: "nat \<Rightarrow> HvVcpuState \<Rightarrow> HvVcpu" where
  "guest_vcpu i st = zero_HvVcpu\<lparr>vcpu_id := of_nat i, vcpu_vm := Some i, vcpu_state := st\<rparr>"

definition running_machine :: machine where
  "running_machine = reset_machine
     \<lparr>hcr := HCR_TWI OR HCR_VM, vtcr := HV_STAGE2_VTCR_DEFAULT, vttbr := hv_mmu_vttbr_for_vm zero_HvVm,
      scheduler := \<lparr>sch_vm = replicate 2 zero_HvVm,
        sch_vcpus = [guest_vcpu 0 HV_VCPU_RUNNING, guest_vcpu 1 HV_VCPU_RUNNABLE, idle_vcpu boot_image],
        cur_idx = 0, cur_vcpu = Some 0\<rparr>\<rparr>"

lemma running_machine_sel [simp]:
  "vcpu_at 0 running_machine = guest_vcpu 0 HV_VCPU_RUNNING"
  "vcpu_at (Suc 0) running_machine = guest_vcpu 1 HV_VCPU_RUNNABLE"
  "vcpu_at 2 running_machine = idle_vcpu boot_image" "cur_of running_machine = 0"
  "vcpu_id (guest_vcpu i st) = of_nat i" "vcpu_vm (guest_vcpu i st) = Some i"
  "vcpu_state (guest_vcpu i st) = st" "virq_pending (guest_vcpu i st) = 0" "virq_active (guest_vcpu i st) = 0"
  "frame_ok (ctx_hyp_state (vcpu_context (guest_vcpu i st)))" "\<not> tm_enabled (vcpu_timer (guest_vcpu i st))"
  by (simp_all add: running_machine_def vcpu_at_def cur_of_def guest_vcpu_def zero_HvVcpu_def
      frame_ok_def zero_HypExceptState_def)

lemma running_machine_ok: "sched_run running_machine" "returns_ok running_machine"
  "sched_wf (scheduler running_machine)" "cur_vcpu (scheduler running_machine) = Some 0"
proof -
  show wf: "sched_wf (scheduler running_machine)"
  proof (rule sched_wfI)
    show "length (sch_vm (scheduler running_machine)) = 2" "length (sch_vcpus (scheduler running_machine)) = 3"
      "cur_vcpu (scheduler running_machine) = Some (cur_of running_machine)"
      by (simp_all add: running_machine_def cur_of_def)
    fix i :: nat
    have three: "i = 0 \<or> i = Suc 0 \<or> i = 2" if "i < 3" using that by linarith
    show "i < 2 \<Longrightarrow> vcpu_vm (vcpu_at i running_machine) = Some i \<and> vcpu_id (vcpu_at i running_machine) = of_nat i"
      by (auto simp: less_2_cases_iff)
    show "i < 3 \<Longrightarrow> i \<noteq> cur_of running_machine \<Longrightarrow> vcpu_state (vcpu_at i running_machine) \<noteq> HV_VCPU_RUNNING"
      by (drule three) (elim disjE; simp)
    show "i < 3 \<Longrightarrow> frame_ok (ctx_hyp_state (vcpu_context (vcpu_at i running_machine)))"
      by (drule three) (elim disjE; simp)
  qed simp_all
  show "cur_vcpu (scheduler running_machine) = Some 0" by (simp add: running_machine_def)
  have "hcr_bit HCR_TWI running_machine" "\<not> hcr_bit HCR_VI running_machine" "hcr_bit HCR_VM running_machine"
    by (simp_all add: hcr_bit_def running_machine_def)
  then have "hw_for 0 running_machine"
    by (simp add: hw_for_def) (simp add: running_machine_def)
  then show "sched_run running_machine" using wf by (simp add: sched_run_def)
  show "returns_ok running_machine"
    by (simp add: returns_ok_def running_machine_def reset_machine_def vuart_hw.defs)
qed

theorem pick_next_round_robin_witness:
  "hv_scheduler_has_runnable running_machine \<and>
   (\<exists>i. hv_scheduler_pick_next_idx running_machine = int i \<and> runnable running_machine i)"
proof -
  have h: "hv_scheduler_has_runnable running_machine"
    by (simp add: has_runnable_iff runnable_cases) (simp add: runnable_def)
  then show ?thesis using pick_next_round_robin [OF running_machine_ok(3)] by blast
qed



subsection \<open>Advancing, yielding and waiting\<close>

text \<open>A guest that \<open>advance\<close> may go to: a runnable one, or the current one if it was still running.\<close>

definition can_run :: "machine \<Rightarrow> nat \<Rightarrow> bool" where
  "can_run s i \<longleftrightarrow> i < HV_MAX_GUEST_VCPUS \<and> (vcpu_state (vcpu_at i s) = HV_VCPU_RUNNABLE \<or>
     i = cur_of s \<and> vcpu_state (vcpu_at i s) = HV_VCPU_RUNNING)"

lemma runnable_left:
  assumes "sched_wf (scheduler s)"
  shows "runnable (upd_vcpu (cur_of s) leave_running s) i \<longleftrightarrow> can_run s i"
proof -
  note W = sched_wfD [OF assms]
  have "cur_of s < length (sch_vcpus (scheduler s))" using W(2,3) by simp
  then show ?thesis
    using is_idle_vcpu_at [OF assms W(3)]
    by (auto simp: runnable_def can_run_def leave_state hv_scheduler_is_idle_vcpu_def)
qed

lemma can_run_cases: "can_run s i \<Longrightarrow> i = 0 \<or> i = 1"
  by (auto simp: can_run_def)

lemma advance_target_eq:
  assumes "sched_wf (scheduler s)"
  shows "advance_target s =
    (if cur_of s = 0 then if can_run s 1 then 1 else if can_run s 0 then 0 else 2
     else if can_run s 0 then 0 else if can_run s 1 then 1 else 2)"
proof -
  have "cur_of (upd_vcpu (cur_of s) leave_running s) < 3" using sched_wfD(3) [OF assms] by simp
  note p = pick_next_cases [OF this, unfolded runnable_left [OF assms] upd_vcpu_sel(5)]
  show ?thesis unfolding advance_target_def Let_def p by simp
qed

lemma advance_target_spec:
  assumes "sched_wf (scheduler s)"
  shows "advance_target s = 2 \<longleftrightarrow> (\<forall>i. \<not> can_run s i)"
    and "advance_target s \<noteq> 2 \<Longrightarrow> can_run s (advance_target s)"
    and "can_run s j \<Longrightarrow> rr_distance s (advance_target s) \<le> rr_distance s j"
proof -
  note e = advance_target_eq [OF assms]
  show "advance_target s = 2 \<longleftrightarrow> (\<forall>i. \<not> can_run s i)"
  proof -
    have "(\<forall>i. \<not> can_run s i) \<longleftrightarrow> \<not> can_run s 0 \<and> \<not> can_run s 1" using can_run_cases by metis
    then show ?thesis unfolding e by simp
  qed
  show "advance_target s \<noteq> 2 \<Longrightarrow> can_run s (advance_target s)" unfolding e by (auto split: if_splits)
  have c: "cur_of s = 0 \<or> cur_of s = 1 \<or> cur_of s = 2" using sched_wfD(3) [OF assms] by linarith
  show "rr_distance s (advance_target s) \<le> rr_distance s j" if "can_run s j"
    using can_run_cases [OF that] that c unfolding e rr_distance_def by (elim disjE) simp_all
qed

text \<open>C29: \<open>hv_scheduler_advance\<close>, called in the middle of any handler, always leaves a state a guest
  can run in, and touches no table, virtual device or virtual interrupt. It goes to the guest that
  comes first round the array among those that can run, the current one included if it was running,
  and to the idle vCPU exactly when there is none. It returns whenever tracing does.\<close>

theorem advance_correct:
  assumes "sched_wf (scheduler s)" and "frame_ok f"
  shows "(returns_ok s \<longrightarrow> hv_scheduler_advance f s \<noteq> None) \<and>
    (\<forall>r f' s'. hv_scheduler_advance f s = Some (r, f', s') \<longrightarrow>
       r = HYP_ACTION_RETURN \<and> sched_run s' \<and> env_same s s' \<and>
       (cur_of s' = HV_IDLE_VCPU_IDX \<longleftrightarrow> (\<forall>i. \<not> can_run s i)) \<and>
       (cur_of s' \<noteq> HV_IDLE_VCPU_IDX \<longrightarrow> can_run s (cur_of s') \<and>
          (\<forall>j. can_run s j \<longrightarrow> rr_distance s (cur_of s') \<le> rr_distance s j)) \<and>
       f' = (if cur_of s' = cur_of s then f else ctx_hyp_state (vcpu_context (vcpu_at (cur_of s') s))) \<and>
       (\<forall>i. virq_pending (vcpu_at i s') = virq_pending (vcpu_at i s)))"
proof (intro conjI impI allI)
  show "hv_scheduler_advance f s \<noteq> None" if "returns_ok s"
    using advance_returns [OF sched_wfD(4) [OF assms(1)] that] .
  fix r f' s' assume run: "hv_scheduler_advance f s = Some (r, f', s')"
  note A = advance_spec [OF assms run]
  have c: "cur_of s' = advance_target s" using A(1) by (simp add: sched_post_def)
  note T = advance_target_spec [OF assms(1), folded c]
  show "r = HYP_ACTION_RETURN" "sched_run s'" "env_same s s'"
    using A(1) by (simp_all add: sched_post_def)
  show "virq_pending (vcpu_at i s') = virq_pending (vcpu_at i s)" for i
    using A(1) by (simp add: sched_post_def)
  show "cur_of s' = HV_IDLE_VCPU_IDX \<longleftrightarrow> (\<forall>i. \<not> can_run s i)" using T(1) by simp
  show "can_run s (cur_of s')" if "cur_of s' \<noteq> HV_IDLE_VCPU_IDX" using T(2) that by simp
  show "rr_distance s (cur_of s') \<le> rr_distance s j" if "can_run s j" for j by (rule T(3) [OF that])
  show "f' = (if cur_of s' = cur_of s then f else ctx_hyp_state (vcpu_context (vcpu_at (cur_of s') s)))"
    using A(2) by (simp add: switched_def c)
qed

lemma zero_frame_ok [simp]: "frame_ok zero_HypExceptState"
  by (simp add: frame_ok_def zero_HypExceptState_def)

theorem advance_correct_witness:
  "\<exists>r f' s'. hv_scheduler_advance zero_HypExceptState running_machine = Some (r, f', s') \<and> cur_of s' = 1"
proof -
  note A = advance_correct [OF running_machine_ok(3) zero_frame_ok]
  obtain r f' s' where s': "hv_scheduler_advance zero_HypExceptState running_machine = Some (r, f', s')"
    using A running_machine_ok(2) by (metis not_Some_eq prod_cases3)
  have j: "can_run running_machine 1" by (simp add: can_run_def)
  have m: "cur_of s' \<noteq> 2" "can_run running_machine (cur_of s')"
    "rr_distance running_machine (cur_of s') \<le> rr_distance running_machine 1"
    using A s' j by fastforce+
  then have "cur_of s' = 1" using can_run_cases [OF m(2)] by (auto simp: rr_distance_def)
  with s' show ?thesis by blast
qed

text \<open>A guest that yields lets the other guest run if that one is runnable, and stays runnable
  itself, with the frame it yielded with saved; otherwise the call changes nothing at all, the frame
  included. It returns whenever tracing does.\<close>

theorem yield_correct:
  assumes "sched_run s" and "cur_of s < HV_MAX_GUEST_VCPUS" and "frame_ok f"
  shows "(returns_ok s \<longrightarrow> hv_scheduler_yield f s \<noteq> None) \<and>
    (\<forall>r f' s'. hv_scheduler_yield f s = Some (r, f', s') \<longrightarrow>
       r = HYP_ACTION_RETURN \<and> sched_run s' \<and> env_same s s' \<and>
       (if runnable s (1 - cur_of s)
        then cur_of s' = 1 - cur_of s \<and> vcpu_state (vcpu_at (cur_of s) s') = HV_VCPU_RUNNABLE \<and>
          ctx_hyp_state (vcpu_context (vcpu_at (cur_of s) s')) = f \<and>
          f' = ctx_hyp_state (vcpu_context (vcpu_at (1 - cur_of s) s))
        else s' = s \<and> f' = f))"
proof (intro conjI impI allI)
  have wf: "sched_wf (scheduler s)" and st: "vcpu_state (vcpu_at (cur_of s) s) = HV_VCPU_RUNNING"
    using assms(1) by (simp_all add: sched_run_def)
  show "hv_scheduler_yield f s \<noteq> None" if "returns_ok s"
    using yield_returns [OF sched_wfD(4) [OF wf] that] .
  fix r f' s' assume run: "hv_scheduler_yield f s = Some (r, f', s')"
  note Y = yield_spec [OF assms run]
  show "r = HYP_ACTION_RETURN" "sched_run s'" "env_same s s'"
    using Y(1) by (simp_all add: sched_post_def)
  have ne: "1 - cur_of s \<noteq> cur_of s" by arith
  have i: "\<not> hv_scheduler_is_idle_vcpu (Some (vcpu_at (cur_of s) s))"
    using is_idle_vcpu_at [OF wf, of "cur_of s"] assms(2) by simp
  show "if runnable s (1 - cur_of s)
        then cur_of s' = 1 - cur_of s \<and> vcpu_state (vcpu_at (cur_of s) s') = HV_VCPU_RUNNABLE \<and>
          ctx_hyp_state (vcpu_context (vcpu_at (cur_of s) s')) = f \<and>
          f' = ctx_hyp_state (vcpu_context (vcpu_at (1 - cur_of s) s))
        else s' = s \<and> f' = f"
  proof (cases "runnable s (1 - cur_of s)")
    case True
    then have t: "yield_target s = 1 - cur_of s" by (simp add: yield_target_def)
    then have "vcpu_at (cur_of s) s' = saved_vcpu f s" using Y(2) ne by (simp add: switched_def)
    then show ?thesis using Y(1,2) ne True st i
      by (simp add: t sched_post_def switched_def saved_vcpu_def leave_state hv_scheduler_is_idle_vcpu_def)
  next
    case False
    then have t: "yield_target s = cur_of s" by (simp add: yield_target_def)
    then show ?thesis using Y(2,3) False by (simp add: switched_def)
  qed
qed

theorem yield_correct_witness:
  "\<exists>r f' s'. hv_scheduler_yield zero_HypExceptState running_machine = Some (r, f', s') \<and> cur_of s' = 1 \<and>
     vcpu_state (vcpu_at 0 s') = HV_VCPU_RUNNABLE"
proof -
  note Y = yield_correct [OF running_machine_ok(1) _ zero_frame_ok, simplified]
  have r: "runnable running_machine (Suc 0)" by (simp add: runnable_def)
  obtain r f' s' where "hv_scheduler_yield zero_HypExceptState running_machine = Some (r, f', s')"
    using Y running_machine_ok(2) by auto
  then show ?thesis using Y r by auto
qed


lemma wfi_blocked_target:
  assumes sr: "sched_run s" and g: "cur_of s < 2"
  defines "s1 \<equiv> upd_vcpu (cur_of s) (vcpu_state_update (\<lambda>_. HV_VCPU_BLOCKED)) s"
  shows "advance_target s1 = (if runnable s (1 - cur_of s) then 1 - cur_of s else 2)"
proof -
  have wf: "sched_wf (scheduler s)" using sr by (simp add: sched_run_def)
  note W = sched_wfD [OF wf]
  have wf1: "sched_wf (scheduler s1)" unfolding s1_def
    by (rule upd_wf [OF wf]) (use g in auto)
  have "can_run s1 i \<longleftrightarrow> i \<noteq> cur_of s \<and> runnable s i" for i
    using W(2) g by (auto simp: can_run_def runnable_def s1_def)
  moreover have "cur_of s = 0 \<or> cur_of s = 1" using g by linarith
  ultimately show ?thesis
    using advance_target_eq [OF wf1] by (elim disjE) (simp_all add: s1_def)
qed

text \<open>Waiting for an interrupt. A guest's WFI with an interrupt pending is a no-op that skips the
  instruction. Without one the guest is blocked, with the instruction skipped in its saved frame, and
  the other guest runs if it is runnable, the idle vCPU otherwise. A WFI of the idle vCPU goes on
  idling. In every case a guest can run afterwards, and the call returns whenever tracing does.\<close>

theorem wfi_correct:
  assumes "sched_run s" and "frame_ok f"
  defines "step \<equiv> f\<lparr>frame_elr_hyp := frame_elr_hyp f + (if HSR_IL (frame_hsr f) \<noteq> 0 then 4 else 2)\<rparr>"
  shows "(returns_ok s \<longrightarrow> hv_scheduler_handle_wfi f s \<noteq> None) \<and>
    (\<forall>r f' s'. hv_scheduler_handle_wfi f s = Some (r, f', s') \<longrightarrow>
       r = HYP_ACTION_RETURN \<and> sched_run s' \<and> env_same s s' \<and>
       (if cur_of s = HV_IDLE_VCPU_IDX then cur_of s' = HV_IDLE_VCPU_IDX \<and> f' = f
        else if virq_pending (vcpu_at (cur_of s) s) \<noteq> 0 then
          cur_of s' = cur_of s \<and> f' = step \<and> (\<forall>i. vcpu_at i s' = vcpu_at i s)
        else vcpu_state (vcpu_at (cur_of s) s') = HV_VCPU_BLOCKED \<and>
          ctx_hyp_state (vcpu_context (vcpu_at (cur_of s) s')) = step \<and>
          cur_of s' = (if runnable s (1 - cur_of s) then 1 - cur_of s else HV_IDLE_VCPU_IDX)))"
proof (intro conjI impI allI)
  have wf: "sched_wf (scheduler s)" using assms(1) by (simp add: sched_run_def)
  have c: "cur_of s < 3" by (rule sched_wfD(3) [OF wf])
  have step: "hv_scheduler_advance_trapped_wfi f = step"
    by (simp add: step_def hv_scheduler_advance_trapped_wfi_def Let_def)
  show "hv_scheduler_handle_wfi f s \<noteq> None" if "returns_ok s"
    using wfi_returns [OF sched_wfD(4) [OF wf] that] .
  fix r f' s' assume run: "hv_scheduler_handle_wfi f s = Some (r, f', s')"
  let ?P = "\<lambda>n. sched_post s n r f' s'"
  let ?B = "vcpu_state (vcpu_at (cur_of s) s') = HV_VCPU_BLOCKED \<and>
      ctx_hyp_state (vcpu_context (vcpu_at (cur_of s) s')) = step"
  consider (idle) "cur_of s = 2" "?P 2" "f' = f"
    | (pend) "cur_of s \<noteq> 2" "virq_pending (vcpu_at (cur_of s) s) \<noteq> 0" "?P (cur_of s)" "f' = step"
        "\<forall>i. vcpu_at i s' = vcpu_at i s"
    | (block) "cur_of s \<noteq> 2" "virq_pending (vcpu_at (cur_of s) s) = 0" "?B"
        "?P (if runnable s (1 - cur_of s) then 1 - cur_of s else HV_IDLE_VCPU_IDX)"
  proof (cases "cur_of s = 2")
    case True
    then show ?thesis using wfi_idle [OF assms(1) True assms(2) run] that(1) by blast
  next
    case False
    then have g: "cur_of s < 2" using c by linarith
    note G = wfi_guest [OF assms(1) g assms(2) run, unfolded step]
    show ?thesis
    proof (cases "virq_pending (vcpu_at (cur_of s) s) = 0")
      case True
      let ?s1 = "upd_vcpu (cur_of s) (vcpu_state_update (\<lambda>_. HV_VCPU_BLOCKED)) s"
      have "sched_post s (advance_target ?s1) r f' s'" "advance_target ?s1 \<noteq> cur_of s"
        "switched step (advance_target ?s1) ?s1 f' s'" "vcpu_state (vcpu_at (cur_of s) s') = HV_VCPU_BLOCKED"
        using G(2) [OF True] by (simp_all add: Let_def)
      moreover from this have "ctx_hyp_state (vcpu_context (vcpu_at (cur_of s) s')) = step"
        by (simp add: switched_def saved_vcpu_def)
      ultimately show ?thesis
        using that(3) False True wfi_blocked_target [OF assms(1) g] by simp
    next
      case f: False
      then show ?thesis using that(2) False G(1) by blast
    qed
  qed
  note C = this
  show "r = HYP_ACTION_RETURN" "sched_run s'" "env_same s s'"
    using C by (cases; simp add: sched_post_def)+
  show "if cur_of s = HV_IDLE_VCPU_IDX then cur_of s' = HV_IDLE_VCPU_IDX \<and> f' = f
        else if virq_pending (vcpu_at (cur_of s) s) \<noteq> 0 then
          cur_of s' = cur_of s \<and> f' = step \<and> (\<forall>i. vcpu_at i s' = vcpu_at i s)
        else vcpu_state (vcpu_at (cur_of s) s') = HV_VCPU_BLOCKED \<and>
          ctx_hyp_state (vcpu_context (vcpu_at (cur_of s) s')) = step \<and>
          cur_of s' = (if runnable s (1 - cur_of s) then 1 - cur_of s else HV_IDLE_VCPU_IDX)"
    using C by cases (simp_all add: sched_post_def)
qed

theorem wfi_correct_witness:
  "\<exists>r f' s'. hv_scheduler_handle_wfi zero_HypExceptState running_machine = Some (r, f', s') \<and>
     cur_of s' = 1 \<and> vcpu_state (vcpu_at 0 s') = HV_VCPU_BLOCKED"
proof -
  note Y = wfi_correct [OF running_machine_ok(1) zero_frame_ok, simplified]
  have r: "runnable running_machine (Suc 0)" by (simp add: runnable_def)
  obtain r f' s' where "hv_scheduler_handle_wfi zero_HypExceptState running_machine = Some (r, f', s')"
    using Y running_machine_ok(2) by auto
  then show ?thesis using Y r by auto
qed

subsection \<open>The physical timer\<close>

text \<open>C30: the physical timer follows the earliest virtual one. When no guest that is neither idle nor
  exited has an enabled timer, the interrupt is switched off; otherwise the timer is armed for the
  distance from the clock to the earliest of their deadlines, one microsecond if it has passed, and
  at most what the timer can count, never zero. No other device is touched.\<close>

theorem rearm_physical_correct:
  "(let ds = deadlines (take HV_MAX_GUEST_VCPUS (sch_vcpus (scheduler s)))
    in if ds = [] then hv_vtimer_rearm_physical s = TIM_Disable_IRQ s
       else \<exists>t s1 d. TIM_SYS_Get_Ticks s = (t, s1) \<and> hv_vtimer_rearm_physical s = TIM_Arm_Usec d s1 \<and>
         unat d = min (max 1 (unat (Min (set ds)) - unat t)) 8589933 \<and> 0 < unat d) \<and>
   scheduler (hv_vtimer_rearm_physical s) = scheduler s \<and> env_same s (hv_vtimer_rearm_physical s)"
proof -
  let ?ds = "deadlines (take HV_MAX_GUEST_VCPUS (sch_vcpus (scheduler s)))"
  obtain t s1 where g: "TIM_SYS_Get_Ticks s = (t, s1)" by fastforce
  have m: "unat (rearm_delta e t) = min (max 1 (unat e - unat t)) 8589933" for e
    unfolding unat_rearm_delta by (cases "unat t < unat e") (simp_all add: max_def)
  have "if ?ds = [] then hv_vtimer_rearm_physical s = TIM_Disable_IRQ s
       else \<exists>t s1 d. TIM_SYS_Get_Ticks s = (t, s1) \<and> hv_vtimer_rearm_physical s = TIM_Arm_Usec d s1 \<and>
         unat d = min (max 1 (unat (Min (set ?ds)) - unat t)) 8589933 \<and> 0 < unat d"
    using g by (auto simp: rearm_eq m)
  then show ?thesis
    using io_machine(1,2) [OF rearm_io [of s]] by (simp add: Let_def)
qed

end
