(* ===== verification/Separation.thy ===== *)
theory Separation
  imports Scheduler_Spec
begin

section \<open>Separation of the guests\<close>

text \<open>
  What a handler entered from one guest may do to the other. \<open>guest_regs j f s\<close> are the registers of
  guest \<open>j\<close> wherever they are: in the exception frame and the banked registers while it runs, in its
  context otherwise. A handler step of guest \<open>c\<close> changes, of the state that concerns guests, only what
  belongs to \<open>c\<close>.
\<close>

definition guest_regs :: "nat \<Rightarrow> HypExceptState \<Rightarrow> machine \<Rightarrow> HypExceptState \<times> HypBankedRegs \<times> u32" where
  "guest_regs j f s =
     (if j = cur_of s then (f, banked s, vbar s)
      else let c = vcpu_context (vcpu_at j s) in (ctx_hyp_state c, ctx_banked_regs c, gs_vbar (ctx_sys_regs c)))"

definition guest_virqs :: "nat \<Rightarrow> machine \<Rightarrow> u32 \<times> u32 \<times> HvVcpuTimer" where
  "guest_virqs j s = (virq_pending (vcpu_at j s), virq_active (vcpu_at j s), vcpu_timer (vcpu_at j s))"

text \<open>What no handler touches at all.\<close>

definition sys_same :: "machine \<Rightarrow> machine \<Rightarrow> bool" where
  "sys_same s s' \<longleftrightarrow> stage2_tables s' = stage2_tables s \<and> gen_tim_period_ticks s' = gen_tim_period_ticks s \<and>
     hw_in s' = hw_in s \<and> cpsr s' = cpsr s \<and> sch_vm (scheduler s') = sch_vm (scheduler s) \<and>
     virq_controller s' = virq_controller s \<and> hv_scheduler_verbose s' = hv_scheduler_verbose s \<and>
     hyp_except_verbose s' = hyp_except_verbose s \<and> length (vuarts s') = length (vuarts s)"

lemma sys_same_refl [simp]: "sys_same s s"
  by (simp add: sys_same_def)

lemma sys_same_trans: "sys_same s s1 \<Longrightarrow> sys_same s1 s2 \<Longrightarrow> sys_same s s2"
  by (simp add: sys_same_def)

lemma env_sys: "env_same s s' \<Longrightarrow> sys_same s s'"
  by (simp add: env_same_def sys_same_def)

definition handled :: "nat \<Rightarrow> HypExceptState \<Rightarrow> machine \<Rightarrow> int \<Rightarrow> HypExceptState \<Rightarrow> machine \<Rightarrow> bool" where
  "handled c f s r f' s' \<longleftrightarrow> frame_ok f' \<and> sys_same s s' \<and> sched_wf (scheduler s') \<and>
     (r = HYP_ACTION_RETURN \<longrightarrow> sched_run s') \<and>
     (\<forall>j < HV_MAX_GUEST_VCPUS. j \<noteq> c \<longrightarrow> guest_regs j f' s' = guest_regs j f s \<and>
        guest_virqs j s' = guest_virqs j s \<and> vuarts s' ! j = vuarts s ! j)"

text \<open>No operation of the scheduler changes the registers of any guest, the current one included.\<close>

lemma switched_regs:
  assumes "cur_of s' = n" "switched f n s f' s'" "j < 2"
  shows "guest_regs j f' s' = guest_regs j f s"
proof -
  have sv: "vcpu_at (cur_of s) s' = saved_vcpu f s" if "n \<noteq> cur_of s" using assms(2) that by (simp add: switched_def)
  have ot: "vcpu_at j s' = vcpu_at j s" if "j \<noteq> n" "j \<noteq> cur_of s" using assms(2) that by (simp add: switched_def)
  have en: "f' = (if n = cur_of s then f else ctx_hyp_state (vcpu_context (vcpu_at n s)))"
    "n \<noteq> 2 \<Longrightarrow> banked s' = ctx_banked_regs (vcpu_context (entered_vcpu f n s))"
    "n \<noteq> 2 \<Longrightarrow> vbar s' = gs_vbar (ctx_sys_regs (vcpu_context (entered_vcpu f n s)))"
    using assms(2) by (simp_all add: switched_def)
  consider "j = n" "n = cur_of s" | "j = n" "n \<noteq> cur_of s" | "j \<noteq> n" "j = cur_of s" | "j \<noteq> n" "j \<noteq> cur_of s" by blast
  then show ?thesis
  proof cases
    case 1
    then show ?thesis using en assms(1,3) by (simp add: guest_regs_def entered_vcpu_def saved_vcpu_def)
  next
    case 2
    then show ?thesis using en assms(1,3) by (simp add: guest_regs_def entered_vcpu_def Let_def)
  next
    case 3
    then show ?thesis using sv assms(1) by (simp add: guest_regs_def saved_vcpu_def Let_def)
  next
    case 4
    then show ?thesis using ot assms(1) by (simp add: guest_regs_def Let_def)
  qed
qed

lemma sched_handled:
  assumes "sched_post s n r f' s'" "switched f n s f' s'"
  shows "handled c f s r f' s'" and "j < 2 \<Longrightarrow> guest_regs j f' s' = guest_regs j f s"
    and "guest_virqs j s' = guest_virqs j s" and "vuarts s' = vuarts s" "irq_counter s' = irq_counter s"
    and "r = HYP_ACTION_RETURN" "sched_run s'"
proof -
  note P = assms(1) [unfolded sched_post_def]
  show R: "guest_regs j f' s' = guest_regs j f s" if "j < 2" for j
    by (rule switched_regs [OF _ assms(2) that]) (simp add: P)
  show Q: "guest_virqs j s' = guest_virqs j s" for j using P by (simp add: guest_virqs_def)
  show V: "vuarts s' = vuarts s" "irq_counter s' = irq_counter s" using P by (simp_all add: env_same_def)
  show run: "r = HYP_ACTION_RETURN" "sched_run s'" using P by blast+
  have "sched_wf (scheduler s')" using run(2) unfolding sched_run_def by blast
  moreover have "sys_same s s'" "frame_ok f'" using P env_sys by blast+
  ultimately show "handled c f s r f' s'" using R Q V(1) run(2) by (simp add: handled_def)
qed

subsection \<open>Steps on the current vCPU\<close>

text \<open>What a handler does to its own guest before it reaches the scheduler or returns.\<close>

definition own_step :: "nat \<Rightarrow> machine \<Rightarrow> machine \<Rightarrow> bool" where
  "own_step c s s' \<longleftrightarrow> sys_same s s' \<and> cur_of s' = cur_of s \<and> cur_vcpu (scheduler s') = cur_vcpu (scheduler s) \<and>
     banked s' = banked s \<and> vbar s' = vbar s \<and>
     length (sch_vcpus (scheduler s')) = length (sch_vcpus (scheduler s)) \<and>
     (\<forall>j. j \<noteq> c \<longrightarrow> vcpu_at j s' = vcpu_at j s \<and> vuarts s' ! j = vuarts s ! j)"

lemma own_step_refl [simp]: "own_step c s s"
  by (simp add: own_step_def)

lemma own_step_trans: "own_step c s s1 \<Longrightarrow> own_step c s1 s2 \<Longrightarrow> own_step c s s2"
  unfolding own_step_def by (auto intro: sys_same_trans)

lemma own_step_env:
  assumes "env_same s s'" "scheduler s' = scheduler s" "banked s' = banked s" "vbar s' = vbar s"
  shows "own_step c s s'"
  using assms by (simp add: own_step_def env_sys vcpu_at_def cur_of_def) (simp add: env_same_def)

lemma own_step_io: "io_out s s' t \<Longrightarrow> own_step c s s'" for s s' :: machine
  by (rule own_step_env) (rule io_machine, assumption)+

lemma own_step_upd:
  assumes "c < length (sch_vcpus (scheduler s))"
  shows "own_step c s (upd_vcpu c g s)"
proof -
  have "banked (upd_vcpu c g s) = banked s" "vbar (upd_vcpu c g s) = vbar s"
    "vuarts (upd_vcpu c g s) = vuarts s" by (simp_all add: upd_vcpu_def)
  then show ?thesis using assms by (simp add: own_step_def env_sys)
qed

lemma own_step_sync: "own_step c s (hv_virq_sync q s)" for s :: machine
  using ctrl_stepD(1,4) [OF ctrl_step_ops(4) [of s q]] virq_sync_bits(6,7)
  by (intro own_step_env) simp_all

lemma handled_own:
  assumes "handled c f s1 r f' s'" "own_step c s s1" "c = cur_of s"
  shows "handled c g s r f' s'"
proof -
  have "guest_regs j f s1 = guest_regs j g s \<and> guest_virqs j s1 = guest_virqs j s \<and> vuarts s1 ! j = vuarts s ! j"
    if "j \<noteq> c" for j
    using assms(2,3) that by (simp add: own_step_def guest_regs_def guest_virqs_def)
  then show ?thesis
    using assms(1,2) sys_same_trans [of s s1 s'] by (auto simp: handled_def own_step_def)
qed

lemma handled_return:
  assumes "own_step c s s'" "c = cur_of s" "frame_ok f'" "sched_run s'"
  shows "handled c f s r f' s'"
proof -
  have "handled c f' s' r f' s'" using assms(3,4) by (simp add: handled_def sched_run_def)
  from handled_own [OF this assms(1,2)] show ?thesis .
qed

lemma advance_handled:
  assumes "sched_wf (scheduler s)" "frame_ok f" "hv_scheduler_advance f s = Some (r, f', s')"
  shows "handled c f s r f' s'" "r = HYP_ACTION_RETURN"
  using sched_handled [OF advance_spec [OF assms]] by simp_all

end
