(* ===== verification/Hypercall.thy ===== *)
theory Hypercall
  imports Separation
begin

section \<open>Hypercalls: hypercall.h, hypercall.c\<close>

text \<open>
  The calls a guest makes with \<open>hvc #0\<close>: the number in \<open>r0\<close>, an argument in \<open>r1\<close>, the result in
  \<open>r0\<close>. The handler gets the exception frame of the guest and returns the action for the vectors:
  \<open>HALT\<close> stops the machine.
\<close>

abbreviation (input) HYPERCALL_ABI_VERSION :: u32 where "HYPERCALL_ABI_VERSION \<equiv> 1"
abbreviation (input) HYPERCALL_HVC_IMM :: u32 where "HYPERCALL_HVC_IMM \<equiv> 0"
abbreviation (input) HYPERCALL_SUCCESS :: u32 where "HYPERCALL_SUCCESS \<equiv> 0"
abbreviation (input) HYPERCALL_ERR_UNKNOWN :: u32 where "HYPERCALL_ERR_UNKNOWN \<equiv> -1"
abbreviation (input) HYPERCALL_ERR_INVALID :: u32 where "HYPERCALL_ERR_INVALID \<equiv> -2"
abbreviation (input) HYPERCALL_ERR_NO_PENDING :: u32 where "HYPERCALL_ERR_NO_PENDING \<equiv> -3"
abbreviation (input) HYP_FEATURE_BASE :: u32 where "HYP_FEATURE_BASE \<equiv> 1"
abbreviation (input) HYP_FEATURE_VIRQ :: u32 where "HYP_FEATURE_VIRQ \<equiv> 2"
abbreviation (input) HYP_FEATURE_TIMER :: u32 where "HYP_FEATURE_TIMER \<equiv> 4"
abbreviation (input) HYP_FEATURE_UART :: u32 where "HYP_FEATURE_UART \<equiv> 8"
abbreviation (input) HYPERCALL_GET_ABI_VERSION :: u32 where "HYPERCALL_GET_ABI_VERSION \<equiv> 0"
abbreviation (input) HYPERCALL_GET_FEATURES :: u32 where "HYPERCALL_GET_FEATURES \<equiv> 1"
abbreviation (input) HYPERCALL_EXIT :: u32 where "HYPERCALL_EXIT \<equiv> 2"
abbreviation (input) HYPERCALL_YIELD :: u32 where "HYPERCALL_YIELD \<equiv> 3"
abbreviation (input) HYPERCALL_ADVANCE :: u32 where "HYPERCALL_ADVANCE \<equiv> 4"
abbreviation (input) HYPERCALL_PUTCHAR :: u32 where "HYPERCALL_PUTCHAR \<equiv> 5"
abbreviation (input) HYPERCALL_GET_HYP_IRQ_COUNT :: u32 where "HYPERCALL_GET_HYP_IRQ_COUNT \<equiv> 6"
abbreviation (input) HYPERCALL_VIRQ_CLAIM :: u32 where "HYPERCALL_VIRQ_CLAIM \<equiv> 7"
abbreviation (input) HYPERCALL_VIRQ_COMPLETE :: u32 where "HYPERCALL_VIRQ_COMPLETE \<equiv> 8"
abbreviation (input) HYPERCALL_TIMER_GET_TICKS :: u32 where "HYPERCALL_TIMER_GET_TICKS \<equiv> 9"
abbreviation (input) HYPERCALL_TIMER_DELAY_TICKS :: u32 where "HYPERCALL_TIMER_DELAY_TICKS \<equiv> 10"
abbreviation (input) HYPERCALL_TIMER_GET_FREQ :: u32 where "HYPERCALL_TIMER_GET_FREQ \<equiv> 11"

definition hyp_get_irq_count :: "machine \<Rightarrow> u32" where
  "hyp_get_irq_count s = irq_counter s"

text \<open>A store through the pointer to the current vCPU.\<close>

definition set_vcpu_state :: "HvVcpuState \<Rightarrow> HvVcpu option \<Rightarrow> HvVcpu option" where
  "set_vcpu_state st = map_option (vcpu_state_update (\<lambda>_. st))"

definition hyp_handle_guest_hypercall ::
    "HypExceptState \<Rightarrow> machine \<Rightarrow> (int \<times> HypExceptState \<times> machine) option" where
  "hyp_handle_guest_hypercall f s =
     (let num = reg f 0; vcpu = hv_scheduler_get_current s in
      if num = HYPERCALL_GET_ABI_VERSION then
        Some (HYP_ACTION_RETURN, set_reg 0 HYPERCALL_ABI_VERSION f, s)
      else if num = HYPERCALL_GET_FEATURES then
        Some (HYP_ACTION_RETURN, set_reg 0 (HYP_FEATURE_BASE OR HYP_FEATURE_VIRQ OR
          HYP_FEATURE_TIMER OR HYP_FEATURE_UART) f, s)
      else if num = HYPERCALL_EXIT then
        if vcpu = None then Some (HYP_ACTION_HALT, f, s)
        else do {
          s \<leftarrow> trace ''hyp_handle_guest_hypercall'' (''guest exiting, status: %d'' @ nl) [PInt (reg f 1)] s;
          let s = store vcpu (hv_vcpu_timer_disable (deref vcpu s)) s;
          let s = store vcpu (set_vcpu_state HV_VCPU_EXITED (deref vcpu s)) s;
          let s = hv_vtimer_rearm_physical s;
          hv_scheduler_advance f s }
      else if num = HYPERCALL_YIELD then hv_scheduler_yield f s
      else if num = HYPERCALL_PUTCHAR then do {
        s \<leftarrow> UART_Put8 (ucast (reg f 1)) s;
        Some (HYP_ACTION_RETURN, set_reg 0 HYPERCALL_SUCCESS f, s) }
      else if num = HYPERCALL_GET_HYP_IRQ_COUNT then
        Some (HYP_ACTION_RETURN, set_reg 0 (hyp_get_irq_count s) f, s)
      else if num = HYPERCALL_VIRQ_CLAIM then
        let (virq, v) = hv_virq_claim (deref vcpu s);
            s = store vcpu v s;
            s = hv_virq_sync (deref vcpu s) s
        in Some (HYP_ACTION_RETURN,
             set_reg 0 (if virq = HV_VIRQ_ERR_NO_PENDING then HYPERCALL_ERR_NO_PENDING
               else if virq < 0 then HYPERCALL_ERR_INVALID else of_int virq) f, s)
      else if num = HYPERCALL_VIRQ_COMPLETE then
        let (virq_complete, v) = hv_virq_complete (deref vcpu s) (reg f 1);
            s = store vcpu v s;
            s = hv_virq_sync (deref vcpu s) s
        in Some (HYP_ACTION_RETURN,
             set_reg 0 (if virq_complete = 0 then HYPERCALL_SUCCESS else HYPERCALL_ERR_INVALID) f, s)
      else if num = HYPERCALL_TIMER_GET_TICKS then
        let (t, s) = TIM_SYS_Get_Ticks s in Some (HYP_ACTION_RETURN, set_reg 0 t f, s)
      else if num = HYPERCALL_TIMER_GET_FREQ then
        if vcpu = None \<or> hv_scheduler_is_idle_vcpu (deref vcpu s)
        then Some (HYP_ACTION_RETURN, set_reg 0 0 f, s)
        else do {
          freq \<leftarrow> hv_vcpu_timer_get_frequency (deref vcpu s);
          Some (HYP_ACTION_RETURN, set_reg 0 freq f, s) }
      else if num = HYPERCALL_TIMER_DELAY_TICKS then
        if vcpu = None \<or> hv_scheduler_is_idle_vcpu (deref vcpu s)
        then Some (HYP_ACTION_RETURN, set_reg 0 HYPERCALL_ERR_INVALID f, s)
        else if reg f 1 = 0 then Some (HYP_ACTION_RETURN, set_reg 0 HYPERCALL_SUCCESS f, s)
        else
          let (t, s) = TIM_SYS_Get_Ticks s;
              s = store vcpu (hv_vcpu_timer_delay (deref vcpu s) (ucast t) (ucast (reg f 1))) s;
              s = hv_vtimer_rearm_physical s
          in hv_scheduler_advance (set_reg 0 HYPERCALL_SUCCESS f) s
      else Some (HYP_ACTION_HALT, set_reg 0 HYPERCALL_ERR_UNKNOWN f, s))"


subsection \<open>Storing through the current pointer\<close>

lemma deref_store [simp]:
  "deref (Some c) s = Some (vcpu_at c s)" "deref None s = None"
  "store (Some c) (Some v) s = upd_vcpu c (\<lambda>_. v) s" "store None q s = s" "store (Some c) None s = s"
  by (simp_all add: deref_def store_def)

text \<open>The fields of a vCPU that virtual interrupts and timers leave alone.\<close>

definition same_vcpu :: "HvVcpu \<Rightarrow> HvVcpu \<Rightarrow> bool" where
  "same_vcpu v w \<longleftrightarrow> vcpu_id w = vcpu_id v \<and> vcpu_vm w = vcpu_vm v \<and> vcpu_context w = vcpu_context v"

lemma same_vcpu_refl [simp]: "same_vcpu v v"
  by (simp add: same_vcpu_def)

lemma claim_fields:
  assumes "hv_virq_claim (Some v) = (x, vp)"
  obtains w where "vp = Some w" "same_vcpu v w" "vcpu_state w = vcpu_state v" "vcpu_timer w = vcpu_timer v"
  using assms by (cases rule: hv_virq_claim_cases [of v]) (auto simp: same_vcpu_def)

lemma complete_fields:
  assumes "hv_virq_complete (Some v) n = (x, vp)"
  obtains w where "vp = Some w" "same_vcpu v w" "vcpu_state w = vcpu_state v" "vcpu_timer w = vcpu_timer v"
    "virq_pending w = virq_pending v"
  using assms by (auto simp: hv_virq_complete_def same_vcpu_def Let_def split: if_splits)

lemma timer_fields:
  "hv_vcpu_timer_disable (Some v) = Some w \<Longrightarrow> same_vcpu v w \<and> vcpu_state w = vcpu_state v \<and>
     virq_pending w = virq_pending v \<and> \<not> tm_enabled (vcpu_timer w)"
  "hv_vcpu_timer_delay (Some v) now d = Some w \<Longrightarrow> d \<noteq> 0 \<Longrightarrow> same_vcpu v w \<and> vcpu_state w = HV_VCPU_BLOCKED \<and>
     tm_enabled (vcpu_timer w) \<and> tm_deadline (vcpu_timer w) = now + d"
  by (auto simp: hv_vcpu_timer_disable_def hv_vcpu_timer_delay_def hv_vcpu_block_def same_vcpu_def)

lemma own_wf:
  assumes "sched_wf (scheduler s)" "cur_of s < 2" "same_vcpu (vcpu_at (cur_of s) s) w"
  shows "sched_wf (scheduler (upd_vcpu (cur_of s) (\<lambda>_. w) s))"
  using assms by (intro upd_wf) (simp_all add: same_vcpu_def)

lemma own_len: "sched_wf (scheduler s) \<Longrightarrow> cur_of s < length (sch_vcpus (scheduler s))"
  using sched_wfD(2,3) by metis

text \<open>Leaving the current guest after a change to it alone.\<close>

lemma advance_own:
  assumes "own_step (cur_of s) s s1" "sched_wf (scheduler s1)" "frame_ok f1"
    "hv_scheduler_advance f1 s1 = Some (r, f', s')"
  shows "handled (cur_of s) f s r f' s'" "r = HYP_ACTION_RETURN"
  using handled_own [OF advance_handled(1) [OF assms(2-4)] assms(1) refl]
    advance_handled(2) [OF assms(2-4)] by blast+

text \<open>Going on with the current guest after a change to its interrupts.\<close>

lemma sync_own:
  assumes "sched_run s" "cur_of s < 2" "same_vcpu (vcpu_at (cur_of s) s) w" "frame_ok f'"
    "vcpu_state w = vcpu_state (vcpu_at (cur_of s) s)"
  defines "s1 \<equiv> upd_vcpu (cur_of s) (\<lambda>_. w) s"
  shows "handled (cur_of s) f s r f' (hv_virq_sync (Some w) s1)"
    "sched_run (hv_virq_sync (Some w) s1)"
proof -
  have wf: "sched_wf (scheduler s)" and st: "vcpu_state (vcpu_at (cur_of s) s) = HV_VCPU_RUNNING"
    and hw: "hw_novi (cur_of s) s" using assms(1) by (simp_all add: sched_run_def hw_for_iff)
  note len = own_len [OF wf]
  have wf1: "sched_wf (scheduler s1)" unfolding s1_def by (rule own_wf [OF wf assms(2,3)])
  have v1: "vcpu_at (cur_of s1) s1 = w" and c1: "cur_of s1 = cur_of s" using len by (simp_all add: s1_def)
  have "hw_novi (cur_of s1) s1"
    unfolding c1 unfolding s1_def
    by (rule hw_novi_upd [OF hw _ len]) (use assms(3) in \<open>simp add: same_vcpu_def\<close>)
  then show run: "sched_run (hv_virq_sync (Some w) s1)"
    using virq_sync_machine(1) [OF wf1] assms(5) st by (simp add: v1)
  have "own_step (cur_of s) s (hv_virq_sync (Some w) s1)"
    using own_step_trans [OF own_step_upd [OF len] own_step_sync] by (simp add: s1_def)
  then show "handled (cur_of s) f s r f' (hv_virq_sync (Some w) s1)"
    by (rule handled_return) (simp_all add: assms(4) run)
qed

lemma handled_io:
  assumes "sched_run s" "io_out s s' t" "frame_ok f'"
  shows "handled (cur_of s) f s r f' s'"
  by (rule handled_return [OF own_step_io [OF assms(2)] refl assms(3)])
     (use assms(1) io_machine(11) [OF assms(2)] in simp)


subsection \<open>Each call\<close>

text \<open>The state a guest's call starts in: the guest runs and its frame was just stored.\<close>

definition guest_call :: "HypExceptState \<Rightarrow> machine \<Rightarrow> bool" where
  "guest_call f s \<longleftrightarrow> sched_run s \<and> cur_of s < HV_MAX_GUEST_VCPUS \<and> frame_ok f"

lemma guest_callD:
  assumes "guest_call f s"
  shows "sched_run s" "sched_wf (scheduler s)" "cur_of s < 2" "frame_ok f"
    "hv_scheduler_get_current s = Some (cur_of s)"
    "\<not> hv_scheduler_is_idle_vcpu (Some (vcpu_at (cur_of s) s))"
    "vcpu_state (vcpu_at (cur_of s) s) = HV_VCPU_RUNNING"
proof -
  show g: "sched_run s" "cur_of s < 2" "frame_ok f" using assms by (simp_all add: guest_call_def)
  then show wf: "sched_wf (scheduler s)" "vcpu_state (vcpu_at (cur_of s) s) = HV_VCPU_RUNNING"
    by (simp_all add: sched_run_def)
  show "hv_scheduler_get_current s = Some (cur_of s)"
    by (simp add: hv_scheduler_get_current_def sched_wfD(4) [OF wf(1)])
  show "\<not> hv_scheduler_is_idle_vcpu (Some (vcpu_at (cur_of s) s))"
    using is_idle_vcpu_at [OF wf(1), of "cur_of s"] g(2) by simp
qed

text \<open>Disabling the current guest's timer and marking it exited, then rearming the physical timer.\<close>

definition exit_current :: "machine \<Rightarrow> machine" where
  "exit_current s =
     (let p = Some (cur_of s);
          s = store p (hv_vcpu_timer_disable (deref p s)) s;
          s = store p (set_vcpu_state HV_VCPU_EXITED (deref p s)) s
      in hv_vtimer_rearm_physical s)"

lemma exit_current_spec:
  assumes "sched_wf (scheduler s)" "cur_of s < 2"
  shows "own_step (cur_of s) s (exit_current s)" "sched_wf (scheduler (exit_current s))"
    "vcpu_state (vcpu_at (cur_of s) (exit_current s)) = HV_VCPU_EXITED"
    "\<not> tm_enabled (vcpu_timer (vcpu_at (cur_of s) (exit_current s)))"
    "j \<noteq> cur_of s \<Longrightarrow> vcpu_at j (exit_current s) = vcpu_at j s" "cur_of (exit_current s) = cur_of s"
    "hw_in (exit_current s) = hw_in s" "hv_scheduler_verbose (exit_current s) = hv_scheduler_verbose s"
proof -
  let ?c = "cur_of s"
  note len = own_len [OF assms(1)]
  obtain w where w: "hv_vcpu_timer_disable (Some (vcpu_at ?c s)) = Some w" by (simp add: hv_vcpu_timer_disable_def)
  note W = timer_fields(1) [OF w]
  define s1 where "s1 = upd_vcpu ?c (\<lambda>_. w) s"
  define s2 where "s2 = upd_vcpu ?c (\<lambda>_. w\<lparr>vcpu_state := HV_VCPU_EXITED\<rparr>) s1"
  have e: "exit_current s = hv_vtimer_rearm_physical s2"
    using len by (simp add: exit_current_def w s1_def [symmetric] set_vcpu_state_def Let_def s2_def)
      (simp add: s1_def)
  note io = rearm_io [of s2]
  have wf1: "sched_wf (scheduler s1)" unfolding s1_def by (rule own_wf [OF assms(1,2)]) (simp add: W)
  have c1: "cur_of s1 = ?c" "vcpu_at ?c s1 = w" using len by (simp_all add: s1_def)
  have wf2: "sched_wf (scheduler s2)"
    using own_wf [OF wf1, of "w\<lparr>vcpu_state := HV_VCPU_EXITED\<rparr>"] assms(2) by (simp add: c1 s2_def same_vcpu_def)
  have v2: "vcpu_at j s2 = (if j = ?c then w\<lparr>vcpu_state := HV_VCPU_EXITED\<rparr> else vcpu_at j s)" for j
    using len own_len [OF wf1] by (simp add: s2_def c1) (simp add: s1_def)
  show "own_step ?c s (exit_current s)"
    unfolding e s2_def s1_def using len
    by (intro own_step_trans [OF own_step_trans [OF own_step_upd own_step_upd] own_step_io [OF rearm_io]]) simp_all
  show "sched_wf (scheduler (exit_current s))" using wf2 io_machine(1) [OF io] by (simp add: e)
  show "vcpu_state (vcpu_at ?c (exit_current s)) = HV_VCPU_EXITED"
    "\<not> tm_enabled (vcpu_timer (vcpu_at ?c (exit_current s)))"
    "j \<noteq> ?c \<Longrightarrow> vcpu_at j (exit_current s) = vcpu_at j s"
    using W by (simp_all add: e io_machine(8) [OF io] v2)
  show "cur_of (exit_current s) = ?c" using io_machine(9) [OF io] by (simp add: e) (simp add: s2_def c1)
  show "hw_in (exit_current s) = hw_in s" "hv_scheduler_verbose (exit_current s) = hv_scheduler_verbose s"
    using io_machine(2,12) [OF io] by (simp_all add: e env_same_def s2_def s1_def upd_vcpu_def)
qed

lemma call_exit:
  assumes "guest_call f s" "reg f 0 = HYPERCALL_EXIT"
  shows "hyp_handle_guest_hypercall f s = do {
      s \<leftarrow> trace ''hyp_handle_guest_hypercall'' (''guest exiting, status: %d'' @ nl) [PInt (reg f 1)] s;
      hv_scheduler_advance f (exit_current s) }"
proof -
  note G = guest_callD [OF assms(1)]
  have "(do {
          s \<leftarrow> trace ''hyp_handle_guest_hypercall'' (''guest exiting, status: %d'' @ nl) [PInt (reg f 1)] s;
          let s = store (Some (cur_of s0)) (hv_vcpu_timer_disable (deref (Some (cur_of s0)) s)) s;
          let s = store (Some (cur_of s0)) (set_vcpu_state HV_VCPU_EXITED (deref (Some (cur_of s0)) s)) s;
          let s = hv_vtimer_rearm_physical s;
          hv_scheduler_advance f s }) = do {
      s \<leftarrow> trace ''hyp_handle_guest_hypercall'' (''guest exiting, status: %d'' @ nl) [PInt (reg f 1)] s;
      hv_scheduler_advance f (exit_current s) }" if "s0 = s" for s0
  proof (rule Option.bind_cong)
    fix s1
    assume "trace ''hyp_handle_guest_hypercall'' (''guest exiting, status: %d'' @ nl) [PInt (reg f 1)] s = Some s1"
    then obtain t where "io_out s s1 t" using trace_io_out by blast
    then have "cur_of s1 = cur_of s" by (rule io_machine(9))
    then show "(let s = store (Some (cur_of s0)) (hv_vcpu_timer_disable (deref (Some (cur_of s0)) s1)) s1;
          s = store (Some (cur_of s0)) (set_vcpu_state HV_VCPU_EXITED (deref (Some (cur_of s0)) s)) s;
          s = hv_vtimer_rearm_physical s in hv_scheduler_advance f s) = hv_scheduler_advance f (exit_current s1)"
      by (simp add: exit_current_def that Let_def)
  qed simp
  then show ?thesis using assms(2) G(5) by (simp add: hyp_handle_guest_hypercall_def)
qed


lemma call_exit_cases:
  assumes "guest_call f s" "reg f 0 = HYPERCALL_EXIT" "hyp_handle_guest_hypercall f s = Some (r, f', s')"
  obtains s1 t where "io_out s s1 t" "hv_scheduler_advance f (exit_current s1) = Some (r, f', s')"
proof -
  obtain s1 where t: "trace ''hyp_handle_guest_hypercall'' (''guest exiting, status: %d'' @ nl) [PInt (reg f 1)] s = Some s1"
    and a: "hv_scheduler_advance f (exit_current s1) = Some (r, f', s')"
    using assms(3) unfolding call_exit [OF assms(1,2)] bind_eq_Some_conv by blast
  obtain u where "io_out s s1 u" using trace_io_out [OF t] by blast
  then show thesis by (rule that [OF _ a])
qed

text \<open>Sleeping: the current guest's timer is set, the guest blocked, the physical timer rearmed.\<close>

definition delay_current :: "u32 \<Rightarrow> u32 \<Rightarrow> machine \<Rightarrow> machine" where
  "delay_current t d s =
     (let p = Some (cur_of s)
      in hv_vtimer_rearm_physical (store p (hv_vcpu_timer_delay (deref p s) (ucast t) (ucast d)) s))"

lemma delay_current_spec:
  assumes "sched_wf (scheduler s)" "cur_of s < 2" "d \<noteq> 0"
  shows "own_step (cur_of s) s (delay_current t d s)" "sched_wf (scheduler (delay_current t d s))"
    "vcpu_state (vcpu_at (cur_of s) (delay_current t d s)) = HV_VCPU_BLOCKED"
    "tm_enabled (vcpu_timer (vcpu_at (cur_of s) (delay_current t d s)))"
    "tm_deadline (vcpu_timer (vcpu_at (cur_of s) (delay_current t d s))) = ucast t + ucast d"
    "j \<noteq> cur_of s \<Longrightarrow> vcpu_at j (delay_current t d s) = vcpu_at j s" "cur_of (delay_current t d s) = cur_of s"
    "hw_in (delay_current t d s) = hw_in s"
    "hv_scheduler_verbose (delay_current t d s) = hv_scheduler_verbose s"
proof -
  let ?c = "cur_of s"
  note len = own_len [OF assms(1)]
  have d: "(ucast d :: u64) \<noteq> 0"
  proof
    assume "(ucast d :: u64) = 0"
    then have "unat (ucast d :: u64) = 0" by simp
    then have "unat d = 0" by (simp add: unat_ucast_up)
    then show False using assms(3) by (simp add: unat_eq_0)
  qed
  obtain w where w: "hv_vcpu_timer_delay (Some (vcpu_at ?c s)) (ucast t) (ucast d) = Some w"
    using d by (simp add: hv_vcpu_timer_delay_def hv_vcpu_block_def)
  note W = timer_fields(2) [OF w d]
  define s1 where "s1 = upd_vcpu ?c (\<lambda>_. w) s"
  have e: "delay_current t d s = hv_vtimer_rearm_physical s1"
    by (simp add: delay_current_def w s1_def Let_def)
  note io = rearm_io [of s1]
  have wf1: "sched_wf (scheduler s1)" unfolding s1_def by (rule own_wf [OF assms(1,2)]) (simp add: W)
  have v1: "vcpu_at j s1 = (if j = ?c then w else vcpu_at j s)" for j using len by (simp add: s1_def)
  show "own_step ?c s (delay_current t d s)"
    unfolding e s1_def by (rule own_step_trans [OF own_step_upd [OF len] own_step_io [OF rearm_io]])
  show "sched_wf (scheduler (delay_current t d s))" using wf1 io_machine(1) [OF io] by (simp add: e)
  show "vcpu_state (vcpu_at ?c (delay_current t d s)) = HV_VCPU_BLOCKED"
    "tm_enabled (vcpu_timer (vcpu_at ?c (delay_current t d s)))"
    "tm_deadline (vcpu_timer (vcpu_at ?c (delay_current t d s))) = ucast t + ucast d"
    "j \<noteq> ?c \<Longrightarrow> vcpu_at j (delay_current t d s) = vcpu_at j s"
    using W by (simp_all add: e io_machine(8) [OF io] v1)
  show "cur_of (delay_current t d s) = ?c" using io_machine(9) [OF io] by (simp add: e) (simp add: s1_def)
  show "hw_in (delay_current t d s) = hw_in s" "hv_scheduler_verbose (delay_current t d s) = hv_scheduler_verbose s"
    using io_machine(2,12) [OF io] by (simp_all add: e env_same_def s1_def upd_vcpu_def)
qed

lemma call_delay:
  assumes "guest_call f s" "reg f 0 = HYPERCALL_TIMER_DELAY_TICKS" "reg f 1 \<noteq> 0"
  obtains t s1 where "TIM_SYS_Get_Ticks s = (t, s1)" "io_out s s1 []"
    "hyp_handle_guest_hypercall f s =
      hv_scheduler_advance (set_reg 0 HYPERCALL_SUCCESS f) (delay_current t (reg f 1) s1)"
proof -
  note G = guest_callD [OF assms(1)]
  obtain t s1 where g: "TIM_SYS_Get_Ticks s = (t, s1)" by fastforce
  note io = io_out_timer(4) [OF g]
  have "cur_of s1 = cur_of s" by (rule io_machine(9) [OF io])
  then have "hyp_handle_guest_hypercall f s =
      hv_scheduler_advance (set_reg 0 HYPERCALL_SUCCESS f) (delay_current t (reg f 1) s1)"
    using assms(2,3) G(5,6) by (simp add: hyp_handle_guest_hypercall_def g Let_def delay_current_def)
  from that [OF g io this] show thesis .
qed

lemma call_claim:
  assumes "guest_call f s" "reg f 0 = HYPERCALL_VIRQ_CLAIM"
  obtains x w where "hv_virq_claim (Some (vcpu_at (cur_of s) s)) = (x, Some w)"
    "same_vcpu (vcpu_at (cur_of s) s) w" "vcpu_state w = vcpu_state (vcpu_at (cur_of s) s)"
    "vcpu_timer w = vcpu_timer (vcpu_at (cur_of s) s)"
    "hyp_handle_guest_hypercall f s = Some (HYP_ACTION_RETURN,
       set_reg 0 (if x = HV_VIRQ_ERR_NO_PENDING then HYPERCALL_ERR_NO_PENDING
               else if x < 0 then HYPERCALL_ERR_INVALID else of_int x) f,
       hv_virq_sync (Some w) (upd_vcpu (cur_of s) (\<lambda>_. w) s))"
proof -
  note G = guest_callD [OF assms(1)]
  obtain x vp where c: "hv_virq_claim (Some (vcpu_at (cur_of s) s)) = (x, vp)" by fastforce
  obtain w where w: "vp = Some w" "same_vcpu (vcpu_at (cur_of s) s) w"
    "vcpu_state w = vcpu_state (vcpu_at (cur_of s) s)" "vcpu_timer w = vcpu_timer (vcpu_at (cur_of s) s)"
    by (rule claim_fields [OF c])
  have "hyp_handle_guest_hypercall f s = Some (HYP_ACTION_RETURN,
       set_reg 0 (if x = HV_VIRQ_ERR_NO_PENDING then HYPERCALL_ERR_NO_PENDING
               else if x < 0 then HYPERCALL_ERR_INVALID else of_int x) f,
       hv_virq_sync (Some w) (upd_vcpu (cur_of s) (\<lambda>_. w) s))"
    using assms(2) G(5) own_len [OF G(2)] c w(1) by (simp add: hyp_handle_guest_hypercall_def Let_def)
  from that [OF _ w(2-4) this] c w(1) show thesis by simp
qed

lemma call_complete:
  assumes "guest_call f s" "reg f 0 = HYPERCALL_VIRQ_COMPLETE"
  obtains x w where "hv_virq_complete (Some (vcpu_at (cur_of s) s)) (reg f 1) = (x, Some w)"
    "same_vcpu (vcpu_at (cur_of s) s) w" "vcpu_state w = vcpu_state (vcpu_at (cur_of s) s)"
    "vcpu_timer w = vcpu_timer (vcpu_at (cur_of s) s)"
    "hyp_handle_guest_hypercall f s = Some (HYP_ACTION_RETURN,
       set_reg 0 (if x = 0 then HYPERCALL_SUCCESS else HYPERCALL_ERR_INVALID) f,
       hv_virq_sync (Some w) (upd_vcpu (cur_of s) (\<lambda>_. w) s))"
proof -
  note G = guest_callD [OF assms(1)]
  obtain x vp where c: "hv_virq_complete (Some (vcpu_at (cur_of s) s)) (reg f 1) = (x, vp)" by fastforce
  obtain w where w: "vp = Some w" "same_vcpu (vcpu_at (cur_of s) s) w"
    "vcpu_state w = vcpu_state (vcpu_at (cur_of s) s)" "vcpu_timer w = vcpu_timer (vcpu_at (cur_of s) s)"
    "virq_pending w = virq_pending (vcpu_at (cur_of s) s)"
    by (rule complete_fields [OF c])
  have "hyp_handle_guest_hypercall f s = Some (HYP_ACTION_RETURN,
       set_reg 0 (if x = 0 then HYPERCALL_SUCCESS else HYPERCALL_ERR_INVALID) f,
       hv_virq_sync (Some w) (upd_vcpu (cur_of s) (\<lambda>_. w) s))"
    using assms(2) G(5) own_len [OF G(2)] c w(1) by (simp add: hyp_handle_guest_hypercall_def Let_def)
  from that [OF _ w(2-4) this] c w(1) show thesis by simp
qed


subsection \<open>All calls\<close>

text \<open>The numbers the handler knows. \<open>HYPERCALL_ADVANCE\<close>, which the header defines, is not one.\<close>

definition known_hypercall :: "u32 \<Rightarrow> bool" where
  "known_hypercall n \<longleftrightarrow> n \<le> 11 \<and> n \<noteq> HYPERCALL_ADVANCE"

lemma unknown_hypercall:
  assumes "\<not> known_hypercall (reg f 0)"
  shows "hyp_handle_guest_hypercall f s = Some (HYP_ACTION_HALT, set_reg 0 HYPERCALL_ERR_UNKNOWN f, s)"
proof -
  have "reg f 0 \<noteq> n" if "n \<in> {0, 1, 2, 3, 5, 6, 7, 8, 9, 10, 11}" for n
    using assms that by (auto simp: known_hypercall_def)
  then show ?thesis by (simp add: hyp_handle_guest_hypercall_def Let_def)
qed

lemma call_get_freq:
  assumes "guest_call f s" "reg f 0 = HYPERCALL_TIMER_GET_FREQ"
  shows "hyp_handle_guest_hypercall f s =
    map_option (\<lambda>q. (HYP_ACTION_RETURN, set_reg 0 q f, s))
      (hv_vcpu_timer_get_frequency (Some (vcpu_at (cur_of s) s)))"
  using assms(2) guest_callD(5,6) [OF assms(1)]
  by (cases "hv_vcpu_timer_get_frequency (Some (vcpu_at (cur_of s) s))")
     (simp_all add: hyp_handle_guest_hypercall_def Let_def)

lemma call_yield:
  "reg f 0 = HYPERCALL_YIELD \<Longrightarrow> hyp_handle_guest_hypercall f s = hv_scheduler_yield f s"
  by (simp add: hyp_handle_guest_hypercall_def Let_def)

lemma call_putchar:
  "reg f 0 = HYPERCALL_PUTCHAR \<Longrightarrow> hyp_handle_guest_hypercall f s =
     map_option (\<lambda>s'. (HYP_ACTION_RETURN, set_reg 0 HYPERCALL_SUCCESS f, s')) (UART_Put8 (ucast (reg f 1)) s)"
  by (cases "UART_Put8 (ucast (reg f 1)) s") (simp_all add: hyp_handle_guest_hypercall_def Let_def)

lemma call_get_ticks:
  assumes "reg f 0 = HYPERCALL_TIMER_GET_TICKS"
  obtains t s1 where "TIM_SYS_Get_Ticks s = (t, s1)" "io_out s s1 []"
    "hyp_handle_guest_hypercall f s = Some (HYP_ACTION_RETURN, set_reg 0 t f, s1)"
proof -
  obtain t s1 where g: "TIM_SYS_Get_Ticks s = (t, s1)" by fastforce
  from that [OF g io_out_timer(4) [OF g]] assms show thesis
    by (simp add: hyp_handle_guest_hypercall_def Let_def g)
qed

lemma call_constant:
  "reg f 0 = HYPERCALL_GET_ABI_VERSION \<Longrightarrow>
     hyp_handle_guest_hypercall f s = Some (HYP_ACTION_RETURN, set_reg 0 1 f, s)"
  "reg f 0 = HYPERCALL_GET_FEATURES \<Longrightarrow>
     hyp_handle_guest_hypercall f s = Some (HYP_ACTION_RETURN, set_reg 0 15 f, s)"
  "reg f 0 = HYPERCALL_GET_HYP_IRQ_COUNT \<Longrightarrow>
     hyp_handle_guest_hypercall f s = Some (HYP_ACTION_RETURN, set_reg 0 (irq_counter s) f, s)"
  "guest_call f s \<Longrightarrow> reg f 0 = HYPERCALL_TIMER_DELAY_TICKS \<Longrightarrow> reg f 1 = 0 \<Longrightarrow>
     hyp_handle_guest_hypercall f s = Some (HYP_ACTION_RETURN, set_reg 0 HYPERCALL_SUCCESS f, s)"
  using guest_callD(5,6) [of f s]
  by (simp_all add: hyp_handle_guest_hypercall_def Let_def hyp_get_irq_count_def)

lemma known_cases:
  assumes "known_hypercall n"
  obtains "n = HYPERCALL_GET_ABI_VERSION" | "n = HYPERCALL_GET_FEATURES" | "n = HYPERCALL_EXIT"
    | "n = HYPERCALL_YIELD" | "n = HYPERCALL_PUTCHAR" | "n = HYPERCALL_GET_HYP_IRQ_COUNT"
    | "n = HYPERCALL_VIRQ_CLAIM" | "n = HYPERCALL_VIRQ_COMPLETE" | "n = HYPERCALL_TIMER_GET_TICKS"
    | "n = HYPERCALL_TIMER_DELAY_TICKS" | "n = HYPERCALL_TIMER_GET_FREQ"
proof -
  define k where "k = unat n"
  have n: "n = of_nat k" and "k < 12"
    using assms by (simp_all add: k_def known_hypercall_def word_le_nat_alt)
  then have "k \<noteq> 4" "k \<in> set [0..<12]" using assms by (auto simp: known_hypercall_def)
  then show thesis using that unfolding n by (auto simp: upt_conv_Cons simp del: set_upt)
qed

lemma exit_own:
  assumes "guest_call f s" "io_out s s1 t" "hv_scheduler_advance f (exit_current s1) = Some (r, f', s')"
  shows "handled (cur_of s) f s r f' s'" "r = HYP_ACTION_RETURN"
proof -
  note G = guest_callD [OF assms(1)]
  note m = io_machine [OF assms(2)]
  have wf1: "sched_wf (scheduler s1)" and c1: "cur_of s1 = cur_of s" using G(2) m by simp_all
  note X = exit_current_spec [OF wf1, unfolded c1, OF G(3)]
  note A = advance_own [OF own_step_trans [OF own_step_io [OF assms(2)] X(1)] X(2) G(4) assms(3)]
  show "handled (cur_of s) f s r f' s'" "r = HYP_ACTION_RETURN" by (rule A)+
qed

lemma hypercall_handled:
  assumes "guest_call f s" "hyp_handle_guest_hypercall f s = Some (r, f', s')"
  shows "handled (cur_of s) f s r f' s' \<and> r = (if known_hypercall (reg f 0) then HYP_ACTION_RETURN else HYP_ACTION_HALT)"
proof (cases "known_hypercall (reg f 0)")
  case False
  have "handled (cur_of s) f s 1 (set_reg 0 HYPERCALL_ERR_UNKNOWN f) s"
    by (rule handled_io [OF guest_callD(1) [OF assms(1)] io_out_refl]) (simp add: guest_callD(4) [OF assms(1)])
  then show ?thesis using unknown_hypercall [OF False, of s] assms(2) False by simp
next
  case known: True
  note G = guest_callD [OF assms(1)]
  note run = assms(2)
  have H: "handled (cur_of s) f s 0 (set_reg 0 x f) s1" if "io_out s s1 t" for x s1 t
    by (rule handled_io [OF G(1) that]) (simp add: G(4))
  have "handled (cur_of s) f s r f' s' \<and> r = HYP_ACTION_RETURN"
  proof (cases rule: known_cases [OF known])
    case 3
    obtain s1 t where "io_out s s1 t" "hv_scheduler_advance f (exit_current s1) = Some (r, f', s')"
      by (rule call_exit_cases [OF assms(1) 3 run])
    then show ?thesis using exit_own [OF assms(1)] by blast
  next
    case 4
    show ?thesis using sched_handled(1,6) [OF yield_spec(1,2) [OF G(1,3,4)]] run call_yield [OF 4] by simp
  next
    case 5
    then obtain s1 where "UART_Put8 (ucast (reg f 1)) s = Some s1"
      "(r, f', s') = (0, set_reg 0 0 f, s1)" using run call_putchar [OF 5, of s] by auto
    then show ?thesis using H [OF UART_Put8_io] by blast
  next
    case 7
    obtain x w where w: "same_vcpu (vcpu_at (cur_of s) s) w" "vcpu_state w = vcpu_state (vcpu_at (cur_of s) s)"
      and e: "hyp_handle_guest_hypercall f s = Some (HYP_ACTION_RETURN,
       set_reg 0 (if x = HV_VIRQ_ERR_NO_PENDING then HYPERCALL_ERR_NO_PENDING
               else if x < 0 then HYPERCALL_ERR_INVALID else of_int x) f,
       hv_virq_sync (Some w) (upd_vcpu (cur_of s) (\<lambda>_. w) s))"
    proof (rule call_claim [OF assms(1) 7], goal_cases)
      case (1 x w)
      show thesis by (rule 1(1) [OF 1(3,4,6)])
    qed
    show ?thesis using sync_own(1) [OF G(1,3) w(1) _ w(2)] run G(4) unfolding e by auto
  next
    case 8
    obtain x :: int and w where w: "same_vcpu (vcpu_at (cur_of s) s) w" "vcpu_state w = vcpu_state (vcpu_at (cur_of s) s)"
      and e: "hyp_handle_guest_hypercall f s = Some (HYP_ACTION_RETURN,
       set_reg 0 (if x = 0 then HYPERCALL_SUCCESS else HYPERCALL_ERR_INVALID) f,
       hv_virq_sync (Some w) (upd_vcpu (cur_of s) (\<lambda>_. w) s))"
    proof (rule call_complete [OF assms(1) 8], goal_cases)
      case (1 x w)
      show thesis by (rule 1(1) [OF 1(3,4,6)])
    qed
    show ?thesis using sync_own(1) [OF G(1,3) w(1) _ w(2)] run G(4) unfolding e by auto
  next
    case 9
    obtain t s1 where "io_out s s1 []"
      "hyp_handle_guest_hypercall f s = Some (HYP_ACTION_RETURN, set_reg 0 t f, s1)"
      using call_get_ticks [OF 9] by metis
    then show ?thesis using run H by auto
  next
    case 10
    show ?thesis
    proof (cases "reg f 1 = 0")
      case True
      show ?thesis using run call_constant(4) [OF assms(1) 10 True] H [OF io_out_refl] by auto
    next
      case False
      obtain t s1 where io: "io_out s s1 []" and e: "hyp_handle_guest_hypercall f s =
        hv_scheduler_advance (set_reg 0 HYPERCALL_SUCCESS f) (delay_current t (reg f 1) s1)"
        using call_delay [OF assms(1) 10 False] by metis
      have wf1: "sched_wf (scheduler s1)" and c1: "cur_of s1 = cur_of s" using G(2) io_machine [OF io] by simp_all
      note D = delay_current_spec [OF wf1, unfolded c1, OF G(3) False, where t = t]
      have "frame_ok (set_reg 0 0 f)" using G(4) by simp
      from advance_own [OF own_step_trans [OF own_step_io [OF io] D(1)] D(2) this] run e show ?thesis by auto
    qed
  next
    case 11
    then show ?thesis using run call_get_freq [OF assms(1) 11] H [OF io_out_refl] by auto
  qed (use run call_constant(1-3) H [OF io_out_refl] in auto)
  then show ?thesis using known by auto
qed


text \<open>C26: hypercalls are contained. Whatever a running guest puts in its registers, a call that
  comes back halts the machine exactly for the numbers the handler does not know (which include
  \<open>HYPERCALL_ADVANCE\<close>), and otherwise leaves a state a guest can run in. It changes no translation
  table and no VM, and nothing of the other guest: not its registers, wherever they are, its virtual
  interrupts and timer, or its device.\<close>

theorem hypercall_contained:
  assumes "guest_call f s" and "hyp_handle_guest_hypercall f s = Some (r, f', s')"
  shows "r = (if reg f 0 \<le> 11 \<and> reg f 0 \<noteq> HYPERCALL_ADVANCE then HYP_ACTION_RETURN else HYP_ACTION_HALT) \<and>
    (r = HYP_ACTION_RETURN \<longrightarrow> sched_run s' \<and> frame_ok f') \<and>
    stage2_tables s' = stage2_tables s \<and> sch_vm (scheduler s') = sch_vm (scheduler s) \<and>
    (\<forall>j < HV_MAX_GUEST_VCPUS. j \<noteq> cur_of s \<longrightarrow> guest_regs j f' s' = guest_regs j f s \<and>
       guest_virqs j s' = guest_virqs j s \<and> vuarts s' ! j = vuarts s ! j)"
  using hypercall_handled [OF assms]
  unfolding handled_def sys_same_def known_hypercall_def by blast

lemma running_call: "frame_ok f \<Longrightarrow> guest_call f running_machine"
  using running_machine_ok(1) by (simp add: guest_call_def)

theorem hypercall_contained_witness:
  "\<exists>r f' s'. hyp_handle_guest_hypercall (set_reg 0 HYPERCALL_YIELD zero_HypExceptState) running_machine = Some (r, f', s') \<and>
     sched_run s' \<and> guest_regs 1 f' s' = guest_regs 1 zero_HypExceptState running_machine"
proof -
  let ?f = "set_reg 0 HYPERCALL_YIELD zero_HypExceptState"
  have n: "reg ?f 0 = 3" by (simp add: zero_HypExceptState_def)
  have g: "guest_call ?f running_machine" by (rule running_call) simp
  obtain r f' s' where h: "hyp_handle_guest_hypercall ?f running_machine = Some (r, f', s')"
    using yield_returns [OF running_machine_ok(4,2), of ?f] call_yield [OF n, of running_machine] by auto
  from hypercall_contained [OF g h] n have "sched_run s'" "guest_regs 1 f' s' = guest_regs 1 ?f running_machine"
    by simp_all
  moreover have "guest_regs 1 ?f running_machine = guest_regs 1 zero_HypExceptState running_machine"
    by (simp add: guest_regs_def)
  ultimately show ?thesis using h by auto
qed


text \<open>A guest that is neither running nor runnable is left for another vCPU, as it is.\<close>

lemma advance_leaves:
  assumes wf: "sched_wf (scheduler s)" and f: "frame_ok f"
    and st: "vcpu_state (vcpu_at (cur_of s) s) \<notin> {HV_VCPU_RUNNING, HV_VCPU_RUNNABLE}" and c: "cur_of s < 2"
    and run: "hv_scheduler_advance f s = Some (r, f', s')"
  shows "cur_of s' \<noteq> cur_of s" "vcpu_state (vcpu_at (cur_of s) s') = vcpu_state (vcpu_at (cur_of s) s)"
    "ctx_hyp_state (vcpu_context (vcpu_at (cur_of s) s')) = f"
    "vcpu_timer (vcpu_at (cur_of s) s') = vcpu_timer (vcpu_at (cur_of s) s)"
proof -
  note A = advance_spec [OF wf f run]
  have cs: "cur_of s' = advance_target s" using A(1) by (simp add: sched_post_def)
  have nr: "\<not> can_run s (cur_of s)" using st by (simp add: can_run_def)
  show ne: "cur_of s' \<noteq> cur_of s"
    using advance_target_spec(2) [OF wf] nr c by (auto simp: cs)
  have v: "vcpu_at (cur_of s) s' = saved_vcpu f s"
    using A(2) ne cs by (simp add: switched_def)
  show "vcpu_state (vcpu_at (cur_of s) s') = vcpu_state (vcpu_at (cur_of s) s)"
    using st by (simp add: v saved_vcpu_def leave_state)
  show "ctx_hyp_state (vcpu_context (vcpu_at (cur_of s) s')) = f"
    "vcpu_timer (vcpu_at (cur_of s) s') = vcpu_timer (vcpu_at (cur_of s) s)"
    by (simp_all add: v saved_vcpu_def)
qed

lemma exit_result:
  assumes "guest_call f s" "reg f 0 = HYPERCALL_EXIT" "hyp_handle_guest_hypercall f s = Some (r, f', s')"
  shows "cur_of s' \<noteq> cur_of s \<and> vcpu_state (vcpu_at (cur_of s) s') = HV_VCPU_EXITED \<and>
    \<not> tm_enabled (vcpu_timer (vcpu_at (cur_of s) s'))"
proof -
  note G = guest_callD [OF assms(1)]
  obtain s1 t where io: "io_out s s1 t" and a: "hv_scheduler_advance f (exit_current s1) = Some (r, f', s')"
    by (rule call_exit_cases [OF assms])
  note m = io_machine [OF io]
  have wf1: "sched_wf (scheduler s1)" and c1: "cur_of s1 = cur_of s" using G(2) m by simp_all
  note X = exit_current_spec [OF wf1, unfolded c1, OF G(3)]
  show ?thesis
    using advance_leaves [OF X(2) G(4) _ _ a] X(3,4) G(3) by (simp add: X(6))
qed

lemma delay_result:
  assumes "guest_call f s" "reg f 0 = HYPERCALL_TIMER_DELAY_TICKS" "reg f 1 \<noteq> 0"
    "hyp_handle_guest_hypercall f s = Some (r, f', s')"
  shows "cur_of s' \<noteq> cur_of s \<and> vcpu_state (vcpu_at (cur_of s) s') = HV_VCPU_BLOCKED \<and>
    tm_enabled (vcpu_timer (vcpu_at (cur_of s) s')) \<and>
    tm_deadline (vcpu_timer (vcpu_at (cur_of s) s')) = ucast (fst (TIM_SYS_Get_Ticks s)) + ucast (reg f 1) \<and>
    ctx_hyp_state (vcpu_context (vcpu_at (cur_of s) s')) = set_reg 0 HYPERCALL_SUCCESS f"
proof -
  note G = guest_callD [OF assms(1)]
  obtain t s1 where g: "TIM_SYS_Get_Ticks s = (t, s1)" and io: "io_out s s1 []"
    and e: "hyp_handle_guest_hypercall f s =
      hv_scheduler_advance (set_reg 0 HYPERCALL_SUCCESS f) (delay_current t (reg f 1) s1)"
    by (rule call_delay [OF assms(1-3)])
  note m = io_machine [OF io]
  have wf1: "sched_wf (scheduler s1)" and c1: "cur_of s1 = cur_of s" using G(2) m by simp_all
  note D = delay_current_spec [OF wf1, unfolded c1, OF G(3) assms(3), where t = t]
  have f0: "frame_ok (set_reg 0 HYPERCALL_SUCCESS f)" using G(4) by simp
  show ?thesis
    using advance_leaves [OF D(2) f0 _ _ assms(4) [unfolded e], unfolded D(7)] D(3-5) G(3) g by simp
qed

lemma sync_after:
  assumes "guest_call f s" "s' = hv_virq_sync (Some w) (upd_vcpu (cur_of s) (\<lambda>_. w) s)"
  shows "vcpu_at (cur_of s) s' = w" "hcr_bit HCR_VI s' \<longleftrightarrow> virq_pending w \<noteq> 0"
  using own_len [OF guest_callD(2) [OF assms(1)]] ctrl_stepD(2) [OF ctrl_step_ops(4)]
  by (simp_all add: assms(2) virq_sync_bits)

lemma claim_result:
  assumes "guest_call f s" "reg f 0 = HYPERCALL_VIRQ_CLAIM" "hyp_handle_guest_hypercall f s = Some (r, f', s')"
  defines "v \<equiv> vcpu_at (cur_of s) s" and "v' \<equiv> vcpu_at (cur_of s) s'"
  shows "hcr_bit HCR_VI s' \<longleftrightarrow> virq_pending v' \<noteq> 0"
    "virq_pending v = 0 \<Longrightarrow> f' = set_reg 0 HYPERCALL_ERR_NO_PENDING f \<and> v' = v"
    "virq_pending v \<noteq> 0 \<Longrightarrow> \<exists>i < 32. f' = set_reg 0 (of_nat i) f \<and> bit (virq_pending v) i \<and>
          (\<forall>j < i. \<not> bit (virq_pending v) j) \<and> bit (virq_pending v') = (bit (virq_pending v))(i := False) \<and>
          bit (virq_active v') = (bit (virq_active v))(i := True)"
proof -
  obtain x w where w: "hv_virq_claim (Some v) = (x, Some w)"
    and e: "hyp_handle_guest_hypercall f s = Some (HYP_ACTION_RETURN,
       set_reg 0 (if x = HV_VIRQ_ERR_NO_PENDING then HYPERCALL_ERR_NO_PENDING
               else if x < 0 then HYPERCALL_ERR_INVALID else of_int x) f,
       hv_virq_sync (Some w) (upd_vcpu (cur_of s) (\<lambda>_. w) s))"
    using call_claim [OF assms(1,2)] v_def by metis
  have f': "f' = set_reg 0 (if x = HV_VIRQ_ERR_NO_PENDING then HYPERCALL_ERR_NO_PENDING
               else if x < 0 then HYPERCALL_ERR_INVALID else of_int x) f"
    and s': "s' = hv_virq_sync (Some w) (upd_vcpu (cur_of s) (\<lambda>_. w) s)"
    using assms(3) unfolding e by simp_all
  note S = sync_after [OF assms(1) s']
  have v': "v' = w" by (simp add: v'_def S)
  show "hcr_bit HCR_VI s' \<longleftrightarrow> virq_pending v' \<noteq> 0" by (simp add: S v')
  show "f' = set_reg 0 HYPERCALL_ERR_NO_PENDING f \<and> v' = v" if "virq_pending v = 0"
    using that w f' v' by (simp add: hv_virq_claim_def validate_def)
  show "\<exists>i < 32. f' = set_reg 0 (of_nat i) f \<and> bit (virq_pending v) i \<and>
          (\<forall>j < i. \<not> bit (virq_pending v) j) \<and> bit (virq_pending v') = (bit (virq_pending v))(i := False) \<and>
          bit (virq_active v') = (bit (virq_active v))(i := True)" if "virq_pending v \<noteq> 0"
  proof (cases rule: hv_virq_claim_cases [of v])
    case none
    then show ?thesis using that by simp
  next
    case (line i)
    then have c: "hv_virq_claim (Some v) = (int i, Some w)" and x: "x = int i" using w by simp_all
    note L = claim_ok_line [OF c]
    have "f' = set_reg 0 (of_nat i) f" by (simp add: f' x)
    moreover have "bit (virq_pending v') = (bit (virq_pending v))(i := False)"
      "bit (virq_active v') = (bit (virq_active v))(i := True)"
      using L by (simp_all add: v' line_pending_def line_active_def fun_eq_iff)
    ultimately show ?thesis using line(1-3) by blast
  qed
qed

lemma complete_result:
  assumes "guest_call f s" "reg f 0 = HYPERCALL_VIRQ_COMPLETE" "hyp_handle_guest_hypercall f s = Some (r, f', s')"
  defines "v \<equiv> vcpu_at (cur_of s) s" and "v' \<equiv> vcpu_at (cur_of s) s'"
  shows "if unat (reg f 1) < 32 \<and> bit (virq_active v) (unat (reg f 1))
     then f' = set_reg 0 HYPERCALL_SUCCESS f \<and>
       bit (virq_active v') = (bit (virq_active v))(unat (reg f 1) := False)
     else f' = set_reg 0 HYPERCALL_ERR_INVALID f \<and> v' = v"
proof -
  obtain x :: int and w where w: "hv_virq_complete (Some v) (reg f 1) = (x, Some w)"
    and e: "hyp_handle_guest_hypercall f s = Some (HYP_ACTION_RETURN,
       set_reg 0 (if x = 0 then HYPERCALL_SUCCESS else HYPERCALL_ERR_INVALID) f,
       hv_virq_sync (Some w) (upd_vcpu (cur_of s) (\<lambda>_. w) s))"
    using call_complete [OF assms(1,2)] v_def by metis
  have f': "f' = set_reg 0 (if x = 0 then HYPERCALL_SUCCESS else HYPERCALL_ERR_INVALID) f"
    and s': "s' = hv_virq_sync (Some w) (upd_vcpu (cur_of s) (\<lambda>_. w) s)"
    using assms(3) unfolding e by simp_all
  have v': "v' = w" by (simp add: v'_def sync_after [OF assms(1) s'])
  have b: "bit (a AND NOT (push_bit k 1)) = (bit a)(k := False)" for a :: u32 and k
    by (auto simp: fun_eq_iff bit_line_simps)
  show ?thesis using w f' by (auto simp: hv_virq_complete_Some v' b b [unfolded push_bit_of_1] split: if_splits)
qed

subsection \<open>The calls return\<close>

lemma live_returns: "uart_live s \<Longrightarrow> hw_in s' = hw_in s \<Longrightarrow> returns_ok s'" for s s' :: machine
  using uart_live_in [of s' s] by (simp add: returns_ok_def)

lemma hypercall_returns:
  assumes "guest_call f s" "uart_live s"
    and "reg f 0 = HYPERCALL_TIMER_GET_FREQ \<Longrightarrow> hv_vcpu_timer_get_frequency (Some (vcpu_at (cur_of s) s)) \<noteq> None"
  shows "hyp_handle_guest_hypercall f s \<noteq> None"
proof (cases "known_hypercall (reg f 0)")
  case False
  then show ?thesis using unknown_hypercall by simp
next
  case known: True
  note G = guest_callD [OF assms(1)]
  show ?thesis
  proof (cases rule: known_cases [OF known])
    case 3
    have fmt: "format (''guest exiting, status: %d'' @ nl) [PInt (reg f 1)] \<noteq> None"
      by (simp add: format_simps nl_def)
    obtain s1 where t: "trace ''hyp_handle_guest_hypercall'' (''guest exiting, status: %d'' @ nl) [PInt (reg f 1)] s = Some s1"
      using trace_live [OF assms(2) fmt] by blast
    obtain u where io: "io_out s s1 u" using trace_io_out [OF t] by blast
    note m = io_machine [OF io]
    have wf1: "sched_wf (scheduler s1)" and c1: "cur_of s1 = cur_of s" using G(2) m by simp_all
    note X = exit_current_spec [OF wf1, unfolded c1, OF G(3)]
    have "returns_ok (exit_current s1)" using live_returns [OF assms(2)] X(7) m(12) by simp
    then show ?thesis
      using advance_returns [OF sched_wfD(4) [OF X(2)]] call_exit [OF assms(1) 3] t by simp
  next
    case 4
    then show ?thesis
      using yield_returns [OF sched_wfD(4) [OF G(2)] live_returns [OF assms(2) refl]] call_yield [OF 4] by simp
  next
    case 5
    then show ?thesis using UART_Put8_live [OF assms(2)] call_putchar [OF 5, of s] by fastforce
  next
    case 7
    then show ?thesis using call_claim [OF assms(1) 7] by (metis option.distinct(1))
  next
    case 8
    then show ?thesis using call_complete [OF assms(1) 8] by (metis option.distinct(1))
  next
    case 9
    then show ?thesis using call_get_ticks [OF 9] by (metis option.distinct(1))
  next
    case 10
    show ?thesis
    proof (cases "reg f 1 = 0")
      case False
      obtain t s1 where io: "io_out s s1 []" and e: "hyp_handle_guest_hypercall f s =
        hv_scheduler_advance (set_reg 0 HYPERCALL_SUCCESS f) (delay_current t (reg f 1) s1)"
        using call_delay [OF assms(1) 10 False] by metis
      note m = io_machine [OF io]
      have wf1: "sched_wf (scheduler s1)" and c1: "cur_of s1 = cur_of s" using G(2) m by simp_all
      note D = delay_current_spec [OF wf1, unfolded c1, OF G(3) False, where t = t]
      have "returns_ok (delay_current t (reg f 1) s1)" using live_returns [OF assms(2)] D(8) m(12) by simp
      then show ?thesis using advance_returns [OF sched_wfD(4) [OF D(2)]] e by simp
    qed (use call_constant(4) [OF assms(1) 10] in simp)
  next
    case 11
    then show ?thesis using assms(3) call_get_freq [OF assms(1) 11] by simp
  qed (use call_constant(1-3) in auto)
qed

subsection \<open>What the calls do\<close>

text \<open>The result \<open>r\<close>, \<open>f'\<close>, \<open>s'\<close> of a hypercall of the current guest, for every number.\<close>

definition yield_post :: "HypExceptState \<Rightarrow> machine \<Rightarrow> HypExceptState \<Rightarrow> machine \<Rightarrow> bool" where
  "yield_post f s f' s' \<longleftrightarrow>
     (let v' = vcpu_at (cur_of s) s'; other = 1 - cur_of s in
      if runnable s other
      then cur_of s' = other \<and> f' = ctx_hyp_state (vcpu_context (vcpu_at other s)) \<and>
        vcpu_state v' = HV_VCPU_RUNNABLE \<and> ctx_hyp_state (vcpu_context v') = f
      else f' = f \<and> s' = s)"

definition claim_post :: "HypExceptState \<Rightarrow> machine \<Rightarrow> HypExceptState \<Rightarrow> machine \<Rightarrow> bool" where
  "claim_post f s f' s' \<longleftrightarrow>
     (let v = vcpu_at (cur_of s) s; v' = vcpu_at (cur_of s) s' in
      (hcr_bit HCR_VI s' \<longleftrightarrow> virq_pending v' \<noteq> 0) \<and>
      (if virq_pending v = 0 then f' = set_reg 0 HYPERCALL_ERR_NO_PENDING f \<and> v' = v
       else \<exists>i < 32. f' = set_reg 0 (of_nat i) f \<and> bit (virq_pending v) i \<and>
         (\<forall>j < i. \<not> bit (virq_pending v) j) \<and> bit (virq_pending v') = (bit (virq_pending v))(i := False) \<and>
         bit (virq_active v') = (bit (virq_active v))(i := True)))"

definition complete_post :: "HypExceptState \<Rightarrow> machine \<Rightarrow> HypExceptState \<Rightarrow> machine \<Rightarrow> bool" where
  "complete_post f s f' s' \<longleftrightarrow>
     (let v = vcpu_at (cur_of s) s; v' = vcpu_at (cur_of s) s' in
      if unat (reg f 1) < 32 \<and> bit (virq_active v) (unat (reg f 1))
      then f' = set_reg 0 HYPERCALL_SUCCESS f \<and>
        bit (virq_active v') = (bit (virq_active v))(unat (reg f 1) := False)
      else f' = set_reg 0 HYPERCALL_ERR_INVALID f \<and> v' = v)"

definition exit_post :: "machine \<Rightarrow> machine \<Rightarrow> bool" where
  "exit_post s s' \<longleftrightarrow>
     (let v' = vcpu_at (cur_of s) s' in
      cur_of s' \<noteq> cur_of s \<and> vcpu_state v' = HV_VCPU_EXITED \<and> \<not> tm_enabled (vcpu_timer v'))"

definition delay_post :: "HypExceptState \<Rightarrow> machine \<Rightarrow> HypExceptState \<Rightarrow> machine \<Rightarrow> bool" where
  "delay_post f s f' s' \<longleftrightarrow>
     (let v' = vcpu_at (cur_of s) s' in
      if reg f 1 = 0 then f' = set_reg 0 HYPERCALL_SUCCESS f \<and> s' = s
      else cur_of s' \<noteq> cur_of s \<and> vcpu_state v' = HV_VCPU_BLOCKED \<and> tm_enabled (vcpu_timer v') \<and>
        tm_deadline (vcpu_timer v') = ucast (fst (TIM_SYS_Get_Ticks s)) + ucast (reg f 1) \<and>
        ctx_hyp_state (vcpu_context v') = set_reg 0 HYPERCALL_SUCCESS f)"

definition own_frequency :: "machine \<Rightarrow> u32" where
  "own_frequency s =
     (let tm = vcpu_timer (vcpu_at (cur_of s) s) in
      if tm_enabled tm \<and> tm_period tm \<noteq> 0 then HV_TIMER_TICKS_PER_SEC div ucast (tm_period tm) else 0)"

definition hypercall_post :: "HypExceptState \<Rightarrow> machine \<Rightarrow> int \<Rightarrow> HypExceptState \<Rightarrow> machine \<Rightarrow> bool" where
  "hypercall_post f s r f' s' \<longleftrightarrow>
     (if \<not> known_hypercall (reg f 0)
      then r = HYP_ACTION_HALT \<and> f' = set_reg 0 HYPERCALL_ERR_UNKNOWN f \<and> s' = s
      else r = HYP_ACTION_RETURN \<and>
        (reg f 0 = HYPERCALL_GET_ABI_VERSION \<longrightarrow> f' = set_reg 0 HYPERCALL_ABI_VERSION f \<and> s' = s) \<and>
        (reg f 0 = HYPERCALL_GET_FEATURES \<longrightarrow> f' = set_reg 0 0xf f \<and> s' = s) \<and>
        (reg f 0 = HYPERCALL_EXIT \<longrightarrow> exit_post s s') \<and>
        (reg f 0 = HYPERCALL_YIELD \<longrightarrow> yield_post f s f' s') \<and>
        (reg f 0 = HYPERCALL_PUTCHAR \<longrightarrow> f' = set_reg 0 HYPERCALL_SUCCESS f \<and> io_out s s' [ucast (reg f 1)]) \<and>
        (reg f 0 = HYPERCALL_GET_HYP_IRQ_COUNT \<longrightarrow> f' = set_reg 0 (irq_counter s) f \<and> s' = s) \<and>
        (reg f 0 = HYPERCALL_VIRQ_CLAIM \<longrightarrow> claim_post f s f' s') \<and>
        (reg f 0 = HYPERCALL_VIRQ_COMPLETE \<longrightarrow> complete_post f s f' s') \<and>
        (reg f 0 = HYPERCALL_TIMER_GET_TICKS \<longrightarrow> f' = set_reg 0 (fst (TIM_SYS_Get_Ticks s)) f \<and> io_out s s' []) \<and>
        (reg f 0 = HYPERCALL_TIMER_DELAY_TICKS \<longrightarrow> delay_post f s f' s') \<and>
        (reg f 0 = HYPERCALL_TIMER_GET_FREQ \<longrightarrow> f' = set_reg 0 (own_frequency s) f \<and> s' = s))"

lemma yield_result:
  assumes "guest_call f s" "reg f 0 = HYPERCALL_YIELD" "hyp_handle_guest_hypercall f s = Some (r, f', s')"
  shows "yield_post f s f' s'"
proof -
  note G = guest_callD [OF assms(1)]
  have "hv_scheduler_yield f s = Some (r, f', s')" using assms(3) call_yield [OF assms(2), of s] by simp
  note Y = yield_spec [OF G(1,3,4) this]
  show ?thesis
  proof (cases "runnable s (1 - cur_of s)")
    case True
    then have n: "yield_target s = 1 - cur_of s" "1 - cur_of s \<noteq> cur_of s" using G(3) by (simp add: yield_target_def) arith
    then have "vcpu_at (cur_of s) s' = saved_vcpu f s" "f' = ctx_hyp_state (vcpu_context (vcpu_at (1 - cur_of s) s))"
      using Y(2) by (simp_all add: switched_def)
    moreover have "vcpu_state (saved_vcpu f s) = HV_VCPU_RUNNABLE" using G(6,7)
      by (simp add: saved_vcpu_def leave_state hv_scheduler_is_idle_vcpu_def)
    ultimately show ?thesis using True Y(1) n by (simp add: yield_post_def sched_post_def saved_vcpu_def)
  next
    case False
    then have "yield_target s = cur_of s" by (simp add: yield_target_def)
    then show ?thesis using False Y by (simp add: yield_post_def switched_def)
  qed
qed

lemma freq_result: "hv_vcpu_timer_get_frequency (Some (vcpu_at (cur_of s) s)) = Some q \<Longrightarrow> q = own_frequency s"
  by (simp add: hv_vcpu_timer_get_frequency_def own_frequency_def Let_def split: if_splits)

text \<open>C28: the hypercalls of a running guest, number by number. With a live serial line the call returns,
  except that the frequency of a period whose low half is zero is a division by zero. The version,
  feature, interrupt-count, tick and frequency calls answer their value, \<open>PUTCHAR\<close> transmits exactly
  one byte, a claim answers and acknowledges the lowest pending line or -3, a completion answers 0 for an
  active line and -2 otherwise, and the hardware line follows what is pending. \<open>YIELD\<close> goes to the
  other guest if that can run and does nothing otherwise; \<open>EXIT\<close> stops the guest and its timer;
  \<open>TIMER_DELAY_TICKS\<close> blocks the guest until its deadline, with success already in its saved
  \<open>r0\<close>, or answers at once for no ticks. Any other number is answered -1 and halts.\<close>

theorem hypercall_results:
  assumes "guest_call f s"
  shows "(uart_live s \<and> (let p = tm_period (vcpu_timer (vcpu_at (cur_of s) s)) in p = 0 \<or> (ucast p :: u32) \<noteq> 0) \<longrightarrow>
      (\<exists>r f' s'. hyp_handle_guest_hypercall f s = Some (r, f', s'))) \<and>
    (\<forall>r f' s'. hyp_handle_guest_hypercall f s = Some (r, f', s') \<longrightarrow> hypercall_post f s r f' s')"
proof (intro conjI impI allI)
  assume l: "uart_live s \<and> (let p = tm_period (vcpu_timer (vcpu_at (cur_of s) s)) in p = 0 \<or> (ucast p :: u32) \<noteq> 0)"
  then have "hv_vcpu_timer_get_frequency (Some (vcpu_at (cur_of s) s)) \<noteq> None"
    by (auto simp: hv_vcpu_timer_get_frequency_def Let_def)
  then show "\<exists>r f' s'. hyp_handle_guest_hypercall f s = Some (r, f', s')"
    using hypercall_returns [OF assms] l by auto
next
  fix r f' s'
  assume run: "hyp_handle_guest_hypercall f s = Some (r, f', s')"
  show "hypercall_post f s r f' s'"
  proof (cases "known_hypercall (reg f 0)")
    case known: True
    have r: "r = HYP_ACTION_RETURN" using hypercall_handled [OF assms run] known by simp
    show ?thesis
    proof (cases rule: known_cases [OF known])
      case 5
      then obtain t where "UART_Put8 (ucast (reg f 1)) s = Some t" "t = s'" "f' = set_reg 0 HYPERCALL_SUCCESS f"
        using call_putchar [of f s] run by (cases "UART_Put8 (ucast (reg f 1)) s") auto
      then show ?thesis using 5 known r UART_Put8_io by (simp add: hypercall_post_def)
    next
      case 9
      obtain t s1 where "TIM_SYS_Get_Ticks s = (t, s1)" "io_out s s1 []"
        "hyp_handle_guest_hypercall f s = Some (HYP_ACTION_RETURN, set_reg 0 t f, s1)"
        by (rule call_get_ticks [OF 9])
      then show ?thesis using 9 known r run by (simp add: hypercall_post_def)
    next
      case 10
      then show ?thesis using known r run call_constant(4) [OF assms 10] delay_result [OF assms 10]
        by (simp add: hypercall_post_def delay_post_def Let_def)
    next
      case 11
      then show ?thesis using known r run call_get_freq [OF assms 11] freq_result [of s]
        by (auto simp: hypercall_post_def)
    qed (use known r run call_constant(1-3) exit_result [OF assms] yield_result [OF assms] claim_result [OF assms]
          complete_result [OF assms] in
        \<open>auto simp: hypercall_post_def exit_post_def claim_post_def complete_post_def Let_def\<close>)
  qed (use run unknown_hypercall in \<open>auto simp: hypercall_post_def\<close>)
qed

theorem hypercall_results_witness:
  "\<exists>r f' s'. hyp_handle_guest_hypercall (set_reg 0 HYPERCALL_VIRQ_CLAIM zero_HypExceptState) running_machine =
      Some (r, f', s') \<and> reg f' 0 = HYPERCALL_ERR_NO_PENDING"
proof -
  let ?f = "set_reg 0 HYPERCALL_VIRQ_CLAIM zero_HypExceptState"
  have n: "reg ?f 0 = 7" by (simp add: zero_HypExceptState_def)
  have g: "guest_call ?f running_machine" by (rule running_call) simp
  obtain r f' s' where h: "hyp_handle_guest_hypercall ?f running_machine = Some (r, f', s')"
    using call_claim [OF g n] by metis
  then have "hypercall_post ?f running_machine r f' s'" using hypercall_results [OF g] by blast
  then have "claim_post ?f running_machine f' s'" using n by (simp add: hypercall_post_def known_hypercall_def)
  then have "f' = set_reg 0 (- 3) ?f" by (simp add: claim_post_def Let_def)
  then have "reg f' 0 = - 3" by (simp add: zero_HypExceptState_def)
  with h show ?thesis by blast
qed

end
