(* ===== verification/Exceptions.thy ===== *)
theory Exceptions
  imports Hypercall
begin

section \<open>Exceptions taken to the hypervisor: hyp-exceptions.h, hyp-exceptions.c\<close>

text \<open>
  The vectors (hyp-vectors.S) push a frame with the guest's registers and the syndrome registers, call
  \<open>hyp_handle_exception\<close> on it, and return to whatever the frame says or stop the machine. The
  handlers are functions from frame and machine to action, frame and machine; \<open>None\<close> is not coming
  back, which a failed assertion and a transmitter that is never ready amount to.
\<close>

abbreviation (input) HYP_EXCEPTION_UNKNOWN :: u32 where "HYP_EXCEPTION_UNKNOWN \<equiv> 0"
abbreviation (input) HYP_EXCEPTION_UNDEF_INSTR :: u32 where "HYP_EXCEPTION_UNDEF_INSTR \<equiv> 1"
abbreviation (input) HYP_EXCEPTION_HVC_FROM_HYP :: u32 where "HYP_EXCEPTION_HVC_FROM_HYP \<equiv> 2"
abbreviation (input) HYP_EXCEPTION_PREFETCH_ABORT :: u32 where "HYP_EXCEPTION_PREFETCH_ABORT \<equiv> 3"
abbreviation (input) HYP_EXCEPTION_DATA_ABORT :: u32 where "HYP_EXCEPTION_DATA_ABORT \<equiv> 4"
abbreviation (input) HYP_EXCEPTION_LOWER_SYNC :: u32 where "HYP_EXCEPTION_LOWER_SYNC \<equiv> 5"
abbreviation (input) HYP_EXCEPTION_IRQ :: u32 where "HYP_EXCEPTION_IRQ \<equiv> 6"
abbreviation (input) HYP_EXCEPTION_FIQ :: u32 where "HYP_EXCEPTION_FIQ \<equiv> 7"

subsection \<open>Diagnosis\<close>

definition hsr_ec_name :: "u32 \<Rightarrow> string" where
  "hsr_ec_name ec =
     (if ec = HSR_EC_UNKNOWN then ''unknown''
      else if ec = HSR_EC_WFI_WFE then ''wfi/wfe''
      else if ec = HSR_EC_CP15_MCR_MRC then ''cp15 mcr/mrc''
      else if ec = HSR_EC_CP15_MCRR_MRRC then ''cp15 mcrr/mrrc''
      else if ec = HSR_EC_CP14_MCR_MRC then ''cp14 mcr/mrc''
      else if ec = HSR_EC_LDC_STC then ''ldc/stc''
      else if ec = HSR_EC_FP_ASIMD then ''fp/asimd''
      else if ec = HSR_EC_VMRS_ID_TRAP then ''vmrs id trap''
      else if ec = HSR_EC_CP14_MRRC then ''cp14 mrrc''
      else if ec = HSR_EC_ILLEGAL_EXCEPTION_RETURN_A32 then ''illegal exception return''
      else if ec = HSR_EC_SVC_A32 then ''svc a32''
      else if ec = HSR_EC_HVC_A32 then ''hvc a32''
      else if ec = HSR_EC_SMC_A32 then ''smc a32''
      else if ec = HSR_EC_PREFETCH_ABORT_LOWER then ''prefetch abort lower''
      else if ec = HSR_EC_PREFETCH_ABORT_SAME then ''prefetch abort same''
      else if ec = HSR_EC_PC_ALIGNMENT_FAULT then ''pc alignment fault''
      else if ec = HSR_EC_DATA_ABORT_LOWER then ''data abort lower''
      else if ec = HSR_EC_DATA_ABORT_SAME then ''data abort same''
      else ''reserved/unknown'')"

text \<open>The lines of the dump, each its own \<open>trace\<close>.\<close>

definition dump_lines :: "HypExceptState \<Rightarrow> (string \<times> printk_arg list) list" where
  "dump_lines f =
     [(''-------- HYP EXCEPTION STATE --------'' @ nl, []),
      (''EXCEPTION TYPE: %d'' @ nl, [PInt (frame_exception_type f)]),
      (''HSR: %p'' @ nl, [PInt (frame_hsr f)]),
      (''HSR EC: %d (%s)'' @ nl, [PInt (HSR_EC (frame_hsr f)), PStr (Some (hsr_ec_name (HSR_EC (frame_hsr f))))]),
      (''HSR ISS: %p'' @ nl, [PInt (HSR_ISS (frame_hsr f))]),
      (''ELR_HYP: %p'' @ nl, [PInt (frame_elr_hyp f)]),
      (''SPSR_HYP: %b'' @ nl, [PInt (frame_spsr_hyp f)]),
      (''HDFAR: %p'' @ nl, [PInt (frame_hdfar f)]),
      (''HIFAR: %p'' @ nl, [PInt (frame_hifar f)]),
      (''HPFAR: %p'' @ nl, [PInt (frame_hpfar f)]),
      (''-------------------------------------'' @ nl @ nl, [])]"

primrec trace_lines :: "string \<Rightarrow> (string \<times> printk_arg list) list \<Rightarrow> machine \<Rightarrow> machine option" where
  "trace_lines func [] s = Some s"
| "trace_lines func (l # ls) s = do { s \<leftarrow> trace func (fst l) (snd l) s; trace_lines func ls s }"

definition hyp_dump_exception_state :: "HypExceptState \<Rightarrow> machine \<Rightarrow> machine option" where
  "hyp_dump_exception_state f s = trace_lines ''hyp_dump_exception_state'' (dump_lines f) s"

definition valid_hsr_ec :: "u64 list" where
  "valid_hsr_ec =
     [EC_BIT HSR_EC_UNKNOWN,
      EC_BIT HSR_EC_UNKNOWN,
      EC_BIT HSR_EC_HVC_A32,
      EC_BIT HSR_EC_PREFETCH_ABORT_LOWER OR EC_BIT HSR_EC_PREFETCH_ABORT_SAME OR
        EC_BIT HSR_EC_PC_ALIGNMENT_FAULT,
      EC_BIT HSR_EC_DATA_ABORT_LOWER OR EC_BIT HSR_EC_DATA_ABORT_SAME,
      EC_BIT HSR_EC_HVC_A32 OR EC_BIT HSR_EC_WFI_WFE OR EC_BIT HSR_EC_PREFETCH_ABORT_LOWER OR
        EC_BIT HSR_EC_DATA_ABORT_LOWER OR EC_BIT HSR_EC_CP15_MCR_MRC OR EC_BIT HSR_EC_CP15_MCRR_MRRC OR
        EC_BIT HSR_EC_CP14_MCR_MRC OR EC_BIT HSR_EC_CP14_MRRC OR EC_BIT HSR_EC_FP_ASIMD]"

definition hsr_ec_valid :: "u32 \<Rightarrow> int \<Rightarrow> bool" where
  "hsr_ec_valid hsr except_type =
     (let hsr_ec = ucast (HSR_EC hsr) :: u8
      in if except_type < 0 \<or> nat except_type \<ge> length valid_hsr_ec then False
         else valid_hsr_ec ! nat except_type AND EC_BIT (ucast hsr_ec) \<noteq> 0)"

definition hyp_dump_unexpected_exception_state :: "HypExceptState \<Rightarrow> machine \<Rightarrow> machine option" where
  "hyp_dump_unexpected_exception_state f s =
     (if \<not> hyp_except_verbose s then hyp_dump_exception_state f s else Some s)"

subsection \<open>Virtual timers\<close>

definition deliver_timer :: "u64 \<Rightarrow> nat \<Rightarrow> bool \<times> machine \<Rightarrow> (bool \<times> machine) option" where
  "deliver_timer now i acc =
     (case acc of (delivered, s) \<Rightarrow>
        let vcpu = Some (vcpu_at i s) in
        if vcpu_state (vcpu_at i s) = HV_VCPU_IDLE \<or> vcpu_state (vcpu_at i s) = HV_VCPU_EXITED \<or>
           \<not> hv_vcpu_timer_expired vcpu now then Some (delivered, s)
        else
          let (res, v) = hv_virq_raise vcpu VIRQ_TIMER;
              s = store (Some i) v s
          in if res = HV_VIRQ_ERR_BUSY then do {
               v \<leftarrow> hv_vcpu_timer_advance (deref (Some i) s) now;
               Some (True, store (Some i) v s) }
             else if res \<noteq> 0 then do {
               s \<leftarrow> trace ''deliver_expired_timers'' (''Failed to raise timer VIRQ: %d'' @ nl)
                 [PInt (of_int res)] s;
               Some (delivered, s) }
             else do {
               v \<leftarrow> hv_vcpu_timer_advance (deref (Some i) s) now;
               Some (True, store (Some i) v s) })"

definition deliver_expired_timers :: "u64 \<Rightarrow> machine \<Rightarrow> (bool \<times> machine) option" where
  "deliver_expired_timers now s = do {
     r \<leftarrow> deliver_timer now 0 (False, s);
     deliver_timer now 1 r }"

subsection \<open>Guest aborts\<close>

definition stage2_access_name :: "HvStage2Access \<Rightarrow> string" where
  "stage2_access_name a =
     (case a of HV_STAGE2_ACCESS_READ \<Rightarrow> ''read'' | HV_STAGE2_ACCESS_WRITE \<Rightarrow> ''write''
      | HV_STAGE2_ACCESS_INSTRUCTION \<Rightarrow> ''instruction'')"

definition decode_stage2_fault :: "HvVm list \<Rightarrow> HvVcpu option \<Rightarrow> HypExceptState \<Rightarrow> HvStage2FaultInfo" where
  "decode_stage2_fault vms vcpu_p f =
     (let iss = HSR_ISS (frame_hsr f);
          ec = HSR_EC (frame_hsr f);
          fault_ipa = push_bit 8 (ucast (frame_hpfar f AND 0xfffffff0)) :: u64;
          instr = (ec = HSR_EC_PREFETCH_ABORT_LOWER);
          wr = (\<not> instr \<and> iss AND HSR_ISS_ABORT_WNR \<noteq> 0);
          offset_valid = (\<not> instr \<and> iss AND HSR_ISS_ABORT_FNV = 0);
          fault_ipa = (if offset_valid then fault_ipa OR ucast (frame_hdfar f AND 0xfff) else fault_ipa)
      in \<lparr>fault_vcpu_id = (case vcpu_p of None \<Rightarrow> 0xffffffff | Some v \<Rightarrow> vcpu_id v),
          fault_vm_id = (case Option.bind vcpu_p vcpu_vm of None \<Rightarrow> 0xffffffff | Some i \<Rightarrow> vm_id (vms ! i)),
          fault_ec = ec, fault_iss = iss, fault_status = iss AND HSR_ISS_FAULT_STATUS_MASK,
          fault_level = (iss AND HSR_ISS_FAULT_STATUS_MASK) AND 3, fault_ipa = fault_ipa,
          fault_access = (if instr then HV_STAGE2_ACCESS_INSTRUCTION
            else if wr then HV_STAGE2_ACCESS_WRITE else HV_STAGE2_ACCESS_READ),
          is_write = wr, is_instruction = instr, ipa_offset_valid = offset_valid\<rparr>)"

definition log_stage2_fault :: "HvStage2FaultInfo \<Rightarrow> string \<Rightarrow> machine \<Rightarrow> machine option" where
  "log_stage2_fault fault route s =
     (if \<not> hyp_except_verbose s then Some s
      else trace ''log_stage2_fault''
        (''stage2 fault: route=%s vcpu=%d vm=%d ipa=%p access=%s level=%d status=%p iss=%p'' @ nl)
        [PStr (Some route), PInt (fault_vcpu_id fault), PInt (fault_vm_id fault),
         PInt (ucast (fault_ipa fault)), PStr (Some (stage2_access_name (fault_access fault))),
         PInt (fault_level fault), PInt (fault_status fault), PInt (fault_iss fault)] s)"

definition advance_trapped_guest_instr :: "HypExceptState \<Rightarrow> HypExceptState" where
  "advance_trapped_guest_instr f =
     (let instr_len = (if HSR_IL (frame_hsr f) \<noteq> 0 then 4 else 2)
      in f\<lparr>frame_elr_hyp := frame_elr_hyp f + instr_len\<rparr>)"

definition stop_current_guest_vcpu ::
    "nat \<Rightarrow> HypExceptState \<Rightarrow> machine \<Rightarrow> (int \<times> HypExceptState \<times> machine) option" where
  "stop_current_guest_vcpu vcpu f s =
     (let s = store (Some vcpu) (hv_vcpu_timer_disable (deref (Some vcpu) s)) s;
          s = store (Some vcpu) (set_vcpu_state HV_VCPU_EXITED (deref (Some vcpu) s)) s;
          s = hv_vtimer_rearm_physical s
      in hv_scheduler_advance f s)"


definition log_guest_abort :: "HypExceptState \<Rightarrow> machine \<Rightarrow> machine option" where
  "log_guest_abort f s =
     (if \<not> hyp_except_verbose s then Some s
      else let iss = HSR_ISS (frame_hsr f);
               status = iss AND HSR_ISS_FAULT_STATUS_MASK;
               fault_ipa = push_bit 8 (ucast (frame_hpfar f AND 0xfffffff0)) :: u64
        in do {
          s \<leftarrow> trace ''handle_guest_abort'' (''Guest abort: ec=%d (%s) iss=%p status=%p'' @ nl)
            [PInt (HSR_EC (frame_hsr f)), PStr (Some (hsr_ec_name (HSR_EC (frame_hsr f)))), PInt iss, PInt status] s;
          trace ''handle_guest_abort''
            (''Guest abort regs: elr=%p hdfar=%p hifar=%p hpfar=%p ipa_hi=%p ipa_lo=%p'' @ nl)
            [PInt (frame_elr_hyp f), PInt (frame_hdfar f), PInt (frame_hifar f), PInt (frame_hpfar f),
             PInt (ucast (drop_bit 32 fault_ipa)), PInt (ucast fault_ipa)] s })"

text \<open>The arms of \<open>handle_guest_abort\<close> for a vCPU with a VM, by the region the address falls in.\<close>

definition guest_abort_mmio ::
    "nat \<Rightarrow> HvStage2FaultInfo \<Rightarrow> HypExceptState \<Rightarrow> machine \<Rightarrow> (int \<times> HypExceptState \<times> machine) option" where
  "guest_abort_mmio vcpu fault f s = do {
     s \<leftarrow> log_stage2_fault fault ''mmio'' s;
     (res, f, s) \<leftarrow> hv_mmio_handle_fault (sch_vm (scheduler s)) (deref (Some vcpu) s) f fault s;
     if res = HV_MMIO_OK then Some (HYP_ACTION_RETURN, advance_trapped_guest_instr f, s)
     else do {
       s \<leftarrow> log_stage2_fault fault ''mmio-unhandled'' s;
       stop_current_guest_vcpu vcpu f s } }"

definition guest_abort_in_vm ::
    "nat \<Rightarrow> nat \<Rightarrow> HvStage2FaultInfo \<Rightarrow> HypExceptState \<Rightarrow> machine \<Rightarrow> (int \<times> HypExceptState \<times> machine) option" where
  "guest_abort_in_vm vcpu vm fault f s =
     (case hv_vm_find_region (Some (sch_vm (scheduler s) ! vm)) (fault_ipa fault) of
        None \<Rightarrow> do {
          s \<leftarrow> log_stage2_fault fault ''unexpected-unmapped'' s;
          stop_current_guest_vcpu vcpu f s }
      | Some region \<Rightarrow>
          if region_type region = HV_VM_REGION_RAM_GUARD then do {
            s \<leftarrow> log_stage2_fault fault ''ram-guard-exit'' s;
            stop_current_guest_vcpu vcpu f s }
          else if region_type region = HV_VM_REGION_MMIO then guest_abort_mmio vcpu fault f s
          else (case hv_stage2_translate (Some (sch_vm (scheduler s) ! vm)) (fault_ipa fault) True
                       (stage2_tables s) of
              Inl e \<Rightarrow> do {
                s \<leftarrow> log_stage2_fault fault ''valid-ram-unmapped'' s;
                stop_current_guest_vcpu vcpu f s }
            | Inr pa \<Rightarrow> do {
                s \<leftarrow> log_stage2_fault fault ''unexpected-mapped-ram'' s;
                stop_current_guest_vcpu vcpu f s }))"

definition handle_guest_abort ::
    "HypExceptState \<Rightarrow> machine \<Rightarrow> (int \<times> HypExceptState \<times> machine) option" where
  "handle_guest_abort f s = do {
     let vcpu = hv_scheduler_get_current s;
     s \<leftarrow> log_guest_abort f s;
     case vcpu of
       None \<Rightarrow> Some (HYP_ACTION_HALT, f, s)
     | Some c \<Rightarrow>
         if hv_scheduler_is_idle_vcpu (deref vcpu s) then Some (HYP_ACTION_HALT, f, s)
         else let fault = decode_stage2_fault (sch_vm (scheduler s)) (deref vcpu s) f in
           (case vcpu_vm (vcpu_at c s) of
              None \<Rightarrow> do {
                s \<leftarrow> log_stage2_fault fault ''no-vm'' s;
                Some (HYP_ACTION_HALT, f, s) }
            | Some vm \<Rightarrow> guest_abort_in_vm c vm fault f s) }"

subsection \<open>Synchronous exceptions\<close>

text \<open>The last lines of the handlers of the hypervisor's own faults: say what, check the syndrome, stop.\<close>

definition fatal_exception ::
    "string \<Rightarrow> string \<Rightarrow> u32 \<Rightarrow> HypExceptState \<Rightarrow> machine \<Rightarrow> (int \<times> HypExceptState \<times> machine) option" where
  "fatal_exception func msg t f s = do {
     s \<leftarrow> hyp_dump_unexpected_exception_state f s;
     s \<leftarrow> trace func (msg @ nl) [] s;
     s \<leftarrow> hv_assert (hsr_ec_valid (frame_hsr f) (uint t)) s;
     Some (HYP_ACTION_HALT, f, s) }"

definition handle_undef_instr :: "HypExceptState \<Rightarrow> machine \<Rightarrow> (int \<times> HypExceptState \<times> machine) option" where
  "handle_undef_instr = fatal_exception ''handle_undef_instr'' ''Undefined instruction in Hyp'' HYP_EXCEPTION_UNDEF_INSTR"

definition handle_unknown :: "HypExceptState \<Rightarrow> machine \<Rightarrow> (int \<times> HypExceptState \<times> machine) option" where
  "handle_unknown = fatal_exception ''handle_unknown'' ''Unknown exception in Hyp'' HYP_EXCEPTION_UNKNOWN"

definition handle_prefetch_abort :: "HypExceptState \<Rightarrow> machine \<Rightarrow> (int \<times> HypExceptState \<times> machine) option" where
  "handle_prefetch_abort =
     fatal_exception ''handle_prefetch_abort'' ''Prefetch abort in Hyp'' HYP_EXCEPTION_PREFETCH_ABORT"

definition handle_data_abort :: "HypExceptState \<Rightarrow> machine \<Rightarrow> (int \<times> HypExceptState \<times> machine) option" where
  "handle_data_abort = fatal_exception ''handle_data_abort'' ''Data abort in Hyp'' HYP_EXCEPTION_DATA_ABORT"

definition handle_hvc_from_hyp :: "HypExceptState \<Rightarrow> machine \<Rightarrow> (int \<times> HypExceptState \<times> machine) option" where
  "handle_hvc_from_hyp f s = do {
     s \<leftarrow> trace ''handle_hvc_from_hyp'' (''HVC from Hyp'' @ nl) [] s;
     s \<leftarrow> hv_assert (hsr_ec_valid (frame_hsr f) (uint HYP_EXCEPTION_HVC_FROM_HYP)) s;
     Some (HYP_ACTION_RETURN, f, s) }"

definition handle_hvc_from_lower :: "HypExceptState \<Rightarrow> machine \<Rightarrow> (int \<times> HypExceptState \<times> machine) option" where
  "handle_hvc_from_lower f s = do {
     s \<leftarrow> hv_assert (HSR_EC (frame_hsr f) = HSR_EC_HVC_A32) s;
     s \<leftarrow> hv_assert (hsr_iss_imm16 (frame_hsr f) = HYPERCALL_HVC_IMM) s;
     hyp_handle_guest_hypercall f s }"

definition handle_lower_sync :: "HypExceptState \<Rightarrow> machine \<Rightarrow> (int \<times> HypExceptState \<times> machine) option" where
  "handle_lower_sync f s = do {
     s \<leftarrow> hv_assert (hsr_ec_valid (frame_hsr f) (uint HYP_EXCEPTION_LOWER_SYNC)) s;
     let ec = HSR_EC (frame_hsr f);
     if ec = HSR_EC_HVC_A32 then handle_hvc_from_lower f s
     else if ec = HSR_EC_WFI_WFE then
       if HSR_ISS (frame_hsr f) AND HSR_WFI_WFE_IS_WFE \<noteq> 0 then do {
         s \<leftarrow> hyp_dump_unexpected_exception_state f s;
         s \<leftarrow> trace ''handle_lower_sync'' (''Unhandled WFE trap in Hyp'' @ nl) [] s;
         Some (HYP_ACTION_HALT, f, s) }
       else hv_scheduler_handle_wfi f s
     else if ec = HSR_EC_PREFETCH_ABORT_LOWER \<or> ec = HSR_EC_DATA_ABORT_LOWER then handle_guest_abort f s
     else if ec = HSR_EC_CP15_MCR_MRC then do {
       s \<leftarrow> hyp_dump_unexpected_exception_state f s;
       s \<leftarrow> trace ''handle_lower_sync'' (''Unhandled guest CP15 trap: vcpu=%d iss=%p'' @ nl)
         [PInt (case hv_scheduler_get_current s of None \<Rightarrow> 0xffffffff | Some c \<Rightarrow> vcpu_id (vcpu_at c s)),
          PInt (HSR_ISS (frame_hsr f))] s;
       Some (HYP_ACTION_HALT, f, s) }
     else do {
       s \<leftarrow> hyp_dump_unexpected_exception_state f s;
       s \<leftarrow> trace ''handle_lower_sync'' (''Unhandled lower-level trap in Hyp'' @ nl) [] s;
       Some (HYP_ACTION_HALT, f, s) } }"

subsection \<open>Interrupts\<close>

definition handle_irq :: "HypExceptState \<Rightarrow> machine \<Rightarrow> (int \<times> HypExceptState \<times> machine) option" where
  "handle_irq f s =
     (let (pending, s) = GEN_TIM_irq_pending s in
      if pending then
        let s = GEN_TIM_ack s;
            s = s\<lparr>irq_counter := irq_counter s + 1\<rparr>
        in do {
          (action, f, s) \<leftarrow> hv_scheduler_advance f s;
          s \<leftarrow> GEN_TIM_rearm s;
          Some (action, f, s) }
      else let (raised, s) = TIM_Check_IRQ s in
      if raised then
        let s = TIM_Clear_Pending s;
            s = s\<lparr>irq_counter := irq_counter s + 1\<rparr>;
            (now, s) = TIM_SYS_Get_Ticks s
        in do {
          (delivered, s) \<leftarrow> deliver_expired_timers (ucast now) s;
          let s = hv_vtimer_rearm_physical s;
          if \<not> delivered then
            if hv_scheduler_is_idle_vcpu (deref (hv_scheduler_get_current s) s) then hv_scheduler_advance f s
            else Some (HYP_ACTION_RETURN, f, s)
          else
            let s = hv_virq_sync (deref (hv_scheduler_get_current s) s) s in
            if hv_scheduler_is_idle_vcpu (deref (hv_scheduler_get_current s) s) then hv_scheduler_advance f s
            else Some (HYP_ACTION_RETURN, f, s) }
      else do {
        s \<leftarrow> hyp_dump_unexpected_exception_state f s;
        s \<leftarrow> trace ''handle_irq'' (''Unexpected IRQ taken to Hyp'' @ nl) [] s;
        Some (HYP_ACTION_HALT, f, s) })"

definition handle_fiq :: "HypExceptState \<Rightarrow> machine \<Rightarrow> (int \<times> HypExceptState \<times> machine) option" where
  "handle_fiq f s = do {
     s \<leftarrow> hyp_dump_unexpected_exception_state f s;
     s \<leftarrow> trace ''handle_fiq'' (''Unexpected FIQ taken to Hyp'' @ nl) [] s;
     Some (HYP_ACTION_HALT, f, s) }"

definition hyp_handle_exception :: "HypExceptState \<Rightarrow> machine \<Rightarrow> (int \<times> HypExceptState \<times> machine) option" where
  "hyp_handle_exception f s = do {
     s \<leftarrow> (if hyp_except_verbose s then hyp_dump_exception_state f s else Some s);
     let t = frame_exception_type f;
     if t = HYP_EXCEPTION_UNDEF_INSTR then handle_undef_instr f s
     else if t = HYP_EXCEPTION_UNKNOWN then handle_unknown f s
     else if t = HYP_EXCEPTION_HVC_FROM_HYP then handle_hvc_from_hyp f s
     else if t = HYP_EXCEPTION_PREFETCH_ABORT then handle_prefetch_abort f s
     else if t = HYP_EXCEPTION_DATA_ABORT then handle_data_abort f s
     else if t = HYP_EXCEPTION_LOWER_SYNC then handle_lower_sync f s
     else if t = HYP_EXCEPTION_IRQ then handle_irq f s
     else if t = HYP_EXCEPTION_FIQ then handle_fiq f s
     else do {
       s \<leftarrow> (if \<not> hyp_except_verbose s then hyp_dump_exception_state f s else Some s);
       s \<leftarrow> trace ''hyp_handle_exception'' (''Unknown Hyp exception type'' @ nl) [] s;
       Some (HYP_ACTION_HALT, f, s) } }"

end
