(* ===== verification/Exceptions_Spec.thy ===== *)
theory Exceptions_Spec
  imports Exceptions
begin

section \<open>What the exception handlers promise\<close>

text \<open>
  Every exception a guest can cause is handled without touching the other guest, the VMs or the tables,
  and ends with a guest able to run or the machine stopped. An interrupt is transparent to the
  registers of both guests.
\<close>

subsection \<open>Output only\<close>

lemma trace_lines_io: "trace_lines func ls s = Some s' \<Longrightarrow> \<exists>t. io_out s s' t"
proof (induction ls arbitrary: s)
  case Nil
  then show ?case using io_out_refl by auto
next
  case (Cons l ls)
  then obtain s1 where "trace func (fst l) (snd l) s = Some s1" "trace_lines func ls s1 = Some s'"
    by (auto simp: bind_eq_Some_conv)
  then show ?case using Cons.IH trace_io_out io_out_trans by blast
qed

lemma io_step_refl: "\<exists>t. io_out s s t"
  using io_out_refl by blast

lemma io_step_trans: "\<exists>t. io_out s s1 t \<Longrightarrow> \<exists>t. io_out s1 s2 t \<Longrightarrow> \<exists>t. io_out s s2 t"
  using io_out_trans by blast

lemma io_step_two:
  assumes "do { s \<leftarrow> trace fn fmt args s; trace fn' fmt' args' s } = Some s'"
  shows "\<exists>t. io_out s s' t"
proof -
  obtain s1 where "trace fn fmt args s = Some s1" "trace fn' fmt' args' s1 = Some s'"
    using assms unfolding bind_eq_Some_conv by blast
  then show ?thesis by (intro io_step_trans [OF trace_io_out trace_io_out])
qed

lemma dump_io:
  "hyp_dump_exception_state f s = Some s' \<Longrightarrow> \<exists>t. io_out s s' t"
  "hyp_dump_unexpected_exception_state f s = Some s' \<Longrightarrow> \<exists>t. io_out s s' t"
  using trace_lines_io io_step_refl
  by (auto simp: hyp_dump_exception_state_def hyp_dump_unexpected_exception_state_def split: if_splits)

lemma log_fault_io: "log_stage2_fault fault route s = Some s' \<Longrightarrow> \<exists>t. io_out s s' t"
  using io_step_refl trace_io_out unfolding log_stage2_fault_def by (metis option.inject)

lemma log_abort_io:
  assumes "log_guest_abort f s = Some s'"
  shows "\<exists>t. io_out s s' t"
proof (cases "hyp_except_verbose s")
  case True
  then show ?thesis
    using assms unfolding log_guest_abort_def Let_def by (intro io_step_two) simp
next
  case False
  then show ?thesis using assms io_step_refl by (simp add: log_guest_abort_def)
qed

lemma fatal_spec:
  assumes "fatal_exception func msg t f s = Some (r, f', s')"
  shows "r = HYP_ACTION_HALT" "f' = f" "\<exists>t. io_out s s' t" "hsr_ec_valid (frame_hsr f) (uint t)"
proof -
  obtain s1 s2 s3 where 1: "hyp_dump_unexpected_exception_state f s = Some s1"
    and 2: "trace func (msg @ nl) [] s1 = Some s2"
    and 3: "hv_assert (hsr_ec_valid (frame_hsr f) (uint t)) s2 = Some s3" "(1, f, s3) = (r, f', s')"
    using assms unfolding fatal_exception_def bind_eq_Some_conv option.inject by blast
  have "s' = s2" "hsr_ec_valid (frame_hsr f) (uint t)" using 3 by (simp_all add: hv_assert_def split: if_splits)
  then show "\<exists>t. io_out s s' t" "hsr_ec_valid (frame_hsr f) (uint t)"
    using io_step_trans [OF dump_io(2) [OF 1] trace_io_out [OF 2]] by simp_all
  show "r = HYP_ACTION_HALT" "f' = f" using 3(2) by simp_all
qed

lemma halt_spec:
  assumes "do { s \<leftarrow> hyp_dump_unexpected_exception_state f s; s \<leftarrow> trace func fmt (args s) s;
       Some (HYP_ACTION_HALT, f, s) } = Some (r, f', s')"
  shows "r = HYP_ACTION_HALT" "f' = f" "\<exists>t. io_out s s' t"
proof -
  obtain s1 s2 where 1: "hyp_dump_unexpected_exception_state f s = Some s1"
    and 2: "trace func fmt (args s1) s1 = Some s2" "(1, f, s2) = (r, f', s')"
    using assms unfolding bind_eq_Some_conv option.inject by blast
  then show "\<exists>t. io_out s s' t"
    using io_step_trans [OF dump_io(2) [OF 1] trace_io_out [OF 2(1)]] by simp
  show "r = HYP_ACTION_HALT" "f' = f" using 2(2) by simp_all
qed


subsection \<open>Guest aborts\<close>

definition vms_ok :: "machine \<Rightarrow> bool" where
  "vms_ok s \<longleftrightarrow> (\<forall>i < HV_MAX_VMS. vm_id (sch_vm (scheduler s) ! i) = of_nat i)"

lemma bank_machine:
  fixes s s' :: machine
  assumes "bank_step c s s'"
  shows "own_step c s s'" "sched_run s' = sched_run s" "scheduler s' = scheduler s" "hw_in s' = hw_in s"
    "hyp_except_verbose s' = hyp_except_verbose s" "hv_scheduler_verbose s' = hv_scheduler_verbose s"
proof -
  obtain es u where s': "s' = s\<lparr>hw_log := hw_log s @ es, vuarts := (vuarts s)[c := u]\<rparr>"
    using assms by (auto simp: bank_step_def)
  have at: "vcpu_at j s' = vcpu_at j s" "cur_of s' = cur_of s" for j
    by (simp_all add: s' vcpu_at_def cur_of_def)
  then show "own_step c s s'"
    unfolding own_step_def by (simp add: s' sys_same_def nth_list_update)
  have "hw_for k s' = hw_for k s" for k
    unfolding hw_for_def at hcr_bit_def by (simp add: s' cong: option.case_cong)
  then show "sched_run s' = sched_run s" unfolding sched_run_def at by (simp add: s')
  show "scheduler s' = scheduler s" "hw_in s' = hw_in s" "hyp_except_verbose s' = hyp_except_verbose s"
    "hv_scheduler_verbose s' = hv_scheduler_verbose s" by (simp_all add: s')
qed

lemma frame_ok_trapped: "frame_ok (advance_trapped_guest_instr f) = frame_ok f"
  by (simp add: advance_trapped_guest_instr_def frame_ok_def Let_def)

lemma stop_eq: "stop_current_guest_vcpu (cur_of s) f s = hv_scheduler_advance f (exit_current s)"
  by (simp add: stop_current_guest_vcpu_def exit_current_def Let_def)

text \<open>Stopping the current guest after steps that do not change it.\<close>

lemma stop_handled:
  assumes "guest_call f s" "own_step (cur_of s) s s1" "sched_wf (scheduler s1)" "cur_of s1 = cur_of s"
    "stop_current_guest_vcpu (cur_of s) f s1 = Some (r, f', s')"
  shows "handled (cur_of s) f s r f' s'" "r = HYP_ACTION_RETURN" "cur_of s' \<noteq> cur_of s"
    "vcpu_state (vcpu_at (cur_of s) s') = HV_VCPU_EXITED"
    "\<not> tm_enabled (vcpu_timer (vcpu_at (cur_of s) s'))"
proof -
  note G = guest_callD [OF assms(1)]
  have a: "hv_scheduler_advance f (exit_current s1) = Some (r, f', s')"
    using assms(4,5) stop_eq [of s1 f] by simp
  note X = exit_current_spec [OF assms(3), unfolded assms(4), OF G(3)]
  show "handled (cur_of s) f s r f' s'" "r = HYP_ACTION_RETURN"
    by (rule advance_own [OF own_step_trans [OF assms(2) X(1)] X(2) G(4) a])+
  show "cur_of s' \<noteq> cur_of s" "vcpu_state (vcpu_at (cur_of s) s') = HV_VCPU_EXITED"
    "\<not> tm_enabled (vcpu_timer (vcpu_at (cur_of s) s'))"
    using advance_leaves [OF X(2) G(4) _ _ a] X(3,4) G(3) by (simp_all add: X(6))
qed

text \<open>What a guest abort can end in: the guest is stopped, or its device access was emulated.\<close>

definition stopped :: "HypExceptState \<Rightarrow> machine \<Rightarrow> int \<Rightarrow> HypExceptState \<Rightarrow> machine \<Rightarrow> bool" where
  "stopped f s r f' s' \<longleftrightarrow> handled (cur_of s) f s r f' s' \<and> r = HYP_ACTION_RETURN \<and> cur_of s' \<noteq> cur_of s \<and>
     vcpu_state (vcpu_at (cur_of s) s') = HV_VCPU_EXITED \<and> \<not> tm_enabled (vcpu_timer (vcpu_at (cur_of s) s'))"

lemma stop_io:
  assumes "guest_call f s" "\<exists>t. io_out s s1 t" "stop_current_guest_vcpu (cur_of s) f s1 = Some (r, f', s')"
  shows "stopped f s r f' s'"
proof -
  obtain t where io: "io_out s s1 t" using assms(2) ..
  have "sched_wf (scheduler s1)" "cur_of s1 = cur_of s"
    using guest_callD(2) [OF assms(1)] io_machine(1,9) [OF io] by simp_all
  from stop_handled [OF assms(1) own_step_io [OF io] this assms(3)] show ?thesis by (simp add: stopped_def)
qed

lemma log_stop:
  assumes "guest_call f s" "\<exists>t. io_out s s1 t"
    "do { s2 \<leftarrow> log_stage2_fault fault route s1; stop_current_guest_vcpu (cur_of s) f s2 } = Some (r, f', s')"
  shows "stopped f s r f' s'"
proof -
  obtain s2 where l: "log_stage2_fault fault route s1 = Some s2"
    and "stop_current_guest_vcpu (cur_of s) f s2 = Some (r, f', s')"
    using assms(3) unfolding bind_eq_Some_conv by blast
  then show ?thesis using stop_io [OF assms(1) io_step_trans [OF assms(2) log_fault_io [OF l]]] by blast
qed


definition emulated :: "HvStage2FaultInfo \<Rightarrow> HypExceptState \<Rightarrow> machine \<Rightarrow> int \<Rightarrow> HypExceptState \<Rightarrow> machine \<Rightarrow> bool" where
  "emulated fault f s r f' s' \<longleftrightarrow> handled (cur_of s) f s r f' s' \<and> r = HYP_ACTION_RETURN \<and> cur_of s' = cur_of s \<and>
     (\<exists>f1 s1. hv_mmio_handle_fault (sch_vm (scheduler s)) (Some (vcpu_at (cur_of s) s)) f fault s1 =
        Some (HV_MMIO_OK, f1, s') \<and> f' = advance_trapped_guest_instr f1 \<and> (\<exists>t. io_out s s1 t))"

lemma mmio_frame:
  assumes "hv_mmio_handle_fault vms (Some v) f fault s = Some (res, f', s')" "vcpu_vm v = Some i"
  shows "frame_ok f' = frame_ok f" "frame_elr_hyp f' = frame_elr_hyp f" "frame_hsr f' = frame_hsr f"
proof -
  note C = hv_mmio_handle_fault_cases [OF assms]
  have "f' = f \<or> (\<exists>w. (0, f') = mmio_write_guest_reg f (mmio_access_reg (fault_iss fault)) w)"
    using C(1,3,4) by blast
  then show "frame_ok f' = frame_ok f" "frame_elr_hyp f' = frame_elr_hyp f" "frame_hsr f' = frame_hsr f"
    using mmio_write_guest_reg_cases by (metis (mono_tags))+
qed

lemma mmio_abort:
  assumes "guest_call f s" "vms_ok s" "\<exists>t. io_out s s1 t"
    "guest_abort_mmio (cur_of s) fault f s1 = Some (r, f', s')"
  shows "stopped f s r f' s' \<or> emulated fault f s r f' s'"
proof -
  let ?c = "cur_of s"
  note G = guest_callD [OF assms(1)]
  obtain s2 res f2 s3 where l: "log_stage2_fault fault ''mmio'' s1 = Some s2"
    and h: "hv_mmio_handle_fault (sch_vm (scheduler s2)) (deref (Some ?c) s2) f fault s2 = Some (res, f2, s3)"
    and k: "(if res = HV_MMIO_OK then Some (HYP_ACTION_RETURN, advance_trapped_guest_instr f2, s3)
       else do { s4 \<leftarrow> log_stage2_fault fault ''mmio-unhandled'' s3; stop_current_guest_vcpu ?c f2 s4 }) = Some (r, f', s')"
    using assms(4) unfolding guest_abort_mmio_def bind_eq_Some_conv by (auto split del: if_split)
  have io: "\<exists>t. io_out s s2 t" by (rule io_step_trans [OF assms(3) log_fault_io [OF l]])
  then obtain t where io2: "io_out s s2 t" ..
  note m = io_machine [OF io2]
  have vm: "vcpu_vm (vcpu_at ?c s) = Some ?c" and id: "unat (vm_id (sch_vm (scheduler s) ! ?c)) = ?c"
    using sched_wfD(6) [OF G(2,3)] assms(2) G(3) unat_of_nat_small [of ?c]
    by (auto simp: vms_ok_def less_2_cases_iff)
  have h': "hv_mmio_handle_fault (sch_vm (scheduler s)) (Some (vcpu_at ?c s)) f fault s2 = Some (res, f2, s3)"
    using h m(1,8) by simp
  note C = hv_mmio_handle_fault_cases [OF h' vm, unfolded id]
  note F = mmio_frame [OF h' vm]
  show ?thesis
  proof (cases "res = HV_MMIO_OK")
    case True
    note B = bank_machine [OF C(2)]
    have own: "own_step ?c s s3" by (rule own_step_trans [OF own_step_io [OF io2] B(1)])
    have run: "sched_run s3" using B(2) m(11) G(1) by simp
    have e: "r = 0" "f' = advance_trapped_guest_instr f2" "s' = s3" using k True by simp_all
    have "handled ?c f s r f' s'"
      unfolding e(2,3) by (rule handled_return [OF own refl _ run]) (simp add: frame_ok_trapped F G(4))
    moreover have "cur_of s' = ?c" using own by (simp add: e own_step_def)
    ultimately show ?thesis using h' True io e unfolding emulated_def by blast
  next
    case False
    then have "f2 = f" "\<exists>t. io_out s2 s3 t" using C(3) by blast+
    then show ?thesis using k False log_stop [OF assms(1) io_step_trans [OF io]] by simp
  qed
qed

lemma guest_abort_region:
  assumes "guest_call f s" "vms_ok s" "\<exists>t. io_out s s1 t"
    "guest_abort_in_vm (cur_of s) (cur_of s) fault f s1 = Some (r, f', s')"
  shows "stopped f s r f' s' \<or> emulated fault f s r f' s' \<and>
    (\<exists>region. hv_vm_find_region (Some (sch_vm (scheduler s) ! cur_of s)) (fault_ipa fault) = Some region \<and>
       region_type region = HV_VM_REGION_MMIO)"
proof -
  have sc: "scheduler s1 = scheduler s" using assms(3) io_machine(1) by blast
  note L = log_stop [OF assms(1,3)]
  show ?thesis
  proof (cases "hv_vm_find_region (Some (sch_vm (scheduler s) ! cur_of s)) (fault_ipa fault)")
    case None
    then show ?thesis using assms(4) L unfolding guest_abort_in_vm_def sc by simp
  next
    case (Some region)
    consider "region_type region = HV_VM_REGION_RAM_GUARD" | "region_type region = HV_VM_REGION_MMIO"
      | "region_type region \<noteq> HV_VM_REGION_RAM_GUARD" "region_type region \<noteq> HV_VM_REGION_MMIO" by blast
    then show ?thesis
    proof cases
      case 1
      then show ?thesis using assms(4) L Some unfolding guest_abort_in_vm_def sc by simp
    next
      case 2
      then have "guest_abort_mmio (cur_of s) fault f s1 = Some (r, f', s')"
        using assms(4) Some unfolding guest_abort_in_vm_def sc by simp
      then show ?thesis using mmio_abort [OF assms(1-3)] Some 2 by blast
    next
      case 3
      then show ?thesis using assms(4) L Some unfolding guest_abort_in_vm_def sc
        by (simp split: sum.splits)
    qed
  qed
qed

lemma guest_abort_spec:
  assumes "guest_call f s" "vms_ok s" "handle_guest_abort f s = Some (r, f', s')"
  defines "fault \<equiv> decode_stage2_fault (sch_vm (scheduler s)) (Some (vcpu_at (cur_of s) s)) f"
  shows "stopped f s r f' s' \<or> emulated fault f s r f' s' \<and>
    (\<exists>region. hv_vm_find_region (Some (sch_vm (scheduler s) ! cur_of s)) (fault_ipa fault) = Some region \<and>
       region_type region = HV_VM_REGION_MMIO)"
proof -
  note G = guest_callD [OF assms(1)]
  have vm: "vcpu_vm (vcpu_at (cur_of s) s) = Some (cur_of s)" by (rule sched_wfD(6) [OF G(2,3)])
  obtain s1 where l: "log_guest_abort f s = Some s1"
    using assms(3) unfolding handle_guest_abort_def Let_def bind_eq_Some_conv by blast
  note io = log_abort_io [OF l]
  then obtain t where "io_out s s1 t" ..
  note m = io_machine(1,8) [OF this]
  have "guest_abort_in_vm (cur_of s) (cur_of s) fault f s1 = Some (r, f', s')"
    using assms(3) G(5,6) vm unfolding handle_guest_abort_def fault_def by (simp add: l m)
  from guest_abort_region [OF assms(1,2) io this] show ?thesis .
qed


subsection \<open>Synchronous exceptions of a guest\<close>

lemma halt_handled:
  assumes "guest_call f s" "\<exists>t. io_out s s' t"
  shows "handled (cur_of s) f s r f s'"
  using handled_io guest_callD(1,4) [OF assms(1)] assms(2) by blast

text \<open>The synchronous exceptions that leave a guest able to run.\<close>

definition benign_sync :: "HypExceptState \<Rightarrow> bool" where
  "benign_sync f \<longleftrightarrow>
     (let ec = HSR_EC (frame_hsr f)
      in ec = HSR_EC_HVC_A32 \<and> known_hypercall (reg f 0) \<or>
         ec = HSR_EC_WFI_WFE \<and> HSR_ISS (frame_hsr f) AND HSR_WFI_WFE_IS_WFE = 0 \<or>
         ec = HSR_EC_PREFETCH_ABORT_LOWER \<or> ec = HSR_EC_DATA_ABORT_LOWER)"

lemma wfi_handled:
  assumes "sched_run s" "frame_ok f" "hv_scheduler_handle_wfi f s = Some (r, f', s')"
  shows "handled (cur_of s) f s r f' s'" "r = HYP_ACTION_RETURN"
proof -
  have wf: "sched_wf (scheduler s)" using assms(1) by (simp add: sched_run_def)
  have c: "cur_of s < 3" by (rule sched_wfD(3) [OF wf])
  have st: "vcpu_state (vcpu_at (cur_of s) s) = HV_VCPU_RUNNING" "hw_novi (cur_of s) s"
    using assms(1) by (simp_all add: sched_run_def hw_for_iff)
  have "handled (cur_of s) f s r f' s' \<and> r = HYP_ACTION_RETURN"
  proof (cases "cur_of s = 2")
    case True
    note P = wfi_idle [OF assms(1) True assms(2,3)]
    have "hv_scheduler_is_idle_vcpu (Some (vcpu_at 2 s))" using is_idle_vcpu_at [OF wf, of 2] by simp
    then have "hv_scheduler_enter_idle f s = Some (r, f', s')"
      using assms(3) True sched_wfD(4) [OF wf] by (simp add: hv_scheduler_handle_wfi_def deref_def Let_def)
    from sched_handled(1,6) [OF P(1) enter_idle_switched [OF wf assms(2) this]] show ?thesis by blast
  next
    case False
    then have g: "cur_of s < 2" using c by linarith
    note W = wfi_guest [OF assms(1) g assms(2,3)]
    let ?f = "hv_scheduler_advance_trapped_wfi f"
    show ?thesis
    proof (cases "virq_pending (vcpu_at (cur_of s) s) = 0")
      case True
      let ?s1 = "upd_vcpu (cur_of s) (vcpu_state_update (\<lambda>_. HV_VCPU_BLOCKED)) s"
      have P: "sched_post s (advance_target ?s1) r f' s'" and S: "switched ?f (advance_target ?s1) ?s1 f' s'"
        using W(2) [OF True] by (simp_all add: Let_def)
      have len: "cur_of s < length (sch_vcpus (scheduler s))" by (rule own_len [OF wf])
      have "sched_post ?s1 (advance_target ?s1) r f' s'"
        using P len by (auto simp: sched_post_def) (simp add: env_same_def upd_vcpu_def)
      from handled_own [OF sched_handled(1) [OF this S] own_step_upd [OF len] refl] P show ?thesis
        by (simp add: sched_post_def)
    next
      case np: False
      then have r: "r = 0" and e: "f' = ?f" and s': "s' = hv_virq_sync (Some (vcpu_at (cur_of s) s)) s"
        using assms(3) sched_wfD(4) [OF wf] is_idle_vcpu_at [OF wf c] False
        by (auto simp: hv_scheduler_handle_wfi_def deref_def Let_def)
      have "handled (cur_of s) f s r f' s'" unfolding e s'
        by (rule handled_return [OF own_step_sync refl _ virq_sync_machine(1) [OF wf st]])
           (simp add: frame_ok_wfi assms(2))
      with r show ?thesis by simp
    qed
  qed
  then show "handled (cur_of s) f s r f' s'" "r = HYP_ACTION_RETURN" by blast+
qed

lemma hvc_lower:
  assumes "handle_hvc_from_lower f s = Some (r, f', s')"
  shows "hsr_iss_imm16 (frame_hsr f) = HYPERCALL_HVC_IMM" "hyp_handle_guest_hypercall f s = Some (r, f', s')"
  using assms by (auto simp: handle_hvc_from_lower_def hv_assert_def bind_eq_Some_conv split: if_splits)

lemma lower_sync_handled:
  assumes "guest_call f s" "vms_ok s" "handle_lower_sync f s = Some (r, f', s')"
  shows "handled (cur_of s) f s r f' s' \<and> r = (if benign_sync f then HYP_ACTION_RETURN else HYP_ACTION_HALT)"
proof -
  note G = guest_callD [OF assms(1)]
  let ?ec = "HSR_EC (frame_hsr f)"
  have v: "hsr_ec_valid (frame_hsr f) (uint HYP_EXCEPTION_LOWER_SYNC)"
    using assms(3) by (auto simp: handle_lower_sync_def hv_assert_def split: if_splits)
  note run = assms(3) [unfolded handle_lower_sync_def hv_assert_def, simplified v not_True_eq_False if_False
    Option.bind.bind_lunit Let_def]
  consider (hvc) "?ec = HSR_EC_HVC_A32" | (wfe) "?ec = HSR_EC_WFI_WFE" "HSR_ISS (frame_hsr f) AND HSR_WFI_WFE_IS_WFE \<noteq> 0"
    | (wfi) "?ec = HSR_EC_WFI_WFE" "HSR_ISS (frame_hsr f) AND HSR_WFI_WFE_IS_WFE = 0"
    | (abort) "?ec = HSR_EC_PREFETCH_ABORT_LOWER \<or> ?ec = HSR_EC_DATA_ABORT_LOWER"
    | (cp15) "?ec = HSR_EC_CP15_MCR_MRC"
    | (other) "?ec \<notin> {HSR_EC_HVC_A32, HSR_EC_WFI_WFE, HSR_EC_PREFETCH_ABORT_LOWER, HSR_EC_DATA_ABORT_LOWER,
        HSR_EC_CP15_MCR_MRC}" by blast
  then show ?thesis
  proof cases
    case hvc
    then have "handle_hvc_from_lower f s = Some (r, f', s')" using run by simp
    then have "hyp_handle_guest_hypercall f s = Some (r, f', s')" by (rule hvc_lower)
    from hypercall_handled [OF assms(1) this] hvc show ?thesis by (auto simp: benign_sync_def)
  next
    case wfe
    note h = halt_spec [OF run [unfolded wfe(1), simplified wfe(2) if_True, simplified]]
    show ?thesis using halt_handled [OF assms(1) h(3)] h(1,2) wfe by (simp add: benign_sync_def)
  next
    case wfi
    then have "hv_scheduler_handle_wfi f s = Some (r, f', s')" using run by simp
    from wfi_handled [OF G(1,4) this] wfi show ?thesis by (auto simp: benign_sync_def)
  next
    case abort
    then have "handle_guest_abort f s = Some (r, f', s')" using run by auto
    from guest_abort_spec [OF assms(1,2) this] abort show ?thesis
      by (auto simp: benign_sync_def stopped_def emulated_def)
  next
    case cp15
    note h = halt_spec [OF run [unfolded cp15, simplified]]
    show ?thesis using halt_handled [OF assms(1) h(3)] h(1,2) cp15 by (simp add: benign_sync_def)
  next
    case other
    have "do { s \<leftarrow> hyp_dump_unexpected_exception_state f s;
       s \<leftarrow> trace ''handle_lower_sync'' (''Unhandled lower-level trap in Hyp'' @ nl) [] s;
       Some (HYP_ACTION_HALT, f, s) } = Some (r, f', s')" using run other by simp
    note h = halt_spec [OF this]
    show ?thesis using halt_handled [OF assms(1) h(3)] h(1,2) other by (simp add: benign_sync_def)
  qed
qed


lemma guest_call_io:
  assumes "guest_call f s" "io_out s s' t"
  shows "guest_call f s'"
  using assms(1) io_machine(9,11) [OF assms(2)] by (simp add: guest_call_def)

lemma exception_entry:
  assumes "hyp_handle_exception f s = Some (r, f', s')"
  obtains s1 t where "io_out s s1 t" "frame_exception_type f = HYP_EXCEPTION_LOWER_SYNC \<Longrightarrow> handle_lower_sync f s1 = Some (r, f', s')"
    "frame_exception_type f = HYP_EXCEPTION_IRQ \<Longrightarrow> handle_irq f s1 = Some (r, f', s')"
proof -
  obtain s1 where d: "(if hyp_except_verbose s then hyp_dump_exception_state f s else Some s) = Some s1"
    using assms unfolding hyp_handle_exception_def bind_eq_Some_conv by blast
  have "\<exists>t. io_out s s1 t"
    using d dump_io(1) io_step_refl by (cases "hyp_except_verbose s") auto
  then obtain t where io: "io_out s s1 t" ..
  have "frame_exception_type f = HYP_EXCEPTION_LOWER_SYNC \<Longrightarrow> handle_lower_sync f s1 = Some (r, f', s')"
    "frame_exception_type f = HYP_EXCEPTION_IRQ \<Longrightarrow> handle_irq f s1 = Some (r, f', s')"
    using assms unfolding hyp_handle_exception_def d Option.bind.bind_lunit Let_def by simp_all
  from that [OF io this] show thesis .
qed

lemma guest_exception_handled:
  assumes "guest_call f s" "vms_ok s" "frame_exception_type f = HYP_EXCEPTION_LOWER_SYNC"
    "hyp_handle_exception f s = Some (r, f', s')"
  shows "handled (cur_of s) f s r f' s' \<and> r = (if benign_sync f then HYP_ACTION_RETURN else HYP_ACTION_HALT)"
proof -
  obtain s1 t where io: "io_out s s1 t" and h: "handle_lower_sync f s1 = Some (r, f', s')"
    using exception_entry [OF assms(4)] assms(3) by metis
  note m = io_machine(1,9) [OF io]
  have "vms_ok s1" using assms(2) by (simp add: vms_ok_def m)
  from lower_sync_handled [OF guest_call_io [OF assms(1) io] this h] m(2)
  show ?thesis using handled_own [OF _ own_step_io [OF io]] by auto
qed

text \<open>C6: no guest can harm the other through a synchronous exception. Whatever the guest does
  (hypercalls, waits, aborts, trapped instructions) and whatever its syndrome registers say, if the
  handler comes back it stops the machine exactly for the traps it does not handle, and otherwise
  leaves a state a guest can run in; the tables and VMs are as before, and so are the other guest's
  registers, virtual interrupts, timer and device.\<close>

theorem guest_exception_contained:
  assumes "guest_call f s" and "vms_ok s" and "frame_exception_type f = HYP_EXCEPTION_LOWER_SYNC"
    and "hyp_handle_exception f s = Some (r, f', s')"
  shows "r = (if benign_sync f then HYP_ACTION_RETURN else HYP_ACTION_HALT) \<and>
    (r = HYP_ACTION_RETURN \<longrightarrow> sched_run s' \<and> frame_ok f') \<and>
    stage2_tables s' = stage2_tables s \<and> sch_vm (scheduler s') = sch_vm (scheduler s) \<and>
    (\<forall>j < HV_MAX_GUEST_VCPUS. j \<noteq> cur_of s \<longrightarrow> guest_regs j f' s' = guest_regs j f s \<and>
       guest_virqs j s' = guest_virqs j s \<and> vuarts s' ! j = vuarts s ! j)"
  using guest_exception_handled [OF assms] unfolding handled_def sys_same_def by blast

text \<open>C24: a stage-2 fault has one of two ends. In a device region it may be emulated: the guest goes on
  after the instruction. Otherwise, in guard pages, RAM or outside every region, the guest that caused
  it exits with its timer off, and another vCPU runs; the hypervisor itself never stops for it.\<close>

theorem guest_abort_correct:
  assumes "guest_call f s" and "vms_ok s" and "handle_guest_abort f s = Some (r, f', s')"
  shows "r = HYP_ACTION_RETURN \<and> sched_run s' \<and>
    (let ipa = fault_ipa (decode_stage2_fault (sch_vm (scheduler s)) (Some (vcpu_at (cur_of s) s)) f);
         v' = vcpu_at (cur_of s) s' in
     vcpu_state v' = HV_VCPU_EXITED \<and> \<not> tm_enabled (vcpu_timer v') \<and> cur_of s' \<noteq> cur_of s \<or>
     (\<exists>region. hv_vm_find_region (Some (sch_vm (scheduler s) ! cur_of s)) ipa = Some region \<and>
        region_type region = HV_VM_REGION_MMIO) \<and> cur_of s' = cur_of s \<and>
     frame_elr_hyp f' = frame_elr_hyp f + (if HSR_IL (frame_hsr f) \<noteq> 0 then 4 else 2))"
proof -
  note A = guest_abort_spec [OF assms]
  have vm: "vcpu_vm (vcpu_at (cur_of s) s) = Some (cur_of s)"
    by (rule sched_wfD(6) [OF guest_callD(2,3) [OF assms(1)]])
  have "frame_elr_hyp f' = frame_elr_hyp f + (if HSR_IL (frame_hsr f) \<noteq> 0 then 4 else 2)"
    if em: "emulated fault f s r f' s'" for fault
  proof -
    obtain f1 s1 where h: "hv_mmio_handle_fault (sch_vm (scheduler s)) (Some (vcpu_at (cur_of s) s)) f fault s1 =
        Some (HV_MMIO_OK, f1, s')" and f': "f' = advance_trapped_guest_instr f1"
      using em unfolding emulated_def by blast
    show ?thesis by (simp add: f' mmio_frame(2,3) [OF h vm] advance_trapped_guest_instr_def Let_def)
  qed
  then show ?thesis using A unfolding Let_def stopped_def emulated_def handled_def by blast
qed

text \<open>A data abort of guest 0 of the example machine, whose VMs have no regions.\<close>

definition abort_frame :: HypExceptState where
  "abort_frame = zero_HypExceptState\<lparr>frame_hsr := 0x90000000, frame_exception_type := HYP_EXCEPTION_LOWER_SYNC\<rparr>"

definition running_machine2 :: machine where
  "running_machine2 = running_machine\<lparr>scheduler := (scheduler running_machine)
     \<lparr>sch_vm := [zero_HvVm, zero_HvVm\<lparr>vm_id := 1\<rparr>]\<rparr>\<rparr>"

lemma running2: "guest_call abort_frame running_machine2" "vms_ok running_machine2" "returns_ok running_machine2"
  "cur_of running_machine2 = 0" "\<not> hyp_except_verbose running_machine2"
  "cur_vcpu (scheduler running_machine2) = Some 0" "vcpu_vm (vcpu_at 0 running_machine2) = Some 0"
  "sch_vm (scheduler running_machine2) ! 0 = zero_HvVm"
proof -
  have at: "vcpu_at i running_machine2 = vcpu_at i running_machine" "cur_of running_machine2 = cur_of running_machine" for i
    by (simp_all add: running_machine2_def vcpu_at_def cur_of_def)
  have vms: "length (sch_vm (scheduler running_machine2)) = 2" "sch_vcpus (scheduler running_machine2) = sch_vcpus (scheduler running_machine)"
    "cur_idx (scheduler running_machine2) = cur_idx (scheduler running_machine)"
    "cur_vcpu (scheduler running_machine2) = cur_vcpu (scheduler running_machine)"
    "sch_vm (scheduler running_machine2) ! 0 = zero_HvVm"
    by (simp_all add: running_machine2_def)
  have wf: "sched_wf (scheduler running_machine2)"
    using running_machine_ok(3) vms by (simp add: sched_wf_def)
  have "sch_vm (scheduler running_machine) ! 0 = zero_HvVm" by (simp add: running_machine_def)
  then have "hw_for 0 running_machine2"
    using running_machine_ok(1) vms(5) unfolding sched_run_def hw_for_def at hcr_bit_def
    by (simp add: running_machine2_def)
  moreover have "frame_ok abort_frame" by (simp add: abort_frame_def zero_HypExceptState_def frame_ok_def)
  ultimately show "guest_call abort_frame running_machine2"
    using wf by (simp add: guest_call_def sched_run_def at)
  show "vms_ok running_machine2" by (simp add: vms_ok_def running_machine2_def less_2_cases_iff zero_HvVm_def)
  show "returns_ok running_machine2" "\<not> hyp_except_verbose running_machine2"
    by (simp_all add: returns_ok_def running_machine2_def running_machine_def reset_machine_def vuart_hw.defs)
  show "cur_of running_machine2 = 0" "cur_vcpu (scheduler running_machine2) = Some 0"
    "vcpu_vm (vcpu_at 0 running_machine2) = Some 0" "sch_vm (scheduler running_machine2) ! 0 = zero_HvVm"
    using vms running_machine_ok(4) by (simp_all add: at)
qed

lemma zero_vm_find: "hv_vm_find_region (Some zero_HvVm) a = None"
  by (simp add: hv_vm_find_region_def active_regions_def zero_HvVm_def)

lemma running2_abort: "\<exists>r f' s'. handle_guest_abort abort_frame running_machine2 = Some (r, f', s')"
proof -
  note R = running2
  note G = guest_callD [OF R(1)]
  have "handle_guest_abort abort_frame running_machine2 = stop_current_guest_vcpu 0 abort_frame running_machine2"
    using R(5,7,8) G(5,6) unfolding R(4)
    by (simp add: handle_guest_abort_def log_guest_abort_def guest_abort_in_vm_def log_stage2_fault_def
        zero_vm_find Let_def)
  also have "\<dots> = hv_scheduler_advance abort_frame (exit_current running_machine2)"
    using stop_eq [of running_machine2 abort_frame] by (simp add: R(4))
  finally show ?thesis
    using advance_returns [OF sched_wfD(4) [OF exit_current_spec(2) [OF G(2,3)]], of abort_frame]
      exit_current_spec(7,8) [OF G(2,3)] R(3) uart_live_in [of "exit_current running_machine2" running_machine2]
    by (auto simp: returns_ok_def)
qed

theorem guest_abort_correct_witness:
  "\<exists>r f' s'. handle_guest_abort abort_frame running_machine2 = Some (r, f', s') \<and> sched_run s'"
proof -
  obtain r f' s' where h: "handle_guest_abort abort_frame running_machine2 = Some (r, f', s')"
    using running2_abort by blast
  from guest_abort_correct [OF running2(1,2) h] h show ?thesis by blast
qed

theorem guest_exception_contained_witness:
  "\<exists>f' s'. hyp_handle_exception abort_frame running_machine2 = Some (HYP_ACTION_RETURN, f', s') \<and>
     sched_run s' \<and> guest_regs 1 f' s' = guest_regs 1 abort_frame running_machine2"
proof -
  obtain r f' s' where h: "handle_guest_abort abort_frame running_machine2 = Some (r, f', s')"
    using running2_abort by blast
  have t: "frame_exception_type abort_frame = 5" "HSR_EC (frame_hsr abort_frame) = 0x24"
    by (simp_all add: abort_frame_def HSR_EC_def)
  have v: "hsr_ec_valid (frame_hsr abort_frame) 5"
    by (simp add: hsr_ec_valid_def t(2) valid_hsr_ec_def EC_BIT_def)
  have e: "hyp_handle_exception abort_frame running_machine2 = Some (r, f', s')"
    using h by (simp add: hyp_handle_exception_def t running2(5) handle_lower_sync_def v)
  have "benign_sync abort_frame" by (simp add: benign_sync_def t(2))
  with guest_exception_contained [OF running2(1,2) t(1) e] e running2(4) show ?thesis by auto
qed

end
