(* ===== verification/Irq_Spec.thy ===== *)
theory Irq_Spec
  imports Exceptions_Spec
begin

section \<open>Interrupts taken to the hypervisor\<close>

text \<open>
  What \<open>handle_irq\<close> does with the virtual timers, and that it is transparent: the guests' registers are
  the same before and after, and a guest can run again.
\<close>

subsection \<open>One virtual timer\<close>

definition fires :: "u64 \<Rightarrow> HvVcpu \<Rightarrow> bool" where
  "fires now v \<longleftrightarrow> timer_counts v \<and> tm_deadline (vcpu_timer v) \<le> now"

text \<open>The line is raised (unless it is pending or active already), and the deadline moves on.\<close>

definition raised_vcpu :: "HvVcpu \<Rightarrow> HvVcpu" where
  "raised_vcpu v =
     (if bit (virq_pending v) 0 \<or> bit (virq_active v) 0 then v
      else let w = v\<lparr>virq_pending := virq_pending v OR 1\<rparr>
        in if vcpu_state v = HV_VCPU_BLOCKED then w\<lparr>vcpu_state := HV_VCPU_RUNNABLE\<rparr> else w)"

lemma raise_timer:
  "hv_virq_raise (Some v) VIRQ_TIMER =
     (if bit (virq_pending v) 0 \<or> bit (virq_active v) 0 then HV_VIRQ_ERR_BUSY else 0, Some (raised_vcpu v))"
  by (simp add: hv_virq_raise_Some raised_vcpu_def hv_vcpu_wake_def Let_def)

lemma raised_fields:
  "same_vcpu v (raised_vcpu v)" "vcpu_timer (raised_vcpu v) = vcpu_timer v"
  "virq_active (raised_vcpu v) = virq_active v"
  "virq_pending (raised_vcpu v) = (if bit (virq_active v) 0 then virq_pending v else virq_pending v OR 1)"
  "vcpu_state (raised_vcpu v) = (if vcpu_state v = HV_VCPU_BLOCKED \<and> \<not> bit (virq_pending v) 0 \<and>
      \<not> bit (virq_active v) 0 then HV_VCPU_RUNNABLE else vcpu_state v)"
proof -
  have "virq_pending v OR 1 = virq_pending v" if "bit (virq_pending v) 0"
    using that by (intro bit_word_eqI) (auto simp: bit_simps)
  then show "virq_pending (raised_vcpu v) = (if bit (virq_active v) 0 then virq_pending v else virq_pending v OR 1)"
    by (auto simp: raised_vcpu_def Let_def)
qed (auto simp: raised_vcpu_def same_vcpu_def Let_def)

lemma advance_fields:
  assumes "hv_vcpu_timer_advance (Some v) now = Some vp"
  obtains w where "vp = Some w" "same_vcpu v w" "vcpu_state w = vcpu_state v"
    "virq_pending w = virq_pending v" "virq_active w = virq_active v"
    "tm_enabled (vcpu_timer w) \<Longrightarrow> tm_enabled (vcpu_timer v) \<and> now < tm_deadline (vcpu_timer w)"
  using assms
  by (auto simp: hv_vcpu_timer_advance_def hv_vcpu_timer_disable_def same_vcpu_def
      dest: timer_advance_loop_gt split: if_splits)

definition ticked :: "u64 \<Rightarrow> HvVcpu \<Rightarrow> HvVcpu \<Rightarrow> bool" where
  "ticked now v w \<longleftrightarrow> same_vcpu v w \<and> virq_active w = virq_active v \<and>
     (if fires now v
      then virq_pending w = virq_pending (raised_vcpu v) \<and> vcpu_state w = vcpu_state (raised_vcpu v) \<and>
        (tm_enabled (vcpu_timer w) \<longrightarrow> now < tm_deadline (vcpu_timer w))
      else w = v)"

lemma deliver_timer_spec:
  assumes len: "i < length (sch_vcpus (scheduler s))"
    and run: "deliver_timer now i (d, s) = Some (d', s')"
  obtains w where "ticked now (vcpu_at i s) w" "s' = upd_vcpu i (\<lambda>_. w) s" "d' = (d \<or> fires now (vcpu_at i s))"
proof -
  let ?v = "vcpu_at i s"
  have skip: "vcpu_state ?v = HV_VCPU_IDLE \<or> vcpu_state ?v = HV_VCPU_EXITED \<or>
      \<not> hv_vcpu_timer_expired (Some ?v) now \<longleftrightarrow> \<not> fires now ?v"
    by (auto simp: fires_def timer_counts_def hv_vcpu_timer_expired_def)
  show thesis
  proof (cases "fires now ?v")
    case False
    then have "d' = d" "s' = s" using run skip by (simp_all add: deliver_timer_def)
    moreover have "upd_vcpu i (\<lambda>_. ?v) s = s" using len by (simp add: upd_vcpu_def vcpu_at_def)
    ultimately show ?thesis using that [of ?v] False by (simp add: ticked_def)
  next
    case True
    let ?s1 = "upd_vcpu i (\<lambda>_. raised_vcpu ?v) s"
    have at1: "vcpu_at i ?s1 = raised_vcpu ?v" using len by simp
    have "do { v \<leftarrow> hv_vcpu_timer_advance (Some (raised_vcpu ?v)) now; Some (True, store (Some i) v ?s1) } = Some (d', s')"
      using run skip True unfolding deliver_timer_def
      by (simp add: raise_timer Let_def at1 split: if_splits)
    then obtain vp where a: "hv_vcpu_timer_advance (Some (raised_vcpu ?v)) now = Some vp"
      and e: "d' = True" "s' = store (Some i) vp ?s1" unfolding bind_eq_Some_conv by blast
    obtain w where w: "vp = Some w" "same_vcpu (raised_vcpu ?v) w" "vcpu_state w = vcpu_state (raised_vcpu ?v)"
      "virq_pending w = virq_pending (raised_vcpu ?v)" "virq_active w = virq_active (raised_vcpu ?v)"
      and t: "tm_enabled (vcpu_timer w) \<longrightarrow> now < tm_deadline (vcpu_timer w)"
      by (rule advance_fields [OF a]) blast
    have "s' = upd_vcpu i (\<lambda>_. w) s" using e(2) w(1) by (simp add: upd_vcpu_def)
    moreover have "same_vcpu ?v w" using w(2) raised_fields(1) [of ?v] by (simp add: same_vcpu_def)
    then have "ticked now ?v w" using True w t raised_fields(3) by (simp add: ticked_def)
    ultimately show ?thesis using that e(1) True by simp
  qed
qed


lemma deliver_spec:
  assumes len: "length (sch_vcpus (scheduler s)) = 3" and run: "deliver_expired_timers now s = Some (d, s')"
  obtains w0 w1 where "ticked now (vcpu_at 0 s) w0" "ticked now (vcpu_at 1 s) w1"
    "s' = upd_vcpu 1 (\<lambda>_. w1) (upd_vcpu 0 (\<lambda>_. w0) s)"
    "d \<longleftrightarrow> fires now (vcpu_at 0 s) \<or> fires now (vcpu_at 1 s)"
proof -
  obtain d1 s1 where 1: "deliver_timer now 0 (False, s) = Some (d1, s1)" and 2: "deliver_timer now 1 (d1, s1) = Some (d, s')"
    using run unfolding deliver_expired_timers_def bind_eq_Some_conv by auto
  obtain w0 where w0: "ticked now (vcpu_at 0 s) w0" "s1 = upd_vcpu 0 (\<lambda>_. w0) s" "d1 = (False \<or> fires now (vcpu_at 0 s))"
    using deliver_timer_spec [OF _ 1] len by auto
  have len1: "1 < length (sch_vcpus (scheduler s1))" and at1: "vcpu_at 1 s1 = vcpu_at 1 s"
    using len by (simp_all add: w0(2))
  obtain w1 where "ticked now (vcpu_at 1 s1) w1" "s' = upd_vcpu 1 (\<lambda>_. w1) s1" "d = (d1 \<or> fires now (vcpu_at 1 s1))"
    by (rule deliver_timer_spec [OF len1 2])
  with w0 at1 that show thesis by simp
qed

lemma deliver_timer_returns:
  assumes "i < length (sch_vcpus (scheduler s))"
    and "fires now (vcpu_at i s) \<Longrightarrow> unat now + unat (tm_period (vcpu_timer (vcpu_at i s))) < 2 ^ 64"
  shows "deliver_timer now i (d, s) \<noteq> None"
proof -
  let ?v = "vcpu_at i s"
  let ?w = "raised_vcpu ?v"
  have skip: "vcpu_state ?v = HV_VCPU_IDLE \<or> vcpu_state ?v = HV_VCPU_EXITED \<or>
      \<not> hv_vcpu_timer_expired (Some ?v) now \<longleftrightarrow> \<not> fires now ?v"
    by (auto simp: fires_def timer_counts_def hv_vcpu_timer_expired_def)
  have at1: "vcpu_at i (upd_vcpu i (\<lambda>_. ?w) s) = ?w" using assms(1) by simp
  have "hv_vcpu_timer_advance (Some ?w) now \<noteq> None" if f: "fires now ?v"
  proof (cases "tm_period (vcpu_timer ?v) = 0")
    case False
    have "tm_deadline (vcpu_timer ?v) \<le> now" using f by (simp add: fires_def)
    from timer_advance_loop_closed [OF False assms(2) [OF f] this] show ?thesis
      by (auto simp: hv_vcpu_timer_advance_def raised_fields)
  qed (simp add: hv_vcpu_timer_advance_def raised_fields)
  then have "fires now ?v \<Longrightarrow> \<exists>vp. hv_vcpu_timer_advance (Some ?w) now = Some vp" by blast
  then show ?thesis
    using skip by (cases "fires now ?v") (fastforce simp: deliver_timer_def raise_timer Let_def at1)+
qed

subsection \<open>Transparency\<close>

text \<open>What an interrupt leaves alone: the registers of both guests, their devices, what they have
  claimed, and every pending line but the timer's.\<close>

definition irq_kept :: "HypExceptState \<Rightarrow> machine \<Rightarrow> HypExceptState \<Rightarrow> machine \<Rightarrow> bool" where
  "irq_kept f s f' s' \<longleftrightarrow> sys_same s s' \<and> vuarts s' = vuarts s \<and>
     (\<forall>j < HV_MAX_GUEST_VCPUS. guest_regs j f' s' = guest_regs j f s \<and>
        virq_active (vcpu_at j s') = virq_active (vcpu_at j s) \<and>
        (virq_pending (vcpu_at j s') = virq_pending (vcpu_at j s) \<or>
         virq_pending (vcpu_at j s') = virq_pending (vcpu_at j s) OR 1))"

lemma irq_kept_refl [simp]: "irq_kept f s f s"
  by (simp add: irq_kept_def)

lemma irq_kept_trans: "irq_kept f s f1 s1 \<Longrightarrow> irq_kept f1 s1 f' s' \<Longrightarrow> irq_kept f s f' s'"
proof -
  assume a: "irq_kept f s f1 s1" and b: "irq_kept f1 s1 f' s'"
  have o: "(p OR 1) OR 1 = p OR 1" for p :: u32 by (simp add: or.assoc)
  have "virq_pending (vcpu_at j s') = virq_pending (vcpu_at j s) \<or>
      virq_pending (vcpu_at j s') = virq_pending (vcpu_at j s) OR 1" if "j < 2" for j
    using a b that o unfolding irq_kept_def by metis
  then show ?thesis using a b sys_same_trans [of s s1 s'] unfolding irq_kept_def by simp
qed

lemma irq_kept_own:
  assumes "own_step 3 s s'" "vuarts s' = vuarts s"
  shows "irq_kept f s f s'"
proof -
  have at: "vcpu_at j s' = vcpu_at j s" if "j < 2" for j using assms(1) that by (simp add: own_step_def)
  have e: "sys_same s s'" "cur_of s' = cur_of s" "banked s' = banked s" "vbar s' = vbar s"
    using assms(1) by (simp_all add: own_step_def)
  show ?thesis using assms(2) by (simp add: irq_kept_def guest_regs_def at e)
qed

lemma irq_kept_io: "io_out s s' t \<Longrightarrow> irq_kept f s f s'" for s s' :: machine
  using io_machine(2) by (intro irq_kept_own own_step_io) (auto simp: env_same_def)

lemma irq_kept_sync: "irq_kept f s f (hv_virq_sync q s)"
  using ctrl_stepD(4) [OF ctrl_step_ops(4) [of s q]]
  by (intro irq_kept_own own_step_sync) (simp add: env_same_def)

lemma irq_kept_advance:
  assumes "sched_wf (scheduler s)" "frame_ok f" "hv_scheduler_advance f s = Some (r, f', s')"
  shows "irq_kept f s f' s'"
proof -
  note A = sched_handled [OF advance_spec [OF assms]]
  have v: "virq_pending (vcpu_at j s') = virq_pending (vcpu_at j s)" "virq_active (vcpu_at j s') = virq_active (vcpu_at j s)"
    for j using A(3) [of j] by (simp_all add: guest_virqs_def)
  have "sys_same s s'" using A(1) unfolding handled_def by blast
  then show ?thesis using A(2,4) v by (simp add: irq_kept_def)
qed

lemma ticked_step:
  assumes "sched_wf (scheduler s)" "i < 2" "ticked now (vcpu_at i s) w"
  shows "irq_kept f s f (upd_vcpu i (\<lambda>_. w) s)" "sched_wf (scheduler (upd_vcpu i (\<lambda>_. w) s))"
    "hw_novi c s \<Longrightarrow> hw_novi c (upd_vcpu i (\<lambda>_. w) s)"
    "cur_of (upd_vcpu i (\<lambda>_. w) s) = cur_of s"
    "vcpu_state (vcpu_at (cur_of s) s) = HV_VCPU_RUNNING \<Longrightarrow>
      vcpu_state (vcpu_at (cur_of s) (upd_vcpu i (\<lambda>_. w) s)) = HV_VCPU_RUNNING"
proof -
  note W = sched_wfD [OF assms(1)]
  have len: "i < length (sch_vcpus (scheduler s))" using W(2) assms(2) by simp
  have w: "same_vcpu (vcpu_at i s) w" "virq_active w = virq_active (vcpu_at i s)"
    using assms(3) by (simp_all add: ticked_def)
  have p: "virq_pending w = virq_pending (vcpu_at i s) \<or> virq_pending w = virq_pending (vcpu_at i s) OR 1"
    using assms(3) by (auto simp: ticked_def raised_fields split: if_splits)
  have st: "vcpu_state w = vcpu_state (vcpu_at i s) \<or> vcpu_state (vcpu_at i s) = HV_VCPU_BLOCKED \<and> vcpu_state w = HV_VCPU_RUNNABLE"
    using assms(3) by (auto simp: ticked_def raised_fields split: if_splits)
  have e: "banked (upd_vcpu i (\<lambda>_. w) s) = banked s" "vbar (upd_vcpu i (\<lambda>_. w) s) = vbar s"
    "vuarts (upd_vcpu i (\<lambda>_. w) s) = vuarts s" by (simp_all add: upd_vcpu_def)
  show "irq_kept f s f (upd_vcpu i (\<lambda>_. w) s)"
    using w p len unfolding irq_kept_def by (simp add: e env_sys guest_regs_def same_vcpu_def)
  show "sched_wf (scheduler (upd_vcpu i (\<lambda>_. w) s))"
  proof (rule upd_wf [OF assms(1)])
    show "i \<noteq> cur_of s \<Longrightarrow> vcpu_state w \<noteq> HV_VCPU_RUNNING" using st W(11) [of i] assms(2) by auto
  qed (use w assms(2) in \<open>auto simp: same_vcpu_def\<close>)
  show "hw_novi c s \<Longrightarrow> hw_novi c (upd_vcpu i (\<lambda>_. w) s)"
    using w len by (intro hw_novi_upd) (simp_all add: same_vcpu_def)
  show "cur_of (upd_vcpu i (\<lambda>_. w) s) = cur_of s" by simp
  show "vcpu_state (vcpu_at (cur_of s) s) = HV_VCPU_RUNNING \<Longrightarrow>
      vcpu_state (vcpu_at (cur_of s) (upd_vcpu i (\<lambda>_. w) s)) = HV_VCPU_RUNNING"
    using st len by auto
qed


text \<open>The two arms of \<open>handle_irq\<close>, after the interrupt source is acknowledged.\<close>

lemma counter_machine:
  fixes s s1 :: machine
  assumes s1: "s1 = s\<lparr>irq_counter := x\<rparr>"
  shows "scheduler s1 = scheduler s" "vcpu_at i s1 = vcpu_at i s" "cur_of s1 = cur_of s"
    "sched_run s1 = sched_run s" "hw_novi c s1 = hw_novi c s" "irq_kept f s f s1" "hw_in s1 = hw_in s"
    "hv_scheduler_verbose s1 = hv_scheduler_verbose s" "gen_tim_period_ticks s1 = gen_tim_period_ticks s"
proof -
  show at: "scheduler s1 = scheduler s" "vcpu_at i s1 = vcpu_at i s" "cur_of s1 = cur_of s" for i
    by (simp_all add: s1 vcpu_at_def cur_of_def)
  have b: "hcr_bit b s1 = hcr_bit b s" "vttbr s1 = vttbr s" "vtcr s1 = vtcr s" for b
    by (simp_all add: s1 hcr_bit_def)
  show "sched_run s1 = sched_run s" unfolding sched_run_def hw_for_def at b ..
  show "hw_novi c s1 = hw_novi c s" unfolding hw_novi_def at b ..
  have "own_step 3 s s1" unfolding own_step_def at by (simp add: s1 sys_same_def)
  then show "irq_kept f s f s1" by (rule irq_kept_own) (simp add: s1)
  show "hw_in s1 = hw_in s" "hv_scheduler_verbose s1 = hv_scheduler_verbose s"
    "gen_tim_period_ticks s1 = gen_tim_period_ticks s" by (simp_all add: s1)
qed

lemma irq_slice:
  assumes "sched_run s" "frame_ok f" "io_out s s1 t"
    "do { (action, f, s) \<leftarrow> hv_scheduler_advance f (s1\<lparr>irq_counter := n\<rparr>);
          s \<leftarrow> GEN_TIM_rearm s; Some (action, f, s) } = Some (r, f', s')"
  shows "irq_kept f s f' s' \<and> r = HYP_ACTION_RETURN \<and> sched_run s' \<and> frame_ok f' \<and> irq_counter s' = n"
proof -
  let ?s2 = "s1\<lparr>irq_counter := n\<rparr>"
  note m = io_machine [OF assms(3)] and C = counter_machine [where s = s1 and x = n, OF refl]
  obtain s3 where a: "hv_scheduler_advance f ?s2 = Some (r, f', s3)" and g: "GEN_TIM_rearm s3 = Some s'"
    using assms(4) by (auto simp: bind_eq_Some_conv)
  have wf: "sched_wf (scheduler ?s2)" using assms(1) m(1) by (simp add: sched_run_def)
  note A = sched_handled [OF advance_spec [OF wf assms(2) a]]
  have "irq_kept f s f' s3"
    by (rule irq_kept_trans [OF irq_kept_trans [OF irq_kept_io [OF assms(3)] C(6)] irq_kept_advance [OF wf assms(2) a]])
  then have "irq_kept f s f' s'" by (rule irq_kept_trans [OF _ irq_kept_io [OF io_out_GEN_TIM(3) [OF g]]])
  moreover have "frame_ok f'" using A(1) unfolding handled_def by blast
  moreover have "sched_run s'" "irq_counter s' = irq_counter s3"
    using A(7) io_machine(2,11) [OF io_out_GEN_TIM(3) [OF g]] by (simp_all add: env_same_def)
  ultimately show ?thesis using A(5,6) by simp
qed


text \<open>After the timers: the interrupt line of the current vCPU is set, and an idle machine looks for
  work.\<close>

definition irq_finish :: "bool \<Rightarrow> HypExceptState \<Rightarrow> machine \<Rightarrow> (int \<times> HypExceptState \<times> machine) option" where
  "irq_finish delivered f s =
     (if \<not> delivered then
        if hv_scheduler_is_idle_vcpu (deref (hv_scheduler_get_current s) s) then hv_scheduler_advance f s
        else Some (HYP_ACTION_RETURN, f, s)
      else
        let s = hv_virq_sync (deref (hv_scheduler_get_current s) s) s in
        if hv_scheduler_is_idle_vcpu (deref (hv_scheduler_get_current s) s) then hv_scheduler_advance f s
        else Some (HYP_ACTION_RETURN, f, s))"

lemma irq_finish_spec:
  assumes wf: "sched_wf (scheduler s)" and st: "vcpu_state (vcpu_at (cur_of s) s) = HV_VCPU_RUNNING"
    and hw: "hw_novi (cur_of s) s" and vi: "\<not> d \<Longrightarrow> sched_run s" and f: "frame_ok f"
    and run: "irq_finish d f s = Some (r, f', s')"
  shows "irq_kept f s f' s' \<and> r = HYP_ACTION_RETURN \<and> sched_run s' \<and> frame_ok f' \<and> irq_counter s' = irq_counter s \<and>
    (cur_of s \<noteq> HV_IDLE_VCPU_IDX \<longrightarrow> cur_of s' = cur_of s \<and> f' = f)"
proof -
  let ?s1 = "hv_virq_sync (Some (vcpu_at (cur_of s) s)) s"
  have c: "cur_of s < 3" and g: "hv_scheduler_get_current s = Some (cur_of s)"
    using sched_wfD(3,4) [OF wf] by (simp_all add: hv_scheduler_get_current_def)
  note V = virq_sync_machine [OF wf st hw]
  have g1: "hv_scheduler_get_current ?s1 = Some (cur_of s)"
    using g V(5) by (simp add: hv_scheduler_get_current_def)
  define s2 where "s2 = (if d then ?s1 else s)"
  have k: "irq_kept f s f s2" "sched_run s2" "cur_of s2 = cur_of s" "irq_counter s2 = irq_counter s"
    "scheduler s2 = scheduler s" "vcpu_at (cur_of s) s2 = vcpu_at (cur_of s) s"
    using irq_kept_sync V vi by (auto simp: s2_def env_same_def)
  have i: "hv_scheduler_is_idle_vcpu (deref (Some (cur_of s)) s) = (cur_of s = 2)"
    "hv_scheduler_is_idle_vcpu (deref (Some (cur_of s)) ?s1) = (cur_of s = 2)"
    using is_idle_vcpu_at [OF wf c] V(3) by simp_all
  have e: "irq_finish d f s = (if cur_of s = 2 then hv_scheduler_advance f s2 else Some (HYP_ACTION_RETURN, f, s2))"
  proof (cases d)
    case True
    have x: "hv_virq_sync (deref (Some (cur_of s)) s) s = ?s1" by simp
    show ?thesis using True unfolding irq_finish_def g x Let_def g1 i s2_def by simp
  qed (unfold irq_finish_def g i s2_def, simp)
  show ?thesis
  proof (cases "cur_of s = 2")
    case True
    then have a: "hv_scheduler_advance f s2 = Some (r, f', s')" using run e by simp
    have wf2: "sched_wf (scheduler s2)" using wf k(5) by simp
    note A = sched_handled [OF advance_spec [OF wf2 f a]]
    have "frame_ok f'" using A(1) unfolding handled_def by blast
    then show ?thesis
      using irq_kept_trans [OF k(1) irq_kept_advance [OF wf2 f a]] A(5-7) k(4) True by simp
  next
    case False
    then have "r = 0" "f' = f" "s' = s2" using run e by simp_all
    then show ?thesis using k f by simp
  qed
qed

lemma irq_deliver_spec:
  assumes run1: "sched_run s1" and dl: "deliver_expired_timers now s1 = Some (d, s2)"
    and s3: "s3 = hv_vtimer_rearm_physical s2"
  shows "irq_kept f s1 f s3" "sched_wf (scheduler s3)" "vcpu_state (vcpu_at (cur_of s3) s3) = HV_VCPU_RUNNING"
    "hw_novi (cur_of s3) s3" "\<not> d \<Longrightarrow> sched_run s3" "cur_of s3 = cur_of s1" "env_same s1 s3"
proof -
  from run1 have wf1: "sched_wf (scheduler s1)" and st1: "vcpu_state (vcpu_at (cur_of s1) s1) = HV_VCPU_RUNNING"
    and hw1: "hw_novi (cur_of s1) s1" by (simp_all add: sched_run_def hw_for_iff)
  obtain w0 w1 where w: "ticked now (vcpu_at 0 s1) w0" "ticked now (vcpu_at 1 s1) w1"
    and s2: "s2 = upd_vcpu 1 (\<lambda>_. w1) (upd_vcpu 0 (\<lambda>_. w0) s1)"
    and d: "d \<longleftrightarrow> fires now (vcpu_at 0 s1) \<or> fires now (vcpu_at 1 s1)"
    by (rule deliver_spec [OF sched_wfD(2) [OF wf1] dl])
  let ?u = "upd_vcpu 0 (\<lambda>_. w0) s1"
  have i: "0 < (2 :: nat)" "1 < (2 :: nat)" by simp_all
  note A = ticked_step [OF wf1 i(1) w(1)]
  have "ticked now (vcpu_at 1 ?u) w1" using w(2) sched_wfD(2) [OF wf1] by simp
  note B = ticked_step [OF A(2) i(2) this, folded s2]
  have c2: "cur_of s2 = cur_of s1" by (simp add: s2)
  note io = rearm_io [of s2, folded s3]
  note q = io_machine [OF io]
  show "irq_kept f s1 f s3"
    by (rule irq_kept_trans [OF irq_kept_trans [OF A(1) B(1)] irq_kept_io [OF io]])
  show "sched_wf (scheduler s3)" using B(2) q(1) by simp
  show "vcpu_state (vcpu_at (cur_of s3) s3) = HV_VCPU_RUNNING" using B(5) A(4,5) st1 c2 q(8,9) by simp
  have "hw_novi (cur_of s2) s2" using B(3) A(3,4) hw1 c2 by simp
  then show "hw_novi (cur_of s3) s3"
    using q(1,3,4,5,8,9) unfolding hw_novi_def hcr_bit_def by (simp cong: option.case_cong)
  have "s2 = s1" if "\<not> d"
  proof -
    have "w0 = vcpu_at 0 s1" "w1 = vcpu_at 1 s1" using w d that by (simp_all add: ticked_def)
    then show ?thesis using sched_wfD(2) [OF wf1] by (simp add: s2 upd_vcpu_def vcpu_at_def)
  qed
  then show "\<not> d \<Longrightarrow> sched_run s3" using run1 q(11) by simp
  show "cur_of s3 = cur_of s1" using q(9) c2 by simp
  have "env_same s1 s2" unfolding s2 using upd_vcpu_sel(6) env_same_trans by blast
  then show "env_same s1 s3" using q(2) env_same_trans by blast
qed

lemma irq_timers:
  assumes "sched_run s" "frame_ok f" "io_out s s1 t"
    "do { (delivered, s) \<leftarrow> deliver_expired_timers now s1;
          let s = hv_vtimer_rearm_physical s; irq_finish delivered f s } = Some (r, f', s')"
  shows "irq_kept f s f' s' \<and> r = HYP_ACTION_RETURN \<and> sched_run s' \<and> frame_ok f' \<and>
    irq_counter s' = irq_counter s1 \<and> (cur_of s \<noteq> HV_IDLE_VCPU_IDX \<longrightarrow> cur_of s' = cur_of s \<and> f' = f)"
proof -
  note m = io_machine [OF assms(3)]
  have run1: "sched_run s1" using assms(1) m(11) by simp
  obtain d s2 where dl: "deliver_expired_timers now s1 = Some (d, s2)"
    and fin: "irq_finish d f (hv_vtimer_rearm_physical s2) = Some (r, f', s')"
    using assms(4) unfolding bind_eq_Some_conv Let_def by auto
  note D = irq_deliver_spec [OF run1 dl refl]
  have "irq_kept f s f (hv_vtimer_rearm_physical s2)"
    by (rule irq_kept_trans [OF irq_kept_io [OF assms(3)] D(1)])
  then show ?thesis
    using irq_finish_spec [OF D(2-4) D(5) assms(2) fin] irq_kept_trans D(6,7) m(9)
    by (auto simp: env_same_def)
qed


lemma irq_parts:
  "handle_irq f s =
     (let (pending, s) = GEN_TIM_irq_pending s in
      if pending then
        let s = GEN_TIM_ack s
        in do {
          (action, f, s) \<leftarrow> hv_scheduler_advance f (s\<lparr>irq_counter := irq_counter s + 1\<rparr>);
          s \<leftarrow> GEN_TIM_rearm s;
          Some (action, f, s) }
      else let (raised, s) = TIM_Check_IRQ s in
      if raised then
        let s = TIM_Clear_Pending s;
            (now, s) = TIM_SYS_Get_Ticks (s\<lparr>irq_counter := irq_counter s + 1\<rparr>)
        in do {
          (delivered, s) \<leftarrow> deliver_expired_timers (ucast now) s;
          let s = hv_vtimer_rearm_physical s;
          irq_finish delivered f s }
      else do {
        s \<leftarrow> hyp_dump_unexpected_exception_state f s;
        s \<leftarrow> trace ''handle_irq'' (''Unexpected IRQ taken to Hyp'' @ nl) [] s;
        Some (HYP_ACTION_HALT, f, s) })"
  unfolding handle_irq_def irq_finish_def Let_def ..

text \<open>Whether one of the two timers asserts its interrupt.\<close>

definition irq_source :: "machine \<Rightarrow> bool" where
  "irq_source s = (let (p, s) = GEN_TIM_irq_pending s in p \<or> fst (TIM_Check_IRQ s))"

lemma irq_handled:
  assumes run: "sched_run s" and f: "frame_ok f" and h: "handle_irq f s = Some (r, f', s')"
  shows "irq_kept f s f' s' \<and>
    (if irq_source s then r = HYP_ACTION_RETURN \<and> sched_run s' \<and> frame_ok f' \<and> irq_counter s' = irq_counter s + 1
     else r = HYP_ACTION_HALT \<and> f' = f \<and> (\<exists>t. io_out s s' t))"
proof -
  obtain p s1 where 1: "GEN_TIM_irq_pending s = (p, s1)" by (cases "GEN_TIM_irq_pending s")
  obtain q s2 where 2: "TIM_Check_IRQ s1 = (q, s2)" by (cases "TIM_Check_IRQ s1")
  have src: "irq_source s = (p \<or> q)" by (simp add: irq_source_def 1 2)
  note io1 = io_out_GEN_TIM(1) [OF 1] and io2 = io_out_steps [OF io_out_GEN_TIM(1) [OF 1] io_out_TIM_Check_IRQ [OF 2]]
  show ?thesis
  proof (cases p)
    case True
    let ?a = "GEN_TIM_ack s1"
    note io = io_out_steps [OF io1 io_out_GEN_TIM(2) [of s1]]
    have "irq_counter ?a = irq_counter s" using io_machine(2) [OF io] by (simp add: env_same_def)
    moreover have "do { (action, f, s) \<leftarrow> hv_scheduler_advance f (?a\<lparr>irq_counter := irq_counter ?a + 1\<rparr>);
        s \<leftarrow> GEN_TIM_rearm s; Some (action, f, s) } = Some (r, f', s')"
      using h True by (simp add: irq_parts 1 Let_def)
    from irq_slice [OF run f io this] show ?thesis using True src calculation by simp
  next
    case np: False
    show ?thesis
    proof (cases q)
      case True
      let ?a = "TIM_Clear_Pending s2"
      let ?b = "?a\<lparr>irq_counter := irq_counter ?a + 1\<rparr>"
      note io = io_out_steps [OF io2 io_out_timer(3) [of s2]]
      note C = counter_machine [where s = ?a and x = "irq_counter ?a + 1", OF refl]
      have cnt: "irq_counter ?a = irq_counter s" using io_machine(2) [OF io] by (simp add: env_same_def)
      obtain now s3 where 3: "TIM_SYS_Get_Ticks ?b = (now, s3)" by (cases "TIM_SYS_Get_Ticks ?b")
      have b: "do { (delivered, s) \<leftarrow> deliver_expired_timers (ucast now) s3;
          let s = hv_vtimer_rearm_physical s; irq_finish delivered f s } = Some (r, f', s')"
        using h np True by (simp add: irq_parts 1 2 3 Let_def)
      have "sched_run ?b" using run C(4) io_machine(11) [OF io] by simp
      note T = irq_timers [OF this f io_out_timer(4) [OF 3] b]
      have "irq_kept f s f ?b" by (rule irq_kept_trans [OF irq_kept_io [OF io] C(6)])
      moreover have "irq_counter s3 = irq_counter s + 1"
        using io_machine(2) [OF io_out_timer(4) [OF 3]] cnt by (simp add: env_same_def)
      ultimately show ?thesis using T irq_kept_trans src True by auto
    next
      case False
      have "do { s \<leftarrow> hyp_dump_unexpected_exception_state f s2;
          s \<leftarrow> trace ''handle_irq'' (''Unexpected IRQ taken to Hyp'' @ nl) [] s; Some (HYP_ACTION_HALT, f, s) } = Some (r, f', s')"
        using h np False by (simp add: irq_parts 1 2)
      note H = halt_spec [OF this]
      have "\<exists>t. io_out s s' t" using io2 H(3) io_out_trans by blast
      then show ?thesis using H np False src irq_kept_io by auto
    qed
  qed
qed


text \<open>C11: interrupts are transparent. An interrupt from one of the two timers is counted and ends in a
  return to a vCPU that can run; whatever was switched or delivered, each guest has the registers it
  had before (in the frame and the CPU or saved in its vCPU), the same device, the same active lines,
  and no pending line added but its timer's. An interrupt from anywhere else stops the machine having
  only printed.\<close>

theorem irq_transparent:
  assumes "sched_run s" and "frame_ok f" and "handle_irq f s = Some (r, f', s')"
  shows "(if irq_source s then r = HYP_ACTION_RETURN \<and> sched_run s' \<and> irq_counter s' = irq_counter s + 1
      else r = HYP_ACTION_HALT \<and> f' = f \<and> (\<exists>t. io_out s s' t)) \<and>
    stage2_tables s' = stage2_tables s \<and> sch_vm (scheduler s') = sch_vm (scheduler s) \<and> vuarts s' = vuarts s \<and>
    (\<forall>i < HV_MAX_GUEST_VCPUS. guest_regs i f' s' = guest_regs i f s \<and>
       virq_active (vcpu_at i s') = virq_active (vcpu_at i s) \<and>
       (virq_pending (vcpu_at i s') = virq_pending (vcpu_at i s) \<or>
        virq_pending (vcpu_at i s') = virq_pending (vcpu_at i s) OR push_bit (unat VIRQ_TIMER) 1))"
proof -
  have "(push_bit (unat VIRQ_TIMER) 1 :: u32) = 1" by simp
  then show ?thesis using irq_handled [OF assms] unfolding irq_kept_def sys_same_def by auto
qed

subsection \<open>Delivery of the virtual timers\<close>

lemma ticked_fired:
  assumes "ticked now v w" "fires now v"
  shows "bit (virq_pending w OR virq_active w) 0"
    "tm_enabled (vcpu_timer w) \<Longrightarrow> now < tm_deadline (vcpu_timer w)"
    "vcpu_state w = (if vcpu_state v = HV_VCPU_BLOCKED \<and> \<not> bit (virq_pending v OR virq_active v) 0
       then HV_VCPU_RUNNABLE else vcpu_state v)"
proof -
  have w: "virq_active w = virq_active v" "virq_pending w = virq_pending (raised_vcpu v)"
    using assms by (simp_all add: ticked_def)
  have one: "bit (p OR 1) 0" for p :: u32 using bit_1_iff [of 0] by (simp add: bit_or_iff)
  show "bit (virq_pending w OR virq_active w) 0"
    using one by (cases "bit (virq_active v) 0") (simp_all only: w raised_fields bit_or_iff if_True if_False simp_thms)
qed (use assms in \<open>auto simp: ticked_def raised_fields bit_or_iff\<close>)

lemma deliver_returns:
  assumes len: "length (sch_vcpus (scheduler s)) = 3"
    and fit: "\<And>i. i < 2 \<Longrightarrow> fires now (vcpu_at i s) \<Longrightarrow> unat now + unat (tm_period (vcpu_timer (vcpu_at i s))) < 2 ^ 64"
  shows "\<exists>d s'. deliver_expired_timers now s = Some (d, s')"
proof -
  have len0: "0 < length (sch_vcpus (scheduler s))" using len by simp
  obtain d1 s1 where 1: "deliver_timer now 0 (False, s) = Some (d1, s1)"
    using deliver_timer_returns [OF len0, of now False] fit [of 0] by fastforce
  obtain w0 where s1: "s1 = upd_vcpu 0 (\<lambda>_. w0) s" by (rule deliver_timer_spec [OF len0 1]) blast
  have len1: "1 < length (sch_vcpus (scheduler s1))" and at1: "vcpu_at 1 s1 = vcpu_at 1 s"
    using len by (simp_all add: s1)
  obtain d2 s2 where 2: "deliver_timer now 1 (d1, s1) = Some (d2, s2)"
    using deliver_timer_returns [OF len1, of now d1] fit [of 1] unfolding at1 by fastforce
  then show ?thesis using 1 unfolding deliver_expired_timers_def by simp
qed

text \<open>C27: no timer interrupt is lost. Delivery returns when no deadline can wrap, and then, for each guest
  whose timer is due, the timer line is pending or active, the timer is off or its next deadline is in
  the future, and a guest blocked on it is runnable unless its line was up already; the other guests
  are untouched. The result says whether a guest's timer was due.\<close>

theorem timers_delivered:
  assumes "length (sch_vcpus (scheduler s)) = 3"
    and "\<And>i. i < HV_MAX_GUEST_VCPUS \<Longrightarrow> fires now (vcpu_at i s) \<Longrightarrow>
      unat now + unat (tm_period (vcpu_timer (vcpu_at i s))) < 2 ^ 64"
  shows "\<exists>d s'. deliver_expired_timers now s = Some (d, s') \<and> d = (\<exists>i < HV_MAX_GUEST_VCPUS. fires now (vcpu_at i s)) \<and>
    (\<forall>i < HV_MAX_GUEST_VCPUS. let v = vcpu_at i s; v' = vcpu_at i s' in
       if fires now v
       then bit (virq_pending v' OR virq_active v') (unat VIRQ_TIMER) \<and>
         (tm_enabled (vcpu_timer v') \<longrightarrow> now < tm_deadline (vcpu_timer v')) \<and>
         vcpu_state v' = (if vcpu_state v = HV_VCPU_BLOCKED \<and> \<not> bit (virq_pending v OR virq_active v) (unat VIRQ_TIMER)
           then HV_VCPU_RUNNABLE else vcpu_state v)
       else v' = v)"
proof -
  obtain d s' where run: "deliver_expired_timers now s = Some (d, s')"
    using deliver_returns [of s now] assms by auto
  obtain w0 w1 where w: "ticked now (vcpu_at 0 s) w0" "ticked now (vcpu_at 1 s) w1"
    and s': "s' = upd_vcpu 1 (\<lambda>_. w1) (upd_vcpu 0 (\<lambda>_. w0) s)"
    and d: "d \<longleftrightarrow> fires now (vcpu_at 0 s) \<or> fires now (vcpu_at 1 s)"
    by (rule deliver_spec [OF assms(1) run])
  have at: "vcpu_at 0 s' = w0" "vcpu_at 1 s' = w1" using assms(1) by (simp_all add: s')
  have two: "(\<forall>i < 2. P i) \<longleftrightarrow> P 0 \<and> P 1" "(\<exists>i < 2. P i) \<longleftrightarrow> P 0 \<or> P 1" for P :: "nat \<Rightarrow> bool"
    by (auto simp: less_2_cases_iff)
  have T: "if fires now v then bit (virq_pending v' OR virq_active v') 0 \<and>
      (tm_enabled (vcpu_timer v') \<longrightarrow> now < tm_deadline (vcpu_timer v')) \<and>
      vcpu_state v' = (if vcpu_state v = HV_VCPU_BLOCKED \<and> \<not> bit (virq_pending v OR virq_active v) 0
        then HV_VCPU_RUNNABLE else vcpu_state v) else v' = v" if t: "ticked now v v'" for v v'
    using ticked_fired [OF t] t by (simp add: ticked_def)
  show ?thesis
    unfolding two Let_def run using d T [OF w(1)] T [OF w(2)] at by simp
qed

text \<open>The clock \<open>handle_irq\<close> reads has 32 bits: a deadline past them is never reached.\<close>

lemma late_deadline_never_fires:
  assumes "2 ^ 32 \<le> unat (tm_deadline (vcpu_timer v))"
  shows "\<not> fires (ucast (now :: u32)) v"
proof -
  have "unat now < 2 ^ 32" using unsigned_less [of now, where 'a = nat] by simp
  then show ?thesis using assms by (auto simp: fires_def word_le_nat_alt unat_ucast_up)
qed

subsection \<open>Interrupts return\<close>

lemma irq_finish_returns:
  assumes "returns_ok s" and wf: "sched_wf (scheduler s)"
    and "vcpu_state (vcpu_at (cur_of s) s) = HV_VCPU_RUNNING" "hw_novi (cur_of s) s"
  shows "irq_finish d f s \<noteq> None"
proof -
  let ?s1 = "hv_virq_sync (Some (vcpu_at (cur_of s) s)) s"
  note W = sched_wfD(3,4) [OF wf] and V = virq_sync_machine [OF assms(2-4)]
  have g: "hv_scheduler_get_current s = Some (cur_of s)" "hv_scheduler_get_current ?s1 = Some (cur_of s)"
    using W V(5) by (simp_all add: hv_scheduler_get_current_def)
  have "returns_ok ?s1" using returns_ok_env [OF V(2)] assms(1) by simp
  then have "hv_scheduler_advance f ?s1 \<noteq> None" "hv_scheduler_advance f s \<noteq> None"
    using advance_returns [of ?s1 "cur_of s" f] advance_returns [OF W(2) assms(1), of f] W(2) V(5) by simp_all
  then show ?thesis by (simp add: irq_finish_def g Let_def)
qed

lemma irq_returns:
  assumes run: "sched_run s" and src: "irq_source s" and f: "frame_ok f"
    and live: "returns_ok s" "gen_tim_period_ticks s \<noteq> 0"
    and fit: "\<And>i. i < 2 \<Longrightarrow> unat (tm_period (vcpu_timer (vcpu_at i s))) < 2 ^ 64 - 2 ^ 32"
  shows "\<exists>r f' s'. handle_irq f s = Some (r, f', s')"
proof -
  obtain p s1 where 1: "GEN_TIM_irq_pending s = (p, s1)" by (cases "GEN_TIM_irq_pending s")
  obtain q s2 where 2: "TIM_Check_IRQ s1 = (q, s2)" by (cases "TIM_Check_IRQ s1")
  note io1 = io_out_GEN_TIM(1) [OF 1] and io2 = io_out_steps [OF io_out_GEN_TIM(1) [OF 1] io_out_TIM_Check_IRQ [OF 2]]
  have wf: "sched_wf (scheduler s)" using run by (simp add: sched_run_def)
  show ?thesis
  proof (cases p)
    case True
    let ?a = "GEN_TIM_ack s1"
    let ?b = "?a\<lparr>irq_counter := irq_counter ?a + 1\<rparr>"
    note m = io_machine [OF io_out_steps [OF io1 io_out_GEN_TIM(2) [of s1]]]
    note C = counter_machine [where s = ?a and x = "irq_counter ?a + 1", OF refl]
    have wfb: "sched_wf (scheduler ?b)" using wf m(1) C(1) by simp
    have "returns_ok ?b"
      using live(1) m(2,12) C(7,8) uart_live_in [of ?b s] unfolding returns_ok_def env_same_def by simp
    then obtain r f1 s3 where a: "hv_scheduler_advance f ?b = Some (r, f1, s3)"
      using advance_returns [OF sched_wfD(4) [OF wfb], of f] by auto
    have "sys_same ?b s3" using sched_handled(1) [OF advance_spec [OF wfb f a]] unfolding handled_def by blast
    then have "gen_tim_period_ticks s3 \<noteq> 0" using live(2) m(13) C(9) by (simp add: sys_same_def)
    then show ?thesis using GEN_TIM_rearm_live [of s3] a by (auto simp: irq_parts 1 True Let_def)
  next
    case False
    let ?a = "TIM_Clear_Pending s2"
    let ?b = "?a\<lparr>irq_counter := irq_counter ?a + 1\<rparr>"
    note m = io_machine [OF io_out_steps [OF io2 io_out_timer(3) [of s2]]]
    note C = counter_machine [where s = ?a and x = "irq_counter ?a + 1", OF refl]
    have q: q using src False by (simp add: irq_source_def 1 2)
    obtain now s3 where 3: "TIM_SYS_Get_Ticks ?b = (now, s3)" by (cases "TIM_SYS_Get_Ticks ?b")
    note m3 = io_machine [OF io_out_timer(4) [OF 3]]
    have run3: "sched_run s3" and at: "vcpu_at i s3 = vcpu_at i s" for i
      using run m(11) C(4) m3(11) m(8) C(2) m3(8) by simp_all
    have n: "unat (ucast now :: u64) < 2 ^ 32"
      using unsigned_less [of now, where 'a = nat] by (simp add: unat_ucast_up)
    have len: "length (sch_vcpus (scheduler s3)) = 3" using run3 by (simp add: sched_run_def sched_wf_def)
    obtain d s4 where 4: "deliver_expired_timers (ucast now) s3 = Some (d, s4)"
      using deliver_returns [OF len, of "ucast now"] fit n unfolding at by fastforce
    note D = irq_deliver_spec [OF run3 4 refl]
    have "returns_ok s3"
      using live(1) m(2,12) C(7,8) m3(2,12) uart_live_in [of s3 s] unfolding returns_ok_def env_same_def by simp
    then have "returns_ok (hv_vtimer_rearm_physical s4)" using returns_ok_env [OF D(7)] by simp
    from irq_finish_returns [OF this D(2-4), of d f] show ?thesis
      using False q by (auto simp: irq_parts 1 2 3 4 Let_def)
  qed
qed

text \<open>A machine whose devices read all ones: the scheduling timer's interrupt is pending.\<close>

definition ticking_machine :: machine where
  "ticking_machine = running_machine\<lparr>hw_in := (\<lambda>_ _. 0xffffffff), gen_tim_period_ticks := 1000\<rparr>"

lemma ticking_machine_ok: "sched_run ticking_machine" "irq_source ticking_machine" "returns_ok ticking_machine"
  "gen_tim_period_ticks ticking_machine \<noteq> 0" "vcpu_at i ticking_machine = vcpu_at i running_machine"
proof -
  have at: "vcpu_at i ticking_machine = vcpu_at i running_machine" "cur_of ticking_machine = cur_of running_machine"
    "scheduler ticking_machine = scheduler running_machine" for i
    by (simp_all add: ticking_machine_def vcpu_at_def cur_of_def)
  have "hw_for 0 ticking_machine = hw_for 0 running_machine"
    unfolding hw_for_def at hcr_bit_def by (simp add: ticking_machine_def cong: option.case_cong)
  then show "sched_run ticking_machine"
    using running_machine_ok(1) unfolding sched_run_def at by simp
  show "irq_source ticking_machine"
    by (simp add: irq_source_def GEN_TIM_irq_pending_def GEN_TIM_istatus_def read_cnthp_ctl_def dev_defs
        ticking_machine_def)
  show "returns_ok ticking_machine" "gen_tim_period_ticks ticking_machine \<noteq> 0"
    using running_machine_ok(2) by (simp_all add: returns_ok_def ticking_machine_def running_machine_def
        reset_machine_def uart_live_def vuart_hw.defs)
  show "vcpu_at i ticking_machine = vcpu_at i running_machine" by (rule at)
qed

theorem irq_transparent_witness:
  "\<exists>f' s'. handle_irq zero_HypExceptState ticking_machine = Some (HYP_ACTION_RETURN, f', s') \<and>
     irq_counter s' = irq_counter ticking_machine + 1 \<and>
     guest_regs 0 f' s' = guest_regs 0 zero_HypExceptState ticking_machine"
proof -
  note T = ticking_machine_ok
  have fit: "unat (tm_period (vcpu_timer (vcpu_at i ticking_machine))) < 2 ^ 64 - 2 ^ 32" if "i < 2" for i
    using that by (auto simp: T(5) less_2_cases_iff guest_vcpu_def zero_HvVcpu_def)
  obtain r f' s' where h: "handle_irq zero_HypExceptState ticking_machine = Some (r, f', s')"
    using irq_returns [OF T(1,2) zero_frame_ok T(3,4) fit] by blast
  from irq_transparent [OF T(1) zero_frame_ok h] h T(2) show ?thesis by auto
qed

text \<open>Guest 1 waits for its timer, due at 100 and every 50 after.\<close>

definition waiting_machine :: machine where
  "waiting_machine = upd_vcpu 1 (\<lambda>v. v\<lparr>vcpu_state := HV_VCPU_BLOCKED,
     vcpu_timer := \<lparr>tm_enabled = True, tm_deadline = 100, tm_period = 50\<rparr>\<rparr>) running_machine"

theorem timers_delivered_witness:
  "\<exists>s'. deliver_expired_timers 120 waiting_machine = Some (True, s') \<and>
     vcpu_state (vcpu_at 1 s') = HV_VCPU_RUNNABLE \<and> bit (virq_pending (vcpu_at 1 s') OR virq_active (vcpu_at 1 s')) 0"
proof -
  have len: "length (sch_vcpus (scheduler waiting_machine)) = 3"
    using sched_wfD(2) [OF running_machine_ok(3)] by (simp add: waiting_machine_def)
  have at0: "vcpu_at 0 waiting_machine = vcpu_at 0 running_machine"
    and at1: "vcpu_at 1 waiting_machine = (guest_vcpu 1 HV_VCPU_RUNNABLE)\<lparr>vcpu_state := HV_VCPU_BLOCKED,
      vcpu_timer := \<lparr>tm_enabled = True, tm_deadline = 100, tm_period = 50\<rparr>\<rparr>"
    using sched_wfD(2) [OF running_machine_ok(3)] by (simp_all add: waiting_machine_def)
  have f: "\<not> fires 120 (vcpu_at 0 waiting_machine)" "fires 120 (vcpu_at 1 waiting_machine)"
    by (simp_all only: at0 at1) (simp_all add: fires_def timer_counts_def)
  have "unat (120 :: u64) + unat (tm_period (vcpu_timer (vcpu_at i waiting_machine))) < 2 ^ 64"
    if "i < 2" "fires 120 (vcpu_at i waiting_machine)" for i
    using that f at1 by (auto simp: less_2_cases_iff)
  from timers_delivered [OF len this] obtain d s' where r: "deliver_expired_timers 120 waiting_machine = Some (d, s')"
    "d = (\<exists>i < 2. fires 120 (vcpu_at i waiting_machine))" and a: "\<forall>i < 2. let v = vcpu_at i waiting_machine; v' = vcpu_at i s' in
       if fires 120 v
       then bit (virq_pending v' OR virq_active v') (unat VIRQ_TIMER) \<and>
         (tm_enabled (vcpu_timer v') \<longrightarrow> 120 < tm_deadline (vcpu_timer v')) \<and>
         vcpu_state v' = (if vcpu_state v = HV_VCPU_BLOCKED \<and> \<not> bit (virq_pending v OR virq_active v) (unat VIRQ_TIMER)
           then HV_VCPU_RUNNABLE else vcpu_state v)
       else v' = v" by blast
  have "d" using r(2) f(2) by (auto simp: less_2_cases_iff)
  moreover have "bit (virq_pending (vcpu_at 1 s') OR virq_active (vcpu_at 1 s')) 0 \<and> vcpu_state (vcpu_at 1 s') = HV_VCPU_RUNNABLE"
    using a [rule_format, of 1] f(2) by (simp add: Let_def at1 [unfolded One_nat_def])
  ultimately show ?thesis using r(1) by auto
qed

end
