(* ===== verification/Hv_Steps.thy ===== *)
theory Hv_Steps
  imports Irq_Spec
begin

section \<open>The steps of the running system\<close>

text \<open>
  After it has booted (\<open>Guest_Systems\<close>), the machine alternates between the guests (or the idle loop),
  which run code the program does not control, and the exception vectors, which call
  \<open>hyp_handle_exception\<close>. \<open>hv_step\<close> is one such step; what holds of every reachable
  configuration is proved by rule induction.
\<close>

subsection \<open>Steps\<close>

text \<open>A configuration: the registers of the CPU at the moment (as the exception frame lays them out: the
  next instruction is \<open>frame_elr_hyp\<close>, the status register \<open>frame_spsr_hyp\<close>) and the machine.\<close>

type_synonym config = "HypExceptState \<times> machine"

text \<open>Who is responsible for a step.\<close>

datatype actor = Guest nat | Idle_Loop | Timer_Interrupt

text \<open>The entry code of \<open>hyp-vectors.S\<close>: the exception type of the vector and the fault registers are put
  in the frame next to the interrupted registers.\<close>

definition hyp_vector :: "u32 \<Rightarrow> u32 \<Rightarrow> u32 \<Rightarrow> u32 \<Rightarrow> u32 \<Rightarrow> HypExceptState \<Rightarrow> HypExceptState" where
  "hyp_vector type hsr hdfar hifar hpfar f = f\<lparr>frame_exception_type := type, frame_hsr := hsr,
     frame_hdfar := hdfar, frame_hifar := hifar, frame_hpfar := hpfar\<rparr>"

text \<open>A guest changes its own registers in any way; what it does to memory is below this model, except
  for what its accesses may reach, see \<open>guests_isolated\<close>. Its exceptions have any syndrome. A step is a
  return to lower mode: after \<open>HYP_ACTION_HALT\<close> the vectors stay in \<open>hyp_halt\<close> for ever.\<close>

inductive hv_step :: "actor \<Rightarrow> config \<Rightarrow> config \<Rightarrow> bool" where
  guest_runs: "cur_of s < HV_MAX_GUEST_VCPUS \<Longrightarrow> frame_ok g \<Longrightarrow>
    hv_step (Guest (cur_of s)) (f, s) (g, s\<lparr>banked := b, vbar := w\<rparr>)"
| guest_traps: "cur_of s < HV_MAX_GUEST_VCPUS \<Longrightarrow>
    hyp_handle_exception (hyp_vector HYP_EXCEPTION_LOWER_SYNC hsr hdfar hifar hpfar f) s =
      Some (HYP_ACTION_RETURN, g, t) \<Longrightarrow> hv_step (Guest (cur_of s)) (f, s) (g, t)"
| idle_loops: "cur_of s = HV_IDLE_VCPU_IDX \<Longrightarrow> hv_step Idle_Loop (f, s) (f\<lparr>frame_elr_hyp := pc\<rparr>, s)"
| interrupted: "hyp_handle_exception (hyp_vector HYP_EXCEPTION_IRQ hsr hdfar hifar hpfar f) s =
      Some (HYP_ACTION_RETURN, g, t) \<Longrightarrow> hv_step Timer_Interrupt (f, s) (g, t)"

inductive hv_run :: "actor list \<Rightarrow> config \<Rightarrow> config \<Rightarrow> bool" where
  run_stops: "hv_run [] c c"
| run_steps: "hv_step a c d \<Longrightarrow> hv_run as d e \<Longrightarrow> hv_run (a # as) c e"

inductive_cases hv_stepE: "hv_step a c d"

subsection \<open>The invariant\<close>

definition vms_built :: "machine \<Rightarrow> bool" where
  "vms_built s \<longleftrightarrow> length (vuarts s) = HV_MAX_VMS \<and>
     (\<forall>i < HV_MAX_VMS. guest_vm_ok i (sch_vm (scheduler s) ! i) (stage2_tables s))"

definition sys_inv :: "config \<Rightarrow> bool" where
  "sys_inv c \<longleftrightarrow> (case c of (f, s) \<Rightarrow> frame_ok f \<and> sched_run s \<and> vms_built s)"

lemma vms_built_same: "sys_same s s' \<Longrightarrow> vms_built s' = vms_built s"
  by (simp add: vms_built_def sys_same_def)

lemma vms_built_ok: "vms_built s \<Longrightarrow> vms_ok s"
  by (simp add: vms_built_def vms_ok_def guest_vm_ok_def)

lemma hyp_vector_ok [simp]:
  "frame_ok (hyp_vector ty h a b c f) = frame_ok f" "frame_exception_type (hyp_vector ty h a b c f) = ty"
  by (simp_all add: hyp_vector_def frame_ok_def)

text \<open>What a guest finds of itself when it runs: its general and banked registers, program counter and
  status, wherever they are kept meanwhile.\<close>

definition guest_sees :: "nat \<Rightarrow> config \<Rightarrow> u32 list \<times> u32 \<times> u32 \<times> u32 \<times> HypBankedRegs \<times> u32" where
  "guest_sees j c = (case c of (f, s) \<Rightarrow> case guest_regs j f s of (g, b, v) \<Rightarrow>
     (frame_r g, frame_lr g, frame_elr_hyp g, frame_spsr_hyp g, b, v))"

lemma sees_vector: "guest_sees j (hyp_vector ty h a b c f, s) = guest_sees j (f, s)"
  by (simp add: guest_sees_def guest_regs_def hyp_vector_def Let_def)

lemma sees_regs: "guest_regs j f' s' = guest_regs j f s \<Longrightarrow> guest_sees j (f', s') = guest_sees j (f, s)"
  by (simp add: guest_sees_def)

text \<open>The frame is only written to by the vectors: an IRQ is handled like \<open>handle_irq\<close> after output.\<close>

lemma irq_exception:
  assumes "frame_exception_type f = HYP_EXCEPTION_IRQ" "hyp_handle_exception f s = Some (r, f', s')"
  shows "\<exists>s1 t. io_out s s1 t \<and> handle_irq f s1 = Some (r, f', s')"
proof -
  obtain s1 where d: "(if hyp_except_verbose s then hyp_dump_exception_state f s else Some s) = Some s1"
    and h: "handle_irq f s1 = Some (r, f', s')"
    using assms unfolding hyp_handle_exception_def bind_eq_Some_conv Let_def by auto
  have "\<exists>t. io_out s s1 t" using d dump_io(1) io_step_refl by (metis option.inject)
  then show ?thesis using h by blast
qed

text \<open>What one step leaves to a guest that is not its actor.\<close>

definition undisturbed :: "nat \<Rightarrow> config \<Rightarrow> config \<Rightarrow> bool" where
  "undisturbed j c d \<longleftrightarrow> guest_sees j d = guest_sees j c \<and> vuarts (snd d) ! j = vuarts (snd c) ! j \<and>
     virq_active (vcpu_at j (snd d)) = virq_active (vcpu_at j (snd c)) \<and>
     (virq_pending (vcpu_at j (snd d)) = virq_pending (vcpu_at j (snd c)) \<or>
      virq_pending (vcpu_at j (snd d)) = virq_pending (vcpu_at j (snd c)) OR 1)"

lemma undisturbed_refl: "undisturbed j c c"
  by (simp add: undisturbed_def)

lemma undisturbed_trans: "undisturbed j c d \<Longrightarrow> undisturbed j d e \<Longrightarrow> undisturbed j c e"
proof -
  have o: "(p OR 1) OR 1 = p OR 1" for p :: u32 by (simp add: or.assoc)
  show "undisturbed j c d \<Longrightarrow> undisturbed j d e \<Longrightarrow> undisturbed j c e"
    unfolding undisturbed_def using o by metis
qed

lemma step_inv:
  assumes "hv_step a c d" "sys_inv c"
  shows "sys_inv d \<and> sys_same (snd c) (snd d) \<and> (\<forall>j < HV_MAX_GUEST_VCPUS. a \<noteq> Guest j \<longrightarrow> undisturbed j c d)"
  using assms
proof (induction rule: hv_step.induct)
  case (guest_runs s g f w b)
  let ?t = "s\<lparr>banked := b, vbar := w\<rparr>"
  have at: "vcpu_at i ?t = vcpu_at i s" "cur_of ?t = cur_of s" for i by (simp_all add: vcpu_at_def cur_of_def)
  have "hw_for i ?t = hw_for i s" for i
    unfolding hw_for_def at hcr_bit_def by (simp cong: option.case_cong)
  then have run: "sched_run ?t = sched_run s" unfolding sched_run_def at by simp
  have same: "sys_same s ?t" by (simp add: sys_same_def)
  show ?case using guest_runs run same vms_built_same [OF same]
    by (auto simp: sys_inv_def undisturbed_def guest_sees_def guest_regs_def at Let_def)
next
  case (guest_traps s hsr hdfar hifar hpfar f g t)
  let ?f = "hyp_vector HYP_EXCEPTION_LOWER_SYNC hsr hdfar hifar hpfar f"
  have "guest_call ?f s" "vms_ok s"
    using guest_traps vms_built_ok by (simp_all add: guest_call_def sys_inv_def)
  from guest_exception_handled [OF this _ guest_traps(2)]
  have h: "handled (cur_of s) ?f s HYP_ACTION_RETURN g t" by simp
  have "undisturbed j (f, s) (g, t)" if "j < 2" "j \<noteq> cur_of s" for j
    using h that sees_regs [of j g t ?f s] sees_vector
    unfolding handled_def undisturbed_def by (simp add: guest_virqs_def)
  then show ?case
    using h vms_built_same [of s t] guest_traps(3) unfolding handled_def sys_inv_def by auto
next
  case (idle_loops s f pc)
  have "undisturbed j (f, s) (f\<lparr>frame_elr_hyp := pc\<rparr>, s)" if "j < 2" for j
    using that idle_loops(1) by (simp add: undisturbed_def guest_sees_def guest_regs_def)
  then show ?case using idle_loops by (simp add: sys_inv_def frame_ok_def)
next
  case (interrupted hsr hdfar hifar hpfar f s g t)
  let ?f = "hyp_vector HYP_EXCEPTION_IRQ hsr hdfar hifar hpfar f"
  obtain s1 u where io: "io_out s s1 u" and h: "handle_irq ?f s1 = Some (HYP_ACTION_RETURN, g, t)"
    using irq_exception [OF _ interrupted(1)] by auto
  have "sched_run s1" "frame_ok ?f" using interrupted(2) io_machine(11) [OF io] by (simp_all add: sys_inv_def)
  note H = irq_handled [OF this h]
  have k: "irq_kept ?f s g t" using irq_kept_trans [OF irq_kept_io [OF io]] H by blast
  have src: "irq_source s1" using H by (auto split: if_splits)
  have "undisturbed j (f, s) (g, t)" if "j < 2" for j
    using k that sees_regs [of j g t ?f s] sees_vector unfolding irq_kept_def undisturbed_def by simp
  moreover have "sys_same s t" using k by (simp add: irq_kept_def)
  ultimately show ?case
    using H src vms_built_same [of s t] interrupted(2) by (auto simp: sys_inv_def)
qed

lemma run_inv:
  assumes "hv_run as c d" "sys_inv c"
  shows "sys_inv d \<and> sys_same (snd c) (snd d) \<and>
    (\<forall>j < HV_MAX_GUEST_VCPUS. Guest j \<notin> set as \<longrightarrow> undisturbed j c d)"
  using assms
proof (induction rule: hv_run.induct)
  case (run_stops c)
  then show ?case by (simp add: undisturbed_refl)
next
  case (run_steps a c d as e)
  note S = step_inv [OF run_steps(1,4)]
  then have I: "sys_inv e \<and> sys_same (snd d) (snd e) \<and>
      (\<forall>j < HV_MAX_GUEST_VCPUS. Guest j \<notin> set as \<longrightarrow> undisturbed j d e)" using run_steps(3) by blast
  have "undisturbed j c e" if "j < 2" "Guest j \<notin> set (a # as)" for j
    using S I that undisturbed_trans [of j c d e] by auto
  then show ?case using S I sys_same_trans by blast
qed

end
