(* ===== verification/Boot_Protocol.thy ===== *)
theory Boot_Protocol
  imports Prelude
begin

section \<open>The boot protocol: boot-defs.h\<close>

text \<open>
  The opcodes the two sides of the bootloader exchange, and how words travel as bytes on the line. Both
  the loader (\<open>Bootloader\<close>) and the host program (\<open>Put_Code\<close>) build on these facts.
\<close>

subsection \<open>Opcodes\<close>

abbreviation (input) ARMBASE :: u32 where "ARMBASE \<equiv> 0x8000"
abbreviation (input) BOOT_START :: u32 where "BOOT_START \<equiv> 0xFFFF0000"
abbreviation (input) GET_PROG_INFO :: u32 where "GET_PROG_INFO \<equiv> 0x11112222"
abbreviation (input) PUT_PROG_INFO :: u32 where "PUT_PROG_INFO \<equiv> 0x33334444"
abbreviation (input) GET_CODE :: u32 where "GET_CODE \<equiv> 0x55556666"
abbreviation (input) PUT_CODE :: u32 where "PUT_CODE \<equiv> 0x77778888"
abbreviation (input) BOOT_SUCCESS :: u32 where "BOOT_SUCCESS \<equiv> 0x9999AAAA"
abbreviation (input) BOOT_ERROR :: u32 where "BOOT_ERROR \<equiv> 0xBBBBCCCC"
abbreviation (input) BAD_CODE_ADDR :: u32 where "BAD_CODE_ADDR \<equiv> 0xDEAD0002"
abbreviation (input) PRINT_STRING :: u32 where "PRINT_STRING \<equiv> 0xDDDDEEEE"

definition boot_op_to_str :: "u32 \<Rightarrow> string" where
  "boot_op_to_str op =
     (if op = BOOT_START then ''BOOT_START''
      else if op = GET_PROG_INFO then ''GET_PROG_INFO''
      else if op = PUT_PROG_INFO then ''PUT_PROG_INFO''
      else if op = GET_CODE then ''GET_CODE''
      else if op = PUT_CODE then ''PUT_CODE''
      else if op = BOOT_SUCCESS then ''BOOT_SUCCESS''
      else if op = PRINT_STRING then ''PRINT_STRING''
      else if op = BOOT_ERROR then ''BOOT_ERROR''
      else if op = BAD_CODE_ADDR then ''BAD_CODE_ADDR''
      else ''UNKNOWN'')"

subsection \<open>Words and opcodes on the line\<close>

text \<open>A word is sent low byte first.\<close>

definition le32 :: "u32 \<Rightarrow> u8 list" where
  "le32 u = [ucast u, ucast (drop_bit 8 u), ucast (drop_bit 16 u), ucast (drop_bit 24 u)]"

definition window_step :: "u8 \<Rightarrow> u32 \<Rightarrow> u32" where
  "window_step b w = drop_bit 8 w OR push_bit 24 (ucast b)"

lemma le32_length [simp]: "length (le32 u) = 4"
  by (simp add: le32_def)

lemma le32_nth: "i < 4 \<Longrightarrow> le32 u ! i = ucast (drop_bit (8 * i) u)"
proof -
  assume "i < 4"
  then consider "i = 0" | "i = 1" | "i = 2" | "i = 3" by linarith
  then show ?thesis by cases (simp_all add: le32_def)
qed

lemma le32_bit: "n < 32 \<Longrightarrow> bit (le32 u ! (n div 8)) (n mod 8) = bit u n"
  by (simp add: le32_nth less_mult_imp_div_less bit_ucast_iff bit_drop_bit_eq)

lemma le32_inj: "le32 u = le32 v \<longleftrightarrow> u = v"
proof
  assume e: "le32 u = le32 v"
  show "u = v"
  proof (rule bit_word_eqI)
    fix n assume "n < LENGTH(32)"
    then show "bit u n = bit v n" using le32_bit [of n u] le32_bit [of n v] e by simp
  qed
qed simp

lemma le32_of_bytes:
  "le32 (ucast a OR push_bit 8 (ucast b) OR push_bit 16 (ucast c) OR push_bit 24 (ucast d)) = [a, b, c, d]"
  unfolding le32_def list.inject by (intro conjI bit_word_eqI) (auto simp: bit_simps dest: bit_imp_le_length)

lemma le32_list: "[le32 u ! 0, le32 u ! 1, le32 u ! 2, le32 u ! 3] = le32 u"
  by (simp add: le32_def)

lemma le32_join:
  "ucast (le32 u ! 0) OR push_bit 8 (ucast (le32 u ! 1)) OR
     push_bit 16 (ucast (le32 u ! 2)) OR push_bit 24 (ucast (le32 u ! 3)) = u"
  using le32_of_bytes le32_list le32_inj by metis

lemma le32_window: "le32 (fold window_step (p @ [a, b, c, d]) w) = [a, b, c, d]"
  unfolding le32_def list.inject
  by (intro conjI bit_word_eqI) (auto simp: window_step_def bit_simps dest: bit_imp_le_length)

text \<open>The bytes \<open>p\<close> end in the opcode \<open>e\<close>.\<close>

definition opcode_ends :: "u32 \<Rightarrow> u8 list \<Rightarrow> bool" where
  "opcode_ends e p \<longleftrightarrow> 4 \<le> length p \<and> drop (length p - 4) p = le32 e"

lemma window_opcode: "4 \<le> length p \<Longrightarrow> fold window_step p w = e \<longleftrightarrow> opcode_ends e p"
proof -
  assume l: "4 \<le> length p"
  define q where "q = drop (length p - 4) p"
  have "length q = 4" using l by (simp add: q_def)
  then obtain a b c d where q: "q = [a, b, c, d]" by (auto simp: numeral_eq_Suc length_Suc_conv)
  have "p = take (length p - 4) p @ [a, b, c, d]" unfolding q [symmetric] q_def by simp
  then have "le32 (fold window_step p w) = q" using le32_window q by metis
  then show ?thesis using l le32_inj by (auto simp: opcode_ends_def q_def [symmetric])
qed

text \<open>The first occurrence of an opcode in a stream of bytes.\<close>

definition opcode_first :: "u32 \<Rightarrow> u8 list \<Rightarrow> bool" where
  "opcode_first e rx \<longleftrightarrow> opcode_ends e rx \<and> (\<forall>k < length rx. k < 2 ^ 32 \<longrightarrow> \<not> opcode_ends e (take k rx))"

subsection \<open>Traffic\<close>

text \<open>What a party receives, sends and stores, in order.\<close>

datatype traffic = Rx u8 | Tx u8 | Store u32 u8

fun sent :: "traffic list \<Rightarrow> u8 list" where
  "sent [] = []"
| "sent (Tx b # ts) = b # sent ts"
| "sent (_ # ts) = sent ts"

fun received :: "traffic list \<Rightarrow> u8 list" where
  "received [] = []"
| "received (Rx b # ts) = b # received ts"
| "received (_ # ts) = received ts"

fun stored :: "traffic list \<Rightarrow> (u32 \<times> u8) list" where
  "stored [] = []"
| "stored (Store a b # ts) = (a, b) # stored ts"
| "stored (_ # ts) = stored ts"

lemma traffic_append [simp]:
  "sent (ts @ us) = sent ts @ sent us" "received (ts @ us) = received ts @ received us"
  "stored (ts @ us) = stored ts @ stored us"
  by (induction ts rule: sent.induct) simp_all

lemma traffic_map [simp]:
  "sent (map Tx bs) = bs" "received (map Tx bs) = []" "stored (map Tx bs) = []"
  "sent (map Rx bs) = []" "received (map Rx bs) = bs" "stored (map Rx bs) = []"
  by (induction bs) simp_all

end
