(* ===== verification/Traffic.thy ===== *)
theory Traffic
  imports Timers Boot_Protocol
begin

section \<open>Traffic: what a run sends, receives and stores\<close>

text \<open>
  The history of a run read as traffic: bytes received and sent on the serial line and bytes stored in
  memory, in order; \<open>line_run s s' ts\<close> says that a run from \<open>s\<close> to \<open>s'\<close> changed nothing but the
  history, by traffic \<open>ts\<close> and accesses to other registers. The lemmas give the traffic of the UART
  operations.
\<close>

fun event_traffic :: "hw_event \<Rightarrow> traffic list" where
  "event_traffic (EvWr (Dev a) v) = (if a = AUX_MU_IO_REG then [Tx (ucast v)] else [])"
| "event_traffic (EvRd (Dev a) v) = (if a = AUX_MU_IO_REG then [Rx (ucast v)] else [])"
| "event_traffic (EvWr8 a v) = [Store a v]"
| "event_traffic _ = []"

definition line_run :: "'a hw_scheme \<Rightarrow> 'a hw_scheme \<Rightarrow> traffic list \<Rightarrow> bool" where
  "line_run s s' ts \<longleftrightarrow> (\<exists>es. s' = s\<lparr>hw_log := hw_log s @ es\<rparr> \<and> concat (map event_traffic es) = ts)"

lemma run_trans: "line_run s s1 a \<Longrightarrow> line_run s1 s2 b \<Longrightarrow> a @ b = c \<Longrightarrow> line_run s s2 c"
  unfolding line_run_def by (elim exE conjE) (rule_tac x = "es @ esa" in exI, simp)

lemma line_run_unique: "line_run s s' ts \<Longrightarrow> line_run s s' us \<Longrightarrow> us = ts"
proof -
  assume "line_run s s' ts" "line_run s s' us"
  then obtain es fs where 1: "s' = s\<lparr>hw_log := hw_log s @ es\<rparr>" "concat (map event_traffic es) = ts"
    and 2: "s' = s\<lparr>hw_log := hw_log s @ fs\<rparr>" "concat (map event_traffic fs) = us" unfolding line_run_def by blast
  have "hw_log s @ es = hw_log s @ fs" using arg_cong [OF 1(1), of hw_log] arg_cong [OF 2(1), of hw_log] by simp
  then show "us = ts" using 1(2) 2(2) by simp
qed

lemma run_emit: "line_run s (emit e s) (event_traffic e)"
  by (auto simp: line_run_def emit_def intro!: exI [of _ "[e]"])

lemma run_refl: "line_run s s []"
  by (auto simp: line_run_def intro!: exI [of _ "[]"])

lemma run_silent: "line_run s s1 a \<Longrightarrow> line_run s1 s2 [] \<Longrightarrow> line_run s s2 a"
  by (erule (1) run_trans) simp

lemma run_dev:
  "line_run s (DSB s) []" "r \<noteq> AUX_MU_IO_REG \<Longrightarrow> line_run s (PUT32 r v s) []"
  "r \<noteq> AUX_MU_IO_REG \<Longrightarrow> GET32 r s = (v, s') \<Longrightarrow> line_run s s' []"
  "GET32 AUX_MU_IO_REG s = (v, s') \<Longrightarrow> line_run s s' [Rx (ucast v)]"
  "line_run s (PUT32 AUX_MU_IO_REG v s) [Tx (ucast v)]" "line_run s (PUT8 a b s) [Store a b]"
  using run_emit [of s EvDSB] run_emit [of s "EvWr (Dev r) v"] run_emit [of s "EvRd (Dev r) v"]
    run_emit [of s "EvRd (Dev AUX_MU_IO_REG) v"] run_emit [of s "EvWr (Dev AUX_MU_IO_REG) v"]
    run_emit [of s "EvWr8 a b"]
  by (auto simp: DSB_def PUT32_def GET32_def PUT8_def read_port_def write_port_def Let_def)

lemma run_wait:
  assumes "uart_wait m s = Some s'"
  shows "line_run s s' []"
proof (rule uart_wait.raw_induct [OF _ assms])
  fix f :: "u32 \<Rightarrow> 'a hw_scheme \<Rightarrow> 'a hw_scheme option" and m s s'
  assume IH: "\<And>m s y. f m s = Some y \<Longrightarrow> line_run s y []"
    and st: "(let (v, s) = GET32 AUX_MU_LSR_REG s in if v AND m = 0 then f m s else Some s) = Some s'"
  obtain v s1 where g: "GET32 AUX_MU_LSR_REG s = (v, s1)" by fastforce
  have "line_run s s1 []" by (rule run_dev(3) [OF _ g]) simp
  then show "line_run s s' []" using st g IH [of m s1 s'] by (auto split: if_splits intro: run_silent)
qed

lemma run_Put8:
  assumes "UART_Put8 c s = Some s'"
  shows "line_run s s' [Tx c]"
proof -
  obtain s1 where w: "uart_wait 0x20 (DSB s) = Some s1" and s': "s' = DSB (PUT32 AUX_MU_IO_REG (ucast c) s1)"
    using assms by (auto simp: UART_Put8_def Let_def split: bind_splits)
  have "line_run s s1 []" by (rule run_silent [OF run_dev(1) run_wait [OF w]])
  then have "line_run s (PUT32 AUX_MU_IO_REG (ucast c) s1) [Tx c]"
    using run_dev(5) [of s1 "ucast c"] by (rule run_trans) (simp add: ucast_ucast_byte)
  then show ?thesis unfolding s' by (rule run_silent [OF _ run_dev(1)])
qed

lemma byte_of_reading: "word_of_int (uint (v AND 0xFF)) = (ucast v :: u8)" for v :: u32
proof -
  have m: "(0xFF :: u32) = mask 8" by (simp add: mask_eq_exp_minus_1)
  have "word_of_int (uint (v AND 0xFF)) = (ucast (v AND mask 8) :: u8)" unfolding m ucast_eq ..
  also have "\<dots> = ucast v" by (rule bit_word_eqI) (auto simp: bit_simps)
  finally show ?thesis .
qed

lemma run_Get8:
  assumes "UART_Get8 s = Some (r, s')"
  shows "line_run s s' [Rx (word_of_int r)]"
proof -
  obtain s1 v s2 where w: "uart_wait 1 (DSB s) = Some s1" and g: "GET32 AUX_MU_IO_REG s1 = (v, s2)"
    and s': "s' = DSB s2" and r: "r = uint (v AND 0xFF)"
    using assms by (auto simp: UART_Get8_def Let_def split: bind_splits prod.splits)
  have "line_run s s1 []" by (rule run_silent [OF run_dev(1) run_wait [OF w]])
  then have "line_run s s2 [Rx (ucast v)]" by (rule run_trans [OF _ run_dev(4) [OF g]]) simp
  then show ?thesis unfolding s' r byte_of_reading by (rule run_silent [OF _ run_dev(1)])
qed

lemma run_flags:
  "UART_Has_Data s = (d, s') \<Longrightarrow> line_run s s' []" "UART_Tx_Is_Empty s = (d, s') \<Longrightarrow> line_run s s' []"
  "TIM_SYS_Get_Ticks s = (n, s') \<Longrightarrow> line_run s s' []"
proof -
  obtain v s1 where g: "GET32 AUX_MU_LSR_REG (DSB s) = (v, s1)" by fastforce
  have "line_run s s1 []" by (rule run_silent [OF run_dev(1) run_dev(3) [OF _ g]]) simp
  then have "line_run s (DSB s1) []" by (rule run_silent [OF _ run_dev(1)])
  then show "UART_Has_Data s = (d, s') \<Longrightarrow> line_run s s' []" "UART_Tx_Is_Empty s = (d, s') \<Longrightarrow> line_run s s' []"
    using g by (auto simp: UART_Has_Data_def UART_Tx_Is_Empty_def Let_def)
  show "TIM_SYS_Get_Ticks s = (n, s') \<Longrightarrow> line_run s s' []"
    unfolding TIM_SYS_Get_Ticks_def by (rule run_dev(3)) simp_all
qed

lemma run_flush:
  assumes "UART_Flush_Tx s = Some s'"
  shows "line_run s s' []"
proof (rule UART_Flush_Tx.raw_induct [OF _ assms])
  fix f :: "'a hw_scheme \<Rightarrow> 'a hw_scheme option" and s s'
  assume IH: "\<And>s y. f s = Some y \<Longrightarrow> line_run s y []"
    and st: "(let (e, s) = UART_Tx_Is_Empty s in if \<not> e then f s else Some s) = Some s'"
  obtain e s1 where g: "UART_Tx_Is_Empty s = (e, s1)" by fastforce
  then show "line_run s s' []" using st IH [of s1 s'] run_flags(2) [OF g]
    by (auto split: if_splits intro: run_silent)
qed

subsection \<open>\<open>UART_Init\<close> returns and is silent\<close>

lemma run_RMW:
  assumes "r \<noteq> AUX_MU_IO_REG" "GET32 r s = (v, s1)"
  shows "line_run s (PUT32 r w s1) []"
  by (rule run_silent [OF run_dev(3) [OF assms] run_dev(2) [OF assms(1)]])

lemma run_uart_pin:
  assumes "pin = 14 \<or> pin = 15"
  shows "\<exists>s'. GPIO_set_mode pin ALT5 s = Some s' \<and> line_run s s' []"
proof -
  obtain v s1 where g: "GET32 0x3F200004 s = (v, s1)" by fastforce
  have d: "(pin div 10) * 4 + 0x3F200000 = 0x3F200004" "pin < 54" using assms by auto
  have "\<exists>w. GPIO_set_mode pin ALT5 s = Some (PUT32 0x3F200004 w s1)"
    using g d by (auto simp: GPIO_set_mode_def hv_assert_def Let_def add.commute)
  then show ?thesis using run_RMW [OF _ g] by auto
qed

lemma run_uart_init: "\<exists>s'. UART_Init s = Some s' \<and> line_run s s' []"
proof -
  obtain s1 s2 where 1: "GPIO_set_mode 14 ALT5 (DSB s) = Some s1" "line_run (DSB s) s1 []"
    and 2: "GPIO_set_mode 15 ALT5 s1 = Some s2" "line_run s1 s2 []"
    using run_uart_pin [of 14] run_uart_pin [of 15] by blast
  obtain e s3 where 3: "GET32 0x3F215004 (DSB s2) = (e, s3)" by fastforce
  have "line_run (DSB s2) s3 []" by (rule run_dev(3) [OF _ 3]) simp
  then have "line_run s s3 []"
    by (intro run_silent [OF run_silent [OF run_dev(1) 1(2)] run_silent [OF 2(2) run_silent [OF run_dev(1)]]])
  then show ?thesis
    by (simp add: UART_Init_def UART_Device_Enable_def UART_Enable_def 1(1) 2(1) 3 Let_def)
       (intro run_silent [OF _ run_dev(1)] run_silent [OF _ run_dev(2)]; simp)
qed

text \<open>The bytes sent, as in \<open>io_out\<close>.\<close>

lemma line_run_io: "line_run s s' ts \<Longrightarrow> io_out s s' (sent ts)"
proof -
  have e: "event_byte ev = sent (event_traffic ev)" for ev
    by (cases ev rule: event_traffic.cases) simp_all
  have "uart_bytes es = sent (concat (map event_traffic es))" for es
    by (induction es) (simp_all add: e)
  then show "line_run s s' ts \<Longrightarrow> io_out s s' (sent ts)" by (auto simp: line_run_def io_out_def)
qed

end
