(* ===== verification/Guest_Image.thy ===== *)
theory Guest_Image
  imports Scheduler_Init
begin

section \<open>Loading the guests: guest-image.h and the loaders of the test programs\<close>

text \<open>
  The programs in \<open>tests/\<close> that start guests embed their images and copy them to the slots of physical
  memory before the hypervisor is initialised. A store to memory is an event of the history, and
  \<open>memory_byte\<close> reads the history as memory. What is shown: a guest finds its image at the addresses it
  is linked to, seen through its own translation.
\<close>

record GuestImage =
  image_id :: u32
  load_base :: u32
  image_bytes :: "u8 list"

primrec copy_image :: "u8 list \<Rightarrow> u32 \<Rightarrow> 'a hw_scheme \<Rightarrow> 'a hw_scheme" where
  "copy_image [] dst s = s"
| "copy_image (b # bs) dst s = copy_image bs (dst + 1) (emit (EvWr8 dst b) s)"

text \<open>\<open>load_guest_image\<close> and \<open>load_guest_virq_image\<close>: one image, without checks.\<close>

definition load_guest_image :: "u8 list \<Rightarrow> 'a hw_scheme \<Rightarrow> 'a hw_scheme" where
  "load_guest_image bytes s = ISB (DSB (copy_image bytes (ucast GUEST_BASE) s))"

text \<open>\<open>load_guest_images\<close>: the table of images, each checked. A \<open>panic\<close> does not return.\<close>

definition load_image :: "GuestImage \<Rightarrow> 'a hw_scheme \<Rightarrow> 'a hw_scheme option" where
  "load_image im s =
     (let image_size = (of_nat (length (image_bytes im)) :: u32) in
      if image_id im \<ge> of_nat HV_MAX_GUEST_VCPUS then None
      else if image_size > ucast GUEST_SLOT_SIZE then None
      else Some (copy_image (image_bytes im) (load_base im) s))"

primrec load_images :: "GuestImage list \<Rightarrow> 'a hw_scheme \<Rightarrow> 'a hw_scheme option" where
  "load_images [] s = Some s"
| "load_images (im # ims) s = Option.bind (load_image im s) (load_images ims)"

definition guest_images :: "hv_image \<Rightarrow> GuestImage list" where
  "guest_images img =
     [\<lparr>image_id = 0, load_base = ucast (GUEST_SLOT_BASE 0), image_bytes = img_guests img ! 0\<rparr>,
      \<lparr>image_id = 1, load_base = ucast (GUEST_SLOT_BASE 1), image_bytes = img_guests img ! 1\<rparr>]"

definition load_guest_images :: "hv_image \<Rightarrow> 'a hw_scheme \<Rightarrow> 'a hw_scheme option" where
  "load_guest_images img s = do { s \<leftarrow> load_images (guest_images img) s; Some (ISB (DSB s)) }"

subsection \<open>What is sent and what memory holds\<close>

lemma copy_image_io: "io_out s (copy_image bs dst s) []"
proof (induction bs arbitrary: dst s)
  case (Cons b bs)
  have "io_out s (emit (EvWr8 dst b) s) []" using io_out_emit [of s "EvWr8 dst b"] by simp
  from io_out_trans [OF this Cons.IH] show ?case by simp
qed (simp add: io_out_refl)

lemma load_guest_image_io: "io_out s (load_guest_image bs s) []"
  unfolding load_guest_image_def
  using io_out_trans [OF io_out_trans [OF copy_image_io io_out_DSB] io_out_ISB] by fastforce

lemma load_guest_images_io: "load_guest_images img s = Some s' \<Longrightarrow> io_out s s' []"
  using io_out_trans [OF io_out_trans [OF io_out_trans [OF copy_image_io copy_image_io] io_out_DSB] io_out_ISB]
  by (fastforce simp: load_guest_images_def guest_images_def load_image_def Let_def split: if_splits)

text \<open>The byte last stored to an address.\<close>

fun memory_byte :: "hw_event list \<Rightarrow> u32 \<Rightarrow> u8 option \<Rightarrow> u8 option" where
  "memory_byte [] a m = m"
| "memory_byte (EvWr8 d b # es) a m = memory_byte es a (if d = a then Some b else m)"
| "memory_byte (_ # es) a m = memory_byte es a m"

lemma memory_byte_append: "memory_byte (es @ fs) a m = memory_byte fs a (memory_byte es a m)"
  by (induction es a m rule: memory_byte.induct) simp_all

definition memory_at :: "'a hw_scheme \<Rightarrow> u32 \<Rightarrow> u8 option" where
  "memory_at s a = memory_byte (hw_log s) a None"

lemma memory_at_simps [simp]:
  "memory_at (DSB s) a = memory_at s a" "memory_at (ISB s) a = memory_at s a"
  "memory_at (emit (EvWr8 d b) s) a = (if d = a then Some b else memory_at s a)"
  by (simp_all add: memory_at_def DSB_def ISB_def emit_def memory_byte_append)

text \<open>After the copy the bytes lie from the destination on, and nothing else has changed.\<close>

lemma copy_image_memory:
  assumes "unat dst + length bs \<le> 2 ^ 32"
  shows "memory_at (copy_image bs dst s) a =
    (if unat dst \<le> unat a \<and> unat a < unat dst + length bs then Some (bs ! (unat a - unat dst)) else memory_at s a)"
  using assms
proof (induction bs arbitrary: dst s)
  case (Cons b bs)
  show ?case
  proof (cases bs)
    case Nil
    then show ?thesis by (auto simp: word_unat_eq_iff)
  next
    case (Cons c cs)
    then have n: "unat (dst + 1) = unat dst + 1" using Cons.prems by (simp add: unat_add_no_wrap)
    show ?thesis using Cons.IH [of "dst + 1" "emit (EvWr8 dst b) s"] Cons.prems
      by (auto simp: n word_unat_eq_iff nth_Cons')
  qed
qed auto

lemma ucast_slot: "ucast (GUEST_SLOT_BASE 0) = (0x20000 :: u32)" "ucast (GUEST_SLOT_BASE 1) = (0x30000 :: u32)"
  by (simp_all add: GUEST_SLOT_BASE_def)

lemma load_guest_images_eq:
  assumes "\<And>i. i < 2 \<Longrightarrow> length (img_guests img ! i) < 2 ^ 32"
  shows "load_guest_images img s =
    (if length (img_guests img ! 0) \<le> 0x10000 \<and> length (img_guests img ! 1) \<le> 0x10000
     then Some (ISB (DSB (copy_image (img_guests img ! 1) 0x30000 (copy_image (img_guests img ! 0) 0x20000 s))))
     else None)"
proof -
  have "(of_nat (length (img_guests img ! i)) :: u32) > 0x10000 \<longleftrightarrow> \<not> length (img_guests img ! i) \<le> 0x10000" if "i < 2" for i
    using assms [OF that] by (simp add: word_less_nat_alt unat_of_nat_small not_le)
  from this [of 0] this [of 1] show ?thesis
    by (auto simp: word_le_nat_alt load_guest_images_def guest_images_def load_image_def ucast_slot not_le)
qed

lemma loaded_image:
  assumes len: "\<And>i. i < 2 \<Longrightarrow> length (img_guests img ! i) < 2 ^ 32" and load: "load_guest_images img s = Some s'"
    and i: "i < 2" and tr: "guest_translation i b = Inr pa" and k: "unat b < 0x20000 + length (img_guests img ! i)"
  shows "memory_at s' (ucast pa) = Some (img_guests img ! i ! (unat b - 0x20000))"
proof -
  have s: "length (img_guests img ! 0) \<le> 0x10000" "length (img_guests img ! 1) \<le> 0x10000"
    "s' = ISB (DSB (copy_image (img_guests img ! 1) 0x30000 (copy_image (img_guests img ! 0) 0x20000 s)))"
    using load load_guest_images_eq [OF len, of s] by (auto split: if_splits)
  have b: "0x20000 \<le> unat b" "unat b < 0x2f000" and pa: "pa = b + of_nat (i * 0x10000)"
    using tr by (auto simp: guest_translation_def split: if_splits)
  have o: "unat (of_nat (i * 0x10000) :: u64) = i * 0x10000" using i by (auto simp: less_2_cases_iff)
  then have "unat pa = unat b + i * 0x10000" unfolding pa using b i by (simp add: unat_add_no_wrap)
  then have "unat (ucast pa :: u32) = unat b + i * 0x10000" using b i by (simp add: unat_ucast_mod)
  then show ?thesis using s(1,2) b k i by (auto simp: s(3) copy_image_memory less_2_cases_iff)
qed

text \<open>C10: a guest finds its program. The loader comes back exactly if both images fit their slots; then, for
  each address at which the tables of guest \<open>i\<close> let it read and its image has a byte, the physical memory
  that the tables name holds that byte.\<close>

theorem guest_finds_image:
  assumes "\<forall>i < HV_MAX_VMS. length (img_guests img ! i) < 2 ^ 32" and "tables_base_ok (img_tables img)"
    and "length (sch_vm (scheduler s)) = HV_MAX_VMS" and "length (sch_vcpus (scheduler s)) = HV_MAX_VCPUS"
  shows "(load_guest_images img s \<noteq> None \<longleftrightarrow> (\<forall>i < HV_MAX_VMS. length (img_guests img ! i) \<le> unat GUEST_SLOT_SIZE)) \<and>
    (\<forall>s1 s2 i b pa. load_guest_images img s = Some s1 \<longrightarrow> hv_scheduler_init img s1 = Some s2 \<longrightarrow> i < HV_MAX_VMS \<longrightarrow>
       unat b < 0x20000 + length (img_guests img ! i) \<longrightarrow>
       hv_stage2_translate (Some (sch_vm (scheduler s2) ! i)) b True (stage2_tables s2) = Inr pa \<longrightarrow>
       memory_at s1 (ucast pa) = Some (img_guests img ! i ! (unat b - 0x20000)))"
proof (intro conjI allI impI)
  have g: "\<And>i. i < 2 \<Longrightarrow> length (img_guests img ! i) < 2 ^ 32" using assms(1) by blast
  show "load_guest_images img s \<noteq> None \<longleftrightarrow> (\<forall>i < HV_MAX_VMS. length (img_guests img ! i) \<le> unat GUEST_SLOT_SIZE)"
    using load_guest_images_eq [OF g, of s] by (auto simp: less_2_cases_iff)
  fix s1 s2 i b pa
  assume load: "load_guest_images img s = Some s1" and init: "hv_scheduler_init img s1 = Some s2" and i: "i < HV_MAX_VMS"
    and b: "unat b < 0x20000 + length (img_guests img ! i)"
    and tr: "hv_stage2_translate (Some (sch_vm (scheduler s2) ! i)) b True (stage2_tables s2) = Inr pa"
  have len: "length (sch_vm (scheduler s1)) = 2" "length (sch_vcpus (scheduler s1)) = 3"
    using assms(3,4) io_machine(1) [OF load_guest_images_io [OF load]] by simp_all
  have "length (img_guests img ! i) \<le> 0x10000"
    using load load_guest_images_eq [OF g, of s] i by (auto simp: less_2_cases_iff split: if_splits)
  then have "guest_translation i b = Inr pa"
    using scheduler_init_result(5) [OF assms(2) len init i] tr b by (simp add: guest_vm_ok_def translates_def)
  then show "memory_at s1 (ucast pa) = Some (img_guests img ! i ! (unat b - 0x20000))"
    using loaded_image [OF g load i _ b] by blast
qed

theorem guest_finds_image_witness:
  "\<exists>s1 s2. load_guest_images boot_image reset_machine = Some s1 \<and> hv_scheduler_init boot_image s1 = Some s2 \<and>
     hv_stage2_translate (Some (sch_vm (scheduler s2) ! 1)) 0x20004 True (stage2_tables s2) = Inr 0x30004 \<and>
     memory_at s1 0x30004 = Some 0xfd"
proof -
  have b: "tables_base_ok (img_tables boot_image)" by (simp add: tables_base_ok_def boot_image_def)
  have l: "length (sch_vm (scheduler reset_machine)) = 2" "length (sch_vcpus (scheduler reset_machine)) = HV_MAX_VCPUS"
    and r: "returns_ok reset_machine"
    by (simp_all add: reset_machine_def vuart_hw.defs reset_vuart_hw_def returns_ok_def)
  have g: "\<forall>i < HV_MAX_VMS. length (img_guests boot_image ! i) < 2 ^ 32"
    by (auto simp: boot_image_def less_2_cases_iff)
  note F = guest_finds_image [OF g b l]
  obtain s1 where s1: "load_guest_images boot_image reset_machine = Some s1"
    using F by (auto simp: boot_image_def less_2_cases_iff)
  note m = io_machine [OF load_guest_images_io [OF s1]]
  have l1: "length (sch_vm (scheduler s1)) = 2" "length (sch_vcpus (scheduler s1)) = 3" and r1: "returns_ok s1"
    using l r m(1) returns_ok_env [OF m(2)] by simp_all
  obtain s2 where s2: "hv_scheduler_init boot_image s1 = Some s2" using scheduler_init_returns [OF b l1 r1] by blast
  have t: "hv_stage2_translate (Some (sch_vm (scheduler s2) ! 1)) 0x20004 True (stage2_tables s2) = Inr 0x30004"
    using scheduler_init_result(5) [OF b l1 s2, of 1] by (simp add: guest_vm_ok_def translates_def guest_translation_def)
  have "memory_at s1 (ucast (0x30004 :: u64)) = Some (img_guests boot_image ! 1 ! (unat (0x20004 :: u64) - 0x20000))"
    by (rule F [THEN conjunct2, rule_format, OF s1 s2 _ _ t]) (simp_all add: boot_image_def)
  then show ?thesis using s1 s2 t by (simp add: boot_image_def)
qed

end
