(* ===== verification/Guest_Systems.thy ===== *)
theory Guest_Systems
  imports Hv_Steps Traffic Guest_Image
begin

section \<open>The systems with guests: the main functions of tests/test-guest-*.c\<close>

text \<open>
  Each of these programs puts the hypervisor and its guests together: it loads the images, initialises
  the scheduler and, most of them, the interrupts, and enters the first guest. The result of a \<open>main\<close> is
  what the processor enters lower mode with and the machine. The lemmas follow the machine through the
  phases they share: \<open>boot_ready\<close> after the scheduler is initialised, \<open>vcpus_set\<close> once the guests are
  chosen, and \<open>boot_done\<close> when the first one is entered.
\<close>

subsection \<open>Starting vCPUs\<close>

text \<open>\<open>cur_idx\<close>, \<open>cur_vcpu\<close> and the state of the boot vCPU.\<close>

definition select_boot_vcpu :: "machine \<Rightarrow> machine" where
  "select_boot_vcpu s =
     (let s = s\<lparr>scheduler := (scheduler s)\<lparr>cur_idx := 0\<rparr>\<rparr>;
          s = s\<lparr>scheduler := (scheduler s)\<lparr>cur_vcpu := Some 0\<rparr>\<rparr>
      in upd_vcpu 0 (vcpu_state_update (\<lambda>_. HV_VCPU_RUNNING)) s)"

definition enter_boot_vcpu :: "machine \<Rightarrow> guest_entry \<times> machine" where
  "enter_boot_vcpu s = hv_vcpu_enter_initial (sch_vm (scheduler s)) (vcpu_at 0 s) s"

definition init_vcpu :: "nat \<Rightarrow> machine \<Rightarrow> machine" where
  "init_vcpu i = upd_vcpu i (\<lambda>v. hv_vcpu_init v (of_nat i) (ucast GUEST_BASE) 0 HYP_LOWER_SVC_CPSR)"

definition start_vcpu_timer :: "nat \<Rightarrow> u32 \<Rightarrow> machine \<Rightarrow> machine" where
  "start_vcpu_timer i now s = store (Some i) (hv_vcpu_timer_start_periodic (deref (Some i) s) (ucast now) (1000000 div 300)) s"

definition init_guest_vcpus :: "hv_image \<Rightarrow> machine \<Rightarrow> machine" where
  "init_guest_vcpus img s =
     (let s = fold (\<lambda>im. init_vcpu (unat (image_id im))) (guest_images img) s
      in upd_vcpu 1 (vcpu_state_update (\<lambda>_. HV_VCPU_RUNNABLE)) (select_boot_vcpu s))"

definition init_timer_vcpus :: "hv_image \<Rightarrow> machine \<Rightarrow> machine" where
  "init_timer_vcpus img s =
     (let (now, s) = TIM_SYS_Get_Ticks s;
          s = fold (\<lambda>im s. start_vcpu_timer (unat (image_id im)) now (init_vcpu (unat (image_id im)) s)) (guest_images img) s
      in upd_vcpu 1 (vcpu_state_update (\<lambda>_. HV_VCPU_RUNNABLE)) (select_boot_vcpu s))"

definition start_boot_vcpu :: "machine \<Rightarrow> machine" where
  "start_boot_vcpu s =
     (let s = init_vcpu 0 s;
          (now, s) = TIM_SYS_Get_Ticks s;
          s = start_vcpu_timer 0 now s;
          s = hv_vtimer_rearm_physical s
      in select_boot_vcpu s)"

definition start_sched_timer :: "machine \<Rightarrow> machine option" where
  "start_sched_timer s = do {
     let s = TIM_Clear_Pending s;
     s \<leftarrow> GEN_TIM_init 100 s;
     s \<leftarrow> GEN_TIM_enable s;
     Some (hyp_enable_irq_routing s) }"

subsection \<open>The main functions\<close>

text \<open>\<open>test-guest-sched-virq-image.c\<close>, \<open>test-guest-image.c\<close>: one guest.\<close>

definition virq_image_main :: "hv_image \<Rightarrow> machine \<Rightarrow> (guest_entry \<times> machine) option" where
  "virq_image_main img s = do {
     s \<leftarrow> UART_Init s;
     let s = load_guest_image (img_guests img ! 0) s;
     s \<leftarrow> hv_scheduler_init img s;
     let s = s\<lparr>virq_controller := hv_virq_init (virq_controller s)\<rparr>;
     let s = s\<lparr>hv_scheduler_verbose := False\<rparr>;
     s \<leftarrow> start_sched_timer s;
     Some (enter_boot_vcpu (start_boot_vcpu s)) }"

definition guest_image_main :: "hv_image \<Rightarrow> machine \<Rightarrow> (guest_entry \<times> machine) option" where
  "guest_image_main img s = do {
     s \<leftarrow> UART_Init s;
     let s = load_guest_image (img_guests img ! 0) s;
     s \<leftarrow> hv_scheduler_init img s;
     let s = s\<lparr>hv_scheduler_verbose := True\<rparr>;
     Some (enter_boot_vcpu (select_boot_vcpu (init_vcpu 0 s))) }"

text \<open>\<open>test-guest-sched-yield.c\<close>, \<open>test-guest-stage2-fault.c\<close>, \<open>test-guest-mmio-uart.c\<close>,
  \<open>test-guest-sched-timer.c\<close>: two guests.\<close>

definition sched_yield_main :: "hv_image \<Rightarrow> machine \<Rightarrow> (guest_entry \<times> machine) option" where
  "sched_yield_main img s = do {
     s \<leftarrow> UART_Init s;
     s \<leftarrow> load_guest_images img s;
     s \<leftarrow> hv_scheduler_init img s;
     let s = s\<lparr>hv_scheduler_verbose := False\<rparr>;
     Some (enter_boot_vcpu (init_guest_vcpus img s)) }"

definition stage2_fault_main :: "hv_image \<Rightarrow> machine \<Rightarrow> (guest_entry \<times> machine) option" where
  "stage2_fault_main img s = do {
     s \<leftarrow> UART_Init s;
     s \<leftarrow> load_guest_images img s;
     let s = s\<lparr>hv_scheduler_verbose := True\<rparr>;
     s \<leftarrow> hv_scheduler_init img s;
     Some (enter_boot_vcpu (init_guest_vcpus img s)) }"

definition mmio_uart_test_main :: "hv_image \<Rightarrow> machine \<Rightarrow> (guest_entry \<times> machine) option" where
  "mmio_uart_test_main img s = do {
     s \<leftarrow> UART_Init s;
     s \<leftarrow> load_guest_images img s;
     let s = s\<lparr>hv_scheduler_verbose := False\<rparr>;
     s \<leftarrow> hv_scheduler_init img s;
     let s = s\<lparr>virq_controller := hv_virq_init (virq_controller s)\<rparr>;
     s \<leftarrow> start_sched_timer s;
     Some (enter_boot_vcpu (init_guest_vcpus img s)) }"

definition sched_timer_main :: "hv_image \<Rightarrow> machine \<Rightarrow> (guest_entry \<times> machine) option" where
  "sched_timer_main img s = do {
     s \<leftarrow> UART_Init s;
     s \<leftarrow> load_guest_images img s;
     s \<leftarrow> hv_scheduler_init img s;
     let s = s\<lparr>virq_controller := hv_virq_init (virq_controller s)\<rparr>;
     let s = s\<lparr>hv_scheduler_verbose := False\<rparr>;
     s \<leftarrow> start_sched_timer s;
     Some (enter_boot_vcpu (hv_vtimer_rearm_physical (init_timer_vcpus img s))) }"

text \<open>The systems: all of them, those that start the scheduling timer, and those that do not trace.\<close>

type_synonym guest_system = "hv_image \<Rightarrow> machine \<Rightarrow> (guest_entry \<times> machine) option"

definition timed_systems :: "guest_system set" where
  "timed_systems = {virq_image_main, mmio_uart_test_main, sched_timer_main}"

definition quiet_systems :: "guest_system set" where
  "quiet_systems = insert sched_yield_main timed_systems"

definition guest_systems :: "guest_system set" where
  "guest_systems = {guest_image_main, stage2_fault_main} \<union> quiet_systems"

text \<open>The registers the first guest starts with.\<close>

definition entry_frame :: "guest_entry \<Rightarrow> HypExceptState" where
  "entry_frame e = zero_HypExceptState\<lparr>frame_r := ge_r e, frame_lr := ge_lr e,
     frame_elr_hyp := ge_pc e, frame_spsr_hyp := ge_cpsr e\<rparr>"

text \<open>Reset: the zeroed BSS gives two VMs, three vCPUs and two UARTs, and no interrupt is pending.\<close>

definition reset_ok :: "machine \<Rightarrow> bool" where
  "reset_ok s \<longleftrightarrow> length (sch_vm (scheduler s)) = HV_MAX_VMS \<and>
     length (sch_vcpus (scheduler s)) = HV_MAX_VCPUS \<and> length (vuarts s) = HV_MAX_VMS \<and>
     (\<forall>i < HV_MAX_GUEST_VCPUS. vcpu_at i s = zero_HvVcpu) \<and> \<not> hcr_bit HCR_VI s"

subsection \<open>Up to the scheduler\<close>

lemma uart_init_spec: "\<exists>s'. UART_Init s = Some s' \<and> io_out s s' []"
  using run_uart_init [of s] line_run_io by fastforce

definition boot_same :: "machine \<Rightarrow> machine \<Rightarrow> bool" where
  "boot_same s s' \<longleftrightarrow> scheduler s' = scheduler s \<and> vuarts s' = vuarts s \<and>
     stage2_tables s' = stage2_tables s \<and> hcr s' = hcr s \<and> hw_in s' = hw_in s \<and>
     hyp_except_verbose s' = hyp_except_verbose s"

lemma boot_same_refl: "boot_same s s"
  by (simp add: boot_same_def)

lemma boot_same_trans: "boot_same s s1 \<Longrightarrow> boot_same s1 s' \<Longrightarrow> boot_same s s'"
  by (simp add: boot_same_def)

lemma boot_same_io: "io_out s s' t \<Longrightarrow> boot_same s s'"
  using io_machine [of s s' t] by (simp add: boot_same_def env_same_def)

lemma boot_same_upd [simp]:
  "boot_same s (s'\<lparr>hv_scheduler_verbose := b\<rparr>) = boot_same s s'" "boot_same s (s'\<lparr>virq_controller := c\<rparr>) = boot_same s s'"
  by (simp_all add: boot_same_def)

text \<open>\<open>s0\<close> is the machine at reset.\<close>

definition boot_ready :: "machine \<Rightarrow> machine \<Rightarrow> bool" where
  "boot_ready s0 s \<longleftrightarrow> sched_wf (scheduler s) \<and> cur_of s = 0 \<and> hcr_bit HCR_TWI s \<and> \<not> hcr_bit HCR_VI s \<and> vms_built s \<and>
     hw_in s = hw_in s0 \<and> hyp_except_verbose s = hyp_except_verbose s0 \<and>
     (\<forall>i < HV_MAX_GUEST_VCPUS. tm_period (vcpu_timer (vcpu_at i s)) = 0)"

lemma boot_ready_same: "boot_ready s0 s \<Longrightarrow> boot_same s s' \<Longrightarrow> boot_ready s0 s'"
  by (simp add: boot_ready_def boot_same_def cur_of_def hcr_bit_def vms_built_def vcpu_at_def)

lemma boot_ready_upd [simp]:
  "boot_ready s0 (s\<lparr>hv_scheduler_verbose := b\<rparr>) = boot_ready s0 s" "boot_ready s0 (s\<lparr>virq_controller := c\<rparr>) = boot_ready s0 s"
  by (simp_all add: boot_ready_def cur_of_def hcr_bit_def vms_built_def vcpu_at_def)

lemma boot_init:
  assumes reset: "reset_ok s" and base: "tables_base_ok (img_tables img)" and same: "boot_same s s1"
    and init: "hv_scheduler_init img s1 = Some s2"
  shows "boot_ready s s2" "hv_scheduler_verbose s2 = hv_scheduler_verbose s1"
proof -
  have at: "vcpu_at i s1 = vcpu_at i s" for i using same by (simp add: boot_same_def vcpu_at_def)
  have len: "length (sch_vm (scheduler s1)) = 2" "length (sch_vcpus (scheduler s1)) = 3"
    using reset same by (simp_all add: reset_ok_def boot_same_def)
  have fr: "frame_ok (ctx_hyp_state (vcpu_context (vcpu_at i s1)))" if "i < 2" for i
    using reset at that by (simp add: reset_ok_def zero_HvVcpu_def)
  note R = scheduler_init_result [OF base len init] and W = scheduler_init_wf [OF base len fr init]
  show "hv_scheduler_verbose s2 = hv_scheduler_verbose s1" by (rule R(9))
  have z: "vcpu_at i s1 = zero_HvVcpu" if "i < 2" for i using reset at that by (simp add: reset_ok_def)
  have "tm_period (vcpu_timer (vcpu_at i s2)) = 0" if "i < 2" for i
    using that z by (auto simp: vcpu_at_def R(1) init_vcpus_def fresh_vcpu_def zero_HvVcpu_def less_2_cases_iff)
  then show "boot_ready s s2"
    using W R(5-8,10) reset same
    by (auto simp: boot_ready_def boot_same_def reset_ok_def vms_built_def hcr_bit_def word_ao_dist)
qed

lemma boot_timer:
  assumes ready: "boot_ready s0 s" and run: "start_sched_timer s = Some s'"
  shows "boot_ready s0 s'" "gen_tim_period_ticks s' \<noteq> 0" "hv_scheduler_verbose s' = hv_scheduler_verbose s"
proof -
  obtain s1 s2 where g: "GEN_TIM_init 100 (TIM_Clear_Pending s) = Some s1" "GEN_TIM_enable s1 = Some s2"
    and s': "s' = hyp_enable_irq_routing s2"
    using run by (auto simp: start_sched_timer_def bind_eq_Some_conv)
  have i: "boot_same (TIM_Clear_Pending s) s1 \<and> hv_scheduler_verbose s1 = hv_scheduler_verbose (TIM_Clear_Pending s)"
    using g(1) by (auto simp: boot_same_def GEN_TIM_init_def hv_assert_def init_local_counter_frequency_def
        disable_local_cnthp_irq_def read_cntfrq_def write_cnthp_ctl_def write_cnthp_tval_def dev_defs split: if_splits)
  have e: "boot_same s1 s2 \<and> hv_scheduler_verbose s2 = hv_scheduler_verbose s1 \<and>
      gen_tim_period_ticks s2 = gen_tim_period_ticks s1 \<and> gen_tim_period_ticks s1 \<noteq> 0"
    using g(2) by (auto simp: boot_same_def GEN_TIM_enable_def hv_assert_def enable_local_cnthp_irq_def
        write_cnthp_ctl_def write_cnthp_tval_def dev_defs split: if_splits)
  have "boot_same s s2"
    using boot_same_trans [OF boot_same_io [OF io_out_timer(3)]] boot_same_trans i e by metis
  then have r: "boot_ready s0 s2" by (rule boot_ready_same [OF ready])
  have m: "boot_ready s0 (hyp_enable_irq_routing u) = boot_ready s0 u" "hv_scheduler_verbose (hyp_enable_irq_routing u) = hv_scheduler_verbose u"
    "gen_tim_period_ticks (hyp_enable_irq_routing u) = gen_tim_period_ticks u" for u
    by (simp_all add: hyp_enable_irq_routing_def boot_ready_def cur_of_def vcpu_at_def vms_built_def hcr_bit_def
        set_hcr_bit_machine word_ao_dist) (simp add: sysreg_defs emit_def Let_def)
  have v: "hv_scheduler_verbose (TIM_Clear_Pending s) = hv_scheduler_verbose s"
    using io_machine(2) [OF io_out_timer(3) [of s]] by (simp add: env_same_def)
  show "boot_ready s0 s'" "gen_tim_period_ticks s' \<noteq> 0" "hv_scheduler_verbose s' = hv_scheduler_verbose s"
    using r i e v by (simp_all add: s' m)
qed

subsection \<open>Into the first guest\<close>

text \<open>The vCPU of guest \<open>i\<close> as a \<open>main\<close> leaves it.\<close>

definition guest_vcpu_ready :: "nat \<Rightarrow> HvVcpu \<Rightarrow> bool" where
  "guest_vcpu_ready i v \<longleftrightarrow> vcpu_id v = of_nat i \<and> vcpu_vm v = Some i \<and> frame_ok (ctx_hyp_state (vcpu_context v)) \<and>
     unat (tm_period (vcpu_timer v)) \<le> 3333"

definition boot_vcpu_ready :: "HvVcpu \<Rightarrow> bool" where
  "boot_vcpu_ready v \<longleftrightarrow> guest_vcpu_ready 0 v \<and> vcpu_state v = HV_VCPU_RUNNING \<and> virq_pending v = 0 \<and>
     eret_frame (ctx_hyp_state (vcpu_context v)) =
       \<lparr>ge_pc = 0x20000, ge_cpsr = HYP_LOWER_SVC_CPSR, ge_r = replicate 13 0, ge_lr = 0\<rparr>"

lemma vcpu_init_ready:
  "vcpu_id (hv_vcpu_init v n 0x20000 0 HYP_LOWER_SVC_CPSR) = n"
  "vcpu_vm (hv_vcpu_init v n 0x20000 0 HYP_LOWER_SVC_CPSR) = vcpu_vm v"
  "virq_pending (hv_vcpu_init v n 0x20000 0 HYP_LOWER_SVC_CPSR) = 0"
  "frame_ok (ctx_hyp_state (vcpu_context (hv_vcpu_init v n 0x20000 0 HYP_LOWER_SVC_CPSR)))"
  "tm_period (vcpu_timer (hv_vcpu_init v n 0x20000 0 HYP_LOWER_SVC_CPSR)) = 0"
  "eret_frame (ctx_hyp_state (vcpu_context (hv_vcpu_init v n 0x20000 0 HYP_LOWER_SVC_CPSR))) =
     \<lparr>ge_pc = 0x20000, ge_cpsr = HYP_LOWER_SVC_CPSR, ge_r = replicate 13 0, ge_lr = 0\<rparr>"
  by (simp_all add: hv_vcpu_init_def Let_def zero_HvVcpu_def)
     (simp_all add: zero_HypExceptState_def eret_frame_def set_reg_def frame_ok_def numeral_eq_Suc)

definition vcpus_set :: "HvVcpu \<Rightarrow> HvVcpu \<Rightarrow> machine \<Rightarrow> machine \<Rightarrow> bool" where
  "vcpus_set v0 v1 s u \<longleftrightarrow>
     scheduler u = (scheduler s)\<lparr>sch_vcpus := [v0, v1, vcpu_at 2 s], cur_idx := 0, cur_vcpu := Some 0\<rparr> \<and>
     vuarts u = vuarts s \<and> stage2_tables u = stage2_tables s \<and> hcr u = hcr s \<and> hw_in u = hw_in s \<and>
     hv_scheduler_verbose u = hv_scheduler_verbose s \<and> hyp_except_verbose u = hyp_except_verbose s \<and>
     gen_tim_period_ticks u = gen_tim_period_ticks s"

definition boot_done :: "machine \<Rightarrow> guest_entry \<times> machine \<Rightarrow> bool" where
  "boot_done s0 = (\<lambda>(e, t). sys_inv (entry_frame e, t) \<and> cur_of t = 0 \<and> hw_in t = hw_in s0 \<and>
     hyp_except_verbose t = hyp_except_verbose s0 \<and>
     (\<forall>i < HV_MAX_GUEST_VCPUS. unat (tm_period (vcpu_timer (vcpu_at i t))) \<le> 3333) \<and>
     e = \<lparr>ge_pc = 0x20000, ge_cpsr = HYP_LOWER_SVC_CPSR, ge_r = replicate 13 0, ge_lr = 0\<rparr>)"

lemma enter_machine:
  fixes s t :: machine
  assumes "hv_vcpu_enter_initial vms v s = (e, t)"
  shows "e = eret_frame (ctx_hyp_state (vcpu_context v))" "scheduler t = scheduler s"
    "vuarts t = vuarts s" "stage2_tables t = stage2_tables s" "hw_in t = hw_in s"
    "hv_scheduler_verbose t = hv_scheduler_verbose s" "hyp_except_verbose t = hyp_except_verbose s"
    "gen_tim_period_ticks t = gen_tim_period_ticks s"
    "hcr_bit b t = hcr_bit b (hv_mmu_activate_vcpu vms (Some v) s)"
    "vttbr t = vttbr (hv_mmu_activate_vcpu vms (Some v) s)"
    "vtcr t = vtcr (hv_mmu_activate_vcpu vms (Some v) s)"
proof -
  let ?a = "hv_mmu_activate_vcpu vms (Some v) s"
  have t: "t = hyp_load_banked_regs (ctx_banked_regs (vcpu_context v)) ?a"
    and e: "e = eret_frame (ctx_hyp_state (vcpu_context v))"
    using assms by (simp_all add: hv_vcpu_enter_initial_def hyp_enter_vcpu_context_def Let_def)
  note A = ctrl_stepD [OF ctrl_step_ops(3) [of s vms "Some v"]]
  show "e = eret_frame (ctx_hyp_state (vcpu_context v))" by (rule e)
  have "hw_log t = hw_log ?a \<and> scheduler t = scheduler ?a \<and> env_same ?a t"
    by (simp add: t hyp_load_banked_regs_def env_same_def)
  then show "scheduler t = scheduler s" "vuarts t = vuarts s" "stage2_tables t = stage2_tables s"
    "hw_in t = hw_in s" "hv_scheduler_verbose t = hv_scheduler_verbose s"
    "hyp_except_verbose t = hyp_except_verbose s" "gen_tim_period_ticks t = gen_tim_period_ticks s"
    using A(1,4) by (simp_all add: env_same_def)
  show "hcr_bit b t = hcr_bit b ?a" by (simp add: t hyp_load_banked_regs_def hcr_bit_def)
  show "vttbr t = vttbr ?a" "vtcr t = vtcr ?a" by (simp_all add: t hyp_load_banked_regs_def)
qed

lemma boot_enters:
  assumes ready: "boot_ready s0 s" and set: "vcpus_set v0 v1 s u" and v0: "boot_vcpu_ready v0"
    and v1: "guest_vcpu_ready 1 v1" "vcpu_state v1 \<noteq> HV_VCPU_RUNNING"
  shows "boot_done s0 (enter_boot_vcpu u)" "gen_tim_period_ticks (snd (enter_boot_vcpu u)) = gen_tim_period_ticks s"
    "hv_scheduler_verbose (snd (enter_boot_vcpu u)) = hv_scheduler_verbose s"
proof -
  obtain e t where run: "enter_boot_vcpu u = (e, t)" by fastforce
  have wf: "sched_wf (scheduler s)" using ready by (simp add: boot_ready_def)
  note W = sched_wfD [OF wf]
  note E = enter_machine [OF run [unfolded enter_boot_vcpu_def]]
  have sch: "scheduler u = (scheduler s)\<lparr>sch_vcpus := [v0, v1, vcpu_at 2 s], cur_idx := 0, cur_vcpu := Some 0\<rparr>"
    using set by (simp add: vcpus_set_def)
  have at: "vcpu_at 0 t = v0" "vcpu_at 1 t = v1" "vcpu_at 2 t = vcpu_at 2 s" "vcpu_at 0 u = v0"
    by (simp_all add: vcpu_at_def E(2) sch)
  have c: "cur_of t = 0" by (simp add: cur_of_def E(2) sch)
  have two: "i = 0 \<or> i = 1" if "i < 2" for i :: nat using that by linarith
  have guest: "guest_vcpu_ready i (vcpu_at i t)" if "i < 2" for i
    using two [OF that] v0 v1(1) at by (auto simp: boot_vcpu_ready_def)
  have three: "i < 2 \<or> i = 2" if "i < 3" for i :: nat using that by linarith
  have e: "e = \<lparr>ge_pc = 0x20000, ge_cpsr = HYP_LOWER_SVC_CPSR, ge_r = replicate 13 0, ge_lr = 0\<rparr>"
    using v0 by (simp add: E(1) at boot_vcpu_ready_def)
  have "sched_wf (scheduler t)"
  proof (rule sched_wfI)
    show "length (sch_vm (scheduler t)) = 2" "length (sch_vcpus (scheduler t)) = 3" "cur_of t < 3"
      "cur_vcpu (scheduler t) = Some (cur_of t)" using W(1) c by (simp_all add: E(2) sch)
    show "vcpu_vm (vcpu_at i t) = Some i \<and> vcpu_id (vcpu_at i t) = of_nat i" if "i < 2" for i
      using guest [OF that] by (simp add: guest_vcpu_ready_def)
    show "vcpu_vm (vcpu_at 2 t) = None" "vcpu_id (vcpu_at 2 t) = 0xffffffff"
      "vcpu_state (vcpu_at 2 t) = HV_VCPU_IDLE \<or> vcpu_state (vcpu_at 2 t) = HV_VCPU_RUNNING"
      using W(8-10) by (simp_all add: at)
    have "vcpu_state (vcpu_at 2 s) \<noteq> HV_VCPU_RUNNING" using W(11) [of 2] ready by (simp add: boot_ready_def)
    moreover have "i = 1 \<or> i = 2" if "i < 3" "i \<noteq> cur_of t" for i using that c by linarith
    ultimately show "vcpu_state (vcpu_at i t) \<noteq> HV_VCPU_RUNNING" if "i < 3" "i \<noteq> cur_of t" for i
      using that at(2,3) v1(2) by metis
    show "frame_ok (ctx_hyp_state (vcpu_context (vcpu_at i t)))" if "i < 3" for i
      using three [OF that] guest [of i] W(12) [of 2] by (auto simp: at(3) guest_vcpu_ready_def)
  qed
  moreover have "hw_for 0 t"
  proof -
    have hb: "hcr_bit b u = hcr_bit b s" for b using set by (simp add: hcr_bit_def vcpus_set_def)
    have "vcpu_vm v0 = Some 0" "virq_pending v0 = 0" using v0 by (simp_all add: boot_vcpu_ready_def guest_vcpu_ready_def)
    then show ?thesis
      using hb ready E(2) by (simp add: hw_for_def E(9-11) at activate_bits boot_ready_def)
  qed
  ultimately have "sched_run t" using c v0 by (simp add: sched_run_def at boot_vcpu_ready_def)
  moreover have "vms_built t" using ready set by (simp add: vms_built_def E(2-4) vcpus_set_def boot_ready_def)
  ultimately have "sys_inv (entry_frame e, t)" by (simp add: sys_inv_def entry_frame_def e frame_ok_def)
  moreover have "unat (tm_period (vcpu_timer (vcpu_at i t))) \<le> 3333" if "i < 2" for i
    using guest [OF that] by (simp add: guest_vcpu_ready_def)
  ultimately show "boot_done s0 (enter_boot_vcpu u)"
    using c e ready set by (simp add: boot_done_def run E(5,7) vcpus_set_def boot_ready_def)
  show "gen_tim_period_ticks (snd (enter_boot_vcpu u)) = gen_tim_period_ticks s"
    "hv_scheduler_verbose (snd (enter_boot_vcpu u)) = hv_scheduler_verbose s"
    using set by (simp_all add: run E(6,8) vcpus_set_def)
qed

subsection \<open>The choice of the guests\<close>

abbreviation (input) reset_vcpu :: "nat \<Rightarrow> machine \<Rightarrow> HvVcpu" where
  "reset_vcpu i s \<equiv> hv_vcpu_init (vcpu_at i s) (of_nat i) 0x20000 0 HYP_LOWER_SVC_CPSR"

abbreviation (input) periodic :: "u32 \<Rightarrow> HvVcpuTimer" where
  "periodic now \<equiv> \<lparr>tm_enabled = True, tm_deadline = ucast now + 3333, tm_period = 3333\<rparr>"

lemma vcpus_list: "sched_wf (scheduler s) \<Longrightarrow> sch_vcpus (scheduler s) = [vcpu_at 0 s, vcpu_at 1 s, vcpu_at 2 s]"
  using sched_wfD(2) [of s] by (auto simp: vcpu_at_def dest!: list3)

lemma reset_vcpu_ready:
  assumes "boot_ready s0 s"
  shows "boot_vcpu_ready ((reset_vcpu 0 s)\<lparr>vcpu_state := HV_VCPU_RUNNING\<rparr>)"
    "boot_vcpu_ready ((reset_vcpu 0 s)\<lparr>vcpu_timer := periodic now, vcpu_state := HV_VCPU_RUNNING\<rparr>)"
    "guest_vcpu_ready 1 ((reset_vcpu 1 s)\<lparr>vcpu_state := HV_VCPU_RUNNABLE\<rparr>)"
    "guest_vcpu_ready 1 ((reset_vcpu 1 s)\<lparr>vcpu_timer := periodic now, vcpu_state := HV_VCPU_RUNNABLE\<rparr>)"
    "guest_vcpu_ready 1 (vcpu_at 1 s)" "vcpu_state (vcpu_at 1 s) \<noteq> HV_VCPU_RUNNING"
proof -
  have wf: "sched_wf (scheduler s)" and c: "cur_of s = 0" and p: "tm_period (vcpu_timer (vcpu_at 1 s)) = 0"
    using assms by (simp_all add: boot_ready_def)
  note W = sched_wfD [OF wf]
  show "boot_vcpu_ready ((reset_vcpu 0 s)\<lparr>vcpu_state := HV_VCPU_RUNNING\<rparr>)"
    "boot_vcpu_ready ((reset_vcpu 0 s)\<lparr>vcpu_timer := periodic now, vcpu_state := HV_VCPU_RUNNING\<rparr>)"
    using W(6) [of 0] by (simp_all add: boot_vcpu_ready_def guest_vcpu_ready_def vcpu_init_ready)
  show "guest_vcpu_ready 1 ((reset_vcpu 1 s)\<lparr>vcpu_state := HV_VCPU_RUNNABLE\<rparr>)"
    "guest_vcpu_ready 1 ((reset_vcpu 1 s)\<lparr>vcpu_timer := periodic now, vcpu_state := HV_VCPU_RUNNABLE\<rparr>)"
    using W(6) [of 1] by (simp_all add: guest_vcpu_ready_def vcpu_init_ready)
  show "guest_vcpu_ready 1 (vcpu_at 1 s)" "vcpu_state (vcpu_at 1 s) \<noteq> HV_VCPU_RUNNING"
    using W(6,7) [of 1] W(12) [of 1] W(11) [of 1] p c by (simp_all add: guest_vcpu_ready_def)
qed

lemma vcpus_set_io:
  assumes "vcpus_set v0 v1 s u" "io_out u u' []"
  shows "vcpus_set v0 v1 s u'"
  using assms(1) io_machine [OF assms(2)] by (simp add: vcpus_set_def env_same_def)

lemma select_boot_set:
  assumes "boot_ready s0 s"
  shows "vcpus_set ((reset_vcpu 0 s)\<lparr>vcpu_state := HV_VCPU_RUNNING\<rparr>) (vcpu_at 1 s) s (select_boot_vcpu (init_vcpu 0 s))"
    "vcpus_set ((reset_vcpu 0 s)\<lparr>vcpu_state := HV_VCPU_RUNNING\<rparr>) ((reset_vcpu 1 s)\<lparr>vcpu_state := HV_VCPU_RUNNABLE\<rparr>) s
      (init_guest_vcpus img s)"
  using vcpus_list [of s] assms
  by (simp_all add: boot_ready_def vcpus_set_def init_guest_vcpus_def guest_images_def init_vcpu_def select_boot_vcpu_def upd_vcpu_def)

lemma start_vcpu_timer_eq: "start_vcpu_timer i now s = upd_vcpu i (vcpu_timer_update (\<lambda>_. periodic now)) s"
  by (simp add: start_vcpu_timer_def hv_vcpu_timer_start_periodic_def upd_vcpu_def vcpu_at_def)

lemma upd_vcpu_frame: "env_same s (upd_vcpu i f s)" "hcr (upd_vcpu i f s) = hcr s"
  by (simp_all add: upd_vcpu_def env_same_def)

lemma start_boot_set:
  assumes "boot_ready s0 s"
  shows "\<exists>now. vcpus_set ((reset_vcpu 0 s)\<lparr>vcpu_timer := periodic now, vcpu_state := HV_VCPU_RUNNING\<rparr>) (vcpu_at 1 s) s
    (start_boot_vcpu s)"
proof -
  obtain now s1 where n: "TIM_SYS_Get_Ticks (init_vcpu 0 s) = (now, s1)" by fastforce
  let ?s2 = "start_vcpu_timer 0 now s1"
  note m = io_machine [OF io_out_timer(4) [OF n]] and r = io_machine [OF rearm_io [of ?s2]]
  have l: "sch_vcpus (scheduler s) = [vcpu_at 0 s, vcpu_at 1 s, vcpu_at 2 s]"
    using vcpus_list assms by (simp add: boot_ready_def)
  have "env_same s (init_vcpu 0 s)" "hcr (init_vcpu 0 s) = hcr s" unfolding init_vcpu_def by (rule upd_vcpu_frame)+
  moreover have "env_same s1 ?s2" "hcr ?s2 = hcr s1" unfolding start_vcpu_timer_eq by (rule upd_vcpu_frame)+
  ultimately have e: "env_same s (hv_vtimer_rearm_physical ?s2)" "hcr (hv_vtimer_rearm_physical ?s2) = hcr s"
    using m(2,3) r(2,3) env_same_trans by metis+
  have "scheduler (hv_vtimer_rearm_physical ?s2) = (scheduler s)\<lparr>sch_vcpus :=
      [(reset_vcpu 0 s)\<lparr>vcpu_timer := periodic now\<rparr>, vcpu_at 1 s, vcpu_at 2 s]\<rparr>"
    unfolding r(1) using l by (simp add: start_vcpu_timer_eq upd_vcpu_def m(1) init_vcpu_def)
  then show ?thesis
    using e by (intro exI [of _ now])
      (simp add: vcpus_set_def start_boot_vcpu_def n select_boot_vcpu_def upd_vcpu_def env_same_def)
qed

lemma init_timer_set:
  assumes "boot_ready s0 s"
  shows "\<exists>now. vcpus_set ((reset_vcpu 0 s)\<lparr>vcpu_timer := periodic now, vcpu_state := HV_VCPU_RUNNING\<rparr>)
    ((reset_vcpu 1 s)\<lparr>vcpu_timer := periodic now, vcpu_state := HV_VCPU_RUNNABLE\<rparr>) s (init_timer_vcpus img s)"
proof -
  obtain now s1 where n: "TIM_SYS_Get_Ticks s = (now, s1)" by fastforce
  note m = io_machine [OF io_out_timer(4) [OF n]]
  have l: "sch_vcpus (scheduler s) = [vcpu_at 0 s, vcpu_at 1 s, vcpu_at 2 s]"
    using vcpus_list assms by (simp add: boot_ready_def)
  show ?thesis
    using l m(1-3,8) by (intro exI [of _ now])
      (simp add: vcpus_set_def init_timer_vcpus_def n guest_images_def start_vcpu_timer_eq init_vcpu_def select_boot_vcpu_def
        upd_vcpu_def env_same_def)
qed

subsection \<open>Whole main functions\<close>

text \<open>The beginning they share: the UART, then the images.\<close>

lemma boot_begins:
  assumes "UART_Init s = Some s1" "load_guest_images img s1 = Some s2"
  shows "boot_same s s2"
  using boot_same_trans [OF boot_same_io boot_same_io [OF load_guest_images_io [OF assms(2)]]] uart_init_spec [of s] assms(1)
  by auto

lemma boot_begins_one:
  assumes "UART_Init s = Some s1"
  shows "boot_same s (load_guest_image bs s1)"
  using boot_same_trans [OF boot_same_io boot_same_io [OF load_guest_image_io]] uart_init_spec [of s] assms by auto

lemma timed_boots:
  assumes "reset_ok s" "tables_base_ok (img_tables img)" "main \<in> timed_systems" "main img s = Some (e, t)"
  shows "boot_done s (e, t) \<and> gen_tim_period_ticks t \<noteq> 0 \<and> \<not> hv_scheduler_verbose t"
proof -
  note I = boot_init [OF assms(1,2)]
  consider (virq) "main = virq_image_main" | (uart) "main = mmio_uart_test_main" | (timer) "main = sched_timer_main"
    using assms(3) by (auto simp: timed_systems_def)
  then show ?thesis
  proof cases
    case virq
    obtain s1 s2 s3 where u: "UART_Init s = Some s1" and i: "hv_scheduler_init img (load_guest_image (img_guests img ! 0) s1) = Some s2"
      and g: "start_sched_timer (s2\<lparr>virq_controller := hv_virq_init (virq_controller s2), hv_scheduler_verbose := False\<rparr>) = Some s3"
      and e: "(e, t) = enter_boot_vcpu (start_boot_vcpu s3)"
      using assms(4) by (auto simp: virq virq_image_main_def bind_eq_Some_conv)
    note R = boot_timer [OF _ g, of s] and B = I(1) [OF boot_begins_one [OF u] i]
    have r: "boot_ready s s3" using R(1) B by simp
    obtain now where "vcpus_set ((reset_vcpu 0 s3)\<lparr>vcpu_timer := periodic now, vcpu_state := HV_VCPU_RUNNING\<rparr>) (vcpu_at 1 s3)
      s3 (start_boot_vcpu s3)" using start_boot_set [OF r] by blast
    from boot_enters [OF r this reset_vcpu_ready(2,5,6) [OF r]] R B show ?thesis by (simp add: e [symmetric])
  next
    case uart
    obtain s1 s2 s3 s4 where u: "UART_Init s = Some s1" and l: "load_guest_images img s1 = Some s2"
      and i: "hv_scheduler_init img (s2\<lparr>hv_scheduler_verbose := False\<rparr>) = Some s3"
      and g: "start_sched_timer (s3\<lparr>virq_controller := hv_virq_init (virq_controller s3)\<rparr>) = Some s4"
      and e: "(e, t) = enter_boot_vcpu (init_guest_vcpus img s4)"
      using assms(4) by (auto simp: uart mmio_uart_test_main_def bind_eq_Some_conv)
    have "boot_same s (s2\<lparr>hv_scheduler_verbose := False\<rparr>)" using boot_begins [OF u l] by simp
    note R = boot_timer [OF _ g, of s] and B = I [OF this i]
    have r: "boot_ready s s4" using R(1) B by simp
    from boot_enters [OF r select_boot_set(2) [OF r, of img] reset_vcpu_ready(1,3) [OF r]] R B show ?thesis by (simp add: e [symmetric])
  next
    case timer
    obtain s1 s2 s3 s4 where u: "UART_Init s = Some s1" and l: "load_guest_images img s1 = Some s2"
      and i: "hv_scheduler_init img s2 = Some s3"
      and g: "start_sched_timer (s3\<lparr>virq_controller := hv_virq_init (virq_controller s3), hv_scheduler_verbose := False\<rparr>) = Some s4"
      and e: "(e, t) = enter_boot_vcpu (hv_vtimer_rearm_physical (init_timer_vcpus img s4))"
      using assms(4) by (auto simp: timer sched_timer_main_def bind_eq_Some_conv)
    note R = boot_timer [OF _ g, of s] and B = I(1) [OF boot_begins [OF u l] i]
    have r: "boot_ready s s4" using R(1) B by simp
    obtain now where "vcpus_set ((reset_vcpu 0 s4)\<lparr>vcpu_timer := periodic now, vcpu_state := HV_VCPU_RUNNING\<rparr>)
      ((reset_vcpu 1 s4)\<lparr>vcpu_timer := periodic now, vcpu_state := HV_VCPU_RUNNABLE\<rparr>) s4
      (init_timer_vcpus img s4)" using init_timer_set [OF r] by blast
    from boot_enters [OF r vcpus_set_io [OF this rearm_io] reset_vcpu_ready(2,4) [OF r]] R B
    show ?thesis by (simp add: e [symmetric])
  qed
qed

lemma untimed_boots:
  assumes "reset_ok s" "tables_base_ok (img_tables img)"
  shows "sched_yield_main img s = Some (e, t) \<Longrightarrow> boot_done s (e, t) \<and> \<not> hv_scheduler_verbose t"
    "stage2_fault_main img s = Some (e, t) \<Longrightarrow> boot_done s (e, t)"
    "guest_image_main img s = Some (e, t) \<Longrightarrow> boot_done s (e, t)"
proof -
  note I = boot_init [OF assms(1,2)]
  show "boot_done s (e, t) \<and> \<not> hv_scheduler_verbose t" if run: "sched_yield_main img s = Some (e, t)"
  proof -
    obtain s1 s2 s3 where u: "UART_Init s = Some s1" and l: "load_guest_images img s1 = Some s2"
      and i: "hv_scheduler_init img s2 = Some s3"
      and e: "(e, t) = enter_boot_vcpu (init_guest_vcpus img (s3\<lparr>hv_scheduler_verbose := False\<rparr>))"
      using run by (auto simp: sched_yield_main_def bind_eq_Some_conv)
    have r: "boot_ready s (s3\<lparr>hv_scheduler_verbose := False\<rparr>)" using I(1) [OF boot_begins [OF u l] i] by simp
    from boot_enters [OF r select_boot_set(2) [OF r, of img] reset_vcpu_ready(1,3) [OF r]] show ?thesis by (simp add: e [symmetric])
  qed
  show "boot_done s (e, t)" if run: "stage2_fault_main img s = Some (e, t)"
  proof -
    obtain s1 s2 s3 where u: "UART_Init s = Some s1" and l: "load_guest_images img s1 = Some s2"
      and i: "hv_scheduler_init img (s2\<lparr>hv_scheduler_verbose := True\<rparr>) = Some s3"
      and e: "(e, t) = enter_boot_vcpu (init_guest_vcpus img s3)"
      using run by (auto simp: stage2_fault_main_def bind_eq_Some_conv)
    have "boot_same s (s2\<lparr>hv_scheduler_verbose := True\<rparr>)" using boot_begins [OF u l] by simp
    note r = I(1) [OF this i]
    from boot_enters [OF r select_boot_set(2) [OF r, of img] reset_vcpu_ready(1,3) [OF r]] show ?thesis by (simp add: e [symmetric])
  qed
  show "boot_done s (e, t)" if run: "guest_image_main img s = Some (e, t)"
  proof -
    obtain s1 s2 where u: "UART_Init s = Some s1" and i: "hv_scheduler_init img (load_guest_image (img_guests img ! 0) s1) = Some s2"
      and e: "(e, t) = enter_boot_vcpu (select_boot_vcpu (init_vcpu 0 (s2\<lparr>hv_scheduler_verbose := True\<rparr>)))"
      using run by (auto simp: guest_image_main_def bind_eq_Some_conv)
    have r: "boot_ready s (s2\<lparr>hv_scheduler_verbose := True\<rparr>)" using I(1) [OF boot_begins_one [OF u] i] by simp
    from boot_enters [OF r select_boot_set(1) [OF r] reset_vcpu_ready(1,5,6) [OF r]] show ?thesis by (simp add: e [symmetric])
  qed
qed

lemma boot_spec:
  assumes "reset_ok s" "tables_base_ok (img_tables img)" "main img s = Some (e, t)"
  shows "main \<in> guest_systems \<Longrightarrow> boot_done s (e, t)" "main \<in> timed_systems \<Longrightarrow> gen_tim_period_ticks t \<noteq> 0"
    "main \<in> quiet_systems \<Longrightarrow> \<not> hv_scheduler_verbose t"
  using timed_boots [where main = main and img = img and s = s and e = e and t = t] untimed_boots [OF assms(1,2)] assms
  by (auto simp: guest_systems_def quiet_systems_def)

subsection \<open>The main functions return\<close>

lemma timer_returns:
  assumes freq: "\<And>n. 100 \<le> hw_in s n CNTFRQ"
  shows "\<exists>s'. start_sched_timer s = Some s'"
proof -
  let ?s = "TIM_Clear_Pending s"
  have f: "100 \<le> hw_in ?s n CNTFRQ" for n using freq io_machine(12) [OF io_out_timer(3) [of s]] by simp
  obtain c s1 where 1: "read_cntfrq (init_local_counter_frequency ?s) = (c, s1)" by fastforce
  have c: "100 \<le> c" using 1 f by (auto simp: read_cntfrq_def init_local_counter_frequency_def dev_defs)
  then have "c \<noteq> 0" and d: "c div 100 \<noteq> 0"
    by (auto simp: word_le_nat_alt unat_eq_0 [symmetric] unat_div div_eq_0_iff)
  then obtain s2 where 2: "GEN_TIM_init 100 ?s = Some s2" and "gen_tim_period_ticks s2 = c div 100"
    by (simp add: GEN_TIM_init_def hv_assert_def 1 disable_local_cnthp_irq_def write_cnthp_ctl_def dev_defs)
  then obtain s3 where "GEN_TIM_enable s2 = Some s3"
    using d by (auto simp: GEN_TIM_enable_def hv_assert_def Let_def)
  then show ?thesis using 2 by (simp add: start_sched_timer_def)
qed

lemma init_returns:
  assumes "reset_ok s" "tables_base_ok (img_tables img)" "uart_live s" "boot_same s s1"
  shows "\<exists>s2. hv_scheduler_init img s1 = Some s2"
proof -
  have "length (sch_vm (scheduler s1)) = 2" "length (sch_vcpus (scheduler s1)) = 3"
    using assms(1,4) by (simp_all add: reset_ok_def boot_same_def)
  moreover have "uart_live s1" using assms(3,4) uart_live_in [of s1 s] by (simp add: boot_same_def)
  then have "returns_ok s1" by (simp add: returns_ok_def)
  ultimately show ?thesis using scheduler_init_returns [OF assms(2)] by blast
qed

lemma boot_returns:
  assumes reset: "reset_ok s" "tables_base_ok (img_tables img)" and live: "uart_live s"
    and freq: "\<And>n. 100 \<le> hw_in s n CNTFRQ" and fits: "\<And>i. i < 2 \<Longrightarrow> length (img_guests img ! i) \<le> 0x10000"
    and main: "main \<in> guest_systems"
  shows "main img s \<noteq> None"
proof -
  note init = init_returns [OF reset live]
  obtain s1 where u: "UART_Init s = Some s1" using uart_init_spec by blast
  have "length (img_guests img ! i) < 2 ^ 32" if "i < 2" for i using fits [OF that] by simp
  then obtain s2 where l: "load_guest_images img s1 = Some s2"
    using load_guest_images_eq [of img s1] fits [of 0] fits [of 1] by auto
  note b = boot_begins [OF u l] and b1 = boot_begins_one [OF u, of "img_guests img ! 0"]
  have tr: "\<exists>s'. start_sched_timer v = Some s'" if "boot_ready s v" for v
    using timer_returns [of v] freq that by (simp add: boot_ready_def)
  obtain s3 where 3: "hv_scheduler_init img (load_guest_image (img_guests img ! 0) s1) = Some s3" using init [OF b1] by blast
  obtain s4 where 4: "hv_scheduler_init img s2 = Some s4" using init [OF b] by blast
  have bv: "boot_same s (s2\<lparr>hv_scheduler_verbose := v\<rparr>)" for v using b by simp
  obtain s5 where 5: "hv_scheduler_init img (s2\<lparr>hv_scheduler_verbose := False\<rparr>) = Some s5" using init [OF bv] by blast
  obtain s6 where 6: "hv_scheduler_init img (s2\<lparr>hv_scheduler_verbose := True\<rparr>) = Some s6" using init [OF bv] by blast
  note I = boot_init(1) [OF reset]
  have r: "boot_ready s s3" "boot_ready s s4" "boot_ready s s5" by (rule I [OF b1 3] I [OF b 4] I [OF bv 5])+
  have t: "\<exists>s'. start_sched_timer (s3\<lparr>virq_controller := hv_virq_init (virq_controller s3), hv_scheduler_verbose := False\<rparr>) = Some s'"
    "\<exists>s'. start_sched_timer (s4\<lparr>virq_controller := hv_virq_init (virq_controller s4), hv_scheduler_verbose := False\<rparr>) = Some s'"
    "\<exists>s'. start_sched_timer (s5\<lparr>virq_controller := hv_virq_init (virq_controller s5)\<rparr>) = Some s'"
    by (rule tr, use r in simp)+
  show ?thesis
    using main t by (auto simp: guest_systems_def quiet_systems_def timed_systems_def virq_image_main_def guest_image_main_def
      sched_yield_main_def stage2_fault_main_def mmio_uart_test_main_def sched_timer_main_def u l 3 4 5 6)
qed

end
