(* ===== verification/Hv_System.thy ===== *)
theory Hv_System
  imports Guest_Systems
begin

section \<open>The running system\<close>

text \<open>
  What holds of every system that the programs of \<open>tests/\<close> boot, in every configuration it reaches, by
  induction over the steps.
\<close>

subsection \<open>What holds of the running system\<close>

definition booted_by :: "guest_system \<Rightarrow> hv_image \<Rightarrow> machine \<Rightarrow> config \<Rightarrow> bool" where
  "booted_by main img s c \<longleftrightarrow> main \<in> guest_systems \<and> reset_ok s \<and> tables_base_ok (img_tables img) \<and>
     (\<exists>e t. main img s = Some (e, t) \<and> c = (entry_frame e, t))"

definition booted :: "hv_image \<Rightarrow> machine \<Rightarrow> config \<Rightarrow> bool" where
  "booted img s c \<longleftrightarrow> (\<exists>main. booted_by main img s c)"

lemma booted_by_inv: "booted_by main img s c \<Longrightarrow> sys_inv c"
  using boot_spec(1) by (fastforce simp: booted_by_def boot_done_def)

lemma booted_inv: "booted img s c \<Longrightarrow> sys_inv c"
  unfolding booted_def using booted_by_inv by metis

text \<open>C5: the systems boot. From reset, with a serial line that works, a counter of at least 100 Hz and images
  that fit, each \<open>main\<close> that starts guests enters guest 0 at the base of its memory, in supervisor mode
  with every register zero; whenever it enters the guest, the machine is one in which a guest can run,
  its scheduling timer has a period if the system uses it, and both VMs have their tables.\<close>

theorem system_boots:
  assumes "reset_ok s" and "tables_base_ok (img_tables img)" and "main \<in> guest_systems"
  shows "(uart_live s \<and> (\<forall>n. 100 \<le> hw_in s n CNTFRQ) \<and>
      (\<forall>i < HV_MAX_VMS. length (img_guests img ! i) \<le> unat GUEST_SLOT_SIZE) \<longrightarrow> main img s \<noteq> None) \<and>
    (\<forall>e t. main img s = Some (e, t) \<longrightarrow>
       e = \<lparr>ge_pc = 0x20000, ge_cpsr = HYP_LOWER_SVC_CPSR, ge_r = replicate 13 0, ge_lr = 0\<rparr> \<and>
       cur_of t = 0 \<and> sched_run t \<and> (main \<in> timed_systems \<longrightarrow> gen_tim_period_ticks t \<noteq> 0) \<and>
       (\<forall>i < HV_MAX_VMS. translates (sch_vm (scheduler t) ! i) (stage2_tables t) (guest_translation i)))"
proof -
  have "sched_run t" "\<forall>i < 2. translates (sch_vm (scheduler t) ! i) (stage2_tables t) (guest_translation i)"
    "cur_of t = 0" "e = \<lparr>ge_pc = 0x20000, ge_cpsr = HYP_LOWER_SVC_CPSR, ge_r = replicate 13 0, ge_lr = 0\<rparr>"
    if "main img s = Some (e, t)" for e t
    using boot_spec(1) [OF assms(1,2) that assms(3)] by (simp_all add: boot_done_def sys_inv_def vms_built_def guest_vm_ok_def)
  then show ?thesis
    using boot_returns [OF assms(1,2) _ _ _ assms(3)] boot_spec(2) [where main = main, OF assms(1,2)] by auto
qed

text \<open>C1: memory isolation of the running system. In every configuration reached after boot, whatever the
  guests do, the hardware translates for the guest that runs, through the tables of its own VM, and
  those send each address of guest \<open>i\<close> into its own 64 KB slot of physical memory or to a fault.\<close>

theorem guests_isolated:
  assumes "booted img s c" and "hv_run as c (f, t)"
  shows "(cur_of t < HV_MAX_GUEST_VCPUS \<longrightarrow> hcr_bit HCR_VM t \<and>
      vttbr t = hv_mmu_vttbr_for_vm (sch_vm (scheduler t) ! cur_of t)) \<and>
    (\<forall>i < HV_MAX_VMS. \<forall>b pa. unat b < 2 ^ 32 \<longrightarrow>
       hv_stage2_translate (Some (sch_vm (scheduler t) ! i)) b True (stage2_tables t) = Inr pa \<longrightarrow>
       0x20000 + 0x10000 * i \<le> unat pa \<and> unat pa < 0x2f000 + 0x10000 * i)"
proof -
  have inv: "sys_inv (f, t)" using run_inv [OF assms(2) booted_inv [OF assms(1)]] by blast
  then have run: "sched_run t" and vms: "vms_built t" by (simp_all add: sys_inv_def)
  have "hcr_bit HCR_VM t \<and> vttbr t = hv_mmu_vttbr_for_vm (sch_vm (scheduler t) ! cur_of t)" if "cur_of t < 2"
    using run sched_wfD(6) [OF _ that] that by (auto simp: sched_run_def hw_for_def)
  moreover have "0x20000 + 0x10000 * i \<le> unat pa \<and> unat pa < 0x2f000 + 0x10000 * i"
    if i: "i < 2" and b: "unat b < 2 ^ 32"
      and tr: "hv_stage2_translate (Some (sch_vm (scheduler t) ! i)) b True (stage2_tables t) = Inr pa" for i b pa
  proof -
    have "translates (sch_vm (scheduler t) ! i) (stage2_tables t) (guest_translation i)"
      using vms i by (simp add: vms_built_def guest_vm_ok_def)
    then have g: "guest_translation i b = Inr pa" using b tr by (simp add: translates_def)
    have "unat (of_nat (i * 0x10000) :: u64) = i * 0x10000" using i by (auto simp: less_2_cases_iff)
    then have "unat (b + of_nat (i * 0x10000)) = unat b + i * 0x10000"
      using b i by (simp add: unat_add_no_wrap)
    then show ?thesis using g by (auto simp: guest_translation_def split: if_splits)
  qed
  ultimately show ?thesis by blast
qed

text \<open>C4: every configuration that is reached is well formed. The frame has its thirteen registers, every
  array its length; the current vCPU is one of the three and the only one that runs; each guest vCPU is
  bound to the VM of its number and the idle vCPU to none; region tables are valid and disjoint and the
  stage-2 tables well formed. The hardware agrees with it: the trap and interrupt bits of \<open>HCR\<close> are those
  of the current vCPU, and stage 2 is on exactly for guests.\<close>

theorem reachable_well_formed:
  assumes "booted img s c" and "hv_run as c (f, t)"
  shows "length (frame_r f) = 13 \<and> length (sch_vm (scheduler t)) = HV_MAX_VMS \<and>
    length (sch_vcpus (scheduler t)) = HV_MAX_VCPUS \<and> length (vuarts t) = HV_MAX_VMS \<and>
    cur_vcpu (scheduler t) = Some (cur_of t) \<and> cur_of t < HV_MAX_VCPUS \<and>
    (\<forall>i < HV_MAX_VCPUS. length (frame_r (ctx_hyp_state (vcpu_context (vcpu_at i t)))) = 13 \<and>
       (vcpu_state (vcpu_at i t) = HV_VCPU_RUNNING \<longleftrightarrow> i = cur_of t) \<and>
       vcpu_vm (vcpu_at i t) = (if i < HV_MAX_GUEST_VCPUS then Some i else None)) \<and>
    (\<forall>i < HV_MAX_VMS. vm_id (sch_vm (scheduler t) ! i) = of_nat i \<and> region_table_ok (sch_vm (scheduler t) ! i) \<and>
       vm_tables_ok (sch_vm (scheduler t) ! i) (stage2_tables t)) \<and>
    (hcr_bit HCR_TWI t \<longleftrightarrow> cur_of t \<noteq> HV_IDLE_VCPU_IDX) \<and>
    (hcr_bit HCR_VI t \<longleftrightarrow> virq_pending (vcpu_at (cur_of t) t) \<noteq> 0) \<and>
    (hcr_bit HCR_VM t \<longleftrightarrow> cur_of t < HV_MAX_GUEST_VCPUS)"
proof -
  have "sys_inv (f, t)" using run_inv [OF assms(2) booted_inv [OF assms(1)]] by blast
  then have I: "length (frame_r f) = 13" "sched_run t" "vms_built t" by (simp_all add: sys_inv_def frame_ok_def)
  have vm: "vm_id (sch_vm (scheduler t) ! i) = of_nat i \<and> region_table_ok (sch_vm (scheduler t) ! i) \<and>
      vm_tables_ok (sch_vm (scheduler t) ! i) (stage2_tables t)" if "i < HV_MAX_VMS" for i
    using I(3) that by (simp add: vms_built_def guest_vm_ok_def)
  have wf: "sched_wf (scheduler t)" and hw: "hw_for (cur_of t) t" and run: "vcpu_state (vcpu_at (cur_of t) t) = HV_VCPU_RUNNING"
    using I(2) by (simp_all add: sched_run_def)
  have vcpu: "length (frame_r (ctx_hyp_state (vcpu_context (vcpu_at i t)))) = 13 \<and>
      (vcpu_state (vcpu_at i t) = HV_VCPU_RUNNING \<longleftrightarrow> i = cur_of t) \<and>
      vcpu_vm (vcpu_at i t) = (if i < HV_MAX_GUEST_VCPUS then Some i else None)" if i: "i < HV_MAX_VCPUS" for i
  proof -
    have "i = HV_IDLE_VCPU_IDX" if "\<not> i < HV_MAX_GUEST_VCPUS" using i that by simp
    then have "vcpu_vm (vcpu_at i t) = (if i < HV_MAX_GUEST_VCPUS then Some i else None)"
      using wf by (cases "i < HV_MAX_GUEST_VCPUS") (simp_all add: sched_wf_def vcpu_at_def)
    then show ?thesis using wf i run by (auto simp: sched_wf_def vcpu_at_def cur_of_def frame_ok_def)
  qed
  have cur: "cur_of t < HV_MAX_VCPUS" "cur_vcpu (scheduler t) = Some (cur_of t)"
    using wf by (simp_all add: sched_wf_def cur_of_def)
  then have "hcr_bit HCR_VM t \<longleftrightarrow> cur_of t < HV_MAX_GUEST_VCPUS"
    using hw vcpu [OF cur(1)] by (simp add: hw_for_def split: if_splits)
  then show ?thesis using I(1,3) vm vcpu cur hw wf by (simp add: hw_for_def sched_wf_def vms_built_def)
qed


text \<open>C3: the hypervisor keeps control. In every configuration reached by a system that uses the scheduling
  timer, an interrupt of one of the two timers can be taken, whoever runs: the handler returns to a vCPU
  that can run, if it does not trace and no virtual timer has a period near the end of 64 bits.\<close>

theorem timer_regains_control:
  assumes "booted_by main img s c" and "main \<in> timed_systems" and "hv_run as c (f, t)"
    and "\<not> hyp_except_verbose t" and "irq_source t"
    and "\<And>i. i < HV_MAX_GUEST_VCPUS \<Longrightarrow> unat (tm_period (vcpu_timer (vcpu_at i t))) < 2 ^ 64 - 2 ^ 32"
  shows "\<exists>g u. hv_step Timer_Interrupt (f, t) (g, u) \<and> sched_run u \<and> irq_counter u = irq_counter t + 1"
proof -
  obtain e t0 where boot: "main img s = Some (e, t0)" "c = (entry_frame e, t0)"
    and ok: "reset_ok s" "tables_base_ok (img_tables img)" using assms(1) by (auto simp: booted_by_def)
  have B: "gen_tim_period_ticks t0 \<noteq> 0" "\<not> hv_scheduler_verbose t0"
    using boot_spec(2,3) [where main = main, OF ok boot(1)] assms(2) by (simp_all add: quiet_systems_def)
  note R = run_inv [OF assms(3) booted_by_inv [OF assms(1)]]
  then have inv: "sched_run t" "frame_ok f" and same: "sys_same t0 t" using boot(2) by (auto simp: sys_inv_def)
  have live: "returns_ok t" "gen_tim_period_ticks t \<noteq> 0"
    using same B by (simp_all add: sys_same_def returns_ok_def)
  let ?f = "hyp_vector HYP_EXCEPTION_IRQ 0 0 0 0 f"
  have ok': "frame_ok ?f" using inv(2) by simp
  obtain r g u where h: "handle_irq ?f t = Some (r, g, u)"
    using irq_returns [OF inv(1) assms(5) ok' live assms(6)] by blast
  then have x: "hyp_handle_exception ?f t = Some (r, g, u)"
    using assms(4) by (simp add: hyp_handle_exception_def Let_def)
  have "r = HYP_ACTION_RETURN \<and> sched_run u \<and> irq_counter u = irq_counter t + 1"
    using irq_handled [OF inv(1) ok' h] assms(5) by simp
  then show ?thesis using interrupted x by blast
qed

subsection \<open>A booted machine\<close>

definition boot_machine :: machine where
  "boot_machine = reset_machine\<lparr>hw_in := (\<lambda>_ _. 0xffffffff)\<rparr>"

lemma boot_machine_ok: "reset_ok boot_machine" "uart_live boot_machine" "\<not> hyp_except_verbose boot_machine"
  "100 \<le> hw_in boot_machine n CNTFRQ" "tables_base_ok (img_tables boot_image)"
  "i < 2 \<Longrightarrow> length (img_guests boot_image ! i) \<le> 0x10000"
  by (auto simp: boot_machine_def reset_machine_def reset_vuart_hw_def vuart_hw.defs reset_ok_def vcpu_at_def
      hcr_bit_def uart_live_def port_live_def tables_base_ok_def boot_image_def less_2_cases_iff)

lemma boot_machine_boots: "main \<in> guest_systems \<Longrightarrow> \<exists>e t. main boot_image boot_machine = Some (e, t)"
  using boot_returns [OF boot_machine_ok(1,5,2,4,6)] by auto

theorem system_boots_witness:
  "\<exists>e t. sched_yield_main boot_image boot_machine = Some (e, t) \<and> ge_pc e = 0x20000 \<and> sched_run t"
proof -
  have m: "sched_yield_main \<in> guest_systems" by (simp add: guest_systems_def quiet_systems_def)
  from system_boots [OF boot_machine_ok(1,5) m] boot_machine_boots [OF m] show ?thesis by auto
qed

text \<open>Guest 0 runs: it branches to another instruction and waits there. The timer then fires.\<close>

lemma boot_machine_runs:
  obtains c t where "booted_by virq_image_main boot_image boot_machine c" "booted boot_image boot_machine c"
    "hv_run [] c (fst c, t)" "cur_of t = 0" "irq_source t"
    "\<not> hyp_except_verbose t" "\<forall>i < 2. unat (tm_period (vcpu_timer (vcpu_at i t))) \<le> 3333"
    "hv_run [Guest 0] (fst c, t) (zero_HypExceptState\<lparr>frame_elr_hyp := 0x20004\<rparr>, t\<lparr>banked := banked t, vbar := vbar t\<rparr>)"
proof -
  have m: "virq_image_main \<in> guest_systems" by (simp add: guest_systems_def quiet_systems_def timed_systems_def)
  obtain e t where boot: "virq_image_main boot_image boot_machine = Some (e, t)"
    using boot_machine_boots [OF m] by blast
  have B: "boot_done boot_machine (e, t)" by (rule boot_spec(1) [OF boot_machine_ok(1,5) boot m])
  have "hw_in t = (\<lambda>_ _. 0xffffffff)" using B by (simp add: boot_done_def boot_machine_def)
  then have src: "irq_source t"
    by (simp add: irq_source_def GEN_TIM_irq_pending_def GEN_TIM_istatus_def read_cnthp_ctl_def dev_defs)
  let ?g = "zero_HypExceptState\<lparr>frame_elr_hyp := 0x20004\<rparr>"
  have "frame_ok ?g" by (simp add: frame_ok_def zero_HypExceptState_def)
  then have "hv_step (Guest (cur_of t)) (entry_frame e, t) (?g, t\<lparr>banked := banked t, vbar := vbar t\<rparr>)"
    using B by (intro guest_runs) (simp_all add: boot_done_def)
  then have r: "hv_run [Guest 0] (entry_frame e, t) (?g, t\<lparr>banked := banked t, vbar := vbar t\<rparr>)"
    using B by (simp add: run_steps run_stops boot_done_def)
  have b: "booted_by virq_image_main boot_image boot_machine (entry_frame e, t)"
    using boot boot_machine_ok(1,5) m by (auto simp: booted_by_def)
  then have "booted boot_image boot_machine (entry_frame e, t)" by (auto simp: booted_def)
  from that [OF b this _ _ src] r B show thesis
    using run_stops boot_machine_ok(3) by (simp add: boot_done_def)
qed

theorem guests_isolated_witness:
  "\<exists>c t. booted boot_image boot_machine c \<and> hv_run [] c (fst c, t) \<and> hcr_bit HCR_VM t"
proof -
  obtain c t where b: "booted boot_image boot_machine c" "hv_run [] c (fst c, t)" "cur_of t = 0"
    by (rule boot_machine_runs)
  from guests_isolated [OF b(1,2)] b(3) have "hcr_bit HCR_VM t" by simp
  with b show ?thesis by blast
qed

theorem reachable_well_formed_witness:
  "\<exists>c t. booted boot_image boot_machine c \<and> hv_run [] c (fst c, t) \<and> vcpu_state (vcpu_at 0 t) = HV_VCPU_RUNNING \<and>
     vcpu_state (vcpu_at 1 t) \<noteq> HV_VCPU_RUNNING"
proof -
  obtain c t where b: "booted boot_image boot_machine c" "hv_run [] c (fst c, t)" "cur_of t = 0"
    by (rule boot_machine_runs)
  have "vcpu_state (vcpu_at 0 t) = HV_VCPU_RUNNING \<and> vcpu_state (vcpu_at 1 t) \<noteq> HV_VCPU_RUNNING"
    using reachable_well_formed [OF b(1,2)] b(3) by simp
  with b show ?thesis by blast
qed


theorem timer_regains_control_witness:
  "\<exists>c t g u. booted boot_image boot_machine c \<and> hv_run [] c (fst c, t) \<and>
     hv_step Timer_Interrupt (fst c, t) (g, u) \<and> sched_run u"
proof -
  obtain c t where b0: "booted_by virq_image_main boot_image boot_machine c"
    and b: "booted boot_image boot_machine c" "hv_run [] c (fst c, t)" "irq_source t" "\<not> hyp_except_verbose t" and p: "\<forall>i < 2. unat (tm_period (vcpu_timer (vcpu_at i t))) \<le> 3333"
    by (rule boot_machine_runs)
  have m: "virq_image_main \<in> timed_systems" by (simp add: timed_systems_def)
  have "\<exists>g u. hv_step Timer_Interrupt (fst c, t) (g, u) \<and> sched_run u \<and> irq_counter u = irq_counter t + 1"
    by (rule timer_regains_control [OF b0 m b(2,4,3)]) (use p in fastforce)
  then show ?thesis using b(1,2) by blast
qed

end
