(* ===== verification/Bootloader.thy ===== *)
theory Bootloader
  imports Traffic Boot_Protocol
begin

section \<open>The bootloader on the Pi: bootloader/src/main.c, boot-mmio.h, boot-defs.h, platform.c\<close>

text \<open>
  The loader asks the host for a program, stores it where the host says unless it would overwrite the
  loader, and jumps to it. Its history is read as traffic: bytes received and sent on the serial line
  and bytes stored in memory, in order; the lemmas here give the traffic of each operation, and
  \<open>Bootloader_Spec\<close> that of \<open>main\<close>.
\<close>

subsection \<open>platform.h\<close>

abbreviation (input) PM_RSTC :: u32 where "PM_RSTC \<equiv> 0x3F10001c"
abbreviation (input) PM_WDOG :: u32 where "PM_WDOG \<equiv> 0x3F100024"
abbreviation (input) PM_PASSWORD :: u32 where "PM_PASSWORD \<equiv> 0x5a000000"
abbreviation (input) PM_RSTC_WRCFG_FULL_RESET :: u32 where "PM_RSTC_WRCFG_FULL_RESET \<equiv> 0x20"

subsection \<open>platform.c\<close>

text \<open>The state in which \<open>rpi_reboot\<close> enters its endless loop, waiting for the watchdog to reset the
  board.\<close>

definition rpi_reboot :: "'a hw_scheme \<Rightarrow> 'a hw_scheme option" where
  "rpi_reboot s = do {
     s \<leftarrow> UART_Flush_Tx s;
     let s = PUT32 PM_WDOG (PM_PASSWORD OR 1) s;
     Some (PUT32 PM_RSTC (PM_PASSWORD OR PM_RSTC_WRCFG_FULL_RESET) s)
   }"

definition clean_reboot :: "'a hw_scheme \<Rightarrow> 'a hw_scheme option" where
  "clean_reboot s = do { s \<leftarrow> UART_Send_String (''DONE!!!'' @ [CHR 0x0A]) s; rpi_reboot s }"

subsection \<open>boot-mmio.h\<close>

definition boot_getuint8 :: "'a hw_scheme \<Rightarrow> (u8 \<times> 'a hw_scheme) option" where
  "boot_getuint8 s = do { (r, s) \<leftarrow> UART_Get8 s; Some (word_of_int r, s) }"

text \<open>The two loops over the four bytes, \<open>i\<close> being the list of the remaining indices.\<close>

primrec boot_get_bytes :: "nat list \<Rightarrow> u32 \<Rightarrow> 'a hw_scheme \<Rightarrow> (u32 \<times> 'a hw_scheme) option" where
  "boot_get_bytes [] u s = Some (u, s)"
| "boot_get_bytes (i # is) u s = do {
     (b, s) \<leftarrow> boot_getuint8 s;
     boot_get_bytes is (u OR push_bit (i * 8) (ucast b)) s }"

definition boot_getuint32 :: "'a hw_scheme \<Rightarrow> (u32 \<times> 'a hw_scheme) option" where
  "boot_getuint32 s = boot_get_bytes [0, 1, 2, 3] 0 s"

primrec boot_put_bytes :: "nat list \<Rightarrow> u32 \<Rightarrow> 'a hw_scheme \<Rightarrow> 'a hw_scheme option" where
  "boot_put_bytes [] u s = Some s"
| "boot_put_bytes (i # is) u s = do {
     s \<leftarrow> UART_Put8 (ucast (drop_bit (i * 8) u AND 0xff)) s;
     boot_put_bytes is u s }"

definition boot_putuint32 :: "u32 \<Rightarrow> 'a hw_scheme \<Rightarrow> 'a hw_scheme option" where
  "boot_putuint32 u s = boot_put_bytes [0, 1, 2, 3] u s"

partial_function (option) boot_wait_loop :: "u32 \<Rightarrow> u32 \<Rightarrow> u32 \<Rightarrow> 'a hw_scheme \<Rightarrow> 'a hw_scheme option" where
  "boot_wait_loop expected window nbytes s =
     (if window \<noteq> expected \<or> nbytes < 4 then do {
        (b, s) \<leftarrow> boot_getuint8 s;
        boot_wait_loop expected (drop_bit 8 window OR push_bit 24 (ucast b)) (nbytes + 1) s }
      else Some s)"

definition boot_wait_for_opcode :: "u32 \<Rightarrow> 'a hw_scheme \<Rightarrow> 'a hw_scheme option" where
  "boot_wait_for_opcode expected s = boot_wait_loop expected 0 0 s"

subsection \<open>main.c\<close>

text \<open>The request is repeated every 300 ms until a byte comes.\<close>

partial_function (option) boot_poll :: "u32 \<Rightarrow> 'a hw_scheme \<Rightarrow> 'a hw_scheme option" where
  "boot_poll start s =
     (let (d, s) = UART_Has_Data s in
      if d then Some s
      else let (t, s) = TIM_SYS_Get_Ticks s in
      if t - start \<ge> 300000 then do {
        s \<leftarrow> boot_putuint32 GET_PROG_INFO s;
        let (start, s) = TIM_SYS_Get_Ticks s;
        boot_poll start s }
      else boot_poll start s)"

text \<open>The loop that stores the program; \<open>k\<close> bytes are left, from offset \<open>i\<close> on.\<close>

fun boot_store_code :: "nat \<Rightarrow> u32 \<Rightarrow> u32 \<Rightarrow> 'a hw_scheme \<Rightarrow> 'a hw_scheme option" where
  "boot_store_code 0 i base_addr s = Some s"
| "boot_store_code (Suc k) i base_addr s = do {
     (r, s) \<leftarrow> UART_Get8 s;
     let byte = word_of_int r;
     let s = PUT8 (base_addr + i) byte s;
     boot_store_code k (i + 1) base_addr s }"

text \<open>How \<open>main\<close> ends: refusing the program (and spinning), rebooting, or jumping to the program.\<close>

datatype boot_end = Boot_Refused | Boot_Reboot | Boot_Branch u32

text \<open>The code of the loader lies in \<open>[bootloader_start, bootloader_end)\<close>, addresses the linker gives:
  those of \<open>PUT32\<close> and of \<open>__prog_end__\<close>.\<close>

definition boot_overlaps :: "u32 \<Rightarrow> u32 \<Rightarrow> u32 \<Rightarrow> u32 \<Rightarrow> bool" where
  "boot_overlaps bootloader_start bootloader_end base_addr nbytes \<longleftrightarrow>
     \<not> (base_addr + nbytes \<le> bootloader_start \<or> base_addr \<ge> bootloader_end)"

text \<open>The end of \<open>main\<close>, and what it does with a received program info.\<close>

definition boot_finish :: "u32 \<Rightarrow> 'a hw_scheme \<Rightarrow> (boot_end \<times> 'a hw_scheme) option" where
  "boot_finish base_addr s =
     (if base_addr = 0 then do { s \<leftarrow> rpi_reboot s; Some (Boot_Reboot, s) }
      else Some (Boot_Branch base_addr, s))"

definition boot_answer :: "u32 \<Rightarrow> u32 \<Rightarrow> u32 \<Rightarrow> u32 \<Rightarrow> u32 \<Rightarrow> 'a hw_scheme \<Rightarrow> (boot_end \<times> 'a hw_scheme) option" where
  "boot_answer bootloader_start bootloader_end base_addr nbytes expected_crc s =
     (if boot_overlaps bootloader_start bootloader_end base_addr nbytes then do {
        s \<leftarrow> boot_putuint32 BAD_CODE_ADDR s;
        Some (Boot_Refused, s) }
      else do {
        s \<leftarrow> boot_putuint32 GET_CODE s;
        s \<leftarrow> boot_putuint32 expected_crc s;
        s \<leftarrow> boot_wait_for_opcode PUT_CODE s;
        s \<leftarrow> boot_store_code (unat nbytes) 0 base_addr s;
        s \<leftarrow> boot_putuint32 BOOT_SUCCESS s;
        s \<leftarrow> UART_Flush_Tx s;
        boot_finish base_addr s })"

definition boot_main :: "u32 \<Rightarrow> u32 \<Rightarrow> 'a hw_scheme \<Rightarrow> (boot_end \<times> 'a hw_scheme) option" where
  "boot_main bootloader_start bootloader_end s = do {
     s \<leftarrow> UART_Init s;
     s \<leftarrow> boot_putuint32 GET_PROG_INFO s;
     let (start, s) = TIM_SYS_Get_Ticks s;
     s \<leftarrow> boot_poll start s;
     s \<leftarrow> boot_wait_for_opcode PUT_PROG_INFO s;
     (base_addr, s) \<leftarrow> boot_getuint32 s;
     (nbytes, s) \<leftarrow> boot_getuint32 s;
     (expected_crc, s) \<leftarrow> boot_getuint32 s;
     boot_answer bootloader_start bootloader_end base_addr nbytes expected_crc s }"

subsection \<open>The traffic of the operations\<close>

lemma run_put32: "boot_putuint32 u s = Some s' \<Longrightarrow> line_run s s' (map Tx (le32 u))"
proof -
  have c: "ucast (drop_bit (i * 8) u AND 0xff) = (ucast (drop_bit (i * 8) u) :: u8)" for i
  proof -
    have m: "(0xff :: u32) = mask 8" by (simp add: mask_eq_exp_minus_1)
    show ?thesis unfolding m by (rule bit_word_eqI) (auto simp: bit_simps)
  qed
  have "boot_put_bytes is u s = Some s' \<Longrightarrow> line_run s s' (map (\<lambda>i. Tx (ucast (drop_bit (i * 8) u))) is)" for "is"
  proof (induction "is" arbitrary: s)
    case (Cons i "is")
    then obtain s1 where "UART_Put8 (ucast (drop_bit (i * 8) u AND 0xff)) s = Some s1" "boot_put_bytes is u s1 = Some s'"
      by (auto simp: bind_eq_Some_conv)
    then show ?case using run_trans [OF run_Put8] Cons.IH unfolding c by fastforce
  qed (simp add: run_refl)
  from this [of "[0, 1, 2, 3]"] show "boot_putuint32 u s = Some s' \<Longrightarrow> line_run s s' (map Tx (le32 u))"
    by (simp add: boot_putuint32_def le32_def)
qed

lemma run_getuint8: "boot_getuint8 s = Some (b, s') \<Longrightarrow> line_run s s' [Rx b]"
  using run_Get8 by (auto simp: boot_getuint8_def bind_eq_Some_conv)

lemma run_get32: "boot_getuint32 s = Some (u, s') \<Longrightarrow> line_run s s' (map Rx (le32 u))"
proof -
  assume a: "boot_getuint32 s = Some (u, s')"
  obtain b0 b1 b2 b3 s0 s1 s2 where g: "boot_getuint8 s = Some (b0, s0)" "boot_getuint8 s0 = Some (b1, s1)"
    "boot_getuint8 s1 = Some (b2, s2)" "boot_getuint8 s2 = Some (b3, s')"
    and u: "u = ucast b0 OR push_bit 8 (ucast b1) OR push_bit 16 (ucast b2) OR push_bit 24 (ucast b3)"
    using a by (auto simp: boot_getuint32_def bind_eq_Some_conv or.assoc)
  note r = run_trans [OF run_trans [OF run_trans [OF run_getuint8 [OF g(1)] run_getuint8 [OF g(2)] refl]
        run_getuint8 [OF g(3)] refl] run_getuint8 [OF g(4)] refl]
  show ?thesis using r by (simp add: u le32_of_bytes)
qed

text \<open>Waiting for an opcode: the bytes received end in it and, as far as the 32-bit byte count of the loop
  goes, no shorter prefix of them does.\<close>

lemma run_wait_loop:
  assumes "boot_wait_loop e w nb s = Some s'"
  shows "\<exists>rx. line_run s s' (map Rx rx) \<and> fold window_step rx w = e \<and> \<not> nb + of_nat (length rx) < 4 \<and>
    (\<forall>k < length rx. fold window_step (take k rx) w \<noteq> e \<or> nb + of_nat k < 4)"
proof (rule boot_wait_loop.raw_induct [OF _ assms])
  fix f :: "u32 \<Rightarrow> u32 \<Rightarrow> u32 \<Rightarrow> 'a hw_scheme \<Rightarrow> 'a hw_scheme option" and e w nb s s'
  let ?P = "\<lambda>e w nb s s'. \<exists>rx. line_run s s' (map Rx rx) \<and> fold window_step rx w = e \<and> \<not> nb + of_nat (length rx) < (4 :: u32) \<and>
    (\<forall>k < length rx. fold window_step (take k rx) w \<noteq> e \<or> nb + of_nat k < (4 :: u32))"
  assume IH: "\<And>e w nb s y. f e w nb s = Some y \<Longrightarrow> ?P e w nb s y"
    and st: "(if w \<noteq> e \<or> nb < 4 then do { (b, s) \<leftarrow> boot_getuint8 s;
        f e (drop_bit 8 w OR push_bit 24 (ucast b)) (nb + 1) s } else Some s) = Some s'"
  show "?P e w nb s s'"
  proof (cases "w \<noteq> e \<or> nb < 4")
    case False
    then show ?thesis using st by (intro exI [of _ "[]"]) (simp add: run_refl)
  next
    case True
    then obtain b s1 where g: "boot_getuint8 s = Some (b, s1)" and r: "f e (window_step b w) (nb + 1) s1 = Some s'"
      using st by (auto simp: bind_eq_Some_conv window_step_def)
    from IH [OF r] obtain rx where rx: "line_run s1 s' (map Rx rx)" "fold window_step rx (window_step b w) = e"
      "\<not> nb + 1 + of_nat (length rx) < 4"
      "\<forall>k < length rx. fold window_step (take k rx) (window_step b w) \<noteq> e \<or> nb + 1 + of_nat k < 4" by blast
    have "line_run s s' (map Rx (b # rx))" using run_trans [OF run_getuint8 [OF g] rx(1)] by simp
    moreover have "fold window_step (take k (b # rx)) w \<noteq> e \<or> nb + of_nat k < 4" if "k < length (b # rx)" for k
      using True rx(4) that by (cases k) (auto simp: add.assoc)
    ultimately show ?thesis using rx(2,3) by (intro exI [of _ "b # rx"]) (simp add: add.assoc)
  qed
qed

lemma run_wait_opcode:
  assumes "boot_wait_for_opcode e s = Some s'"
  shows "\<exists>rx. line_run s s' (map Rx rx) \<and> opcode_first e rx"
proof -
  obtain rx where rx: "line_run s s' (map Rx rx)" "fold window_step rx 0 = e" "\<not> of_nat (length rx) < (4 :: u32)"
    "\<forall>k < length rx. fold window_step (take k rx) 0 \<noteq> e \<or> of_nat k < (4 :: u32)"
    using run_wait_loop [OF assms [unfolded boot_wait_for_opcode_def]] by auto
  have small: "(of_nat k :: u32) < 4 \<longleftrightarrow> k < 4" if "k < 2 ^ 32" for k
    using that by (simp add: word_less_nat_alt unat_of_nat_small)
  have l: "4 \<le> length rx" using rx(3) small [of "length rx"] by (cases "length rx < 2 ^ 32") auto
  have "\<not> opcode_ends e (take k rx)" if "k < length rx" "k < 2 ^ 32" for k
  proof (cases "k < 4")
    case False
    then show ?thesis using rx(4) that small [OF that(2)] window_opcode [of "take k rx"] by auto
  qed (simp add: opcode_ends_def)
  moreover have "opcode_ends e rx" using window_opcode [OF l] rx(2) by blast
  ultimately show ?thesis using rx(1) by (auto simp: opcode_first_def)
qed

lemma run_poll:
  assumes "boot_poll start s = Some s'"
  shows "\<exists>k. line_run s s' (concat (replicate k (map Tx (le32 GET_PROG_INFO))))"
proof (rule boot_poll.raw_induct [OF _ assms])
  fix f :: "u32 \<Rightarrow> 'a hw_scheme \<Rightarrow> 'a hw_scheme option" and start s s'
  let ?P = "\<lambda>s s'. \<exists>k. line_run s s' (concat (replicate k (map Tx (le32 GET_PROG_INFO))))"
  assume IH: "\<And>start s y. f start s = Some y \<Longrightarrow> ?P s y"
    and st: "(let (d, s) = UART_Has_Data s in if d then Some s
      else let (t, s) = TIM_SYS_Get_Ticks s in
      if t - start \<ge> 300000 then do { s \<leftarrow> boot_putuint32 GET_PROG_INFO s; let (start, s) = TIM_SYS_Get_Ticks s; f start s }
      else f start s) = Some s'"
  obtain d s1 where 1: "UART_Has_Data s = (d, s1)" by fastforce
  obtain n s2 where 2: "TIM_SYS_Get_Ticks s1 = (n, s2)" by fastforce
  note r1 = run_flags(1) [OF 1] and r2 = run_silent [OF run_flags(1) [OF 1] run_flags(3) [OF 2]]
  consider "d" "s' = s1" | "\<not> d" "n - start \<ge> 300000" | "\<not> d" "f start s2 = Some s'"
    using st 1 2 by (auto split: if_splits)
  then show "?P s s'"
  proof cases
    case 1
    then show ?thesis using r1 by (intro exI [of _ 0]) simp
  next
    case 2
    obtain s3 where 3: "boot_putuint32 GET_PROG_INFO s2 = Some s3" and 4: "(let (start, s) = TIM_SYS_Get_Ticks s3 in f start s) = Some s'"
      using st \<open>UART_Has_Data s = (d, s1)\<close> \<open>TIM_SYS_Get_Ticks s1 = (n, s2)\<close> 2 by (auto simp: bind_eq_Some_conv)
    obtain m s4 where 5: "TIM_SYS_Get_Ticks s3 = (m, s4)" by fastforce
    then have "f m s4 = Some s'" using 4 by simp
    then obtain k where k: "line_run s4 s' (concat (replicate k (map Tx (le32 GET_PROG_INFO))))" using IH by blast
    have "line_run s s4 (map Tx (le32 GET_PROG_INFO))"
      by (rule run_silent [OF run_trans [OF r2 run_put32 [OF 3]] run_flags(3) [OF 5]]) simp
    from run_trans [OF this k] show ?thesis by (intro exI [of _ "Suc k"]) simp
  next
    case 3
    then obtain k where "line_run s2 s' (concat (replicate k (map Tx (le32 GET_PROG_INFO))))" using IH by blast
    from run_trans [OF r2 this] show ?thesis by (intro exI [of _ k]) simp
  qed
qed

text \<open>Storing the program: each byte is stored before the next one is read.\<close>

fun store_traffic :: "u32 \<Rightarrow> u8 list \<Rightarrow> traffic list" where
  "store_traffic a [] = []"
| "store_traffic a (b # bs) = Rx b # Store a b # store_traffic (a + 1) bs"

lemma run_store:
  "boot_store_code k i base s = Some s' \<Longrightarrow>
     \<exists>code. length code = k \<and> line_run s s' (store_traffic (base + i) code)"
proof (induction k arbitrary: i s)
  case 0
  then show ?case by (simp add: run_refl)
next
  case (Suc k)
  obtain r s1 where g: "UART_Get8 s = Some (r, s1)"
    and n: "boot_store_code k (i + 1) base (PUT8 (base + i) (word_of_int r) s1) = Some s'"
    using Suc.prems by (auto simp: bind_eq_Some_conv)
  obtain code where c: "length code = k"
    "line_run (PUT8 (base + i) (word_of_int r) s1) s' (store_traffic (base + (i + 1)) code)"
    using Suc.IH [OF n] by blast
  have "line_run s s' (store_traffic (base + i) (word_of_int r # code))"
    by (rule run_trans [OF run_trans [OF run_Get8 [OF g] run_dev(6) refl] c(2)]) (simp add: add.assoc)
  then show ?case using c(1) by (intro exI [of _ "word_of_int r # code"]) simp
qed

lemma run_reboot:
  assumes "rpi_reboot s = Some s'"
  shows "line_run s s' []"
proof -
  obtain s1 where f: "UART_Flush_Tx s = Some s1"
    and s': "s' = PUT32 PM_RSTC (PM_PASSWORD OR PM_RSTC_WRCFG_FULL_RESET) (PUT32 PM_WDOG (PM_PASSWORD OR 1) s1)"
    using assms by (auto simp: rpi_reboot_def bind_eq_Some_conv)
  show ?thesis unfolding s'
    by (intro run_silent [OF run_silent [OF run_flush [OF f] run_dev(2)] run_dev(2)]) simp_all
qed

text \<open>The traffic of a loader that was asked \<open>k\<close> times and received the program info after the bytes
  \<open>w1\<close>, and the program after the bytes \<open>w2\<close>.\<close>

definition info_traffic :: "nat \<Rightarrow> u8 list \<Rightarrow> u32 \<Rightarrow> u32 \<Rightarrow> u32 \<Rightarrow> traffic list" where
  "info_traffic k w1 base nbytes crc =
     concat (replicate (Suc k) (map Tx (le32 GET_PROG_INFO))) @
     map Rx (w1 @ le32 base @ le32 nbytes @ le32 crc)"

definition code_traffic :: "u32 \<Rightarrow> u32 \<Rightarrow> u8 list \<Rightarrow> u8 list \<Rightarrow> traffic list" where
  "code_traffic base crc w2 code =
     map Tx (le32 GET_CODE @ le32 crc) @ map Rx w2 @ store_traffic base code @ map Tx (le32 BOOT_SUCCESS)"

lemma run_info:
  assumes "do { s \<leftarrow> UART_Init s; s \<leftarrow> boot_putuint32 GET_PROG_INFO s; let (start, s) = TIM_SYS_Get_Ticks s;
     s \<leftarrow> boot_poll start s; s \<leftarrow> boot_wait_for_opcode PUT_PROG_INFO s; (base, s) \<leftarrow> boot_getuint32 s;
     (nbytes, s) \<leftarrow> boot_getuint32 s; (crc, s) \<leftarrow> boot_getuint32 s; F base nbytes crc s } = Some r"
  shows "\<exists>k w1 base nbytes crc s'. line_run s s' (info_traffic k w1 base nbytes crc) \<and>
    opcode_first PUT_PROG_INFO w1 \<and> F base nbytes crc s' = Some r"
proof -
  obtain s1 s2 where 1: "UART_Init s = Some s1" "boot_putuint32 GET_PROG_INFO s1 = Some s2"
    and r: "(let (start, s) = TIM_SYS_Get_Ticks s2 in do { s \<leftarrow> boot_poll start s;
      s \<leftarrow> boot_wait_for_opcode PUT_PROG_INFO s; (base, s) \<leftarrow> boot_getuint32 s;
      (nbytes, s) \<leftarrow> boot_getuint32 s; (crc, s) \<leftarrow> boot_getuint32 s; F base nbytes crc s }) = Some r"
    using assms unfolding bind_eq_Some_conv by blast
  obtain t s3 where 2: "TIM_SYS_Get_Ticks s2 = (t, s3)" by fastforce
  obtain s4 s5 base s6 nbytes s7 crc s8 where
    3: "boot_poll t s3 = Some s4" "boot_wait_for_opcode PUT_PROG_INFO s4 = Some s5"
    "boot_getuint32 s5 = Some (base, s6)" "boot_getuint32 s6 = Some (nbytes, s7)"
    "boot_getuint32 s7 = Some (crc, s8)" and F: "F base nbytes crc s8 = Some r"
    using r 2 by (auto simp: bind_eq_Some_conv)
  have "line_run s s1 []" using run_uart_init [of s] 1(1) by auto
  then have a: "line_run s s3 (map Tx (le32 GET_PROG_INFO))"
    by (intro run_silent [OF run_trans [OF _ run_put32 [OF 1(2)]] run_flags(3) [OF 2]]) simp_all
  obtain k where k: "line_run s3 s4 (concat (replicate k (map Tx (le32 GET_PROG_INFO))))" using run_poll [OF 3(1)] by blast
  obtain w1 where w1: "line_run s4 s5 (map Rx w1)" "opcode_first PUT_PROG_INFO w1" using run_wait_opcode [OF 3(2)] by blast
  have "line_run s s8 (info_traffic k w1 base nbytes crc)"
    by (rule run_trans [OF run_trans [OF a k refl] run_trans [OF w1(1) run_trans [OF run_get32 [OF 3(3)]
        run_trans [OF run_get32 [OF 3(4)] run_get32 [OF 3(5)] refl] refl] refl]]) (simp add: info_traffic_def)
  then show ?thesis using w1(2) F by blast
qed

lemma run_code:
  assumes "do { s \<leftarrow> boot_putuint32 GET_CODE s; s \<leftarrow> boot_putuint32 crc s; s \<leftarrow> boot_wait_for_opcode PUT_CODE s;
     s \<leftarrow> boot_store_code (unat nbytes) 0 base s; s \<leftarrow> boot_putuint32 BOOT_SUCCESS s; s \<leftarrow> UART_Flush_Tx s; F s } = Some r"
  shows "\<exists>w2 code s'. line_run s s' (code_traffic base crc w2 code) \<and> opcode_first PUT_CODE w2 \<and>
    length code = unat nbytes \<and> F s' = Some r"
proof -
  obtain s1 s2 s3 s4 s5 s6 where
    1: "boot_putuint32 GET_CODE s = Some s1" "boot_putuint32 crc s1 = Some s2"
    "boot_wait_for_opcode PUT_CODE s2 = Some s3" "boot_store_code (unat nbytes) 0 base s3 = Some s4"
    "boot_putuint32 BOOT_SUCCESS s4 = Some s5" "UART_Flush_Tx s5 = Some s6" and F: "F s6 = Some r"
    using assms by (auto simp: bind_eq_Some_conv)
  obtain w2 where w2: "line_run s2 s3 (map Rx w2)" "opcode_first PUT_CODE w2" using run_wait_opcode [OF 1(3)] by blast
  obtain code where c: "length code = unat nbytes" "line_run s3 s4 (store_traffic base code)"
    using run_store [OF 1(4)] by auto
  have "line_run s s5 (code_traffic base crc w2 code)"
    by (rule run_trans [OF run_trans [OF run_put32 [OF 1(1)] run_put32 [OF 1(2)] refl]
        run_trans [OF w2(1) run_trans [OF c(2) run_put32 [OF 1(5)] refl] refl]]) (simp add: code_traffic_def)
  then show ?thesis using run_silent [OF _ run_flush [OF 1(6)]] w2(2) c(1) F by blast
qed

end
