(* ===== verification/Bootloader_Spec.thy ===== *)
theory Bootloader_Spec
  imports Bootloader
begin

section \<open>The bootloader keeps to the protocol\<close>

text \<open>
  \<open>boot_main_correct\<close> gives the traffic of every run of the loader that ends; \<open>boot_main_accepts\<close> says
  that it ends, with the program stored, for every program it should accept.
\<close>

text \<open>The traffic of a run of \<open>main\<close> that ends in \<open>r\<close>.\<close>

definition loader_traffic :: "u32 \<Rightarrow> u32 \<Rightarrow> boot_end \<Rightarrow> traffic list \<Rightarrow> bool" where
  "loader_traffic lo hi r ts \<longleftrightarrow> (\<exists>k w1 base nbytes crc. opcode_first PUT_PROG_INFO w1 \<and>
    (if boot_overlaps lo hi base nbytes
     then r = Boot_Refused \<and> ts = info_traffic k w1 base nbytes crc @ map Tx (le32 BAD_CODE_ADDR)
     else r = (if base = 0 then Boot_Reboot else Boot_Branch base) \<and>
       (\<exists>w2 code. opcode_first PUT_CODE w2 \<and> length code = unat nbytes \<and>
          ts = info_traffic k w1 base nbytes crc @ code_traffic base crc w2 code)))"

lemma boot_main_traffic:
  assumes "boot_main lo hi s = Some (r, s')"
  shows "\<exists>ts. line_run s s' ts \<and> loader_traffic lo hi r ts"
proof -
  obtain k w1 base nbytes crc s1 where I: "line_run s s1 (info_traffic k w1 base nbytes crc)" "opcode_first PUT_PROG_INFO w1"
    and n: "boot_answer lo hi base nbytes crc s1 = Some (r, s')"
    using run_info [OF assms [unfolded boot_main_def]] by blast
  show ?thesis
  proof (cases "boot_overlaps lo hi base nbytes")
    case True
    then obtain "boot_putuint32 BAD_CODE_ADDR s1 = Some s'" "r = Boot_Refused" using n by (auto simp: boot_answer_def bind_eq_Some_conv)
    with run_trans [OF I(1) run_put32 [OF this(1)] refl] True I(2) show ?thesis
      unfolding loader_traffic_def
      by (intro exI [of _ "info_traffic k w1 base nbytes crc @ map Tx (le32 BAD_CODE_ADDR)"] conjI exI [of _ k] exI [of _ w1]
          exI [of _ base] exI [of _ nbytes] exI [of _ crc]) simp_all
  next
    case False
    obtain w2 code s2 where C: "line_run s1 s2 (code_traffic base crc w2 code)" "opcode_first PUT_CODE w2"
      "length code = unat nbytes"
      "boot_finish base s2 = Some (r, s')"
      using run_code [OF n [unfolded boot_answer_def if_not_P [OF False]]] by blast
    have "line_run s2 s' []" "r = (if base = 0 then Boot_Reboot else Boot_Branch base)"
      using C(4) run_reboot run_refl by (auto simp: boot_finish_def bind_eq_Some_conv split: if_splits)
    then have "line_run s s' (info_traffic k w1 base nbytes crc @ code_traffic base crc w2 code)"
      using run_trans [OF I(1) C(1) refl] run_silent by blast
    with False I(2) C(2,3) \<open>r = _\<close> show ?thesis
      unfolding loader_traffic_def
      by (intro exI [of _ "info_traffic k w1 base nbytes crc @ code_traffic base crc w2 code"] conjI exI [of _ k] exI [of _ w1]
          exI [of _ base] exI [of _ nbytes] exI [of _ crc]) auto
  qed
qed

text \<open>C13: the loader follows the protocol. A run of \<open>main\<close> that ends has asked for a program at least once;
  has read up to the first \<open>PUT_PROG_INFO\<close>, a base address, a size and a checksum; has refused the
  program and stored nothing exactly when the range test says that it meets the loader; and otherwise
  has echoed the checksum, read up to the first \<open>PUT_CODE\<close>, received as many bytes as announced and
  stored each one, in order, from the base on, reported success, and jumped to the base (or rebooted,
  for base 0). The checksum is never compared with anything.\<close>

theorem boot_main_correct:
  assumes "boot_main lo hi s = Some (r, s')"
  shows "\<exists>k w1 base nbytes crc. opcode_first PUT_PROG_INFO w1 \<and>
    (if boot_overlaps lo hi base nbytes
     then r = Boot_Refused \<and> line_run s s' (info_traffic k w1 base nbytes crc @ map Tx (le32 BAD_CODE_ADDR))
     else r = (if base = 0 then Boot_Reboot else Boot_Branch base) \<and>
       (\<exists>w2 code. opcode_first PUT_CODE w2 \<and> length code = unat nbytes \<and>
          line_run s s' (info_traffic k w1 base nbytes crc @ code_traffic base crc w2 code)))"
  using boot_main_traffic [OF assms] unfolding loader_traffic_def by metis

subsection \<open>The loader accepts what it should\<close>

text \<open>A line that is always ready. Then each operation takes a fixed number of events, and reading a byte
  when the history has \<open>n\<close> events gives the device's answer at \<open>n + 2\<close>.\<close>

definition line_ready :: "'a hw_scheme \<Rightarrow> bool" where
  "line_ready s \<longleftrightarrow> (\<forall>n. hw_in s n (Dev AUX_MU_LSR_REG) = -1)"

definition line_byte :: "'a hw_scheme \<Rightarrow> nat \<Rightarrow> u8" where
  "line_byte s n = ucast (hw_in s n (Dev AUX_MU_IO_REG))"

text \<open>\<open>s'\<close> is \<open>n\<close> events after \<open>s\<close>.\<close>

definition later :: "nat \<Rightarrow> 'a hw_scheme \<Rightarrow> 'a hw_scheme \<Rightarrow> bool" where
  "later n s s' \<longleftrightarrow> hw_in s' = hw_in s \<and> length (hw_log s') = length (hw_log s) + n"

lemma later_trans: "later n s s1 \<Longrightarrow> later m s1 s2 \<Longrightarrow> n + m = k \<Longrightarrow> later k s s2"
  by (simp add: later_def)

lemma later_ready: "later n s s' \<Longrightarrow> line_ready s' = line_ready s" "later n s s' \<Longrightarrow> line_byte s' = line_byte s"
  by (simp_all add: later_def line_ready_def line_byte_def fun_eq_iff)

lemma wait_ready: "line_ready s \<Longrightarrow> m \<noteq> 0 \<Longrightarrow> \<exists>s'. uart_wait m s = Some s' \<and> later 1 s s'"
  by (subst uart_wait.simps) (auto simp: GET32_def read_port_def emit_def Let_def line_ready_def later_def)

lemma Put8_ready: "line_ready s \<Longrightarrow> \<exists>s'. UART_Put8 c s = Some s' \<and> later 4 s s'"
proof -
  assume r: "line_ready s"
  have "line_ready (DSB s)" using r by (simp add: line_ready_def DSB_def emit_def)
  then obtain s1 where "uart_wait 0x20 (DSB s) = Some s1" "later 1 (DSB s) s1" using wait_ready [of "DSB s" "0x20"] by auto
  then show ?thesis by (auto simp: UART_Put8_def later_def PUT32_def write_port_def DSB_def emit_def)
qed

lemma getuint8_ready:
  assumes "line_ready s" "length (hw_log s) = n"
  shows "\<exists>s'. boot_getuint8 s = Some (line_byte s (n + 2), s') \<and> later 4 s s'"
proof -
  have "line_ready (DSB s)" using assms(1) by (simp add: line_ready_def DSB_def emit_def)
  then obtain s1 where w: "uart_wait 1 (DSB s) = Some s1" "later 1 (DSB s) s1" using wait_ready [of "DSB s" 1] by auto
  then have s1: "hw_in s1 = hw_in s" "length (hw_log s1) = n + 2"
    using assms(2) by (simp_all add: later_def DSB_def emit_def)
  have "boot_getuint8 s = Some (ucast (hw_in s (n + 2) (Dev AUX_MU_IO_REG)),
      DSB (emit (EvRd (Dev AUX_MU_IO_REG) (hw_in s (n + 2) (Dev AUX_MU_IO_REG))) s1))"
    using w(1) s1 byte_of_reading
    by (simp add: boot_getuint8_def UART_Get8_def GET32_def read_port_def Let_def)
  then show ?thesis using s1 assms(2) by (auto simp: line_byte_def later_def DSB_def emit_def)
qed

lemma put32_ready:
  assumes "line_ready s"
  shows "\<exists>s'. boot_putuint32 u s = Some s' \<and> later 16 s s'"
proof -
  have "line_ready s \<Longrightarrow> \<exists>s'. boot_put_bytes is u s = Some s' \<and> later (4 * length is) s s'" for "is" s
  proof (induction "is" arbitrary: s)
    case (Cons i "is")
    obtain s1 where 1: "UART_Put8 (ucast (drop_bit (i * 8) u AND 0xff)) s = Some s1" "later 4 s s1"
      using Put8_ready [OF Cons.prems] by blast
    then obtain s2 where "boot_put_bytes is u s1 = Some s2" "later (4 * length is) s1 s2"
      using Cons.IH [of s1] Cons.prems later_ready(1) by blast
    then show ?case using 1 later_trans by fastforce
  qed (simp add: later_def)
  from this [OF assms, of "[0, 1, 2, 3]"] show ?thesis by (simp add: boot_putuint32_def)
qed

text \<open>Four bytes, at \<open>n + 2\<close>, \<open>n + 6\<close>, \<open>n + 10\<close> and \<open>n + 14\<close>.\<close>

lemma getbytes_ready:
  assumes "line_ready s" "length (hw_log s) = n"
    "line_byte s (n + 2) = b0" "line_byte s (n + 6) = b1" "line_byte s (n + 10) = b2" "line_byte s (n + 14) = b3"
  obtains s0 s1 s2 s3 where "boot_getuint8 s = Some (b0, s0)" "boot_getuint8 s0 = Some (b1, s1)"
    "boot_getuint8 s1 = Some (b2, s2)" "boot_getuint8 s2 = Some (b3, s3)" "later 16 s s3"
proof -
  obtain s0 where 0: "boot_getuint8 s = Some (b0, s0)" "later 4 s s0"
    using getuint8_ready [OF assms(1,2)] assms(3) by auto
  obtain s1 where 1: "boot_getuint8 s0 = Some (b1, s1)" "later 4 s0 s1"
    using getuint8_ready [of s0 "n + 4"] later_ready [OF 0(2)] 0(2) assms(1,2,4) by (auto simp: later_def add.commute)
  note l1 = later_trans [OF 0(2) 1(2) refl]
  obtain s2 where 2: "boot_getuint8 s1 = Some (b2, s2)" "later 4 s1 s2"
    using getuint8_ready [of s1 "n + 8"] later_ready [OF l1] l1 assms(1,2,5) by (auto simp: later_def add.commute)
  note l2 = later_trans [OF l1 2(2) refl]
  obtain s3 where 3: "boot_getuint8 s2 = Some (b3, s3)" "later 4 s2 s3"
    using getuint8_ready [of s2 "n + 12"] later_ready [OF l2] l2 assms(1,2,6) by (auto simp: later_def add.commute)
  show thesis using that [OF 0(1) 1(1) 2(1) 3(1)] later_trans [OF l2 3(2)] by simp
qed

text \<open>The line sends the bytes \<open>bs\<close>, one every \<open>d\<close> events, to a reader that starts at event \<open>n\<close>.\<close>

definition line_sends :: "'a hw_scheme \<Rightarrow> nat \<Rightarrow> nat \<Rightarrow> u8 list \<Rightarrow> bool" where
  "line_sends s n d bs \<longleftrightarrow> (\<forall>k < length bs. line_byte s (n + 2 + d * k) = bs ! k)"

lemma line_sends_append:
  "line_sends s n d (xs @ ys) \<longleftrightarrow> line_sends s n d xs \<and> line_sends s (n + d * length xs) d ys"
proof -
  have split: "(\<forall>k < a + b. P k) \<longleftrightarrow> (\<forall>k < a. P k) \<and> (\<forall>k < b. P (a + k))" for P and a b :: nat
  proof -
    have "P k" if "k < a + b" "\<forall>k < a. P k" "\<forall>k < b. P (a + k)" for k
      using that spec [OF that(3), of "k - a"] by (cases "k < a") auto
    then show ?thesis by auto
  qed
  have "(\<forall>k < length ys. line_byte s (n + 2 + d * (length xs + k)) = ys ! k) \<longleftrightarrow>
      (\<forall>k < length ys. line_byte s (n + d * length xs + 2 + d * k) = ys ! k)"
    by (simp add: distrib_left ac_simps)
  then show ?thesis
    unfolding line_sends_def length_append split by (simp add: nth_append)
qed

lemma line_sends_later: "later m s s' \<Longrightarrow> line_sends s' n d bs = line_sends s n d bs"
  by (simp add: line_sends_def later_ready(2))

lemma le32_sent:
  assumes "line_sends s n 4 (le32 u)"
  shows "line_byte s (n + 2) = le32 u ! 0" "line_byte s (n + 6) = le32 u ! 1"
    "line_byte s (n + 10) = le32 u ! 2" "line_byte s (n + 14) = le32 u ! 3"
  using assms [unfolded line_sends_def le32_length, THEN spec, of 0]
    assms [unfolded line_sends_def le32_length, THEN spec, of 1]
    assms [unfolded line_sends_def le32_length, THEN spec, of 2]
    assms [unfolded line_sends_def le32_length, THEN spec, of 3]
  by (simp_all add: add.commute)

lemma get32_ready:
  assumes "line_ready s" "line_sends s (length (hw_log s)) 4 (le32 u)"
  shows "\<exists>s'. boot_getuint32 s = Some (u, s') \<and> later 16 s s'"
proof -
  from getbytes_ready [OF assms(1) refl le32_sent [OF assms(2)]] obtain s0 s1 s2 s3 where
    g: "boot_getuint8 s = Some (le32 u ! 0, s0)" "boot_getuint8 s0 = Some (le32 u ! 1, s1)"
    "boot_getuint8 s1 = Some (le32 u ! 2, s2)" "boot_getuint8 s2 = Some (le32 u ! 3, s3)" "later 16 s s3" .
  have "boot_getuint32 s = Some (ucast (le32 u ! 0) OR push_bit 8 (ucast (le32 u ! 1)) OR
      push_bit 16 (ucast (le32 u ! 2)) OR push_bit 24 (ucast (le32 u ! 3)), s3)"
    by (simp add: boot_getuint32_def g(1-4) or.assoc)
  moreover note le32_join [of u]
  ultimately show ?thesis using g(5) by simp
qed

lemma opcode_ready:
  assumes "line_ready s" "line_sends s (length (hw_log s)) 4 (le32 e)"
  shows "\<exists>s'. boot_wait_for_opcode e s = Some s' \<and> later 16 s s' \<and> line_run s s' (map Rx (le32 e))"
proof -
  from getbytes_ready [OF assms(1) refl le32_sent [OF assms(2)]] obtain s0 s1 s2 s3 where
    g: "boot_getuint8 s = Some (le32 e ! 0, s0)" "boot_getuint8 s0 = Some (le32 e ! 1, s1)"
    "boot_getuint8 s1 = Some (le32 e ! 2, s2)" "boot_getuint8 s2 = Some (le32 e ! 3, s3)" "later 16 s s3" .
  have "fold window_step [le32 e ! 0, le32 e ! 1, le32 e ! 2, le32 e ! 3] 0 = e"
    using le32_window [of "[]" "le32 e ! 0" "le32 e ! 1" "le32 e ! 2" "le32 e ! 3" 0] le32_list le32_inj
    by (metis append_Nil)
  then have "window_step (le32 e ! 3) (window_step (le32 e ! 2) (window_step (le32 e ! 1) (window_step (le32 e ! 0) 0))) = e"
    by simp
  then have w: "boot_wait_loop e (window_step (le32 e ! 3) (window_step (le32 e ! 2) (window_step (le32 e ! 1)
      (window_step (le32 e ! 0) 0)))) 4 s3 = Some s3"
    by (subst boot_wait_loop.simps) simp
  have b: "boot_wait_loop e x n t = boot_wait_loop e (window_step b x) (n + 1) t'"
    if "boot_getuint8 t = Some (b, t')" "n < 4" for x n t t' b
    using that by (subst boot_wait_loop.simps) (simp add: window_step_def)
  have "boot_wait_for_opcode e s = Some s3"
    unfolding boot_wait_for_opcode_def using b [OF g(1), of 0] b [OF g(2), of 1] b [OF g(3), of 2] b [OF g(4), of 3] w
    by simp
  moreover have "line_run s s3 (map Rx [le32 e ! 0, le32 e ! 1, le32 e ! 2, le32 e ! 3])"
    by (rule run_trans [OF run_trans [OF run_trans [OF run_getuint8 [OF g(1)] run_getuint8 [OF g(2)] refl]
        run_getuint8 [OF g(3)] refl] run_getuint8 [OF g(4)]]) simp
  ultimately show ?thesis unfolding le32_list using g(5) by blast
qed

lemma store_ready:
  assumes "line_ready s" "line_sends s (length (hw_log s)) 5 code"
  shows "\<exists>s' m. boot_store_code (length code) i base s = Some s' \<and> later m s s' \<and>
    line_run s s' (store_traffic (base + i) code)"
  using assms
proof (induction code arbitrary: i s)
  case Nil
  then show ?case by (auto simp: run_refl later_def)
next
  case (Cons b code)
  have b: "line_byte s (length (hw_log s) + 2) = b" and rest: "line_sends s (length (hw_log s) + 5) 5 code"
    using Cons.prems(2) line_sends_append [of s _ 5 "[b]" code] by (simp_all add: line_sends_def)
  obtain s1 where g: "boot_getuint8 s = Some (b, s1)" "later 4 s s1" using getuint8_ready [OF Cons.prems(1) refl] b by auto
  let ?s2 = "PUT8 (base + i) b s1"
  have l2: "later 5 s ?s2" using g(2) by (simp add: later_def PUT8_def emit_def)
  obtain s3 m where s3: "boot_store_code (length code) (i + 1) base ?s2 = Some s3" "later m ?s2 s3"
    "line_run ?s2 s3 (store_traffic (base + (i + 1)) code)"
    using Cons.IH [of ?s2 "i + 1"] later_ready(1) [OF l2] line_sends_later [OF l2] rest Cons.prems(1) l2
    by (auto simp: later_def)
  have "boot_store_code (length (b # code)) i base s = Some s3"
    using g(1) s3(1) by (auto simp: boot_getuint8_def bind_eq_Some_conv Let_def)
  moreover have "line_run s s3 (store_traffic (base + i) (b # code))"
    by (rule run_trans [OF run_trans [OF run_getuint8 [OF g(1)] run_dev(6) refl] s3(3)]) (simp add: add.assoc)
  ultimately show ?case using later_trans [OF l2 s3(2) refl] by blast
qed

lemma init_ready: "\<exists>s'. UART_Init s = Some s' \<and> later 17 s s'"
  by (auto simp: UART_Init_def GPIO_set_mode_def hv_assert_def UART_Device_Enable_def UART_Enable_def later_def
      GET32_def PUT32_def read_port_def write_port_def DSB_def emit_def Let_def)

lemma flags_ready:
  assumes "line_ready s"
  shows "\<exists>s'. UART_Has_Data s = (True, s') \<and> later 3 s s'" "\<exists>s'. UART_Flush_Tx s = Some s' \<and> later 3 s s'"
  using assms
  by (auto simp: UART_Has_Data_def UART_Flush_Tx.simps [of s] UART_Tx_Is_Empty_def GET32_def read_port_def DSB_def
      emit_def Let_def line_ready_def later_def)

lemma ticks_later: "TIM_SYS_Get_Ticks s = (t, s') \<Longrightarrow> later 1 s s'"
  by (auto simp: TIM_SYS_Get_Ticks_def GET32_def read_port_def emit_def Let_def later_def)

text \<open>The request and the program info.\<close>

lemma info_ready:
  assumes "line_ready s"
    "line_sends s (length (hw_log s) + 37) 4 (le32 PUT_PROG_INFO @ le32 base @ le32 nbytes @ le32 crc)"
  shows "\<exists>s'. later 101 s s' \<and> line_run s s' (info_traffic 0 (le32 PUT_PROG_INFO) base nbytes crc) \<and>
    do { s \<leftarrow> UART_Init s; s \<leftarrow> boot_putuint32 GET_PROG_INFO s; let (start, s) = TIM_SYS_Get_Ticks s;
     s \<leftarrow> boot_poll start s; s \<leftarrow> boot_wait_for_opcode PUT_PROG_INFO s; (base, s) \<leftarrow> boot_getuint32 s;
     (nbytes, s) \<leftarrow> boot_getuint32 s; (crc, s) \<leftarrow> boot_getuint32 s; F base nbytes crc s } = F base nbytes crc s'"
proof -
  obtain s1 where 1: "UART_Init s = Some s1" "later 17 s s1" using init_ready by blast
  obtain s2 where 2: "boot_putuint32 GET_PROG_INFO s1 = Some s2" "later 33 s s2"
    using put32_ready later_ready(1) [OF 1(2)] assms(1) later_trans [OF 1(2)] by fastforce
  obtain t s3 where 3: "TIM_SYS_Get_Ticks s2 = (t, s3)" "later 34 s s3"
    using later_trans [OF 2(2) ticks_later] by fastforce
  obtain s4 where 4: "UART_Has_Data s3 = (True, s4)" "later 37 s s4"
    using flags_ready(1) [of s3] later_ready(1) [OF 3(2)] assms(1) later_trans [OF 3(2)] by fastforce
  have poll: "boot_poll t s3 = Some s4" by (subst boot_poll.simps) (simp add: 4(1))
  note snd = assms(2) [unfolded line_sends_append le32_length, folded line_sends_later [OF 4(2)]]
  note r4 = later_ready(1) [OF 4(2)]
  obtain s5 where 5: "boot_wait_for_opcode PUT_PROG_INFO s4 = Some s5" "later 16 s4 s5"
    "line_run s4 s5 (map Rx (le32 PUT_PROG_INFO))"
    using opcode_ready [of s4 PUT_PROG_INFO] snd r4 assms(1) 4(2) by (auto simp: later_def)
  obtain s6 where 6: "boot_getuint32 s5 = Some (base, s6)" "later 32 s4 s6"
    using get32_ready [of s5 base] snd r4 assms(1) 4(2) 5(2) later_ready(1) [OF 5(2)] line_sends_later [OF 5(2)]
      later_trans [OF 5(2)] by (force simp: later_def)
  obtain s7 where 7: "boot_getuint32 s6 = Some (nbytes, s7)" "later 48 s4 s7"
    using get32_ready [of s6 nbytes] snd r4 assms(1) 4(2) 6(2) later_ready(1) [OF 6(2)] line_sends_later [OF 6(2)]
      later_trans [OF 6(2)] by (force simp: later_def)
  obtain s8 where 8: "boot_getuint32 s7 = Some (crc, s8)" "later 64 s4 s8"
    using get32_ready [of s7 crc] snd r4 assms(1) 4(2) 7(2) later_ready(1) [OF 7(2)] line_sends_later [OF 7(2)]
      later_trans [OF 7(2)] by (force simp: later_def)
  have "line_run s s1 []" using run_uart_init [of s] 1(1) by auto
  then have "line_run s s4 (map Tx (le32 GET_PROG_INFO))"
    by (intro run_silent [OF run_silent [OF run_trans [OF _ run_put32 [OF 2(1)]] run_flags(3) [OF 3(1)]] run_flags(1) [OF 4(1)]]) simp_all
  then have "line_run s s8 (info_traffic 0 (le32 PUT_PROG_INFO) base nbytes crc)"
    by (rule run_trans [OF _ run_trans [OF 5(3) run_trans [OF run_get32 [OF 6(1)]
        run_trans [OF run_get32 [OF 7(1)] run_get32 [OF 8(1)] refl] refl] refl]]) (simp add: info_traffic_def)
  moreover have "later 101 s s8" using later_trans [OF 4(2) 8(2)] by simp
  ultimately show ?thesis by (intro exI [of _ s8]) (simp add: 1(1) 2(1) 3(1) poll 5(1) 6(1) 7(1) 8(1))
qed

text \<open>The answer and the program.\<close>

lemma code_ready:
  assumes "line_ready s" "length code < 2 ^ 32"
    "line_sends s (length (hw_log s) + 32) 4 (le32 PUT_CODE)"
    "line_sends s (length (hw_log s) + 48) 5 code"
  shows "\<exists>s' m. line_run s s' (code_traffic base crc (le32 PUT_CODE) code) \<and> later m s s' \<and>
    do { s \<leftarrow> boot_putuint32 GET_CODE s; s \<leftarrow> boot_putuint32 crc s; s \<leftarrow> boot_wait_for_opcode PUT_CODE s;
     s \<leftarrow> boot_store_code (unat (of_nat (length code) :: u32)) 0 base s; s \<leftarrow> boot_putuint32 BOOT_SUCCESS s;
     s \<leftarrow> UART_Flush_Tx s; F s } = F s'"
proof -
  obtain s1 where 1: "boot_putuint32 GET_CODE s = Some s1" "later 16 s s1" using put32_ready assms(1) by blast
  obtain s2 where 2: "boot_putuint32 crc s1 = Some s2" "later 32 s s2"
    using put32_ready later_ready(1) [OF 1(2)] assms(1) later_trans [OF 1(2)] by fastforce
  have r2: "line_ready s2" "length (hw_log s2) = length (hw_log s) + 32"
    using later_ready(1) [OF 2(2)] assms(1) 2(2) by (simp_all add: later_def)
  obtain s3 where 3: "boot_wait_for_opcode PUT_CODE s2 = Some s3" "later 16 s2 s3" "line_run s2 s3 (map Rx (le32 PUT_CODE))"
    using opcode_ready [OF r2(1)] assms(3) r2(2) line_sends_later [OF 2(2)] by metis
  have l3: "later 48 s s3" using later_trans [OF 2(2) 3(2)] by simp
  then have r3: "line_ready s3" "length (hw_log s3) = length (hw_log s) + 48"
    using later_ready(1) [OF l3] assms(1) by (simp_all add: later_def)
  obtain s4 m where 4: "boot_store_code (length code) 0 base s3 = Some s4" "later m s3 s4" "line_run s3 s4 (store_traffic base code)"
    using store_ready [OF r3(1), of code 0 base] assms(4) r3(2) line_sends_later [OF l3] by auto
  have l4: "later (48 + m) s s4" using later_trans [OF l3 4(2)] by simp
  obtain s5 where 5: "boot_putuint32 BOOT_SUCCESS s4 = Some s5" "later 16 s4 s5"
    using put32_ready later_ready(1) [OF l4] assms(1) by blast
  have l5: "later (64 + m) s s5" using later_trans [OF l4 5(2)] by simp
  obtain s6 where 6: "UART_Flush_Tx s5 = Some s6" "later 3 s5 s6"
    using flags_ready(2) later_ready(1) [OF l5] assms(1) by blast
  have "line_run s s6 (code_traffic base crc (le32 PUT_CODE) code)"
    by (rule run_silent [OF run_trans [OF run_trans [OF run_put32 [OF 1(1)] run_put32 [OF 2(1)] refl]
        run_trans [OF 3(3) run_trans [OF 4(3) run_put32 [OF 5(1)] refl] refl]] run_flush [OF 6(1)]]) (simp add: code_traffic_def)
  moreover have "unat (of_nat (length code) :: u32) = length code" using assms(2) by (simp add: unat_of_nat_small)
  ultimately show ?thesis using later_trans [OF l5 6(2) refl]
    by (intro exI [of _ s6] exI [of _ "64 + m + 3"]) (simp add: 1(1) 2(1) 3(1) 4(1) 5(1) 6(1))
qed

text \<open>The line of a host that sends \<open>info\<close>, \<open>word\<close> and \<open>code\<close> to a loader that starts at event \<open>n\<close>.\<close>

definition host_line :: "nat \<Rightarrow> u8 list \<Rightarrow> u8 list \<Rightarrow> u8 list \<Rightarrow> nat \<Rightarrow> hw_port \<Rightarrow> u32" where
  "host_line n info word code i port =
     (if port \<noteq> Dev AUX_MU_IO_REG then -1
      else ucast (if i < n + 101 then info ! ((i - (n + 39)) div 4)
        else if i < n + 149 then word ! ((i - (n + 135)) div 4)
        else code ! ((i - (n + 151)) div 5)))"

lemma host_line_sends:
  fixes s :: "'a hw_scheme" and code :: "u8 list"
  assumes "length info = 16" "length word = 4" "length (hw_log s) = n" "hw_in s = host_line n info word code"
  shows "line_ready s" "line_sends s (n + 37) 4 info" "line_sends s (n + 133) 4 word" "line_sends s (n + 149) 5 code"
  using assms(1,2)
  by (auto simp: line_ready_def line_sends_def line_byte_def host_line_def assms(3,4) ucast_ucast_byte)

text \<open>The loader on a line that sends it a program at the right moments.\<close>

lemma main_ready:
  fixes t :: "'a hw_scheme"
  assumes "length code < 2 ^ 32" "length (hw_log t) = n" and nbytes: "nbytes = of_nat (length code)"
    "hw_in t = host_line n (le32 PUT_PROG_INFO @ le32 base @ le32 nbytes @ le32 crc) (le32 PUT_CODE) code"
  shows "\<exists>s'. if boot_overlaps lo hi base nbytes
    then boot_main lo hi t = Some (Boot_Refused, s') \<and>
      line_run t s' (info_traffic 0 (le32 PUT_PROG_INFO) base nbytes crc @ map Tx (le32 BAD_CODE_ADDR))
    else boot_main lo hi t = Some (if base = 0 then Boot_Reboot else Boot_Branch base, s') \<and>
      line_run t s' (info_traffic 0 (le32 PUT_PROG_INFO) base nbytes crc @ code_traffic base crc (le32 PUT_CODE) code)"
proof -
  note sends = host_line_sends [OF _ _ assms(2,4), simplified]
  have "\<exists>s1. later 101 t s1 \<and> line_run t s1 (info_traffic 0 (le32 PUT_PROG_INFO) base nbytes crc) \<and>
      boot_main lo hi t = boot_answer lo hi base nbytes crc s1"
    unfolding boot_main_def by (rule info_ready) (use sends(1,2) assms(2) in simp_all)
  then obtain s1 where 1: "later 101 t s1" "line_run t s1 (info_traffic 0 (le32 PUT_PROG_INFO) base nbytes crc)"
    "boot_main lo hi t = boot_answer lo hi base nbytes crc s1" by blast
  have l1: "length (hw_log s1) = n + 101" using 1(1) assms(2) by (simp add: later_def)
  have r1: "line_ready s1" using later_ready(1) [OF 1(1)] sends(1) by simp
  show ?thesis
  proof (cases "boot_overlaps lo hi base nbytes")
    case True
    obtain s2 where 2: "boot_putuint32 BAD_CODE_ADDR s1 = Some s2" using put32_ready [OF r1] by blast
    then show ?thesis using True 1(3) [unfolded boot_answer_def] run_trans [OF 1(2) run_put32 [OF 2] refl] by (intro exI [of _ s2]) simp
  next
    case False
    have "line_sends s1 (length (hw_log s1) + 32) 4 (le32 PUT_CODE)" "line_sends s1 (length (hw_log s1) + 48) 5 code"
      using sends(3,4) unfolding line_sends_later [OF 1(1)] l1 by (simp_all only: add.assoc numeral_plus_numeral semiring_norm)
    then have "\<exists>s2 m. line_run s1 s2 (code_traffic base crc (le32 PUT_CODE) code) \<and> later m s1 s2 \<and>
        boot_main lo hi t = boot_finish base s2"
      unfolding 1(3) boot_answer_def if_not_P [OF False] unfolding nbytes(1) by (rule code_ready [OF r1 assms(1)])
    then obtain s2 m where 2: "line_run s1 s2 (code_traffic base crc (le32 PUT_CODE) code)" "later m s1 s2"
      "boot_main lo hi t = boot_finish base s2" by blast
    obtain s3 where "UART_Flush_Tx s2 = Some s3" using flags_ready(2) later_ready(1) [OF 2(2)] r1 by blast
    then obtain s4 where 4: "rpi_reboot s2 = Some s4" by (simp add: rpi_reboot_def)
    note run = run_trans [OF 1(2) 2(1) refl]
    show ?thesis
      using False 2(3) [unfolded boot_finish_def] 4 run run_silent [OF run run_reboot [OF 4]]
      by (intro exI [of _ "if base = 0 then s4 else s2"]) auto
  qed
qed

theorem boot_main_correct_witness:
  "\<exists>line s' k w1 base nbytes crc w2 code. boot_main BOOT_START 0xFFFF2000 (reset_hw\<lparr>hw_in := line\<rparr>) = Some (Boot_Branch ARMBASE, s') \<and>
    opcode_first PUT_PROG_INFO w1 \<and> opcode_first PUT_CODE w2 \<and> length code = unat nbytes \<and>
    line_run (reset_hw\<lparr>hw_in := line\<rparr>) s' (info_traffic k w1 base nbytes crc @ code_traffic base crc w2 code)"
proof -
  let ?t = "reset_hw\<lparr>hw_in := host_line (length (hw_log reset_hw)) (le32 PUT_PROG_INFO @ le32 ARMBASE @ le32 2 @ le32 7)
    (le32 PUT_CODE) [0x13, 0x37]\<rparr>"
  have no: "\<not> boot_overlaps BOOT_START 0xFFFF2000 ARMBASE 2" by (simp add: boot_overlaps_def)
  have n: "length [0x13, 0x37 :: u8] < 2 ^ 32" "2 = (of_nat (length [0x13, 0x37 :: u8]) :: u32)" by simp_all
  have t: "hw_in ?t = host_line (length (hw_log reset_hw)) (le32 PUT_PROG_INFO @ le32 ARMBASE @ le32 2 @ le32 7)
      (le32 PUT_CODE) [0x13, 0x37]" "length (hw_log ?t) = length (hw_log reset_hw)" by simp_all
  obtain s' where b: "boot_main BOOT_START 0xFFFF2000 ?t = Some (Boot_Branch ARMBASE, s')"
    using main_ready [OF n(1) t(2) n(2) t(1), where lo = BOOT_START and hi = "0xFFFF2000"] unfolding if_not_P [OF no]
    by fastforce
  have "\<exists>k w1 base nbytes crc w2 code. opcode_first PUT_PROG_INFO w1 \<and> opcode_first PUT_CODE w2 \<and>
      length code = unat nbytes \<and> line_run ?t s' (info_traffic k w1 base nbytes crc @ code_traffic base crc w2 code)"
    using boot_main_correct [OF b] by (force split: if_splits)
  then show ?thesis using b by (intro exI [of _ "hw_in ?t"] exI [of _ s']) (simp only: ex_simps t simp_thms)
qed

text \<open>The loader accepts every program it should and always answers. Whatever the state it starts in,
  for every base, checksum and program of less than 2^32 bytes there is a line, ready at every reading,
  on which \<open>main\<close> returns: having received the info of the program and refused it, if it meets the
  loader; having stored the whole program from the base on, reported success and jumped to it (or
  rebooted, for base 0), if it does not.\<close>

theorem boot_main_accepts:
  assumes "length code < 2 ^ 32"
  shows "\<exists>line s'. (\<forall>i. line i (Dev AUX_MU_LSR_REG) = -1) \<and>
    (let s = s\<lparr>hw_in := line\<rparr>; nbytes = of_nat (length code);
         info = info_traffic 0 (le32 PUT_PROG_INFO) base nbytes crc
     in if boot_overlaps lo hi base nbytes
        then boot_main lo hi s = Some (Boot_Refused, s') \<and> line_run s s' (info @ map Tx (le32 BAD_CODE_ADDR))
        else boot_main lo hi s = Some (if base = 0 then Boot_Reboot else Boot_Branch base, s') \<and>
          line_run s s' (info @ code_traffic base crc (le32 PUT_CODE) code))"
proof -
  define line where "line = host_line (length (hw_log s))
    (le32 PUT_PROG_INFO @ le32 base @ le32 (of_nat (length code)) @ le32 crc) (le32 PUT_CODE) code"
  have "\<forall>i. line i (Dev AUX_MU_LSR_REG) = -1" by (simp add: line_def host_line_def)
  moreover have t: "length (hw_log (s\<lparr>hw_in := line\<rparr>)) = length (hw_log s)"
    "hw_in (s\<lparr>hw_in := line\<rparr>) = host_line (length (hw_log s))
      (le32 PUT_PROG_INFO @ le32 base @ le32 (of_nat (length code)) @ le32 crc) (le32 PUT_CODE) code"
    by (simp_all add: line_def)
  note main_ready [OF assms t(1) refl t(2), of lo hi]
  ultimately show ?thesis unfolding Let_def by blast
qed

theorem boot_main_accepts_witness:
  "\<exists>line s'. boot_main BOOT_START 0xFFFF2000 (reset_hw\<lparr>hw_in := line\<rparr>) = Some (Boot_Branch ARMBASE, s') \<and>
    line_run (reset_hw\<lparr>hw_in := line\<rparr>) s' (info_traffic 0 (le32 PUT_PROG_INFO) ARMBASE 2 7 @
      code_traffic ARMBASE 7 (le32 PUT_CODE) [0x13, 0x37])"
proof -
  have "\<not> boot_overlaps BOOT_START 0xFFFF2000 ARMBASE 2" by (simp add: boot_overlaps_def)
  then show ?thesis
    using boot_main_accepts [of "[0x13, 0x37]", where lo = BOOT_START and hi = "0xFFFF2000" and base = ARMBASE
        and s = reset_hw and crc = 7] by (auto simp: Let_def)
qed

end
