(* ===== verification/Process.thy ===== *)
theory Process
  imports Main "HOL-Library.Monad_Syntax"
begin

section \<open>Unix processes\<close>

text \<open>
  A computation of a process returns a value and the next state, ends the process with an exit status
  (128 plus the signal, if a signal ends it), or (\<open>None\<close>) does not end or has no meaning. \<open>andthen\<close> is
  sequencing; loops over it are partial functions.
\<close>

type_synonym ('a, 's) outcome = "((int \<times> 's) + ('a \<times> 's)) option"

definition ret :: "'a \<Rightarrow> 's \<Rightarrow> ('a, 's) outcome" where
  "ret a u = Some (Inr (a, u))"

definition exit_with :: "int \<Rightarrow> 's \<Rightarrow> ('a, 's) outcome" where
  "exit_with code u = Some (Inl (code, u))"

definition andthen :: "('s \<Rightarrow> ('a, 's) outcome) \<Rightarrow> ('a \<Rightarrow> 's \<Rightarrow> ('b, 's) outcome) \<Rightarrow> 's \<Rightarrow> ('b, 's) outcome" where
  "andthen m f u = do {
     r \<leftarrow> m u;
     case r of Inl e \<Rightarrow> Some (Inl e) | Inr (a, u) \<Rightarrow> f a u }"

text \<open>Loops over processes are partial functions, so sequencing has to be monotone.\<close>

lemma andthen_mono [partial_function_mono]:
  assumes "\<And>u. mono_option (\<lambda>g. m g u)" and "\<And>a u. mono_option (\<lambda>g. f g a u)"
  shows "mono_option (\<lambda>g. andthen (m g) (f g) u)"
proof -
  have "mono_option (\<lambda>g. case r of Inl e \<Rightarrow> Some (Inl e) | Inr (a, u) \<Rightarrow> f g a u)" for r
    using assms(2) by (cases r) (auto intro: option.const_mono)
  then show ?thesis unfolding andthen_def using assms(1) by (intro bind_mono)
qed

lemma andthen_Some:
  "andthen m f u = Some r \<longleftrightarrow>
     (\<exists>c v. m u = Some (Inl (c, v)) \<and> r = Inl (c, v)) \<or> (\<exists>a v. m u = Some (Inr (a, v)) \<and> f a v = Some r)"
proof (cases "m u")
  case (Some y)
  then show ?thesis by (cases y) (auto simp: andthen_def)
qed (simp add: andthen_def)

lemma andthen_cases [consumes 1, case_names exits goes_on]:
  assumes "andthen m f u = Some r"
  obtains c v where "m u = Some (Inl (c, v))" "r = Inl (c, v)" | a v where "m u = Some (Inr (a, v))" "f a v = Some r"
  using assms unfolding andthen_Some by blast

lemma andthen_run:
  "m u = Some (Inr (a, v)) \<Longrightarrow> andthen m f u = f a v"
  "m u = Some (Inl e) \<Longrightarrow> andthen m f u = Some (Inl e)"
  by (simp_all add: andthen_def)

end
