(* ===== verification/Host_Io.thy ===== *)
theory Host_Io
  imports Boot_Protocol Process
begin

section \<open>The host side of the bootloader: boot-unix-io.c\<close>

text \<open>
  The install program is a Unix process. Its state holds what the system calls on the serial device
  answer (\<open>tty_in k\<close> is the \<open>k\<close>-th read of a byte, \<open>tty_write k data\<close> the answer of the \<open>k\<close>-th
  write), what it has written to the device and what it has printed, as the calls of \<open>printf\<close>,
  \<open>fprintf(stderr, ...)\<close> and \<open>perror\<close> with their arguments. The host stores words low byte first.
\<close>

subsection \<open>Processes\<close>

datatype tty_read = Byte u8 | Timed_Out | Read_Error

datatype msg_arg = MInt u32 | MStr string | MErrno

datatype host_msg = Printf string "msg_arg list" | Stderr string "msg_arg list" | Perror string

record host =
  tty_in :: "nat \<Rightarrow> tty_read"
  tty_rd :: nat
  tty_write :: "nat \<Rightarrow> u8 list \<Rightarrow> int"
  tty_wr :: nat
  tty_log :: "traffic list"
  said :: "host_msg list"
  trace_p :: int

definition say :: "host_msg \<Rightarrow> 'z host_scheme \<Rightarrow> (unit, 'z host_scheme) outcome" where
  "say m u = ret () (u\<lparr>said := said u @ [m]\<rparr>)"

definition fail :: "host_msg \<Rightarrow> 'z host_scheme \<Rightarrow> ('a, 'z host_scheme) outcome" where
  "fail m = andthen (say m) (\<lambda>_. exit_with 1)"

definition newline :: string where
  "newline = [CHR 0x0A]"

subsection \<open>Reading and writing the serial device\<close>

definition write_exact :: "u8 list \<Rightarrow> 'z host_scheme \<Rightarrow> (int, 'z host_scheme) outcome" where
  "write_exact data u =
     (if data = [] then fail (Stderr (''write_exact: n must be non-zero'' @ newline) []) u
      else
        let got = tty_write u (tty_wr u) data;
            u = u\<lparr>tty_wr := tty_wr u + 1, tty_log := tty_log u @ map Tx (take (nat got) data)\<rparr>
        in if got < 0 then fail (Stderr (''write_exact: write failed: %s'' @ newline) [MErrno]) u
        else if got \<noteq> int (length data)
          then fail (Stderr (''expected a write of %u bytes, got %d'' @ newline)
            [MInt (of_nat (length data)), MInt (of_int got)]) u
        else ret (int (length data)) u)"

definition unix_putuint8 :: "u8 \<Rightarrow> 'z host_scheme \<Rightarrow> (unit, 'z host_scheme) outcome" where
  "unix_putuint8 b = andthen (write_exact [b]) (\<lambda>_. ret ())"

definition unix_putuint32 :: "u32 \<Rightarrow> 'z host_scheme \<Rightarrow> (unit, 'z host_scheme) outcome" where
  "unix_putuint32 v = andthen (write_exact (le32 v)) (\<lambda>_. ret ())"

definition unix_getuint8 :: "'z host_scheme \<Rightarrow> (u8, 'z host_scheme) outcome" where
  "unix_getuint8 u =
     (let res = tty_in u (tty_rd u); u = u\<lparr>tty_rd := tty_rd u + 1\<rparr>
      in case res of
        Read_Error \<Rightarrow> fail (Stderr (''rpi-install: tty read() failed: %s'' @ newline) [MErrno]) u
      | Timed_Out \<Rightarrow> fail (Stderr (''rpi-install: timed out waiting for Pi bootloader data'' @ newline) []) u
      | Byte b \<Rightarrow> ret b (u\<lparr>tty_log := tty_log u @ [Rx b]\<rparr>))"

primrec unix_get_bytes :: "nat list \<Rightarrow> u32 \<Rightarrow> 'z host_scheme \<Rightarrow> (u32, 'z host_scheme) outcome" where
  "unix_get_bytes [] v = ret v"
| "unix_get_bytes (i # is) v =
     andthen unix_getuint8 (\<lambda>b. unix_get_bytes is (v OR push_bit (i * 8) (ucast b)))"

definition unix_getuint32 :: "'z host_scheme \<Rightarrow> (u32, 'z host_scheme) outcome" where
  "unix_getuint32 = unix_get_bytes [0, 1, 2, 3] 0"

subsection \<open>The traffic of a computation\<close>

text \<open>\<open>host_io u v ts\<close>: between \<open>u\<close> and \<open>v\<close> the process exchanged \<open>ts\<close> with the device, having received what
  the device had to say.\<close>

definition host_io :: "'z host_scheme \<Rightarrow> 'z host_scheme \<Rightarrow> traffic list \<Rightarrow> bool" where
  "host_io u v ts \<longleftrightarrow> tty_in v = tty_in u \<and> tty_write v = tty_write u \<and> trace_p v = trace_p u \<and>
     host.more v = host.more u \<and> tty_log v = tty_log u @ ts \<and> tty_rd v = tty_rd u + length (received ts) \<and>
     (\<forall>k < length (received ts). tty_in u (tty_rd u + k) = Byte (received ts ! k))"

lemma host_io_refl: "host_io u u []"
  by (simp add: host_io_def)

lemma host_io_trans:
  assumes "host_io u v ts" "host_io v w us" "ts @ us = vs"
  shows "host_io u w vs"
proof -
  let ?r = "received ts" and ?r' = "received us"
  have "tty_in u (tty_rd u + k) = Byte ((?r @ ?r') ! k)" if "k < length (?r @ ?r')" for k
  proof (cases "k < length ?r")
    case False
    then have "k - length ?r < length ?r'" using that by auto
    then have "tty_in v (tty_rd v + (k - length ?r)) = Byte (?r' ! (k - length ?r))"
      using assms(2) by (simp only: host_io_def)
    then show ?thesis using False assms(1) by (simp add: host_io_def nth_append)
  qed (use assms(1) in \<open>simp add: host_io_def nth_append\<close>)
  then show ?thesis using assms by (auto simp: host_io_def)
qed

lemma say_io: "say m u = Some (Inr (x, v)) \<Longrightarrow> host_io u v []" "say m u \<noteq> Some (Inl e)"
  by (auto simp: say_def ret_def host_io_def)

lemma fail_Some: "fail m u = Some r \<longleftrightarrow> r = Inl (1, u\<lparr>said := said u @ [m]\<rparr>)"
  by (auto simp: fail_def say_def ret_def exit_with_def andthen_def)

lemma write_exact_io: "write_exact data u = Some (Inr (n, v)) \<Longrightarrow> host_io u v (map Tx data)"
  by (auto simp: write_exact_def fail_Some Let_def ret_def host_io_def split: if_splits)

lemma unix_put_io:
  "unix_putuint8 b u = Some (Inr (x, v)) \<Longrightarrow> host_io u v [Tx b]"
  "unix_putuint32 w u = Some (Inr (x, v)) \<Longrightarrow> host_io u v (map Tx (le32 w))"
  using write_exact_io by (force simp: unix_putuint8_def unix_putuint32_def andthen_Some ret_def)+

lemma unix_getuint8_io: "unix_getuint8 u = Some (Inr (b, v)) \<Longrightarrow> host_io u v [Rx b]"
  by (auto simp: unix_getuint8_def fail_Some Let_def ret_def host_io_def split: tty_read.splits)

lemma unix_getuint32_bytes:
  assumes "unix_getuint32 u = Some (Inr (w, v))"
  obtains b0 b1 b2 b3 u0 u1 u2 where "unix_getuint8 u = Some (Inr (b0, u0))" "unix_getuint8 u0 = Some (Inr (b1, u1))"
    "unix_getuint8 u1 = Some (Inr (b2, u2))" "unix_getuint8 u2 = Some (Inr (b3, v))"
    "w = ucast b0 OR push_bit 8 (ucast b1) OR push_bit 16 (ucast b2) OR push_bit 24 (ucast b3)"
  using assms by (auto simp: unix_getuint32_def andthen_Some ret_def or.assoc)

lemma unix_getuint32_io:
  assumes "unix_getuint32 u = Some (Inr (w, v))"
  shows "host_io u v (map Rx (le32 w))"
proof -
  obtain b0 b1 b2 b3 u0 u1 u2 where g: "unix_getuint8 u = Some (Inr (b0, u0))" "unix_getuint8 u0 = Some (Inr (b1, u1))"
    "unix_getuint8 u1 = Some (Inr (b2, u2))" "unix_getuint8 u2 = Some (Inr (b3, v))"
    and w: "w = ucast b0 OR push_bit 8 (ucast b1) OR push_bit 16 (ucast b2) OR push_bit 24 (ucast b3)"
    by (rule unix_getuint32_bytes [OF assms])
  note io = unix_getuint8_io
  show ?thesis
    by (rule host_io_trans [OF host_io_trans [OF host_io_trans [OF io [OF g(1)] io [OF g(2)] refl] io [OF g(3)] refl] io [OF g(4)]])
       (simp add: w le32_of_bytes)
qed

text \<open>How a computation ends the process: with status 1, having sent a part of what it was to send.\<close>

definition host_exit :: "'z host_scheme \<Rightarrow> 'z host_scheme \<Rightarrow> traffic list \<Rightarrow> bool" where
  "host_exit u v ts \<longleftrightarrow> tty_log v = tty_log u @ ts"

lemma exit_after: "host_io u v ts \<Longrightarrow> host_exit v w us \<Longrightarrow> ts @ us = vs \<Longrightarrow> host_exit u w vs"
  by (auto simp: host_io_def host_exit_def)

lemma fail_exit: "fail m u = Some (Inl (c, v)) \<Longrightarrow> c = 1 \<and> host_exit u v []"
  by (auto simp: fail_Some host_exit_def)

lemma write_exact_exit:
  assumes "write_exact data u = Some (Inl (c, v))"
  shows "c = 1 \<and> (\<exists>m. host_exit u v (map Tx (take m data)))"
proof (cases "data = []")
  case True
  then show ?thesis using assms by (auto simp: write_exact_def host_exit_def dest: fail_exit)
next
  case False
  then show ?thesis using assms
    by (auto simp: write_exact_def fail_Some Let_def ret_def host_exit_def split: if_splits)
qed

lemma unix_put_exit:
  "unix_putuint8 b u = Some (Inl (c, v)) \<Longrightarrow> c = 1 \<and> (\<exists>m. host_exit u v (map Tx (take m [b])))"
  "unix_putuint32 w u = Some (Inl (c, v)) \<Longrightarrow> c = 1 \<and> (\<exists>m. host_exit u v (map Tx (take m (le32 w))))"
  using write_exact_exit by (auto simp: unix_putuint8_def unix_putuint32_def andthen_Some ret_def)

lemma unix_getuint8_exit: "unix_getuint8 u = Some (Inl (c, v)) \<Longrightarrow> c = 1 \<and> host_exit u v []"
  by (auto simp: unix_getuint8_def fail_Some Let_def ret_def host_exit_def split: tty_read.splits)

lemma unix_getuint32_exit:
  assumes "unix_getuint32 u = Some (Inl (c, v))"
  shows "c = 1 \<and> (\<exists>bs. host_exit u v (map Rx bs))"
proof -
  have "unix_get_bytes is w u = Some (Inl (c, v)) \<Longrightarrow> c = 1 \<and> (\<exists>bs. host_exit u v (map Rx bs))" for "is" w u
  proof (induction "is" arbitrary: w u)
    case (Cons i "is")
    from Cons.prems consider "unix_getuint8 u = Some (Inl (c, v))"
      | b u1 where "unix_getuint8 u = Some (Inr (b, u1))" "unix_get_bytes is (w OR push_bit (i * 8) (ucast b)) u1 = Some (Inl (c, v))"
      by (auto simp: andthen_Some)
    then show ?case
    proof cases
      case 1
      then show ?thesis using unix_getuint8_exit by (intro conjI exI [of _ "[]"]) auto
    next
      case 2
      with Cons.IH obtain bs where "c = 1" "host_exit u1 v (map Rx bs)" by blast
      then show ?thesis using exit_after [OF unix_getuint8_io [OF 2(1)], of v "map Rx bs" "map Rx (b # bs)"]
        by (intro conjI exI [of _ "b # bs"]) auto
    qed
  qed (simp add: ret_def)
  from this [OF assms [unfolded unix_getuint32_def]] show ?thesis .
qed

end
