(* ===== verification/Crc32.thy ===== *)
theory Crc32
  imports Prelude
begin

section \<open>The checksum of the boot protocol: boot-crc.h\<close>

text \<open>
  \<open>crc32_inc\<close> and its table, against a reference that divides bit by bit: the table is that of
  the reflected polynomial \<open>0xedb88320\<close>, the function is the bitwise checksum, it can be computed
  piecewise, and it notices every change of one byte.
\<close>

definition crc32_tab :: "u32 list" where
  "crc32_tab =
    [0x00000000, 0x77073096, 0xee0e612c, 0x990951ba, 0x076dc419, 0x706af48f,
     0xe963a535, 0x9e6495a3, 0x0edb8832, 0x79dcb8a4, 0xe0d5e91e, 0x97d2d988,
     0x09b64c2b, 0x7eb17cbd, 0xe7b82d07, 0x90bf1d91, 0x1db71064, 0x6ab020f2,
     0xf3b97148, 0x84be41de, 0x1adad47d, 0x6ddde4eb, 0xf4d4b551, 0x83d385c7,
     0x136c9856, 0x646ba8c0, 0xfd62f97a, 0x8a65c9ec, 0x14015c4f, 0x63066cd9,
     0xfa0f3d63, 0x8d080df5, 0x3b6e20c8, 0x4c69105e, 0xd56041e4, 0xa2677172,
     0x3c03e4d1, 0x4b04d447, 0xd20d85fd, 0xa50ab56b, 0x35b5a8fa, 0x42b2986c,
     0xdbbbc9d6, 0xacbcf940, 0x32d86ce3, 0x45df5c75, 0xdcd60dcf, 0xabd13d59,
     0x26d930ac, 0x51de003a, 0xc8d75180, 0xbfd06116, 0x21b4f4b5, 0x56b3c423,
     0xcfba9599, 0xb8bda50f, 0x2802b89e, 0x5f058808, 0xc60cd9b2, 0xb10be924,
     0x2f6f7c87, 0x58684c11, 0xc1611dab, 0xb6662d3d, 0x76dc4190, 0x01db7106,
     0x98d220bc, 0xefd5102a, 0x71b18589, 0x06b6b51f, 0x9fbfe4a5, 0xe8b8d433,
     0x7807c9a2, 0x0f00f934, 0x9609a88e, 0xe10e9818, 0x7f6a0dbb, 0x086d3d2d,
     0x91646c97, 0xe6635c01, 0x6b6b51f4, 0x1c6c6162, 0x856530d8, 0xf262004e,
     0x6c0695ed, 0x1b01a57b, 0x8208f4c1, 0xf50fc457, 0x65b0d9c6, 0x12b7e950,
     0x8bbeb8ea, 0xfcb9887c, 0x62dd1ddf, 0x15da2d49, 0x8cd37cf3, 0xfbd44c65,
     0x4db26158, 0x3ab551ce, 0xa3bc0074, 0xd4bb30e2, 0x4adfa541, 0x3dd895d7,
     0xa4d1c46d, 0xd3d6f4fb, 0x4369e96a, 0x346ed9fc, 0xad678846, 0xda60b8d0,
     0x44042d73, 0x33031de5, 0xaa0a4c5f, 0xdd0d7cc9, 0x5005713c, 0x270241aa,
     0xbe0b1010, 0xc90c2086, 0x5768b525, 0x206f85b3, 0xb966d409, 0xce61e49f,
     0x5edef90e, 0x29d9c998, 0xb0d09822, 0xc7d7a8b4, 0x59b33d17, 0x2eb40d81,
     0xb7bd5c3b, 0xc0ba6cad, 0xedb88320, 0x9abfb3b6, 0x03b6e20c, 0x74b1d29a,
     0xead54739, 0x9dd277af, 0x04db2615, 0x73dc1683, 0xe3630b12, 0x94643b84,
     0x0d6d6a3e, 0x7a6a5aa8, 0xe40ecf0b, 0x9309ff9d, 0x0a00ae27, 0x7d079eb1,
     0xf00f9344, 0x8708a3d2, 0x1e01f268, 0x6906c2fe, 0xf762575d, 0x806567cb,
     0x196c3671, 0x6e6b06e7, 0xfed41b76, 0x89d32be0, 0x10da7a5a, 0x67dd4acc,
     0xf9b9df6f, 0x8ebeeff9, 0x17b7be43, 0x60b08ed5, 0xd6d6a3e8, 0xa1d1937e,
     0x38d8c2c4, 0x4fdff252, 0xd1bb67f1, 0xa6bc5767, 0x3fb506dd, 0x48b2364b,
     0xd80d2bda, 0xaf0a1b4c, 0x36034af6, 0x41047a60, 0xdf60efc3, 0xa867df55,
     0x316e8eef, 0x4669be79, 0xcb61b38c, 0xbc66831a, 0x256fd2a0, 0x5268e236,
     0xcc0c7795, 0xbb0b4703, 0x220216b9, 0x5505262f, 0xc5ba3bbe, 0xb2bd0b28,
     0x2bb45a92, 0x5cb36a04, 0xc2d7ffa7, 0xb5d0cf31, 0x2cd99e8b, 0x5bdeae1d,
     0x9b64c2b0, 0xec63f226, 0x756aa39c, 0x026d930a, 0x9c0906a9, 0xeb0e363f,
     0x72076785, 0x05005713, 0x95bf4a82, 0xe2b87a14, 0x7bb12bae, 0x0cb61b38,
     0x92d28e9b, 0xe5d5be0d, 0x7cdcefb7, 0x0bdbdf21, 0x86d3d2d4, 0xf1d4e242,
     0x68ddb3f8, 0x1fda836e, 0x81be16cd, 0xf6b9265b, 0x6fb077e1, 0x18b74777,
     0x88085ae6, 0xff0f6a70, 0x66063bca, 0x11010b5c, 0x8f659eff, 0xf862ae69,
     0x616bffd3, 0x166ccf45, 0xa00ae278, 0xd70dd2ee, 0x4e048354, 0x3903b3c2,
     0xa7672661, 0xd06016f7, 0x4969474d, 0x3e6e77db, 0xaed16a4a, 0xd9d65adc,
     0x40df0b66, 0x37d83bf0, 0xa9bcae53, 0xdebb9ec5, 0x47b2cf7f, 0x30b5ffe9,
     0xbdbdf21c, 0xcabac28a, 0x53b39330, 0x24b4a3a6, 0xbad03605, 0xcdd70693,
     0x54de5729, 0x23d967bf, 0xb3667a2e, 0xc4614ab8, 0x5d681b02, 0x2a6f2b94,
     0xb40bbe37, 0xc30c8ea1, 0x5a05df1b, 0x2d02ef8d]"

text \<open>The loop over the buffer: \<open>crc = crc32_tab[(crc ^ *p++) & 0xFF] ^ (crc >> 8)\<close>.\<close>

definition crc32_step :: "u8 \<Rightarrow> u32 \<Rightarrow> u32" where
  "crc32_step p crc = crc32_tab ! unat ((crc XOR ucast p) AND 0xFF) XOR drop_bit 8 crc"

definition crc32_inc :: "u8 list \<Rightarrow> u32 \<Rightarrow> u32" where
  "crc32_inc buf crc = fold crc32_step buf (crc XOR NOT 0) XOR NOT 0"

definition crc32 :: "u8 list \<Rightarrow> u32" where
  "crc32 buf = crc32_inc buf 0"

subsection \<open>The bitwise reference\<close>

text \<open>One bit: shift it out, and subtract the polynomial if it was set.\<close>

definition crc_bit :: "u32 \<Rightarrow> u32" where
  "crc_bit c = (if c AND 1 \<noteq> 0 then drop_bit 1 c XOR 0xedb88320 else drop_bit 1 c)"

definition crc_reference :: "u8 list \<Rightarrow> u32" where
  "crc_reference buf = NOT (fold (\<lambda>p c. (crc_bit ^^ 8) (c XOR ucast p)) buf (NOT 0))"

text \<open>The table is a linear span: entry \<open>2 ^ k + i\<close> is entry \<open>2 ^ k\<close> plus entry \<open>i\<close>.\<close>

lemma crc32_tab_span:
  "crc32_tab = fold (\<lambda>b t. t @ map (\<lambda>x. x XOR b) t) [0x77073096, 0xee0e612c, 0x076dc419, 0x0edb8832,
     0x1db71064, 0x3b6e20c8, 0x76dc4190, 0xedb88320] [0]"
  by (simp add: crc32_tab_def)

lemma crc_bit_at: "bit (crc_bit c) i \<longleftrightarrow> i < 32 \<and> (bit c (Suc i) \<noteq> (bit c 0 \<and> bit (0xedb88320 :: u32) i))"
proof -
  have "c AND 1 \<noteq> 0 \<longleftrightarrow> bit c 0" by (simp add: and_one_eq odd_iff_mod_2_eq_one bit_0)
  then show ?thesis by (auto simp: crc_bit_def bit_xor_iff bit_drop_bit_eq dest: bit_imp_le_length)
qed

lemma crc_bit_xor: "crc_bit (a XOR b) = crc_bit a XOR crc_bit b"
  by (rule bit_word_eqI) (auto simp: crc_bit_at bit_xor_iff)

lemma crc_bits_xor: "(crc_bit ^^ n) (a XOR b) = (crc_bit ^^ n) a XOR (crc_bit ^^ n) b"
  by (induction n) (simp_all add: crc_bit_xor)

lemma crc_bit_inj: "crc_bit a = crc_bit b \<Longrightarrow> a = b"
proof (rule bit_word_eqI)
  fix n assume e: "crc_bit a = crc_bit b" and n: "n < LENGTH(32)"
  have 31: "bit (crc_bit c) 31 = bit c 0" for c
    using bit_imp_le_length [of c 32] by (auto simp: crc_bit_at)
  have z: "bit a 0 = bit b 0" using e 31 by metis
  show "bit a n = bit b n"
  proof (cases n)
    case (Suc m)
    have "bit (crc_bit a) m = bit (crc_bit b) m" using e by simp
    then show ?thesis using z Suc n by (auto simp: crc_bit_at)
  qed (use z in simp)
qed

lemma crc_bits_inj: "(crc_bit ^^ n) a = (crc_bit ^^ n) b \<Longrightarrow> a = b"
  by (induction n) (auto dest: crc_bit_inj)

text \<open>Eight bits of a word whose low byte is zero are only shifted.\<close>

lemma crc_bits_shift: "n \<le> 8 \<Longrightarrow> y AND 0xFF = 0 \<Longrightarrow> (crc_bit ^^ n) y = drop_bit n y"
proof (induction n)
  case (Suc n)
  have "bit y n = bit (y AND mask 8) n" using Suc.prems(1) by (simp add: bit_and_iff bit_mask_iff)
  also have "\<dots> = False" using Suc.prems(2) by (simp add: mask_eq_exp_minus_1)
  finally have "\<not> bit (drop_bit n y) 0" by (simp add: bit_drop_bit_eq)
  then have "crc_bit (drop_bit n y) = drop_bit 1 (drop_bit n y)"
    by (intro bit_word_eqI) (auto simp: crc_bit_at bit_drop_bit_eq dest: bit_imp_le_length)
  then show ?case using Suc by simp
qed simp

definition crc_entry :: "nat \<Rightarrow> u32" where
  "crc_entry i = (crc_bit ^^ 8) (of_nat i)"

lemma crc_entry_plus: "i < 2 ^ k \<Longrightarrow> crc_entry (2 ^ k + i) = crc_entry i XOR crc_entry (2 ^ k)"
proof -
  assume i: "i < 2 ^ k"
  have "take_bit k i = i" using i by (simp add: take_bit_nat_eq_self)
  then have "\<not> bit i k" by (metis bit_take_bit_iff less_irrefl)
  then have "i AND 2 ^ k = 0" by (intro bit_eqI) (auto simp: bit_and_iff bit_exp_iff)
  then have "2 ^ k + i = i XOR 2 ^ k" by (simp add: add.commute disjunctive_add_eq_xor)
  then show ?thesis by (simp add: crc_entry_def crc_bits_xor of_nat_xor_eq)
qed

lemma crc_span_step:
  "map crc_entry [0..<2 ^ k] @ map (\<lambda>x. x XOR crc_entry (2 ^ k)) (map crc_entry [0..<2 ^ k]) =
     map crc_entry [0..<2 ^ Suc k]"
proof -
  have "[0..<2 ^ Suc k] = [0..<2 ^ k] @ map (\<lambda>i. 2 ^ k + i) [0..<2 ^ k]"
    using upt_add_eq_append [of 0 "2 ^ k" "2 ^ k"] map_add_upt [of "2 ^ k" "2 ^ k"]
    by (simp add: mult_2 add.commute)
  then show ?thesis by (auto simp: crc_entry_plus)
qed

lemma eight_bits: "(f ^^ 8) x = f (f (f (f (f (f (f (f x)))))))"
  by (simp add: eval_nat_numeral)

lemma crc32_tab_reference: "crc32_tab = map crc_entry [0..<256]"
proof -
  have b: "crc_entry (2 ^ 0) = 0x77073096" "crc_entry (2 ^ 1) = 0xee0e612c" "crc_entry (2 ^ 2) = 0x076dc419"
    "crc_entry (2 ^ 3) = 0x0edb8832" "crc_entry (2 ^ 4) = 0x1db71064" "crc_entry (2 ^ 5) = 0x3b6e20c8"
    "crc_entry (2 ^ 6) = 0x76dc4190" "crc_entry (2 ^ 7) = 0xedb88320"
    unfolding crc_entry_def eight_bits by (simp_all add: crc_bit_def)
  have "crc_entry 0 = 0" by (simp add: crc_entry_def eight_bits crc_bit_def)
  then have "fold (\<lambda>b t. t @ map (\<lambda>x. x XOR b) t) (map (\<lambda>k. crc_entry (2 ^ k)) [0..<n]) [0] =
      map crc_entry [0..<2 ^ n]" for n
    by (induction n) (simp_all only: upt_Suc_append map_append fold_append list.map fold_simps o_apply
        crc_span_step zero_le power_0 upt_0 One_nat_def, simp_all)
  note span = this [of 8]
  have "map f [0..<8] = [f 0, f 1, f 2, f 3, f 4, f 5, f 6, f 7]" for f :: "nat \<Rightarrow> u32"
    by (simp add: upt_conv_Cons numeral_2_eq_2 [symmetric])
  then have "crc32_tab = map crc_entry [0..<2 ^ 8]"
    unfolding crc32_tab_span span [symmetric] by (simp only: b)
  then show ?thesis by simp
qed

lemma crc32_step_reference: "crc32_step p c = (crc_bit ^^ 8) (c XOR ucast p)"
proof -
  let ?x = "c XOR ucast p" and ?m = "0xFF :: u32"
  have m: "?m = mask 8" by (simp add: mask_eq_exp_minus_1)
  have u: "unat (?x AND ?m) < 256" unfolding m unat_and_mask by simp
  have h: "(?x AND NOT ?m) AND 0xFF = 0" by (simp add: and.assoc)
  have s: "?x = (?x AND ?m) XOR (?x AND NOT ?m)" by (rule bit_word_eqI) (auto simp: bit_simps)
  have d: "drop_bit 8 (?x AND NOT ?m) = drop_bit 8 c"
    unfolding m by (rule bit_word_eqI) (auto simp: bit_simps dest: bit_imp_le_length)
  have "(crc_bit ^^ 8) ?x = (crc_bit ^^ 8) (?x AND ?m) XOR drop_bit 8 c"
    by (subst s) (simp only: crc_bits_xor crc_bits_shift [OF order_refl h] d)
  also have "(crc_bit ^^ 8) (?x AND ?m) = crc32_tab ! unat (?x AND ?m)"
    using u by (simp add: crc32_tab_reference crc_entry_def)
  finally show ?thesis by (simp add: crc32_step_def)
qed

lemma xor_same: "a XOR c = b XOR c \<longleftrightarrow> a = b" "c XOR a = c XOR b \<longleftrightarrow> a = b" for a :: "'a :: len word"
  by (metis xor.assoc xor.commute xor.left_neutral xor_self_eq)+

lemma byte_widened: "(ucast x :: u32) = ucast y \<longleftrightarrow> x = y" for x :: u8
proof
  assume e: "(ucast x :: u32) = ucast y"
  have "bit z n = bit (ucast z :: u32) n" if "n < 8" for z :: u8 and n
    using that by (simp add: bit_ucast_iff)
  then show "x = y" using e by (intro bit_word_eqI) simp
qed simp

lemma crc_not: "c XOR NOT 0 = NOT c" for c :: u32
  by (rule bit_word_eqI) (auto simp: bit_simps)

text \<open>C17: the table-driven checksum is the bitwise one of the CRC-32 polynomial, it can be computed piece by
  piece, and two buffers that differ in one byte have different checksums.\<close>

theorem crc32_correct:
  "crc32 buf = crc_reference buf \<and> crc32_inc (buf @ rest) c = crc32_inc rest (crc32_inc buf c) \<and>
   (crc32 (buf @ [x] @ rest) = crc32 (buf @ [y] @ rest) \<longleftrightarrow> x = y)"
proof (intro conjI)
  show "crc32 buf = crc_reference buf"
    unfolding crc32_def crc32_inc_def crc_reference_def crc_not crc32_step_reference by simp
  show "crc32_inc (buf @ rest) c = crc32_inc rest (crc32_inc buf c)"
    unfolding crc32_inc_def crc_not by simp
  have i: "fold crc32_step buf a = fold crc32_step buf b \<Longrightarrow> a = b" for a b buf
  proof (induction buf arbitrary: a b)
    case (Cons p buf)
    then have "crc32_step p a = crc32_step p b" by simp
    then show ?case using crc_bits_inj xor_same(1) unfolding crc32_step_reference by blast
  qed simp
  show "crc32 (buf @ [x] @ rest) = crc32 (buf @ [y] @ rest) \<longleftrightarrow> x = y"
  proof
    let ?c = "fold crc32_step buf (NOT 0)"
    assume "crc32 (buf @ [x] @ rest) = crc32 (buf @ [y] @ rest)"
    then have "fold crc32_step rest (crc32_step x ?c) = fold crc32_step rest (crc32_step y ?c)"
      unfolding crc32_def crc32_inc_def crc_not by simp
    from crc_bits_inj [OF i [OF this, unfolded crc32_step_reference]] show "x = y"
      by (simp only: xor_same byte_widened)
  qed simp
qed

end
