(* ===== verification/Put_Code.thy ===== *)
theory Put_Code
  imports Host_Io Crc32
begin

section \<open>Sending a program: put-code.c\<close>

text \<open>
  The host's half of the boot protocol, and the traffic of its operations: \<open>keeps m P Q\<close> says what a
  computation has exchanged when it returns and when it ends the process.
\<close>

abbreviation (input) TRACE_ALL :: int where "TRACE_ALL \<equiv> 2"

subsection \<open>put-code.c\<close>

definition say_if :: "bool \<Rightarrow> host_msg \<Rightarrow> 'z host_scheme \<Rightarrow> (unit, 'z host_scheme) outcome" where
  "say_if b m u = (if b then say m u else ret () u)"

definition trace_get8 :: "'z host_scheme \<Rightarrow> (u8, 'z host_scheme) outcome" where
  "trace_get8 = andthen unix_getuint8 (\<lambda>v u.
     andthen (say_if (trace_p u = TRACE_ALL) (Printf (''GET8:%x'' @ newline) [MInt (ucast v)])) (\<lambda>_. ret v) u)"

definition trace_get32 :: "'z host_scheme \<Rightarrow> (u32, 'z host_scheme) outcome" where
  "trace_get32 = andthen unix_getuint32 (\<lambda>v u.
     andthen (say_if (trace_p u \<noteq> 0) (Printf (''GET32:%x [%s]'' @ newline) [MInt v, MStr (boot_op_to_str v)]))
       (\<lambda>_. ret v) u)"

definition trace_put8 :: "u8 \<Rightarrow> 'z host_scheme \<Rightarrow> (unit, 'z host_scheme) outcome" where
  "trace_put8 v u =
     andthen (say_if (trace_p u = TRACE_ALL) (Printf (''PUT8:%x'' @ newline) [MInt (ucast v)]))
       (\<lambda>_. unix_putuint8 v) u"

definition trace_put32 :: "u32 \<Rightarrow> 'z host_scheme \<Rightarrow> (unit, 'z host_scheme) outcome" where
  "trace_put32 v u =
     andthen (say_if (trace_p u \<noteq> 0) (Printf (''PUT32:%x [%s]'' @ newline) [MInt v, MStr (boot_op_to_str v)]))
       (\<lambda>_. unix_putuint32 v) u"

text \<open>The test for \<open>BOOT_ERROR\<close> comes after the return of every word that is not \<open>PRINT_STRING\<close>.\<close>

partial_function (option) get_op :: "'z host_scheme \<Rightarrow> (u32, 'z host_scheme) outcome" where
  "get_op u = andthen unix_getuint32 (\<lambda>op u.
     if op \<noteq> PRINT_STRING then
       andthen (say_if (trace_p u \<noteq> 0) (Printf (''GET32:%x [%s]'' @ newline) [MInt op, MStr (boot_op_to_str op)]))
         (\<lambda>_. ret op) u
     else if op = BOOT_ERROR then
       andthen (say (Perror (''rpi-install: pi reported boot error'' @ newline))) (\<lambda>_. exit_with 1) u
     else get_op u) u"

text \<open>The two loops that wait for the Pi, and the one that sends the program.\<close>

partial_function (option) put_code_wait :: "'z host_scheme \<Rightarrow> (unit, 'z host_scheme) outcome" where
  "put_code_wait u = andthen get_op (\<lambda>word u.
     if word \<noteq> GET_PROG_INFO then andthen trace_get8 (\<lambda>_ u. put_code_wait u) u else ret () u) u"

partial_function (option) put_code_skip :: "'z host_scheme \<Rightarrow> (u32, 'z host_scheme) outcome" where
  "put_code_skip u = andthen get_op (\<lambda>word u.
     if word = GET_PROG_INFO then put_code_skip u else ret word u) u"

primrec put_code_bytes :: "u8 list \<Rightarrow> 'z host_scheme \<Rightarrow> (unit, 'z host_scheme) outcome" where
  "put_code_bytes [] = ret ()"
| "put_code_bytes (b # bs) = andthen (trace_put8 b) (\<lambda>_. put_code_bytes bs)"

text \<open>The last part, from the Pi's answer on.\<close>

definition put_code_answer :: "u8 list \<Rightarrow> u32 \<Rightarrow> 'z host_scheme \<Rightarrow> (unit, 'z host_scheme) outcome" where
  "put_code_answer code word =
     (if word \<noteq> GET_CODE then
        fail (Stderr (''rpi-install: expected GET_CODE, got %x [%s]'' @ newline) [MInt word, MStr (boot_op_to_str word)])
      else
        andthen trace_get32 (\<lambda>pi_crc.
        if pi_crc \<noteq> crc32 code then
          fail (Stderr (''rpi-install: pi crc (%x) != expected crc (%x)'' @ newline) [MInt pi_crc, MInt (crc32 code)])
        else
          andthen (trace_put32 PUT_CODE) (\<lambda>_.
          andthen (put_code_bytes code) (\<lambda>_.
          andthen trace_get32 (\<lambda>word.
          if word \<noteq> BOOT_SUCCESS then fail (Stderr (''rpi-install: pi reported boot failure'' @ newline) [])
          else say (Printf (''rpi-install: boot successful'' @ newline) []))))))"

text \<open>Reading past the end of the buffer has no meaning.\<close>

definition put_code :: "u32 \<Rightarrow> u8 list \<Rightarrow> u32 \<Rightarrow> 'z host_scheme \<Rightarrow> (unit, 'z host_scheme) outcome" where
  "put_code addr buf n u =
     (if length buf < unat n then None
      else let code = take (unat n) buf in
        andthen (say (Printf (''simple_boot: waiting for Pi bootloader'' @ newline) [])) (\<lambda>_.
        andthen put_code_wait (\<lambda>_.
        andthen (say (Printf (''simple_boot: sending %d bytes, crc32=%x'' @ newline) [MInt n, MInt (crc32 code)])) (\<lambda>_.
        andthen (trace_put32 PUT_PROG_INFO) (\<lambda>_.
        andthen (trace_put32 addr) (\<lambda>_.
        andthen (trace_put32 n) (\<lambda>_.
        andthen (trace_put32 (crc32 code)) (\<lambda>_.
        andthen put_code_skip (put_code_answer code)))))))) u)"

subsection \<open>Traffic\<close>

text \<open>A computation keeps to \<open>P\<close> and \<open>Q\<close> if the traffic of its normal ends is in \<open>P\<close> and that of its exits,
  all with status 1, in \<open>Q\<close>.\<close>

definition ends_in :: "('a \<Rightarrow> traffic list \<Rightarrow> bool) \<Rightarrow> (traffic list \<Rightarrow> bool) \<Rightarrow> 'z host_scheme \<Rightarrow> (int \<times> 'z host_scheme) + ('a \<times> 'z host_scheme) \<Rightarrow> bool" where
  "ends_in P Q u r \<longleftrightarrow> (case r of
     Inr (a, v) \<Rightarrow> \<exists>ts. host_io u v ts \<and> P a ts
   | Inl (c, v) \<Rightarrow> c = 1 \<and> (\<exists>ts. host_exit u v ts \<and> Q ts))"

definition keeps :: "('z host_scheme \<Rightarrow> ('a, 'z host_scheme) outcome) \<Rightarrow> ('a \<Rightarrow> traffic list \<Rightarrow> bool) \<Rightarrow> (traffic list \<Rightarrow> bool) \<Rightarrow> bool" where
  "keeps m P Q \<longleftrightarrow> (\<forall>u r. m u = Some r \<longrightarrow> ends_in P Q u r)"

lemma keepsD: "keeps m P Q \<Longrightarrow> m u = Some r \<Longrightarrow> ends_in P Q u r"
  by (simp add: keeps_def)

lemma keepsI:
  assumes "\<And>u a v. m u = Some (Inr (a, v)) \<Longrightarrow> \<exists>ts. host_io u v ts \<and> P a ts"
    "\<And>u c v. m u = Some (Inl (c, v)) \<Longrightarrow> c = 1 \<and> (\<exists>ts. host_exit u v ts \<and> Q ts)"
  shows "keeps m P Q"
  using assms by (auto simp: keeps_def ends_in_def split: sum.splits)

lemma keeps_andthen:
  assumes m: "keeps m P Q" and f: "\<And>a. keeps (f a) (P' a) (Q' a)"
    and R: "\<And>a b ts us. P a ts \<Longrightarrow> P' a b us \<Longrightarrow> R b (ts @ us)"
    and S: "\<And>ts. Q ts \<Longrightarrow> S ts" "\<And>a ts us. P a ts \<Longrightarrow> Q' a us \<Longrightarrow> S (ts @ us)"
  shows "keeps (andthen m f) R S"
proof (rule keepsI)
  fix u b v
  assume "andthen m f u = Some (Inr (b, v))"
  then obtain a w where "m u = Some (Inr (a, w))" "f a w = Some (Inr (b, v))" by (auto simp: andthen_Some)
  from keepsD [OF m this(1)] keepsD [OF f this(2)] obtain ts us
    where "host_io u w ts" "P a ts" "host_io w v us" "P' a b us" by (auto simp: ends_in_def)
  then show "\<exists>ts. host_io u v ts \<and> R b ts" using R host_io_trans [OF _ _ refl] by blast
next
  fix u c v
  assume "andthen m f u = Some (Inl (c, v))"
  then consider "m u = Some (Inl (c, v))" | a w where "m u = Some (Inr (a, w))" "f a w = Some (Inl (c, v))"
    by (auto simp: andthen_Some)
  then show "c = 1 \<and> (\<exists>ts. host_exit u v ts \<and> S ts)"
  proof cases
    case 1
    from keepsD [OF m 1] show ?thesis using S(1) by (auto simp: ends_in_def)
  next
    case 2
    from keepsD [OF m 2(1)] keepsD [OF f 2(2)] obtain ts us
      where "host_io u w ts" "P a ts" "c = 1" "host_exit w v us" "Q' a us" by (auto simp: ends_in_def)
    then show ?thesis using S(2) exit_after [OF _ _ refl] by blast
  qed
qed

lemma keeps_weaken:
  assumes "keeps m P Q" "\<And>a ts. P a ts \<Longrightarrow> P' a ts" "\<And>ts. Q ts \<Longrightarrow> Q' ts"
  shows "keeps m P' Q'"
proof (rule keepsI)
  fix u a v assume "m u = Some (Inr (a, v))"
  from keepsD [OF assms(1) this] show "\<exists>ts. host_io u v ts \<and> P' a ts" using assms(2) by (auto simp: ends_in_def)
next
  fix u c v assume "m u = Some (Inl (c, v))"
  from keepsD [OF assms(1) this] show "c = 1 \<and> (\<exists>ts. host_exit u v ts \<and> Q' ts)" using assms(3) by (auto simp: ends_in_def)
qed

text \<open>Nothing, some bytes received, a part of \<open>bs\<close> sent.\<close>

abbreviation quiet :: "traffic list \<Rightarrow> bool" where "quiet ts \<equiv> ts = []"

definition only_rx :: "traffic list \<Rightarrow> bool" where "only_rx ts \<longleftrightarrow> (\<exists>bs. ts = map Rx bs)"

definition part_tx :: "u8 list \<Rightarrow> traffic list \<Rightarrow> bool" where "part_tx bs ts \<longleftrightarrow> (\<exists>m. ts = map Tx (take m bs))"

lemma keeps_basic:
  "keeps (ret x) (\<lambda>a ts. a = x \<and> ts = []) Q" "keeps (say m) (\<lambda>_. quiet) Q" "keeps (fail m) P quiet"
  "keeps (say_if b m) (\<lambda>_. quiet) Q'"
  by (auto simp: keeps_def ends_in_def ret_def say_if_def say_def fail_Some host_io_def host_exit_def)

lemma keeps_unix:
  "keeps unix_getuint8 (\<lambda>b ts. ts = [Rx b]) quiet"
  "keeps unix_getuint32 (\<lambda>w ts. ts = map Rx (le32 w)) only_rx"
  "keeps (unix_putuint8 b) (\<lambda>_ ts. ts = [Tx b]) (part_tx [b])"
  "keeps (unix_putuint32 w) (\<lambda>_ ts. ts = map Tx (le32 w)) (part_tx (le32 w))"
proof -
  show "keeps unix_getuint8 (\<lambda>b ts. ts = [Rx b]) quiet"
    by (intro keepsI) (auto dest: unix_getuint8_io unix_getuint8_exit)
  show "keeps unix_getuint32 (\<lambda>w ts. ts = map Rx (le32 w)) only_rx"
    unfolding only_rx_def by (intro keepsI) (blast dest: unix_getuint32_io unix_getuint32_exit)+
  show "keeps (unix_putuint8 b) (\<lambda>_ ts. ts = [Tx b]) (part_tx [b])"
    unfolding part_tx_def by (intro keepsI) (blast dest: unix_put_io(1) unix_put_exit(1))+
  show "keeps (unix_putuint32 w) (\<lambda>_ ts. ts = map Tx (le32 w)) (part_tx (le32 w))"
    unfolding part_tx_def by (intro keepsI) (blast dest: unix_put_io(2) unix_put_exit(2))+
qed

lemma keeps_state: "(\<And>w. keeps (m w) P Q) \<Longrightarrow> keeps (\<lambda>u. m u u) P Q"
  by (simp add: keeps_def)

lemma keeps_trace:
  "keeps trace_get8 (\<lambda>b ts. ts = [Rx b]) quiet"
  "keeps trace_get32 (\<lambda>w ts. ts = map Rx (le32 w)) only_rx"
  "keeps (trace_put8 b) (\<lambda>_ ts. ts = [Tx b]) (part_tx [b])"
  "keeps (trace_put32 w) (\<lambda>_ ts. ts = map Tx (le32 w)) (part_tx (le32 w))"
proof -
  have tell: "keeps (andthen (say_if b m) (\<lambda>_. ret v)) (\<lambda>a ts. a = v \<and> ts = []) Q" for b m v Q
    by (rule keeps_andthen [OF keeps_basic(4) keeps_basic(1)]) auto
  show "keeps trace_get8 (\<lambda>b ts. ts = [Rx b]) quiet"
    unfolding trace_get8_def by (rule keeps_andthen [OF keeps_unix(1) keeps_state [OF tell]]) auto
  show "keeps trace_get32 (\<lambda>w ts. ts = map Rx (le32 w)) only_rx"
    unfolding trace_get32_def by (rule keeps_andthen [OF keeps_unix(2) keeps_state [OF tell]]) auto
  have "keeps (andthen (say_if q m) (\<lambda>_. unix_putuint8 b)) (\<lambda>_ ts. ts = [Tx b]) (part_tx [b])" for q m
    by (rule keeps_andthen [OF keeps_basic(4) keeps_unix(3)]) auto
  from this show "keeps (trace_put8 b) (\<lambda>_ ts. ts = [Tx b]) (part_tx [b])"
    unfolding trace_put8_def [abs_def] by (rule keeps_state)
  have "keeps (andthen (say_if q m) (\<lambda>_. unix_putuint32 w)) (\<lambda>_ ts. ts = map Tx (le32 w)) (part_tx (le32 w))" for q m
    by (rule keeps_andthen [OF keeps_basic(4) keeps_unix(4)]) auto
  from this show "keeps (trace_put32 w) (\<lambda>_ ts. ts = map Tx (le32 w)) (part_tx (le32 w))"
    unfolding trace_put32_def [abs_def] by (rule keeps_state)
qed

text \<open>The bytes of a list of words.\<close>

definition words :: "u32 list \<Rightarrow> u8 list" where
  "words ws = concat (map le32 ws)"

lemma words_simps [simp]: "words [] = []" "words (w # ws) = le32 w @ words ws" "words (ws @ ws') = words ws @ words ws'"
  by (simp_all add: words_def)

lemma only_rxI: "only_rx (map Rx bs)" "only_rx []"
  by (auto simp: only_rx_def)

lemma only_rx_append: "only_rx ts \<Longrightarrow> only_rx us \<Longrightarrow> only_rx (ts @ us)"
  by (auto simp: only_rx_def) (metis map_append)

lemma only_rx_Cons: "only_rx ts \<Longrightarrow> only_rx (Rx b # ts)"
  using only_rx_append [OF only_rxI(1) [of "[b]"], of ts] by simp

lemma keeps_get_op:
  "keeps get_op (\<lambda>op ts. op \<noteq> PRINT_STRING \<and> (\<exists>j. ts = map Rx (words (replicate j PRINT_STRING) @ le32 op))) only_rx"
  (is "keeps _ ?P _")
  unfolding keeps_def
proof (intro allI impI, erule get_op.raw_induct [rotated])
  fix g u r
  assume IH: "\<And>u r. g u = Some r \<Longrightarrow> ends_in ?P only_rx u r"
    and st: "andthen unix_getuint32 (\<lambda>op u. if op \<noteq> PRINT_STRING then
       andthen (say_if (trace_p u \<noteq> 0) (Printf (''GET32:%x [%s]'' @ newline) [MInt op, MStr (boot_op_to_str op)]))
         (\<lambda>_. ret op) u
     else if op = BOOT_ERROR then
       andthen (say (Perror (''rpi-install: pi reported boot error'' @ newline))) (\<lambda>_. exit_with 1) u
     else g u) u = Some r"
  have tell: "keeps (andthen (say_if b m) (\<lambda>_. ret op)) (\<lambda>a ts. a = op \<and> ts = []) only_rx" for b m op
    by (rule keeps_andthen [OF keeps_basic(4) keeps_basic(1)]) auto
  have "keeps (\<lambda>u. if op \<noteq> PRINT_STRING then
       andthen (say_if (trace_p u \<noteq> 0) (Printf (''GET32:%x [%s]'' @ newline) [MInt op, MStr (boot_op_to_str op)]))
         (\<lambda>_. ret op) u
     else if op = BOOT_ERROR then
       andthen (say (Perror (''rpi-install: pi reported boot error'' @ newline))) (\<lambda>_. exit_with 1) u
     else g u) (\<lambda>a ts. if op \<noteq> PRINT_STRING then a = op \<and> ts = [] else ?P a ts) only_rx" for op
    using keeps_state [OF tell] IH by (cases "op = PRINT_STRING") (simp_all add: keeps_def)
  then have "keeps (andthen unix_getuint32 (\<lambda>op u. if op \<noteq> PRINT_STRING then
       andthen (say_if (trace_p u \<noteq> 0) (Printf (''GET32:%x [%s]'' @ newline) [MInt op, MStr (boot_op_to_str op)]))
         (\<lambda>_. ret op) u
     else if op = BOOT_ERROR then
       andthen (say (Perror (''rpi-install: pi reported boot error'' @ newline))) (\<lambda>_. exit_with 1) u
     else g u)) ?P only_rx"
  proof (rule keeps_andthen [OF keeps_unix(2)])
    fix a b ts us
    assume "ts = map Rx (le32 a)" "if a \<noteq> PRINT_STRING then b = a \<and> us = [] else ?P b us"
    then show "?P b (ts @ us)"
    proof (cases "a = PRINT_STRING")
      case True
      then obtain j where "b \<noteq> PRINT_STRING" "us = map Rx (words (replicate j PRINT_STRING) @ le32 b)"
        using \<open>if a \<noteq> PRINT_STRING then b = a \<and> us = [] else ?P b us\<close> by auto
      then show ?thesis using True \<open>ts = _\<close> by (intro conjI exI [of _ "Suc j"]) simp_all
    next
      case False
      then show ?thesis using \<open>ts = _\<close> \<open>if a \<noteq> PRINT_STRING then b = a \<and> us = [] else ?P b us\<close>
        by (intro conjI exI [of _ 0]) simp_all
    qed
  qed (auto intro: only_rx_append only_rxI)
  from keepsD [OF this st] show "ends_in ?P only_rx u r" .
qed

lemma keeps_wait: "keeps put_code_wait (\<lambda>_ ts. \<exists>w. ts = map Rx (w @ le32 GET_PROG_INFO)) only_rx"
  (is "keeps _ ?P _")
  unfolding keeps_def
proof (intro allI impI, erule put_code_wait.raw_induct [rotated])
  fix g u r
  assume IH: "\<And>u r. g u = Some r \<Longrightarrow> ends_in ?P only_rx u r"
    and st: "andthen get_op (\<lambda>word u. if word \<noteq> GET_PROG_INFO then andthen trace_get8 (\<lambda>_ u. g u) u else ret () u) u = Some r"
  have more: "keeps (andthen trace_get8 (\<lambda>_ u. g u)) ?P only_rx"
  proof (rule keeps_andthen [OF keeps_trace(1), where P' = "\<lambda>_. ?P" and Q' = "\<lambda>_. only_rx"])
    fix a b ts us
    assume "ts = [Rx a]" "?P b us"
    then obtain w where "us = map Rx (w @ le32 GET_PROG_INFO)" by blast
    then show "?P b (ts @ us)" using \<open>ts = _\<close> by (intro exI [of _ "a # w"]) simp
  qed (use IH only_rx_Cons only_rxI(2) in \<open>auto simp: keeps_def\<close>)
  have "keeps (\<lambda>u. if word \<noteq> GET_PROG_INFO then andthen trace_get8 (\<lambda>_ u. g u) u else ret () u)
      (\<lambda>a ts. if word \<noteq> GET_PROG_INFO then ?P a ts else ts = []) only_rx" for word
    using more keeps_basic(1) [of "()" only_rx] by (cases "word = GET_PROG_INFO") (simp_all add: keeps_def)
  then have "keeps (andthen get_op (\<lambda>word u. if word \<noteq> GET_PROG_INFO then andthen trace_get8 (\<lambda>_ u. g u) u
      else ret () u)) ?P only_rx"
  proof (rule keeps_andthen [OF keeps_get_op])
    fix a b ts us
    assume "a \<noteq> PRINT_STRING \<and> (\<exists>j. ts = map Rx (words (replicate j PRINT_STRING) @ le32 a))"
      and us: "if a \<noteq> GET_PROG_INFO then ?P b us else us = []"
    then obtain x where ts: "ts = map Rx (x @ le32 a)" by blast
    show "?P b (ts @ us)"
    proof (cases "a = GET_PROG_INFO")
      case False
      then obtain w where "us = map Rx (w @ le32 GET_PROG_INFO)" using us by auto
      then show ?thesis using ts by (intro exI [of _ "x @ le32 a @ w"]) simp
    qed (use ts us in \<open>auto intro: exI [of _ x]\<close>)
  qed (auto intro: only_rx_append only_rxI)
  from keepsD [OF this st] show "ends_in ?P only_rx u r" .
qed

lemma keeps_skip:
  "keeps put_code_skip (\<lambda>word ts. \<exists>ws. set ws \<subseteq> {PRINT_STRING, GET_PROG_INFO} \<and> ts = map Rx (words ws @ le32 word)) only_rx"
  (is "keeps _ ?P _")
  unfolding keeps_def
proof (intro allI impI, erule put_code_skip.raw_induct [rotated])
  fix g u r
  assume IH: "\<And>u r. g u = Some r \<Longrightarrow> ends_in ?P only_rx u r"
    and st: "andthen get_op (\<lambda>word u. if word = GET_PROG_INFO then g u else ret word u) u = Some r"
  have "keeps (\<lambda>u. if word = GET_PROG_INFO then g u else ret word u)
      (\<lambda>a ts. if word = GET_PROG_INFO then ?P a ts else a = word \<and> ts = []) only_rx" for word
    using IH keeps_basic(1) [of word only_rx] by (cases "word = GET_PROG_INFO") (simp_all add: keeps_def)
  then have "keeps (andthen get_op (\<lambda>word u. if word = GET_PROG_INFO then g u else ret word u)) ?P only_rx"
  proof (rule keeps_andthen [OF keeps_get_op])
    fix a b ts us
    assume "a \<noteq> PRINT_STRING \<and> (\<exists>j. ts = map Rx (words (replicate j PRINT_STRING) @ le32 a))"
      and us: "if a = GET_PROG_INFO then ?P b us else b = a \<and> us = []"
    then obtain j where ts: "ts = map Rx (words (replicate j PRINT_STRING) @ le32 a)" by blast
    show "?P b (ts @ us)"
    proof (cases "a = GET_PROG_INFO")
      case True
      then obtain ws where "set ws \<subseteq> {PRINT_STRING, GET_PROG_INFO}" "us = map Rx (words ws @ le32 b)" using us by auto
      then show ?thesis using ts True by (intro exI [of _ "replicate j PRINT_STRING @ GET_PROG_INFO # ws"]) auto
    next
      case False
      then show ?thesis using ts us by (intro exI [of _ "replicate j PRINT_STRING"]) auto
    qed
  qed (auto intro: only_rx_append only_rxI)
  from keepsD [OF this st] show "ends_in ?P only_rx u r" .
qed

lemma keeps_bytes: "keeps (put_code_bytes bs) (\<lambda>_ ts. ts = map Tx bs) (part_tx bs)"
proof (induction bs)
  case Nil
  then show ?case using keeps_basic(1) [of "()" "part_tx []"] by (simp add: keeps_def)
next
  case (Cons b bs)
  show ?case unfolding put_code_bytes.simps
  proof (rule keeps_andthen [OF keeps_trace(3) Cons])
    fix ts assume "part_tx [b] ts"
    then obtain m where "ts = map Tx (take m [b])" by (auto simp: part_tx_def)
    then show "part_tx (b # bs) ts" unfolding part_tx_def by (intro exI [of _ "min m 1"]) (cases m; simp)
  next
    fix ts us assume "ts = [Tx b]" "part_tx bs us"
    then obtain m where "us = map Tx (take m bs)" by (auto simp: part_tx_def)
    then show "part_tx (b # bs) (ts @ us)" unfolding part_tx_def using \<open>ts = _\<close> by (intro exI [of _ "Suc m"]) simp
  qed simp
qed

subsection \<open>The protocol\<close>

text \<open>What the host does once the Pi has echoed the checksum, and the echo.\<close>

definition host_send :: "u8 list \<Rightarrow> traffic list" where
  "host_send code = map Tx (le32 PUT_CODE @ code) @ map Rx (le32 BOOT_SUCCESS)"

definition host_echo :: "u32 list \<Rightarrow> u32 \<Rightarrow> traffic list" where
  "host_echo ws crc = map Rx (words ws @ le32 GET_CODE @ le32 crc)"

definition host_offer :: "u8 list \<Rightarrow> u32 \<Rightarrow> u32 \<Rightarrow> u32 \<Rightarrow> traffic list" where
  "host_offer w addr n crc = map Rx (w @ le32 GET_PROG_INFO) @ map Tx (le32 PUT_PROG_INFO @ le32 addr @ le32 n @ le32 crc)"

text \<open>A traffic that stops while \<open>bs\<close> is sent, or sends \<open>bs\<close> and goes on in \<open>Q\<close>.\<close>

definition stops_in :: "u8 list \<Rightarrow> (traffic list \<Rightarrow> bool) \<Rightarrow> traffic list \<Rightarrow> bool" where
  "stops_in bs Q ts \<longleftrightarrow> (\<exists>m. sent ts = take m bs) \<or> (\<exists>us. ts = map Tx bs @ us \<and> Q us)"

lemma stops_early: "only_rx ts \<Longrightarrow> stops_in bs Q ts" "part_tx bs ts \<Longrightarrow> stops_in (bs @ bs') Q ts" "stops_in bs Q []"
proof -
  show "only_rx ts \<Longrightarrow> stops_in bs Q ts" by (auto simp: stops_in_def only_rx_def intro: exI [of _ 0])
  show "stops_in bs Q []" by (auto simp: stops_in_def intro: exI [of _ 0])
  assume "part_tx bs ts"
  then obtain m where "ts = map Tx (take m bs)" by (auto simp: part_tx_def)
  then have "sent ts = take (min m (length bs)) (bs @ bs')" by (simp add: min_def)
  then show "stops_in (bs @ bs') Q ts" unfolding stops_in_def by blast
qed

lemma stops_later: "stops_in bs' Q us \<Longrightarrow> stops_in (bs @ bs') Q (map Tx bs @ us)"
proof -
  assume "stops_in bs' Q us"
  then consider m where "sent us = take m bs'" | vs where "us = map Tx bs' @ vs" "Q vs" by (auto simp: stops_in_def)
  then show ?thesis
  proof cases
    case 1
    then have "sent (map Tx bs @ us) = take (length bs + m) (bs @ bs')" by simp
    then show ?thesis unfolding stops_in_def by blast
  qed (auto simp: stops_in_def)
qed

lemma keeps_put32:
  assumes "keeps m (\<lambda>a ts. \<exists>us. ts = map Tx bs @ us \<and> P a us) (stops_in bs Q)"
  shows "keeps (andthen (trace_put32 w) (\<lambda>_. m))
    (\<lambda>a ts. \<exists>us. ts = map Tx (le32 w @ bs) @ us \<and> P a us) (stops_in (le32 w @ bs) Q)"
  by (rule keeps_andthen [OF keeps_trace(4) assms]) (auto intro: stops_early stops_later)

lemma keeps_send:
  "keeps (andthen (trace_put32 PUT_CODE) (\<lambda>_. andthen (put_code_bytes code) (\<lambda>_. andthen trace_get32 (\<lambda>word.
     if word \<noteq> BOOT_SUCCESS then fail m else say m'))))
   (\<lambda>_ ts. ts = host_send code) (\<lambda>ts. \<exists>k. sent ts = take k (le32 PUT_CODE @ code))"
proof -
  have 1: "keeps (if word \<noteq> BOOT_SUCCESS then fail m else say m') (\<lambda>_ ts. word = BOOT_SUCCESS \<and> ts = []) quiet" for word
    using keeps_basic(2,3) by (cases "word = BOOT_SUCCESS") auto
  have 2: "keeps (andthen trace_get32 (\<lambda>word. if word \<noteq> BOOT_SUCCESS then fail m else say m'))
      (\<lambda>_ ts. ts = map Rx (le32 BOOT_SUCCESS)) only_rx"
    by (rule keeps_andthen [OF keeps_trace(2) 1]) (auto intro: only_rxI)
  have 3: "keeps (andthen (put_code_bytes code) (\<lambda>_. andthen trace_get32 (\<lambda>word. if word \<noteq> BOOT_SUCCESS then fail m else say m')))
      (\<lambda>_ ts. \<exists>us. ts = map Tx code @ us \<and> us = map Rx (le32 BOOT_SUCCESS)) (stops_in code (\<lambda>_. False))"
    by (rule keeps_andthen [OF keeps_bytes 2])
       (use stops_early(2) [of code _ "[]"] stops_later [of "[]" _ _ code, OF stops_early(1)] in auto)
  have "stops_in bs (\<lambda>_. False) = (\<lambda>ts. \<exists>k. sent ts = take k bs)" for bs by (simp add: stops_in_def fun_eq_iff)
  with keeps_put32 [OF 3, of PUT_CODE] show ?thesis by (simp add: host_send_def del: take_append)
qed

text \<open>Once the Pi has answered \<open>word\<close>.\<close>

definition sending :: "u8 list \<Rightarrow> traffic list \<Rightarrow> bool" where
  "sending code ts \<longleftrightarrow> (\<exists>us k. ts = map Rx (le32 (crc32 code)) @ us \<and> sent us = take k (le32 PUT_CODE @ code))"

lemma keeps_answer:
  "keeps (put_code_answer code word)
     (\<lambda>_ ts. word = GET_CODE \<and> ts = map Rx (le32 (crc32 code)) @ host_send code)
     (\<lambda>ts. only_rx ts \<or> word = GET_CODE \<and> sending code ts)"
proof (cases "word = GET_CODE")
  case True
  then have ne: "\<not> word \<noteq> GET_CODE" by simp
  show ?thesis
    unfolding put_code_answer_def if_not_P [OF ne]
  proof (rule keeps_andthen [OF keeps_trace(2)])
    let ?rest = "\<lambda>pi_crc. if pi_crc \<noteq> crc32 code
      then fail (Stderr (''rpi-install: pi crc (%x) != expected crc (%x)'' @ newline) [MInt pi_crc, MInt (crc32 code)])
      else andthen (trace_put32 PUT_CODE) (\<lambda>_. andthen (put_code_bytes code) (\<lambda>_. andthen trace_get32 (\<lambda>word.
        if word \<noteq> BOOT_SUCCESS then fail (Stderr (''rpi-install: pi reported boot failure'' @ newline) [])
        else say (Printf (''rpi-install: boot successful'' @ newline) []))))"
    show "keeps (?rest pi_crc) (\<lambda>_ ts. pi_crc = crc32 code \<and> ts = host_send code)
        (\<lambda>ts. ts = [] \<or> pi_crc = crc32 code \<and> (\<exists>k. sent ts = take k (le32 PUT_CODE @ code)))" for pi_crc
    proof (cases "pi_crc = crc32 code")
      case True
      then have e: "\<not> pi_crc \<noteq> crc32 code" by simp
      show ?thesis unfolding if_not_P [OF e] using True by (intro keeps_weaken [OF keeps_send]) simp_all
    next
      case False
      then show ?thesis using keeps_basic(3) by simp
    qed
  qed (use True in \<open>auto simp: sending_def intro: only_rxI\<close>)
next
  case False
  then show ?thesis using keeps_basic(3) only_rxI(2) by (simp add: put_code_answer_def keeps_def ends_in_def fail_Some host_exit_def)
qed

text \<open>From the words that may precede it, the echo, and the rest.\<close>

definition echoed :: "u8 list \<Rightarrow> (traffic list \<Rightarrow> bool) \<Rightarrow> traffic list \<Rightarrow> bool" where
  "echoed code Q ts \<longleftrightarrow> (\<exists>ws us. set ws \<subseteq> {PRINT_STRING, GET_PROG_INFO} \<and>
     ts = host_echo ws (crc32 code) @ us \<and> Q us)"

lemma keeps_skip_answer:
  "keeps (andthen put_code_skip (put_code_answer code)) (\<lambda>_ ts. \<exists>us. ts = map Tx [] @ us \<and> echoed code (\<lambda>us. us = host_send code) us)
     (stops_in [] (echoed code (\<lambda>us. \<exists>k. sent us = take k (le32 PUT_CODE @ code))))"
proof (rule keeps_andthen [OF keeps_skip keeps_answer])
  fix word :: u32 and b :: unit and ts us
  assume "\<exists>ws. set ws \<subseteq> {PRINT_STRING, GET_PROG_INFO} \<and> ts = map Rx (words ws @ le32 word)"
    "word = GET_CODE \<and> us = map Rx (le32 (crc32 code)) @ host_send code"
  then show "\<exists>us'. ts @ us = map Tx [] @ us' \<and> echoed code (\<lambda>us. us = host_send code) us'"
    by (auto simp: echoed_def host_echo_def)
next
  fix word :: u32 and ts us
  assume "\<exists>ws. set ws \<subseteq> {PRINT_STRING, GET_PROG_INFO} \<and> ts = map Rx (words ws @ le32 word)"
  then obtain ws where ts: "set ws \<subseteq> {PRINT_STRING, GET_PROG_INFO}" "ts = map Rx (words ws @ le32 word)" by blast
  assume "only_rx us \<or> word = GET_CODE \<and> sending code us"
  then consider "only_rx us" | vs k where "word = GET_CODE" "us = map Rx (le32 (crc32 code)) @ vs"
      "sent vs = take k (le32 PUT_CODE @ code)" unfolding sending_def by blast
  then show "stops_in [] (echoed code (\<lambda>us. \<exists>k. sent us = take k (le32 PUT_CODE @ code))) (ts @ us)"
  proof cases
    case 1
    then show ?thesis using only_rx_append [OF only_rxI(1)] ts(2) by (auto intro!: stops_early(1))
  next
    case 2
    then have "ts @ us = host_echo ws (crc32 code) @ vs" using ts(2) by (simp add: host_echo_def)
    then show ?thesis using ts(1) 2(3) unfolding stops_in_def echoed_def by auto
  qed
qed (auto intro: stops_early(1))

text \<open>The four words of the offer.\<close>

lemma keeps_offer:
  "keeps (andthen (trace_put32 PUT_PROG_INFO) (\<lambda>_. andthen (trace_put32 addr) (\<lambda>_. andthen (trace_put32 n) (\<lambda>_.
      andthen (trace_put32 (crc32 code)) (\<lambda>_. andthen put_code_skip (put_code_answer code))))))
    (\<lambda>_ ts. \<exists>us. ts = map Tx (le32 PUT_PROG_INFO @ le32 addr @ le32 n @ le32 (crc32 code)) @ us \<and>
       echoed code (\<lambda>us. us = host_send code) us)
    (stops_in (le32 PUT_PROG_INFO @ le32 addr @ le32 n @ le32 (crc32 code))
       (echoed code (\<lambda>us. \<exists>k. sent us = take k (le32 PUT_CODE @ code))))"
  using keeps_put32 [OF keeps_put32 [OF keeps_put32 [OF keeps_put32 [OF keeps_skip_answer]]],
      of PUT_PROG_INFO addr n "crc32 code" code] by (simp only: append_Nil2)

text \<open>A run that returns.\<close>

definition program_sent :: "u32 \<Rightarrow> u8 list \<Rightarrow> u32 \<Rightarrow> traffic list \<Rightarrow> bool" where
  "program_sent addr code n ts \<longleftrightarrow> (\<exists>w ws. set ws \<subseteq> {PRINT_STRING, GET_PROG_INFO} \<and>
     ts = host_offer w addr n (crc32 code) @ host_echo ws (crc32 code) @ host_send code)"

text \<open>A run that gives up: while it waits or makes its offer, or later, and then the Pi has echoed the checksum.\<close>

definition gave_up :: "u32 \<Rightarrow> u8 list \<Rightarrow> u32 \<Rightarrow> traffic list \<Rightarrow> bool" where
  "gave_up addr code n ts \<longleftrightarrow>
     (\<exists>k. sent ts = take k (le32 PUT_PROG_INFO @ le32 addr @ le32 n @ le32 (crc32 code))) \<or>
     (\<exists>w ws us k. set ws \<subseteq> {PRINT_STRING, GET_PROG_INFO} \<and>
        ts = host_offer w addr n (crc32 code) @ host_echo ws (crc32 code) @ us \<and>
        sent us = take k (le32 PUT_CODE @ code))"

lemma gave_up_waiting: "only_rx ts \<Longrightarrow> gave_up addr code n ts"
  using exI [of "\<lambda>k. [] = take k (le32 PUT_PROG_INFO @ le32 addr @ le32 n @ le32 (crc32 code))" 0]
  by (auto simp: gave_up_def only_rx_def)

lemma offer_traffic:
  assumes "stops_in (le32 PUT_PROG_INFO @ le32 addr @ le32 n @ le32 (crc32 code))
      (echoed code (\<lambda>us. \<exists>k. sent us = take k (le32 PUT_CODE @ code))) ts"
  shows "gave_up addr code n (map Rx (w @ le32 GET_PROG_INFO) @ ts)"
proof -
  have "sent (map Rx (w @ le32 GET_PROG_INFO) @ ts) = sent ts" by simp
  then show ?thesis
    using assms unfolding stops_in_def gave_up_def echoed_def host_offer_def by (fastforce simp del: take_append)
qed

lemma put_code_body:
  assumes "unat n \<le> length buf"
  shows "put_code addr buf n = andthen (say (Printf (''simple_boot: waiting for Pi bootloader'' @ newline) []))
    (\<lambda>_. andthen put_code_wait (\<lambda>_. andthen (say (Printf (''simple_boot: sending %d bytes, crc32=%x'' @ newline)
      [MInt n, MInt (crc32 (take (unat n) buf))])) (\<lambda>_. andthen (trace_put32 PUT_PROG_INFO) (\<lambda>_. andthen (trace_put32 addr)
      (\<lambda>_. andthen (trace_put32 n) (\<lambda>_. andthen (trace_put32 (crc32 (take (unat n) buf))) (\<lambda>_.
       andthen put_code_skip (put_code_answer (take (unat n) buf)))))))))"
  using assms by (simp add: put_code_def fun_eq_iff Let_def)

lemma keeps_put_code:
  assumes "unat n \<le> length buf"
  shows "keeps (put_code addr buf n) (\<lambda>_. program_sent addr (take (unat n) buf) n) (gave_up addr (take (unat n) buf) n)"
proof -
  let ?code = "take (unat n) buf"
  have offer: "keeps (andthen (say m) (\<lambda>_. andthen (trace_put32 PUT_PROG_INFO) (\<lambda>_. andthen (trace_put32 addr) (\<lambda>_. andthen (trace_put32 n) (\<lambda>_.
      andthen (trace_put32 (crc32 ?code)) (\<lambda>_. andthen put_code_skip (put_code_answer ?code)))))))
     (\<lambda>_ ts. \<exists>us. ts = map Tx (le32 PUT_PROG_INFO @ le32 addr @ le32 n @ le32 (crc32 ?code)) @ us \<and>
       echoed ?code (\<lambda>us. us = host_send ?code) us)
    (stops_in (le32 PUT_PROG_INFO @ le32 addr @ le32 n @ le32 (crc32 ?code))
       (echoed ?code (\<lambda>us. \<exists>k. sent us = take k (le32 PUT_CODE @ ?code))))" for m
    by (rule keeps_andthen [OF keeps_basic(2) keeps_offer]) (auto intro: stops_early)
  have "keeps (andthen put_code_wait (\<lambda>_. andthen (say m) (\<lambda>_. andthen (trace_put32 PUT_PROG_INFO) (\<lambda>_. andthen (trace_put32 addr)
        (\<lambda>_. andthen (trace_put32 n) (\<lambda>_. andthen (trace_put32 (crc32 ?code)) (\<lambda>_.
         andthen put_code_skip (put_code_answer ?code))))))))
      (\<lambda>_. program_sent addr ?code n) (gave_up addr ?code n)" for m
  proof (rule keeps_andthen [OF keeps_wait offer])
    fix a b :: unit and ts us
    assume "\<exists>w. ts = map Rx (w @ le32 GET_PROG_INFO)"
      "\<exists>vs. us = map Tx (le32 PUT_PROG_INFO @ le32 addr @ le32 n @ le32 (crc32 ?code)) @ vs \<and> echoed ?code (\<lambda>us. us = host_send ?code) vs"
    then show "program_sent addr ?code n (ts @ us)"
      unfolding program_sent_def echoed_def host_offer_def by fastforce
  qed (auto intro: gave_up_waiting simp del: map_append intro!: offer_traffic)
  then show ?thesis unfolding put_code_body [OF assms]
    by (rule keeps_andthen [OF keeps_basic(2), where Q = only_rx]) (auto intro: gave_up_waiting)
qed

lemma put_code_traffic:
  "put_code addr buf n u = Some (Inr (x, v)) \<Longrightarrow> \<exists>ts. tty_log v = tty_log u @ ts \<and> program_sent addr (take (unat n) buf) n ts"
proof -
  assume p: "put_code addr buf n u = Some (Inr (x, v))"
  then have "unat n \<le> length buf" by (auto simp: put_code_def split: if_splits)
  from keepsD [OF keeps_put_code [OF this] p] show ?thesis by (auto simp: ends_in_def host_io_def)
qed

end
