(* ===== verification/Put_Code_Spec.thy ===== *)
theory Put_Code_Spec
  imports Put_Code
begin

section \<open>The host keeps to the protocol\<close>

text \<open>
  \<open>put_code_correct\<close> gives the traffic of every run that ends: what it sends when it returns, and how far
  it can have come when it gives up. If the device takes every write and delivers just the answers of a loader that accepts the program,
  \<open>put_code\<close> returns, having read all of them (\<open>put_code_runs\<close>).
\<close>

definition host_ready :: "'z host_scheme \<Rightarrow> u8 list \<Rightarrow> bool" where
  "host_ready u bs \<longleftrightarrow> (\<forall>k data. tty_write u k data = int (length data)) \<and>
     (\<forall>k. tty_in u (tty_rd u + k) = (if k < length bs then Byte (bs ! k) else Timed_Out))"

text \<open>The computation returns \<open>a\<close>, with \<open>bs\<close> still to be read.\<close>

definition runs :: "('z host_scheme \<Rightarrow> ('a, 'z host_scheme) outcome) \<Rightarrow> 'z host_scheme \<Rightarrow> 'a \<Rightarrow> u8 list \<Rightarrow> bool" where
  "runs m u a bs \<longleftrightarrow> (\<exists>v. m u = Some (Inr (a, v)) \<and> host_ready v bs)"

lemma runs_andthen:
  "runs m u a bs \<Longrightarrow> (\<And>v. host_ready v bs \<Longrightarrow> runs (f a) v b cs) \<Longrightarrow> runs (andthen m f) u b cs"
  by (auto simp: runs_def andthen_def)

lemma runs_basic:
  assumes "host_ready u bs"
  shows "runs (say m) u () bs" "runs (ret a) u a bs" "runs (say_if b m) u () bs"
    "runs (unix_putuint8 c) u () bs" "runs (unix_putuint32 w) u () bs"
  using assms
  by (auto simp: runs_def host_ready_def say_def ret_def say_if_def unix_putuint8_def unix_putuint32_def
      write_exact_def andthen_def le32_def Let_def)

lemma runs_state: "runs (m u) u a bs \<Longrightarrow> runs (\<lambda>u. m u u) u a bs"
  by (simp add: runs_def)

lemma runs_unix_getuint8: "host_ready u (b # bs) \<Longrightarrow> runs unix_getuint8 u b bs"
proof -
  assume r: "host_ready u (b # bs)"
  then have "tty_in u (tty_rd u + Suc k) = (if Suc k < length (b # bs) then Byte ((b # bs) ! Suc k) else Timed_Out)" for k
    unfolding host_ready_def by blast
  moreover have "tty_in u (tty_rd u + 0) = Byte b" using r unfolding host_ready_def by (metis length_greater_0_conv list.distinct(1) nth_Cons_0)
  ultimately show ?thesis using r
    by (simp add: runs_def unix_getuint8_def ret_def Let_def host_ready_def)
qed

lemma runs_unix_getuint32:
  assumes "host_ready u (le32 w @ bs)"
  shows "runs unix_getuint32 u w bs"
proof -
  let ?b = "\<lambda>i. le32 w ! i"
  have r: "host_ready u (?b 0 # ?b 1 # ?b 2 # ?b 3 # bs)"
    using assms le32_list [of w] by (metis append_Cons append_Nil)
  have "runs (unix_get_bytes [0, 1, 2, 3] 0) u (ucast (?b 0) OR push_bit 8 (ucast (?b 1)) OR
     push_bit 16 (ucast (?b 2)) OR push_bit 24 (ucast (?b 3))) bs"
    unfolding unix_get_bytes.simps
    by (intro runs_andthen [OF runs_unix_getuint8 [OF r]] runs_andthen [OF runs_unix_getuint8]) (assumption | simp add: runs_basic or.assoc)+
  then show ?thesis unfolding unix_getuint32_def le32_join .
qed

lemma runs_trace:
  "host_ready u (b # bs) \<Longrightarrow> runs trace_get8 u b bs"
  "host_ready u (le32 w @ bs) \<Longrightarrow> runs trace_get32 u w bs"
  "host_ready u bs \<Longrightarrow> runs (trace_put8 b) u () bs" "host_ready u bs \<Longrightarrow> runs (trace_put32 w) u () bs"
proof -
  show "host_ready u (b # bs) \<Longrightarrow> runs trace_get8 u b bs"
    unfolding trace_get8_def by (erule runs_andthen [OF runs_unix_getuint8]) (rule runs_state, rule runs_andthen [OF runs_basic(3)], auto intro: runs_basic)
  show "host_ready u (le32 w @ bs) \<Longrightarrow> runs trace_get32 u w bs"
    unfolding trace_get32_def by (erule runs_andthen [OF runs_unix_getuint32]) (rule runs_state, rule runs_andthen [OF runs_basic(3)], auto intro: runs_basic)
  show "host_ready u bs \<Longrightarrow> runs (trace_put8 b) u () bs"
    unfolding trace_put8_def [abs_def] by (rule runs_state, rule runs_andthen [OF runs_basic(3)]) (auto intro: runs_basic)
  show "host_ready u bs \<Longrightarrow> runs (trace_put32 w) u () bs"
    unfolding trace_put32_def [abs_def] by (rule runs_state, rule runs_andthen [OF runs_basic(3)]) (auto intro: runs_basic)
qed

lemma runs_get_op:
  assumes "host_ready u (le32 op @ bs)" "op \<noteq> PRINT_STRING"
  shows "runs get_op u op bs"
  unfolding runs_def
  by (subst get_op.simps, fold runs_def, rule runs_andthen [OF runs_unix_getuint32 [OF assms(1)]])
     (use assms(2) in \<open>auto simp: runs_def andthen_def say_if_def say_def ret_def host_ready_def\<close>)

lemma runs_wait: "host_ready u (le32 GET_PROG_INFO @ bs) \<Longrightarrow> runs put_code_wait u () bs"
  unfolding runs_def
  by (subst put_code_wait.simps, fold runs_def, erule runs_andthen [OF runs_get_op]) (auto simp: runs_def ret_def)

lemma runs_skip:
  "host_ready u (le32 op @ bs) \<Longrightarrow> op \<noteq> PRINT_STRING \<Longrightarrow> op \<noteq> GET_PROG_INFO \<Longrightarrow> runs put_code_skip u op bs"
  unfolding runs_def
  by (subst put_code_skip.simps, fold runs_def, erule runs_andthen [OF runs_get_op]) (auto simp: runs_def ret_def)

lemma runs_bytes: "host_ready u bs \<Longrightarrow> runs (put_code_bytes code) u () bs"
  by (induction code arbitrary: u) (auto intro: runs_basic runs_andthen [OF runs_trace(3)])

lemma runs_answer:
  assumes "host_ready u (le32 (crc32 code) @ le32 BOOT_SUCCESS @ bs)"
  shows "runs (put_code_answer code GET_CODE) u () bs"
proof -
  have "runs (andthen (trace_put32 PUT_CODE) (\<lambda>_. andthen (put_code_bytes code) (\<lambda>_. andthen trace_get32 (\<lambda>word.
      if word \<noteq> BOOT_SUCCESS then fail m else say m')))) v () bs" if "host_ready v (le32 BOOT_SUCCESS @ bs)" for v m m'
    by (rule runs_andthen [OF runs_trace(4) [OF that]], erule runs_andthen [OF runs_bytes], erule runs_andthen [OF runs_trace(2)])
       (simp add: runs_basic)
  then show ?thesis unfolding put_code_answer_def
    by (simp only: simp_thms if_False, intro runs_andthen [OF runs_trace(2) [OF assms]]) simp
qed

text \<open>The whole exchange, with a Pi that asks once.\<close>

lemma runs_put_code:
  assumes "host_ready u (le32 GET_PROG_INFO @ le32 GET_CODE @ le32 (crc32 (take (unat n) buf)) @ le32 BOOT_SUCCESS)"
    and "unat n \<le> length buf"
  shows "runs (put_code addr buf n) u () []"
  unfolding put_code_body [OF assms(2)]
  by (rule runs_andthen [OF runs_basic(1) [OF assms(1)]], erule runs_andthen [OF runs_wait],
      erule runs_andthen [OF runs_basic(1)], erule runs_andthen [OF runs_trace(4)],
      erule runs_andthen [OF runs_trace(4)], erule runs_andthen [OF runs_trace(4)],
      erule runs_andthen [OF runs_trace(4)], rule runs_andthen [OF runs_skip], assumption)
     (use runs_answer [of _ "take (unat n) buf" "[]"] in simp_all)

text \<open>A run that uses up the answers has received just them.\<close>

lemma all_read:
  assumes "host_ready u bs" "host_io u v ts" "host_ready v []"
  shows "received ts = bs"
proof -
  have b: "Byte (received ts ! k) = (if k < length bs then Byte (bs ! k) else Timed_Out)" if "k < length (received ts)" for k
    using assms(1,2) that unfolding host_ready_def host_io_def by metis
  have "tty_in v (tty_rd v + 0) = Timed_Out"
    using assms(3) [unfolded host_ready_def, THEN conjunct2, THEN spec, of 0] by simp
  then have "tty_in u (tty_rd u + length (received ts)) = Timed_Out" using assms(2) by (simp add: host_io_def)
  then have "\<not> length (received ts) < length bs" 
    using assms(1) [unfolded host_ready_def, THEN conjunct2, THEN spec, of "length (received ts)"] by auto
  moreover have "\<not> length bs < length (received ts)" using b [of "length bs"] by auto
  ultimately show ?thesis using b by (intro nth_equalityI) (auto split: if_splits)
qed

lemma put_code_runs:
  assumes "host_ready u (le32 GET_PROG_INFO @ le32 GET_CODE @ le32 (crc32 (take (unat n) buf)) @ le32 BOOT_SUCCESS)"
    and "unat n \<le> length buf"
  shows "\<exists>v ts. put_code addr buf n u = Some (Inr ((), v)) \<and> tty_log v = tty_log u @ ts \<and>
    program_sent addr (take (unat n) buf) n ts \<and>
    received ts = le32 GET_PROG_INFO @ le32 GET_CODE @ le32 (crc32 (take (unat n) buf)) @ le32 BOOT_SUCCESS"
proof -
  obtain v where v: "put_code addr buf n u = Some (Inr ((), v))" "host_ready v []"
    using runs_put_code [OF assms] by (auto simp: runs_def)
  with keepsD [OF keeps_put_code [OF assms(2)] v(1)] obtain ts
    where ts: "host_io u v ts" "program_sent addr (take (unat n) buf) n ts" by (auto simp: ends_in_def)
  have "tty_log v = tty_log u @ ts" using ts(1) by (simp add: host_io_def)
  with v(1) ts(2) all_read [OF assms(1) ts(1) v(2)] show ?thesis by blast
qed

text \<open>C16: the host keeps to the protocol. A run of \<open>put_code\<close> that returns has waited for a request, sent the
  address, size and checksum of the program, received them acknowledged, with the checksum echoed, sent
  the program and received the report of success. A run that gives up does so with exit status 1, and has
  sent nothing of the program unless the Pi had echoed its checksum; what it has sent is the beginning of
  what a successful run sends.\<close>

theorem put_code_correct:
  assumes "put_code addr buf n u = Some r"
  shows "case r of
     Inr (_, v) \<Rightarrow> \<exists>ts. tty_log v = tty_log u @ ts \<and> program_sent addr (take (unat n) buf) n ts
   | Inl (c, v) \<Rightarrow> c = 1 \<and> (\<exists>ts. tty_log v = tty_log u @ ts \<and> gave_up addr (take (unat n) buf) n ts)"
proof -
  have "unat n \<le> length buf" using assms by (auto simp: put_code_def split: if_splits)
  from keepsD [OF keeps_put_code [OF this] assms] show ?thesis
    by (auto simp: ends_in_def host_io_def host_exit_def split: sum.splits)
qed

text \<open>A host whose device has the answers \<open>bs\<close>.\<close>

definition answered_host :: "u8 list \<Rightarrow> host" where
  "answered_host bs = \<lparr>tty_in = \<lambda>k. if k < length bs then Byte (bs ! k) else Timed_Out, tty_rd = 0,
     tty_write = \<lambda>_ data. int (length data), tty_wr = 0, tty_log = [], said = [], trace_p = 0\<rparr>"

lemma answered_host_ready: "host_ready (answered_host bs) bs" "tty_log (answered_host bs) = []"
  by (simp_all add: answered_host_def host_ready_def)

theorem put_code_correct_witness:
  "\<exists>(u :: host) v ts. put_code ARMBASE [0x13, 0x37] 2 u = Some (Inr ((), v)) \<and> tty_log v = tty_log u @ ts \<and>
     program_sent ARMBASE [0x13, 0x37] 2 ts"
proof -
  obtain v where v: "put_code ARMBASE [0x13, 0x37] 2 (answered_host (le32 GET_PROG_INFO @ le32 GET_CODE @
      le32 (crc32 (take (unat (2 :: u32)) [0x13, 0x37])) @ le32 BOOT_SUCCESS)) = Some (Inr ((), v))"
    using put_code_runs [OF answered_host_ready(1), of 2 "[0x13, 0x37]" ARMBASE] by auto
  have "take (unat (2 :: u32)) [0x13, 0x37 :: u8] = [0x13, 0x37]" by simp
  then show ?thesis using put_code_correct [OF v] v by (simp only: sum.case prod.case) blast
qed

end
