(* ===== verification/Delivery.thy ===== *)
theory Delivery
  imports Bootloader_Spec Put_Code_Spec "HOL-Library.Sublist"
begin

section \<open>Both sides of the bootloader\<close>

text \<open>
  The loader on the Pi and the host program, joined by a serial line that loses and invents nothing:
  what a side has received is a beginning of what the other has sent. \<open>program_delivered\<close> says that when
  both come to an end the program has arrived, \<open>delivery_possible\<close> that this happens.
\<close>

subsection \<open>Opcodes in what the host sends\<close>

lemma le32_prefix: "prefix (le32 a @ xs) (le32 b @ ys) \<longleftrightarrow> a = b \<and> prefix xs ys"
proof
  assume "prefix (le32 a @ xs) (le32 b @ ys)"
  then obtain zs where "(le32 a @ xs) @ zs = le32 b @ ys" by (auto simp: prefix_def)
  then have "le32 a = le32 b" "xs @ zs = ys" by (simp_all add: append_eq_append_conv)
  then show "a = b \<and> prefix xs ys" by (auto simp: le32_inj prefix_def)
qed simp

text \<open>If the stream begins with the opcode, the loader's window stops right there.\<close>

lemma first_opcode:
  assumes "opcode_first e w" "prefix (w @ xs) (le32 e @ ys)"
  shows "w = le32 e \<and> prefix xs ys"
proof -
  have l: "4 \<le> length w" using assms(1) by (simp add: opcode_first_def opcode_ends_def)
  obtain zs where zs: "(w @ xs) @ zs = le32 e @ ys" using assms(2) by (auto simp: prefix_def)
  have "take 4 w = take 4 (w @ xs @ zs)" using l by simp
  also have "\<dots> = le32 e" using zs by simp
  finally have t: "take 4 w = le32 e" .
  then have "opcode_ends e (take 4 w)" using l by (simp add: opcode_ends_def)
  then have "\<not> 4 < length w" using assms(1) by (auto simp: opcode_first_def)
  then have "w = le32 e" using t l by simp
  then show ?thesis using assms(2) by simp
qed

lemma opcode_bytes: "0x66 \<in> set (le32 GET_CODE)" "0x66 \<notin> set (le32 GET_PROG_INFO)" "0x66 \<notin> set (le32 BAD_CODE_ADDR)"
  by (simp_all add: le32_def)

subsection \<open>Traffic of the two sides\<close>

lemma store_traffic_io [simp]:
  "sent (store_traffic a bs) = []" "received (store_traffic a bs) = bs"
  "stored (store_traffic a bs) = zip (map (\<lambda>i. a + of_nat i) [0..<length bs]) bs"
proof -
  show "sent (store_traffic a bs) = []" "received (store_traffic a bs) = bs"
    by (induction bs arbitrary: a) simp_all
  have "map (\<lambda>i. a + of_nat i) [0..<Suc n] = a # map (\<lambda>i. a + 1 + of_nat i) [0..<n]" for n and a :: u32
    by (simp only: map_upt_Suc) (simp add: add.assoc)
  then show "stored (store_traffic a bs) = zip (map (\<lambda>i. a + of_nat i) [0..<length bs]) bs"
    by (induction bs arbitrary: a) (simp_all del: upt_Suc)
qed

lemma repeat_io [simp]:
  "sent (concat (replicate k (map Tx bs))) = concat (replicate k bs)"
  "received (concat (replicate k (map Tx bs))) = []" "stored (concat (replicate k (map Tx bs))) = []"
  by (induction k) simp_all

lemma info_io:
  "sent (info_traffic k w base n crc) = concat (replicate (Suc k) (le32 GET_PROG_INFO))"
  "received (info_traffic k w base n crc) = w @ le32 base @ le32 n @ le32 crc"
  "stored (info_traffic k w base n crc) = []"
  unfolding info_traffic_def by simp_all

lemma code_io:
  "sent (code_traffic base crc w code) = le32 GET_CODE @ le32 crc @ le32 BOOT_SUCCESS"
  "received (code_traffic base crc w code) = w @ code"
  "stored (code_traffic base crc w code) = zip (map (\<lambda>i. base + of_nat i) [0..<length code]) code"
  by (simp_all add: code_traffic_def)

lemma program_io:
  assumes "program_sent addr code n ts"
  shows "sent ts = le32 PUT_PROG_INFO @ le32 addr @ le32 n @ le32 (crc32 code) @ le32 PUT_CODE @ code"
    "0x66 \<in> set (received ts)"
  using assms opcode_bytes(1) by (auto simp: program_sent_def host_offer_def host_echo_def host_send_def)

text \<open>C14: a program arrives as it was sent. If \<open>put_code\<close> reports success and the loader's \<open>main\<close> ends, and
  each has received a beginning of what the other has sent, then the program does not meet the loader,
  the loader has stored exactly its bytes, in order, from the address on, and jumps to the address (or
  reboots, for address 0).\<close>

theorem program_delivered:
  assumes host: "put_code addr buf n u = Some (Inr ((), v))" and hs: "tty_log v = tty_log u @ hs"
    and pi: "boot_main lo hi s = Some (r, s')" and ps: "line_run s s' ps"
    and line: "prefix (received ps) (sent hs)" "prefix (received hs) (sent ps)"
  shows "\<not> boot_overlaps lo hi addr n \<and> r = (if addr = 0 then Boot_Reboot else Boot_Branch addr) \<and>
    stored ps = zip (map (\<lambda>i. addr + of_nat i) [0..<unat n]) (take (unat n) buf)"
proof -
  define code where "code = take (unat n) buf"
  have len: "length code = unat n" using host by (auto simp: put_code_def code_def split: if_splits)
  have "program_sent addr code n hs" using put_code_traffic [OF host] hs by (auto simp: code_def)
  note H = program_io [OF this]
  obtain k w1 base nb crc where w1: "opcode_first PUT_PROG_INFO w1" and
    m: "if boot_overlaps lo hi base nb
     then r = Boot_Refused \<and> ps = info_traffic k w1 base nb crc @ map Tx (le32 BAD_CODE_ADDR)
     else r = (if base = 0 then Boot_Reboot else Boot_Branch base) \<and>
       (\<exists>w2 code. opcode_first PUT_CODE w2 \<and> length code = unat nb \<and>
          ps = info_traffic k w1 base nb crc @ code_traffic base crc w2 code)"
    using boot_main_traffic [OF pi] line_run_unique [OF ps] unfolding loader_traffic_def by blast
  show ?thesis
  proof (cases "boot_overlaps lo hi base nb")
    case True
    then have "ps = info_traffic k w1 base nb crc @ map Tx (le32 BAD_CODE_ADDR)" using m by auto
    then have "set (received hs) \<subseteq> set (le32 GET_PROG_INFO) \<union> set (le32 BAD_CODE_ADDR)"
      using set_mono_prefix [OF line(2)] by (auto simp: info_io)
    then show ?thesis using H(2) opcode_bytes(2,3) by blast
  next
    case False
    then obtain w2 code' where C: "r = (if base = 0 then Boot_Reboot else Boot_Branch base)" "opcode_first PUT_CODE w2"
      "length code' = unat nb" "ps = info_traffic k w1 base nb crc @ code_traffic base crc w2 code'"
      using m by auto
    have "prefix (w1 @ le32 base @ le32 nb @ le32 crc @ w2 @ code')
        (le32 PUT_PROG_INFO @ le32 addr @ le32 n @ le32 (crc32 code) @ le32 PUT_CODE @ code)"
      using line(1) unfolding H(1) C(4) by (simp add: info_io code_io)
    from first_opcode [OF w1 this] have a: "base = addr" "nb = n"
      "prefix (w2 @ code') (le32 PUT_CODE @ code)" by (simp_all add: le32_prefix)
    from first_opcode [OF C(2) this(3)] have "prefix code' code" by blast
    then have "code' = code" using C(3) len a(2) by (metis not_equal_is_parallel parallel_def prefix_order.eq_iff)
    then have "stored ps = zip (map (\<lambda>i. addr + of_nat i) [0..<unat n]) code"
      using C(4) len a by (simp add: info_io code_io)
    then show ?thesis using False C(1) a by (simp add: code_def)
  qed
qed

text \<open>Both sides on a line and a device made for the program.\<close>

definition full_traffic :: "u32 \<Rightarrow> u32 \<Rightarrow> u8 list \<Rightarrow> traffic list" where
  "full_traffic addr n code = info_traffic 0 (le32 PUT_PROG_INFO) addr n (crc32 code) @
     code_traffic addr (crc32 code) (le32 PUT_CODE) code"

lemma both_end:
  assumes "unat n \<le> length buf" and "\<not> boot_overlaps lo hi addr n"
  shows "\<exists>line inp ans s' v hs.
    boot_main lo hi (s\<lparr>hw_in := line\<rparr>) = Some (if addr = 0 then Boot_Reboot else Boot_Branch addr, s') \<and>
    line_run (s\<lparr>hw_in := line\<rparr>) s' (full_traffic addr n (take (unat n) buf)) \<and>
    put_code addr buf n (u\<lparr>tty_in := inp, tty_write := ans\<rparr>) = Some (Inr ((), v)) \<and> tty_log v = tty_log u @ hs \<and>
    sent hs = received (full_traffic addr n (take (unat n) buf)) \<and> received hs = sent (full_traffic addr n (take (unat n) buf))"
proof -
  define code where "code = take (unat n) buf"
  have len: "length code = unat n" using assms(1) by (simp add: code_def)
  then have n: "n = of_nat (length code)" "length code < 2 ^ 32" using unsigned_less [of n] by simp_all
  let ?bs = "le32 GET_PROG_INFO @ le32 GET_CODE @ le32 (crc32 code) @ le32 BOOT_SUCCESS"
  let ?u = "u\<lparr>tty_in := \<lambda>k. if k < tty_rd u + 16 then Byte (?bs ! (k - tty_rd u)) else Timed_Out,
    tty_write := \<lambda>_ data. int (length data)\<rparr>"
  have "host_ready ?u ?bs" by (simp add: host_ready_def)
  from put_code_runs [OF this [unfolded code_def] assms(1), of addr] obtain v hs where
    H: "put_code addr buf n ?u = Some (Inr ((), v))" "tty_log v = tty_log u @ hs" "program_sent addr code n hs" "received hs = ?bs"
    unfolding code_def by auto
  let ?s = "s\<lparr>hw_in := host_line (length (hw_log s)) (le32 PUT_PROG_INFO @ le32 addr @ le32 n @ le32 (crc32 code)) (le32 PUT_CODE) code\<rparr>"
  have "length (hw_log ?s) = length (hw_log s)" "hw_in ?s = host_line (length (hw_log s))
      (le32 PUT_PROG_INFO @ le32 addr @ le32 n @ le32 (crc32 code)) (le32 PUT_CODE) code" by simp_all
  from main_ready [OF n(2) this(1) n(1) this(2), of lo hi] obtain s' where
    P: "boot_main lo hi ?s = Some (if addr = 0 then Boot_Reboot else Boot_Branch addr, s')"
      "line_run ?s s' (info_traffic 0 (le32 PUT_PROG_INFO) addr n (crc32 code) @ code_traffic addr (crc32 code) (le32 PUT_CODE) code)"
    using assms(2) by auto
  have "sent hs = received (full_traffic addr n code)" "received hs = sent (full_traffic addr n code)"
    by (simp_all add: full_traffic_def info_io code_io H(4) program_io(1) [OF H(3)])
  with P [folded full_traffic_def] H(1,2) show ?thesis unfolding code_def by blast
qed

text \<open>C15: every program can be delivered. For every program that does not meet the loader, from any states of
  the board and of the host, there are a line and answers of the serial device with which both sides
  come to their ends, each having received exactly what the other has sent, and the program is stored.\<close>

theorem delivery_possible:
  assumes "unat n \<le> length buf" and "\<not> boot_overlaps lo hi addr n"
  shows "\<exists>line inp ans r s' v hs ps.
    boot_main lo hi (s\<lparr>hw_in := line\<rparr>) = Some (r, s') \<and> line_run (s\<lparr>hw_in := line\<rparr>) s' ps \<and>
    put_code addr buf n (u\<lparr>tty_in := inp, tty_write := ans\<rparr>) = Some (Inr ((), v)) \<and> tty_log v = tty_log u @ hs \<and>
    received ps = sent hs \<and> received hs = sent ps \<and>
    r = (if addr = 0 then Boot_Reboot else Boot_Branch addr) \<and>
    stored ps = zip (map (\<lambda>i. addr + of_nat i) [0..<unat n]) (take (unat n) buf)"
proof -
  have "length (take (unat n) buf) = unat n" using assms(1) by simp
  then have "stored (full_traffic addr n (take (unat n) buf)) = zip (map (\<lambda>i. addr + of_nat i) [0..<unat n]) (take (unat n) buf)"
    by (simp only: full_traffic_def traffic_append info_io code_io append_Nil)
  moreover obtain line inp ans s' v hs where
    "boot_main lo hi (s\<lparr>hw_in := line\<rparr>) = Some (if addr = 0 then Boot_Reboot else Boot_Branch addr, s')"
    "line_run (s\<lparr>hw_in := line\<rparr>) s' (full_traffic addr n (take (unat n) buf))"
    "put_code addr buf n (u\<lparr>tty_in := inp, tty_write := ans\<rparr>) = Some (Inr ((), v))" "tty_log v = tty_log u @ hs"
    "received (full_traffic addr n (take (unat n) buf)) = sent hs" "received hs = sent (full_traffic addr n (take (unat n) buf))"
    using both_end [OF assms, of s u] by metis
  ultimately show ?thesis by blast
qed

theorem program_delivered_witness:
  "\<exists>(s :: hw) (u :: host) line inp ans r s' v hs ps. boot_main BOOT_START 0xFFFF2000 (s\<lparr>hw_in := line\<rparr>) = Some (r, s') \<and>
     put_code ARMBASE [0x13, 0x37] 2 (u\<lparr>tty_in := inp, tty_write := ans\<rparr>) = Some (Inr ((), v)) \<and>
     tty_log v = tty_log u @ hs \<and> line_run (s\<lparr>hw_in := line\<rparr>) s' ps \<and> received ps = sent hs \<and>
     r = Boot_Branch 0x8000 \<and> stored ps = [(0x8000, 0x13), (0x8001, 0x37)]"
proof -
  have no: "\<not> boot_overlaps BOOT_START 0xFFFF2000 ARMBASE 2" by (simp add: boot_overlaps_def)
  obtain line inp ans r s' v hs ps where
    w: "boot_main BOOT_START 0xFFFF2000 (reset_hw\<lparr>hw_in := line\<rparr>) = Some (r, s')" "line_run (reset_hw\<lparr>hw_in := line\<rparr>) s' ps"
      "put_code ARMBASE [0x13, 0x37] 2 (answered_host []\<lparr>tty_in := inp, tty_write := ans\<rparr>) = Some (Inr ((), v))"
      "tty_log v = tty_log (answered_host []) @ hs" "received ps = sent hs" "received hs = sent ps"
    using both_end [OF _ no, of "[0x13, 0x37]" reset_hw "answered_host []"] by (auto simp del: answered_host_ready)
  have log: "tty_log v = tty_log (answered_host []\<lparr>tty_in := inp, tty_write := ans\<rparr>) @ hs" using w(4) by simp
  have "prefix (received ps) (sent hs)" "prefix (received hs) (sent ps)" using w(5,6) by simp_all
  from program_delivered [OF w(3) log w(1,2) this]
  have "r = Boot_Branch 0x8000" "stored ps = [(0x8000, 0x13), (0x8001, 0x37)]" by (simp_all add: upt_rec)
  with w show ?thesis by blast
qed

theorem delivery_possible_witness:
  "\<exists>line inp ans r s' v. boot_main BOOT_START 0xFFFF2000 (reset_hw\<lparr>hw_in := line\<rparr>) = Some (r, s') \<and>
     put_code ARMBASE [0x13, 0x37] 2 (answered_host []\<lparr>tty_in := inp, tty_write := ans\<rparr>) = Some (Inr ((), v))"
  using delivery_possible [of 2 "[0x13, 0x37]" BOOT_START "0xFFFF2000" ARMBASE reset_hw "answered_host []"]
  by (auto simp: boot_overlaps_def)

end
