(* ===== verification/Pi_Echo.thy ===== *)
theory Pi_Echo
  imports Host_Io "HOL-Library.Sublist"
begin

section \<open>The host as a terminal: pi-echo.c\<close>

text \<open>
  After the program is started, the install program relays what is typed to the Pi and what the Pi
  prints to the screen, until the device is gone or the Pi prints \<open>DONE!!!\<close>. The state of the process
  is extended by the answers of \<open>poll\<close>, \<open>read\<close> and \<open>access\<close>, one after the other, by what has been shown
  on the screen, and by the static variable of \<open>pi_done\<close>. \<open>exit_with 134\<close> is \<open>abort\<close> (a failed \<open>assert\<close>).
\<close>

subsection \<open>pi-echo.c\<close>

text \<open>\<open>poll\<close> fails (with \<open>EINTR\<close> or not), times out, or reports the descriptor, with one of the four events
  asked about or not. \<open>read\<close> fails (\<open>None\<close>) or gives at most as many bytes as asked for.\<close>

datatype poll_answer = Poll_Fails bool | Poll_None | Poll_Some bool

record echo = host +
  poll_ans :: "nat \<Rightarrow> poll_answer"
  polls :: nat
  keys_ans :: "nat \<Rightarrow> u8 list option"
  keys_rd :: nat
  pi_ans :: "nat \<Rightarrow> u8 list option"
  pi_rd :: nat
  gone_ans :: "nat \<Rightarrow> bool"
  gone_rd :: nat
  screen :: "u8 list"
  done_pos :: nat

definition clean_exit :: "string \<Rightarrow> 'z echo_scheme \<Rightarrow> ('a, 'z echo_scheme) outcome" where
  "clean_exit msg = andthen (say (Printf ''%s'' [MStr msg])) (\<lambda>_. exit_with 0)"

definition sys_die :: "string \<Rightarrow> string \<Rightarrow> 'z echo_scheme \<Rightarrow> ('a, 'z echo_scheme) outcome" where
  "sys_die syscall msg =
     andthen (say (Stderr ''%s'' [MStr msg])) (\<lambda>_. andthen (say (Perror syscall)) (\<lambda>_. exit_with 1))"

definition can_read_timeout :: "'z echo_scheme \<Rightarrow> (bool, 'z echo_scheme) outcome" where
  "can_read_timeout u =
     (let n = poll_ans u (polls u); u = u\<lparr>polls := polls u + 1\<rparr>
      in case n of
        Poll_Fails eintr \<Rightarrow> if \<not> eintr then sys_die ''poll'' (''poll failed'' @ newline) u else ret False u
      | Poll_None \<Rightarrow> ret False u
      | Poll_Some ready \<Rightarrow> ret ready u)"

text \<open>\<open>sizeof buf - 1\<close> is 4095; only the keyboard is read with this function.\<close>

definition read_timeout :: "'z echo_scheme \<Rightarrow> (u8 list, 'z echo_scheme) outcome" where
  "read_timeout = andthen can_read_timeout (\<lambda>ready u.
     if \<not> ready then ret [] u
     else
       let got = keys_ans u (keys_rd u); u = u\<lparr>keys_rd := keys_rd u + 1\<rparr>
       in case got of
         None \<Rightarrow> sys_die ''read'' (''stdin read failed'' @ newline) u
       | Some data \<Rightarrow> ret (take 4095 data) u)"

definition tty_gone :: "'z echo_scheme \<Rightarrow> (bool, 'z echo_scheme) outcome" where
  "tty_gone u = ret (gone_ans u (gone_rd u)) (u\<lparr>gone_rd := gone_rd u + 1\<rparr>)"

definition exit_string :: "u8 list" where
  "exit_string = map of_char (''DONE!!!'' @ [CHR 0x0A])"

text \<open>On a mismatch \<open>pi_done\<close> goes on behind the character that did not match. The text ends at a zero byte;
  the outer option is \<open>None\<close> for a text without one.\<close>

datatype done_result = Done_Assert | Done bool nat

fun pi_done :: "nat \<Rightarrow> u8 list \<Rightarrow> done_result option" where
  "pi_done pos [] = None"
| "pi_done pos (c # s) =
     (if c = 0 then Some (Done False pos)
      else if pos \<ge> length exit_string then Some Done_Assert
      else if c \<noteq> exit_string ! pos then pi_done 0 s
      else if pos + 1 = length exit_string then Some (Done True (pos + 1))
      else pi_done (pos + 1) s)"

definition isprint :: "u8 \<Rightarrow> bool" where
  "isprint c \<longleftrightarrow> 0x20 \<le> c \<and> c \<le> 0x7E"

definition isspace :: "u8 \<Rightarrow> bool" where
  "isspace c \<longleftrightarrow> c = 0x20 \<or> 0x09 \<le> c \<and> c \<le> 0x0D"

definition printable :: "u8 \<Rightarrow> u8" where
  "printable c = (if isprint c \<or> isspace c \<and> c \<noteq> 0x0D then c else 0x20)"

definition remove_nonprint :: "u8 list \<Rightarrow> nat \<Rightarrow> u8 list" where
  "remove_nonprint buf n = map printable (take n buf) @ drop n buf"

text \<open>What \<open>printf("%s", buf)\<close> shows.\<close>

definition c_string :: "u8 list \<Rightarrow> u8 list" where
  "c_string buf = takeWhile (\<lambda>c. c \<noteq> 0) buf"

definition output_text :: "u8 list \<Rightarrow> 'z echo_scheme \<Rightarrow> (unit, 'z echo_scheme) outcome" where
  "output_text buf u = ret () (u\<lparr>screen := screen u @ c_string buf\<rparr>)"

definition check_done :: "u8 list \<Rightarrow> 'z echo_scheme \<Rightarrow> (unit, 'z echo_scheme) outcome" where
  "check_done buf u = (case pi_done (done_pos u) buf of
     None \<Rightarrow> None
   | Some Done_Assert \<Rightarrow> exit_with 134 u
   | Some (Done b pos) \<Rightarrow>
       let u = u\<lparr>done_pos := pos\<rparr> in
       if b then clean_exit ([CHR 0x0A] @ ''bootloader: pi exited.  cleaning up'' @ newline) u
       else ret () u)"

text \<open>The two halves of an iteration of the loop.\<close>

definition echo_keys :: "'z echo_scheme \<Rightarrow> (unit, 'z echo_scheme) outcome" where
  "echo_keys = andthen read_timeout (\<lambda>data u.
     if data \<noteq> [] then andthen (write_exact data) (\<lambda>_. ret ()) u else ret () u)"

definition echo_show :: "bool \<Rightarrow> 'z echo_scheme \<Rightarrow> (unit, 'z echo_scheme) outcome" where
  "echo_show portname u =
     (let got = pi_ans u (pi_rd u); u = u\<lparr>pi_rd := pi_rd u + 1\<rparr>
      in case got of
        None \<Rightarrow> sys_die ''read'' (''pi connection closed.  cleaning up'' @ newline) u
      | Some data \<Rightarrow>
        let data = take 4095 data in
        if data = [] then
          andthen (\<lambda>u. if \<not> portname then ret True u else tty_gone u)
            (\<lambda>gone. if gone then clean_exit (''pi ttyusb connection closed.  cleaning up'' @ newline) else ret ()) u
        else
          let buf = remove_nonprint (data @ [0]) (length data)
          in andthen (output_text buf) (\<lambda>_. check_done buf) u)"

definition echo_pi :: "bool \<Rightarrow> 'z echo_scheme \<Rightarrow> (unit, 'z echo_scheme) outcome" where
  "echo_pi portname = andthen can_read_timeout (\<lambda>ready. if \<not> ready then ret () else echo_show portname)"

definition echo_step :: "bool \<Rightarrow> 'z echo_scheme \<Rightarrow> (unit, 'z echo_scheme) outcome" where
  "echo_step portname = andthen echo_keys (\<lambda>_. echo_pi portname)"

partial_function (option) echo_loop :: "bool \<Rightarrow> 'z echo_scheme \<Rightarrow> (unit, 'z echo_scheme) outcome" where
  "echo_loop portname u = andthen (echo_step portname) (\<lambda>_ u. echo_loop portname u) u"

text \<open>\<open>portname\<close> says whether the name of the device is given.\<close>

definition pi_echo :: "int \<Rightarrow> bool \<Rightarrow> 'z echo_scheme \<Rightarrow> (unit, 'z echo_scheme) outcome" where
  "pi_echo pi_fd portname u = (if pi_fd = 0 then exit_with 134 u else echo_loop portname u)"

subsection \<open>Seeing DONE!!!\<close>

lemma exit_string_simps [simp]: "length exit_string = 8" "0 \<notin> set exit_string"
  by (simp_all add: exit_string_def of_char_def)

text \<open>The matcher as an automaton over the text.\<close>

fun scan :: "nat \<Rightarrow> u8 list \<Rightarrow> bool \<times> nat" where
  "scan p [] = (False, p)"
| "scan p (c # s) = (if c \<noteq> exit_string ! p then scan 0 s else if p = 7 then (True, 8) else scan (p + 1) s)"

lemma pi_done_scan:
  "p < 8 \<Longrightarrow> 0 \<notin> set s \<Longrightarrow> pi_done p (s @ [0]) = Some (Done (fst (scan p s)) (snd (scan p s)))"
  by (induction s arbitrary: p) auto

lemma scan_append: "scan p (s @ t) = (if fst (scan p s) then scan p s else scan (snd (scan p s)) t)"
  by (induction s arbitrary: p) auto

text \<open>The state is the length of a beginning of the exit string that ends the text \<open>t\<close> seen so far.\<close>

lemma scan_sound:
  assumes "p < 8" "suffix (take p exit_string) t"
  shows "if fst (scan p s) then snd (scan p s) = 8 \<and> sublist exit_string (t @ s)
    else snd (scan p s) < 8 \<and> suffix (take (snd (scan p s)) exit_string) (t @ s)"
  using assms
proof (induction s arbitrary: p t)
  case (Cons c s)
  note IH = Cons.IH [of _ "t @ [c]"]
  show ?case
  proof (cases "c = exit_string ! p")
    case False
    then show ?thesis using IH [of 0] by (cases "fst (scan 0 s)") simp_all
  next
    case True
    have "take (p + 1) exit_string = take p exit_string @ [c]" using Cons.prems(1) True by (simp add: take_Suc_conv_app_nth)
    then have sfx: "suffix (take (p + 1) exit_string) (t @ [c])" using Cons.prems(2) by (auto simp: suffix_def)
    show ?thesis
    proof (cases "p = 7")
      case True
      then obtain z where z: "t @ [c] = z @ exit_string" using sfx by (auto simp: suffix_def)
      have "t @ c # s = z @ exit_string @ s" using arg_cong [OF z, of "\<lambda>l. l @ s"] by simp
      then have "sublist exit_string (t @ c # s)" unfolding sublist_def by blast
      then show ?thesis using True \<open>c = _\<close> by simp
    next
      case False
      then show ?thesis using IH [OF _ sfx] Cons.prems(1) \<open>c = _\<close> by (cases "fst (scan (p + 1) s)") simp_all
    qed
  qed
qed simp

lemma scan_exit_string: "scan 0 exit_string = (True, 8)"
  by (simp add: exit_string_def of_char_def)

lemma scan_newline: "p < 8 \<Longrightarrow> scan p [0x0A] = (p = 7, if p = 7 then 8 else 0)"
proof -
  assume "p < 8"
  moreover have "\<forall>p \<in> set [0..<8]. (exit_string ! p = 0x0A) = (p = 7)"
    by (simp add: upt_rec exit_string_def of_char_def)
  ultimately have "exit_string ! p = 0x0A \<longleftrightarrow> p = 7" by simp
  then show ?thesis by auto
qed

text \<open>At the beginning of a line the string is always seen.\<close>

lemma scan_complete:
  assumes "x = [] \<or> last x = 0x0A"
  shows "fst (scan 0 (x @ exit_string @ y))"
proof (cases "x = [] \<or> fst (scan 0 x)")
  case True
  then show ?thesis using scan_exit_string by (auto simp: scan_append)
next
  case False
  then obtain z where x: "x = z @ [0x0A]" using assms by (metis append_butlast_last_id)
  then have z: "\<not> fst (scan 0 z)" using False by (auto simp: scan_append)
  then have "snd (scan 0 z) < 8" using scan_sound [of 0 "[]" z] by simp
  then have "scan 0 x = (False, 0)" using False z scan_newline unfolding x by (auto simp: scan_append split: if_splits)
  then show ?thesis using scan_exit_string by (simp add: scan_append)
qed

text \<open>Calls of \<open>pi_done\<close> on one text after the other, up to the first that answers yes.\<close>

fun pi_done_calls :: "nat \<Rightarrow> u8 list list \<Rightarrow> done_result option" where
  "pi_done_calls pos [] = Some (Done False pos)"
| "pi_done_calls pos (c # cs) = (case pi_done pos (c @ [0]) of
     Some (Done False pos) \<Rightarrow> pi_done_calls pos cs
   | r \<Rightarrow> r)"

lemma pi_done_calls_scan:
  "p < 8 \<Longrightarrow> (\<And>c. c \<in> set cs \<Longrightarrow> 0 \<notin> set c) \<Longrightarrow>
     pi_done_calls p cs = Some (Done (fst (scan p (concat cs))) (snd (scan p (concat cs))))"
proof (induction cs arbitrary: p)
  case (Cons c cs)
  have c: "pi_done p (c @ [0]) = Some (Done (fst (scan p c)) (snd (scan p c)))"
    using Cons.prems by (intro pi_done_scan) auto
  show ?case
  proof (cases "fst (scan p c)")
    case False
    have "suffix (take p exit_string) (take p exit_string)" by simp
    then have "snd (scan p c) < 8" using scan_sound [OF Cons.prems(1), of "take p exit_string" c] False by simp
    then show ?thesis using Cons c False by (simp add: scan_append)
  qed (simp add: c scan_append)
qed simp

text \<open>C35: the text that tells of the end is recognised across reads. Called on one piece of text after the
  other, \<open>pi_done\<close> never fails its assertion; it says yes only when the exit string has been printed,
  and it does when the string is printed at the beginning of a line, however the text is cut.\<close>

theorem pi_done_correct:
  assumes "\<And>c. c \<in> set cs \<Longrightarrow> 0 \<notin> set c"
  shows "(\<exists>b q. pi_done_calls 0 cs = Some (Done b q) \<and> (b \<longrightarrow> sublist exit_string (concat cs))) \<and>
    (\<forall>x y. concat cs = x @ exit_string @ y \<and> (x = [] \<or> last x = 0x0A) \<longrightarrow> pi_done_calls 0 cs = Some (Done True 8))"
proof -
  note r = pi_done_calls_scan [of 0 cs, OF _ assms]
  have s: "fst (scan 0 (concat cs)) \<Longrightarrow> snd (scan 0 (concat cs)) = 8 \<and> sublist exit_string (concat cs)"
    using scan_sound [of 0 "[]" "concat cs"] by simp
  have "pi_done_calls 0 cs = Some (Done True 8)" if "concat cs = x @ exit_string @ y" "x = [] \<or> last x = 0x0A" for x y
    using scan_complete [OF that(2), of y] s r unfolding that(1) by simp
  then show ?thesis using r s by auto
qed

theorem pi_done_correct_witness:
  "pi_done_calls 0 [[0x68, 0x69, 0x0A], [0x44, 0x4F, 0x4E], [0x45, 0x21, 0x21, 0x21, 0x0A]] = Some (Done True 8)"
proof -
  let ?cs = "[[0x68, 0x69, 0x0A], [0x44, 0x4F, 0x4E], [0x45, 0x21, 0x21, 0x21, 0x0A]] :: u8 list list"
  have nz: "0 \<notin> set c" if "c \<in> set ?cs" for c using that by auto
  have "concat ?cs = [0x68, 0x69, 0x0A] @ exit_string @ []" by (simp add: exit_string_def of_char_def)
  moreover have "last [0x68, 0x69, 0x0A] = (0x0A :: u8)" by simp
  ultimately show ?thesis
    using pi_done_correct [of ?cs, OF nz, THEN conjunct2, THEN spec, of "[0x68, 0x69, 0x0A]", THEN spec, of "[]"] by blast
qed

text \<open>The character that ends a failed match is not looked at again: a \<open>D\<close> before the string hides it.\<close>

lemma pi_done_misses: "pi_done 0 (map of_char ''DDONE!!!'' @ [0x0A, 0]) = Some (Done False 0)"
  by (simp add: exit_string_def of_char_def)

subsection \<open>Relaying\<close>

text \<open>What has been typed and what the Pi has printed between two states.\<close>

definition typed :: "'z echo_scheme \<Rightarrow> 'z echo_scheme \<Rightarrow> u8 list" where
  "typed u v = concat (map (\<lambda>i. take 4095 (the (keys_ans u i))) [keys_rd u..<keys_rd v])"

definition printed :: "'z echo_scheme \<Rightarrow> 'z echo_scheme \<Rightarrow> u8 list" where
  "printed u v = concat (map (\<lambda>i. take 4095 (the (pi_ans u i))) [pi_rd u..<pi_rd v])"

definition relayed :: "'z echo_scheme \<Rightarrow> 'z echo_scheme \<Rightarrow> bool" where
  "relayed u v \<longleftrightarrow> poll_ans v = poll_ans u \<and> keys_ans v = keys_ans u \<and> pi_ans v = pi_ans u \<and> gone_ans v = gone_ans u \<and>
     echo.more v = echo.more u \<and> keys_rd u \<le> keys_rd v \<and> pi_rd u \<le> pi_rd v \<and>
     tty_log v = tty_log u @ map Tx (typed u v) \<and> screen v = screen u @ map printable (printed u v)"

lemma relayed_refl: "relayed u u"
  by (simp add: relayed_def typed_def printed_def)

lemma relayed_trans: "relayed u v \<Longrightarrow> relayed v w \<Longrightarrow> relayed u w \<and> printed u w = printed u v @ printed v w"
proof -
  have u: "[i..<j] @ [j..<k] = [i..<k]" if "i \<le> j" "j \<le> k" for i j k :: nat
    using that by (metis le_add_diff_inverse upt_add_eq_append)
  assume a: "relayed u v" "relayed v w"
  then have "typed u w = typed u v @ typed v w" "printed u w = printed u v @ printed v w"
    by (simp_all add: relayed_def typed_def printed_def u flip: concat_append map_append)
  then show ?thesis using a by (simp add: relayed_def)
qed

lemma printable_nonzero: "printable c \<noteq> 0"
  by (auto simp: printable_def isprint_def isspace_def)

lemma shown: "c_string (remove_nonprint (data @ [0]) (length data)) = map printable data"
  by (simp add: c_string_def remove_nonprint_def printable_nonzero takeWhile_tail)

lemma ends_Some:
  "sys_die a b u = Some r \<longleftrightarrow> r = Inl (1, u\<lparr>said := said u @ [Stderr ''%s'' [MStr b], Perror a]\<rparr>)"
  "clean_exit b u = Some r \<longleftrightarrow> r = Inl (0, u\<lparr>said := said u @ [Printf ''%s'' [MStr b]]\<rparr>)"
  by (auto simp: sys_die_def clean_exit_def andthen_def say_def ret_def exit_with_def)

text \<open>The descriptor polled; nothing else happens.\<close>

lemma can_read_Some:
  "can_read_timeout u = Some (Inr (b, v)) \<Longrightarrow> v = u\<lparr>polls := polls u + 1\<rparr>"
  "can_read_timeout u = Some (Inl (c, v)) \<Longrightarrow> c = 1"
  by (auto simp: can_read_timeout_def Let_def ret_def ends_Some split: poll_answer.splits if_splits)

lemma read_timeout_Some:
  assumes "read_timeout u = Some (Inr (data, v))"
  shows "relayed u (v\<lparr>tty_log := tty_log u @ map Tx data\<rparr>)" "pi_rd v = pi_rd u" "done_pos v = done_pos u"
    "tty_log v = tty_log u"
  using assms
  by (auto simp: read_timeout_def andthen_Some Let_def ret_def ends_Some relayed_def typed_def printed_def
      dest!: can_read_Some split: if_splits option.splits)

lemma write_exact_echo: "write_exact data u = Some (Inr (n, v)) \<Longrightarrow> v = u\<lparr>tty_wr := tty_wr u + 1, tty_log := tty_log u @ map Tx data\<rparr>"
  by (auto simp: write_exact_def fail_Some Let_def ret_def split: if_splits)

lemma echo_keys_Some:
  assumes "echo_keys u = Some (Inr (x, v))"
  shows "relayed u v" "pi_rd v = pi_rd u" "done_pos v = done_pos u"
proof -
  obtain data w where r: "read_timeout u = Some (Inr (data, w))"
    and v: "v = (if data = [] then w else w\<lparr>tty_wr := tty_wr w + 1, tty_log := tty_log w @ map Tx data\<rparr>)"
    using assms by (auto simp: echo_keys_def andthen_Some ret_def dest!: write_exact_echo split: if_splits)
  note R = read_timeout_Some [OF r]
  show "relayed u v" using R(1,4) by (cases "data = []") (simp_all add: v relayed_def typed_def printed_def)
  show "pi_rd v = pi_rd u" "done_pos v = done_pos u" using R(2,3) by (simp_all add: v)
qed

lemma echo_keys_exit: "echo_keys u = Some (Inl (c, v)) \<Longrightarrow> c = 1"
  by (auto simp: echo_keys_def read_timeout_def andthen_Some Let_def ret_def ends_Some write_exact_def fail_Some
      dest!: can_read_Some split: if_splits option.splits)

text \<open>The state of \<open>pi_done\<close> fits what has been shown since \<open>u0\<close>.\<close>

definition watched :: "'z echo_scheme \<Rightarrow> 'z echo_scheme \<Rightarrow> bool" where
  "watched u0 u \<longleftrightarrow> relayed u0 u \<and> done_pos u < 8 \<and> suffix (take (done_pos u) exit_string) (map printable (printed u0 u))"

text \<open>How the relay may end: with status 0 only when the Pi has printed the exit string, or a read of the
  device gave nothing and the device is gone or has no name. Everything read has been passed on by then.\<close>

definition relay_end :: "bool \<Rightarrow> 'z echo_scheme \<Rightarrow> int \<Rightarrow> 'z echo_scheme \<Rightarrow> bool" where
  "relay_end portname u0 c v \<longleftrightarrow> c = 1 \<or> c = 0 \<and> relayed u0 v \<and>
     (sublist exit_string (map printable (printed u0 v)) \<or> \<not> portname \<or> (\<exists>i. gone_ans u0 i))"

lemma watched_keys:
  assumes "watched u0 u" "echo_keys u = Some (Inr (x, v))"
  shows "watched u0 v"
proof -
  note K = echo_keys_Some [OF assms(2)]
  have "relayed u0 u" using assms(1) by (simp add: watched_def)
  from relayed_trans [OF this K(1)] show ?thesis using assms(1) K(2,3) by (simp add: watched_def printed_def)
qed

lemma echo_shows:
  assumes w: "watched u0 u" and d: "pi_ans u (pi_rd u) = Some data" "take 4095 data = bs"
    and v: "v = u\<lparr>pi_rd := pi_rd u + 1, screen := screen u @ map printable bs\<rparr>"
  shows "relayed u0 v" "printed u0 v = printed u0 u @ bs"
proof -
  have "relayed u v" "printed u v = bs" using d by (auto simp: v relayed_def typed_def printed_def)
  then show "relayed u0 v" "printed u0 v = printed u0 u @ bs" using relayed_trans [of u0 u v] w by (auto simp: watched_def)
qed

lemma check_done_Some:
  assumes w: "watched u0 u" and d: "pi_ans u (pi_rd u) = Some data" "take 4095 data = bs"
    and v: "v = u\<lparr>pi_rd := pi_rd u + 1, screen := screen u @ map printable bs\<rparr>"
    and r: "check_done (remove_nonprint (bs @ [0]) (length bs)) v = Some r"
  shows "case r of Inr (x, t) \<Rightarrow> watched u0 t | Inl (c, t) \<Rightarrow> relay_end portname u0 c t"
proof -
  note S = echo_shows [OF w d v]
  let ?q = "snd (scan (done_pos u) (map printable bs))"
  have p: "done_pos u < 8" "suffix (take (done_pos u) exit_string) (map printable (printed u0 u))"
    using w by (simp_all add: watched_def)
  have nz: "0 \<notin> set (map printable bs)" using printable_nonzero by auto
  have b: "remove_nonprint (bs @ [0]) (length bs) = map printable bs @ [0]" and dp: "done_pos v = done_pos u"
    by (simp_all add: remove_nonprint_def v)
  have r': "(if fst (scan (done_pos u) (map printable bs))
      then clean_exit ([CHR 0x0A] @ ''bootloader: pi exited.  cleaning up'' @ newline) (v\<lparr>done_pos := ?q\<rparr>)
      else ret () (v\<lparr>done_pos := ?q\<rparr>)) = Some r"
    using r unfolding b check_done_def dp pi_done_scan [OF p(1) nz] option.case done_result.case Let_def .
  have rel: "relayed u0 (v\<lparr>done_pos := q\<rparr>)" "printed u0 (v\<lparr>done_pos := q\<rparr>) = printed u0 u @ bs"
    "relayed u0 (v\<lparr>done_pos := q, said := m\<rparr>)" "printed u0 (v\<lparr>done_pos := q, said := m\<rparr>) = printed u0 u @ bs" for q m
    using S by (simp_all add: relayed_def typed_def printed_def)
  note sc = scan_sound [OF p, of "map printable bs"]
  show ?thesis
  proof (cases "fst (scan (done_pos u) (map printable bs))")
    case True
    then show ?thesis using r' sc rel by (auto simp: ends_Some relay_end_def)
  next
    case False
    then show ?thesis using r' sc rel by (auto simp: ret_def watched_def)
  qed
qed

lemma watched_fields [simp]:
  "watched u0 (u\<lparr>polls := n\<rparr>) = watched u0 u" "watched u0 (u\<lparr>gone_rd := n\<rparr>) = watched u0 u"
  by (simp_all add: watched_def relayed_def typed_def printed_def)

lemma watched_empty:
  assumes "watched u0 u" "pi_ans u (pi_rd u) = Some data" "take 4095 data = []"
  shows "watched u0 (u\<lparr>pi_rd := pi_rd u + 1\<rparr>)"
  using echo_shows [OF assms refl] assms(1) by (simp add: watched_def)

text \<open>The device gave nothing.\<close>

lemma echo_closed:
  assumes w: "watched u0 u"
    and r: "andthen (\<lambda>u. if \<not> portname then ret True u else tty_gone u)
      (\<lambda>gone. if gone then clean_exit msg else ret ()) u = Some r"
  shows "case r of Inr (x, t) \<Rightarrow> watched u0 t | Inl (c, t) \<Rightarrow> relay_end portname u0 c t"
proof -
  have g: "gone_ans u = gone_ans u0" "relayed u0 u" using w by (simp_all add: watched_def relayed_def)
  have rel: "relayed u0 (u\<lparr>said := m\<rparr>)" "relayed u0 (u\<lparr>gone_rd := n, said := m\<rparr>)" for m n
    using g(2) by (simp_all add: relayed_def typed_def printed_def)
  show ?thesis
    using r w g rel by (auto simp: andthen_Some ret_def tty_gone_def ends_Some relay_end_def split: if_splits)
qed

lemma echo_show_Some:
  assumes w: "watched u0 u" and r: "echo_show portname u = Some r"
  shows "case r of Inr (x, t) \<Rightarrow> watched u0 t | Inl (c, t) \<Rightarrow> relay_end portname u0 c t"
proof (cases "pi_ans u (pi_rd u)")
  case None
  then show ?thesis using r by (simp add: echo_show_def Let_def ends_Some relay_end_def)
next
  case (Some data)
  define bs where "bs = take 4095 data"
  show ?thesis
  proof (cases "bs = []")
    case True
    with r Some echo_closed [OF watched_empty [OF w Some]] show ?thesis
      by (simp add: echo_show_def Let_def bs_def)
  next
    case False
    let ?u = "u\<lparr>pi_rd := pi_rd u + 1, screen := screen u @ map printable bs\<rparr>"
    have "check_done (remove_nonprint (bs @ [0]) (length bs)) ?u = Some r"
      using r Some False by (simp add: echo_show_def Let_def bs_def [symmetric] andthen_def output_text_def ret_def shown)
    from check_done_Some [OF w Some bs_def [symmetric] refl this] show ?thesis .
  qed
qed

lemma echo_pi_Some:
  assumes w: "watched u0 u" and r: "echo_pi portname u = Some r"
  shows "case r of Inr (x, t) \<Rightarrow> watched u0 t | Inl (c, t) \<Rightarrow> relay_end portname u0 c t"
proof -
  from r [unfolded echo_pi_def andthen_Some] consider c v where "can_read_timeout u = Some (Inl (c, v))" "r = Inl (c, v)"
    | ready v where "can_read_timeout u = Some (Inr (ready, v))" "(if \<not> ready then ret () else echo_show portname) v = Some r"
    by blast
  then show ?thesis
  proof cases
    case 1
    then show ?thesis by (auto simp: relay_end_def dest: can_read_Some(2))
  next
    case 2
    have "watched u0 v" using w unfolding can_read_Some(1) [OF 2(1)] by simp
    then show ?thesis using 2(2) by (auto simp: ret_def split: if_splits dest: echo_show_Some)
  qed
qed

lemma echo_step_Some:
  assumes w: "watched u0 u" and r: "echo_step portname u = Some r"
  shows "case r of Inr (x, t) \<Rightarrow> watched u0 t | Inl (c, t) \<Rightarrow> relay_end portname u0 c t"
proof -
  from r [unfolded echo_step_def andthen_Some] consider c v where "echo_keys u = Some (Inl (c, v))" "r = Inl (c, v)"
    | x v where "echo_keys u = Some (Inr (x, v))" "echo_pi portname v = Some r" by blast
  then show ?thesis
  proof cases
    case 1
    then show ?thesis using echo_keys_exit [OF 1(1)] by (simp add: relay_end_def)
  next
    case 2
    show ?thesis by (rule echo_pi_Some [OF watched_keys [OF w 2(1)] 2(2)])
  qed
qed

lemma echo_loop_Some:
  assumes "echo_loop portname u = Some r" "watched u0 u"
  shows "\<exists>c v. r = Inl (c, v) \<and> relay_end portname u0 c v"
proof -
  have "watched u0 u \<longrightarrow> (\<exists>c v. r = Inl (c, v) \<and> relay_end portname u0 c v)"
  proof (rule echo_loop.raw_induct [OF _ assms(1)])
    fix f portname u r
    assume IH: "\<And>portname u r. f portname u = Some r \<Longrightarrow> watched u0 u \<longrightarrow> (\<exists>c v. r = Inl (c, v) \<and> relay_end portname u0 c v)"
      and st: "andthen (echo_step portname) (\<lambda>_ u. f portname u) u = Some r"
    show "watched u0 u \<longrightarrow> (\<exists>c v. r = Inl (c, v) \<and> relay_end portname u0 c v)"
    proof
      assume w: "watched u0 u"
      from st [unfolded andthen_Some] consider c v where "echo_step portname u = Some (Inl (c, v))" "r = Inl (c, v)"
        | x v where "echo_step portname u = Some (Inr (x, v))" "f portname v = Some r" by blast
      then show "\<exists>c v. r = Inl (c, v) \<and> relay_end portname u0 c v"
        using IH echo_step_Some [OF w] by cases fastforce+
    qed
  qed
  then show ?thesis using assms(2) by blast
qed

text \<open>The loop so far: \<open>k\<close> iterations.\<close>

primrec echo_times :: "nat \<Rightarrow> bool \<Rightarrow> 'z echo_scheme \<Rightarrow> (unit, 'z echo_scheme) outcome" where
  "echo_times 0 portname = ret ()"
| "echo_times (Suc k) portname = andthen (echo_step portname) (\<lambda>_. echo_times k portname)"

lemma echo_times_Some:
  "echo_times k portname u = Some (Inr (x, v)) \<Longrightarrow> watched u0 u \<Longrightarrow> watched u0 v"
proof (induction k arbitrary: u)
  case (Suc k)
  then obtain y w where "echo_step portname u = Some (Inr (y, w))" "echo_times k portname w = Some (Inr (x, v))"
    by (auto simp: andthen_Some)
  then show ?case using Suc.IH echo_step_Some [OF Suc.prems(2)] by fastforce
qed (simp add: ret_def)

text \<open>C34: the terminal is faithful. After any number of rounds everything typed so far has been sent to the
  Pi and everything it has printed is on the screen, in order, with the unprintable characters replaced.
  The relay ends only by ending the process: with status 1 when a system call fails, and with status 0,
  everything passed on, only when the Pi has printed the exit string or a read gave nothing and the
  device is gone or has no name. No assertion fails.\<close>

theorem pi_echo_correct:
  assumes "pi_fd \<noteq> 0" and "done_pos u = 0"
  shows "(\<forall>k v. echo_times k portname u = Some (Inr ((), v)) \<longrightarrow> relayed u v) \<and>
    (\<forall>r. pi_echo pi_fd portname u = Some r \<longrightarrow> (\<exists>c v. r = Inl (c, v) \<and> (c = 1 \<or> c = 0 \<and> relayed u v \<and>
       (sublist exit_string (map printable (printed u v)) \<or> \<not> portname \<or> (\<exists>i. gone_ans u i)))))"
proof -
  have w: "watched u u" using assms(2) by (simp add: watched_def relayed_refl)
  have "relayed u v" if "echo_times k portname u = Some (Inr ((), v))" for k v
    using echo_times_Some [OF that w] by (simp add: watched_def)
  moreover have "\<exists>c v. r = Inl (c, v) \<and> relay_end portname u c v" if "pi_echo pi_fd portname u = Some r" for r
    using that assms(1) echo_loop_Some [OF _ w] by (simp add: pi_echo_def)
  ultimately show ?thesis unfolding relay_end_def by blast
qed

text \<open>A Pi that says it is done at once.\<close>

lemma echo_done_at_once:
  assumes "poll_ans u (polls u) = Poll_None" "poll_ans u (polls u + 1) = Poll_Some True"
    "pi_ans u (pi_rd u) = Some exit_string" "done_pos u = 0" "pi_fd \<noteq> 0"
  shows "\<exists>v. pi_echo pi_fd True u = Some (Inl (0, v)) \<and> screen v = screen u @ exit_string"
proof -
  have e: "exit_string = [0x44, 0x4F, 0x4E, 0x45, 0x21, 0x21, 0x21, 0x0A]" by (simp add: exit_string_def of_char_def)
  have "\<exists>v. echo_step True u = Some (Inl (0, v)) \<and> screen v = screen u @ exit_string"
    using assms
    by (simp add: echo_step_def echo_keys_def read_timeout_def can_read_timeout_def
        echo_pi_def echo_show_def check_done_def output_text_def remove_nonprint_def printable_def isprint_def isspace_def
        c_string_def andthen_def ret_def clean_exit_def say_def exit_with_def e Let_def)
  then obtain v where s: "echo_step True u = Some (Inl (0, v))" "screen v = screen u @ exit_string" by blast
  have "echo_loop True u = Some (Inl (0, v))"
    by (subst echo_loop.simps) (simp add: andthen_run(2) [of "echo_step True" u, OF s(1)])
  then show ?thesis using s(2) assms(5) by (simp add: pi_echo_def)
qed

definition done_echo :: echo where
  "done_echo = \<lparr>tty_in = \<lambda>_. Timed_Out, tty_rd = 0, tty_write = \<lambda>_ data. int (length data), tty_wr = 0, tty_log = [],
     said = [], trace_p = 0, poll_ans = \<lambda>k. if k = 0 then Poll_None else Poll_Some True, polls = 0,
     keys_ans = \<lambda>_. None, keys_rd = 0, pi_ans = \<lambda>_. Some exit_string, pi_rd = 0, gone_ans = \<lambda>_. False, gone_rd = 0,
     screen = [], done_pos = 0\<rparr>"

theorem pi_echo_correct_witness:
  "\<exists>v. pi_echo 3 True done_echo = Some (Inl (0, v)) \<and> screen v = exit_string \<and>
     sublist exit_string (map printable (printed done_echo v))"
proof -
  obtain v where v: "pi_echo 3 True done_echo = Some (Inl (0, v))" "screen v = exit_string"
    using echo_done_at_once [of done_echo 3] by (auto simp: done_echo_def)
  have "pi_echo 3 True done_echo \<noteq> None" "done_pos done_echo = 0" "\<not> (\<exists>i. gone_ans done_echo i)"
    using v by (simp_all add: done_echo_def)
  then show ?thesis using pi_echo_correct [of 3 done_echo True] v by auto
qed

end
