(* ===== verification/Rpi_Install.thy ===== *)
theory Rpi_Install
  imports Put_Code_Spec Pi_Echo
begin

section \<open>The install program: tty-helpers.c, read\_file and rpi-install.c\<close>

text \<open>
  Finding, opening and setting up the serial device, reading the program from its file, and \<open>main\<close>. The
  state of the process is extended by what the directory \<open>/dev\<close>, \<open>open\<close>, the terminal calls, \<open>calloc\<close>
  and the file system answer, and by what has been opened and set up: the descriptors of terminals with
  their paths, and the descriptor and mode of the last terminal set up. The program opens one terminal, so
  the traffic of the state is the traffic on that descriptor. The flags of \<open>termios\<close> have their Linux values; \<open>cfsetspeed\<close>, a function
  of the C library, is a parameter.
\<close>

subsection \<open>State\<close>

record termios =
  c_iflag :: u32
  c_oflag :: u32
  c_cflag :: u32
  c_lflag :: u32
  c_vmin :: u8
  c_vtime :: u8

text \<open>A file: its size as \<open>stat\<close> gives it, its bytes, whether it can be opened and closed, and the bytes one
  \<open>read\<close> delivers.\<close>

record unix_file =
  st_size :: u64
  file_data :: "u8 list"
  can_open :: bool
  can_close :: bool
  read_len :: nat

record install = echo +
  dev_names :: "string list option"
  open_ans :: "nat \<Rightarrow> int"
  opens :: nat
  tty_fds :: "(int \<times> string) list"
  tcgetattr_ok :: bool
  tcsetattr_ok :: bool
  tty_mode :: "(int \<times> termios) option"
  calloc_ok :: "u32 \<Rightarrow> bool"
  files :: "string \<Rightarrow> unix_file option"

subsection \<open>tty-helpers.c\<close>

abbreviation (input) MAX_OPEN_ATTEMPTS :: nat where "MAX_OPEN_ATTEMPTS \<equiv> 5"
abbreviation (input) MAX_DEV_NAME_LEN :: nat where "MAX_DEV_NAME_LEN \<equiv> 256"

definition ttyusb_prefixes :: "string list" where
  "ttyusb_prefixes = [''ttyUSB'', ''ttyACM'', ''cu.SLAB_USB'', ''cu.usbserial'']"

primrec open_attempts :: "nat \<Rightarrow> int \<Rightarrow> string \<Rightarrow> 'z install_scheme \<Rightarrow> (int, 'z install_scheme) outcome" where
  "open_attempts 0 fd device = ret fd"
| "open_attempts (Suc k) fd device = (\<lambda>u.
     let fd = open_ans u (opens u); u = u\<lparr>opens := opens u + 1\<rparr>
     in if fd \<ge> 0 then ret fd (u\<lparr>tty_fds := tty_fds u @ [(fd, device)]\<rparr>)
        else andthen (say (Printf (''couldn't open tty port <%s>, going to sleep'' @ newline) [MStr device]))
          (\<lambda>_. open_attempts k fd device) u)"

definition open_tty :: "string \<Rightarrow> 'z install_scheme \<Rightarrow> (int, 'z install_scheme) outcome" where
  "open_tty device = andthen (open_attempts MAX_OPEN_ATTEMPTS 0 device) (\<lambda>fd.
     if fd = -1 then fail (Perror (''ERROR: open_tty_n: couldn't open tty port <%s>'' @ newline)) else ret fd)"

definition tty_filter :: "string \<Rightarrow> bool" where
  "tty_filter d_name \<longleftrightarrow> list_ex (\<lambda>p. sublist p d_name) ttyusb_prefixes"

text \<open>The loop over the entries, which runs from the last to the first.\<close>

fun pick_device :: "string option \<Rightarrow> string list \<Rightarrow> 'z install_scheme \<Rightarrow> (string option, 'z install_scheme) outcome" where
  "pick_device device_name [] = ret device_name"
| "pick_device device_name (d # ds) =
     (if tty_filter d then
        case device_name of
          None \<Rightarrow> pick_device (Some d) ds
        | Some _ \<Rightarrow> fail (Perror (''ERROR: find_ttyusb: multiple ttyusb devices found'' @ newline))
      else pick_device device_name ds)"

text \<open>\<open>scandir\<close> gives the entries that pass the filter; \<open>strcat\<close> must not write past the 256 bytes of \<open>buf\<close>.\<close>

definition find_ttyusb :: "'z install_scheme \<Rightarrow> (string, 'z install_scheme) outcome" where
  "find_ttyusb u = (case dev_names u of
     None \<Rightarrow> fail (Perror (''ERROR: find_ttyusb: scandir failed'' @ newline)) u
   | Some names \<Rightarrow>
       andthen (pick_device None (rev (filter tty_filter names))) (\<lambda>device_name.
       case device_name of
         None \<Rightarrow> fail (Perror (''ERROR: find_ttyusb: no ttyusb devices found'' @ newline))
       | Some d \<Rightarrow>
           if length (''/dev/'' @ d) \<ge> MAX_DEV_NAME_LEN then (\<lambda>_. None)
           else andthen (say (Printf (''found ttyusb device: %s'' @ newline) [MStr (''/dev/'' @ d)]))
             (\<lambda>_. ret (''/dev/'' @ d))) u)"

abbreviation (input) IGNBRK :: u32 where "IGNBRK \<equiv> 0x1"
abbreviation (input) IXON :: u32 where "IXON \<equiv> 0x400"
abbreviation (input) IXANY :: u32 where "IXANY \<equiv> 0x800"
abbreviation (input) IXOFF :: u32 where "IXOFF \<equiv> 0x1000"
abbreviation (input) OPOST :: u32 where "OPOST \<equiv> 0x1"
abbreviation (input) ISIG :: u32 where "ISIG \<equiv> 0x1"
abbreviation (input) ICANON :: u32 where "ICANON \<equiv> 0x2"
abbreviation (input) ECHO :: u32 where "ECHO \<equiv> 0x8"
abbreviation (input) ECHOE :: u32 where "ECHOE \<equiv> 0x10"
abbreviation (input) CSIZE :: u32 where "CSIZE \<equiv> 0x30"
abbreviation (input) CS8 :: u32 where "CS8 \<equiv> 0x30"
abbreviation (input) CSTOPB :: u32 where "CSTOPB \<equiv> 0x40"
abbreviation (input) CREAD :: u32 where "CREAD \<equiv> 0x80"
abbreviation (input) PARENB :: u32 where "PARENB \<equiv> 0x100"
abbreviation (input) CLOCAL :: u32 where "CLOCAL \<equiv> 0x800"
abbreviation (input) CRTSCTS :: u32 where "CRTSCTS \<equiv> 0x80000000"

definition zero_termios :: termios where
  "zero_termios = \<lparr>c_iflag = 0, c_oflag = 0, c_cflag = 0, c_lflag = 0, c_vmin = 0, c_vtime = 0\<rparr>"

definition tty_8n1 :: "(u32 \<Rightarrow> termios \<Rightarrow> termios) \<Rightarrow> u32 \<Rightarrow> termios" where
  "tty_8n1 cfsetspeed speed =
     (let tty = cfsetspeed speed zero_termios;
          tty = tty\<lparr>c_iflag := c_iflag tty AND NOT IGNBRK\<rparr>;
          tty = tty\<lparr>c_lflag := 0\<rparr>;
          tty = tty\<lparr>c_oflag := 0\<rparr>;
          tty = tty\<lparr>c_vmin := 0\<rparr>;
          tty = tty\<lparr>c_vtime := 20\<rparr>;
          tty = tty\<lparr>c_cflag := c_cflag tty AND NOT PARENB\<rparr>;
          tty = tty\<lparr>c_cflag := c_cflag tty AND NOT CSTOPB\<rparr>;
          tty = tty\<lparr>c_cflag := c_cflag tty AND NOT CSIZE\<rparr>;
          tty = tty\<lparr>c_cflag := c_cflag tty OR CS8\<rparr>;
          tty = tty\<lparr>c_cflag := c_cflag tty AND NOT CRTSCTS\<rparr>;
          tty = tty\<lparr>c_cflag := c_cflag tty OR (CREAD OR CLOCAL)\<rparr>;
          tty = tty\<lparr>c_iflag := c_iflag tty AND NOT (IXON OR IXOFF OR IXANY)\<rparr>;
          tty = tty\<lparr>c_iflag := c_iflag tty AND NOT (ICANON OR ECHO OR ECHOE OR ISIG)\<rparr>
      in tty\<lparr>c_oflag := c_oflag tty AND NOT OPOST\<rparr>)"

definition set_tty_to_8n1 :: "(u32 \<Rightarrow> termios \<Rightarrow> termios) \<Rightarrow> int \<Rightarrow> u32 \<Rightarrow> 'z install_scheme \<Rightarrow> (int, 'z install_scheme) outcome" where
  "set_tty_to_8n1 cfsetspeed fd speed u =
     (if \<not> tcgetattr_ok u then fail (Perror (''tcgetattr failed'' @ newline)) u
      else if \<not> tcsetattr_ok u then fail (Perror (''tcsetattr failed'' @ newline)) u
      else ret fd (u\<lparr>tty_mode := Some (fd, tty_8n1 cfsetspeed speed)\<rparr>))"

subsection \<open>read\_file\<close>

text \<open>The result is the buffer and what is in \<open>*size\<close> afterwards: an empty file leaves it as it was. A read
  into a buffer that is too small has no meaning.\<close>

definition read_file :: "u32 \<Rightarrow> string \<Rightarrow> 'z install_scheme \<Rightarrow> (u8 list \<times> u32, 'z install_scheme) outcome" where
  "read_file sz name u = (case files u name of
     None \<Rightarrow> fail (Perror (''ERROR: read_file: Failed to get file stat for %s'' @ newline)) u
   | Some f \<Rightarrow>
       let file_size = ucast (st_size f) :: u32;
           padded_size = file_size + (4 - file_size mod 4);
           buf = replicate (unat padded_size) 0
       in if \<not> calloc_ok u padded_size then fail (Perror (''ERROR: read_file: Failed to allocate file buffer'' @ newline)) u
       else if file_size = 0 then ret (buf, sz) u
       else if \<not> can_open f then fail (Perror (''ERROR: read_file: Failed to open file %s'' @ newline)) u
       else
         let data = take (min (read_len f) (unat file_size)) (file_data f)
         in if length buf < length data then None
         else if \<not> can_close f then fail (Perror (''ERROR: read_file: Failed to close file %s'' @ newline)) u
         else ret (data @ drop (length data) buf, file_size) u)"

subsection \<open>rpi-install.c\<close>

abbreviation (input) BAUD_RATE :: u32 where "BAUD_RATE \<equiv> 115200"

text \<open>\<open>size\<close> is not initialised: it starts with any value \<open>sz\<close>.\<close>

definition install_main :: "(u32 \<Rightarrow> termios \<Rightarrow> termios) \<Rightarrow> u32 \<Rightarrow> string list \<Rightarrow> 'z install_scheme \<Rightarrow> (unit, 'z install_scheme) outcome" where
  "install_main cfsetspeed sz argv =
     (if length argv \<noteq> 2 then
        andthen (say (Printf (''ERROR: rpi-install: usage: %s <pi-program>'' @ newline) (map MStr (take 1 argv))))
          (\<lambda>_. exit_with 1)
      else
        andthen find_ttyusb (\<lambda>device.
        andthen (open_tty device) (\<lambda>tty_fd.
        andthen (set_tty_to_8n1 cfsetspeed tty_fd BAUD_RATE) (\<lambda>pi_fd.
        andthen (read_file sz (argv ! 1)) (\<lambda>(code, sz).
        andthen (say (Printf (''read kernel from %s, size: %d'' @ newline) [MStr (argv ! 1), MInt sz])) (\<lambda>_.
        andthen (put_code ARMBASE code sz) (\<lambda>_.
        pi_echo pi_fd True)))))))"

subsection \<open>What the parts do\<close>

lemma pick_device_Some:
  assumes "pick_device dev ds u = Some r"
  shows "case r of Inr (res, v) \<Rightarrow> v = u \<and> (case dev of
      None \<Rightarrow> filter tty_filter ds = (case res of None \<Rightarrow> [] | Some d \<Rightarrow> [d])
    | Some d \<Rightarrow> res = Some d \<and> filter tty_filter ds = []) | Inl (c, v) \<Rightarrow> c = 1"
  using assms
proof (induction dev ds arbitrary: u rule: pick_device.induct)
  case (2 dev d ds)
  show ?case
  proof (cases "tty_filter d \<and> dev = None")
    case True
    then show ?thesis using 2(1) [of u] 2(3) by (auto split: sum.splits option.splits)
  next
    case False
    then show ?thesis using 2(2) [of u] 2(3) by (auto simp: fail_Some split: if_splits option.splits sum.splits)
  qed
qed (auto simp: ret_def split: option.splits)

lemma find_ttyusb_Some:
  assumes "find_ttyusb u = Some r"
  shows "case r of Inr (dev, v) \<Rightarrow> (\<exists>d names. dev_names u = Some names \<and> filter tty_filter names = [d] \<and> dev = ''/dev/'' @ d) \<and>
      (\<exists>m. v = u\<lparr>said := m\<rparr>) | Inl (c, v) \<Rightarrow> c = 1"
proof (cases "dev_names u")
  case None
  then show ?thesis using assms by (simp add: find_ttyusb_def fail_Some)
next
  case (Some names)
  have rev_filter: "filter tty_filter (rev (filter tty_filter names)) = rev (filter tty_filter names)"
    by (simp add: rev_filter)
  show ?thesis using assms [unfolded find_ttyusb_def Some option.case andthen_Some [of "pick_device None (rev (filter tty_filter names))"]]
  proof (elim disjE exE conjE)
    fix c v
    assume "pick_device None (rev (filter tty_filter names)) u = Some (Inl (c, v))" and "r = Inl (c, v)"
    then show ?thesis by (auto dest: pick_device_Some)
  next
    fix res v
    assume pick: "pick_device None (rev (filter tty_filter names)) u = Some (Inr (res, v))"
      and rest: "(case res of None \<Rightarrow> fail (Perror (''ERROR: find_ttyusb: no ttyusb devices found'' @ newline))
       | Some d \<Rightarrow> if length (''/dev/'' @ d) \<ge> MAX_DEV_NAME_LEN then (\<lambda>_. None)
           else andthen (say (Printf (''found ttyusb device: %s'' @ newline) [MStr (''/dev/'' @ d)]))
             (\<lambda>_. ret (''/dev/'' @ d))) v = Some r"
    show ?thesis
    proof (cases res)
      case None
      then show ?thesis using rest by (simp add: fail_Some)
    next
      case d: (Some d)
      have "v = u" "filter tty_filter names = [d]"
        using pick_device_Some [OF pick] d rev_filter by (auto simp: rev_swap)
      then show ?thesis using rest Some
        unfolding d option.case
        by (auto simp: andthen_def say_def ret_def split: if_splits)
    qed
  qed
qed

text \<open>Steps that touch nothing but the descriptors, the messages and the mode of the terminal.\<close>

definition untouched :: "'z install_scheme \<Rightarrow> 'z install_scheme \<Rightarrow> bool" where
  "untouched u v \<longleftrightarrow> tty_log v = tty_log u \<and> done_pos v = done_pos u \<and> files v = files u"

text \<open>\<open>open\<close> answers a descriptor or -1.\<close>

definition open_posix :: "'z install_scheme \<Rightarrow> bool" where
  "open_posix u \<longleftrightarrow> (\<forall>k. - 1 \<le> open_ans u k)"

lemma open_attempts_Some:
  "open_attempts k fd device u = Some r \<Longrightarrow> open_posix u \<Longrightarrow> \<exists>fd' v. r = Inr (fd', v) \<and> untouched u v \<and>
     (tty_fds v = tty_fds u @ [(fd', device)] \<or> k = 0 \<and> fd' = fd \<or> fd' = - 1)"
proof (induction k arbitrary: fd u)
  case (Suc k)
  let ?u = "u\<lparr>opens := opens u + 1\<rparr>"
  let ?w = "?u\<lparr>said := said u @ [Printf (''couldn't open tty port <%s>, going to sleep'' @ newline) [MStr device]]\<rparr>"
  show ?case
  proof (cases "open_ans u (opens u) \<ge> 0")
    case False
    then have "open_attempts k (open_ans u (opens u)) device ?w = Some r"
      using Suc.prems by (simp add: andthen_def say_def ret_def Let_def)
    moreover have "open_posix ?w" "open_ans u (opens u) = - 1"
      using False Suc.prems(2) by (simp_all add: open_posix_def) (metis le_less_linear order_antisym zle_diff1_eq diff_0)
    ultimately show ?thesis using Suc.IH [of "open_ans u (opens u)" ?w] by (auto simp: untouched_def)
  qed (use Suc.prems in \<open>auto simp: ret_def untouched_def Let_def\<close>)
qed (auto simp: ret_def untouched_def)

lemma open_tty_Some:
  assumes "open_tty device u = Some r" "open_posix u"
  shows "case r of Inr (fd, v) \<Rightarrow> untouched u v \<and> tty_fds v = tty_fds u @ [(fd, device)] | Inl (c, v) \<Rightarrow> c = 1"
  using assms(1) unfolding open_tty_def
proof (cases rule: andthen_cases)
  case (exits c v)
  then show ?thesis using open_attempts_Some [OF exits(1) assms(2)] by simp
next
  case (goes_on fd v)
  then show ?thesis using open_attempts_Some [OF goes_on(1) assms(2)] by (auto simp: fail_Some ret_def split: if_splits)
qed

text \<open>Raw mode: eight data bits, no parity, one stop bit, no flow control, no processing.\<close>

definition raw_8n1 :: "termios \<Rightarrow> bool" where
  "raw_8n1 t \<longleftrightarrow> c_cflag t AND CSIZE = CS8 \<and> c_cflag t AND (PARENB OR CSTOPB OR CRTSCTS) = 0 \<and>
     c_cflag t AND (CREAD OR CLOCAL) = CREAD OR CLOCAL \<and> c_lflag t = 0 \<and> c_oflag t = 0 \<and>
     c_iflag t AND (IGNBRK OR IXON OR IXOFF OR IXANY) = 0 \<and> c_vmin t = 0 \<and> c_vtime t = 20"

lemma tty_8n1_flags:
  "c_cflag (tty_8n1 cfs speed) = ((c_cflag (cfs speed zero_termios) AND NOT (PARENB OR CSTOPB OR CSIZE)) OR CS8) AND NOT CRTSCTS OR (CREAD OR CLOCAL)"
  "c_iflag (tty_8n1 cfs speed) = c_iflag (cfs speed zero_termios) AND NOT (IGNBRK OR IXON OR IXOFF OR IXANY) AND NOT (ICANON OR ECHO OR ECHOE OR ISIG)"
  by (simp_all add: tty_8n1_def Let_def and.assoc or.assoc)

lemma tty_8n1_raw: "raw_8n1 (tty_8n1 cfs speed)"
proof -
  show ?thesis
    by (simp add: raw_8n1_def tty_8n1_flags word_ao_dist and.assoc) (simp add: tty_8n1_def Let_def)
qed

lemma set_tty_Some:
  assumes "set_tty_to_8n1 cfs fd speed u = Some r"
  shows "case r of Inr (fd', v) \<Rightarrow> fd' = fd \<and> untouched u v \<and> tty_fds v = tty_fds u \<and>
      tty_mode v = Some (fd, tty_8n1 cfs speed) | Inl (c, v) \<Rightarrow> c = 1"
  using assms by (auto simp: set_tty_to_8n1_def fail_Some ret_def untouched_def split: if_splits)

text \<open>A file that is read completely: not empty, and delivered by one \<open>read\<close>.\<close>

definition whole_file :: "unix_file \<Rightarrow> bool" where
  "whole_file f \<longleftrightarrow> st_size f = of_nat (length (file_data f)) \<and> 0 < length (file_data f) \<and>
     length (file_data f) < 2 ^ 32 \<and> length (file_data f) \<le> read_len f"

lemma if_fail_Some:
  assumes "(if b then fail m u else x) = Some r"
  obtains v where "r = Inl (1, v)" | "\<not> b" "x = Some r"
  using assms by (auto simp: fail_Some split: if_splits)

lemma whole_file_size:
  assumes "whole_file f"
  shows "unat (ucast (st_size f) :: u32) = length (file_data f)" "(ucast (st_size f) :: u32) = of_nat (length (file_data f))"
    "(ucast (st_size f) :: u32) \<noteq> 0"
proof -
  have st: "st_size f = of_nat (length (file_data f))" "0 < length (file_data f)" "length (file_data f) < 2 ^ 32"
    using assms by (simp_all add: whole_file_def)
  then have "unat (st_size f) = length (file_data f)" by (simp add: unat_of_nat_small)
  then show n: "unat (ucast (st_size f) :: u32) = length (file_data f)"
    using st(3) by (simp add: unsigned_ucast_eq take_bit_nat_eq_self)
  show "(ucast (st_size f) :: u32) = of_nat (length (file_data f))" unfolding n [symmetric] by simp
  show "(ucast (st_size f) :: u32) \<noteq> 0" using n st(2) by auto
qed

text \<open>The bytes and the number of bytes handed over: what \<open>read\<close> delivers, the rest zero up to the
  size of the file; of an empty file, as many zeros as \<open>size\<close> happens to hold.\<close>

definition handed_over :: "unix_file \<Rightarrow> u32 \<Rightarrow> u8 list \<times> u32" where
  "handed_over f sz =
     (let file_size = ucast (st_size f) :: u32; data = take (min (read_len f) (unat file_size)) (file_data f)
      in if file_size = 0 then (replicate (unat sz) 0, sz)
         else (data @ replicate (unat file_size - length data) 0, file_size))"

lemma handed_whole: "whole_file f \<Longrightarrow> handed_over f sz = (file_data f, of_nat (length (file_data f)))"
  using whole_file_size [of f] by (simp add: handed_over_def whole_file_def Let_def)

text \<open>What is read from the buffer of \<open>read_file\<close> is that, unless it is read beyond its end.\<close>

lemma read_file_Some:
  assumes "read_file sz name u = Some r"
  shows "case r of Inr ((buf, n), v) \<Rightarrow> v = u \<and> (\<exists>f. files u name = Some f \<and> n = snd (handed_over f sz) \<and>
      (unat n \<le> length buf \<longrightarrow> take (unat n) buf = fst (handed_over f sz)))
    | Inl (c, v) \<Rightarrow> c = 1"
proof (cases "files u name")
  case None
  then show ?thesis using assms by (simp add: read_file_def fail_Some)
next
  case (Some f)
  let ?n = "ucast (st_size f) :: u32"
  let ?data = "take (min (read_len f) (unat ?n)) (file_data f)"
  from assms [unfolded read_file_def Some option.case Let_def] show ?thesis
  proof (cases rule: if_fail_Some)
    case 2
    show ?thesis
    proof (cases "?n = 0")
      case True
      then show ?thesis using 2(2) Some by (auto simp: ret_def handed_over_def)
    next
      case False
      from 2(2) [unfolded if_not_P [OF False]] show ?thesis
      proof (cases rule: if_fail_Some)
        case 2
        have le: "\<not> length (replicate (unat (?n + (4 - ?n mod 4))) (0 :: u8)) < length ?data"
          using 2(2) by (metis option.distinct(1))
        have "length ?data \<le> unat ?n" by simp
        from 2(2) [unfolded if_not_P [OF le]] show ?thesis
        proof (cases rule: if_fail_Some)
          case 2
          then show ?thesis using Some False \<open>length ?data \<le> unat ?n\<close> le
            by (auto simp: ret_def handed_over_def Let_def min_def)
        qed simp
      qed simp
    qed
  qed simp
qed

text \<open>The relay and the exchange with the loader leave the mode of the terminal alone.\<close>

lemma host_io_install:
  fixes u v :: "'z install_scheme"
  assumes "host_io u v ts"
  shows "tty_log v = tty_log u @ ts" "tty_mode v = tty_mode u" "done_pos v = done_pos u" "tty_fds v = tty_fds u"
proof -
  have "host.more v = host.more u" using assms by (simp add: host_io_def)
  then show "tty_mode v = tty_mode u" "done_pos v = done_pos u" "tty_fds v = tty_fds u" by (cases u; cases v; simp)+
  show "tty_log v = tty_log u @ ts" using assms by (simp add: host_io_def)
qed

lemma relayed_install:
  fixes u v :: "'z install_scheme"
  assumes "relayed u v"
  shows "tty_log v = tty_log u @ map Tx (typed u v)" "tty_mode v = tty_mode u" "tty_fds v = tty_fds u"
proof -
  have "echo.more v = echo.more u" using assms by (simp add: relayed_def)
  then show "tty_mode v = tty_mode u" "tty_fds v = tty_fds u" by (cases u; cases v; simp)+
  show "tty_log v = tty_log u @ map Tx (typed u v)" using assms by (simp add: relayed_def)
qed

text \<open>How \<open>main\<close> ends once the program is read, and how it ends in all.\<close>

definition install_end :: "u8 list \<Rightarrow> u32 \<Rightarrow> 'z install_scheme \<Rightarrow> int \<Rightarrow> 'z install_scheme \<Rightarrow> bool" where
  "install_end code n u c v \<longleftrightarrow> c \<in> {1, 134} \<or> c = 0 \<and> tty_mode v = tty_mode u \<and> tty_fds v = tty_fds u \<and>
     (\<exists>hs ks. tty_log v = tty_log u @ hs @ map Tx ks \<and> program_sent ARMBASE code n hs)"

lemma install_tail:
  assumes "andthen (say m) (\<lambda>_. andthen (put_code ARMBASE buf n) (\<lambda>_. pi_echo fd True)) u = Some r" "done_pos u = 0"
  shows "unat n \<le> length buf \<and> (\<exists>c v. r = Inl (c, v) \<and> install_end (take (unat n) buf) n u c v)"
proof -
  let ?u = "u\<lparr>said := said u @ [m]\<rparr>"
  have st: "andthen (put_code ARMBASE buf n) (\<lambda>_. pi_echo fd True) ?u = Some r"
    using assms(1) by (simp add: andthen_def [of "say m"] say_def ret_def)
  then obtain q where q: "put_code ARMBASE buf n ?u = Some q" by (auto simp: andthen_Some)
  then have n: "unat n \<le> length buf" by (auto simp: put_code_def split: if_splits)
  note K = keepsD [OF keeps_put_code [OF n] q]
  show ?thesis
  proof (cases q)
    case (Inl e)
    moreover obtain v where "e = (1, v)" using K Inl by (cases e) (simp add: ends_in_def)
    ultimately have "r = Inl (1, v)" using st q by (simp add: andthen_def)
    then show ?thesis using n by (auto simp: install_end_def)
  next
    case (Inr b)
    obtain w where b: "b = ((), w)" by (cases b) simp
    from K obtain hs where hs: "host_io ?u w hs" "program_sent ARMBASE (take (unat n) buf) n hs"
      by (auto simp: ends_in_def Inr b)
    note H = host_io_install [OF hs(1)]
    have e: "pi_echo fd True w = Some r" using st q by (simp add: andthen_def Inr b)
    have "watched w w" using H(3) assms(2) by (simp add: watched_def relayed_refl)
    then obtain c v where r: "r = Inl (c, v)" "c = 134 \<or> relay_end True w c v"
      using e echo_loop_Some [of True w r w] by (auto simp: pi_echo_def exit_with_def split: if_splits)
    have "install_end (take (unat n) buf) n u c v" if "c \<notin> {1, 134}"
    proof -
      have "c = 0" "relayed w v" using r(2) that by (auto simp: relay_end_def)
      moreover from relayed_install [OF this(2)] have
        "tty_log v = tty_log u @ hs @ map Tx (typed w v)" "tty_mode v = tty_mode u" "tty_fds v = tty_fds u"
        using H(1,2,4) by simp_all
      ultimately show ?thesis using hs(2) unfolding install_end_def by blast
    qed
    then show ?thesis using r(1) n by (auto simp: install_end_def)
  qed
qed

text \<open>C33: what an installation that ends well has done. A run of \<open>main\<close> that ends, ends the process with
  status 0 or 1, or aborts. It ends with status 0 only if it was called with one argument, there was
  exactly one serial adapter \<open>d\<close>, \<open>/dev/d\<close> is the one terminal it has opened, the descriptor of that is
  in raw mode with eight data bits, no parity and one stop bit, and the traffic is the exchange in which
  the Pi has acknowledged, received and confirmed the bytes handed over, and then the keys typed. The bytes
  handed over are the contents of the file if it is not empty and one \<open>read\<close> delivers it all. Otherwise
  status 0 does not mean that: the rest of a short read is zeros, and for an empty file as many zeros go
  out as \<open>size\<close> happened to hold.\<close>

theorem install_correct:
  assumes "install_main cfs sz argv u = Some r" and "done_pos u = 0" and "open_posix u"
  shows "\<exists>c v. (r = Inl (c, v)) \<and> c \<in> {0, 1, 134} \<and> (c = 0 \<longrightarrow> length argv = 2 \<and>
     (\<exists>names d f fd t code n hs ks. dev_names u = Some names \<and> filter tty_filter names = [d] \<and>
        files u (argv ! 1) = Some f \<and> tty_fds v = tty_fds u @ [(fd, ''/dev/'' @ d)] \<and>
        tty_mode v = Some (fd, t) \<and> raw_8n1 t \<and>
        tty_log v = tty_log u @ hs @ map Tx ks \<and> program_sent ARMBASE code n hs \<and> handed_over f sz = (code, n) \<and>
        (whole_file f \<longrightarrow> code = file_data f \<and> n = of_nat (length (file_data f)))))"
proof (cases "length argv = 2")
  case False
  then show ?thesis using assms(1) by (auto simp: install_main_def andthen_def say_def ret_def exit_with_def)
next
  case True
  note m = assms(1) [unfolded install_main_def, simplified True simp_thms if_False]
  have stop: ?thesis if "r = Inl (1, w)" for w using that by auto
  from m show ?thesis
  proof (cases rule: andthen_cases)
    case (exits c v)
    then show ?thesis using find_ttyusb_Some [OF exits(1)] stop by auto
  next
    case device: (goes_on device u1)
    obtain names d where D: "dev_names u = Some names" "filter tty_filter names = [d]" "device = ''/dev/'' @ d" "untouched u u1"
      "tty_fds u1 = tty_fds u" and posix: "open_posix u1"
      using find_ttyusb_Some [OF device(1)] assms(3) by (auto simp: untouched_def open_posix_def)
    from device(2) show ?thesis
    proof (cases rule: andthen_cases)
      case (exits c v)
      then show ?thesis using open_tty_Some [OF exits(1) posix] stop by auto
    next
      case fd: (goes_on fd u2)
      from fd(2) show ?thesis
      proof (cases rule: andthen_cases)
        case (exits c v)
        then show ?thesis using set_tty_Some [OF exits(1)] stop by auto
      next
        case tty: (goes_on pi_fd u3)
        from tty(2) show ?thesis
        proof (cases rule: andthen_cases)
          case (exits c v)
          then show ?thesis using read_file_Some [OF exits(1)] stop by auto
        next
          case prog: (goes_on bn u4)
          obtain buf n where bn: "bn = (buf, n)" by (cases bn)
          from prog(1) [unfolded bn] read_file_Some obtain f where F: "u4 = u3" "files u3 (argv ! 1) = Some f"
            "n = snd (handed_over f sz)" "unat n \<le> length buf \<longrightarrow> take (unat n) buf = fst (handed_over f sz)" by fastforce
          have q: "untouched u1 u2" "untouched u2 u3" "tty_mode u3 = Some (fd, tty_8n1 cfs BAUD_RATE)"
            "tty_fds u3 = tty_fds u @ [(fd, ''/dev/'' @ d)]"
            using open_tty_Some [OF fd(1) posix] set_tty_Some [OF tty(1)] D(3,5) by simp_all
          have Q: "tty_log u3 = tty_log u" "done_pos u3 = 0" "files u3 = files u"
            using D(4) q(1,2) assms(2) by (simp_all add: untouched_def)
          from install_tail [OF prog(2) [unfolded bn prod.case F(1)] Q(2)] obtain c v where
            r: "r = Inl (c, v)" "install_end (take (unat n) buf) n u3 c v" and "unat n \<le> length buf" by blast
          then have H: "handed_over f sz = (take (unat n) buf, n)" using F(3,4) by (simp add: prod_eq_iff)
          have whole: "take (unat n) buf = file_data f \<and> n = of_nat (length (file_data f))" if "whole_file f"
            using handed_whole [OF that, of sz] unfolding H prod.inject .
          show ?thesis
          proof (cases "c = 0")
            case True
            then obtain hs ks where "tty_mode v = Some (fd, tty_8n1 cfs BAUD_RATE)"
              "tty_fds v = tty_fds u @ [(fd, ''/dev/'' @ d)]" "tty_log v = tty_log u @ hs @ map Tx ks"
              "program_sent ARMBASE (take (unat n) buf) n hs"
              using r(2) q(3,4) Q(1) by (auto simp: install_end_def)
            moreover have "files u (argv ! 1) = Some f" using F(2) Q(3) by simp
            ultimately show ?thesis using D(1,2) H whole tty_8n1_raw \<open>length argv = 2\<close> r(1) True by blast
          qed (use r in \<open>auto simp: install_end_def\<close>)
        qed
      qed
    qed
  qed
qed

text \<open>A board on \<open>ttyUSB0\<close> that takes the program, runs it and is done.\<close>

definition done_install :: "u8 list \<Rightarrow> install" where
  "done_install bs = \<lparr>tty_in = \<lambda>k. if k < length bs then Byte (bs ! k) else Timed_Out, tty_rd = 0,
     tty_write = \<lambda>_ data. int (length data), tty_wr = 0, tty_log = [],
     said = [], trace_p = 0, poll_ans = \<lambda>k. if k = 0 then Poll_None else Poll_Some True, polls = 0,
     keys_ans = \<lambda>_. None, keys_rd = 0, pi_ans = \<lambda>_. Some exit_string, pi_rd = 0, gone_ans = \<lambda>_. False, gone_rd = 0,
     screen = [], done_pos = 0, dev_names = Some [''tty0'', ''ttyUSB0''], open_ans = \<lambda>_. 3, opens = 0, tty_fds = [],
     tcgetattr_ok = True, tcsetattr_ok = True, tty_mode = None, calloc_ok = \<lambda>_. True,
     files = \<lambda>_. Some \<lparr>st_size = 2, file_data = [0x13, 0x37], can_open = True, can_close = True, read_len = 2\<rparr>\<rparr>"

lemma find_ttyusb_one:
  assumes "dev_names u = Some names" "filter tty_filter names = [d]" "length d < 251"
  shows "find_ttyusb u = Some (Inr (''/dev/'' @ d, u\<lparr>said := said u @ [Printf (''found ttyusb device: %s'' @ newline) [MStr (''/dev/'' @ d)]]\<rparr>))"
proof -
  have "tty_filter d" using assms(2) by (metis Cons_eq_filterD)
  then have "pick_device None (rev (filter tty_filter names)) u = Some (Inr (Some d, u))" by (simp add: assms(2) ret_def)
  then show ?thesis using assms(3) by (simp add: find_ttyusb_def assms(1) andthen_run(1) say_def ret_def)
qed

lemma replicate_two: "replicate 2 x = [x, x]"
  by (simp add: numeral_2_eq_2)

lemma install_runs:
  assumes bs: "bs = le32 GET_PROG_INFO @ le32 GET_CODE @ le32 (crc32 [0x13, 0x37]) @ le32 BOOT_SUCCESS"
  shows "\<exists>v. install_main cfs 0 [''rpi-install'', ''kernel.bin''] (done_install bs) = Some (Inl (0, v))"
proof -
  have f: "filter tty_filter [''tty0'', ''ttyUSB0''] = [''ttyUSB0'']"
    by (simp add: tty_filter_def ttyusb_prefixes_def sublist_code)
  let ?dev = "''/dev/'' @ ''ttyUSB0''"
  obtain u1 m1 where 1: "find_ttyusb (done_install bs) = Some (Inr (?dev, u1))" "u1 = (done_install bs)\<lparr>said := m1\<rparr>"
    using find_ttyusb_one [OF _ f, of "done_install bs"] by (simp add: done_install_def)
  let ?u2 = "u1\<lparr>opens := 1, tty_fds := [(3, ?dev)]\<rparr>"
  let ?u3 = "?u2\<lparr>tty_mode := Some (3, tty_8n1 cfs BAUD_RATE)\<rparr>"
  have 2: "open_tty ?dev u1 = Some (Inr (3, ?u2))"
    by (simp add: open_tty_def andthen_def ret_def 1(2) done_install_def numeral_eq_Suc)
  have 3: "set_tty_to_8n1 cfs 3 BAUD_RATE ?u2 = Some (Inr (3, ?u3))"
    by (simp add: set_tty_to_8n1_def ret_def 1(2) done_install_def)
  have 4: "read_file 0 ''kernel.bin'' ?u3 = Some (Inr (([0x13, 0x37, 0, 0], 2), ?u3))"
    by (simp add: read_file_def ret_def 1(2) done_install_def Let_def replicate_two)
  let ?u4 = "?u3\<lparr>said := said ?u3 @ [Printf (''read kernel from %s, size: %d'' @ newline) [MStr ''kernel.bin'', MInt 2]]\<rparr>"
  have ready: "host_ready ?u4 bs" by (simp add: host_ready_def 1(2) done_install_def)
  have two: "unat (2 :: u32) \<le> length [0x13, 0x37, 0, 0 :: u8]" "take (unat (2 :: u32)) [0x13, 0x37, 0, 0 :: u8] = [0x13, 0x37]"
    by simp_all
  from put_code_runs [OF ready [unfolded bs, folded two(2)] two(1), of ARMBASE] obtain w where
    5: "put_code ARMBASE [0x13, 0x37, 0, 0] 2 ?u4 = Some (Inr ((), w))" by blast
  obtain ts where "host_io ?u4 w ts" using keepsD [OF keeps_put_code [OF two(1)] 5] by (auto simp: ends_in_def)
  then have "host.more w = host.more ?u4" by (simp add: host_io_def)
  then have "poll_ans w = poll_ans ?u4" "polls w = polls ?u4" "pi_ans w = pi_ans ?u4" "pi_rd w = pi_rd ?u4" "done_pos w = done_pos ?u4"
    by (cases w; cases u1; simp)+
  then obtain v where 6: "pi_echo 3 True w = Some (Inl (0, v))"
    using echo_done_at_once [of w 3] by (auto simp: 1(2) done_install_def)
  have "install_main cfs 0 [''rpi-install'', ''kernel.bin''] (done_install bs) = Some (Inl (0, v))"
    unfolding install_main_def
    using 1(1) 2 3 4 5 6 by (simp add: andthen_def say_def ret_def)
  then show ?thesis ..
qed

theorem install_correct_witness:
  "\<exists>u v hs ks fd t. install_main (\<lambda>_ t. t) 0 [''rpi-install'', ''kernel.bin''] u = Some (Inl (0, v :: install)) \<and>
     tty_log v = tty_log u @ hs @ map Tx ks \<and> program_sent ARMBASE [0x13, 0x37] 2 hs \<and>
     tty_fds v = [(fd, ''/dev/ttyUSB0'')] \<and> tty_mode v = Some (fd, t) \<and> raw_8n1 t"
proof -
  obtain bs and v :: install where v: "install_main (\<lambda>_ t. t) 0 [''rpi-install'', ''kernel.bin''] (done_install bs) = Some (Inl (0, v))"
    using install_runs by blast
  let ?f = "\<lparr>st_size = 2, file_data = [0x13, 0x37], can_open = True, can_close = True, read_len = 2\<rparr>"
  have u: "done_pos (done_install bs) = 0" "open_posix (done_install bs)" "tty_fds (done_install bs) = []"
    "files (done_install bs) ''kernel.bin'' = Some ?f" "dev_names (done_install bs) = Some [''tty0'', ''ttyUSB0'']"
    by (simp_all add: done_install_def open_posix_def)
  have w: "whole_file ?f" by (simp add: whole_file_def)
  have d: "filter tty_filter [''tty0'', ''ttyUSB0''] = [''ttyUSB0'']"
    by (simp add: tty_filter_def ttyusb_prefixes_def sublist_code)
  from install_correct [OF v u(1,2)] u(3-5) w d obtain t hs ks fd where "tty_mode v = Some (fd, t)" "raw_8n1 t"
    "tty_fds v = [(fd, ''/dev/'' @ ''ttyUSB0'')]"
    "tty_log v = tty_log (done_install bs) @ hs @ map Tx ks" "program_sent ARMBASE [0x13, 0x37] 2 hs" by auto
  with v show ?thesis unfolding append_Cons append_Nil by blast
qed

end
