(* ===== verification/Output.thy ===== *)
theory Output
  imports Hv_System
begin

section \<open>What the handlers put on the serial line\<close>

text \<open>
  \<open>outputs s t bs\<close>: the run from \<open>s\<close> to \<open>t\<close> transmits \<open>bs\<close>, whatever else it does. With tracing off the
  hypervisor writes nothing of its own between the bytes of the guests: of all the operations of a guest
  that it comes back from, only \<open>PUTCHAR\<close> and a store to the UART's data register transmit, one byte.
  The \<open>EXIT\<close> call, which it does not come back from, prints a line that names the status.
\<close>

definition outputs :: "'a hw_scheme \<Rightarrow> 'a hw_scheme \<Rightarrow> u8 list \<Rightarrow> bool" where
  "outputs s t bs \<longleftrightarrow> (\<exists>es. hw_log t = hw_log s @ es \<and> uart_bytes es = bs)"

lemma outputs_io: "io_out s t bs \<Longrightarrow> outputs s t bs"
  by (auto simp: outputs_def io_out_def)

lemma outputs_log: "hw_log t = hw_log s \<Longrightarrow> outputs s t []"
  by (simp add: outputs_def)

lemma outputs_trans: "outputs s t bs \<Longrightarrow> outputs t u cs \<Longrightarrow> outputs s u (bs @ cs)"
  unfolding outputs_def by (elim exE conjE) (rule_tac x = "es @ esa" in exI, simp)

lemma outputs_silent: "outputs s t [] \<Longrightarrow> outputs t u bs \<Longrightarrow> outputs s u bs"
  using outputs_trans [of s t "[]" u bs] by simp

lemma outputs_then_silent: "outputs s t bs \<Longrightarrow> outputs t u [] \<Longrightarrow> outputs s u bs"
  using outputs_trans [of s t bs u "[]"] by simp

lemma outputs_upd: "outputs s (upd_vcpu i g s) []" "outputs s (s\<lparr>scheduler := x\<rparr>) []"
  by (simp_all add: outputs_log upd_vcpu_def)

lemma outputs_ctrl:
  fixes s s' :: machine
  shows "outputs s (hv_mmu_activate_vcpu vms p s) []" "outputs s (hv_virq_sync q s) []"
    "outputs s (hv_scheduler_sync_traps i s) []" "hv_vcpu_load v s = (v', f, s') \<Longrightarrow> outputs s s' []"
  by (auto simp: outputs_def hv_mmu_activate_vcpu_def hv_mmu_deactivate_stage2_def
      hv_virq_sync_def hv_scheduler_sync_traps_def hv_vcpu_load_def sysreg_defs DSB_def ISB_def emit_def
      Let_def split: option.splits)

text \<open>A silent step after silent ones.\<close>

lemma then_silent:
  fixes s t :: machine
  assumes "outputs s t bs"
  shows "outputs s (upd_vcpu i g t) bs" "outputs s (t\<lparr>scheduler := x\<rparr>) bs" "outputs s (hv_mmu_activate_vcpu vms p t) bs"
    "outputs s (hv_virq_sync q t) bs" "outputs s (hv_scheduler_sync_traps k t) bs"
    "outputs s (hv_vtimer_rearm_physical t) bs" "hv_vcpu_load v t = (v', f, u) \<Longrightarrow> outputs s u bs"
  using assms by (auto intro: outputs_then_silent outputs_upd outputs_ctrl outputs_io [OF rearm_io])

lemma outputs_refl: "outputs s s []"
  by (simp add: outputs_log)

subsection \<open>Scheduling\<close>

lemma switch_in_outputs:
  assumes "switch_in n s = (f, s')"
  shows "outputs s s' []"
proof -
  define s1 where "s1 = (let s = upd_vcpu n (vcpu_state_update (\<lambda>_. HV_VCPU_RUNNING)) s;
      s = s\<lparr>scheduler := (scheduler s)\<lparr>cur_idx := of_nat n\<rparr>\<rparr>;
      s = s\<lparr>scheduler := (scheduler s)\<lparr>cur_vcpu := Some n\<rparr>\<rparr>;
      s = hv_scheduler_sync_traps (of_nat n) s
    in hv_mmu_activate_vcpu (sch_vm (scheduler s)) (Some (vcpu_at n s)) s)"
  obtain v g u where l: "hv_vcpu_load (vcpu_at n s1) s1 = (v, g, u)" by (metis prod_cases3)
  have 1: "outputs s s1 []" unfolding s1_def Let_def by (intro then_silent(1-5) outputs_refl)
  have "switch_in n s = (case hv_vcpu_load (vcpu_at n s1) s1 of (v, f, s) \<Rightarrow>
      (f, hv_virq_sync (Some (vcpu_at n (upd_vcpu n (\<lambda>_. v) s))) (upd_vcpu n (\<lambda>_. v) s)))"
    unfolding switch_in_def s1_def Let_def ..
  then have "s' = hv_virq_sync (Some (vcpu_at n (upd_vcpu n (\<lambda>_. v) u))) (upd_vcpu n (\<lambda>_. v) u)"
    using assms unfolding l by simp
  then show ?thesis using then_silent(4) [OF then_silent(1) [OF then_silent(7) [OF 1 l]]] by simp
qed

lemma switch_to_outputs:
  assumes "\<not> hv_scheduler_verbose s" "cur_vcpu (scheduler s) = Some c"
    "hv_scheduler_switch_to f (int n) s = Some (r, f', s')"
  shows "outputs s s' []"
proof -
  let ?s = "upd_vcpu c leave_running (upd_vcpu c (\<lambda>v. hv_vcpu_save v f s) s)"
  obtain g t where sw: "switch_in n ?s = (g, t)" by fastforce
  have "\<not> hv_scheduler_verbose ?s" using assms(1) by (simp add: upd_vcpu_def)
  then have "t = s'" using assms(3) sw unfolding switch_to_eq [OF assms(2)] by (simp add: Let_def)
  then show ?thesis
    using outputs_silent [OF then_silent(1) [OF outputs_upd(1)] switch_in_outputs [OF sw]] by simp
qed

lemma enter_idle_outputs:
  assumes "\<not> hv_scheduler_verbose s" "cur_vcpu (scheduler s) = Some c" "hv_scheduler_enter_idle f s = Some (r, f', s')"
  shows "outputs s s' []"
proof (cases "c = 2")
  case True
  then have "s' = (let s = upd_vcpu HV_IDLE_VCPU_IDX (vcpu_state_update (\<lambda>_. HV_VCPU_RUNNING)) s;
               s = s\<lparr>scheduler := (scheduler s)\<lparr>cur_idx := of_nat HV_IDLE_VCPU_IDX\<rparr>\<rparr>;
               s = hv_scheduler_sync_traps (of_nat HV_IDLE_VCPU_IDX) s;
               s = hv_mmu_activate_vcpu (sch_vm (scheduler s)) (Some (vcpu_at HV_IDLE_VCPU_IDX s)) s
      in hv_virq_sync (Some (vcpu_at HV_IDLE_VCPU_IDX s)) s)"
    using assms(2,3) unfolding hv_scheduler_enter_idle_def Let_def by simp
  then show ?thesis by (simp only: Let_def) (intro then_silent(1-5) outputs_refl)
next
  case False
  then show ?thesis using assms(3) switch_to_outputs [OF assms(1,2), where n = 2] by (simp add: hv_scheduler_enter_idle_def assms(2))
qed

lemma yield_outputs:
  assumes "\<not> hv_scheduler_verbose s" "cur_vcpu (scheduler s) = Some c" "hv_scheduler_yield f s = Some (r, f', s')"
  shows "outputs s s' []"
proof -
  let ?s = "upd_vcpu c (vcpu_state_update (\<lambda>_. HV_VCPU_RUNNABLE)) s"
  have v: "\<not> hv_scheduler_verbose ?s" "cur_vcpu (scheduler ?s) = Some c" using assms(1,2) by (simp_all add: upd_vcpu_def)
  show ?thesis
  proof (cases "hv_scheduler_pick_next_idx ?s < 0 \<or> nat (hv_scheduler_pick_next_idx ?s) = c")
    case True
    then have "s' = upd_vcpu c (vcpu_state_update (\<lambda>_. HV_VCPU_RUNNING)) ?s"
      using assms(3) by (simp add: hv_scheduler_yield_def assms(2) Let_def)
    then show ?thesis by (simp only:) (intro then_silent(1) outputs_refl)
  next
    case False
    then have "hv_scheduler_switch_to f (int (nat (hv_scheduler_pick_next_idx ?s))) ?s = Some (r, f', s')"
      using assms(3) by (simp add: hv_scheduler_yield_def assms(2) Let_def)
    from outputs_silent [OF outputs_upd(1) switch_to_outputs [OF v this]] show ?thesis .
  qed
qed

lemma advance_outputs:
  assumes "\<not> hv_scheduler_verbose s" "cur_vcpu (scheduler s) = Some c" "hv_scheduler_advance f s = Some (r, f', s')"
  shows "outputs s s' []"
proof -
  let ?s = "upd_vcpu c leave_running s"
  have v: "\<not> hv_scheduler_verbose ?s" "cur_vcpu (scheduler ?s) = Some c" using assms(1,2) by (simp_all add: upd_vcpu_def)
  have "outputs ?s s' []"
  proof (cases "hv_scheduler_pick_next_idx ?s < 0")
    case True
    then show ?thesis using assms(3) enter_idle_outputs [OF v] by (simp add: hv_scheduler_advance_def assms(2) Let_def)
  next
    case False
    then have "hv_scheduler_switch_to f (int (nat (hv_scheduler_pick_next_idx ?s))) ?s = Some (r, f', s')"
      using assms(3) by (simp add: hv_scheduler_advance_def assms(2) Let_def)
    from switch_to_outputs [OF v this] show ?thesis .
  qed
  then show ?thesis by (rule outputs_silent [OF outputs_upd(1)])
qed

lemma wfi_outputs:
  assumes "\<not> hv_scheduler_verbose s" "cur_vcpu (scheduler s) = Some c" "hv_scheduler_handle_wfi f s = Some (r, f', s')"
  shows "outputs s s' []"
proof -
  let ?v = "(vcpu_at c s)\<lparr>vcpu_state := HV_VCPU_BLOCKED\<rparr>" and ?f = "hv_scheduler_advance_trapped_wfi f"
  have b: "\<not> hv_scheduler_verbose (upd_vcpu c (\<lambda>_. ?v) s)" "cur_vcpu (scheduler (upd_vcpu c (\<lambda>_. ?v) s)) = Some c"
    using assms(1,2) by (simp_all add: upd_vcpu_def)
  consider "hv_scheduler_enter_idle f s = Some (r, f', s')" | "s' = hv_virq_sync (Some (vcpu_at c s)) s"
    | "hv_scheduler_advance ?f (upd_vcpu c (\<lambda>_. ?v) s) = Some (r, f', s')"
    using assms(2,3) by (auto simp: hv_scheduler_handle_wfi_def hv_vcpu_block_def Let_def split: if_splits)
  then show ?thesis
  proof cases
    case 1
    then show ?thesis by (rule enter_idle_outputs [OF assms(1,2)])
  next
    case 2
    then show ?thesis by (simp add: outputs_ctrl)
  next
    case 3
    then show ?thesis by (rule outputs_silent [OF outputs_upd(1) advance_outputs [OF b]])
  qed
qed

subsection \<open>Hypercalls\<close>

lemma delay_outputs: "outputs s (delay_current t d s) []"
  by (cases "hv_vcpu_timer_delay (deref (Some (cur_of s)) s) (ucast t) (ucast d)")
     (simp_all add: delay_current_def Let_def then_silent outputs_refl)

lemma hypercall_outputs:
  assumes "guest_call f s" "\<not> hv_scheduler_verbose s" "hyp_handle_guest_hypercall f s = Some (r, f', s')"
    "reg f 0 \<noteq> HYPERCALL_EXIT"
  shows "outputs s s' (if reg f 0 = HYPERCALL_PUTCHAR then [ucast (reg f 1)] else [])"
proof (cases "known_hypercall (reg f 0)")
  case False
  moreover have "known_hypercall 5" by (simp add: known_hypercall_def)
  ultimately show ?thesis using unknown_hypercall [OF False, of s] assms(3) by (auto simp: outputs_refl)
next
  case known: True
  note G = guest_callD [OF assms(1)]
  note cv = sched_wfD(4) [OF G(2)]
  show ?thesis
  proof (cases rule: known_cases [OF known])
    case 4
    then show ?thesis using yield_outputs [OF assms(2) cv] assms(3) call_yield [OF 4, of s] by simp
  next
    case 5
    obtain t where "UART_Put8 (ucast (reg f 1)) s = Some t" "t = s'"
      using call_putchar [OF 5, of s] assms(3) by (cases "UART_Put8 (ucast (reg f 1)) s") auto
    then show ?thesis using 5 outputs_io [OF UART_Put8_io] by simp
  next
    case 7
    show ?thesis
      by (rule call_claim [OF assms(1) 7]) (use assms(3) 7 in \<open>auto intro!: then_silent(1,4) outputs_refl\<close>)
  next
    case 8
    show ?thesis
      by (rule call_complete [OF assms(1) 8]) (use assms(3) 8 in \<open>auto intro!: then_silent(1,4) outputs_refl\<close>)
  next
    case 9
    then obtain t s1 where "io_out s s1 []" "s1 = s'" using call_get_ticks [OF 9, of s] assms(3) by auto
    then show ?thesis using 9 by (auto intro: outputs_io)
  next
    case 10
    show ?thesis
    proof (cases "reg f 1 = 0")
      case True
      then show ?thesis using 10 call_constant(4) [OF assms(1) 10 True] assms(3) by (simp add: outputs_refl)
    next
      case False
      obtain t s1 where io: "io_out s s1 []" and e: "hyp_handle_guest_hypercall f s =
        hv_scheduler_advance (set_reg 0 HYPERCALL_SUCCESS f) (delay_current t (reg f 1) s1)"
        using call_delay [OF assms(1) 10 False] by metis
      note m = io_machine [OF io]
      have wf1: "sched_wf (scheduler s1)" and c1: "cur_of s1 = cur_of s" using G(2) m by simp_all
      note D = delay_current_spec [OF wf1, unfolded c1, OF G(3) False, where t = t]
      have "\<not> hv_scheduler_verbose (delay_current t (reg f 1) s1)" using D(9) m(2) assms(2) by (simp add: env_same_def)
      from advance_outputs [OF this sched_wfD(4) [OF D(2)]] assms(3) e
      have "outputs (delay_current t (reg f 1) s1) s' []" by simp
      then have "outputs s s' []" by (rule outputs_silent [OF outputs_silent [OF outputs_io [OF io] delay_outputs]])
      then show ?thesis using 10 by simp
    qed
  next
    case 11
    then show ?thesis using call_get_freq [OF assms(1) 11] assms(3)
      by (cases "hv_vcpu_timer_get_frequency (Some (vcpu_at (cur_of s) s))") (simp_all add: outputs_refl)
  qed (use assms(3,4) call_constant(1-3) in \<open>auto simp: outputs_refl\<close>)
qed

text \<open>Stopping a guest is silent.\<close>

lemma exit_current_silent: "outputs s (exit_current s) []"
proof -
  obtain w where w: "hv_vcpu_timer_disable (Some (vcpu_at (cur_of s) s)) = Some w" by (simp add: hv_vcpu_timer_disable_def)
  have "exit_current s = (let s = upd_vcpu (cur_of s) (\<lambda>_. w) s
      in hv_vtimer_rearm_physical (store (Some (cur_of s)) (set_vcpu_state HV_VCPU_EXITED (Some (vcpu_at (cur_of s) s))) s))"
    by (simp add: exit_current_def w Let_def)
  then show ?thesis by (simp add: Let_def store_def set_vcpu_state_def then_silent outputs_refl)
qed

lemma stop_outputs:
  assumes "\<not> hv_scheduler_verbose s" "sched_wf (scheduler s)" "cur_of s < 2"
    "hv_scheduler_advance f (exit_current s) = Some (r, f', s')"
  shows "outputs s s' []"
proof -
  note E = exit_current_spec [OF assms(2,3)]
  have "\<not> hv_scheduler_verbose (exit_current s)" using E(8) assms(1) by simp
  from advance_outputs [OF this sched_wfD(4) [OF E(2)] assms(4)] show ?thesis
    by (rule outputs_silent [OF exit_current_silent])
qed
text \<open>The hypervisor says that a guest exits, and with what status.\<close>

definition exit_text :: "string \<Rightarrow> u32 \<Rightarrow> string" where
  "exit_text el st = ''TRACE['' @ el @ '']:hyp_handle_guest_hypercall: guest exiting, status: '' @ signed_text st 0 @ nl"

lemma printk_outputs: "printk fmt args s = Some s' \<Longrightarrow> format fmt args = Some t \<Longrightarrow> io_out s s' (crlf t)"
  using putcs_uart_io by (auto simp: printk_io)

lemma trace_outputs:
  assumes "trace func fmt args s = Some s'" "format fmt args = Some t"
  shows "io_out s s' (crlf (''TRACE['' @ trace_current_el s @ '']:'' @ func @ '': '' @ t))"
proof -
  obtain s1 where p: "printk ''TRACE[%s]:%s: '' [PStr (Some (trace_current_el s)), PStr (Some func)] s = Some s1"
    and q: "printk fmt args s1 = Some s'"
    using assms(1) by (auto simp: trace_def split: bind_splits)
  have "format ''TRACE[%s]:%s: '' [PStr (Some (trace_current_el s)), PStr (Some func)] =
      Some (''TRACE['' @ trace_current_el s @ '']:'' @ func @ '': '')"
    by (simp add: format_simps string_text_def)
  from io_out_trans [OF printk_outputs [OF p this] printk_outputs [OF q assms(2)]] show ?thesis by (simp add: crlf_def)
qed

lemma format_exit: "format (''guest exiting, status: %d'' @ nl) [PInt st] = Some (''guest exiting, status: '' @ signed_text st 0 @ nl)"
  by (simp add: format_simps nl_def)

lemma exit_outputs:
  assumes "guest_call f s" "\<not> hv_scheduler_verbose s" "reg f 0 = HYPERCALL_EXIT"
    "hyp_handle_guest_hypercall f s = Some (r, f', s')"
  shows "outputs s s' (crlf (exit_text (trace_current_el s) (reg f 1)))"
proof -
  note G = guest_callD [OF assms(1)]
  obtain s1 where t: "trace ''hyp_handle_guest_hypercall'' (''guest exiting, status: %d'' @ nl) [PInt (reg f 1)] s = Some s1"
    and a: "hv_scheduler_advance f (exit_current s1) = Some (r, f', s')"
    using assms(4) unfolding call_exit [OF assms(1,3)] bind_eq_Some_conv by blast
  have io: "io_out s s1 (crlf (exit_text (trace_current_el s) (reg f 1)))"
    using trace_outputs [OF t format_exit] by (simp add: exit_text_def crlf_def)
  note m = io_machine [OF io]
  have "\<not> hv_scheduler_verbose s1" "sched_wf (scheduler s1)" "cur_of s1 < 2"
    using assms(2) G(2,3) m by (simp_all add: env_same_def)
  from outputs_then_silent [OF outputs_io [OF io] stop_outputs [OF this a]] show ?thesis .
qed

end
