(* ===== verification/Guest_Lib.thy ===== *)
theory Guest_Lib
  imports Hypercall Process
begin

section \<open>The guest side: guest\_hypercall.h, guests/lib/printk.c, guest-vectors.S\<close>

text \<open>
  A guest program sees a processor: hypercalls, accesses to memory that is not its own RAM, \<open>wfi\<close>, and
  the interrupt line. They are the fields of \<open>guest_cpu\<close>, over an arbitrary world \<open>'w\<close>, and an argument
  of every guest function. As for a Unix process, a computation returns a value and the next world,
  or (\<open>Inl\<close>) is over, with the exit status passed to the hypervisor or \<open>-1\<close> for a guest that was stopped,
  or does not come back (\<open>None\<close>).
\<close>

record 'w guest_cpu =
  cpu_hvc :: "u32 list \<Rightarrow> 'w \<Rightarrow> (u32, 'w) outcome"
  cpu_load :: "u32 \<Rightarrow> 'w \<Rightarrow> (u32, 'w) outcome"
  cpu_store :: "u32 \<Rightarrow> u32 \<Rightarrow> 'w \<Rightarrow> (unit, 'w) outcome"
  cpu_wfi :: "'w \<Rightarrow> (unit, 'w) outcome"
  cpu_virq :: "'w \<Rightarrow> (bool, 'w) outcome"

subsection \<open>guest\_hypercall.h\<close>

text \<open>\<open>hvc\<close> with \<open>r0\<close> and the following registers as listed; the result is \<open>r0\<close>.\<close>

definition guest_hypercall0 :: "'w guest_cpu \<Rightarrow> u32 \<Rightarrow> 'w \<Rightarrow> (u32, 'w) outcome" where
  "guest_hypercall0 m call = cpu_hvc m [call]"

definition guest_hypercall1 :: "'w guest_cpu \<Rightarrow> u32 \<Rightarrow> u32 \<Rightarrow> 'w \<Rightarrow> (u32, 'w) outcome" where
  "guest_hypercall1 m call arg0 = cpu_hvc m [call, arg0]"

definition guest_get_features :: "'w guest_cpu \<Rightarrow> 'w \<Rightarrow> (u32, 'w) outcome" where
  "guest_get_features m = guest_hypercall0 m HYPERCALL_GET_FEATURES"

definition guest_get_abi_version :: "'w guest_cpu \<Rightarrow> 'w \<Rightarrow> (u32, 'w) outcome" where
  "guest_get_abi_version m = guest_hypercall0 m HYPERCALL_GET_ABI_VERSION"

definition guest_get_hyp_irq_count :: "'w guest_cpu \<Rightarrow> 'w \<Rightarrow> (u32, 'w) outcome" where
  "guest_get_hyp_irq_count m = guest_hypercall0 m HYPERCALL_GET_HYP_IRQ_COUNT"

text \<open>If the call comes back, \<open>guest_exit\<close> loops for ever.\<close>

definition guest_exit :: "'w guest_cpu \<Rightarrow> u32 \<Rightarrow> 'w \<Rightarrow> ('a, 'w) outcome" where
  "guest_exit m status = andthen (guest_hypercall1 m HYPERCALL_EXIT status) (\<lambda>_ _. None)"

definition guest_yield :: "'w guest_cpu \<Rightarrow> 'w \<Rightarrow> (unit, 'w) outcome" where
  "guest_yield m = andthen (guest_hypercall0 m HYPERCALL_YIELD) (\<lambda>_. ret ())"

definition guest_putchar :: "'w guest_cpu \<Rightarrow> u8 \<Rightarrow> 'w \<Rightarrow> (unit, 'w) outcome" where
  "guest_putchar m c = andthen (guest_hypercall1 m HYPERCALL_PUTCHAR (ucast c)) (\<lambda>_. ret ())"

primrec guest_puts :: "'w guest_cpu \<Rightarrow> string \<Rightarrow> 'w \<Rightarrow> (unit, 'w) outcome" where
  "guest_puts m [] = ret ()"
| "guest_puts m (c # s) = andthen (guest_putchar m (of_char c)) (\<lambda>_. guest_puts m s)"

definition guest_virq_claim :: "'w guest_cpu \<Rightarrow> 'w \<Rightarrow> (int, 'w) outcome" where
  "guest_virq_claim m = andthen (guest_hypercall0 m HYPERCALL_VIRQ_CLAIM) (\<lambda>x. ret (sint x))"

definition guest_virq_complete :: "'w guest_cpu \<Rightarrow> int \<Rightarrow> 'w \<Rightarrow> (int, 'w) outcome" where
  "guest_virq_complete m virq =
     andthen (guest_hypercall1 m HYPERCALL_VIRQ_COMPLETE (of_int virq)) (\<lambda>x. ret (sint x))"

definition guest_timer_get_ticks :: "'w guest_cpu \<Rightarrow> 'w \<Rightarrow> (u32, 'w) outcome" where
  "guest_timer_get_ticks m = guest_hypercall0 m HYPERCALL_TIMER_GET_TICKS"

definition guest_timer_get_frequency :: "'w guest_cpu \<Rightarrow> 'w \<Rightarrow> (u32, 'w) outcome" where
  "guest_timer_get_frequency m = guest_hypercall0 m HYPERCALL_TIMER_GET_FREQ"

definition guest_timer_delay_micros :: "'w guest_cpu \<Rightarrow> u32 \<Rightarrow> 'w \<Rightarrow> (int, 'w) outcome" where
  "guest_timer_delay_micros m us =
     andthen (guest_hypercall1 m HYPERCALL_TIMER_DELAY_TICKS us) (\<lambda>x. ret (sint x))"

definition guest_timer_delay_millis :: "'w guest_cpu \<Rightarrow> u32 \<Rightarrow> 'w \<Rightarrow> (int, 'w) outcome" where
  "guest_timer_delay_millis m ms =
     (if ms > 0xFFFFFFFF div 1000 then ret (sint HYPERCALL_ERR_INVALID)
      else guest_timer_delay_micros m (ms * 1000))"

subsection \<open>lib/printk.c\<close>

definition guest_printk_putc :: "'w guest_cpu \<Rightarrow> char \<Rightarrow> 'w \<Rightarrow> (unit, 'w) outcome" where
  "guest_printk_putc m c =
     andthen (if c = CHR 0x0A then guest_putchar m 0x0D else ret ()) (\<lambda>_. guest_putchar m (of_char c))"

text \<open>\<open>vprintk_with_putc\<close> runs on a world, or, once a call has ended the guest, on that end.\<close>

definition while_running :: "('w \<Rightarrow> (unit, 'w) outcome) \<Rightarrow> (int \<times> 'w) + 'w \<Rightarrow> ((int \<times> 'w) + 'w) option" where
  "while_running f r = (case r of Inl e \<Rightarrow> Some (Inl e) | Inr w \<Rightarrow> map_option (map_sum id snd) (f w))"

definition guest_vprintk :: "'w guest_cpu \<Rightarrow> string \<Rightarrow> printk_arg list \<Rightarrow> 'w \<Rightarrow> (unit, 'w) outcome" where
  "guest_vprintk m fmt args w =
     map_option (map_sum id (Pair ())) (vprintk_with_putc (\<lambda>c. while_running (guest_printk_putc m c)) fmt args (Inr w))"

definition guest_printk :: "'w guest_cpu \<Rightarrow> string \<Rightarrow> printk_arg list \<Rightarrow> 'w \<Rightarrow> (unit, 'w) outcome" where
  "guest_printk m fmt args = guest_vprintk m fmt args"

subsection \<open>Interrupts\<close>

text \<open>
  The programs that take virtual interrupts keep a counter in memory; their world is the counter and the
  world of the processor. The interrupt entry of \<open>guest-vectors.S\<close> saves and restores every register
  around the handler. With the \<open>I\<close> bit set (\<open>masked\<close>) the line is not looked at; with it cleared
  (\<open>interruptible\<close>) the handler may run before any operation.
\<close>

definition in_memory :: "('w \<Rightarrow> ('a, 'w) outcome) \<Rightarrow> u32 \<times> 'w \<Rightarrow> ('a, u32 \<times> 'w) outcome" where
  "in_memory f = (\<lambda>(n, w). map_option (map_sum (apsnd (Pair n)) (apsnd (Pair n))) (f w))"

definition masked :: "'w guest_cpu \<Rightarrow> (u32 \<times> 'w) guest_cpu" where
  "masked m = \<lparr>cpu_hvc = (\<lambda>regs. in_memory (cpu_hvc m regs)), cpu_load = (\<lambda>a. in_memory (cpu_load m a)),
     cpu_store = (\<lambda>a v. in_memory (cpu_store m a v)), cpu_wfi = in_memory (cpu_wfi m),
     cpu_virq = in_memory (cpu_virq m)\<rparr>"

definition add_tick :: "int \<Rightarrow> u32 \<times> 'w \<Rightarrow> (unit, u32 \<times> 'w) outcome" where
  "add_tick virq = (\<lambda>(n, w). ret () (if virq = uint VIRQ_TIMER then n + 1 else n, w))"

partial_function (option) guest_irq_handler :: "'w guest_cpu \<Rightarrow> u32 \<times> 'w \<Rightarrow> (unit, u32 \<times> 'w) outcome" where
  "guest_irq_handler m u = andthen (guest_virq_claim (masked m)) (\<lambda>virq u.
     if virq \<ge> 0 then andthen (add_tick virq) (\<lambda>_. andthen (guest_virq_complete (masked m) virq)
       (\<lambda>_ u. guest_irq_handler m u)) u
     else ret () u) u"

definition guest_irq :: "'w guest_cpu \<Rightarrow> u32 \<times> 'w \<Rightarrow> (unit, u32 \<times> 'w) outcome" where
  "guest_irq m = andthen (in_memory (cpu_virq m)) (\<lambda>irq. if irq then guest_irq_handler m else ret ())"

definition interruptible :: "'w guest_cpu \<Rightarrow> (u32 \<times> 'w) guest_cpu" where
  "interruptible m =
     \<lparr>cpu_hvc = (\<lambda>regs. andthen (guest_irq m) (\<lambda>_. in_memory (cpu_hvc m regs))),
      cpu_load = (\<lambda>a. andthen (guest_irq m) (\<lambda>_. in_memory (cpu_load m a))),
      cpu_store = (\<lambda>a v. andthen (guest_irq m) (\<lambda>_. in_memory (cpu_store m a v))),
      cpu_wfi = andthen (guest_irq m) (\<lambda>_. in_memory (cpu_wfi m)),
      cpu_virq = in_memory (cpu_virq m)\<rparr>"

end
