(* ===== verification/Guest_Programs.thy ===== *)
theory Guest_Programs
  imports Guest_Lib
begin

section \<open>The guest programs: guests/*-main.c\<close>

text \<open>
  \<open>guest_main\<close> of each program, for an arbitrary processor \<open>m\<close>. \<open>GUEST_ID\<close>, which the Makefile sets, is a
  parameter. A test that fails ends in \<open>guest_exit\<close>, which does not come back.
\<close>

abbreviation (input) HYP_GUEST_EXIT_SUCCESS :: u32 where "HYP_GUEST_EXIT_SUCCESS \<equiv> 0"
abbreviation (input) HYP_GUEST_EXIT_FAILURE :: u32 where "HYP_GUEST_EXIT_FAILURE \<equiv> 1"
abbreviation (input) GUEST_STAGE2_GUARD_PAGE :: u32 where "GUEST_STAGE2_GUARD_PAGE \<equiv> 0x2f000"
abbreviation (input) GUEST_TIMER_TARGET_TICKS :: u32 where "GUEST_TIMER_TARGET_TICKS \<equiv> 100"

text \<open>\<open>if (bad) guest_exit(HYP_GUEST_EXIT_FAILURE);\<close>\<close>

definition fail_if :: "'w guest_cpu \<Rightarrow> bool \<Rightarrow> 'w \<Rightarrow> (unit, 'w) outcome" where
  "fail_if m bad = (if bad then guest_exit m HYP_GUEST_EXIT_FAILURE else ret ())"

subsection \<open>main.c\<close>

definition hello_main :: "'w guest_cpu \<Rightarrow> 'w \<Rightarrow> (unit, 'w) outcome" where
  "hello_main m =
     andthen (guest_printk m (''hello from guest'' @ nl) []) (\<lambda>_.
     andthen (guest_get_abi_version m) (\<lambda>version.
     andthen (fail_if m (version \<noteq> HYPERCALL_ABI_VERSION)) (\<lambda>_.
     andthen (guest_get_features m) (\<lambda>features.
     andthen (fail_if m (features AND HYP_FEATURE_BASE = 0)) (\<lambda>_.
     guest_exit m HYP_GUEST_EXIT_SUCCESS)))))"

subsection \<open>sched-main.c\<close>

primrec sched_rounds :: "nat \<Rightarrow> 'w guest_cpu \<Rightarrow> u32 \<Rightarrow> 'w \<Rightarrow> (unit, 'w) outcome" where
  "sched_rounds 0 m gid = ret ()"
| "sched_rounds (Suc k) m gid =
     andthen (guest_printk m (''guest %d: hello'' @ nl) [PInt gid]) (\<lambda>_.
     andthen (guest_yield m) (\<lambda>_. sched_rounds k m gid))"

definition sched_main :: "'w guest_cpu \<Rightarrow> u32 \<Rightarrow> 'w \<Rightarrow> (unit, 'w) outcome" where
  "sched_main m gid = andthen (sched_rounds 10 m gid) (\<lambda>_. guest_exit m HYP_GUEST_EXIT_SUCCESS)"

subsection \<open>stage2-fault-main.c\<close>

definition fault_main :: "'w guest_cpu \<Rightarrow> 'w \<Rightarrow> (unit, 'w) outcome" where
  "fault_main m =
     andthen (guest_printk m (''guest stage2 fault: hello from mapped RAM'' @ nl) []) (\<lambda>_.
     andthen (guest_get_abi_version m) (\<lambda>version.
     andthen (fail_if m (version \<noteq> HYPERCALL_ABI_VERSION)) (\<lambda>_.
     andthen (guest_printk m (''guest stage2 fault: touching guard page'' @ nl) []) (\<lambda>_.
     andthen (cpu_load m GUEST_STAGE2_GUARD_PAGE) (\<lambda>_.
     andthen (guest_printk m (''guest stage2 fault: unexpected guard access success'' @ nl) []) (\<lambda>_.
     guest_exit m HYP_GUEST_EXIT_FAILURE))))))"

subsection \<open>mmio-uart-main.c\<close>

definition mmio_write32 :: "'w guest_cpu \<Rightarrow> u32 \<Rightarrow> u32 \<Rightarrow> 'w \<Rightarrow> (unit, 'w) outcome" where
  "mmio_write32 m offset v = cpu_store m (ucast HV_GUEST_UART_BASE + offset) v"

definition mmio_read32 :: "'w guest_cpu \<Rightarrow> u32 \<Rightarrow> 'w \<Rightarrow> (u32, 'w) outcome" where
  "mmio_read32 m offset = cpu_load m (ucast HV_GUEST_UART_BASE + offset)"

partial_function (option) vuart_wait :: "'w guest_cpu \<Rightarrow> 'w \<Rightarrow> (unit, 'w) outcome" where
  "vuart_wait m w = andthen (mmio_read32 m HV_GUEST_AUX_MU_LSR_REG)
     (\<lambda>lsr w. if lsr AND 0x20 = 0 then vuart_wait m w else ret () w) w"

definition vuart_putc :: "'w guest_cpu \<Rightarrow> char \<Rightarrow> 'w \<Rightarrow> (unit, 'w) outcome" where
  "vuart_putc m c = andthen (vuart_wait m) (\<lambda>_. mmio_write32 m HV_GUEST_AUX_MU_IO_REG (of_char c))"

primrec vuart_puts :: "'w guest_cpu \<Rightarrow> string \<Rightarrow> 'w \<Rightarrow> (unit, 'w) outcome" where
  "vuart_puts m [] = ret ()"
| "vuart_puts m (c # s) =
     andthen (if c = CHR 0x0A then vuart_putc m (CHR 0x0D) else ret ()) (\<lambda>_.
     andthen (vuart_putc m c) (\<lambda>_. vuart_puts m s))"

partial_function (option) complete_pending_virqs :: "'w guest_cpu \<Rightarrow> 'w \<Rightarrow> (unit, 'w) outcome" where
  "complete_pending_virqs m w = andthen (guest_virq_claim m) (\<lambda>virq w.
     if virq \<ge> 0 then andthen (guest_virq_complete m virq) (\<lambda>_ w. complete_pending_virqs m w) w
     else ret () w) w"

primrec uart_rounds :: "nat \<Rightarrow> 'w guest_cpu \<Rightarrow> u32 \<Rightarrow> 'w \<Rightarrow> (unit, 'w) outcome" where
  "uart_rounds 0 m gid = ret ()"
| "uart_rounds (Suc k) m gid =
     andthen (vuart_puts m ''hello from guest '') (\<lambda>_.
     andthen (vuart_putc m (char_of (0x30 + unat gid))) (\<lambda>_.
     andthen (vuart_puts m nl) (\<lambda>_.
     andthen (guest_timer_delay_millis m 2000) (\<lambda>res.
     andthen (fail_if m (res \<noteq> sint HYPERCALL_SUCCESS)) (\<lambda>_.
     andthen (complete_pending_virqs m) (\<lambda>_. uart_rounds k m gid))))))"

definition mmio_uart_main :: "'w guest_cpu \<Rightarrow> u32 \<Rightarrow> 'w \<Rightarrow> (unit, 'w) outcome" where
  "mmio_uart_main m gid = (let scratch = 0xa5000000 OR gid in
     andthen (mmio_write32 m HV_GUEST_AUX_ENABLES 1) (\<lambda>_.
     andthen (mmio_write32 m HV_GUEST_AUX_MU_CNTL_REG 3) (\<lambda>_.
     andthen (mmio_write32 m HV_GUEST_AUX_MU_SCRATCH scratch) (\<lambda>_.
     andthen (mmio_read32 m HV_GUEST_AUX_MU_SCRATCH) (\<lambda>r.
     andthen (fail_if m (r \<noteq> scratch)) (\<lambda>_.
     andthen (uart_rounds 10 m gid) (\<lambda>_.
     guest_exit m HYP_GUEST_EXIT_SUCCESS)))))))"

subsection \<open>virq-main.c and timer-main.c\<close>

text \<open>The counter is a variable of the program; the busy loop reads it, interrupted now and then.\<close>

partial_function (option) spin_until :: "u32 \<Rightarrow> 'w guest_cpu \<Rightarrow> u32 \<times> 'w \<Rightarrow> (unit, u32 \<times> 'w) outcome" where
  "spin_until target m u =
     (if fst u < target then andthen (guest_irq m) (\<lambda>_ u. spin_until target m u) u else ret () u)"

definition virq_main :: "'w guest_cpu \<Rightarrow> u32 \<times> 'w \<Rightarrow> (unit, u32 \<times> 'w) outcome" where
  "virq_main m =
     andthen (guest_get_features (masked m)) (\<lambda>features.
     andthen (fail_if (masked m) (features AND HYP_FEATURE_VIRQ = 0)) (\<lambda>_.
     andthen (guest_printk (interruptible m) (''guest_main start'' @ nl) []) (\<lambda>_.
     andthen (spin_until 300 m) (\<lambda>_.
     andthen (guest_printk (interruptible m) (''second round of waiting'' @ nl) []) (\<lambda>_.
     andthen (spin_until 600 m) (\<lambda>_.
     guest_exit (interruptible m) HYP_GUEST_EXIT_SUCCESS))))))"

partial_function (option) wfi_until :: "u32 \<Rightarrow> 'w guest_cpu \<Rightarrow> u32 \<times> 'w \<Rightarrow> (unit, u32 \<times> 'w) outcome" where
  "wfi_until target m u =
     (if fst u < target then andthen (cpu_wfi (interruptible m)) (\<lambda>_ u. wfi_until target m u) u else ret () u)"

definition timer_main :: "'w guest_cpu \<Rightarrow> u32 \<Rightarrow> u32 \<times> 'w \<Rightarrow> (unit, u32 \<times> 'w) outcome" where
  "timer_main m gid =
     andthen (guest_get_features (masked m)) (\<lambda>features.
     andthen (fail_if (masked m) (features AND HYP_FEATURE_VIRQ = 0 \<or> features AND HYP_FEATURE_TIMER = 0)) (\<lambda>_.
     andthen (guest_timer_get_frequency (masked m)) (\<lambda>timer_hz.
     andthen (fail_if (masked m) (timer_hz = 0)) (\<lambda>_.
     andthen (guest_printk (interruptible m) (''guest %d: timer start'' @ nl) [PInt gid]) (\<lambda>_.
     andthen (guest_timer_get_ticks (interruptible m)) (\<lambda>start.
     andthen (guest_timer_delay_millis (interruptible m) 2000) (\<lambda>_.
     andthen (guest_timer_get_ticks (interruptible m)) (\<lambda>end0.
     andthen (guest_printk (interruptible m) (''guest %d: delay elapsed %d us'' @ nl) [PInt gid, PInt (end0 - start)]) (\<lambda>_.
     andthen (wfi_until GUEST_TIMER_TARGET_TICKS m) (\<lambda>_.
     andthen (guest_timer_get_ticks (interruptible m)) (\<lambda>end1 u.
     andthen (guest_printk (interruptible m) (''guest %d: timer done %d in %d us'' @ nl)
       [PInt gid, PInt (fst u), PInt (end1 - start)]) (\<lambda>_.
     guest_exit (interruptible m) HYP_GUEST_EXIT_SUCCESS) u)))))))))))"

end
