(* ===== verification/Guest_Contract.thy ===== *)
theory Guest_Contract
  imports Guest_Programs
begin

section \<open>What a guest relies on, and what the programs then do\<close>

text \<open>
  The contract between a guest and the hypervisor, as two locales: the hypercalls, and the emulated
  UART. \<open>ok\<close> is an invariant of the world, \<open>log\<close> the history of the guest's own operations. The
  contract says what comes back, not that anything does. The programs are proved once against it.
\<close>

text \<open>\<open>Gone\<close> is the end of the guest, with what the hypervisor prints about it.\<close>

datatype guest_event = Hvc "u32 list" u32 | Load u32 u32 | Store u32 u32 | Gone "u8 list"

definition abi_call :: "u32 list \<Rightarrow> bool" where
  "abi_call regs \<longleftrightarrow> regs \<in> {[HYPERCALL_GET_ABI_VERSION], [HYPERCALL_GET_FEATURES], [HYPERCALL_YIELD],
     [HYPERCALL_GET_HYP_IRQ_COUNT], [HYPERCALL_VIRQ_CLAIM], [HYPERCALL_TIMER_GET_TICKS], [HYPERCALL_TIMER_GET_FREQ]} \<or>
     (\<exists>a. regs \<in> {[HYPERCALL_PUTCHAR, a], [HYPERCALL_VIRQ_COMPLETE, a], [HYPERCALL_TIMER_DELAY_TICKS, a]})"

definition abi_answer :: "u32 list \<Rightarrow> u32 \<Rightarrow> bool" where
  "abi_answer regs x \<longleftrightarrow> (hd regs = HYPERCALL_GET_ABI_VERSION \<longrightarrow> x = HYPERCALL_ABI_VERSION) \<and>
     (hd regs = HYPERCALL_GET_FEATURES \<longrightarrow> x = 0xf) \<and>
     (hd regs = HYPERCALL_PUTCHAR \<or> hd regs = HYPERCALL_TIMER_DELAY_TICKS \<longrightarrow> x = HYPERCALL_SUCCESS) \<and>
     (hd regs = HYPERCALL_VIRQ_CLAIM \<longrightarrow> x = HYPERCALL_ERR_NO_PENDING \<or> unat x < 32)"

text \<open>The address of a register of the UART, and the registers the programs use.\<close>

definition uart_at :: "u32 \<Rightarrow> u32" where
  "uart_at offset = ucast HV_GUEST_UART_BASE + offset"

definition uart_loads :: "u32 set" where
  "uart_loads = {HV_GUEST_AUX_MU_LSR_REG, HV_GUEST_AUX_MU_SCRATCH}"

definition uart_stores :: "u32 set" where
  "uart_stores = {HV_GUEST_AUX_ENABLES, HV_GUEST_AUX_MU_CNTL_REG, HV_GUEST_AUX_MU_SCRATCH, HV_GUEST_AUX_MU_IO_REG}"

text \<open>The scratch register holds what was stored last; the transmitter is always ready.\<close>

fun last_scratch :: "guest_event list \<Rightarrow> u32 option \<Rightarrow> u32 option" where
  "last_scratch [] x = x"
| "last_scratch (Store a v # es) x = last_scratch es (if a = uart_at HV_GUEST_AUX_MU_SCRATCH then Some v else x)"
| "last_scratch (_ # es) x = last_scratch es x"

definition uart_answer :: "u32 \<Rightarrow> guest_event list \<Rightarrow> u32 \<Rightarrow> bool" where
  "uart_answer offset es x \<longleftrightarrow> (offset = HV_GUEST_AUX_MU_LSR_REG \<longrightarrow> x AND 0x20 \<noteq> 0) \<and>
     (offset = HV_GUEST_AUX_MU_SCRATCH \<longrightarrow> (\<forall>v. last_scratch es None = Some v \<longrightarrow> x = v))"

text \<open>The bytes a history puts on the serial line.\<close>

fun event_bytes :: "guest_event \<Rightarrow> u8 list" where
  "event_bytes (Hvc regs x) = (if hd regs = HYPERCALL_PUTCHAR then [ucast (regs ! 1)] else [])"
| "event_bytes (Store a v) = (if a = uart_at HV_GUEST_AUX_MU_IO_REG then [ucast v] else [])"
| "event_bytes (Load a x) = []"
| "event_bytes (Gone bs) = bs"

definition bytes :: "guest_event list \<Rightarrow> u8 list" where
  "bytes es = concat (map event_bytes es)"

lemma bytes_simps [simp]: "bytes [] = []" "bytes (e # es) = event_bytes e @ bytes es" "bytes (es @ fs) = bytes es @ bytes fs"
  by (simp_all add: bytes_def)

text \<open>What an interrupt handler adds to the history: it claims and completes.\<close>

definition quiet_events :: "guest_event list \<Rightarrow> bool" where
  "quiet_events es \<longleftrightarrow> (\<forall>e \<in> set es. \<exists>regs x. e = Hvc regs x \<and> hd regs \<in> {HYPERCALL_VIRQ_CLAIM, HYPERCALL_VIRQ_COMPLETE})"

lemma quiet_events_simps [simp]:
  "quiet_events []" "quiet_events (es @ fs) \<longleftrightarrow> quiet_events es \<and> quiet_events fs"
  "quiet_events (Hvc regs x # es) \<longleftrightarrow> hd regs \<in> {HYPERCALL_VIRQ_CLAIM, HYPERCALL_VIRQ_COMPLETE} \<and> quiet_events es"
  by (auto simp: quiet_events_def)

lemma quiet_bytes [simp]: "quiet_events es \<Longrightarrow> bytes es = []"
  by (induction es) (auto simp: quiet_events_def)

text \<open>The end of a guest: silence, then what is printed about it.\<close>

definition leaves :: "u8 list \<Rightarrow> guest_event list \<Rightarrow> bool" where
  "leaves bs es \<longleftrightarrow> (\<exists>qs. es = qs @ [Gone bs] \<and> quiet_events qs)"

lemma leaves_bytes: "leaves bs es \<Longrightarrow> bytes es = bs"
  by (auto simp: leaves_def)

lemma quiet_leaves: "quiet_events qs \<Longrightarrow> leaves bs es \<Longrightarrow> leaves bs (qs @ es)"
  unfolding leaves_def by (metis append_assoc quiet_events_simps(2))

lemma last_scratch_append: "last_scratch (es @ fs) x = last_scratch fs (last_scratch es x)"
  by (induction es x rule: last_scratch.induct) simp_all

locale guest_abi =
  fixes m :: "'w guest_cpu" and ok :: "'w \<Rightarrow> bool" and log :: "'w \<Rightarrow> guest_event list" and farewell :: "u32 \<Rightarrow> u8 list"
  assumes hvc: "ok w \<Longrightarrow> abi_call regs \<Longrightarrow> cpu_hvc m regs w = Some r \<Longrightarrow>
      \<exists>x v es. r = Inr (x, v) \<and> ok v \<and> log v = log w @ es @ [Hvc regs x] \<and> quiet_events es \<and> abi_answer regs x"
    and exit: "ok w \<Longrightarrow> cpu_hvc m [HYPERCALL_EXIT, st] w = Some r \<Longrightarrow>
      \<exists>v es. r = Inl (uint st, v) \<and> ok v \<and> log v = log w @ es @ [Gone (farewell st)] \<and> quiet_events es"
    and virq: "ok w \<Longrightarrow> cpu_virq m w = Some p \<Longrightarrow> \<exists>b v. p = Inr (b, v) \<and> ok v \<and> log v = log w"
    and wfi: "ok w \<Longrightarrow> cpu_wfi m w = Some q \<Longrightarrow>
      \<exists>v es. q = Inr ((), v) \<and> ok v \<and> log v = log w @ es \<and> quiet_events es"

locale guest_machine = guest_abi +
  assumes load: "ok w \<Longrightarrow> offset \<in> uart_loads \<Longrightarrow> cpu_load m (uart_at offset) w = Some r \<Longrightarrow>
      \<exists>x v. r = Inr (x, v) \<and> ok v \<and> log v = log w @ [Load (uart_at offset) x] \<and> uart_answer offset (log w) x"
    and store: "ok w \<Longrightarrow> offset \<in> uart_stores \<Longrightarrow> cpu_store m (uart_at offset) x w = Some q \<Longrightarrow>
      \<exists>v. q = Inr ((), v) \<and> ok v \<and> log v = log w @ [Store (uart_at offset) x]"
    and guard: "ok w \<Longrightarrow> cpu_load m GUEST_STAGE2_GUARD_PAGE w = Some r \<Longrightarrow> 
      \<exists>v. r = Inl (- 1, v) \<and> ok v \<and> log v = log w @ [Gone []]"

subsection \<open>Rules\<close>

text \<open>\<open>f\<close> returns, with a value and new history as \<open>Q\<close> says; \<open>f\<close> ends with the status and new history.\<close>

definition does :: "('w \<Rightarrow> bool) \<Rightarrow> ('w \<Rightarrow> 'e list) \<Rightarrow> ('w \<Rightarrow> ('a, 'w) outcome) \<Rightarrow> ('a \<Rightarrow> 'e list \<Rightarrow> bool) \<Rightarrow> bool" where
  "does ok log f Q \<longleftrightarrow> (\<forall>w r. ok w \<longrightarrow> f w = Some r \<longrightarrow> (\<exists>a v es. r = Inr (a, v) \<and> ok v \<and> log v = log w @ es \<and> Q a es))"

definition ends :: "('w \<Rightarrow> bool) \<Rightarrow> ('w \<Rightarrow> 'e list) \<Rightarrow> ('w \<Rightarrow> ('a, 'w) outcome) \<Rightarrow> int \<Rightarrow> ('e list \<Rightarrow> bool) \<Rightarrow> bool" where
  "ends ok log f c Q \<longleftrightarrow> (\<forall>w r. ok w \<longrightarrow> f w = Some r \<longrightarrow> (\<exists>v es. r = Inl (c, v) \<and> ok v \<and> log v = log w @ es \<and> Q es))"

lemma doesD: "does ok log f Q \<Longrightarrow> ok w \<Longrightarrow> f w = Some r \<Longrightarrow> \<exists>a v es. r = Inr (a, v) \<and> ok v \<and> log v = log w @ es \<and> Q a es"
  by (simp add: does_def)

text \<open>A step done, the rest to do.\<close>

lemma does_then:
  assumes "andthen f g w = Some r" "does ok log f P" "ok w"
  obtains a v es where "ok v" "log v = log w @ es" "P a es" "g a v = Some r"
  using assms(1)
proof (cases rule: andthen_cases)
  case (exits c v)
  then show ?thesis using doesD [OF assms(2,3)] by blast
next
  case (goes_on a v)
  then show ?thesis using doesD [OF assms(2,3) goes_on(1)] that by auto
qed

lemma does_ret: "Q a [] \<Longrightarrow> does ok log (ret a) Q"
  by (auto simp: does_def ret_def)

lemma does_mono: "does ok log f Q \<Longrightarrow> (\<And>a es. Q a es \<Longrightarrow> R a es) \<Longrightarrow> does ok log f R"
  unfolding does_def by blast

lemma does_andthen:
  assumes "does ok log f P" "\<And>a es. P a es \<Longrightarrow> does ok log (g a) (\<lambda>b fs. Q b (es @ fs))"
  shows "does ok log (andthen f g) Q"
  unfolding does_def
proof (intro allI impI)
  fix w r
  assume w: "ok w" and r: "andthen f g w = Some r"
  from r show "\<exists>a v es. r = Inr (a, v) \<and> ok v \<and> log v = log w @ es \<and> Q a es"
  proof (cases rule: andthen_cases)
    case (exits c v)
    then show ?thesis using doesD [OF assms(1) w] by blast
  next
    case (goes_on a v)
    obtain es where es: "ok v" "log v = log w @ es" "P a es" using doesD [OF assms(1) w goes_on(1)] by auto
    from doesD [OF assms(2) [OF es(3)] es(1) goes_on(2)] es(2) show ?thesis by auto
  qed
qed

lemma ends_andthen:
  assumes "does ok log f P" "\<And>a es. P a es \<Longrightarrow> ends ok log (g a) c (\<lambda>fs. Q (es @ fs))"
  shows "ends ok log (andthen f g) c Q"
  unfolding ends_def
proof (intro allI impI)
  fix w r
  assume w: "ok w" and r: "andthen f g w = Some r"
  from r show "\<exists>v es. r = Inl (c, v) \<and> ok v \<and> log v = log w @ es \<and> Q es"
  proof (cases rule: andthen_cases)
    case (exits d v)
    then show ?thesis using doesD [OF assms(1) w] by blast
  next
    case (goes_on a v)
    obtain es where es: "ok v" "log v = log w @ es" "P a es" using doesD [OF assms(1) w goes_on(1)] by auto
    then obtain u fs where "r = Inl (c, u)" "ok u" "log u = log v @ fs" "Q (es @ fs)"
      using assms(2) [OF es(3)] goes_on(2) unfolding ends_def by blast
    with es(2) show ?thesis by auto
  qed
qed

lemma ends_first:
  assumes "ends ok log f c Q"
  shows "ends ok log (andthen f g) c Q"
  unfolding ends_def
proof (intro allI impI)
  fix w r
  assume w: "ok w" and r: "andthen f g w = Some r"
  from r show "\<exists>v es. r = Inl (c, v) \<and> ok v \<and> log v = log w @ es \<and> Q es"
    using assms w unfolding ends_def by (cases rule: andthen_cases) blast+
qed

definition prints :: "('w \<Rightarrow> bool) \<Rightarrow> ('w \<Rightarrow> guest_event list) \<Rightarrow> ('w \<Rightarrow> ('a, 'w) outcome) \<Rightarrow> u8 list \<Rightarrow> bool" where
  "prints ok log f bs \<longleftrightarrow> does ok log f (\<lambda>_ es. bytes es = bs)"

lemma prints_andthen: "prints ok log f bs \<Longrightarrow> (\<And>a. prints ok log (g a) cs) \<Longrightarrow> prints ok log (andthen f g) (bs @ cs)"
  unfolding prints_def by (erule does_andthen) (auto elim!: does_mono)

lemma prints_ret: "prints ok log (ret a) []"
  by (simp add: prints_def does_ret)

lemma while_running_Inr: "while_running f (Inr w) = map_option (map_sum id snd) (f w)"
  by (simp add: while_running_def)

text \<open>The guest library on a machine that keeps the contract.\<close>

context guest_abi
begin

lemma does_hvc: "abi_call regs \<Longrightarrow>
    does ok log (cpu_hvc m regs) (\<lambda>x es. \<exists>qs. es = qs @ [Hvc regs x] \<and> quiet_events qs \<and> abi_answer regs x)"
  unfolding does_def
proof (intro allI impI)
  fix w r
  assume "abi_call regs" "ok w" "cpu_hvc m regs w = Some r"
  then obtain x v es where "r = Inr (x, v)" "ok v" "log v = log w @ es @ [Hvc regs x]" "quiet_events es" "abi_answer regs x"
    using hvc by blast
  then show "\<exists>x v es. r = Inr (x, v) \<and> ok v \<and> log v = log w @ es \<and>
      (\<exists>qs. es = qs @ [Hvc regs x] \<and> quiet_events qs \<and> abi_answer regs x)"
    by (intro exI [of _ x] exI [of _ v] exI [of _ "es @ [Hvc regs x]"]) auto
qed

lemma does_exit: "ends ok log (cpu_hvc m [HYPERCALL_EXIT, st]) (uint st) (leaves (farewell st))"
  unfolding ends_def leaves_def using exit by metis

lemma ends_exit: "ends ok log (guest_exit m st) (uint st) (leaves (farewell st))"
  unfolding guest_exit_def guest_hypercall1_def by (rule ends_first [OF does_exit])

lemma does_pass: "\<not> bad \<Longrightarrow> does ok log (fail_if m bad) (\<lambda>_ es. es = [])"
  by (simp add: fail_if_def does_ret)

subsection \<open>Printing\<close>

lemma byte_word [simp]: "ucast (ucast c :: u32) = c" for c :: u8
  by (rule bit_word_eqI) (simp add: bit_simps)

lemma newline_byte: "of_char (CHR 0x0A) = (0x0A :: u8)"
  by simp

lemma prints_putchar: "prints ok log (guest_putchar m c) [c]"
proof -
  have "does ok log (cpu_hvc m [HYPERCALL_PUTCHAR, ucast c]) (\<lambda>x es. \<exists>qs. es = qs @ [Hvc [HYPERCALL_PUTCHAR, ucast c] x] \<and>
      quiet_events qs \<and> abi_answer [HYPERCALL_PUTCHAR, ucast c] x)"
    by (rule does_hvc) (simp add: abi_call_def)
  then have "prints ok log (cpu_hvc m [HYPERCALL_PUTCHAR, ucast c]) [c]"
    unfolding prints_def by (rule does_mono) auto
  from prints_andthen [OF this prints_ret [of _ _ "()"]] show ?thesis
    by (simp add: guest_putchar_def guest_hypercall1_def)
qed

lemma prints_puts: "prints ok log (guest_puts m s) (map of_char s)"
proof (induction s)
  case (Cons c s)
  from prints_andthen [OF prints_putchar [of "of_char c"] Cons.IH] show ?case by simp
qed (simp add: prints_ret)

lemma prints_putc: "prints ok log (guest_printk_putc m c) (crlf [c])"
proof -
  have "prints ok log (if c = CHR 0x0A then guest_putchar m 0x0D else ret ()) (if c = CHR 0x0A then [0x0D] else [])"
    by (simp add: prints_putchar prints_ret)
  from prints_andthen [OF this prints_putchar [of "of_char c"]] show ?thesis
    using newline_byte by (simp add: guest_printk_putc_def crlf_def split: if_splits)
qed

lemma putcs_while_running:
  assumes "ok w" "putcs (\<lambda>c. while_running (guest_printk_putc m c)) t (Inr w) = Some r"
  shows "\<exists>v es. r = Inr v \<and> ok v \<and> log v = log w @ es \<and> bytes es = crlf t"
  using assms
proof (induction t arbitrary: w)
  case (Cons c t)
  then obtain q where q: "guest_printk_putc m c w = Some q"
    and t: "putcs (\<lambda>c. while_running (guest_printk_putc m c)) t (map_sum id snd q) = Some r"
    by (auto simp: while_running_Inr bind_eq_Some_conv)
  obtain v es where v: "q = Inr ((), v)" "ok v" "log v = log w @ es" "bytes es = crlf [c]"
    using doesD [OF prints_putc [unfolded prints_def] Cons.prems(1) q] by auto
  obtain u fs where "r = Inr u" "ok u" "log u = log v @ fs" "bytes fs = crlf t"
    using Cons.IH [OF v(2)] t v(1) by auto
  moreover have "crlf (c # t) = crlf [c] @ crlf t" by (simp add: crlf_def)
  ultimately show ?case using v(3,4) by auto
qed (fastforce simp: crlf_def)

text \<open>\<open>printk\<close> of a guest puts the formatted text on the line.\<close>

lemma prints_printk:
  assumes "format fmt args = Some t"
  shows "prints ok log (guest_printk m fmt args) (crlf t)"
  unfolding prints_def does_def
proof (intro allI impI)
  fix w r
  assume w: "ok w" and r: "guest_printk m fmt args w = Some r"
  then obtain q where "putcs (\<lambda>c. while_running (guest_printk_putc m c)) t (Inr w) = Some q" "r = map_sum id (Pair ()) q"
    using assms by (auto simp: guest_printk_def guest_vprintk_def vprintk_format)
  with putcs_while_running [OF w this(1)] show "\<exists>a v es. r = Inr (a, v) \<and> ok v \<and> log v = log w @ es \<and> bytes es = crlf t"
    by auto
qed

end

end
