(* ===== verification/Guest_Spec.thy ===== *)
theory Guest_Spec
  imports Guest_Contract
begin

section \<open>What the guest programs do\<close>

text \<open>
  Each \<open>guest_main\<close>, under the contract: how it ends, and what it has put on the serial line by then. The
  two programs that count interrupts are run on a processor that takes them between any two operations;
  that processor keeps the contract, too, so that the same lemmas of the library apply.
\<close>

text \<open>The texts.\<close>

definition sched_line :: "u32 \<Rightarrow> string" where
  "sched_line gid = ''guest '' @ signed_text gid 0 @ '': hello'' @ nl"

definition uart_line :: "u32 \<Rightarrow> u8 list" where
  "uart_line gid = crlf ''hello from guest '' @ [of_char (char_of (0x30 + unat gid) :: char)] @ [0x0D, 0x0A]"

lemma format_plain: "CHR ''%'' \<notin> set t \<Longrightarrow> format t [] = Some t"
  by (induction t) (auto simp: format_lit)

lemma format_sched_line: "format (''guest %d: hello'' @ nl) [PInt gid] = Some (sched_line gid)"
  by (simp add: format_simps sched_line_def nl_def)

context guest_abi
begin

lemma does_call:
  assumes "abi_call regs" "hd regs \<noteq> HYPERCALL_PUTCHAR"
  shows "does ok log (cpu_hvc m regs) (\<lambda>x es. bytes es = [] \<and> abi_answer regs x)"
  by (rule does_mono [OF does_hvc [OF assms(1)]]) (use assms(2) in auto)

lemma does_version: "does ok log (guest_get_abi_version m) (\<lambda>x es. bytes es = [] \<and> x = HYPERCALL_ABI_VERSION)"
  unfolding guest_get_abi_version_def guest_hypercall0_def
  by (rule does_mono [OF does_call]) (simp_all add: abi_call_def abi_answer_def)

lemma does_features: "does ok log (guest_get_features m) (\<lambda>x es. bytes es = [] \<and> x = 0xf)"
  unfolding guest_get_features_def guest_hypercall0_def
  by (rule does_mono [OF does_call]) (simp_all add: abi_call_def abi_answer_def)

lemma does_quiet_call:
  assumes "abi_call regs" "hd regs \<noteq> HYPERCALL_PUTCHAR"
  shows "does ok log (cpu_hvc m regs) (\<lambda>x es. bytes es = [])"
  by (rule does_mono [OF does_call [OF assms]]) simp

lemma prints_yield: "prints ok log (guest_yield m) []"
proof -
  have "prints ok log (cpu_hvc m [HYPERCALL_YIELD]) []"
    unfolding prints_def by (rule does_quiet_call) (simp_all add: abi_call_def)
  from prints_andthen [OF this prints_ret [of _ _ "()"]] show ?thesis
    by (simp add: guest_yield_def guest_hypercall0_def)
qed

lemma does_delay: "ms \<le> 0xFFFFFFFF div 1000 \<Longrightarrow>
    does ok log (guest_timer_delay_millis m ms) (\<lambda>x es. bytes es = [] \<and> x = sint HYPERCALL_SUCCESS)"
proof -
  assume ms: "ms \<le> 0xFFFFFFFF div 1000"
  have "does ok log (cpu_hvc m [HYPERCALL_TIMER_DELAY_TICKS, ms * 1000]) (\<lambda>x es. bytes es = [] \<and> x = HYPERCALL_SUCCESS)"
    by (rule does_mono [OF does_call]) (simp_all add: abi_call_def abi_answer_def)
  then have "does ok log (guest_timer_delay_micros m (ms * 1000)) (\<lambda>x es. bytes es = [] \<and> x = sint HYPERCALL_SUCCESS)"
    unfolding guest_timer_delay_micros_def guest_hypercall1_def by (rule does_andthen) (rule does_ret, simp)
  then show ?thesis using ms by (simp add: guest_timer_delay_millis_def flip: not_less)
qed

text \<open>Printing goes before what is printed at the end.\<close>

lemma ends_prints: "prints ok log f bs \<Longrightarrow> (\<And>a. ends ok log (g a) c (\<lambda>es. bytes es = cs)) \<Longrightarrow>
    ends ok log (andthen f g) c (\<lambda>es. bytes es = bs @ cs)"
  unfolding prints_def by (erule ends_andthen) simp

lemma ends_exit_bytes: "ends ok log (guest_exit m st) (uint st) (\<lambda>es. bytes es = farewell st)"
  using ends_exit [of st] unfolding ends_def by (meson leaves_bytes)

text \<open>\<open>f\<close> is silent and its result passes the test.\<close>

lemma ends_test:
  assumes "does ok log f (\<lambda>a es. bytes es = [] \<and> P a)" "\<And>a. P a \<Longrightarrow> ends ok log (g a) c (\<lambda>es. bytes es = cs)"
  shows "ends ok log (andthen f g) c (\<lambda>es. bytes es = cs)"
  using assms(1) by (rule ends_andthen) (use assms(2) in simp)

lemma ends_passed: "\<not> bad \<Longrightarrow> ends ok log (g ()) c Q \<Longrightarrow> ends ok log (andthen (fail_if m bad) g) c Q"
  by (simp add: fail_if_def andthen_def ends_def ret_def)

lemma hello_ends: "ends ok log (hello_main m) 0 (\<lambda>es. bytes es = crlf (''hello from guest'' @ nl) @ farewell 0)"
proof -
  have "format (''hello from guest'' @ nl) [] = Some (''hello from guest'' @ nl)" by (rule format_plain) (simp add: nl_def)
  note hello = prints_printk [OF this]
  have "ends ok log (andthen (guest_get_abi_version m) (\<lambda>version. andthen (fail_if m (version \<noteq> HYPERCALL_ABI_VERSION))
        (\<lambda>_. andthen (guest_get_features m) (\<lambda>features. andthen (fail_if m (features AND HYP_FEATURE_BASE = 0))
        (\<lambda>_. guest_exit m HYP_GUEST_EXIT_SUCCESS))))) 0 (\<lambda>es. bytes es = farewell 0)"
    by (intro ends_test [OF does_version] ends_passed ends_test [OF does_features]) (use ends_exit_bytes [of 0] in simp_all)
  from ends_prints [OF hello this] show ?thesis unfolding hello_main_def append_Nil2 .
qed

lemma sched_rounds_prints: "prints ok log (sched_rounds k m gid) (concat (replicate k (crlf (sched_line gid))))"
proof (induction k)
  case (Suc k)
  show ?case unfolding sched_rounds.simps replicate_Suc concat.simps
    by (rule prints_andthen [OF prints_printk [OF format_sched_line]])
       (use prints_andthen [OF prints_yield Suc.IH] in simp)
qed (simp add: prints_ret)

lemma sched_ends: "ends ok log (sched_main m gid) 0
    (\<lambda>es. bytes es = concat (replicate 10 (crlf (sched_line gid))) @ farewell 0)"
  using ends_prints [OF sched_rounds_prints, where cs = "farewell 0" and c = 0 and g = "\<lambda>_. guest_exit m HYP_GUEST_EXIT_SUCCESS"]
    ends_exit_bytes [of 0] by (simp add: sched_main_def)

end

subsection \<open>The programs that use memory\<close>

context guest_machine
begin

lemma ends_guard: "ends ok log (cpu_load m GUEST_STAGE2_GUARD_PAGE) (- 1) (\<lambda>es. bytes es = [])"
  unfolding ends_def
proof (intro allI impI)
  fix w r
  assume "ok w" "cpu_load m GUEST_STAGE2_GUARD_PAGE w = Some r"
  from guard [OF this] show "\<exists>v es. r = Inl (- 1, v) \<and> ok v \<and> log v = log w @ es \<and> bytes es = []" by auto
qed

lemma fault_ends:
  "ends ok log (fault_main m) (- 1) (\<lambda>es. bytes es =
     crlf (''guest stage2 fault: hello from mapped RAM'' @ nl) @ crlf (''guest stage2 fault: touching guard page'' @ nl))"
proof -
  have f: "format (''guest stage2 fault: hello from mapped RAM'' @ nl) [] = Some (''guest stage2 fault: hello from mapped RAM'' @ nl)"
    "format (''guest stage2 fault: touching guard page'' @ nl) [] = Some (''guest stage2 fault: touching guard page'' @ nl)"
    by (rule format_plain, simp add: nl_def)+
  have "ends ok log (andthen (cpu_load m GUEST_STAGE2_GUARD_PAGE) g) (- 1) (\<lambda>es. bytes es = [])" for g :: "u32 \<Rightarrow> 'a \<Rightarrow> (unit, 'a) outcome"
    by (rule ends_first [OF ends_guard])
  from ends_prints [OF prints_printk [OF f(2)] this] show ?thesis
    unfolding fault_main_def append_Nil2
    by (intro ends_prints [OF prints_printk [OF f(1)]] ends_test [OF does_version] ends_passed) simp_all
qed

lemma does_mmio_write:
  "offset \<in> uart_stores \<Longrightarrow> does ok log (mmio_write32 m offset v) (\<lambda>_ es. es = [Store (uart_at offset) v])"
  unfolding does_def mmio_write32_def uart_at_def [symmetric] using store by blast

lemma prints_wait: "prints ok log (vuart_wait m) []"
  unfolding prints_def does_def
proof (intro allI impI)
  fix w r
  assume w: "ok w" and r: "vuart_wait m w = Some r"
  have LSR: "HV_GUEST_AUX_MU_LSR_REG \<in> uart_loads" by (simp add: uart_loads_def)
  from r [unfolded vuart_wait.simps [of m w] mmio_read32_def uart_at_def [symmetric]] show
    "\<exists>a v es. r = Inr (a, v) \<and> ok v \<and> log v = log w @ es \<and> bytes es = []"
  proof (cases rule: andthen_cases)
    case (exits c v)
    then show ?thesis using load [OF w LSR exits(1)] by auto
  next
    case (goes_on x v)
    from load [OF w LSR goes_on(1)] have x: "ok v" "log v = log w @ [Load (uart_at HV_GUEST_AUX_MU_LSR_REG) x]" "x AND 0x20 \<noteq> 0"
      by (auto simp: uart_answer_def)
    then show ?thesis using goes_on(2) by (auto simp: ret_def)
  qed
qed

lemma prints_vuart_putc: "prints ok log (vuart_putc m c) [of_char c]"
proof -
  have "ucast (of_char c :: u32) = (of_char c :: u8)" by (cases c) (simp add: of_char_def)
  then have "prints ok log (mmio_write32 m HV_GUEST_AUX_MU_IO_REG (of_char c)) [of_char c]"
    unfolding prints_def by (intro does_mono [OF does_mmio_write]) (auto simp: uart_stores_def)
  from prints_andthen [OF prints_wait this] show ?thesis by (simp add: vuart_putc_def)
qed

lemma prints_vuart_puts: "prints ok log (vuart_puts m s) (crlf s)"
proof (induction s)
  case (Cons c s)
  have "prints ok log (if c = CHR 0x0A then vuart_putc m (CHR 0x0D) else ret ()) (if c = CHR 0x0A then [0x0D] else [])"
    using prints_vuart_putc [of "CHR 0x0D"] prints_ret [of ok log "()"] by simp
  from prints_andthen [OF this prints_andthen [OF prints_vuart_putc [of c] Cons.IH]] show ?case
    using newline_byte by (simp add: crlf_def split: if_splits)
qed (simp add: prints_ret crlf_def)

lemma does_claim: "does ok log (guest_virq_claim m) (\<lambda>x es. bytes es = [])"
  unfolding guest_virq_claim_def guest_hypercall0_def
  by (rule does_andthen [OF does_quiet_call]) (simp_all add: abi_call_def does_ret)

lemma does_complete: "does ok log (guest_virq_complete m n) (\<lambda>x es. bytes es = [])"
  unfolding guest_virq_complete_def guest_hypercall1_def
  by (rule does_andthen [OF does_quiet_call]) (simp_all add: abi_call_def does_ret)

lemma prints_virqs: "prints ok log (complete_pending_virqs m) []"
proof -
  have "m' = m \<longrightarrow> ok w \<longrightarrow> (\<exists>a v es. r = Inr (a, v) \<and> ok v \<and> log v = log w @ es \<and> bytes es = [])"
    if "complete_pending_virqs m' w = Some r" for m' w r
  proof (rule complete_pending_virqs.raw_induct [OF _ that], intro impI)
    fix f m' w r
    assume IH: "\<And>m' w r. f m' w = Some r \<Longrightarrow> m' = m \<longrightarrow> ok w \<longrightarrow>
        (\<exists>a v es. r = Inr (a, v) \<and> ok v \<and> log v = log w @ es \<and> bytes es = [])"
      and st: "andthen (guest_virq_claim m') (\<lambda>virq w. if virq \<ge> 0
        then andthen (guest_virq_complete m' virq) (\<lambda>_ w. f m' w) w else ret () w) w = Some r"
      and m': "m' = m" and w: "ok w"
    have loop: "prints ok log (f m) []"
      unfolding prints_def does_def using IH by blast
    have "prints ok log (\<lambda>w. if virq \<ge> 0 then andthen (guest_virq_complete m virq) (\<lambda>_ w. f m w) w else ret () w) []" for virq
      using prints_andthen [OF does_complete [folded prints_def] loop] by (cases "virq \<ge> 0") (simp_all add: prints_ret)
    from prints_andthen [OF does_claim [folded prints_def] this] have "prints ok log (andthen (guest_virq_claim m) (\<lambda>virq w. if virq \<ge> 0
        then andthen (guest_virq_complete m virq) (\<lambda>_ w. f m w) w else ret () w)) []" by simp
    from doesD [OF this [unfolded prints_def] w st [unfolded m']]
    show "\<exists>a v es. r = Inr (a, v) \<and> ok v \<and> log v = log w @ es \<and> bytes es = []" .
  qed
  then show ?thesis unfolding prints_def does_def by blast
qed

lemma does_pass_test:
  assumes "does ok log f (\<lambda>a es. bytes es = [] \<and> P a)" "\<And>a. P a \<Longrightarrow> prints ok log (g a) cs"
  shows "prints ok log (andthen f g) cs"
  using assms(1) unfolding prints_def by (rule does_andthen) (use assms(2) in \<open>simp add: prints_def\<close>)

lemma uart_rounds_prints: "prints ok log (uart_rounds k m gid) (concat (replicate k (uart_line gid)))"
proof (induction k)
  case (Suc k)
  have "prints ok log (andthen (complete_pending_virqs m) (\<lambda>_. uart_rounds k m gid)) (concat (replicate k (uart_line gid)))"
    using prints_andthen [OF prints_virqs Suc.IH] by simp
  then have "prints ok log (andthen (fail_if m (res \<noteq> sint HYPERCALL_SUCCESS)) (\<lambda>_. andthen (complete_pending_virqs m)
      (\<lambda>_. uart_rounds k m gid))) (concat (replicate k (uart_line gid)))" if "res = sint HYPERCALL_SUCCESS" for res
    using prints_andthen [OF prints_ret [of ok log "()"]] that by (simp add: fail_if_def)
  then have "prints ok log (andthen (guest_timer_delay_millis m 2000) (\<lambda>res. andthen (fail_if m (res \<noteq> sint HYPERCALL_SUCCESS))
      (\<lambda>_. andthen (complete_pending_virqs m) (\<lambda>_. uart_rounds k m gid)))) (concat (replicate k (uart_line gid)))"
    by (intro does_pass_test [OF does_delay]) simp_all
  note round = prints_andthen [OF prints_vuart_puts [of "''hello from guest ''"]
      prints_andthen [OF prints_vuart_putc [of "char_of (0x30 + unat gid)"] prints_andthen [OF prints_vuart_puts [of nl] this]]]
  have "crlf nl = [0x0D, 0x0A]" by (simp add: crlf_def nl_def)
  with round show ?case unfolding uart_rounds.simps replicate_Suc concat.simps uart_line_def by (simp only: append_assoc)
qed (simp add: prints_ret)

lemma uart_rest_ends:
  "ends ok log (andthen (uart_rounds 10 m gid) (\<lambda>_. guest_exit m HYP_GUEST_EXIT_SUCCESS)) 0
     (\<lambda>es. bytes es = concat (replicate 10 (uart_line gid)) @ farewell 0)"
  using ends_prints [OF uart_rounds_prints, where cs = "farewell 0" and c = 0 and g = "\<lambda>_. guest_exit m HYP_GUEST_EXIT_SUCCESS"]
    ends_exit_bytes [of 0] by simp

lemma uart_main_ends: "ends ok log (mmio_uart_main m gid) 0
    (\<lambda>es. bytes es = concat (replicate 10 (uart_line gid)) @ farewell 0)"
  unfolding ends_def
proof (intro allI impI)
  fix w r
  assume w: "ok w" and r: "mmio_uart_main m gid w = Some r"
  let ?x = "0xa5000000 OR gid" and ?at = "uart_at HV_GUEST_AUX_MU_SCRATCH"
  have S: "HV_GUEST_AUX_ENABLES \<in> uart_stores" "HV_GUEST_AUX_MU_CNTL_REG \<in> uart_stores" "HV_GUEST_AUX_MU_SCRATCH \<in> uart_stores"
    "HV_GUEST_AUX_MU_SCRATCH \<in> uart_loads"
    by (simp_all add: uart_stores_def uart_loads_def)
  obtain a where a: "ok a" "log a = log w @ [Store (uart_at HV_GUEST_AUX_ENABLES) 1]"
    "andthen (mmio_write32 m HV_GUEST_AUX_MU_CNTL_REG 3) (\<lambda>_. andthen (mmio_write32 m HV_GUEST_AUX_MU_SCRATCH ?x) (\<lambda>_.
     andthen (mmio_read32 m HV_GUEST_AUX_MU_SCRATCH) (\<lambda>r. andthen (fail_if m (r \<noteq> ?x)) (\<lambda>_.
     andthen (uart_rounds 10 m gid) (\<lambda>_. guest_exit m HYP_GUEST_EXIT_SUCCESS))))) a = Some r"
    using r [unfolded mmio_uart_main_def Let_def] does_mmio_write [OF S(1), of 1] w by (rule does_then) blast
  obtain b where b: "ok b" "log b = log a @ [Store (uart_at HV_GUEST_AUX_MU_CNTL_REG) 3]"
    "andthen (mmio_write32 m HV_GUEST_AUX_MU_SCRATCH ?x) (\<lambda>_.
     andthen (mmio_read32 m HV_GUEST_AUX_MU_SCRATCH) (\<lambda>r. andthen (fail_if m (r \<noteq> ?x)) (\<lambda>_.
     andthen (uart_rounds 10 m gid) (\<lambda>_. guest_exit m HYP_GUEST_EXIT_SUCCESS)))) b = Some r"
    using a(3) does_mmio_write [OF S(2), of 3] a(1) by (rule does_then) blast
  obtain c where c: "ok c" "log c = log b @ [Store ?at ?x]"
    "andthen (mmio_read32 m HV_GUEST_AUX_MU_SCRATCH) (\<lambda>r. andthen (fail_if m (r \<noteq> ?x)) (\<lambda>_.
     andthen (uart_rounds 10 m gid) (\<lambda>_. guest_exit m HYP_GUEST_EXIT_SUCCESS))) c = Some r"
    using b(3) does_mmio_write [OF S(3), of ?x] b(1) by (rule does_then) blast
  from c(3) [unfolded mmio_read32_def uart_at_def [symmetric]] obtain d where
    d: "ok d" "log d = log c @ [Load ?at ?x]" and e: "andthen (fail_if m (?x \<noteq> ?x)) (\<lambda>_.
     andthen (uart_rounds 10 m gid) (\<lambda>_. guest_exit m HYP_GUEST_EXIT_SUCCESS)) d = Some r"
  proof (cases rule: andthen_cases)
    case (goes_on y d)
    have "y = ?x" using load [OF c(1) S(4) goes_on(1)] unfolding c(2) by (auto simp: uart_answer_def last_scratch_append)
    then show ?thesis using load [OF c(1) S(4) goes_on(1)] goes_on(2) that by auto
  qed (use load [OF c(1) S(4)] in blast)
  have "andthen (uart_rounds 10 m gid) (\<lambda>_. guest_exit m HYP_GUEST_EXIT_SUCCESS) d = Some r"
    using e by (simp add: fail_if_def andthen_def [of "ret ()"] ret_def)
  then obtain v es where "r = Inl (0, v)" "ok v" "log v = log d @ es" "bytes es = concat (replicate 10 (uart_line gid)) @ farewell 0"
    using uart_rest_ends [of gid] d(1) unfolding ends_def by blast
  then show "\<exists>v es. r = Inl (0, v) \<and> ok v \<and> log v = log w @ es \<and> bytes es = concat (replicate 10 (uart_line gid)) @ farewell 0"
    using a(2) b(2) c(2) d(2) by (auto simp: uart_at_def)
qed

end

end
