(* ===== verification/Guest_Irq.thy ===== *)
theory Guest_Irq
  imports Guest_Spec
begin

section \<open>Guests that take interrupts\<close>

text \<open>
  The world of \<open>virq-main.c\<close> and \<open>timer-main.c\<close> is their counter and the world below. \<open>ticking\<close> is the
  invariant: the counter is a number of timer interrupts that have been claimed and completed since the
  history \<open>h\<close>. The processor that runs the handler before any operation keeps the contract \<open>guest_abi\<close>.
\<close>

definition claims :: "guest_event list \<Rightarrow> nat" where
  "claims es = length (filter (\<lambda>e. e = Hvc [HYPERCALL_VIRQ_CLAIM] VIRQ_TIMER) es)"

definition completions :: "guest_event list \<Rightarrow> nat" where
  "completions es = length (filter (\<lambda>e. \<exists>x. e = Hvc [HYPERCALL_VIRQ_COMPLETE, VIRQ_TIMER] x) es)"

lemma counts_append [simp]: "claims (es @ fs) = claims es + claims fs" "completions (es @ fs) = completions es + completions fs"
  by (simp_all add: claims_def completions_def)

definition ticking :: "('w \<Rightarrow> bool) \<Rightarrow> ('w \<Rightarrow> guest_event list) \<Rightarrow> guest_event list \<Rightarrow> u32 \<times> 'w \<Rightarrow> bool" where
  "ticking ok log h = (\<lambda>(n, w). ok w \<and> (\<exists>es k. log w = h @ es \<and> n = of_nat k \<and> k \<le> claims es \<and> k \<le> completions es))"

lemma ticking_start: "ok w \<Longrightarrow> ticking ok log (log w) (0, w)"
  by (auto simp: ticking_def intro: exI [of _ 0])

lemma ticking_later:
  "ticking ok log h (n, w) \<Longrightarrow> ok v \<Longrightarrow> log v = log w @ es \<Longrightarrow> ticking ok log h (n, v)"
  unfolding ticking_def by (auto, metis trans_le_add1)

lemma ticking_tick:
  assumes "ticking ok log h (n, w)" "ok v" "log v = log w @ es" "0 < claims es" "0 < completions es"
  shows "ticking ok log h (n + 1, v)"
proof -
  obtain fs k where k: "log w = h @ fs" "n = of_nat k" "k \<le> claims fs" "k \<le> completions fs"
    using assms(1) by (auto simp: ticking_def)
  then have "log v = h @ fs @ es" "n + 1 = of_nat (Suc k)" "Suc k \<le> claims (fs @ es)" "Suc k \<le> completions (fs @ es)"
    using assms(3-5) by simp_all
  with assms(2) show ?thesis unfolding ticking_def by blast
qed

lemma in_memory_Some: "in_memory f (n, w) = Some r \<longleftrightarrow> (\<exists>q. f w = Some q \<and> r = map_sum (apsnd (Pair n)) (apsnd (Pair n)) q)"
  by (auto simp: in_memory_def)

lemma does_in_memory:
  assumes "does ok log f Q"
  shows "does (ticking ok log h) (log \<circ> snd) (in_memory f) Q"
  unfolding does_def
proof (intro allI impI)
  fix u :: "u32 \<times> 'a" and r
  assume t: "ticking ok log h u" and r: "in_memory f u = Some r"
  obtain n w where u: "u = (n, w)" by (cases u)
  have "ok w" using t by (simp add: u ticking_def)
  from r [unfolded u in_memory_Some] obtain q where q: "f w = Some q" "r = map_sum (apsnd (Pair n)) (apsnd (Pair n)) q" by blast
  with doesD [OF assms \<open>ok w\<close> q(1)] obtain a v es where v: "q = Inr (a, v)" "ok v" "log v = log w @ es" "Q a es" by blast
  then show "\<exists>a v es. r = Inr (a, v) \<and> ticking ok log h v \<and> (log \<circ> snd) v = (log \<circ> snd) u @ es \<and> Q a es"
    using q(2) ticking_later [OF t [unfolded u] v(2,3)] by (auto simp: u)
qed

lemma ends_in_memory:
  assumes "ends ok log f c Q"
  shows "ends (ticking ok log h) (log \<circ> snd) (in_memory f) c Q"
  unfolding ends_def
proof (intro allI impI)
  fix u :: "u32 \<times> 'a" and r
  assume t: "ticking ok log h u" and r: "in_memory f u = Some r"
  obtain n w where u: "u = (n, w)" by (cases u)
  have "ok w" using t by (simp add: u ticking_def)
  from r [unfolded u in_memory_Some] obtain q where q: "f w = Some q" "r = map_sum (apsnd (Pair n)) (apsnd (Pair n)) q" by blast
  with assms \<open>ok w\<close> obtain v es where v: "q = Inl (c, v)" "ok v" "log v = log w @ es" "Q es"
    unfolding ends_def by blast
  then show "\<exists>v es. r = Inl (c, v) \<and> ticking ok log h v \<and> (log \<circ> snd) v = (log \<circ> snd) u @ es \<and> Q es"
    using q(2) ticking_later [OF t [unfolded u] v(2,3)] by (auto simp: u)
qed

lemma does_first: "does ok log f P \<Longrightarrow> (\<And>a. does ok log g Q) \<Longrightarrow>
    does ok log (andthen f (\<lambda>_. g)) (\<lambda>b es. \<exists>a fs gs. es = fs @ gs \<and> P a fs \<and> Q b gs)"
  by (erule does_andthen) (auto elim!: does_mono)

text \<open>A processor whose operations do what the contract asks keeps the contract.\<close>

lemma guest_abiI:
  assumes "\<And>regs. abi_call regs \<Longrightarrow>
      does ok log (cpu_hvc m regs) (\<lambda>x es. \<exists>qs. es = qs @ [Hvc regs x] \<and> quiet_events qs \<and> abi_answer regs x)"
    and "\<And>st. ends ok log (cpu_hvc m [HYPERCALL_EXIT, st]) (uint st) (leaves (farewell st))"
    and "does ok log (cpu_virq m) (\<lambda>_ es. es = [])" and "does ok log (cpu_wfi m) (\<lambda>_. quiet_events)"
  shows "guest_abi m ok log farewell"
proof
  fix w regs r
  assume "ok w" "abi_call regs" "cpu_hvc m regs w = Some r"
  from doesD [OF assms(1) [OF this(2)] this(1,3)]
  show "\<exists>x v es. r = Inr (x, v) \<and> ok v \<and> log v = log w @ es @ [Hvc regs x] \<and> quiet_events es \<and> abi_answer regs x"
    by auto
next
  fix w st r
  assume "ok w" "cpu_hvc m [HYPERCALL_EXIT, st] w = Some r"
  then show "\<exists>v es. r = Inl (uint st, v) \<and> ok v \<and> log v = log w @ es @ [Gone (farewell st)] \<and> quiet_events es"
    using assms(2) unfolding ends_def leaves_def by blast
next
  fix w p
  assume "ok w" "cpu_virq m w = Some p"
  from doesD [OF assms(3) this] show "\<exists>b v. p = Inr (b, v) \<and> ok v \<and> log v = log w" by auto
next
  fix w q
  assume "ok w" "cpu_wfi m w = Some q"
  from doesD [OF assms(4) this] show "\<exists>v es. q = Inr ((), v) \<and> ok v \<and> log v = log w @ es \<and> quiet_events es" by auto
qed

context guest_abi
begin

lemma does_virq: "does ok log (cpu_virq m) (\<lambda>_ es. es = [])"
  unfolding does_def using virq by fastforce

lemma does_wfi: "does ok log (cpu_wfi m) (\<lambda>_. quiet_events)"
  unfolding does_def using wfi by blast

lemma masked_abi: "guest_abi (masked m) (ticking ok log h) (log \<circ> snd) farewell"
  by (rule guest_abiI)
     (simp_all add: masked_def does_in_memory does_hvc does_virq does_wfi ends_in_memory does_exit)

text \<open>One round of the handler keeps the invariant, though the counter is a step behind in its middle.\<close>

lemma masked_call:
  assumes "ok w" "abi_call regs" "andthen (cpu_hvc (masked m) regs) (\<lambda>x. ret (g x)) (n, w) = Some r"
  obtains x v qs where "r = Inr (g x, (n, v))" "ok v" "log v = log w @ qs @ [Hvc regs x]" "quiet_events qs"
proof -
  have e: "cpu_hvc (masked m) regs = in_memory (cpu_hvc m regs)" by (simp add: masked_def)
  obtain q where q: "cpu_hvc m regs w = Some q"
    using assms(3) unfolding e by (cases "cpu_hvc m regs w") (simp_all add: andthen_def in_memory_def)
  from hvc [OF assms(1,2) q] obtain x v es where
    v: "q = Inr (x, v)" "ok v" "log v = log w @ es @ [Hvc regs x]" "quiet_events es" by blast
  then have "r = Inr (g x, (n, v))" using q assms(3) by (simp add: e andthen_def in_memory_def ret_def)
  with v show thesis by (intro that)
qed

lemma claim_step:
  assumes "ok w" "guest_virq_claim (masked m) (n, w) = Some r"
  obtains x v qs where "r = Inr (sint x, (n, v))" "ok v" "log v = log w @ qs @ [Hvc [HYPERCALL_VIRQ_CLAIM] x]" "quiet_events qs"
  using masked_call [OF assms(1) _ assms(2) [unfolded guest_virq_claim_def guest_hypercall0_def]]
  by (auto simp: abi_call_def)

lemma complete_step:
  assumes "ok w" "guest_virq_complete (masked m) virq (n, w) = Some r"
  obtains x v qs where "r = Inr (sint x, (n, v))" "ok v"
    "log v = log w @ qs @ [Hvc [HYPERCALL_VIRQ_COMPLETE, of_int virq] x]" "quiet_events qs"
  using masked_call [OF assms(1) _ assms(2) [unfolded guest_virq_complete_def guest_hypercall1_def]]
  by (auto simp: abi_call_def)

definition handled_irq :: "u32 \<times> 'w \<Rightarrow> guest_event list \<Rightarrow> (int \<times> u32 \<times> 'w) + (unit \<times> u32 \<times> 'w) \<Rightarrow> bool" where
  "handled_irq u h r \<longleftrightarrow> (\<exists>v es. r = Inr ((), v) \<and> ticking ok log h v \<and> log (snd v) = log (snd u) @ es \<and> quiet_events es)"

lemma irq_round:
  assumes t: "ticking ok log h (n, w)"
    and r: "andthen (guest_virq_claim (masked m)) (\<lambda>virq u. if virq \<ge> 0 then andthen (add_tick virq)
       (\<lambda>_. andthen (guest_virq_complete (masked m) virq) (\<lambda>_. f)) u else ret () u) (n, w) = Some r"
    and f: "\<And>u r. f u = Some r \<Longrightarrow> ticking ok log h u \<Longrightarrow> handled_irq u h r"
  shows "handled_irq (n, w) h r"
proof -
  have w: "ok w" using t by (simp add: ticking_def)
  from r obtain x v qs where v: "ok v" "log v = log w @ qs @ [Hvc [HYPERCALL_VIRQ_CLAIM] x]" "quiet_events qs"
    and b: "(if sint x \<ge> 0 then andthen (add_tick (sint x)) (\<lambda>_. andthen (guest_virq_complete (masked m) (sint x)) (\<lambda>_. f)) (n, v)
      else ret () (n, v)) = Some r"
    by (cases rule: andthen_cases) (auto elim!: claim_step [OF w])
  show ?thesis
  proof (cases "sint x \<ge> 0")
    case False
    then have "r = Inr ((), (n, v))" using b by (simp add: ret_def)
    then show ?thesis using ticking_later [OF t v(1,2)] v unfolding handled_irq_def by auto
  next
    case True
    let ?n = "if sint x = uint VIRQ_TIMER then n + 1 else n"
    have "andthen (guest_virq_complete (masked m) (sint x)) (\<lambda>_. f) (?n, v) = Some r"
    proof -
      have "add_tick (sint x) (n, v) = Some (Inr ((), (?n, v)))" by (simp add: add_tick_def ret_def)
      from andthen_run(1) [of "add_tick (sint x)" _ _ _ "\<lambda>_. andthen (guest_virq_complete (masked m) (sint x)) (\<lambda>_. f)", OF this]
      show ?thesis using b True by simp
    qed
    then obtain u qs' y where u: "ok u" "log u = log v @ qs' @ [Hvc [HYPERCALL_VIRQ_COMPLETE, x] y]" "quiet_events qs'"
      and fu: "f (?n, u) = Some r"
      by (cases rule: andthen_cases) (auto elim!: complete_step [OF v(1)])
    let ?es = "qs @ [Hvc [HYPERCALL_VIRQ_CLAIM] x] @ qs' @ [Hvc [HYPERCALL_VIRQ_COMPLETE, x] y]"
    have log: "log u = log w @ ?es" using v(2) u(2) by simp
    have "ticking ok log h (?n, u)"
    proof (cases "sint x = uint VIRQ_TIMER")
      case True
      moreover have "x = of_int (sint x)" by simp
      ultimately have "x = 0" by simp
      then have "0 < claims ?es" "0 < completions ?es" by (auto simp: claims_def completions_def)
      from ticking_tick [OF t u(1) log this] show ?thesis using True by simp
    qed (use ticking_later [OF t u(1) log] in simp)
    from f [OF fu this] obtain z fs where "r = Inr ((), z)" "ticking ok log h z" "log (snd z) = log u @ fs" "quiet_events fs"
      unfolding handled_irq_def by auto
    moreover have "quiet_events ?es" using v(3) u(3) by simp
    ultimately show ?thesis using log unfolding handled_irq_def by (intro exI [of _ z] exI [of _ "?es @ fs"]) simp
  qed
qed

lemma irq_handler_Some:
  assumes "guest_irq_handler m u = Some r" "ticking ok log h u"
  shows "handled_irq u h r"
proof -
  have "m' = m \<longrightarrow> ticking ok log h u \<longrightarrow> handled_irq u h r" if "guest_irq_handler m' u = Some r" for m' u r
  proof (rule guest_irq_handler.raw_induct [OF _ that], intro impI)
    fix f m' u r
    assume IH: "\<And>m' u r. f m' u = Some r \<Longrightarrow> m' = m \<longrightarrow> ticking ok log h u \<longrightarrow> handled_irq u h r"
      and st: "andthen (guest_virq_claim (masked m')) (\<lambda>virq u. if virq \<ge> 0 then andthen (add_tick virq)
        (\<lambda>_. andthen (guest_virq_complete (masked m') virq) (\<lambda>_ u. f m' u)) u else ret () u) u = Some r"
      and m': "m' = m" and t: "ticking ok log h u"
    obtain n w where u: "u = (n, w)" by (cases u)
    show "handled_irq u h r"
      unfolding u
    proof (rule irq_round [where h = h and n = n and w = w and r = r and f = "f m"])
      show "ticking ok log h (n, w)" using t by (simp only: u)
      show "andthen (guest_virq_claim (masked m)) (\<lambda>virq u. if virq \<ge> 0 then andthen (add_tick virq)
        (\<lambda>_. andthen (guest_virq_complete (masked m) virq) (\<lambda>_. f m)) u else ret () u) (n, w) = Some r"
        using st by (simp only: u m')
    qed (use IH in blast)
  qed
  then show ?thesis using assms by blast
qed

lemma does_irq_handler: "does (ticking ok log h) (log \<circ> snd) (guest_irq_handler m) (\<lambda>_. quiet_events)"
  unfolding does_def
proof (intro allI impI)
  fix u r
  assume "ticking ok log h u" "guest_irq_handler m u = Some r"
  then have "handled_irq u h r" by (intro irq_handler_Some)
  then show "\<exists>a v es. r = Inr (a, v) \<and> ticking ok log h v \<and> (log \<circ> snd) v = (log \<circ> snd) u @ es \<and> quiet_events es"
    unfolding handled_irq_def by auto
qed

lemma does_irq: "does (ticking ok log h) (log \<circ> snd) (guest_irq m) (\<lambda>_. quiet_events)"
  unfolding guest_irq_def
proof (rule does_andthen [OF does_in_memory [OF does_virq]])
  fix irq and es :: "guest_event list"
  assume "es = []"
  then show "does (ticking ok log h) (log \<circ> snd) (if irq then guest_irq_handler m else ret ()) (\<lambda>b fs. quiet_events (es @ fs))"
    using does_irq_handler by (simp add: does_ret)
qed

text \<open>An operation before which the handler may run.\<close>

lemma does_after_irq:
  assumes "does ok log f Q" "\<And>a qs es. quiet_events qs \<Longrightarrow> Q a es \<Longrightarrow> R a (qs @ es)"
  shows "does (ticking ok log h) (log \<circ> snd) (andthen (guest_irq m) (\<lambda>_. in_memory f)) R"
proof (rule does_andthen [OF does_irq])
  fix a and qs :: "guest_event list"
  assume q: "quiet_events qs"
  show "does (ticking ok log h) (log \<circ> snd) (in_memory f) (\<lambda>b es. R b (qs @ es))"
    by (rule does_mono [OF does_in_memory [OF assms(1)]]) (rule assms(2) [OF q])
qed

lemma ends_after_irq:
  assumes "ends ok log f c (leaves bs)"
  shows "ends (ticking ok log h) (log \<circ> snd) (andthen (guest_irq m) (\<lambda>_. in_memory f)) c (leaves bs)"
proof (rule ends_andthen [OF does_irq])
  fix a and es :: "guest_event list"
  assume "quiet_events es"
  then show "ends (ticking ok log h) (log \<circ> snd) (in_memory f) c (\<lambda>fs. leaves bs (es @ fs))"
    using ends_in_memory [OF assms, of h] quiet_leaves [OF \<open>quiet_events es\<close>] unfolding ends_def by blast
qed

lemma interruptible_abi: "guest_abi (interruptible m) (ticking ok log h) (log \<circ> snd) farewell"
proof (rule guest_abiI)
  fix regs
  assume "abi_call regs"
  have "does (ticking ok log h) (log \<circ> snd) (andthen (guest_irq m) (\<lambda>_. in_memory (cpu_hvc m regs)))
      (\<lambda>x es. \<exists>qs. es = qs @ [Hvc regs x] \<and> quiet_events qs \<and> abi_answer regs x)"
  proof (rule does_after_irq [OF does_hvc [OF \<open>abi_call regs\<close>]])
    fix x and qs es :: "guest_event list"
    assume "quiet_events qs" "\<exists>ps. es = ps @ [Hvc regs x] \<and> quiet_events ps \<and> abi_answer regs x"
    then obtain ps where "es = ps @ [Hvc regs x]" "quiet_events (qs @ ps)" "abi_answer regs x" by auto
    then show "\<exists>ps. qs @ es = ps @ [Hvc regs x] \<and> quiet_events ps \<and> abi_answer regs x"
      by (intro exI [of _ "qs @ ps"]) simp
  qed
  then show "does (ticking ok log h) (log \<circ> snd) (cpu_hvc (interruptible m) regs)
      (\<lambda>x es. \<exists>qs. es = qs @ [Hvc regs x] \<and> quiet_events qs \<and> abi_answer regs x)"
    by (simp add: interruptible_def)
next
  show "ends (ticking ok log h) (log \<circ> snd) (cpu_hvc (interruptible m) [HYPERCALL_EXIT, st]) (uint st) (leaves (farewell st))" for st
    using ends_after_irq [OF does_exit] by (simp add: interruptible_def)
  show "does (ticking ok log h) (log \<circ> snd) (cpu_virq (interruptible m)) (\<lambda>_ es. es = [])"
    using does_in_memory [OF does_virq] by (simp add: interruptible_def)
  show "does (ticking ok log h) (log \<circ> snd) (cpu_wfi (interruptible m)) (\<lambda>_. quiet_events)"
    using does_after_irq [OF does_wfi, of "\<lambda>_. quiet_events"] by (simp add: interruptible_def)
qed

text \<open>Waiting until the counter is there.\<close>

definition waited :: "u32 \<Rightarrow> u32 \<times> 'w \<Rightarrow> guest_event list \<Rightarrow> (int \<times> u32 \<times> 'w) + (unit \<times> u32 \<times> 'w) \<Rightarrow> bool" where
  "waited target u h r \<longleftrightarrow> (\<exists>v es. r = Inr ((), v) \<and> ticking ok log h v \<and> log (snd v) = log (snd u) @ es \<and>
     quiet_events es \<and> \<not> fst v < target)"

lemma wait_round:
  assumes "(if fst u < target then andthen g (\<lambda>_. f) u else ret () u) = Some r" "ticking ok log h u"
    and "does (ticking ok log h) (log \<circ> snd) g (\<lambda>_. quiet_events)"
    and f: "\<And>u r. f u = Some r \<Longrightarrow> ticking ok log h u \<Longrightarrow> waited target u h r"
  shows "waited target u h r"
proof (cases "fst u < target")
  case True
  then have "andthen g (\<lambda>_. f) u = Some r" using assms(1) by simp
  from this assms(3,2) obtain a v es where v: "ticking ok log h v" "log (snd v) = log (snd u) @ es" "quiet_events es" "f v = Some r"
    by (rule does_then) auto
  from f [OF v(4,1)] v(2,3) show ?thesis unfolding waited_def by auto
next
  case False
  then have "r = Inr ((), u)" using assms(1) by (simp add: ret_def)
  then show ?thesis unfolding waited_def using assms(2) False by (intro exI [of _ u] exI [of _ "[]"]) simp
qed

lemma spin_Some:
  assumes "spin_until target m u = Some r" "ticking ok log h u"
  shows "waited target u h r"
proof -
  have "t = target \<longrightarrow> m' = m \<longrightarrow> ticking ok log h u \<longrightarrow> waited target u h r" if "spin_until t m' u = Some r" for t m' u r
  proof (rule spin_until.raw_induct [OF _ that], intro impI)
    fix f t m' u r
    assume IH: "\<And>t m' u r. f t m' u = Some r \<Longrightarrow> t = target \<longrightarrow> m' = m \<longrightarrow> ticking ok log h u \<longrightarrow> waited target u h r"
      and st: "(if fst u < t then andthen (guest_irq m') (\<lambda>_ u. f t m' u) u else ret () u) = Some r"
      and eq: "t = target" "m' = m" and tk: "ticking ok log h u"
    from st [unfolded eq] tk does_irq show "waited target u h r" by (rule wait_round) (use IH in blast)
  qed
  then show ?thesis using assms by blast
qed

lemma wfi_Some:
  assumes "wfi_until target m u = Some r" "ticking ok log h u"
  shows "waited target u h r"
proof -
  have wfi: "does (ticking ok log h) (log \<circ> snd) (cpu_wfi (interruptible m)) (\<lambda>_. quiet_events)"
    by (rule guest_abi.does_wfi [OF interruptible_abi])
  have "t = target \<longrightarrow> m' = m \<longrightarrow> ticking ok log h u \<longrightarrow> waited target u h r" if "wfi_until t m' u = Some r" for t m' u r
  proof (rule wfi_until.raw_induct [OF _ that], intro impI)
    fix f t m' u r
    assume IH: "\<And>t m' u r. f t m' u = Some r \<Longrightarrow> t = target \<longrightarrow> m' = m \<longrightarrow> ticking ok log h u \<longrightarrow> waited target u h r"
      and st: "(if fst u < t then andthen (cpu_wfi (interruptible m')) (\<lambda>_ u. f t m' u) u else ret () u) = Some r"
      and eq: "t = target" "m' = m" and tk: "ticking ok log h u"
    from st [unfolded eq] tk wfi show "waited target u h r" by (rule wait_round) (use IH in blast)
  qed
  then show ?thesis using assms by blast
qed

lemma ticking_counts:
  assumes "ticking ok log h v" "log (snd v) = h @ es" "\<not> fst v < target"
  shows "unat target \<le> claims es" "unat target \<le> completions es"
proof -
  obtain n w where v: "v = (n, w)" by (cases v)
  from assms(1,2) obtain k where k: "n = of_nat k" "k \<le> claims es" "k \<le> completions es"
    by (auto simp: v ticking_def)
  have "unat n \<le> k" unfolding k(1) by (simp add: unat_of_nat)
  moreover have "unat target \<le> unat n" using assms(3) by (simp add: v word_less_nat_alt)
  ultimately show "unat target \<le> claims es" "unat target \<le> completions es" using k(2,3) by simp_all
qed

text \<open>A wait that is over, the rest to do.\<close>

lemma wait_then:
  assumes "andthen f g u = Some r" "ticking ok log h u" "\<And>q. f u = Some q \<Longrightarrow> waited target u h q"
  obtains v es where "ticking ok log h v" "log (snd v) = log (snd u) @ es" "quiet_events es" "\<not> fst v < target" "g () v = Some r"
  using assms(1)
proof (cases rule: andthen_cases)
  case (exits c v)
  then show ?thesis using assms(3) unfolding waited_def by blast
next
  case (goes_on a v)
  obtain b es where "Inr (a, v) = Inr ((), b)" "ticking ok log h b" "log (snd b) = log (snd u) @ es" "quiet_events es"
    "\<not> fst b < target" using assms(3) [OF goes_on(1)] unfolding waited_def by blast
  then show ?thesis using goes_on(2) that [of b es] by simp
qed

lemma spin_then:
  assumes "andthen (spin_until target m) g u = Some r" "ticking ok log h u"
  obtains v es where "ticking ok log h v" "log (snd v) = log (snd u) @ es" "quiet_events es" "\<not> fst v < target" "g () v = Some r"
  using assms spin_Some [OF _ assms(2)] by (rule wait_then)

lemma wfi_then:
  assumes "andthen (wfi_until target m) g u = Some r" "ticking ok log h u"
  obtains v es where "ticking ok log h v" "log (snd v) = log (snd u) @ es" "quiet_events es" "\<not> fst v < target" "g () v = Some r"
  using assms wfi_Some [OF _ assms(2)] by (rule wait_then)

lemma virq_main_Some:
  assumes "virq_main m (0, w) = Some r" "ok w"
  shows "\<exists>v es. r = Inl (0, v) \<and> ok (snd v) \<and> log (snd v) = log w @ es \<and>
    bytes es = crlf (''guest_main start'' @ nl) @ crlf (''second round of waiting'' @ nl) @ farewell 0 \<and>
      600 \<le> claims es \<and> 600 \<le> completions es"
proof -
  let ?h = "log w"
  have fmt: "format (''guest_main start'' @ nl) [] = Some (''guest_main start'' @ nl)"
    "format (''second round of waiting'' @ nl) [] = Some (''second round of waiting'' @ nl)"
    by (rule format_plain, simp add: nl_def)+
  note P = guest_abi.prints_printk [OF interruptible_abi [of ?h], unfolded prints_def]
  have start: "ticking ok log ?h (0, w)" using assms(2) by (rule ticking_start)
  from assms(1) [unfolded virq_main_def] guest_abi.does_features [OF masked_abi] start
  obtain a es1 where 1: "ticking ok log ?h a" "log (snd a) = ?h @ es1" "bytes es1 = []"
    "andthen (fail_if (masked m) ((0xf :: u32) AND HYP_FEATURE_VIRQ = 0)) (\<lambda>_.
     andthen (guest_printk (interruptible m) (''guest_main start'' @ nl) []) (\<lambda>_.
     andthen (spin_until 300 m) (\<lambda>_.
     andthen (guest_printk (interruptible m) (''second round of waiting'' @ nl) []) (\<lambda>_.
     andthen (spin_until 600 m) (\<lambda>_. guest_exit (interruptible m) HYP_GUEST_EXIT_SUCCESS))))) a = Some r"
    by (rule does_then) auto
  from 1(4) have "andthen (guest_printk (interruptible m) (''guest_main start'' @ nl) []) (\<lambda>_.
     andthen (spin_until 300 m) (\<lambda>_.
     andthen (guest_printk (interruptible m) (''second round of waiting'' @ nl) []) (\<lambda>_.
     andthen (spin_until 600 m) (\<lambda>_. guest_exit (interruptible m) HYP_GUEST_EXIT_SUCCESS)))) a = Some r"
    by (simp add: fail_if_def andthen_def [of "ret ()"] ret_def)
  from this P [OF fmt(1)] 1(1) obtain b es2 where 2: "ticking ok log ?h b" "log (snd b) = log (snd a) @ es2"
    "bytes es2 = crlf (''guest_main start'' @ nl)"
    "andthen (spin_until 300 m) (\<lambda>_.
     andthen (guest_printk (interruptible m) (''second round of waiting'' @ nl) []) (\<lambda>_.
     andthen (spin_until 600 m) (\<lambda>_. guest_exit (interruptible m) HYP_GUEST_EXIT_SUCCESS))) b = Some r"
    by (rule does_then) auto
  from 2(4,1) obtain c es3 where 3: "ticking ok log ?h c" "log (snd c) = log (snd b) @ es3" "quiet_events es3"
    "andthen (guest_printk (interruptible m) (''second round of waiting'' @ nl) []) (\<lambda>_.
     andthen (spin_until 600 m) (\<lambda>_. guest_exit (interruptible m) HYP_GUEST_EXIT_SUCCESS)) c = Some r"
    by (rule spin_then)
  from 3(4) P [OF fmt(2)] 3(1) obtain d es4 where 4: "ticking ok log ?h d" "log (snd d) = log (snd c) @ es4"
    "bytes es4 = crlf (''second round of waiting'' @ nl)"
    "andthen (spin_until 600 m) (\<lambda>_. guest_exit (interruptible m) HYP_GUEST_EXIT_SUCCESS) d = Some r"
    by (rule does_then) auto
  from 4(4,1) obtain e es5 where 5: "ticking ok log ?h e" "log (snd e) = log (snd d) @ es5" "quiet_events es5" "\<not> fst e < 600"
    "guest_exit (interruptible m) HYP_GUEST_EXIT_SUCCESS e = Some r"
    by (rule spin_then)
  have fin: "ends (ticking ok log ?h) (log \<circ> snd) (guest_exit (interruptible m) 0 :: _ \<Rightarrow> (unit, u32 \<times> 'w) outcome) 0 (leaves (farewell 0))"
    using guest_abi.ends_exit [OF interruptible_abi, of ?h 0] by simp
  obtain v es6 where 6: "r = Inl (0, v)" "ticking ok log ?h v" "log (snd v) = log (snd e) @ es6" "leaves (farewell 0) es6"
    using fin [unfolded ends_def, rule_format, OF 5(1,5)] unfolding o_apply by blast
  let ?es = "es1 @ es2 @ es3 @ es4 @ es5"
  have log: "log (snd e) = ?h @ ?es" using 1(2) 2(2) 3(2) 4(2) 5(2) by simp
  have "600 \<le> claims ?es" "600 \<le> completions ?es" using ticking_counts [OF 5(1) log 5(4)] by simp_all
  moreover have "ok (snd v)" using 6(2) by (simp add: ticking_def case_prod_beta)
  ultimately show ?thesis using 6 leaves_bytes [OF 6(4)] log 1(3) 2(3) 3(3) 4(3) 5(3)
    by (intro exI [of _ v] exI [of _ "?es @ es6"]) simp
qed

end

end
