(* ===== verification/Guest_Hosted.thy ===== *)
theory Guest_Hosted
  imports Output Guest_Irq
begin

section \<open>Guests on the hypervisor\<close>

text \<open>
  The processor a guest program runs on, made of the hypervisor: each operation that is not plain
  computation is an exception to Hyp mode with the syndrome the architecture gives it, handled by
  \<open>hyp_handle_exception\<close> on the guest's frame. \<open>others\<close> is what happens next, until the guest runs again:
  any run of the system in which it does not act. \<open>interpretation hosted\<close> shows that this processor keeps the
  contract the guest programs rely on, so what is proved of them holds of them as guests.
\<close>

subsection \<open>The processor\<close>

text \<open>The system, the history of the guest's operations, and the bytes the hypervisor put on the serial
  line while it handled them.\<close>

record hosted =
  hst_config :: config
  hst_log :: "guest_event list"
  hst_out :: "u8 list"

definition line_out :: "machine \<Rightarrow> machine \<Rightarrow> u8 list" where
  "line_out s t = uart_bytes (drop (length (hw_log s)) (hw_log t))"

definition hosted_trap :: "u32 \<Rightarrow> u32 \<Rightarrow> u32 \<Rightarrow> config \<Rightarrow> config option" where
  "hosted_trap hsr hdfar hpfar c = do {
     (r, g, t) \<leftarrow> hyp_handle_exception (hyp_vector HYP_EXCEPTION_LOWER_SYNC hsr hdfar 0 hpfar (fst c)) (snd c);
     if r = HYP_ACTION_RETURN then Some (g, t) else None }"

definition over :: "nat \<Rightarrow> config \<Rightarrow> bool" where
  "over j c \<longleftrightarrow> vcpu_state (vcpu_at j (snd c)) = HV_VCPU_EXITED"

text \<open>An operation of guest \<open>j\<close> with frame \<open>f\<close>: the trap, the rest of the world, and the guest's \<open>r0\<close>. What the
  handler transmits is counted, also when it is the guest's last operation.\<close>

definition hosted_op :: "nat \<Rightarrow> (config \<Rightarrow> config option) \<Rightarrow> int \<Rightarrow> u32 \<Rightarrow> u32 \<Rightarrow> (HypExceptState \<Rightarrow> HypExceptState) \<Rightarrow>
    (u32 \<Rightarrow> guest_event list) \<Rightarrow> hosted \<Rightarrow> (u32, hosted) outcome" where
  "hosted_op j others status hsr a setup events w =
     (if over j (hst_config w) then None
      else do {
        let (f, s) = hst_config w;
        d \<leftarrow> hosted_trap hsr a (drop_bit 8 a AND 0xfffffff0) (setup f, s);
        let out = line_out s (snd d);
        if over j d then Some (Inl (status, \<lparr>hst_config = d, hst_log = hst_log w @ [Gone out], hst_out = hst_out w @ out\<rparr>))
        else do {
          e \<leftarrow> others d;
          let x = reg (fst e) 0;
          Some (Inr (x, \<lparr>hst_config = e, hst_log = hst_log w @ events x, hst_out = hst_out w @ out\<rparr>)) } })"

fun set_args :: "u32 list \<Rightarrow> HypExceptState \<Rightarrow> HypExceptState" where
  "set_args (a # b # _) f = set_reg 1 b (set_reg 0 a f)"
| "set_args [a] f = set_reg 0 a f"
| "set_args [] f = f"

text \<open>The syndromes of \<open>hvc #0\<close>, of \<open>wfi\<close> and of a load or store of a word by \<open>r0\<close>.\<close>

abbreviation (input) HVC_SYNDROME :: u32 where "HVC_SYNDROME \<equiv> 0x4a000000"
abbreviation (input) WFI_SYNDROME :: u32 where "WFI_SYNDROME \<equiv> 0x06000000"
abbreviation (input) LOAD_SYNDROME :: u32 where "LOAD_SYNDROME \<equiv> 0x93800007"
abbreviation (input) STORE_SYNDROME :: u32 where "STORE_SYNDROME \<equiv> 0x93800047"

definition hosted_cpu :: "nat \<Rightarrow> (config \<Rightarrow> config option) \<Rightarrow> hosted guest_cpu" where
  "hosted_cpu j others =
     \<lparr>cpu_hvc = (\<lambda>regs. hosted_op j others (if hd regs = HYPERCALL_EXIT then uint (regs ! 1) else - 1)
        HVC_SYNDROME 0 (set_args regs) (\<lambda>x. [Hvc regs x])),
      cpu_load = (\<lambda>a. hosted_op j others (- 1) LOAD_SYNDROME a id (\<lambda>x. [Load a x])),
      cpu_store = (\<lambda>a v. andthen (hosted_op j others (- 1) STORE_SYNDROME a (set_reg 0 v) (\<lambda>_. [Store a v])) (\<lambda>_. ret ())),
      cpu_wfi = andthen (hosted_op j others (- 1) WFI_SYNDROME 0 id (\<lambda>_. [])) (\<lambda>_. ret ()),
      cpu_virq = (\<lambda>w. ret (hcr_bit HCR_VI (snd (hst_config w))) w)\<rparr>"

text \<open>What the rest of the world does, and the invariant of a hosted guest.\<close>

definition others_fair :: "nat \<Rightarrow> (config \<Rightarrow> config option) \<Rightarrow> bool" where
  "others_fair j others \<longleftrightarrow> (\<forall>c d. sys_inv c \<longrightarrow> others c = Some d \<longrightarrow>
     (\<exists>as. hv_run as c d \<and> Guest j \<notin> set as \<and> cur_of (snd d) = j))"

definition runs_guest :: "nat \<Rightarrow> (nat \<Rightarrow> hw_port \<Rightarrow> u32) \<Rightarrow> string \<Rightarrow> config \<Rightarrow> bool" where
  "runs_guest j h el c \<longleftrightarrow> sys_inv c \<and> cur_of (snd c) = j \<and> \<not> hyp_except_verbose (snd c) \<and> \<not> hv_scheduler_verbose (snd c) \<and>
     hw_in (snd c) = h \<and> trace_current_el (snd c) = el"

definition hosted_ok :: "nat \<Rightarrow> (config \<Rightarrow> config option) \<Rightarrow> (nat \<Rightarrow> hw_port \<Rightarrow> u32) \<Rightarrow> string \<Rightarrow> hosted \<Rightarrow> bool" where
  "hosted_ok j others h el w \<longleftrightarrow> j < HV_MAX_GUEST_VCPUS \<and> others_fair j others \<and> hst_out w = bytes (hst_log w) \<and>
     (\<not> over j (hst_config w) \<longrightarrow> runs_guest j h el (hst_config w) \<and>
        (\<forall>v. last_scratch (hst_log w) None = Some v \<longrightarrow> scratch (vuarts (snd (hst_config w)) ! j) = v))"

subsection \<open>Traps\<close>

lemma trap_entry:
  assumes "\<not> hyp_except_verbose s"
  shows "hyp_handle_exception (hyp_vector HYP_EXCEPTION_LOWER_SYNC HVC_SYNDROME a b c f) s =
      hyp_handle_guest_hypercall (hyp_vector HYP_EXCEPTION_LOWER_SYNC HVC_SYNDROME a b c f) s"
    "hyp_handle_exception (hyp_vector HYP_EXCEPTION_LOWER_SYNC WFI_SYNDROME a b c f) s =
      hv_scheduler_handle_wfi (hyp_vector HYP_EXCEPTION_LOWER_SYNC WFI_SYNDROME a b c f) s"
    "hyp_handle_exception (hyp_vector HYP_EXCEPTION_LOWER_SYNC LOAD_SYNDROME a b c f) s =
      handle_guest_abort (hyp_vector HYP_EXCEPTION_LOWER_SYNC LOAD_SYNDROME a b c f) s"
    "hyp_handle_exception (hyp_vector HYP_EXCEPTION_LOWER_SYNC STORE_SYNDROME a b c f) s =
      handle_guest_abort (hyp_vector HYP_EXCEPTION_LOWER_SYNC STORE_SYNDROME a b c f) s"
  using assms
  by (simp_all add: hyp_handle_exception_def hyp_vector_def handle_lower_sync_def hsr_ec_valid_def valid_hsr_ec_def
      reg_defs hv_assert_def handle_hvc_from_lower_def hsr_iss_imm16_def Let_def)

lemma guest_r0:
  "cur_of s = j \<Longrightarrow> fst (guest_sees j (f, s)) ! 0 = reg f 0"
  "cur_of s \<noteq> j \<Longrightarrow> fst (guest_sees j (f, s)) ! 0 = reg (ctx_hyp_state (vcpu_context (vcpu_at j s))) 0"
  by (simp_all add: guest_sees_def guest_regs_def Let_def)

lemma running_not_over: "sched_run s \<Longrightarrow> \<not> over (cur_of s) (f, s)"
  by (simp add: over_def sched_run_def)

subsection \<open>Hypercalls\<close>

text \<open>A call that stays with the guest.\<close>

definition stays :: "HypExceptState \<Rightarrow> machine \<Rightarrow> HypExceptState \<Rightarrow> machine \<Rightarrow> bool" where
  "stays f s f' s' \<longleftrightarrow> cur_of s' = cur_of s \<and> vuarts s' = vuarts s \<and>
     vcpu_state (vcpu_at (cur_of s) s') = vcpu_state (vcpu_at (cur_of s) s)"

lemma stays_io: "io_out s s' t \<Longrightarrow> stays f s f' s'"
  using io_machine [of s s' t] by (simp add: stays_def env_same_def)

lemma stays_sync:
  assumes "guest_call f s" "vcpu_state w = vcpu_state (vcpu_at (cur_of s) s)"
  shows "stays f s f' (hv_virq_sync (Some w) (upd_vcpu (cur_of s) (\<lambda>_. w) s))"
  using own_len [OF guest_callD(2) [OF assms(1)]] ctrl_stepD [OF ctrl_step_ops(4)] assms(2)
  by (simp add: stays_def env_same_def) (simp add: upd_vcpu_def)

lemma stays_not_over: "guest_call f s \<Longrightarrow> stays f s f' s' \<Longrightarrow> \<not> over (cur_of s) (f', s')"
  using guest_callD(7) [of f s] by (simp add: stays_def over_def)

lemma delay_leaves:
  assumes "guest_call f s" "reg f 0 = HYPERCALL_TIMER_DELAY_TICKS" "reg f 1 \<noteq> 0"
    "hyp_handle_guest_hypercall f s = Some (r, f', s')"
  shows "vuarts s' = vuarts s"
proof -
  note G = guest_callD [OF assms(1)]
  obtain t s1 where io: "io_out s s1 []" and e: "hyp_handle_guest_hypercall f s =
    hv_scheduler_advance (set_reg 0 HYPERCALL_SUCCESS f) (delay_current t (reg f 1) s1)"
    using call_delay [OF assms(1-3)] by metis
  note m = io_machine [OF io]
  have wf1: "sched_wf (scheduler s1)" and c1: "cur_of s1 = cur_of s" using G(2) m by simp_all
  note D = delay_current_spec [OF wf1, unfolded c1, OF G(3) assms(3), where t = t]
  have "frame_ok (set_reg 0 0 f)" using G(4) by simp
  from sched_handled(4) [OF advance_spec [OF D(2) this]] assms(4) e
  have "vuarts s' = vuarts (delay_current t (reg f 1) s1)" by simp
  moreover have "vuarts (delay_current t (reg f 1) s1) = vuarts s1"
    using io_machine(2) [OF rearm_io]
    by (cases "hv_vcpu_timer_delay (deref (Some (cur_of s1)) s1) (ucast t) (ucast (reg f 1))")
       (simp_all add: delay_current_def Let_def env_same_def upd_vcpu_def)
  ultimately show ?thesis using m(2) by (simp add: env_same_def)
qed

lemma yield_leaves:
  assumes "guest_call f s" "hv_scheduler_yield f s = Some (r, f', s')"
  shows "vuarts s' = vuarts s" "\<not> over (cur_of s) (f', s')"
proof -
  note G = guest_callD [OF assms(1)]
  note Y = yield_spec [OF G(1,3,4) assms(2)]
  show "vuarts s' = vuarts s" by (rule sched_handled(4) [OF Y(1,2)])
  show "\<not> over (cur_of s) (f', s')"
  proof (cases "yield_target s = cur_of s")
    case True
    then show ?thesis using Y(3) G(7) by (simp add: over_def)
  next
    case False
    then have "vcpu_at (cur_of s) s' = saved_vcpu f s" using Y(2) by (simp add: switched_def)
    then show ?thesis using G(7) by (simp add: over_def saved_vcpu_def leave_state)
  qed
qed

lemma call_effect:
  assumes "guest_call f s" "abi_call regs" "reg f 0 = hd regs" "hyp_handle_guest_hypercall f s = Some (r, f', s')"
  shows "vuarts s' = vuarts s \<and> \<not> over (cur_of s) (f', s') \<and> abi_answer regs (fst (guest_sees (cur_of s) (f', s')) ! 0)"
proof -
  note G = guest_callD [OF assms(1)]
  have stay: ?thesis if "stays f s f' s'" "abi_answer regs (reg f' 0)"
    using that stays_not_over [OF assms(1) that(1)] by (simp add: stays_def guest_r0)
  have len: "0 < length (frame_r f)" using G(4) by (simp add: frame_ok_def)
  have other: "abi_answer regs x" if "hd regs \<in> {HYPERCALL_YIELD, HYPERCALL_GET_HYP_IRQ_COUNT, HYPERCALL_VIRQ_COMPLETE,
      HYPERCALL_TIMER_GET_TICKS, HYPERCALL_TIMER_GET_FREQ}" for x
    using that by (auto simp: abi_answer_def)
  have "hd regs \<in> {0, 1, 3, 6, 7, 9, 11, 5, 8, 10}" using assms(2) by (auto simp: abi_call_def)
  then consider "hd regs = 0" | "hd regs = 1" | "hd regs = 3" | "hd regs = 6" | "hd regs = 7" | "hd regs = 9"
    | "hd regs = 11" | "hd regs = 5" | "hd regs = 8" | "hd regs = 10" by blast
  then show ?thesis
  proof cases
    case 1
    then show ?thesis using call_constant(1) [of f s] assms(3,4) stays_io [OF io_out_refl] len
      by (intro stay) (auto simp: abi_answer_def)
  next
    case 2
    then show ?thesis using call_constant(2) [of f s] assms(3,4) stays_io [OF io_out_refl] len
      by (intro stay) (auto simp: abi_answer_def)
  next
    case 3
    then have "hv_scheduler_yield f s = Some (r, f', s')" using call_yield [of f s] assms(3,4) by simp
    from yield_leaves [OF assms(1) this] other 3 show ?thesis by simp
  next
    case 4
    then show ?thesis using call_constant(3) [of f s] assms(3,4) stays_io [OF io_out_refl] other
      by (intro stay) auto
  next
    case 8
    then obtain t where "UART_Put8 (ucast (reg f 1)) s = Some t" "t = s'" "f' = set_reg 0 0 f"
      using call_putchar [of f s] assms(3,4) by (cases "UART_Put8 (ucast (reg f 1)) s") auto
    then show ?thesis using 8 len by (intro stay stays_io [OF UART_Put8_io]) (auto simp: abi_answer_def)
  next
    case 6
    then obtain t s1 where "io_out s s1 []" "s1 = s'" using call_get_ticks [of f s] assms(3,4) by auto
    then show ?thesis using 6 other by (intro stay stays_io) auto
  next
    case 7
    then show ?thesis using call_get_freq [OF assms(1)] assms(3,4) stays_io [OF io_out_refl] other
      by (intro stay) (cases "hv_vcpu_timer_get_frequency (Some (vcpu_at (cur_of s) s))", auto)+
  next
    case 5
    then have n: "reg f 0 = HYPERCALL_VIRQ_CLAIM" using assms(3) by simp
    have "f' = set_reg 0 HYPERCALL_ERR_NO_PENDING f \<or> (\<exists>i < 32. f' = set_reg 0 (of_nat i) f)"
      using claim_result(2,3) [OF assms(1) n assms(4)] by blast
    then have "abi_answer regs (reg f' 0)" using 5 len by (auto simp: abi_answer_def unat_of_nat)
    moreover have "stays f s f' s'"
      by (rule call_claim [OF assms(1) n]) (use assms(4) stays_sync [OF assms(1)] in auto)
    ultimately show ?thesis by (intro stay)
  next
    case 9
    then have n: "reg f 0 = HYPERCALL_VIRQ_COMPLETE" using assms(3) by simp
    have "stays f s f' s'"
      by (rule call_complete [OF assms(1) n]) (use assms(4) stays_sync [OF assms(1)] in auto)
    then show ?thesis using 9 other by (intro stay) simp_all
  next
    case 10
    then have n: "reg f 0 = HYPERCALL_TIMER_DELAY_TICKS" using assms(3) by simp
    show ?thesis
    proof (cases "reg f 1 = 0")
      case True
      then show ?thesis using call_constant(4) [OF assms(1) n] assms(4) 10 stays_io [OF io_out_refl] len
        by (intro stay) (auto simp: abi_answer_def)
    next
      case False
      then show ?thesis using delay_result [OF assms(1) n False assms(4)] delay_leaves [OF assms(1) n False assms(4)] 10 len
        by (simp add: over_def guest_r0 abi_answer_def)
    qed
  qed
qed

subsection \<open>Waiting\<close>

lemma wfi_effect:
  assumes "guest_call f s" "hv_scheduler_handle_wfi f s = Some (r, f', s')"
  shows "vuarts s' = vuarts s \<and> \<not> over (cur_of s) (f', s')"
proof -
  note G = guest_callD [OF assms(1)]
  note W = wfi_guest [OF G(1,3,4) assms(2)]
  show ?thesis
  proof (cases "virq_pending (vcpu_at (cur_of s) s) = 0")
    case True
    then show ?thesis using W(2) by (simp add: Let_def over_def sched_post_def env_same_def upd_vcpu_def)
  next
    case False
    then show ?thesis using W(1) G(7) by (simp add: over_def sched_post_def env_same_def)
  qed
qed

subsection \<open>The emulated UART\<close>

text \<open>The frame of an access to address \<open>a\<close>, and the fault the handler makes of it.\<close>

definition trap_frame :: "u32 \<Rightarrow> u32 \<Rightarrow> HypExceptState \<Rightarrow> HypExceptState" where
  "trap_frame hsr a f = hyp_vector HYP_EXCEPTION_LOWER_SYNC hsr a 0 (drop_bit 8 a AND 0xfffffff0) f"

definition hosted_fault :: "machine \<Rightarrow> u32 \<Rightarrow> u32 \<Rightarrow> HypExceptState \<Rightarrow> HvStage2FaultInfo" where
  "hosted_fault s hsr a f = decode_stage2_fault (sch_vm (scheduler s)) (Some (vcpu_at (cur_of s) s))
     (trap_frame hsr a f)"

lemma hosted_fault_sel:
  assumes "hsr = LOAD_SYNDROME \<or> hsr = STORE_SYNDROME"
  shows "fault_ipa (hosted_fault s hsr a f) = ucast a" "is_write (hosted_fault s hsr a f) \<longleftrightarrow> hsr = STORE_SYNDROME"
    "\<not> is_instruction (hosted_fault s hsr a f)" "ipa_offset_valid (hosted_fault s hsr a f)"
    "fault_iss (hosted_fault s hsr a f) = HSR_ISS hsr"
proof -
  have m: "(0xfffffff0 :: u32) = NOT (mask 4)" "(0xfff :: u32) = mask 12"
    by (simp_all add: mask_eq_exp_minus_1)
  have "push_bit 8 (ucast ((drop_bit 8 a AND NOT (mask 4)) AND NOT (mask 4))) OR ucast (a AND mask 12) = (ucast a :: u64)"
    by (rule bit_word_eqI) (auto simp: bit_simps dest: bit_imp_le_length)
  then show "fault_ipa (hosted_fault s hsr a f) = ucast a"
    using assms by (auto simp: hosted_fault_def decode_stage2_fault_def trap_frame_def hyp_vector_def reg_defs Let_def m)
  show "is_write (hosted_fault s hsr a f) \<longleftrightarrow> hsr = STORE_SYNDROME"
    "\<not> is_instruction (hosted_fault s hsr a f)" "ipa_offset_valid (hosted_fault s hsr a f)"
    "fault_iss (hosted_fault s hsr a f) = HSR_ISS hsr"
    using assms by (auto simp: hosted_fault_def decode_stage2_fault_def trap_frame_def hyp_vector_def reg_defs Let_def)
qed

lemma guest_vm_of:
  assumes "guest_call f s" "vms_built s"
  shows "vcpu_vm (vcpu_at (cur_of s) s) = Some (cur_of s)" "unat (vm_id (sch_vm (scheduler s) ! cur_of s)) = cur_of s"
    "active_regions (sch_vm (scheduler s) ! cur_of s) = guest_regions (cur_of s)"
    "region_table_ok (sch_vm (scheduler s) ! cur_of s)" "cur_of s < length (vuarts s)"
proof -
  note G = guest_callD [OF assms(1)]
  show "vcpu_vm (vcpu_at (cur_of s) s) = Some (cur_of s)" by (rule sched_wfD(6) [OF G(2,3)])
  have V: "guest_vm_ok (cur_of s) (sch_vm (scheduler s) ! cur_of s) (stage2_tables s)" "length (vuarts s) = 2"
    using assms(2) G(3) by (simp_all add: vms_built_def)
  then show "active_regions (sch_vm (scheduler s) ! cur_of s) = guest_regions (cur_of s)"
    "region_table_ok (sch_vm (scheduler s) ! cur_of s)" "cur_of s < length (vuarts s)"
    using G(3) by (simp_all add: guest_vm_ok_def)
  have "unat (of_nat (cur_of s) :: u32) = cur_of s" using G(3) by (auto simp: less_2_cases_iff)
  then show "unat (vm_id (sch_vm (scheduler s) ! cur_of s)) = cur_of s" using V by (simp add: guest_vm_ok_def)
qed

lemma uart_at_bounds:
  assumes "offset \<in> uart_loads \<union> uart_stores"
  shows "0x10000000 \<le> unat (ucast (uart_at offset) :: u64)" "unat (ucast (uart_at offset) :: u64) < 0x10001000"
    "ucast (ucast (uart_at offset) - ipa_base uart_region) = offset" "offset AND 3 = 0"
  using assms by (auto simp: uart_loads_def uart_stores_def uart_at_def uart_region_def)

lemma uart_find:
  assumes "guest_call f s" "vms_built s" "offset \<in> uart_loads \<union> uart_stores"
  shows "hv_vm_find_region (Some (sch_vm (scheduler s) ! cur_of s)) (ucast (uart_at offset)) = Some uart_region"
  by (rule find_region_unique [OF guest_vm_of(4) [OF assms(1,2)]])
     (simp_all add: guest_vm_of(3) [OF assms(1,2)] guest_regions_def guest_region_bounds(5,6) uart_at_bounds [OF assms(3)])

lemma guard_find:
  assumes "guest_call f s" "vms_built s"
  shows "hv_vm_find_region (Some (sch_vm (scheduler s) ! cur_of s)) (ucast GUEST_STAGE2_GUARD_PAGE) = Some guard_region"
  by (rule find_region_unique [OF guest_vm_of(4) [OF assms(1,2)]])
     (simp_all add: guest_vm_of(3) [OF assms(1,2)] guest_regions_def guest_region_bounds(3,4))

text \<open>A trapped access of a quiet hypervisor goes to the region its address is in.\<close>

lemma abort_route:
  assumes "guest_call F s" "vms_built s" "\<not> hyp_except_verbose s"
    and "F = trap_frame hsr a f"
  shows "handle_guest_abort F s = guest_abort_in_vm (cur_of s) (cur_of s) (hosted_fault s hsr a f) F s"
  using assms(3) guest_callD(5,6) [OF assms(1)] guest_vm_of(1) [OF assms(1,2)]
  by (simp add: handle_guest_abort_def log_guest_abort_def hosted_fault_def assms(4))

lemma guard_effect:
  assumes "guest_call F s" "vms_built s" "\<not> hyp_except_verbose s" "\<not> hv_scheduler_verbose s"
    and F: "F = trap_frame LOAD_SYNDROME GUEST_STAGE2_GUARD_PAGE f"
    and run: "handle_guest_abort F s = Some (r, f', s')"
  shows "over (cur_of s) (f', s') \<and> outputs s s' []"
proof -
  have "handle_guest_abort F s = guest_abort_in_vm (cur_of s) (cur_of s)
      (hosted_fault s LOAD_SYNDROME GUEST_STAGE2_GUARD_PAGE f) F s"
    using abort_route [OF assms(1-3)] F by blast
  moreover have "fault_ipa (hosted_fault s LOAD_SYNDROME GUEST_STAGE2_GUARD_PAGE f) = ucast GUEST_STAGE2_GUARD_PAGE"
    by (rule hosted_fault_sel) simp
  ultimately have stop: "stop_current_guest_vcpu (cur_of s) F s = Some (r, f', s')"
    using run guard_find [OF assms(1,2)] guest_region_bounds(8) assms(3)
    by (simp add: guest_abort_in_vm_def log_stage2_fault_def)
  from stop_handled(4) [OF assms(1) own_step_refl guest_callD(2) [OF assms(1)] refl stop]
    stop_outputs [OF assms(4) guest_callD(2,3) [OF assms(1)]] stop
  show ?thesis by (simp add: over_def stop_eq)
qed

lemma uart_effect:
  assumes "guest_call F s" "vms_built s" "\<not> hyp_except_verbose s" "offset \<in> uart_loads \<union> uart_stores"
    and F: "F = trap_frame hsr (uart_at offset) f" "hsr = LOAD_SYNDROME \<or> hsr = STORE_SYNDROME"
    and run: "handle_guest_abort F s = Some (r, f', s')"
  shows "hsr = STORE_SYNDROME \<Longrightarrow> hv_vuart_write (vm_id (sch_vm (scheduler s) ! cur_of s)) offset (reg F 0) 4 s = Some (0, s1) \<Longrightarrow>
      s' = s1"
    and "hsr = LOAD_SYNDROME \<Longrightarrow> hv_vuart_read (vm_id (sch_vm (scheduler s) ! cur_of s)) offset 4 (Some 0) s = Some (0, Some x, s1) \<Longrightarrow>
      s' = s1 \<and> reg f' 0 = x"
    and "hsr = STORE_SYNDROME \<Longrightarrow> hv_vuart_write (vm_id (sch_vm (scheduler s) ! cur_of s)) offset (reg F 0) 4 s \<noteq> None"
proof -
  let ?vms = "sch_vm (scheduler s)" and ?c = "cur_of s"
  define fault where "fault = hosted_fault s hsr (uart_at offset) f"
  note fs = hosted_fault_sel [OF F(2), of s "uart_at offset" f, folded fault_def]
  note V = guest_vm_of [OF assms(1,2)]
  have len: "0 < length (frame_r F)" using guest_callD(4) [OF assms(1)] by (simp add: frame_ok_def)
  have sz: "mmio_access_size (fault_iss fault) = 4" "mmio_access_reg (fault_iss fault) = 0"
    "fault_iss fault AND HSR_ISS_ABORT_ISV \<noteq> 0" "fault_iss fault AND HSR_ISS_ABORT_S1PTW = 0"
    using F(2) by (auto simp: fs mmio_access_size_def mmio_access_reg_def reg_defs Let_def)
  have id: "unat (vm_id (?vms ! ?c)) < HV_MAX_VMS" using V(2) guest_callD(3) [OF assms(1)] by simp
  have find: "hv_vm_find_region (Some (?vms ! ?c)) (fault_ipa fault) = Some uart_region"
    using uart_find [OF assms(1,2,4)] by (simp add: fs)
  have off: "offset = ucast (fault_ipa fault - ipa_base uart_region)" "offset AND (4 - 1) = 0"
    using uart_at_bounds(3,4) [OF assms(4)] by (simp_all add: fs)
  note E = mmio_emulates [where f = F and s = s, OF V(1) id find _ _ fs(3,4) sz(3,4,1) _ sz(2) _ off, unfolded fs(2)]
  have h: "handle_guest_abort F s = guest_abort_in_vm ?c ?c fault F s"
    using abort_route [OF assms(1-3)] F(1) unfolding fault_def by blast
  have t: "region_type uart_region = HV_VM_REGION_MMIO" "region_device uart_region = HV_VM_MMIO_DEVICE_VUART"
    by (simp_all add: uart_region_def)
  have in_vm: "handle_guest_abort F s = Some (0, advance_trapped_guest_instr g, s1)"
    if "hv_mmio_handle_fault ?vms (Some (vcpu_at ?c s)) F fault s = Some (0, g, s1)" for g
    using that find assms(3) t by (simp add: h guest_abort_in_vm_def guest_abort_mmio_def log_stage2_fault_def)
  have m: "mmio_mask_value v 4 sg = v" for v sg by (simp add: mmio_mask_value_def)
  show "s' = s1" if "hsr = STORE_SYNDROME" "hv_vuart_write (vm_id (?vms ! ?c)) offset (reg F 0) 4 s = Some (0, s1)"
  proof -
    have "hv_mmio_handle_fault ?vms (Some (vcpu_at ?c s)) F fault s = Some (0, F, s1)"
      using E t that by (simp add: m)
    from in_vm [OF this] run show ?thesis by simp
  qed
  show "s' = s1 \<and> reg f' 0 = x" if "hsr = LOAD_SYNDROME"
    "hv_vuart_read (vm_id (?vms ! ?c)) offset 4 (Some 0) s = Some (0, Some x, s1)"
  proof -
    have "hv_mmio_handle_fault ?vms (Some (vcpu_at ?c s)) F fault s = Some (0, F\<lparr>frame_r := (frame_r F)[0 := x]\<rparr>, s1)"
      using E t that by (simp add: m)
    from in_vm [OF this] run len show ?thesis by (auto simp: advance_trapped_guest_instr_def Let_def)
  qed
  show "hv_vuart_write (vm_id (?vms ! ?c)) offset (reg F 0) 4 s \<noteq> None" if "hsr = STORE_SYNDROME"
  proof
    assume "hv_vuart_write (vm_id (?vms ! ?c)) offset (reg F 0) 4 s = None"
    then have "hv_mmio_handle_fault ?vms (Some (vcpu_at ?c s)) F fault s = None" using E t that by (simp add: m)
    then show False using run find assms(3) t by (simp add: h guest_abort_in_vm_def guest_abort_mmio_def log_stage2_fault_def)
  qed
qed

lemma own_uart:
  assumes "guest_call f s" "vms_built s"
  shows "vuart_valid_access (vm_id (sch_vm (scheduler s) ! cur_of s)) 4"
  using guest_vm_of(2) [OF assms] guest_callD(3) [OF assms(1)] by (simp add: vuart_valid_access_def word_less_nat_alt)

lemma store_effect:
  assumes "guest_call F s" "vms_built s" "\<not> hyp_except_verbose s" "offset \<in> uart_stores"
    and F: "F = trap_frame STORE_SYNDROME (uart_at offset) f" "reg F 0 = v"
    and run: "handle_guest_abort F s = Some (r, f', s')"
  shows "\<not> over (cur_of s) (f', s') \<and> outputs s s' (if offset = HV_GUEST_AUX_MU_IO_REG then [ucast v] else []) \<and>
    scratch (vuarts s' ! cur_of s) = (if offset = HV_GUEST_AUX_MU_SCRATCH then v else scratch (vuarts s ! cur_of s))"
proof -
  let ?id = "vm_id (sch_vm (scheduler s) ! cur_of s)"
  note V = guest_vm_of [OF assms(1,2)] and va = own_uart [OF assms(1,2)]
  have "offset \<in> uart_loads \<union> uart_stores" using assms(4) by simp
  note U = uart_effect [OF assms(1-3) this F(1) _ run]
  obtain res s1 where w: "hv_vuart_write ?id offset v 4 s = Some (res, s1)" using U(3) F(2) by auto
  have "vuart_writable offset" using assms(4) by (auto simp: uart_stores_def vuart_writable_def)
  then have res: "res = 0" using hv_vuart_write_cases(1) [OF w] va by simp
  then have s': "s' = s1" using U(1) w F(2) by simp
  obtain es u where s1: "s1 = s\<lparr>hw_log := hw_log s @ es, vuarts := (vuarts s)[unat ?id := u]\<rparr>"
    and es: "uart_bytes es = (if res = 0 \<and> offset = HV_GUEST_AUX_MU_IO_REG then [ucast v] else [])"
    using hv_vuart_write_cases(2) [OF w] by blast
  have "vcpu_at (cur_of s) s' = vcpu_at (cur_of s) s" by (simp add: s' s1 vcpu_at_def)
  then have "\<not> over (cur_of s) (f', s')" using guest_callD(7) [OF assms(1)] by (simp add: over_def)
  moreover have "outputs s s' (if offset = HV_GUEST_AUX_MU_IO_REG then [ucast v] else [])"
    using es res by (auto simp: outputs_def s' s1)
  moreover have "scratch (vuarts s' ! cur_of s) = (if offset = HV_GUEST_AUX_MU_SCRATCH then v else scratch (vuarts s ! cur_of s))"
  proof (cases "offset = HV_GUEST_AUX_MU_IO_REG")
    case True
    then obtain t where "UART_Put8 (ucast v) s = Some t" "s' = t" using w va by (auto simp: hv_vuart_write_def s' split: bind_splits)
    then show ?thesis using io_machine(2) [OF UART_Put8_io] True by (simp add: env_same_def)
  next
    case False
    then have "offset \<in> vuart_offsets" "offset \<noteq> HV_GUEST_AUX_MU_MSR_REG" using assms(4) by (auto simp: uart_stores_def vuart_offsets_def)
    then obtain x where "hv_vuart_write ?id offset v 4 s = Some (0, s\<lparr>vuarts := (vuarts s)[unat ?id := x]\<rparr>)"
      and x: "vuart_reg x = (vuart_reg (vuarts s ! unat ?id))(offset \<mapsto> (if offset = HV_GUEST_AUX_ENABLES then v AND 1 else v))"
      using vuart_write_reg [OF va] V(2,5) by metis
    then have "vuarts s' ! cur_of s = x" using w V(2,5) by (simp add: s')
    moreover have "vuart_reg y HV_GUEST_AUX_MU_SCRATCH = Some (scratch y)" for y by (simp add: vuart_reg_def)
    ultimately show ?thesis using fun_cong [OF x, of HV_GUEST_AUX_MU_SCRATCH] V(2) by (auto split: if_splits)
  qed
  ultimately show ?thesis by blast
qed

lemma load_effect:
  assumes "guest_call F s" "vms_built s" "\<not> hyp_except_verbose s" "offset \<in> uart_loads"
    and F: "F = trap_frame LOAD_SYNDROME (uart_at offset) f"
    and run: "handle_guest_abort F s = Some (r, f', s')"
  shows "io_out s s' [] \<and> (offset = HV_GUEST_AUX_MU_LSR_REG \<longrightarrow> reg f' 0 AND 0x20 \<noteq> 0) \<and>
    (offset = HV_GUEST_AUX_MU_SCRATCH \<longrightarrow> reg f' 0 = scratch (vuarts s ! cur_of s))"
proof -
  let ?id = "vm_id (sch_vm (scheduler s) ! cur_of s)"
  note V = guest_vm_of [OF assms(1,2)] and va = own_uart [OF assms(1,2)]
  have "offset \<in> uart_loads \<union> uart_stores" using assms(4) by simp
  note U = uart_effect [OF assms(1-3) this F _ run]
  consider "offset = HV_GUEST_AUX_MU_LSR_REG" | "offset = HV_GUEST_AUX_MU_SCRATCH" using assms(4) by (auto simp: uart_loads_def)
  then show ?thesis
  proof cases
    case 1
    obtain d s1 where d: "UART_Has_Data s = (d, s1)" by fastforce
    let ?x = "if d then 0x61 else 0x60 :: u32"
    have "hv_vuart_read ?id offset 4 (Some 0) s = Some (0, Some ?x, s1)" using 1 va d by (simp add: hv_vuart_read_def Let_def)
    then have "s' = s1 \<and> reg f' 0 = ?x" using U(2) by blast
    then show ?thesis using UART_Has_Data_io [OF d] 1 by simp
  next
    case 2
    have "hv_vuart_read ?id offset 4 (Some 0) s = Some (0, Some (scratch (vuarts s ! cur_of s)), s)"
      using vuart_read_reg [OF va, of HV_GUEST_AUX_MU_SCRATCH 0 s] 2 V(2) by (simp add: vuart_offsets_def vuart_reg_def)
    then have "s' = s \<and> reg f' 0 = scratch (vuarts s ! cur_of s)" using U(2) by blast
    then show ?thesis using io_out_refl 2 by simp
  qed
qed

subsection \<open>One operation\<close>

definition at_trap :: "nat \<Rightarrow> HypExceptState \<Rightarrow> machine \<Rightarrow> bool" where
  "at_trap j f s \<longleftrightarrow> guest_call f s \<and> vms_built s \<and> \<not> hyp_except_verbose s \<and> \<not> hv_scheduler_verbose s \<and> cur_of s = j"

definition resumes :: "nat \<Rightarrow> (nat \<Rightarrow> hw_port \<Rightarrow> u32) \<Rightarrow> string \<Rightarrow> config \<Rightarrow> config \<Rightarrow> bool" where
  "resumes j h el d e \<longleftrightarrow> runs_guest j h el e \<and> reg (fst e) 0 = fst (guest_sees j d) ! 0 \<and> vuarts (snd e) ! j = vuarts (snd d) ! j"

lemma resumes_not_over: "resumes j h el d e \<Longrightarrow> \<not> over j e"
  using running_not_over by (cases e) (auto simp: resumes_def runs_guest_def sys_inv_def)

lemma trap_inv:
  assumes "at_trap j (trap_frame hsr a f) s" "frame_ok f" "hyp_handle_exception (trap_frame hsr a f) s = Some (0, g, t)"
  shows "sys_inv (g, t)" "sys_same s t"
proof -
  have "sys_inv (f, s)" using assms(1,2) by (simp add: sys_inv_def at_trap_def guest_call_def)
  moreover have "hv_step (Guest (cur_of s)) (f, s) (g, t)"
    using assms(1,3) by (intro guest_traps) (simp_all add: trap_frame_def at_trap_def guest_call_def)
  ultimately show "sys_inv (g, t)" "sys_same s t" using step_inv by fastforce+
qed

lemma trap_back:
  assumes "at_trap j f s" "frame_ok g0" "f = trap_frame hsr a g0" "hyp_handle_exception f s = Some (0, g, t)"
    and "others_fair j others" "others (g, t) = Some e" "hw_in s = h" "trace_current_el s = el"
  shows "resumes j h el (g, t) e"
proof -
  have j: "j < 2" and c: "cur_of s = j" using assms(1) by (auto simp: at_trap_def guest_call_def)
  note t = trap_inv [OF assms(1,2,4) [unfolded assms(3)]]
  obtain acts where acts: "hv_run acts (g, t) e" "Guest j \<notin> set acts" "cur_of (snd e) = j"
    using assms(5,6) t(1) unfolding others_fair_def by blast
  note R = run_inv [OF acts(1) t(1)]
  then have e: "sys_inv e" "sys_same t (snd e)" "undisturbed j (g, t) e" using j acts(2) by auto
  have "runs_guest j h el e" using e(1,2) t(2) acts(3) assms(1,7,8)
    by (simp add: runs_guest_def at_trap_def sys_same_def trace_current_el_def read_cpsr_def)
  moreover have "reg (fst e) 0 = fst (guest_sees j e) ! 0" using guest_r0(1) [OF acts(3)] by (cases e) simp
  ultimately show ?thesis using e(3) by (simp add: resumes_def undisturbed_def)
qed

text \<open>The world the guest leaves behind.\<close>

definition left_with :: "config \<Rightarrow> u8 list \<Rightarrow> hosted \<Rightarrow> hosted" where
  "left_with d out w = \<lparr>hst_config = d, hst_log = hst_log w @ [Gone out], hst_out = hst_out w @ out\<rparr>"

lemma hosted_op_run:
  assumes run: "hosted_op j others st hsr a setup events w = Some r" and ok: "hosted_ok j others h el w"
    and frames: "\<And>f. frame_ok f \<Longrightarrow> frame_ok (setup f)"
  obtains f s g t where "hst_config w = (f, s)" "at_trap j (trap_frame hsr a (setup f)) s" "frame_ok f"
    "\<forall>v. last_scratch (hst_log w) None = Some v \<longrightarrow> scratch (vuarts s ! j) = v"
    "hyp_handle_exception (trap_frame hsr a (setup f)) s = Some (0, g, t)"
    "trace_current_el s = el" "over j (g, t) \<longrightarrow> r = Inl (st, left_with (g, t) (line_out s t) w)"
    "\<not> over j (g, t) \<longrightarrow> (\<exists>e. resumes j h el (g, t) e \<and> r = Inr (reg (fst e) 0,
       \<lparr>hst_config = e, hst_log = hst_log w @ events (reg (fst e) 0), hst_out = hst_out w @ line_out s t\<rparr>))"
proof -
  obtain f s where c: "hst_config w = (f, s)" by fastforce
  have no: "\<not> over j (f, s)" using run c by (auto simp: hosted_op_def)
  then have rg: "runs_guest j h el (f, s)" and sc: "\<forall>v. last_scratch (hst_log w) None = Some v \<longrightarrow> scratch (vuarts s ! j) = v"
    and j: "j < 2" and fair: "others_fair j others" using ok c by (auto simp: hosted_ok_def)
  have f: "frame_ok f" using rg by (simp add: runs_guest_def sys_inv_def)
  have hd: "hw_in s = h" "trace_current_el s = el" using rg by (simp_all add: runs_guest_def)
  have at: "at_trap j (trap_frame hsr a (setup f)) s"
    using rg j frames [OF f] by (simp add: at_trap_def runs_guest_def sys_inv_def guest_call_def trap_frame_def)
  obtain d where d: "hosted_trap hsr a (drop_bit 8 a AND 0xfffffff0) (setup f, s) = Some d"
    and k: "(if over j d then Some (Inl (st, \<lparr>hst_config = d, hst_log = hst_log w @ [Gone (line_out s (snd d))],
          hst_out = hst_out w @ line_out s (snd d)\<rparr>)) else do {
          e \<leftarrow> others d;
          let x = reg (fst e) 0;
          Some (Inr (x, \<lparr>hst_config = e, hst_log = hst_log w @ events x,
            hst_out = hst_out w @ line_out s (snd d)\<rparr>)) }) = Some r"
    using run no c unfolding hosted_op_def by (auto simp: bind_eq_Some_conv Let_def simp del: split_paired_Ex)
  obtain g t where h: "hyp_handle_exception (trap_frame hsr a (setup f)) s = Some (0, g, t)" and dd: "d = (g, t)"
    using d by (auto simp: hosted_trap_def trap_frame_def bind_eq_Some_conv split: if_splits)
  show thesis
  proof (rule that [OF c at f sc h hd(2)])
    show "over j (g, t) \<longrightarrow> r = Inl (st, left_with (g, t) (line_out s t) w)" using k dd by (intro impI) (simp add: left_with_def)
    show "\<not> over j (g, t) \<longrightarrow> (\<exists>e. resumes j h el (g, t) e \<and> r = Inr (reg (fst e) 0,
       \<lparr>hst_config = e, hst_log = hst_log w @ events (reg (fst e) 0), hst_out = hst_out w @ line_out s t\<rparr>))"
    proof
      assume "\<not> over j (g, t)"
      then obtain e where e: "others (g, t) = Some e" "r = Inr (reg (fst e) 0,
         \<lparr>hst_config = e, hst_log = hst_log w @ events (reg (fst e) 0), hst_out = hst_out w @ line_out s t\<rparr>)"
        using k dd by (auto simp: bind_eq_Some_conv Let_def simp del: split_paired_Ex)
      from trap_back [OF at frames [OF f] refl h fair e(1) hd(1,2)] e(2)
      show "\<exists>e. resumes j h el (g, t) e \<and> r = Inr (reg (fst e) 0,
         \<lparr>hst_config = e, hst_log = hst_log w @ events (reg (fst e) 0), hst_out = hst_out w @ line_out s t\<rparr>)" by blast
    qed
  qed
qed

text \<open>An operation the guest comes back from: its output, its result and its scratch register.\<close>

lemma hosted_does:
  assumes run: "hosted_op j others st hsr a setup events w = Some r" and ok: "hosted_ok j others h el w"
    and frames: "\<And>f. frame_ok f \<Longrightarrow> frame_ok (setup f)"
    and effect: "\<And>f s g t. at_trap j (trap_frame hsr a (setup f)) s \<Longrightarrow> frame_ok f \<Longrightarrow>
      hyp_handle_exception (trap_frame hsr a (setup f)) s = Some (0, g, t) \<Longrightarrow> \<not> over j (g, t) \<and> outputs s t bs \<and>
      R (scratch (vuarts s ! j)) (scratch (vuarts t ! j)) (fst (guest_sees j (g, t)) ! 0)"
    and log: "\<And>x. bytes (events x) = bs"
    and keep: "\<And>x y z es. R y z x \<Longrightarrow> \<forall>v. last_scratch es None = Some v \<longrightarrow> y = v \<Longrightarrow>
      \<forall>v. last_scratch (es @ events x) None = Some v \<longrightarrow> z = v"
  shows "\<exists>x v y z. r = Inr (x, v) \<and> hosted_ok j others h el v \<and> hst_log v = hst_log w @ events x \<and> R y z x \<and>
    (\<forall>v. last_scratch (hst_log w) None = Some v \<longrightarrow> y = v)"
proof -
  obtain f s g t where c: "hst_config w = (f, s)" and at: "at_trap j (trap_frame hsr a (setup f)) s" and f: "frame_ok f"
    and sc: "\<forall>v. last_scratch (hst_log w) None = Some v \<longrightarrow> scratch (vuarts s ! j) = v"
    and h: "hyp_handle_exception (trap_frame hsr a (setup f)) s = Some (0, g, t)"
    and "trace_current_el s = el" and "over j (g, t) \<longrightarrow> r = Inl (st, left_with (g, t) (line_out s t) w)"
    and k: "\<not> over j (g, t) \<longrightarrow> (\<exists>e. resumes j h el (g, t) e \<and> r = Inr (reg (fst e) 0,
       \<lparr>hst_config = e, hst_log = hst_log w @ events (reg (fst e) 0), hst_out = hst_out w @ line_out s t\<rparr>))"
    by (rule hosted_op_run [OF run ok frames])
  have E: "\<not> over j (g, t)" "outputs s t bs"
    "R (scratch (vuarts s ! j)) (scratch (vuarts t ! j)) (fst (guest_sees j (g, t)) ! 0)"
    using effect [OF at f h] by blast+
  obtain e where e: "resumes j h el (g, t) e" and r: "r = Inr (reg (fst e) 0,
       \<lparr>hst_config = e, hst_log = hst_log w @ events (reg (fst e) 0), hst_out = hst_out w @ line_out s t\<rparr>)"
    using k E(1) by blast
  have v: "runs_guest j h el e" "reg (fst e) 0 = fst (guest_sees j (g, t)) ! 0" "vuarts (snd e) ! j = vuarts t ! j"
    using e by (simp_all add: resumes_def)
  have out: "line_out s t = bs" using E(2) by (auto simp: line_out_def outputs_def)
  let ?v = "\<lparr>hst_config = e, hst_log = hst_log w @ events (reg (fst e) 0), hst_out = hst_out w @ line_out s t\<rparr>"
  have "hosted_ok j others h el ?v"
    using ok v(1,3) keep [OF E(3) sc] by (simp add: hosted_ok_def log out v(2))
  then show ?thesis using r E(3) sc v(2)
    by (intro exI [of _ "reg (fst e) 0"] exI [of _ ?v] exI [of _ "scratch (vuarts s ! j)"] exI [of _ "scratch (vuarts t ! j)"]) simp
qed

lemma hosted_ends:
  assumes run: "hosted_op j others st hsr a setup events w = Some r" and ok: "hosted_ok j others h el w"
    and frames: "\<And>f. frame_ok f \<Longrightarrow> frame_ok (setup f)"
    and effect: "\<And>f s g t. at_trap j (trap_frame hsr a (setup f)) s \<Longrightarrow> frame_ok f \<Longrightarrow>
      hyp_handle_exception (trap_frame hsr a (setup f)) s = Some (0, g, t) \<Longrightarrow> trace_current_el s = el \<Longrightarrow>
      over j (g, t) \<and> outputs s t bs"
  shows "\<exists>v. r = Inl (st, v) \<and> hosted_ok j others h el v \<and> hst_log v = hst_log w @ [Gone bs]"
proof -
  obtain f s g t where "hst_config w = (f, s)" and at: "at_trap j (trap_frame hsr a (setup f)) s" and f: "frame_ok f"
    and "\<forall>v. last_scratch (hst_log w) None = Some v \<longrightarrow> scratch (vuarts s ! j) = v"
    and h: "hyp_handle_exception (trap_frame hsr a (setup f)) s = Some (0, g, t)"
    and el: "trace_current_el s = el" and k: "over j (g, t) \<longrightarrow> r = Inl (st, left_with (g, t) (line_out s t) w)"
    and "\<not> over j (g, t) \<longrightarrow> (\<exists>e. resumes j h el (g, t) e \<and> r = Inr (reg (fst e) 0,
       \<lparr>hst_config = e, hst_log = hst_log w @ events (reg (fst e) 0), hst_out = hst_out w @ line_out s t\<rparr>))"
    by (rule hosted_op_run [OF run ok frames])
  have o: "over j (g, t)" "line_out s t = bs" using effect [OF at f h el] by (auto simp: line_out_def outputs_def)
  moreover have "hosted_ok j others h el (left_with (g, t) bs w)" using ok o by (simp add: hosted_ok_def left_with_def)
  ultimately show ?thesis using k by (intro exI [of _ "left_with (g, t) bs w"]) (simp add: left_with_def)
qed

subsection \<open>The contract is kept\<close>

lemma set_args_frame: "frame_ok f \<Longrightarrow> frame_ok (set_args regs f)"
  by (induction regs f rule: set_args.induct) simp_all

lemma set_args_regs:
  assumes "frame_ok f" "length regs = 1 \<or> length regs = 2"
  shows "reg (trap_frame hsr a (set_args regs f)) 0 = hd regs" "length regs = 2 \<Longrightarrow> reg (trap_frame hsr a (set_args regs f)) 1 = regs ! 1"
  using assms by (auto simp: trap_frame_def hyp_vector_def frame_ok_def length_Suc_conv numeral_2_eq_2)

lemma at_trapD:
  assumes "at_trap j f s"
  shows "guest_call f s" "vms_built s" "\<not> hyp_except_verbose s" "\<not> hv_scheduler_verbose s" "cur_of s = j"
  using assms by (simp_all add: at_trap_def)

lemma hvc_effect:
  assumes "at_trap j (trap_frame HVC_SYNDROME 0 (set_args regs f)) s" "frame_ok f" "abi_call regs"
    and "hyp_handle_exception (trap_frame HVC_SYNDROME 0 (set_args regs f)) s = Some (0, g, t)"
  shows "\<not> over j (g, t) \<and> outputs s t (if hd regs = HYPERCALL_PUTCHAR then [ucast (regs ! 1)] else []) \<and>
    scratch (vuarts t ! j) = scratch (vuarts s ! j) \<and> abi_answer regs (fst (guest_sees j (g, t)) ! 0)"
proof -
  let ?F = "trap_frame HVC_SYNDROME 0 (set_args regs f)"
  note T = at_trapD [OF assms(1)]
  have len: "length regs = 1 \<or> length regs = 2" and ex: "hd regs \<noteq> HYPERCALL_EXIT"
    and two: "hd regs = HYPERCALL_PUTCHAR \<Longrightarrow> length regs = 2"
    using assms(3) by (auto simp: abi_call_def)
  note R = set_args_regs [OF assms(2) len, of HVC_SYNDROME 0]
  have h: "hyp_handle_guest_hypercall ?F s = Some (0, g, t)"
    using assms(4) trap_entry(1) [OF T(3)] by (simp add: trap_frame_def)
  from call_effect [OF T(1) assms(3) R(1) h] have
    "vuarts t = vuarts s" "\<not> over j (g, t)" "abi_answer regs (fst (guest_sees j (g, t)) ! 0)" by (simp_all add: T(5))
  moreover have "outputs s t (if hd regs = HYPERCALL_PUTCHAR then [ucast (regs ! 1)] else [])"
    using hypercall_outputs [OF T(1,4) h] R two ex by (cases "hd regs = HYPERCALL_PUTCHAR") simp_all
  ultimately show ?thesis by simp
qed

lemma hosted_hvc:
  assumes "hosted_ok j others h el w" "abi_call regs" "cpu_hvc (hosted_cpu j others) regs w = Some r"
  shows "\<exists>x v es. r = Inr (x, v) \<and> hosted_ok j others h el v \<and> hst_log v = hst_log w @ es @ [Hvc regs x] \<and> quiet_events es \<and>
    abi_answer regs x"
proof -
  obtain st where run: "hosted_op j others st HVC_SYNDROME 0 (set_args regs) (\<lambda>x. [Hvc regs x]) w = Some r"
    using assms(3) by (simp add: hosted_cpu_def)
  have "\<exists>x v y z. r = Inr (x, v) \<and> hosted_ok j others h el v \<and> hst_log v = hst_log w @ [Hvc regs x] \<and>
      (z = y \<and> abi_answer regs x) \<and> (\<forall>v. last_scratch (hst_log w) None = Some v \<longrightarrow> y = v)"
    by (rule hosted_does [OF run assms(1), where R = "\<lambda>y z x. z = y \<and> abi_answer regs x"
          and bs = "if hd regs = HYPERCALL_PUTCHAR then [ucast (regs ! 1)] else []"])
       (use hvc_effect [OF _ _ assms(2)] in \<open>simp_all add: set_args_frame last_scratch_append\<close>)
  then obtain x v where "r = Inr (x, v)" "hosted_ok j others h el v" "hst_log v = hst_log w @ [Hvc regs x]" "abi_answer regs x"
    by blast
  then show ?thesis by (intro exI [of _ x] exI [of _ v] exI [of _ "[]"]) simp
qed

lemma hosted_exit:
  assumes "hosted_ok j others h el w" "cpu_hvc (hosted_cpu j others) [HYPERCALL_EXIT, st] w = Some r"
  shows "\<exists>v es. r = Inl (uint st, v) \<and> hosted_ok j others h el v \<and>
    hst_log v = hst_log w @ es @ [Gone (crlf (exit_text el st))] \<and> quiet_events es"
proof -
  have run: "hosted_op j others (uint st) HVC_SYNDROME 0 (set_args [HYPERCALL_EXIT, st])
      (\<lambda>x. [Hvc [HYPERCALL_EXIT, st] x]) w = Some r"
    using assms(2) by (simp add: hosted_cpu_def)
  have "\<exists>v. r = Inl (uint st, v) \<and> hosted_ok j others h el v \<and> hst_log v = hst_log w @ [Gone (crlf (exit_text el st))]"
  proof (rule hosted_ends [OF run assms(1) set_args_frame])
    fix f s g t
    assume at: "at_trap j (trap_frame HVC_SYNDROME 0 (set_args [HYPERCALL_EXIT, st] f)) s" and f: "frame_ok f"
      and h: "hyp_handle_exception (trap_frame HVC_SYNDROME 0 (set_args [HYPERCALL_EXIT, st] f)) s = Some (0, g, t)"
      and el: "trace_current_el s = el"
    note T = at_trapD [OF at]
    have x: "hyp_handle_guest_hypercall (trap_frame HVC_SYNDROME 0 (set_args [HYPERCALL_EXIT, st] f)) s = Some (0, g, t)"
      using h trap_entry(1) [OF T(3)] by (simp add: trap_frame_def)
    note R = set_args_regs [OF f, of "[HYPERCALL_EXIT, st]" HVC_SYNDROME 0]
    show "over j (g, t) \<and> outputs s t (crlf (exit_text el st))"
      using exit_result [OF T(1) _ x] exit_outputs [OF T(1,4) _ x] R T(5) el by (simp add: over_def)
  qed simp_all
  then show ?thesis by fastforce
qed

lemma hosted_wfi:
  assumes "hosted_ok j others h el w" "cpu_wfi (hosted_cpu j others) w = Some q"
  shows "\<exists>v es. q = Inr ((), v) \<and> hosted_ok j others h el v \<and> hst_log v = hst_log w @ es \<and> quiet_events es"
proof -
  let ?op = "hosted_op j others (- 1) WFI_SYNDROME 0 id (\<lambda>_. [])"
  have effect: "\<not> over j (g, t) \<and> outputs s t [] \<and> scratch (vuarts t ! j) = scratch (vuarts s ! j)"
    if at: "at_trap j (trap_frame WFI_SYNDROME 0 (id f)) s"
      and h: "hyp_handle_exception (trap_frame WFI_SYNDROME 0 (id f)) s = Some (0, g, t)" for f s g t
  proof -
    note T = at_trapD [OF at]
    have w: "hv_scheduler_handle_wfi (trap_frame WFI_SYNDROME 0 (id f)) s = Some (0, g, t)"
      using h trap_entry(2) [OF T(3)] by (simp add: trap_frame_def)
    show ?thesis using wfi_effect [OF T(1) w] wfi_outputs [OF T(4) _ w] sched_wfD(4) [OF guest_callD(2) [OF T(1)]] T(5) by simp
  qed
  have "\<exists>x v y z. r = Inr (x, v) \<and> hosted_ok j others h el v \<and> hst_log v = hst_log w @ [] \<and>
      z = y \<and> (\<forall>v. last_scratch (hst_log w) None = Some v \<longrightarrow> y = v)" if run: "?op w = Some r" for r
    by (rule hosted_does [OF run assms(1), where R = "\<lambda>y z x. z = y" and bs = "[]"]) (use effect in \<open>simp_all\<close>)
  moreover obtain r where "?op w = Some r" "andthen ?op (\<lambda>_. ret ()) w = Some q"
    using assms(2) by (cases "?op w") (simp_all add: hosted_cpu_def andthen_def)
  ultimately show ?thesis by (fastforce simp: andthen_def ret_def)
qed

lemma hosted_load:
  assumes "hosted_ok j others h el w" "offset \<in> uart_loads" "cpu_load (hosted_cpu j others) (uart_at offset) w = Some r"
  shows "\<exists>x v. r = Inr (x, v) \<and> hosted_ok j others h el v \<and> hst_log v = hst_log w @ [Load (uart_at offset) x] \<and>
    uart_answer offset (hst_log w) x"
proof -
  let ?R = "\<lambda>y z x. z = y \<and> (offset = HV_GUEST_AUX_MU_LSR_REG \<longrightarrow> x AND 0x20 \<noteq> 0) \<and> (offset = HV_GUEST_AUX_MU_SCRATCH \<longrightarrow> x = y)"
  have run: "hosted_op j others (- 1) LOAD_SYNDROME (uart_at offset) id (\<lambda>x. [Load (uart_at offset) x]) w = Some r"
    using assms(3) by (simp add: hosted_cpu_def)
  have effect: "\<not> over j (g, t) \<and> outputs s t [] \<and>
      ?R (scratch (vuarts s ! j)) (scratch (vuarts t ! j)) (fst (guest_sees j (g, t)) ! 0)"
    if at: "at_trap j (trap_frame LOAD_SYNDROME (uart_at offset) (id f)) s" and "frame_ok f"
      and h: "hyp_handle_exception (trap_frame LOAD_SYNDROME (uart_at offset) (id f)) s = Some (0, g, t)" for f s g t
  proof -
    note T = at_trapD [OF at]
    have "handle_guest_abort (trap_frame LOAD_SYNDROME (uart_at offset) (id f)) s = Some (0, g, t)"
      using h trap_entry(3) [OF T(3)] by (simp add: trap_frame_def)
    note L = load_effect [OF T(1-3) assms(2) refl this]
    then have io: "io_out s t []" by blast
    have "\<not> over j (g, t)" "cur_of t = j" "vuarts t = vuarts s"
      using stays_not_over [OF T(1) stays_io [OF io]] io_machine(2,9) [OF io] T(5) by (simp_all add: env_same_def)
    then show ?thesis using L outputs_io [OF io] T(5) by (simp add: guest_r0)
  qed
  have "\<exists>x v y z. r = Inr (x, v) \<and> hosted_ok j others h el v \<and> hst_log v = hst_log w @ [Load (uart_at offset) x] \<and>
      ?R y z x \<and> (\<forall>v. last_scratch (hst_log w) None = Some v \<longrightarrow> y = v)"
    by (rule hosted_does [OF run assms(1) _ effect]) (simp_all add: last_scratch_append)
  then show ?thesis by (auto simp: uart_answer_def)
qed

lemma hosted_store:
  assumes "hosted_ok j others h el w" "offset \<in> uart_stores" "cpu_store (hosted_cpu j others) (uart_at offset) x w = Some q"
  shows "\<exists>v. q = Inr ((), v) \<and> hosted_ok j others h el v \<and> hst_log v = hst_log w @ [Store (uart_at offset) x]"
proof -
  let ?op = "hosted_op j others (- 1) STORE_SYNDROME (uart_at offset) (set_reg 0 x) (\<lambda>_. [Store (uart_at offset) x])"
  let ?R = "\<lambda>y z _. z = (if offset = HV_GUEST_AUX_MU_SCRATCH then x else y)"
  let ?bs = "if offset = HV_GUEST_AUX_MU_IO_REG then [ucast x] else []"
  have effect: "\<not> over j (g, t) \<and> outputs s t ?bs \<and>
      ?R (scratch (vuarts s ! j)) (scratch (vuarts t ! j)) (fst (guest_sees j (g, t)) ! 0)"
    if at: "at_trap j (trap_frame STORE_SYNDROME (uart_at offset) (set_reg 0 x f)) s" and f: "frame_ok f"
      and h: "hyp_handle_exception (trap_frame STORE_SYNDROME (uart_at offset) (set_reg 0 x f)) s = Some (0, g, t)" for f s g t
  proof -
    note T = at_trapD [OF at]
    have "handle_guest_abort (trap_frame STORE_SYNDROME (uart_at offset) (set_reg 0 x f)) s = Some (0, g, t)"
      using h trap_entry(4) [OF T(3)] by (simp add: trap_frame_def)
    moreover have "reg (trap_frame STORE_SYNDROME (uart_at offset) (set_reg 0 x f)) 0 = x"
      using f by (simp add: trap_frame_def hyp_vector_def frame_ok_def)
    ultimately show ?thesis using store_effect [OF T(1-3) assms(2) refl] T(5) by simp
  qed
  have at: "uart_at offset = uart_at HV_GUEST_AUX_MU_SCRATCH \<longleftrightarrow> offset = HV_GUEST_AUX_MU_SCRATCH"
    "uart_at offset = uart_at HV_GUEST_AUX_MU_IO_REG \<longleftrightarrow> offset = HV_GUEST_AUX_MU_IO_REG"
    by (simp_all add: uart_at_def)
  have "\<exists>a v y z. r = Inr (a, v) \<and> hosted_ok j others h el v \<and> hst_log v = hst_log w @ [Store (uart_at offset) x] \<and>
      ?R y z a \<and> (\<forall>v. last_scratch (hst_log w) None = Some v \<longrightarrow> y = v)" if run: "?op w = Some r" for r
    by (rule hosted_does [OF run assms(1) _ effect]) (simp_all add: last_scratch_append at)
  moreover obtain r where "?op w = Some r" "andthen ?op (\<lambda>_. ret ()) w = Some q"
    using assms(3) by (cases "?op w") (simp_all add: hosted_cpu_def andthen_def)
  ultimately show ?thesis by (fastforce simp: andthen_def ret_def)
qed

lemma hosted_guard:
  assumes "hosted_ok j others h el w" "cpu_load (hosted_cpu j others) GUEST_STAGE2_GUARD_PAGE w = Some r"
  shows "\<exists>v. r = Inl (- 1, v) \<and> hosted_ok j others h el v \<and> hst_log v = hst_log w @ [Gone []]"
proof -
  have run: "hosted_op j others (- 1) LOAD_SYNDROME GUEST_STAGE2_GUARD_PAGE id (\<lambda>x. [Load GUEST_STAGE2_GUARD_PAGE x]) w = Some r"
    using assms(2) by (simp add: hosted_cpu_def)
  show ?thesis
  proof (rule hosted_ends [OF run assms(1)])
    fix f s g t
    assume at: "at_trap j (trap_frame LOAD_SYNDROME GUEST_STAGE2_GUARD_PAGE (id f)) s"
      and h: "hyp_handle_exception (trap_frame LOAD_SYNDROME GUEST_STAGE2_GUARD_PAGE (id f)) s = Some (0, g, t)"
    note T = at_trapD [OF at]
    have "handle_guest_abort (trap_frame LOAD_SYNDROME GUEST_STAGE2_GUARD_PAGE (id f)) s = Some (0, g, t)"
      using h trap_entry(3) [OF T(3)] by (simp add: trap_frame_def)
    from guard_effect [OF T(1-4) refl this] T(5) show "over j (g, t) \<and> outputs s t []" by simp
  qed simp
qed

interpretation hosted: guest_machine "hosted_cpu j others" "hosted_ok j others h el" hst_log
    "\<lambda>st. crlf (exit_text el st)" for j others h el
proof
  show "\<exists>b v. p = Inr (b, v) \<and> hosted_ok j others h el v \<and> hst_log v = hst_log w"
    if "hosted_ok j others h el w" "cpu_virq (hosted_cpu j others) w = Some p" for w p
    using that by (auto simp: hosted_cpu_def ret_def)
qed (fact hosted_hvc hosted_exit hosted_wfi hosted_load hosted_store hosted_guard)+

end
