(* ===== verification/Guest_Live.thy ===== *)
theory Guest_Live
  imports Guest_Spec
begin

section \<open>Guests that run to their end\<close>

text \<open>
  The contract \<open>guest_machine\<close> says what an operation comes back with. \<open>guest_live\<close> adds that some do come
  back: the calls numbered in \<open>calls\<close>, the end of the guest, and the fault on the guard page, while the
  guest is \<open>alive\<close>. With it the programs that use no other call return.
\<close>

locale guest_live = guest_machine +
  fixes alive :: "'a \<Rightarrow> bool" and calls :: "u32 set"
  assumes alive: "ok w \<Longrightarrow> cpu_hvc m regs w = Some (Inr (x, v)) \<Longrightarrow> alive v"
    and call_returns: "ok w \<Longrightarrow> alive w \<Longrightarrow> abi_call regs \<Longrightarrow> hd regs \<in> calls \<Longrightarrow> cpu_hvc m regs w \<noteq> None"
    and exit_returns: "ok w \<Longrightarrow> alive w \<Longrightarrow> cpu_hvc m [HYPERCALL_EXIT, st] w \<noteq> None"
    and guard_returns: "ok w \<Longrightarrow> alive w \<Longrightarrow> cpu_load m GUEST_STAGE2_GUARD_PAGE w \<noteq> None"

text \<open>\<open>f\<close> comes back, with the guest alive if it goes on.\<close>

definition runs :: "('w \<Rightarrow> bool) \<Rightarrow> ('w \<Rightarrow> bool) \<Rightarrow> ('w \<Rightarrow> ('a, 'w) outcome) \<Rightarrow> bool" where
  "runs ok alive f \<longleftrightarrow> (\<forall>w. ok w \<longrightarrow> alive w \<longrightarrow> (\<exists>r. f w = Some r \<and> (\<forall>a v. r = Inr (a, v) \<longrightarrow> alive v)))"

lemma runs_ret: "runs ok alive (ret a)"
  by (simp add: runs_def ret_def)

lemma runsD: "runs ok alive f \<Longrightarrow> ok w \<Longrightarrow> alive w \<Longrightarrow> \<exists>r. f w = Some r \<and> (\<forall>a v. r = Inr (a, v) \<longrightarrow> alive v)"
  by (simp add: runs_def)

lemma runs_sequence:
  assumes "runs ok alive f" "does ok log f P" "\<And>a es. P a es \<Longrightarrow> runs ok alive (g a)"
  shows "runs ok alive (andthen f g)"
  unfolding runs_def
proof (intro allI impI)
  fix w
  assume w: "ok w" "alive w"
  obtain r where r: "f w = Some r" "\<forall>a v. r = Inr (a, v) \<longrightarrow> alive v" using runsD [OF assms(1) w] by blast
  obtain a v es where v: "r = Inr (a, v)" "ok v" "P a es" using doesD [OF assms(2) w(1) r(1)] by blast
  have "alive v" using r(2) v(1) by blast
  from runsD [OF assms(3) [OF v(3)] v(2) this]
  obtain q where "g a v = Some q" "\<forall>b u. q = Inr (b, u) \<longrightarrow> alive u" by blast
  then show "\<exists>r. andthen f g w = Some r \<and> (\<forall>a v. r = Inr (a, v) \<longrightarrow> alive v)"
    using r(1) v(1) by (simp add: andthen_def)
qed

text \<open>An operation that ends the guest.\<close>

lemma runs_end:
  assumes "\<And>w. ok w \<Longrightarrow> alive w \<Longrightarrow> f w \<noteq> None" "ends ok log f c Q"
  shows "runs ok alive (andthen f g)"
  unfolding runs_def
proof (intro allI impI)
  fix w
  assume w: "ok w" "alive w"
  then obtain r where r: "f w = Some r" using assms(1) by blast
  then obtain v where "r = Inl (c, v)" using assms(2) w(1) unfolding ends_def by blast
  then show "\<exists>r. andthen f g w = Some r \<and> (\<forall>a v. r = Inr (a, v) \<longrightarrow> alive v)" using r by (simp add: andthen_def)
qed

lemma runs_prints: "runs ok alive f \<Longrightarrow> prints ok log f bs \<Longrightarrow> (\<And>a. runs ok alive (g a)) \<Longrightarrow> runs ok alive (andthen f g)"
  unfolding prints_def by (rule runs_sequence)

context guest_live
begin

lemma runs_hvc: "abi_call regs \<Longrightarrow> hd regs \<in> calls \<Longrightarrow> runs ok alive (cpu_hvc m regs)"
  unfolding runs_def
proof (intro allI impI)
  fix w
  assume "abi_call regs" "hd regs \<in> calls" "ok w" "alive w"
  then obtain r where "cpu_hvc m regs w = Some r" using call_returns by blast
  with alive [OF \<open>ok w\<close>] show "\<exists>r. cpu_hvc m regs w = Some r \<and> (\<forall>a v. r = Inr (a, v) \<longrightarrow> alive v)" by blast
qed

lemma runs_exit: "runs ok alive (guest_exit m st)"
  unfolding guest_exit_def guest_hypercall1_def by (rule runs_end [OF exit_returns does_exit])

lemma runs_passed: "\<not> bad \<Longrightarrow> runs ok alive (g ()) \<Longrightarrow> runs ok alive (andthen (fail_if m bad) g)"
  by (simp add: fail_if_def andthen_def runs_def ret_def)

lemma runs_putchar: "HYPERCALL_PUTCHAR \<in> calls \<Longrightarrow> runs ok alive (guest_putchar m c)"
  unfolding guest_putchar_def guest_hypercall1_def
  by (rule runs_sequence [OF runs_hvc does_hvc]) (simp_all add: abi_call_def runs_ret)

lemma runs_putc: "HYPERCALL_PUTCHAR \<in> calls \<Longrightarrow> runs ok alive (guest_printk_putc m c)"
proof -
  assume "HYPERCALL_PUTCHAR \<in> calls"
  note put = runs_putchar [OF this]
  have "prints ok log (if c = CHR 0x0A then guest_putchar m 0x0D else ret ()) (if c = CHR 0x0A then [0x0D] else [])"
    by (simp add: prints_putchar prints_ret)
  moreover have "runs ok alive (if c = CHR 0x0A then guest_putchar m 0x0D else ret ())" by (simp add: put runs_ret)
  ultimately show ?thesis unfolding guest_printk_putc_def by (intro runs_prints put)
qed

lemma runs_putcs:
  assumes "HYPERCALL_PUTCHAR \<in> calls" "ok w" "alive w"
  shows "\<exists>v. putcs (\<lambda>c. while_running (guest_printk_putc m c)) t (Inr w) = Some (Inr v) \<and> alive v"
  using assms(2,3)
proof (induction t arbitrary: w)
  case (Cons c t)
  obtain q where q: "guest_printk_putc m c w = Some q" "\<forall>a v. q = Inr (a, v) \<longrightarrow> alive v"
    using runsD [OF runs_putc [OF assms(1)] Cons.prems] by blast
  obtain v where v: "q = Inr ((), v)" "ok v" using doesD [OF prints_putc [unfolded prints_def] Cons.prems(1) q(1)] by auto
  from Cons.IH [OF v(2)] q(2) v(1) show ?case using q(1) v(1) by (simp add: while_running_Inr)
qed simp

lemma runs_printk:
  assumes "HYPERCALL_PUTCHAR \<in> calls" "format fmt args = Some t"
  shows "runs ok alive (guest_printk m fmt args)"
  unfolding runs_def
proof (intro allI impI)
  fix w
  assume "ok w" "alive w"
  from runs_putcs [OF assms(1) this, of t] obtain v where
    "putcs (\<lambda>c. while_running (guest_printk_putc m c)) t (Inr w) = Some (Inr v)" "alive v" by blast
  then show "\<exists>r. guest_printk m fmt args w = Some r \<and> (\<forall>a v. r = Inr (a, v) \<longrightarrow> alive v)"
    using assms(2) by (simp add: guest_printk_def guest_vprintk_def vprintk_format)
qed

lemma hello_runs:
  assumes "{HYPERCALL_PUTCHAR, HYPERCALL_GET_ABI_VERSION, HYPERCALL_GET_FEATURES} \<subseteq> calls"
  shows "runs ok alive (hello_main m)"
proof -
  have f: "format (''hello from guest'' @ nl) [] = Some (''hello from guest'' @ nl)" by (rule format_plain) (simp add: nl_def)
  have put: "HYPERCALL_PUTCHAR \<in> calls" using assms by simp
  have calls: "runs ok alive (guest_get_abi_version m)" "runs ok alive (guest_get_features m)"
    unfolding guest_get_abi_version_def guest_get_features_def guest_hypercall0_def
    using assms by (auto intro: runs_hvc simp: abi_call_def)
  show ?thesis unfolding hello_main_def
    by (intro runs_prints [OF runs_printk [OF put f] prints_printk [OF f]] runs_sequence [OF calls(1) does_version]
        runs_sequence [OF calls(2) does_features] runs_passed runs_exit) simp_all
qed

lemma fault_runs:
  assumes "{HYPERCALL_PUTCHAR, HYPERCALL_GET_ABI_VERSION} \<subseteq> calls"
  shows "runs ok alive (fault_main m)"
proof -
  have f: "format (''guest stage2 fault: hello from mapped RAM'' @ nl) [] = Some (''guest stage2 fault: hello from mapped RAM'' @ nl)"
    "format (''guest stage2 fault: touching guard page'' @ nl) [] = Some (''guest stage2 fault: touching guard page'' @ nl)"
    by (rule format_plain, simp add: nl_def)+
  have put: "HYPERCALL_PUTCHAR \<in> calls" using assms by simp
  have version: "runs ok alive (guest_get_abi_version m)"
    unfolding guest_get_abi_version_def guest_hypercall0_def using assms by (auto intro: runs_hvc simp: abi_call_def)
  have last: "runs ok alive (andthen (cpu_load m GUEST_STAGE2_GUARD_PAGE) g)" for g :: "u32 \<Rightarrow> 'a \<Rightarrow> (unit, 'a) outcome"
    by (rule runs_end [OF guard_returns ends_guard])
  show ?thesis unfolding fault_main_def
    by (intro runs_prints [OF runs_printk [OF put f(1)] prints_printk [OF f(1)]] runs_sequence [OF version does_version]
        runs_passed runs_prints [OF runs_printk [OF put f(2)] prints_printk [OF f(2)]] last) simp
qed

lemma sched_rounds_runs:
  assumes "{HYPERCALL_PUTCHAR, HYPERCALL_YIELD} \<subseteq> calls"
  shows "runs ok alive (sched_rounds k m gid)"
proof (induction k)
  case (Suc k)
  have yield: "runs ok alive (guest_yield m)"
    unfolding guest_yield_def guest_hypercall0_def
    by (rule runs_sequence [OF runs_hvc does_hvc]) (use assms in \<open>simp_all add: abi_call_def runs_ret\<close>)
  have put: "HYPERCALL_PUTCHAR \<in> calls" using assms by simp
  show ?case unfolding sched_rounds.simps
    by (intro runs_prints [OF runs_printk [OF put format_sched_line] prints_printk [OF format_sched_line]]
        runs_prints [OF yield prints_yield] Suc.IH)
qed (simp add: runs_ret)

lemma sched_runs:
  assumes "{HYPERCALL_PUTCHAR, HYPERCALL_YIELD} \<subseteq> calls"
  shows "runs ok alive (sched_main m gid)"
  unfolding sched_main_def
  by (rule runs_prints [OF sched_rounds_runs [OF assms] sched_rounds_prints runs_exit])

end

end
