(* ===== verification/Guest_Results.thy ===== *)
theory Guest_Results
  imports Guest_Hosted Guest_Live
begin

section \<open>What the guest programs do on the hypervisor\<close>

text \<open>
  The results for whole programs. Where the rest of the world gives the processor back to a guest that
  can run, and the serial line works, the programs that do not sleep come to their end, and the world
  can be like that: the other guest may just yield. For the programs that wait for an interrupt the
  results are about the runs that end. The output counted is what the hypervisor transmits while it handles
  the operations of the guest, the last one included; what the rest of the world prints is not counted.
\<close>

subsection \<open>Operations that come back\<close>

definition tx_ready :: "(nat \<Rightarrow> hw_port \<Rightarrow> u32) \<Rightarrow> bool" where
  "tx_ready h \<longleftrightarrow> (\<forall>n. \<exists>k \<ge> n. h k (Dev AUX_MU_LSR_REG) AND 0x20 \<noteq> 0)"

text \<open>The guest gets the processor back if it can run and no interrupt has to come first.\<close>

definition others_return :: "nat \<Rightarrow> (config \<Rightarrow> config option) \<Rightarrow> (nat \<Rightarrow> hw_port \<Rightarrow> u32) \<Rightarrow> bool" where
  "others_return j others h \<longleftrightarrow> (\<forall>d. sys_inv d \<longrightarrow> \<not> hyp_except_verbose (snd d) \<longrightarrow> hw_in (snd d) = h \<longrightarrow>
     cur_of (snd d) = j \<or> runnable (snd d) j \<and> cur_of (snd d) < HV_MAX_GUEST_VCPUS \<longrightarrow> others d \<noteq> None)"

definition live_ok :: "nat \<Rightarrow> (config \<Rightarrow> config option) \<Rightarrow> (nat \<Rightarrow> hw_port \<Rightarrow> u32) \<Rightarrow> string \<Rightarrow> hosted \<Rightarrow> bool" where
  "live_ok j others h el w \<longleftrightarrow> hosted_ok j others h el w \<and> tx_ready h \<and> others_return j others h"

lemma ready_live: "tx_ready (hw_in s) = uart_live s"
  by (simp add: tx_ready_def uart_live_def port_live_def)

lemma hosted_op_returns:
  assumes ok: "live_ok j others h el w" and w: "\<not> over j (hst_config w)" and frames: "\<And>f. frame_ok f \<Longrightarrow> frame_ok (setup f)"
    and effect: "\<And>f s. at_trap j (trap_frame hsr a (setup f)) s \<Longrightarrow> frame_ok f \<Longrightarrow> uart_live s \<Longrightarrow>
      \<exists>g t. hyp_handle_exception (trap_frame hsr a (setup f)) s = Some (0, g, t) \<and>
        (over j (g, t) \<or> cur_of t = j \<or> runnable t j \<and> cur_of t < HV_MAX_GUEST_VCPUS)"
  shows "hosted_op j others st hsr a setup events w \<noteq> None"
proof -
  obtain f s where c: "hst_config w = (f, s)" by fastforce
  have rg: "runs_guest j h el (f, s)" and j: "j < 2" and ret: "others_return j others h" and lr: "tx_ready h"
    using ok w c by (simp_all add: live_ok_def hosted_ok_def)
  have f: "frame_ok f" using rg by (simp add: runs_guest_def sys_inv_def)
  have at: "at_trap j (trap_frame hsr a (setup f)) s"
    using rg j frames [OF f] by (simp add: at_trap_def runs_guest_def sys_inv_def guest_call_def trap_frame_def)
  have "uart_live s" using rg lr ready_live [of s] by (simp add: runs_guest_def)
  from effect [OF at f this] obtain g t where h: "hyp_handle_exception (trap_frame hsr a (setup f)) s = Some (0, g, t)"
    and k: "over j (g, t) \<or> cur_of t = j \<or> runnable t j \<and> cur_of t < 2" by blast
  have tr: "hosted_trap hsr a (drop_bit 8 a AND 0xfffffff0) (setup f, s) = Some (g, t)"
    using h by (simp add: hosted_trap_def trap_frame_def)
  note I = trap_inv [OF at frames [OF f] h]
  have "others (g, t) \<noteq> None" if "\<not> over j (g, t)"
    using ret I rg k that unfolding others_return_def runs_guest_def sys_same_def by (metis snd_conv)
  then show ?thesis using w c tr unfolding hosted_op_def Let_def by (auto simp del: split_paired_Ex)
qed

lemma hvc_alive:
  assumes "live_ok j others h el w" "cpu_hvc (hosted_cpu j others) regs w = Some (Inr (x, v))"
  shows "\<not> over j (hst_config v)"
proof -
  obtain st where run: "hosted_op j others st HVC_SYNDROME 0 (set_args regs) (\<lambda>x. [Hvc regs x]) w = Some (Inr (x, v))"
    using assms(2) by (simp add: hosted_cpu_def)
  have ok: "hosted_ok j others h el w" using assms(1) by (simp add: live_ok_def)
  obtain f s g t where "over j (g, t) \<longrightarrow> Inr (x, v) = Inl (st, left_with (g, t) (line_out s t) w)"
    and k: "\<not> over j (g, t) \<longrightarrow> (\<exists>e. resumes j h el (g, t) e \<and> Inr (x, v) = Inr (reg (fst e) 0,
       \<lparr>hst_config = e, hst_log = hst_log w @ [Hvc regs (reg (fst e) 0)], hst_out = hst_out w @ line_out s t\<rparr>))"
    by (rule hosted_op_run [OF run ok set_args_frame]) blast+
  then obtain e where "resumes j h el (g, t) e" "v = \<lparr>hst_config = e, hst_log = hst_log w @ [Hvc regs (reg (fst e) 0)],
      hst_out = hst_out w @ line_out s t\<rparr>" by auto
  then show ?thesis using resumes_not_over [of j h el "(g, t)" e] by simp
qed

lemma call_returns_here:
  assumes "at_trap j (trap_frame HVC_SYNDROME 0 (set_args regs f)) s" "frame_ok f" "uart_live s" "abi_call regs"
    and "hd regs \<in> {HYPERCALL_GET_ABI_VERSION, HYPERCALL_GET_FEATURES, HYPERCALL_YIELD, HYPERCALL_PUTCHAR}"
  shows "\<exists>g t. hyp_handle_exception (trap_frame HVC_SYNDROME 0 (set_args regs f)) s = Some (0, g, t) \<and>
    (cur_of t = j \<or> runnable t j \<and> cur_of t < HV_MAX_GUEST_VCPUS)"
proof -
  let ?F = "trap_frame HVC_SYNDROME 0 (set_args regs f)"
  note T = at_trapD [OF assms(1)]
  have len: "length regs = 1 \<or> length regs = 2" using assms(4) by (auto simp: abi_call_def)
  note R = set_args_regs(1) [OF assms(2) len, of HVC_SYNDROME 0]
  have e: "hyp_handle_exception ?F s = hyp_handle_guest_hypercall ?F s"
    using trap_entry(1) [OF T(3)] by (simp add: trap_frame_def)
  have "reg ?F 0 \<noteq> HYPERCALL_TIMER_GET_FREQ" using R assms(5) by auto
  then have "hyp_handle_guest_hypercall ?F s \<noteq> None" using hypercall_returns [OF T(1) assms(3)] by blast
  then obtain r g t where h: "hyp_handle_guest_hypercall ?F s = Some (r, g, t)" by auto
  have "known_hypercall (reg ?F 0)" using R assms(5) by (auto simp: known_hypercall_def)
  then have r: "r = 0" using hypercall_handled [OF T(1) h] by simp
  have "cur_of t = j \<or> runnable t j \<and> cur_of t < 2"
  proof (cases "hd regs = HYPERCALL_YIELD")
    case True
    note G = guest_callD [OF T(1)]
    have y: "hv_scheduler_yield ?F s = Some (r, g, t)" using h call_yield [of ?F s] R True by simp
    note Y = yield_spec [OF G(1,3,4) y]
    show ?thesis
    proof (cases "yield_target s = cur_of s")
      case True
      then show ?thesis using Y(3) T(5) by simp
    next
      case False
      then have "vcpu_at j t = saved_vcpu ?F s" using Y(2) T(5) by (simp add: switched_def)
      moreover have "vcpu_id (vcpu_at j s) \<noteq> HV_IDLE_VCPU_ID" using G(6) T(5) by (simp add: hv_scheduler_is_idle_vcpu_def)
      ultimately have "runnable t j" using G(3,7) T(5) by (simp add: runnable_def saved_vcpu_def leave_state)
      moreover have "cur_of t < 2" using Y(1) False by (simp add: sched_post_def yield_target_def runnable_def split: if_splits)
      ultimately show ?thesis by blast
    qed
  next
    case False
    then consider "hd regs = 0" | "hd regs = 1" | "hd regs = 5" using assms(5) by auto
    then show ?thesis
    proof cases
      case 3
      then obtain u where "UART_Put8 (ucast (reg ?F 1)) s = Some u" "u = t"
        using call_putchar [of ?F s] h R by (cases "UART_Put8 (ucast (reg ?F 1)) s") auto
      then show ?thesis using io_machine(9) [OF UART_Put8_io] T(5) by simp
    qed (use call_constant(1,2) [of ?F s] h R T(5) in auto)
  qed
  then show ?thesis using h r e by auto
qed

lemma exit_returns_here:
  assumes "at_trap j (trap_frame HVC_SYNDROME 0 (set_args [HYPERCALL_EXIT, st] f)) s" "frame_ok f" "uart_live s"
  shows "\<exists>g t. hyp_handle_exception (trap_frame HVC_SYNDROME 0 (set_args [HYPERCALL_EXIT, st] f)) s = Some (0, g, t) \<and> over j (g, t)"
proof -
  let ?F = "trap_frame HVC_SYNDROME 0 (set_args [HYPERCALL_EXIT, st] f)"
  note T = at_trapD [OF assms(1)]
  have R: "reg ?F 0 = HYPERCALL_EXIT" using set_args_regs(1) [OF assms(2), of "[HYPERCALL_EXIT, st]"] by simp
  have e: "hyp_handle_exception ?F s = hyp_handle_guest_hypercall ?F s"
    using trap_entry(1) [OF T(3)] by (simp add: trap_frame_def)
  have "hyp_handle_guest_hypercall ?F s \<noteq> None" using hypercall_returns [OF T(1) assms(3)] R by simp
  then obtain r g t where h: "hyp_handle_guest_hypercall ?F s = Some (r, g, t)" by auto
  have "known_hypercall (reg ?F 0)" unfolding R by (simp add: known_hypercall_def)
  then have "r = 0" using hypercall_handled [OF T(1) h] by simp
  then show ?thesis using exit_result [OF T(1) R h] h e T(5) by (auto simp: over_def)
qed

lemma guard_returns_here:
  assumes "at_trap j (trap_frame LOAD_SYNDROME GUEST_STAGE2_GUARD_PAGE f) s" "uart_live s"
  shows "\<exists>g t. hyp_handle_exception (trap_frame LOAD_SYNDROME GUEST_STAGE2_GUARD_PAGE f) s = Some (0, g, t) \<and> over j (g, t)"
proof -
  let ?F = "trap_frame LOAD_SYNDROME GUEST_STAGE2_GUARD_PAGE f"
  note T = at_trapD [OF assms(1)]
  note G = guest_callD [OF T(1)]
  have e: "hyp_handle_exception ?F s = handle_guest_abort ?F s"
    using trap_entry(3) [OF T(3)] by (simp add: trap_frame_def)
  have "fault_ipa (hosted_fault s LOAD_SYNDROME GUEST_STAGE2_GUARD_PAGE f) = ucast GUEST_STAGE2_GUARD_PAGE"
    by (rule hosted_fault_sel) simp
  then have "handle_guest_abort ?F s = hv_scheduler_advance ?F (exit_current s)"
    using abort_route [OF T(1-3) refl] guard_find [OF T(1,2)] guest_region_bounds(8) T(3) stop_eq [of s ?F]
    by (simp add: guest_abort_in_vm_def log_stage2_fault_def)
  moreover have "returns_ok (exit_current s)"
    using live_returns [OF assms(2) exit_current_spec(7) [OF G(2,3)]] .
  ultimately obtain r g t where h: "handle_guest_abort ?F s = Some (r, g, t)"
    using advance_returns [OF sched_wfD(4) [OF exit_current_spec(2) [OF G(2,3)]], of ?F] by auto
  have "r = 0" using guest_abort_spec [OF T(1) vms_built_ok [OF T(2)] h] by (auto simp: stopped_def emulated_def)
  then show ?thesis using guard_effect [OF T(1-4) refl h] h e T(5) by auto
qed

lemma guest_machine_and:
  assumes "guest_machine m ok log farewell"
  shows "guest_machine m (\<lambda>w. ok w \<and> C) log farewell"
proof (cases C)
  case False
  then show ?thesis by unfold_locales simp_all
qed (use assms in simp)

lemma live_machine: "guest_machine (hosted_cpu j others) (live_ok j others h el) hst_log (\<lambda>st. crlf (exit_text el st))"
  using guest_machine_and [OF hosted.guest_machine_axioms, where C = "tx_ready h \<and> others_return j others h"]
  unfolding live_ok_def by simp

interpretation hosted_live: guest_live "hosted_cpu j others" "live_ok j others h el" hst_log
    "\<lambda>st. crlf (exit_text el st)" "\<lambda>w. \<not> over j (hst_config w)"
    "{HYPERCALL_GET_ABI_VERSION, HYPERCALL_GET_FEATURES, HYPERCALL_YIELD, HYPERCALL_PUTCHAR}" for j others h el
proof (rule guest_live.intro [OF live_machine], rule guest_live_axioms.intro)
  fix w x v regs
  assume "live_ok j others h el w" "cpu_hvc (hosted_cpu j others) regs w = Some (Inr (x, v))"
  then show "\<not> over j (hst_config v)" by (rule hvc_alive)
next
  fix w regs
  assume w: "live_ok j others h el w" "\<not> over j (hst_config w)" and c: "abi_call regs"
    "hd regs \<in> {HYPERCALL_GET_ABI_VERSION, HYPERCALL_GET_FEATURES, HYPERCALL_YIELD, HYPERCALL_PUTCHAR}"
  show "cpu_hvc (hosted_cpu j others) regs w \<noteq> None"
    unfolding hosted_cpu_def guest_cpu.select_convs
    by (rule hosted_op_returns [OF w set_args_frame]) (use call_returns_here [OF _ _ _ c] in blast)+
next
  fix w st
  assume w: "live_ok j others h el w" "\<not> over j (hst_config w)"
  show "cpu_hvc (hosted_cpu j others) [HYPERCALL_EXIT, st] w \<noteq> None"
    unfolding hosted_cpu_def guest_cpu.select_convs
    by (rule hosted_op_returns [OF w set_args_frame]) (use exit_returns_here in blast)+
next
  fix w
  assume w: "live_ok j others h el w" "\<not> over j (hst_config w)"
  show "cpu_load (hosted_cpu j others) GUEST_STAGE2_GUARD_PAGE w \<noteq> None"
    unfolding hosted_cpu_def guest_cpu.select_convs
    by (rule hosted_op_returns [OF w]) (simp, use guard_returns_here in \<open>metis id_apply\<close>)
qed

subsection \<open>A world that gives the processor back\<close>

text \<open>The other guest does nothing but yield.\<close>

definition yielding :: "nat \<Rightarrow> config \<Rightarrow> config option" where
  "yielding j c =
     (if cur_of (snd c) = j then Some c
      else if cur_of (snd c) < HV_MAX_GUEST_VCPUS then do {
        d \<leftarrow> hosted_trap HVC_SYNDROME 0 0 (set_reg 0 HYPERCALL_YIELD (fst c), snd c);
        if cur_of (snd d) = j then Some d else None }
      else None)"

lemma guest_step_run:
  assumes "cur_of s < 2" "frame_ok g0" "hyp_handle_exception (hyp_vector HYP_EXCEPTION_LOWER_SYNC hsr a 0 hp g0) s = Some (0, g, t)"
  shows "hv_run [Guest (cur_of s), Guest (cur_of s)] (f, s) (g, t)"
proof -
  have "hv_step (Guest (cur_of s)) (f, s) (g0, s\<lparr>banked := banked s, vbar := vbar s\<rparr>)"
    by (rule guest_runs [OF assms(1,2)])
  then have "hv_step (Guest (cur_of s)) (f, s) (g0, s)" by simp
  moreover have "hv_step (Guest (cur_of s)) (g0, s) (g, t)" using guest_traps [OF assms(1)] assms(3) by simp
  ultimately show ?thesis using run_steps run_stops by metis
qed

lemma yielding_fair: "others_fair j (yielding j)"
  unfolding others_fair_def
proof (intro allI impI)
  fix c d
  assume inv: "sys_inv c" and y: "yielding j c = Some d"
  obtain f s where c: "c = (f, s)" by fastforce
  show "\<exists>acts. hv_run acts c d \<and> Guest j \<notin> set acts \<and> cur_of (snd d) = j"
  proof (cases "cur_of s = j")
    case True
    then show ?thesis using y run_stops by (intro exI [of _ "[]"]) (auto simp: yielding_def c)
  next
    case False
    then have lt: "cur_of s < 2" and t: "hosted_trap HVC_SYNDROME 0 0 (set_reg 0 HYPERCALL_YIELD f, s) = Some d" "cur_of (snd d) = j"
      using y by (auto simp: yielding_def c split: if_splits bind_splits)
    obtain g u where d: "d = (g, u)" "hyp_handle_exception (hyp_vector HYP_EXCEPTION_LOWER_SYNC HVC_SYNDROME 0 0 0
        (set_reg 0 HYPERCALL_YIELD f)) s = Some (0, g, u)"
      using t(1) by (auto simp: hosted_trap_def bind_eq_Some_conv split: if_splits)
    have "frame_ok (set_reg 0 HYPERCALL_YIELD f)" using inv by (simp add: sys_inv_def c)
    from guest_step_run [OF lt this d(2), of f] t(2) False d(1) c
    show ?thesis by (intro exI [of _ "[Guest (cur_of s), Guest (cur_of s)]"]) simp
  qed
qed

lemma yielding_returns:
  assumes "j < 2" "tx_ready h"
  shows "others_return j (yielding j) h"
  unfolding others_return_def
proof (intro allI impI)
  fix d
  assume inv: "sys_inv d" and q: "\<not> hyp_except_verbose (snd d)" and h: "hw_in (snd d) = h"
    and k: "cur_of (snd d) = j \<or> runnable (snd d) j \<and> cur_of (snd d) < 2"
  obtain f s where d: "d = (f, s)" by fastforce
  show "yielding j d \<noteq> None"
  proof (cases "cur_of s = j")
    case False
    let ?F = "trap_frame HVC_SYNDROME 0 (set_reg 0 HYPERCALL_YIELD f)"
    have lt: "cur_of s < 2" and r: "runnable s j" and j: "1 - cur_of s = j" using k False assms(1) by (auto simp: d)
    have s: "sched_run s" "frame_ok f" using inv by (simp_all add: sys_inv_def d)
    then have wf: "sched_wf (scheduler s)" by (simp add: sched_run_def)
    have F: "frame_ok ?F" "reg ?F 0 = HYPERCALL_YIELD"
      using s(2) by (simp_all add: trap_frame_def) (simp add: hyp_vector_def frame_ok_def)
    have "uart_live s" using h assms(2) ready_live [of s] by (simp add: d)
    then obtain r g t where y: "hv_scheduler_yield ?F s = Some (r, g, t)"
      using yield_returns [OF sched_wfD(4) [OF wf] live_returns [OF _ refl], of ?F] by auto
    note Y = yield_spec [OF s(1) lt F(1) y]
    have "r = 0" "cur_of t = j" using Y(1) r j by (simp_all add: sched_post_def yield_target_def)
    moreover have "hyp_handle_exception ?F s = Some (r, g, t)"
      using y call_yield [OF F(2), of s] trap_entry(1) [of s] q by (simp add: trap_frame_def d)
    ultimately show ?thesis using lt False by (simp add: yielding_def d hosted_trap_def trap_frame_def)
  qed (simp add: yielding_def d)
qed

subsection \<open>The programs\<close>

text \<open>What the hypervisor prints when a guest exits with status 0; \<open>trace\<close> names the processor mode.\<close>

definition exit_line :: "machine \<Rightarrow> u8 list" where
  "exit_line s = crlf (''TRACE['' @ trace_current_el s @ '']:hyp_handle_guest_hypercall: guest exiting, status: 0'' @ nl)"

lemma exit_line_text: "crlf (exit_text (trace_current_el s) 0) = exit_line s"
proof -
  have "signed_text 0 0 = ''0''" by code_simp
  then show ?thesis by (simp add: exit_text_def exit_line_def)
qed

definition hosted_start :: "config \<Rightarrow> hosted" where
  "hosted_start c = \<lparr>hst_config = c, hst_log = [], hst_out = []\<rparr>"

lemma start_ok:
  assumes "booted_by main img s c0" "main \<in> quiet_systems" "\<not> hyp_except_verbose s" "hv_run before c0 c"
    "cur_of (snd c) = j" "j < 2" "others_fair j others"
  shows "hosted_ok j others (hw_in s) (trace_current_el (snd c)) (hosted_start c)" "\<not> over j c"
proof -
  obtain e t where boot: "reset_ok s" "tables_base_ok (img_tables img)" "main img s = Some (e, t)" "main \<in> guest_systems"
    and c0: "c0 = (entry_frame e, t)" using assms(1) by (auto simp: booted_by_def)
  have B: "boot_done s (e, t)" "\<not> hv_scheduler_verbose t"
    using boot_spec(1,3) [where main = main, OF boot(1-3)] boot(4) assms(2) by blast+
  note R = run_inv [OF assms(4) booted_by_inv [OF assms(1)]]
  have inv: "sys_inv c" and same: "sys_same t (snd c)" using R c0 by simp_all
  have "runs_guest j (hw_in s) (trace_current_el (snd c)) c"
    using inv same assms(3,5) B by (simp add: runs_guest_def sys_same_def boot_done_def)
  then show "hosted_ok j others (hw_in s) (trace_current_el (snd c)) (hosted_start c)"
    using assms(6,7) by (simp add: hosted_ok_def hosted_start_def)
  show "\<not> over j c" using inv assms(5) running_not_over [of "snd c" "fst c"] by (simp add: sys_inv_def case_prod_beta)
qed

text \<open>A program that comes to its end, and the bytes the hypervisor has put on the line for it by then.\<close>

lemma hosted_result:
  assumes "ends (hosted_ok j others h el) hst_log f st (\<lambda>es. bytes es = bs)" "hosted_ok j others h el (hosted_start c)"
    and "f (hosted_start c) = Some r"
  shows "\<exists>w. r = Inl (st, w) \<and> hst_out w = bs"
proof -
  obtain v es where "r = Inl (st, v)" "hosted_ok j others h el v" "hst_log v = es" "bytes es = bs"
    using assms unfolding ends_def hosted_start_def by fastforce
  then show ?thesis by (auto simp: hosted_ok_def)
qed

lemma hosted_total:
  assumes "ends (hosted_ok j others h el) hst_log f st (\<lambda>es. bytes es = bs)"
    and "runs (live_ok j others h el) (\<lambda>w. \<not> over j (hst_config w)) f"
    and "hosted_ok j others h el (hosted_start c)" "\<not> over j c" "tx_ready h" "others_return j others h"
  shows "\<exists>w. f (hosted_start c) = Some (Inl (st, w)) \<and> hst_out w = bs"
proof -
  have "live_ok j others h el (hosted_start c)" "\<not> over j (hst_config (hosted_start c))"
    using assms(3-6) by (simp_all add: live_ok_def hosted_start_def)
  from runsD [OF assms(2) this] obtain r where "f (hosted_start c) = Some r" by blast
  with hosted_result [OF assms(1,3) this] show ?thesis by blast
qed

subsection \<open>A booted machine\<close>

lemma boot_machine_guest:
  assumes "main \<in> guest_systems"
  obtains c where "booted_by main boot_image boot_machine c" "hv_run [] c c" "cur_of (snd c) = 0"
proof -
  obtain e t where b: "main boot_image boot_machine = Some (e, t)" using boot_machine_boots [OF assms] by blast
  have "boot_done boot_machine (e, t)" by (rule boot_spec(1) [OF boot_machine_ok(1,5) b assms])
  moreover have "booted_by main boot_image boot_machine (entry_frame e, t)"
    using b boot_machine_ok(1,5) assms by (auto simp: booted_by_def)
  ultimately show thesis using that run_stops by (simp add: boot_done_def)
qed

lemma quiet_yield: "sched_yield_main \<in> quiet_systems" "sched_yield_main \<in> guest_systems"
  by (simp_all add: quiet_systems_def guest_systems_def)

lemma boot_machine_tx: "tx_ready (hw_in boot_machine)"
  by (auto simp: tx_ready_def boot_machine_def)



text \<open>C9: the scheduling test. Guest \<open>j\<close> runs \<open>sched-main.c\<close> on the booted system and yields the processor after
  each line. If the rest of the world is any run of the system in which \<open>j\<close> does not act that gives the
  processor back whenever \<open>j\<close> can run (in a system without a timer nothing but the other guest does),
  and the transmitter gets ready again and again, then the program comes to its end with status 0, and
  what the hypervisor has transmitted while handling its operations is its ten lines and the trace line of
  its exit.\<close>

theorem sched_on_hypervisor:
  assumes "booted_by main img s c0" and "main \<in> quiet_systems" and "\<not> hyp_except_verbose s" and "hv_run before c0 c"
    and "cur_of (snd c) = j" and "j < HV_MAX_GUEST_VCPUS"
    and "others_fair j others" and "others_return j others (hw_in s)" and "tx_ready (hw_in s)"
  shows "\<exists>w. sched_main (hosted_cpu j others) gid (hosted_start c) = Some (Inl (0, w)) \<and>
    hst_out w = concat (replicate 10 (crlf (sched_line gid))) @ exit_line (snd c)"
  unfolding exit_line_text [symmetric]
  by (rule hosted_total [OF hosted.sched_ends hosted_live.sched_runs start_ok [OF assms(1-7)] assms(9,8)]) simp

theorem sched_on_hypervisor_witness:
  "\<exists>c w. booted_by sched_yield_main boot_image boot_machine c \<and>
     sched_main (hosted_cpu 0 (yielding 0)) 7 (hosted_start c) = Some (Inl (0, w)) \<and>
     hst_out w = concat (replicate 10 (crlf (sched_line 7))) @ exit_line (snd c)"
proof -
  obtain c where c: "booted_by sched_yield_main boot_image boot_machine c" "hv_run [] c c" "cur_of (snd c) = 0"
    by (rule boot_machine_guest [OF quiet_yield(2)])
  from sched_on_hypervisor [OF c(1) quiet_yield(1) boot_machine_ok(3) c(2,3) _ yielding_fair yielding_returns [OF _ boot_machine_tx]
    boot_machine_tx] c(1)
  show ?thesis by (metis zero_less_numeral)
qed



subsection \<open>The programs that wait\<close>

text \<open>The UART test. A run of \<open>mmio-uart-main.c\<close> on the hypervisor that ends, ends with status 0: the value
  stored to the scratch register is read back, whatever happens in between, each delay is accepted, and
  the line has got the ten lines of the guest through the emulated UART, byte for byte, and the trace
  of its exit.\<close>

theorem uart_on_hypervisor:
  "ends (hosted_ok j others h el) hst_log (mmio_uart_main (hosted_cpu j others) gid) 0
     (\<lambda>es. bytes es = concat (replicate 10 (uart_line gid)) @ crlf (exit_text el 0))"
  by (rule hosted.uart_main_ends)

text \<open>The interrupt test. A run of \<open>virq-main.c\<close> that ends, ends with status 0, and not before the guest
  has claimed and completed 600 timer interrupts, taken by its handler between any two operations.\<close>

theorem virq_on_hypervisor:
  "ends (\<lambda>u. hosted_ok j others h el (snd u)) (hst_log \<circ> snd) (\<lambda>u. virq_main (hosted_cpu j others) (0, snd u)) 0
     (\<lambda>es. bytes es = crlf (''guest_main start'' @ nl) @ crlf (''second round of waiting'' @ nl) @ crlf (exit_text el 0) \<and>
       600 \<le> claims es \<and> 600 \<le> completions es)"
  unfolding ends_def o_apply
proof (intro allI impI)
  fix u :: "u32 \<times> hosted" and r
  assume "hosted_ok j others h el (snd u)" "virq_main (hosted_cpu j others) (0, snd u) = Some r"
  from hosted.virq_main_Some [OF this(2,1)]
  show "\<exists>v es. r = Inl (0, v) \<and> hosted_ok j others h el (snd v) \<and> hst_log (snd v) = hst_log (snd u) @ es \<and>
     bytes es = crlf (''guest_main start'' @ nl) @ crlf (''second round of waiting'' @ nl) @ crlf (exit_text el 0) \<and>
     600 \<le> claims es \<and> 600 \<le> completions es" .
qed

end
