(* ===== verification/Kernel_Main.thy ===== *)
theory Kernel_Main
  imports Printk Timers
begin

section \<open>The bare kernel: kernel/main.c\<close>

text \<open>
  The program that runs without the hypervisor: it sets the ARM timer to 100 interrupts a second, each of
  which adds one to \<open>count\<close>, and shows the count every second, for ever. \<open>count\<close> is an \<open>int\<close> in
  memory, so the state is the count and the machine; adding one to the largest \<open>int\<close> is undefined
  (\<open>None\<close>). \<open>kernel_run\<close> is what a run of the loop does up to some round, with the number of interrupts that
  are taken in each.
\<close>

type_synonym 'a kernel = "int \<times> 'a hw_scheme"

definition interrupt_vector :: "'a kernel \<Rightarrow> 'a kernel option" where
  "interrupt_vector = (\<lambda>(count, s). if count = 2 ^ 31 - 1 then None else Some (count + 1, TIM_Clear_Pending s))"

definition test_func :: "'a kernel \<Rightarrow> 'a kernel option" where
  "test_func = (\<lambda>(count, s). do {
     s \<leftarrow> trace ''test_func'' (''Current count: %d'' @ nl) [PInt (of_int count)] s;
     Some (count, s) })"

definition kernel_start :: "'a hw_scheme \<Rightarrow> 'a kernel option" where
  "kernel_start s = do {
     s \<leftarrow> UART_Init s;
     let s = TIM_Enable s;
     s \<leftarrow> TIM_Set_Frequency 100 s;
     Some (0, TIM_Enable_IRQ s) }"

definition kernel_round :: "'a kernel \<Rightarrow> 'a kernel option" where
  "kernel_round u = do {
     (count, s) \<leftarrow> test_func u;
     s \<leftarrow> TIM_SYS_Delay_Millis 1000 s;
     Some (count, s) }"

partial_function (option) kernel_loop :: "'a kernel \<Rightarrow> 'a kernel option" where
  "kernel_loop u = Option.bind (kernel_round u) kernel_loop"

primrec interrupts :: "nat \<Rightarrow> 'a kernel \<Rightarrow> 'a kernel option" where
  "interrupts 0 u = Some u"
| "interrupts (Suc k) u = Option.bind (interrupt_vector u) (interrupts k)"

primrec kernel_run :: "nat list \<Rightarrow> 'a kernel \<Rightarrow> 'a kernel option" where
  "kernel_run [] u = Some u"
| "kernel_run (k # ks) u = do { u \<leftarrow> kernel_round u; u \<leftarrow> interrupts k u; kernel_run ks u }"

text \<open>\<open>main\<close> does not return.\<close>

lemma kernel_loop_forever: "kernel_loop u = None"
proof (rule ccontr)
  assume "kernel_loop u \<noteq> None"
  then obtain v where v: "kernel_loop u = Some v" by blast
  show False
    by (rule kernel_loop.raw_induct [OF _ v, of "\<lambda>_ _. False"]) (auto simp: bind_eq_Some_conv)
qed

end
