(* ===== verification/Test_Vm_Stage2.thy ===== *)
theory Test_Vm_Stage2
  imports Guest_Systems
begin

section \<open>The test of VM regions and stage 2: tests/test-hv-vm-stage2.c\<close>

text \<open>
  The program runs the operations of \<open>vm.c\<close> and \<open>stage2.c\<close> on one VM and asserts every answer. A failed
  assertion does not return; so the test passes if \<open>main\<close> does, and \<open>test_vm_stage2_passes\<close> shows that it
  does from every state of memory, by the specifications of the operations alone.
\<close>

abbreviation (input) TEST_IPA_BASE :: u64 where "TEST_IPA_BASE \<equiv> 0x400000"
abbreviation (input) TEST_PA_BASE :: u64 where "TEST_PA_BASE \<equiv> 0x800000"
abbreviation (input) TEST_RAM_SIZE :: u64 where "TEST_RAM_SIZE \<equiv> 3 * HV_STAGE2_PAGE_SIZE"
abbreviation (input) TEST_GUARD_IPA :: u64 where "TEST_GUARD_IPA \<equiv> TEST_IPA_BASE + TEST_RAM_SIZE"
abbreviation (input) TEST_MMIO_IPA :: u64 where "TEST_MMIO_IPA \<equiv> HV_GUEST_UART_BASE"

definition test_ram :: HvVmRegion where
  "test_ram = \<lparr>ipa_base = TEST_IPA_BASE, region_size = TEST_RAM_SIZE, pa_base = TEST_PA_BASE,
     attrs = HV_STAGE2_PAGE_NORMAL_NC_RW, region_type = HV_VM_REGION_RAM, region_device = HV_VM_MMIO_DEVICE_NONE\<rparr>"

definition test_overlap :: HvVmRegion where
  "test_overlap = \<lparr>ipa_base = TEST_IPA_BASE + HV_STAGE2_PAGE_SIZE, region_size = HV_STAGE2_PAGE_SIZE,
     pa_base = TEST_PA_BASE + HV_STAGE2_PAGE_SIZE, attrs = HV_STAGE2_PAGE_NORMAL_NC_RW,
     region_type = HV_VM_REGION_RAM, region_device = HV_VM_MMIO_DEVICE_NONE\<rparr>"

definition test_guard :: HvVmRegion where
  "test_guard = \<lparr>ipa_base = TEST_GUARD_IPA, region_size = HV_STAGE2_PAGE_SIZE, pa_base = 0, attrs = 0,
     region_type = HV_VM_REGION_RAM_GUARD, region_device = HV_VM_MMIO_DEVICE_NONE\<rparr>"

definition test_mmio :: HvVmRegion where
  "test_mmio = \<lparr>ipa_base = TEST_MMIO_IPA, region_size = HV_STAGE2_PAGE_SIZE, pa_base = 0, attrs = 0,
     region_type = HV_VM_REGION_MMIO, region_device = HV_VM_MMIO_DEVICE_VUART\<rparr>"

definition expect_region :: "HvVmRegion option \<Rightarrow> HvVmRegionType \<Rightarrow> 's \<Rightarrow> 's option" where
  "expect_region region type s = do {
     s \<leftarrow> hv_assert (region \<noteq> None) s;
     hv_assert (map_option region_type region = Some type) s }"

text \<open>The two assertions on a translation and the address it stores.\<close>

definition expect_pa :: "int + u64 \<Rightarrow> u64 \<Rightarrow> 's \<Rightarrow> 's option" where
  "expect_pa r pa s = (case r of Inr x \<Rightarrow> hv_assert (x = pa) s | Inl _ \<Rightarrow> hv_assert False s)"

definition test_vm_stage2_main :: "u32 \<Rightarrow> 'a s2hw_scheme \<Rightarrow> 'a s2hw_scheme option" where
  "test_vm_stage2_main tables_base s = do {
     s \<leftarrow> UART_Init s;
     let (res, vm, s) = hv_vm_init tables_base (Some zero_HvVm) 0 7 s;
     s \<leftarrow> hv_assert (res = HV_VM_OK) s;
     s \<leftarrow> hv_assert (map_option vm_id vm = Some 0) s;
     s \<leftarrow> hv_assert (map_option vm_vmid vm = Some 7) s;
     let (res, vm) = hv_vm_add_region vm (Some test_ram);
     s \<leftarrow> hv_assert (res = HV_VM_OK) s;
     let (res, vm) = hv_vm_add_region vm (Some test_overlap);
     s \<leftarrow> hv_assert (res = HV_VM_ERR_OVERLAP) s;
     let (res, vm) = hv_vm_add_region vm (Some test_guard);
     s \<leftarrow> hv_assert (res = HV_VM_OK) s;
     let (res, vm) = hv_vm_add_region vm (Some test_mmio);
     s \<leftarrow> hv_assert (res = HV_VM_OK) s;
     s \<leftarrow> expect_region (hv_vm_find_region vm TEST_IPA_BASE) HV_VM_REGION_RAM s;
     s \<leftarrow> expect_region (hv_vm_find_region vm TEST_GUARD_IPA) HV_VM_REGION_RAM_GUARD s;
     s \<leftarrow> expect_region (hv_vm_find_region vm TEST_MMIO_IPA) HV_VM_REGION_MMIO s;
     s \<leftarrow> hv_assert (hv_vm_find_region vm (TEST_MMIO_IPA - HV_STAGE2_PAGE_SIZE) = None) s;
     let (res, vm, s) = hv_vm_build_stage2 vm s;
     s \<leftarrow> hv_assert (res = HV_VM_OK) s;
     s \<leftarrow> expect_pa (hv_stage2_translate vm TEST_IPA_BASE True (stage2_tables s)) TEST_PA_BASE s;
     s \<leftarrow> expect_pa (hv_stage2_translate vm (TEST_IPA_BASE + 0x234) True (stage2_tables s)) (TEST_PA_BASE + 0x234) s;
     s \<leftarrow> hv_assert (hv_stage2_translate vm TEST_GUARD_IPA True (stage2_tables s) = Inl HV_STAGE2_ERR_UNMAPPED) s;
     s \<leftarrow> hv_assert (hv_stage2_translate vm TEST_MMIO_IPA True (stage2_tables s) = Inl HV_STAGE2_ERR_UNMAPPED) s;
     let (res, vm, s) = hv_stage2_map_region vm TEST_GUARD_IPA TEST_PA_BASE HV_STAGE2_PAGE_SIZE
       HV_STAGE2_PAGE_NORMAL_NC_RW s;
     s \<leftarrow> hv_assert (res = HV_STAGE2_ERR_RANGE) s;
     trace ''main'' (''test-hv-vm-stage2 passed'' @ nl) [] s }"

subsection \<open>The regions\<close>

lemma test_region_bounds:
  "region_lo test_ram = 0x400000" "region_hi test_ram = 0x403000"
  "region_lo test_overlap = 0x401000" "region_hi test_overlap = 0x402000"
  "region_lo test_guard = 0x403000" "region_hi test_guard = 0x404000"
  "region_lo test_mmio = 0x10000000" "region_hi test_mmio = 0x10001000"
  "region_type test_ram = HV_VM_REGION_RAM" "region_type test_guard = HV_VM_REGION_RAM_GUARD"
  "region_type test_mmio = HV_VM_REGION_MMIO"
  by (simp_all add: region_lo_def region_hi_def test_ram_def test_overlap_def test_guard_def test_mmio_def)

lemma test_region_valid:
  "hv_vm_region_valid (Some test_ram)" "hv_vm_region_valid (Some test_overlap)"
  "hv_vm_region_valid (Some test_guard)" "hv_vm_region_valid (Some test_mmio)"
  unfolding region_valid_iff test_region_bounds
  by (simp_all add: test_ram_def test_overlap_def test_guard_def test_mmio_def)

lemma test_vm_regions:
  assumes "tables_base_ok base"
  obtains v1 v2 v3 where
    "hv_vm_add_region (Some (zero_HvVm\<lparr>vm_id := 0, vm_vmid := 7, stage2 := init_stage2 base 0\<rparr>)) (Some test_ram) = (HV_VM_OK, Some v1)"
    "hv_vm_add_region (Some v1) (Some test_overlap) = (HV_VM_ERR_OVERLAP, Some v1)"
    "hv_vm_add_region (Some v1) (Some test_guard) = (HV_VM_OK, Some v2)"
    "hv_vm_add_region (Some v2) (Some test_mmio) = (HV_VM_OK, Some v3)"
    "region_table_ok v3" "active_regions v3 = [test_ram, test_guard, test_mmio]" "stage2 v3 = init_stage2 base 0"
proof -
  let ?v0 = "zero_HvVm\<lparr>vm_id := 0, vm_vmid := 7, stage2 := init_stage2 base 0\<rparr>"
  note V = test_region_valid and B = test_region_bounds
  have v0: "region_table_ok ?v0" "active_regions ?v0 = []"
    using region_table_ok_zero [of 0 7] by (simp_all add: active_regions_def zero_HvVm_def region_table_ok_def)
  obtain v1 where v1: "hv_vm_add_region (Some ?v0) (Some test_ram) = (HV_VM_OK, Some v1)" "region_table_ok v1"
    "active_regions v1 = [test_ram]" "stage2 v1 = init_stage2 base 0"
    using add_region_ok [OF v0(1) V(1)] v0(2) by auto
  obtain res w where a: "hv_vm_add_region (Some v1) (Some test_overlap) = (res, w)" by fastforce
  have o: "hv_vm_add_region (Some v1) (Some test_overlap) = (HV_VM_ERR_OVERLAP, Some v1)"
    using add_region_correct [OF v1(2) a] V(2) v1(3) by (simp add: a intervals_meet_def B)
  obtain v2 where v2: "hv_vm_add_region (Some v1) (Some test_guard) = (HV_VM_OK, Some v2)" "region_table_ok v2"
    "active_regions v2 = [test_ram, test_guard]" "stage2 v2 = init_stage2 base 0"
    using add_region_ok [OF v1(2) V(3)] v1(3,4) by (auto simp: intervals_meet_def B)
  have nm: "\<not> intervals_meet x test_mmio" if "x \<in> set (active_regions v2)" for x
    using that v2(3) by (auto simp: intervals_meet_def B)
  obtain v3 where v3: "hv_vm_add_region (Some v2) (Some test_mmio) = (HV_VM_OK, Some v3)" "region_table_ok v3"
    "active_regions v3 = [test_ram, test_guard, test_mmio]" "stage2 v3 = init_stage2 base 0"
    using add_region_ok [OF v2(2) V(4) _ nm] v2(3,4) by auto
  from that [OF v1(1) o v2(1) v3(1-4)] show thesis .
qed

lemma test_vm_build:
  assumes base: "tables_base_ok base" and ok: "region_table_ok v3"
    and act: "active_regions v3 = [test_ram, test_guard, test_mmio]" and st: "stage2 v3 = init_stage2 base 0"
    and tm: "stage2_tables s2 = (\<lambda>a. if a < 4096 then 0 else m a)"
  obtains v s3 where "hv_vm_build_stage2 (Some v3) s2 = (HV_VM_OK, Some v, s3)" "active_regions v = active_regions v3"
    "\<forall>b. unat b < 2 ^ 32 \<longrightarrow> hv_stage2_translate (Some v) b True (stage2_tables s3) =
      (case hv_vm_find_region (Some v3) b of None \<Rightarrow> Inl HV_STAGE2_ERR_UNMAPPED
       | Some r \<Rightarrow> if region_type r = HV_VM_REGION_RAM then Inr (pa_base r + (b - ipa_base r)) else Inl HV_STAGE2_ERR_UNMAPPED)"
proof -
  have I: "s2_inv (\<lambda>_. 1) (init_stage2 base 0) (\<lambda>a. if a < 4096 then 0 else m a)"
    "s2_view (init_stage2 base 0) (\<lambda>a. if a < 4096 then 0 else m a) b = 0" for b
    by (rule s2_inv_init [OF base]; simp)+
  have t: "vm_tables_ok v3 (stage2_tables s2)" unfolding vm_tables_ok_def st tm using I by blast
  have e: "hv_stage2_translate (Some v3) b True (stage2_tables s2) = Inl HV_STAGE2_ERR_UNMAPPED" if "unat b < 2 ^ 32" for b
    using I(2) [of b] that by (simp add: translate_view st tm)
  obtain res w s3 where b: "hv_vm_build_stage2 (Some v3) s2 = (res, w, s3)" by (rule prod_cases3)
  have suf: "tables_suffice v3 (active_regions v3)"
    by (simp add: tables_suffice_def act ram_regions_def test_region_bounds one_block_def st init_stage2_def Let_def)
  obtain v where w: "w = Some v" "active_regions v = active_regions v3" "res = HV_VM_OK"
    and tr: "translates v (stage2_tables s3) (vm_translation (active_regions v3))"
    by (rule build_stage2_spec [OF ok t e b]) (use suf in blast)+
  from that [of v s3] b w tr show thesis by (simp add: translates_def vm_translation_find)
qed

text \<open>The test passes. From any contents of memory, with the tables where the linker must put them and a
  serial line that works, every assertion holds and \<open>main\<close> comes to its end.\<close>

theorem test_vm_stage2_passes:
  assumes "tables_base_ok base" and "uart_live s"
  shows "\<exists>s'. test_vm_stage2_main base s = Some s'"
proof -
  obtain s1 where u: "UART_Init s = Some s1" and io: "io_out s s1 []" using uart_init_spec by blast
  let ?v0 = "zero_HvVm\<lparr>vm_id := 0, vm_vmid := 7, stage2 := init_stage2 base 0\<rparr>"
  let ?tm = "\<lambda>a. if a < 4096 then 0 else stage2_tables s1 a"
  obtain s2 where i: "hv_vm_init base (Some zero_HvVm) 0 7 s1 = (HV_VM_OK, Some ?v0, s2)" and tm: "stage2_tables s2 = ?tm"
    and h: "hw_in s2 = hw_in s1"
    by (simp add: hv_vm_init_eq hv_stage2_init_eq) (simp add: DSB_def emit_def)
  obtain v1 v2 v3 where v:
    "hv_vm_add_region (Some ?v0) (Some test_ram) = (HV_VM_OK, Some v1)"
    "hv_vm_add_region (Some v1) (Some test_overlap) = (HV_VM_ERR_OVERLAP, Some v1)"
    "hv_vm_add_region (Some v1) (Some test_guard) = (HV_VM_OK, Some v2)"
    "hv_vm_add_region (Some v2) (Some test_mmio) = (HV_VM_OK, Some v3)"
    and ok: "region_table_ok v3" and act: "active_regions v3 = [test_ram, test_guard, test_mmio]"
    and st: "stage2 v3 = init_stage2 base 0"
    by (rule test_vm_regions [OF assms(1)])
  note B = test_region_bounds
  have f: "hv_vm_find_region (Some v3) 0x400000 = Some test_ram" "hv_vm_find_region (Some v3) 0x400234 = Some test_ram"
    "hv_vm_find_region (Some v3) 0x403000 = Some test_guard" "hv_vm_find_region (Some v3) 0x10000000 = Some test_mmio"
    by (rule find_region_unique [OF ok]; simp add: act B)+
  have n: "hv_vm_find_region (Some v3) 0xffff000 = None"
    unfolding find_region_None by (simp add: act B)
  obtain v s3 where b: "hv_vm_build_stage2 (Some v3) s2 = (HV_VM_OK, Some v, s3)"
    and w: "active_regions v = active_regions v3"
    and x: "\<forall>b. unat b < 2 ^ 32 \<longrightarrow> hv_stage2_translate (Some v) b True (stage2_tables s3) =
      (case hv_vm_find_region (Some v3) b of None \<Rightarrow> Inl HV_STAGE2_ERR_UNMAPPED
       | Some r \<Rightarrow> if region_type r = HV_VM_REGION_RAM then Inr (pa_base r + (b - ipa_base r)) else Inl HV_STAGE2_ERR_UNMAPPED)"
    by (rule test_vm_build [OF assms(1) ok act st tm])
  have "hv_vm_find_region (Some v) 0x403000 = Some test_guard"
    using f(3) w by (simp only: hv_vm_find_region_def option.case)
  then have m: "hv_stage2_map_region (Some v) 0x403000 0x800000 0x1000 HV_STAGE2_PAGE_NORMAL_NC_RW s3 =
      (HV_STAGE2_ERR_RANGE, Some v, s3)"
    by (simp add: hv_stage2_map_region_def stage2_aligned_iff stage2_range_end_iff stage2_fits_iff
        stage2_region_contains_mapping_iff mapping_in_region_def B)
  have "uart_live s3"
    using assms(2) io_out_live [OF io] uart_live_in [of s3 s1] table_stepD(1) [OF table_step_build [OF b]] h
    by simp
  moreover have "format (''test-hv-vm-stage2 passed'' @ nl) [] \<noteq> None" by (simp add: format_simps nl_def)
  ultimately obtain s4 where "trace ''main'' (''test-hv-vm-stage2 passed'' @ nl) [] s3 = Some s4"
    using trace_live by blast
  moreover have "expect_pa (hv_stage2_translate (Some v) TEST_IPA_BASE True (stage2_tables s3)) TEST_PA_BASE s3 = Some s3"
    "expect_pa (hv_stage2_translate (Some v) (TEST_IPA_BASE + 0x234) True (stage2_tables s3)) (TEST_PA_BASE + 0x234) s3 = Some s3"
    by (simp_all add: x f B expect_pa_def test_ram_def)
  moreover have "hv_stage2_translate (Some v) TEST_GUARD_IPA True (stage2_tables s3) = Inl HV_STAGE2_ERR_UNMAPPED"
    "hv_stage2_translate (Some v) TEST_MMIO_IPA True (stage2_tables s3) = Inl HV_STAGE2_ERR_UNMAPPED"
    by (simp_all add: x f B)
  ultimately show ?thesis
    by (simp add: test_vm_stage2_main_def u i v expect_region_def f n b m B)
qed

theorem test_vm_stage2_passes_witness:
  "\<exists>s'. test_vm_stage2_main 0x100000 (reset_s2hw\<lparr>hw_in := (\<lambda>_ _. 0xffffffff)\<rparr>) = Some s'"
  by (rule test_vm_stage2_passes) (auto simp: tables_base_ok_def uart_live_def port_live_def)

end
