(* ===== verification/Test_Hv_Mmio.thy ===== *)
theory Test_Hv_Mmio
  imports Guest_Systems
begin

section \<open>The test of MMIO emulation: tests/test-hv-mmio.c\<close>

text \<open>
  The program gives two VMs an emulated UART each and runs \<open>hv_mmio_handle_fault\<close> on loads and stores it
  makes up: what one VM stores it reads back, the other VM does not see it, a signed byte is extended,
  and accesses that cannot be emulated are refused. The static VMs and vCPUs are values passed along,
  with \<open>&vm0\<close>, \<open>&vm1\<close> the positions 0 and 1 of a list. \<open>test_hv_mmio_passes\<close> shows that no assertion fails.
\<close>

abbreviation (input) TEST_VALUE_VM0 :: u32 where "TEST_VALUE_VM0 \<equiv> 0x12345678"
abbreviation (input) TEST_VALUE_VM1 :: u32 where "TEST_VALUE_VM1 \<equiv> 0x87654321"

definition zero_hyp_state :: HypExceptState where
  "zero_hyp_state = zero_HypExceptState"

definition abort_iss :: "u32 \<Rightarrow> u32 \<Rightarrow> bool \<Rightarrow> bool \<Rightarrow> u32" where
  "abort_iss r sz wr sign_extend =
     (let sas = (if sz = 1 then 0 else if sz = 2 then 1 else if sz = 4 then 2 else 3);
          iss = HSR_ISS_ABORT_ISV OR push_bit HSR_ISS_ABORT_SAS_SHIFT sas OR push_bit HSR_ISS_ABORT_SRT_SHIFT r;
          iss = (if wr then iss OR HSR_ISS_ABORT_WNR else iss)
      in if sign_extend then iss OR HSR_ISS_ABORT_SSE else iss)"

definition fault_at :: "u32 \<Rightarrow> u32 \<Rightarrow> bool \<Rightarrow> HvStage2FaultInfo" where
  "fault_at offset iss wr = \<lparr>fault_vcpu_id = 0, fault_vm_id = 0, fault_ec = 0x24, fault_iss = iss, fault_status = 0,
     fault_level = 3, fault_ipa = HV_GUEST_UART_BASE + ucast offset,
     fault_access = (if wr then HV_STAGE2_ACCESS_WRITE else HV_STAGE2_ACCESS_READ),
     is_write = wr, is_instruction = False, ipa_offset_valid = True\<rparr>"

definition test_uart :: HvVmRegion where
  "test_uart = \<lparr>ipa_base = HV_GUEST_UART_BASE, region_size = HV_GUEST_UART_SIZE, pa_base = 0, attrs = 0,
     region_type = HV_VM_REGION_MMIO, region_device = HV_VM_MMIO_DEVICE_VUART\<rparr>"

definition add_uart_region :: "u32 \<Rightarrow> HvVm \<Rightarrow> u32 \<Rightarrow> 'a s2hw_scheme \<Rightarrow> (HvVm \<times> 'a s2hw_scheme) option" where
  "add_uart_region tables_base vm i s = do {
     let (res, vm, s) = hv_vm_init tables_base (Some vm) i i s;
     s \<leftarrow> hv_assert (res = HV_VM_OK) s;
     let (res, vm) = hv_vm_add_region vm (Some test_uart);
     s \<leftarrow> hv_assert (res = HV_VM_OK) s;
     s \<leftarrow> hv_assert (hv_stage2_translate vm HV_GUEST_UART_BASE True (stage2_tables s) = Inl HV_STAGE2_ERR_UNMAPPED) s;
     map_option (\<lambda>vm. (vm, s)) vm }"

definition expect_store :: "HvVm list \<Rightarrow> HvVcpu \<Rightarrow> u32 \<Rightarrow> u32 \<Rightarrow> u32 \<Rightarrow> u32 \<Rightarrow> 'a vuart_hw_scheme \<Rightarrow> 'a vuart_hw_scheme option" where
  "expect_store vms vcpu r offset sz v s = do {
     let state = set_reg (unat r) v zero_hyp_state;
     (res, state, s) \<leftarrow> hv_mmio_handle_fault vms (Some vcpu) state (fault_at offset (abort_iss r sz True False) True) s;
     hv_assert (res = HV_MMIO_OK) s }"

definition expect_load :: "HvVm list \<Rightarrow> HvVcpu \<Rightarrow> u32 \<Rightarrow> u32 \<Rightarrow> u32 \<Rightarrow> bool \<Rightarrow> 'a vuart_hw_scheme \<Rightarrow> (u32 \<times> 'a vuart_hw_scheme) option" where
  "expect_load vms vcpu r offset sz sign_extend s = do {
     (res, state, s) \<leftarrow> hv_mmio_handle_fault vms (Some vcpu) zero_hyp_state
       (fault_at offset (abort_iss r sz False sign_extend) False) s;
     s \<leftarrow> hv_assert (res = HV_MMIO_OK) s;
     Some (reg state (unat r), s) }"

text \<open>A load that is to read a value, and one that is to be refused.\<close>

definition expect_value :: "HvVm list \<Rightarrow> HvVcpu \<Rightarrow> u32 \<Rightarrow> u32 \<Rightarrow> bool \<Rightarrow> u32 \<Rightarrow> 'a vuart_hw_scheme \<Rightarrow> 'a vuart_hw_scheme option" where
  "expect_value vms vcpu r sz sign_extend v s = do {
     (x, s) \<leftarrow> expect_load vms vcpu r HV_GUEST_AUX_MU_SCRATCH sz sign_extend s;
     hv_assert (x = v) s }"

definition expect_refused :: "HvVm list \<Rightarrow> HvVcpu \<Rightarrow> HypExceptState \<Rightarrow> HvStage2FaultInfo \<Rightarrow> 'a vuart_hw_scheme
    \<Rightarrow> (HypExceptState \<times> 'a vuart_hw_scheme) option" where
  "expect_refused vms vcpu state fault s = do {
     (res, state, s) \<leftarrow> hv_mmio_handle_fault vms (Some vcpu) state fault s;
     s \<leftarrow> hv_assert (res = HV_MMIO_ERR_UNHANDLED) s;
     Some (state, s) }"

definition test_hv_mmio_main :: "u32 \<Rightarrow> 'a vuart_hw_scheme \<Rightarrow> 'a vuart_hw_scheme option" where
  "test_hv_mmio_main tables_base s = do {
     s \<leftarrow> UART_Init s;
     (vm0, s) \<leftarrow> add_uart_region tables_base zero_HvVm 0 s;
     (vm1, s) \<leftarrow> add_uart_region tables_base zero_HvVm 1 s;
     let vms = [vm0, vm1];
     let vcpu0 = zero_HvVcpu\<lparr>vcpu_id := 0, vcpu_vm := Some 0\<rparr>;
     let vcpu1 = zero_HvVcpu\<lparr>vcpu_id := 1, vcpu_vm := Some 1\<rparr>;
     s \<leftarrow> expect_store vms vcpu0 3 HV_GUEST_AUX_MU_SCRATCH 4 TEST_VALUE_VM0 s;
     s \<leftarrow> expect_value vms vcpu0 4 4 False TEST_VALUE_VM0 s;
     s \<leftarrow> expect_store vms vcpu1 3 HV_GUEST_AUX_MU_SCRATCH 4 TEST_VALUE_VM1 s;
     s \<leftarrow> expect_value vms vcpu1 4 4 False TEST_VALUE_VM1 s;
     s \<leftarrow> expect_value vms vcpu0 4 4 False TEST_VALUE_VM0 s;
     s \<leftarrow> expect_store vms vcpu0 5 HV_GUEST_AUX_MU_SCRATCH 1 0x80 s;
     s \<leftarrow> expect_value vms vcpu0 6 1 True 0xffffff80 s;
     let bad_fault = fault_at HV_GUEST_AUX_MU_SCRATCH (abort_iss 13 4 False False) False;
     (bad_state, s) \<leftarrow> expect_refused vms vcpu0 zero_hyp_state bad_fault s;
     let bad_fault = fault_at 0xff0 (abort_iss 1 4 False False) False;
     (bad_state, s) \<leftarrow> expect_refused vms vcpu0 bad_state bad_fault s;
     let bad_fault = fault_at HV_GUEST_AUX_MU_SCRATCH (abort_iss 1 4 False False) False;
     let bad_fault = bad_fault\<lparr>fault_iss := fault_iss bad_fault AND NOT HSR_ISS_ABORT_ISV\<rparr>;
     (bad_state, s) \<leftarrow> expect_refused vms vcpu0 bad_state bad_fault s;
     trace ''main'' (''test-hv-mmio passed'' @ nl) [] s }"

subsection \<open>The VMs\<close>

definition uart_vm :: "nat \<Rightarrow> HvVm \<Rightarrow> bool" where
  "uart_vm i vm \<longleftrightarrow> vm_id vm = of_nat i \<and>
     (\<forall>b. 0x10000000 \<le> unat b \<and> unat b < 0x10001000 \<longrightarrow> hv_vm_find_region (Some vm) b = Some test_uart)"

lemma add_uart_region_ok:
  assumes base: "tables_base_ok base" and i: "i < 2"
  shows "\<exists>vm s'. add_uart_region base zero_HvVm (of_nat i) s = Some (vm, s') \<and> uart_vm i vm \<and> table_step s s'"
proof -
  let ?n = "of_nat i :: u32"
  let ?v0 = "zero_HvVm\<lparr>vm_id := ?n, vm_vmid := ?n, stage2 := init_stage2 base i\<rparr>"
  let ?tm = "\<lambda>a. if i * 4096 \<le> a \<and> a < i * 4096 + 4096 then 0 else stage2_tables s a"
  have n: "unat ?n = i" "unat ?n < 2" using i by (simp_all add: unat_of_nat_small)
  let ?s2 = "DSB (s\<lparr>stage2_tables := ?tm\<rparr>)"
  have init: "hv_vm_init base (Some zero_HvVm) ?n ?n s = (HV_VM_OK, Some ?v0, ?s2)"
    using n by (simp add: hv_vm_init_eq hv_stage2_init_eq)
  have tm: "stage2_tables ?s2 = ?tm" and st: "table_step s ?s2"
    by (simp_all add: DSB_def emit_def) (auto simp: table_step_def)
  have v0: "region_table_ok ?v0" "active_regions ?v0 = []"
    using region_table_ok_zero [of ?n ?n] by (simp_all add: active_regions_def zero_HvVm_def region_table_ok_def)
  have b: "region_lo test_uart = 0x10000000" "region_hi test_uart = 0x10001000"
    by (simp_all add: region_lo_def region_hi_def test_uart_def)
  have val: "hv_vm_region_valid (Some test_uart)" unfolding region_valid_iff b by (simp add: test_uart_def)
  obtain v where v: "hv_vm_add_region (Some ?v0) (Some test_uart) = (HV_VM_OK, Some v)" "region_table_ok v"
    "active_regions v = [test_uart]" "stage2 v = init_stage2 base i" "vm_id v = ?n"
    using add_region_ok [OF v0(1) val] v0(2) by auto
  have "uart_vm i v"
    unfolding uart_vm_def by (intro conjI allI impI v(5) find_region_unique [OF v(2)]) (simp_all add: v(3) b)
  moreover have "s2_view (init_stage2 base i) ?tm 0x10000000 = 0"
    by (rule s2_inv_init [OF base i]) simp
  then have "hv_stage2_translate (Some v) 0x10000000 True (stage2_tables ?s2) = Inl HV_STAGE2_ERR_UNMAPPED"
    by (simp add: translate_view v(4) tm)
  ultimately show ?thesis using st by (simp add: add_uart_region_def init v(1))
qed

subsection \<open>The accesses\<close>

lemma test_uart_sel:
  "ipa_base test_uart = 0x10000000" "region_type test_uart = HV_VM_REGION_MMIO"
  "region_device test_uart = HV_VM_MMIO_DEVICE_VUART"
  by (simp_all add: test_uart_def)

lemmas access_defs = hv_mmio_handle_fault_def fault_at_def abort_iss_def mmio_decode_access_def mmio_access_size_def
  mmio_access_reg_def mmio_read_guest_reg_def mmio_write_guest_reg_def hv_virtual_device_access_def vuart_valid_access_def
  test_uart_sel zero_hyp_state_def Let_def

lemma scratch_region:
  assumes "uart_vm i (vms ! i)"
  shows "hv_vm_find_region (Some (vms ! i)) 0x1000005c = Some test_uart"
    "hv_vm_find_region (Some (vms ! i)) 0x10000ff0 = Some test_uart" "vm_id (vms ! i) = of_nat i"
  using assms by (simp_all add: uart_vm_def)

lemma small_vm: "i < 2 \<Longrightarrow> \<not> of_nat i \<ge> (2 :: u32)" "i < 2 \<Longrightarrow> of_nat i < (2 :: u32)"
  by (auto simp: less_2_cases_iff word_le_nat_alt word_less_nat_alt)

lemma store_scratch:
  assumes "uart_vm i (vms ! i)" "i < 2" "vcpu_vm v = Some i"
  shows "expect_store vms v 3 HV_GUEST_AUX_MU_SCRATCH 4 x s = Some (upd_vuart (of_nat i) (scratch_update (\<lambda>_. x)) s)"
    "expect_store vms v 5 HV_GUEST_AUX_MU_SCRATCH 1 x s = Some (upd_vuart (of_nat i) (scratch_update (\<lambda>_. x AND 0xff)) s)"
proof -
  note n = small_vm [OF assms(2)]
  show "expect_store vms v 3 HV_GUEST_AUX_MU_SCRATCH 4 x s = Some (upd_vuart (of_nat i) (scratch_update (\<lambda>_. x)) s)"
    "expect_store vms v 5 HV_GUEST_AUX_MU_SCRATCH 1 x s = Some (upd_vuart (of_nat i) (scratch_update (\<lambda>_. x AND 0xff)) s)"
    using assms(3) n scratch_region [OF assms(1)]
    by (simp_all add: expect_store_def access_defs hv_vuart_write_def mmio_mask_value_def zero_HypExceptState_def)
qed

lemma load_scratch:
  assumes "uart_vm i (vms ! i)" "i < 2" "vcpu_vm v = Some i"
  shows "expect_value vms v 4 4 False x s = hv_assert (scratch (vuarts s ! i) = x) s"
    "expect_value vms v 6 1 True x s = hv_assert (mmio_mask_value (scratch (vuarts s ! i)) 1 True = x) s"
proof -
  note n = small_vm [OF assms(2)]
  have u: "unat (of_nat i :: u32) = i" using assms(2) by (simp add: unat_of_nat_small)
  show "expect_value vms v 4 4 False x s = hv_assert (scratch (vuarts s ! i) = x) s"
    "expect_value vms v 6 1 True x s = hv_assert (mmio_mask_value (scratch (vuarts s ! i)) 1 True = x) s"
    using assms(3) n u scratch_region [OF assms(1)]
    by (simp_all add: expect_value_def expect_load_def access_defs hv_vuart_read_def zero_HypExceptState_def)
      (simp_all add: mmio_mask_value_def)
qed

text \<open>The three refusals; the first is silent, the others are traced.\<close>

lemma traced:
  assumes "uart_live s" "format fmt args \<noteq> None"
  shows "\<exists>s'. trace func fmt args s = Some s' \<and> uart_live s'"
  using trace_live [OF assms] trace_io_out io_out_live assms(1) by metis

definition unsupported_access :: HvStage2FaultInfo where
  "unsupported_access = fault_at HV_GUEST_AUX_MU_SCRATCH (abort_iss 1 4 False False) False"

lemma refused:
  assumes "uart_vm i (vms ! i)" "i < 2" "vcpu_vm v = Some i" "uart_live s"
  shows "expect_refused vms v f (fault_at HV_GUEST_AUX_MU_SCRATCH (abort_iss 13 4 False False) False) s = Some (f, s)"
    "\<exists>s'. expect_refused vms v f (fault_at 0xff0 (abort_iss 1 4 False False) False) s = Some (f, s') \<and> uart_live s'"
    "\<exists>s'. expect_refused vms v f (unsupported_access\<lparr>fault_iss := fault_iss unsupported_access AND NOT HSR_ISS_ABORT_ISV\<rparr>) s =
       Some (f, s') \<and> uart_live s'"
proof -
  note n = small_vm [OF assms(2)] and R = scratch_region [OF assms(1)]
  show "expect_refused vms v f (fault_at HV_GUEST_AUX_MU_SCRATCH (abort_iss 13 4 False False) False) s = Some (f, s)"
    using assms(3) n R by (simp add: expect_refused_def access_defs hv_vuart_read_def)
  have "\<exists>s'. trace ''hv_mmio_handle_fault''
      (''unsupported mmio access: vcpu=%d vm=%d ipa=%p offset=%p access=%d size=%d'' @ nl)
      [PInt 0, PInt 0, PInt 0x10000ff0, PInt 0xff0, PInt 0, PInt 4] s = Some s' \<and> uart_live s'"
    by (rule traced [OF assms(4)]) (simp add: format_simps nl_def)
  then show "\<exists>s'. expect_refused vms v f (fault_at 0xff0 (abort_iss 1 4 False False) False) s = Some (f, s') \<and> uart_live s'"
    using assms(3) n R by (auto simp: expect_refused_def access_defs hv_vuart_read_def)
  have "\<exists>s'. trace ''hv_mmio_handle_fault'' (''unsupported mmio fault decode: vcpu=%d vm=%d ipa=%p iss=%p'' @ nl)
      [PInt 0, PInt 0, PInt 0x1000005c, PInt 0x810000] s = Some s' \<and> uart_live s'"
    by (rule traced [OF assms(4)]) (simp add: format_simps nl_def)
  then show "\<exists>s'. expect_refused vms v f (unsupported_access\<lparr>fault_iss := fault_iss unsupported_access AND NOT HSR_ISS_ABORT_ISV\<rparr>) s =
      Some (f, s') \<and> uart_live s'"
    using assms(3) by (auto simp: expect_refused_def access_defs unsupported_access_def)
qed

text \<open>The test passes. From any contents of memory, with the two UARTs of the BSS, the tables where the
  linker must put them and a serial line that works, every assertion holds and \<open>main\<close> comes to its end.\<close>

theorem test_hv_mmio_passes:
  assumes "tables_base_ok base" and "length (vuarts s) = HV_MAX_VMS" and "uart_live s"
  shows "\<exists>s'. test_hv_mmio_main base s = Some s'"
proof -
  obtain s1 where u: "UART_Init s = Some s1" and io: "io_out s s1 []" using uart_init_spec by blast
  obtain vm0 s2 where 0: "add_uart_region base zero_HvVm 0 s1 = Some (vm0, s2)" "uart_vm 0 vm0" "table_step s1 s2"
    using add_uart_region_ok [OF assms(1), of 0 s1] by auto
  obtain vm1 s3 where 1: "add_uart_region base zero_HvVm 1 s2 = Some (vm1, s3)" "uart_vm 1 vm1" "table_step s2 s3"
    using add_uart_region_ok [OF assms(1), of 1 s2] by auto
  have s3: "length (vuarts s3) = 2" "uart_live s3"
    using assms(2,3) io_out_live [OF io] 0(3) 1(3) io uart_live_in [of s3 s1]
    by (auto simp: table_step_def io_out_def)
  let ?vms = "[vm0, vm1]"
  have v: "uart_vm 0 (?vms ! 0)" "uart_vm 1 (?vms ! 1)" using 0(2) 1(2) by simp_all
  let ?v0 = "zero_HvVcpu\<lparr>vcpu_id := 0, vcpu_vm := Some 0\<rparr>" and ?v1 = "zero_HvVcpu\<lparr>vcpu_id := 1, vcpu_vm := Some 1\<rparr>"
  have p: "vcpu_vm ?v0 = Some 0" "vcpu_vm ?v1 = Some 1" by simp_all
  note A = store_scratch [OF v(1) _ p(1), simplified] store_scratch [OF v(2) _ p(2), simplified]
    load_scratch [OF v(1) _ p(1), simplified] load_scratch [OF v(2) _ p(2), simplified]
  have m: "mmio_mask_value 0x80 1 True = 0xffffff80" by (simp add: mmio_mask_value_def)
  let ?s31 = "upd_vuart 0 (scratch_update (\<lambda>_. TEST_VALUE_VM0)) s3"
  let ?s32 = "upd_vuart 1 (scratch_update (\<lambda>_. TEST_VALUE_VM1)) ?s31"
  let ?s4 = "upd_vuart 0 (scratch_update (\<lambda>_. 0x80)) ?s32"
  have st: "expect_store ?vms ?v0 3 HV_GUEST_AUX_MU_SCRATCH 4 TEST_VALUE_VM0 s3 = Some ?s31"
    "expect_store ?vms ?v1 3 HV_GUEST_AUX_MU_SCRATCH 4 TEST_VALUE_VM1 ?s31 = Some ?s32"
    "expect_store ?vms ?v0 5 HV_GUEST_AUX_MU_SCRATCH 1 0x80 ?s32 = Some ?s4"
    by (simp_all add: A)
  have ld: "expect_value ?vms ?v0 4 4 False TEST_VALUE_VM0 ?s31 = Some ?s31"
    "expect_value ?vms ?v1 4 4 False TEST_VALUE_VM1 ?s32 = Some ?s32"
    "expect_value ?vms ?v0 4 4 False TEST_VALUE_VM0 ?s32 = Some ?s32"
    "expect_value ?vms ?v0 6 1 True 0xffffff80 ?s4 = Some ?s4"
    using s3(1) by (simp_all add: A m upd_vuart_def)
  have "uart_live ?s4" using s3(2) uart_live_in [of ?s4 s3] by (simp add: upd_vuart_def)
  note B = refused [OF v(1) _ p(1)]
  from B(1) [OF _ \<open>uart_live ?s4\<close>] B(2) [OF _ \<open>uart_live ?s4\<close>, of zero_hyp_state] obtain s5 where
    5: "expect_refused ?vms ?v0 zero_hyp_state (fault_at HV_GUEST_AUX_MU_SCRATCH (abort_iss 13 4 False False) False) ?s4 =
      Some (zero_hyp_state, ?s4)"
    "expect_refused ?vms ?v0 zero_hyp_state (fault_at 0xff0 (abort_iss 1 4 False False) False) ?s4 = Some (zero_hyp_state, s5)"
    "uart_live s5" by auto
  from B(3) [OF _ 5(3), of zero_hyp_state] obtain s6 where
    6: "expect_refused ?vms ?v0 zero_hyp_state (unsupported_access\<lparr>fault_iss := fault_iss unsupported_access AND NOT HSR_ISS_ABORT_ISV\<rparr>) s5 =
      Some (zero_hyp_state, s6)" "uart_live s6" by auto
  obtain s7 where 7: "trace ''main'' (''test-hv-mmio passed'' @ nl) [] s6 = Some s7"
    using traced [OF 6(2), of "''test-hv-mmio passed'' @ nl" "[]"] by (auto simp: format_simps nl_def)
  show ?thesis
    by (simp only: test_hv_mmio_main_def u Option.bind.bind_lunit 0(1) 1(1) prod.case Let_def st ld 5(1,2)
        6(1) [unfolded unsupported_access_def] 7 option.inject ex_simps simp_thms)
qed

theorem test_hv_mmio_passes_witness:
  "\<exists>s'. test_hv_mmio_main 0x100000 (reset_vuart_hw\<lparr>hw_in := (\<lambda>_ _. 0xffffffff)\<rparr>) = Some s'"
  by (rule test_hv_mmio_passes) (auto simp: tables_base_ok_def uart_live_def port_live_def reset_vuart_hw_def vuart_hw.defs)

end
