(* ===== verification/Exceptions_Live.thy ===== *)
theory Exceptions_Live
  imports Exceptions_Spec
begin

section \<open>The handlers come back\<close>

text \<open>
  Which exceptions the handler of \<open>src/arch/hyp-exceptions.c\<close> comes back from, given a serial line that
  works: those of the hypervisor itself and, in \<open>guest_exception_returns\<close>, those of a guest. It can only stay
  in an assertion, in a division by zero or in a busy-wait on the line; the last is what the assumption
  excludes.
\<close>

subsection \<open>Blocks that only print\<close>

text \<open>\<open>finishes m P\<close>: \<open>m\<close> comes back, with \<open>P\<close>. \<open>said s0 s\<close>: between the states there was output and nothing else,
  and the serial line works.\<close>

definition finishes :: "'x option \<Rightarrow> ('x \<Rightarrow> bool) \<Rightarrow> bool" where
  "finishes m P \<longleftrightarrow> (\<exists>x. m = Some x \<and> P x)"

definition said :: "'a hw_scheme \<Rightarrow> 'a hw_scheme \<Rightarrow> bool" where
  "said s0 s \<longleftrightarrow> uart_live s \<and> (\<exists>out. io_out s0 s out)"

lemma fin_Some: "P x \<Longrightarrow> finishes (Some x) P"
  by (simp add: finishes_def)

lemma fin_bind: "finishes m P \<Longrightarrow> (\<And>x. P x \<Longrightarrow> finishes (k x) Q) \<Longrightarrow> finishes (m \<bind> k) Q"
  by (auto simp: finishes_def)

lemma fin_assert: "c \<Longrightarrow> P s \<Longrightarrow> finishes (hv_assert c s) P"
  by (simp add: finishes_def hv_assert_def)

lemma said_more: "said s0 s \<Longrightarrow> io_out s s' out \<Longrightarrow> said s0 s'"
  using io_out_trans io_out_live unfolding said_def by blast

lemma fin_printk: "said s0 s \<Longrightarrow> format fmt args \<noteq> None \<Longrightarrow> finishes (printk fmt args s) (said s0)"
  using printk_live [of s fmt args] printk_io_out said_more unfolding finishes_def by (metis said_def)

lemma fin_trace: "said s0 s \<Longrightarrow> format fmt args \<noteq> None \<Longrightarrow> finishes (trace func fmt args s) (said s0)"
  using trace_live [of s fmt args] trace_io_out said_more unfolding finishes_def by (metis said_def)

lemma fin_lines:
  "said s0 s \<Longrightarrow> (\<And>l. l \<in> set ls \<Longrightarrow> format (fst l) (snd l) \<noteq> None) \<Longrightarrow> finishes (trace_lines func ls s) (said s0)"
proof (induction ls arbitrary: s)
  case (Cons l ls)
  have "finishes (trace func (fst l) (snd l) s) (said s0)" by (rule fin_trace [OF Cons.prems(1)]) (simp add: Cons.prems(2))
  then show ?case using fin_bind [OF _ Cons.IH] Cons.prems(2) by simp
qed (simp add: fin_Some)

lemma dump_formats: "l \<in> set (dump_lines f) \<Longrightarrow> format (fst l) (snd l) \<noteq> None"
  by (auto simp: dump_lines_def format_simps nl_def)

lemma fin_if: "(c \<Longrightarrow> finishes m P) \<Longrightarrow> (\<not> c \<Longrightarrow> finishes n P) \<Longrightarrow> finishes (if c then m else n) P"
  by simp

lemma fin_dump:
  assumes "said s0 s"
  shows "finishes (hyp_dump_exception_state f s) (said s0)" "finishes (hyp_dump_unexpected_exception_state f s) (said s0)"
proof -
  show d: "finishes (hyp_dump_exception_state f s) (said s0)"
    unfolding hyp_dump_exception_state_def by (rule fin_lines [OF assms dump_formats])
  show "finishes (hyp_dump_unexpected_exception_state f s) (said s0)"
    unfolding hyp_dump_unexpected_exception_state_def by (intro fin_if d fin_Some assms)
qed

subsection \<open>The exceptions of the hypervisor itself\<close>

abbreviation answers :: "int \<Rightarrow> HypExceptState \<Rightarrow> 'a hw_scheme \<Rightarrow> int \<times> HypExceptState \<times> 'a hw_scheme \<Rightarrow> bool" where
  "answers r f s0 x \<equiv> fst x = r \<and> fst (snd x) = f \<and> said s0 (snd (snd x))"

lemma fin_fatal:
  assumes "said s0 s" "format (msg @ nl) [] \<noteq> None" "hsr_ec_valid (frame_hsr f) (uint t)"
  shows "finishes (fatal_exception func msg t f s) (answers HYP_ACTION_HALT f s0)"
  unfolding fatal_exception_def
  by (rule fin_bind [OF fin_dump(2) [OF assms(1)]], rule fin_bind, erule fin_trace, rule assms(2),
      rule fin_bind, erule fin_assert [OF assms(3)], rule fin_Some, simp)

lemma fin_own_hvc:
  assumes "said s0 s" "hsr_ec_valid (frame_hsr f) (uint HYP_EXCEPTION_HVC_FROM_HYP)"
  shows "finishes (handle_hvc_from_hyp f s) (answers HYP_ACTION_RETURN f s0)"
  unfolding handle_hvc_from_hyp_def
  by (rule fin_bind, rule fin_trace [OF assms(1)], simp add: format_simps nl_def,
      rule fin_bind, erule fin_assert [OF assms(2)], rule fin_Some, simp)

lemma fin_entry:
  assumes "said s0 s"
  shows "finishes (if hyp_except_verbose s then hyp_dump_exception_state f s else Some s) (said s0)"
  by (intro fin_if fin_dump(1) fin_Some assms)

text \<open>A fault of the hypervisor itself with a syndrome that fits its vector halts; a call of its own returns.\<close>

lemma own_fault:
  assumes "said s0 s" "hsr_ec_valid (frame_hsr f) (uint (frame_exception_type f))"
    "frame_exception_type f \<in> {HYP_EXCEPTION_UNKNOWN, HYP_EXCEPTION_UNDEF_INSTR, HYP_EXCEPTION_PREFETCH_ABORT, HYP_EXCEPTION_DATA_ABORT}"
  shows "finishes (hyp_handle_exception f s) (answers HYP_ACTION_HALT f s0)"
  unfolding hyp_handle_exception_def Let_def
  by (rule fin_bind [OF fin_entry [OF assms(1)]])
    (use assms(2,3) in \<open>auto simp: handle_undef_instr_def handle_unknown_def handle_prefetch_abort_def handle_data_abort_def
      intro!: fin_fatal simp: format_simps nl_def\<close>)

lemma own_call:
  assumes "said s0 s" "hsr_ec_valid (frame_hsr f) (uint HYP_EXCEPTION_HVC_FROM_HYP)"
    "frame_exception_type f = HYP_EXCEPTION_HVC_FROM_HYP"
  shows "finishes (hyp_handle_exception f s) (answers HYP_ACTION_RETURN f s0)"
  unfolding hyp_handle_exception_def Let_def
  by (rule fin_bind [OF fin_entry [OF assms(1)]]) (use assms(2,3) fin_own_hvc in simp)

text \<open>An access to a system register that nobody emulates halts.\<close>

lemma fin_cp15:
  assumes "said s0 s" "HSR_EC (frame_hsr f) = HSR_EC_CP15_MCR_MRC"
  shows "finishes (handle_lower_sync f s) (answers HYP_ACTION_HALT f s0)"
proof -
  have "hsr_ec_valid (frame_hsr f) (uint HYP_EXCEPTION_LOWER_SYNC)"
    using assms(2) by (simp add: hsr_ec_valid_def valid_hsr_ec_def reg_defs)
  then have "handle_lower_sync f s = do {
      s \<leftarrow> hyp_dump_unexpected_exception_state f s;
      s \<leftarrow> trace ''handle_lower_sync'' (''Unhandled guest CP15 trap: vcpu=%d iss=%p'' @ nl)
        [PInt (case hv_scheduler_get_current s of None \<Rightarrow> 0xffffffff | Some c \<Rightarrow> vcpu_id (vcpu_at c s)),
         PInt (HSR_ISS (frame_hsr f))] s;
      Some (HYP_ACTION_HALT, f, s) }"
    using assms(2) by (simp add: handle_lower_sync_def hv_assert_def)
  moreover have "finishes \<dots> (answers HYP_ACTION_HALT f s0)"
    by (rule fin_bind [OF fin_dump(2) [OF assms(1)]], rule fin_bind, erule fin_trace, simp add: format_simps nl_def,
        rule fin_Some, simp)
  ultimately show ?thesis by simp
qed

lemma own_trap:
  assumes "said s0 s" "HSR_EC (frame_hsr f) = HSR_EC_CP15_MCR_MRC" "frame_exception_type f = HYP_EXCEPTION_LOWER_SYNC"
  shows "finishes (hyp_handle_exception f s) (answers HYP_ACTION_HALT f s0)"
  unfolding hyp_handle_exception_def Let_def
  by (rule fin_bind [OF fin_entry [OF assms(1)]]) (use assms(2,3) fin_cp15 in simp)

subsection \<open>Faults of a guest\<close>

abbreviation comes :: "'x option \<Rightarrow> bool" where "comes m \<equiv> finishes m (\<lambda>_. True)"

lemma comes_iff: "comes m \<longleftrightarrow> m \<noteq> None"
  by (simp add: finishes_def)

lemma fin_comes: "finishes m P \<Longrightarrow> comes m"
  by (auto simp: finishes_def)

text \<open>A load of the data register may wait for a byte: the line must not stop between the test and the read.\<close>

definition rx_live :: "'a hw_scheme \<Rightarrow> bool" where
  "rx_live s \<longleftrightarrow> port_live 1 s \<or> (\<forall>n. hw_in s n (Dev AUX_MU_LSR_REG) AND 1 = 0)"

lemma get8_async_comes:
  assumes "rx_live s"
  shows "comes (UART_Get8_Async s)"
proof -
  obtain d s1 where h: "UART_Has_Data (DSB s) = (d, s1)" by fastforce
  have in1: "hw_in s1 = hw_in s" using io_out_eqs(7) [OF UART_Has_Data_io [OF h]] io_out_eqs(7) [OF io_out_DSB] by simp
  have "d \<Longrightarrow> port_live 1 (DSB s1)"
    using assms h in1 by (auto simp: rx_live_def port_live_def UART_Has_Data_def GET32_def read_port_def Let_def DSB_def emit_def)
  then have "d \<Longrightarrow> \<exists>s2. uart_wait 1 (DSB s1) = Some s2" by (rule uart_wait_live)
  then show ?thesis
    by (cases d) (auto simp: comes_iff UART_Get8_Async_def h Let_def UART_Get8_def split: prod.splits)
qed

lemma vuart_comes:
  assumes "uart_live s" "rx_live s"
  shows "comes (hv_vuart_write vmid offset v sz s)" "comes (hv_vuart_read vmid offset sz w s)"
proof -
  show "comes (hv_vuart_write vmid offset v sz s)"
    using UART_Put8_live [OF assms(1), of "ucast v"] by (auto simp: comes_iff hv_vuart_write_def)
  show "comes (hv_vuart_read vmid offset sz w s)"
    using get8_async_comes [OF assms(2)] by (auto simp: comes_iff hv_vuart_read_def Let_def split: prod.splits)
qed

lemma virtual_device_comes:
  assumes "uart_live s" "rx_live s"
  shows "comes (hv_virtual_device_access vms vcpu region fault sz v w s)"
  unfolding hv_virtual_device_access_def Let_def
  by (auto intro!: fin_if fin_bind [OF vuart_comes(1) [OF assms]] vuart_comes(2) [OF assms] fin_Some
      split: option.split HvVmMmioDevice.split)

lemma fin_prod: "(\<And>a b. finishes (h a b) P) \<Longrightarrow> finishes (case x of (a, b) \<Rightarrow> h a b) P"
  by (simp add: split_beta)

lemma device_refuses:
  assumes "uart_live s" "rx_live s" "vcpu_vm v = Some i"
  shows "finishes (hv_virtual_device_access vms (Some v) (Some region) fault sz val (Some w) s)
    (\<lambda>(res, _, s'). res \<noteq> HV_MMIO_OK \<longrightarrow> uart_live s')"
proof -
  have vm: "Option.bind (Some v) vcpu_vm = Some i" using assms(3) by simp
  obtain res p s' where d: "hv_virtual_device_access vms (Some v) (Some region) fault sz val (Some w) s = Some (res, p, s')"
    using virtual_device_comes [OF assms(1,2)] by (fastforce simp: finishes_def)
  then show ?thesis
    using virtual_device_cases(3) [OF d vm] io_out_live assms(1) by (auto simp: finishes_def)
qed

lemma trace_comes: "uart_live s \<Longrightarrow> format fmt args \<noteq> None \<Longrightarrow> comes (trace func fmt args s)"
  using trace_live unfolding comes_iff by blast

lemma mmio_comes:
  assumes "uart_live s" "rx_live s"
  shows "comes (hv_mmio_handle_fault vms (Some v) f fault s)"
proof (cases "vcpu_vm v")
  case (Some i)
  show ?thesis
    unfolding hv_mmio_handle_fault_def
    by (auto simp: Some Let_def format_simps nl_def split: option.split sum.split prod.split
        intro!: fin_if fin_Some fin_prod fin_bind [OF device_refuses [OF assms Some]] fin_bind [OF trace_comes [OF assms(1)]]
          fin_bind [OF trace_comes])
qed (simp add: hv_mmio_handle_fault_def fin_Some)

lemma fin_log_fault: "said s0 s \<Longrightarrow> finishes (log_stage2_fault fault route s) (said s0)"
  unfolding log_stage2_fault_def
  by (intro fin_if fin_Some fin_trace) (simp_all add: format_simps nl_def)

lemma fin_log_abort: "said s0 s \<Longrightarrow> finishes (log_guest_abort f s) (said s0)"
  unfolding log_guest_abort_def Let_def
  by (intro fin_if fin_Some fin_bind [OF fin_trace] fin_trace) (simp_all add: format_simps nl_def)

lemma said_machine:
  fixes s :: machine
  assumes "said s0 s"
  shows "scheduler s = scheduler s0" "cur_of s = cur_of s0" "uart_live s" "guest_call f s0 \<Longrightarrow> guest_call f s"
  using assms io_machine(1,9) guest_call_io unfolding said_def by blast+

lemma stop_comes:
  assumes "guest_call f s0" "said s0 s"
  shows "comes (stop_current_guest_vcpu (cur_of s0) g s)"
proof -
  note M = said_machine [OF assms(2)]
  note G = guest_callD [OF M(4) [OF assms(1)]]
  note X = exit_current_spec [OF G(2,3)]
  have "returns_ok (exit_current s)" by (rule live_returns [OF M(3) X(7)])
  then show ?thesis
    using advance_returns [OF sched_wfD(4) [OF X(2)], of g] stop_eq [of s g] M(2) by (simp add: comes_iff)
qed

lemma log_stop_comes:
  assumes "guest_call f s0" "said s0 s"
  shows "comes (do { s \<leftarrow> log_stage2_fault fault route s; stop_current_guest_vcpu (cur_of s0) g s })"
  by (rule fin_bind [OF fin_log_fault [OF assms(2)]]) (rule stop_comes [OF assms(1)])

lemma mmio_refuses:
  assumes "said s0 s" "rx_live s0" "vcpu_vm v = Some i"
  shows "finishes (hv_mmio_handle_fault vms (Some v) f fault s) (\<lambda>(res, _, s'). res \<noteq> HV_MMIO_OK \<longrightarrow> said s0 s')"
proof -
  have "hw_in s = hw_in s0" using assms(1) io_out_eqs(7) by (auto simp: said_def)
  then have "rx_live s" using assms(2) by (simp add: rx_live_def port_live_def)
  moreover have "uart_live s" using assms(1) by (simp add: said_def)
  ultimately obtain res f' s' where h: "hv_mmio_handle_fault vms (Some v) f fault s = Some (res, f', s')"
    using mmio_comes by (fastforce simp: finishes_def)
  then show ?thesis
    using hv_mmio_handle_fault_cases(3) [OF h assms(3)] said_more [OF assms(1)] by (auto simp: finishes_def)
qed

lemma abort_mmio_comes:
  assumes "guest_call f s0" "said s0 s" "rx_live s0"
  shows "comes (guest_abort_mmio (cur_of s0) fault f s)"
  unfolding guest_abort_mmio_def
proof (rule fin_bind [OF fin_log_fault [OF assms(2)]])
  fix s1 assume 1: "said s0 s1"
  note M = said_machine [OF 1]
  note G = guest_callD [OF assms(1)]
  have vm: "vcpu_vm (vcpu_at (cur_of s0) s1) = Some (cur_of s0)"
    using sched_wfD(6) [OF G(2,3)] M(1) by (simp add: vcpu_at_def)
  show "comes (do {
     (res, f, s) \<leftarrow> hv_mmio_handle_fault (sch_vm (scheduler s1)) (deref (Some (cur_of s0)) s1) f fault s1;
     if res = HV_MMIO_OK then Some (HYP_ACTION_RETURN, advance_trapped_guest_instr f, s)
     else do {
       s \<leftarrow> log_stage2_fault fault ''mmio-unhandled'' s;
       stop_current_guest_vcpu (cur_of s0) f s } })"
    unfolding deref_def option.map
    by (rule fin_bind [OF mmio_refuses [OF 1 assms(3) vm]])
      (auto intro!: fin_if fin_Some log_stop_comes [OF assms(1)] fin_prod)
qed

lemma abort_in_vm_comes:
  assumes "guest_call f s0" "said s0 s" "rx_live s0"
  shows "comes (guest_abort_in_vm (cur_of s0) vm fault f s)"
  unfolding guest_abort_in_vm_def
  by (auto intro!: fin_if log_stop_comes [OF assms(1,2)] abort_mmio_comes [OF assms] split: option.split sum.split)

lemma guest_abort_comes:
  assumes "guest_call f s0" "said s0 s" "rx_live s0"
  shows "comes (handle_guest_abort f s)"
  unfolding handle_guest_abort_def Let_def
proof (rule fin_bind [OF fin_log_abort [OF assms(2)]])
  fix s1 assume 1: "said s0 s1"
  note M = said_machine [OF 1] and M0 = said_machine [OF assms(2)]
  note G = guest_callD [OF M0(4) [OF assms(1)]]
  have "vcpu_vm (vcpu_at (cur_of s) s) = Some (cur_of s)" by (rule sched_wfD(6) [OF G(2,3)])
  then show "comes (case hv_scheduler_get_current s of None \<Rightarrow> Some (HYP_ACTION_HALT, f, s1)
     | Some c \<Rightarrow>
         if hv_scheduler_is_idle_vcpu (deref (hv_scheduler_get_current s) s1) then Some (HYP_ACTION_HALT, f, s1)
         else case vcpu_vm (vcpu_at c s1) of
              None \<Rightarrow> do {
                s \<leftarrow> log_stage2_fault (decode_stage2_fault (sch_vm (scheduler s1)) (deref (hv_scheduler_get_current s) s1) f) ''no-vm'' s1;
                Some (HYP_ACTION_HALT, f, s) }
            | Some vm \<Rightarrow> guest_abort_in_vm c vm (decode_stage2_fault (sch_vm (scheduler s1)) (deref (hv_scheduler_get_current s) s1) f) f s1)"
    using G(5) abort_in_vm_comes [OF assms(1) 1 assms(3)] M(1,2) M0(1,2)
    by (auto simp: vcpu_at_def intro!: fin_if fin_Some split: option.split)
qed

subsection \<open>Synchronous exceptions of a guest\<close>

text \<open>What the handler can answer: a syndrome of the list, and a hypercall with the immediate of the ABI that
  does not divide by a period which is zero in 32 bits.\<close>

definition answerable :: "HypExceptState \<Rightarrow> machine \<Rightarrow> bool" where
  "answerable f s \<longleftrightarrow> hsr_ec_valid (frame_hsr f) (uint HYP_EXCEPTION_LOWER_SYNC) \<and>
     (HSR_EC (frame_hsr f) = HSR_EC_HVC_A32 \<longrightarrow> hsr_iss_imm16 (frame_hsr f) = HYPERCALL_HVC_IMM \<and>
        (reg f 0 = HYPERCALL_TIMER_GET_FREQ \<longrightarrow> hv_vcpu_timer_get_frequency (Some (vcpu_at (cur_of s) s)) \<noteq> None))"

lemma lower_sync_comes:
  assumes "guest_call f s0" "said s0 s" "rx_live s0" "answerable f s"
  shows "comes (handle_lower_sync f s)"
proof -
  note M = said_machine [OF assms(2)]
  note g = M(4) [OF assms(1)]
  note G = guest_callD [OF g]
  have v: "hsr_ec_valid (frame_hsr f) (uint HYP_EXCEPTION_LOWER_SYNC)" using assms(4) by (simp add: answerable_def)
  have hvc: "comes (handle_hvc_from_lower f s)" if "HSR_EC (frame_hsr f) = HSR_EC_HVC_A32"
    using that assms(4) hypercall_returns [OF g M(3)]
    by (simp add: answerable_def handle_hvc_from_lower_def hv_assert_def comes_iff)
  have wfi: "comes (hv_scheduler_handle_wfi f s)"
    using wfi_returns [OF sched_wfD(4) [OF G(2)] live_returns [OF M(3) refl]] by (simp add: comes_iff)
  have halt: "comes (do {
      s \<leftarrow> hyp_dump_unexpected_exception_state f s; s \<leftarrow> trace ''handle_lower_sync'' fmt (args s) s;
      Some (HYP_ACTION_HALT, f, s) })" if "\<And>s. format fmt (args s) \<noteq> None" for fmt args
    by (rule fin_bind [OF fin_dump(2) [OF assms(2)]], rule fin_bind, erule fin_trace, rule that, rule fin_Some, simp)
  show ?thesis
    unfolding handle_lower_sync_def hv_assert_def Let_def
    using v by (auto intro!: fin_if fin_Some hvc wfi guest_abort_comes [OF assms(1-3)] halt simp: format_simps nl_def)
qed

lemma sync_refused:
  assumes "guest_call f s" "\<not> answerable f s"
  shows "handle_lower_sync f s = None"
  using assms(2) call_get_freq [OF assms(1)]
  by (auto simp: answerable_def handle_lower_sync_def handle_hvc_from_lower_def hv_assert_def Let_def)

text \<open>The hypervisor comes back from every synchronous exception of a guest that it can answer: as long as the
  serial line works, the handler returns, unless the syndrome is not on the list for guests, the hypercall
  does not carry the immediate of the ABI, or the guest asks for the frequency of a timer whose period is
  zero in 32 bits; and then it does not.\<close>

theorem guest_exception_returns:
  assumes "guest_call f s" and "frame_exception_type f = HYP_EXCEPTION_LOWER_SYNC" and "uart_live s" and "rx_live s"
  shows "hyp_handle_exception f s \<noteq> None \<longleftrightarrow> answerable f s"
proof -
  have s: "said s s" using assms(3) io_out_refl by (auto simp: said_def)
  have same: "answerable f s1 = answerable f s" if "said s s1" for s1
    using said_machine(1,2) [OF that] by (simp add: answerable_def vcpu_at_def)
  obtain s1 where e: "(if hyp_except_verbose s then hyp_dump_exception_state f s else Some s) = Some s1" and 1: "said s s1"
    using fin_entry [OF s] by (auto simp: finishes_def)
  have "hyp_handle_exception f s = handle_lower_sync f s1"
    using assms(2) e by (simp add: hyp_handle_exception_def Let_def)
  moreover have "handle_lower_sync f s1 \<noteq> None" if "answerable f s"
    using lower_sync_comes [OF assms(1) 1 assms(4)] same [OF 1] that by (simp add: comes_iff)
  moreover have "handle_lower_sync f s1 = None" if "\<not> answerable f s"
    using sync_refused [OF said_machine(4) [OF 1 assms(1)]] same [OF 1] that by simp
  ultimately show ?thesis by (cases "answerable f s") auto
qed

text \<open>The abort of the example, and a hypercall with another immediate, on a machine with a working line.\<close>

lemma guest_call_line: "guest_call f (s\<lparr>hw_in := x\<rparr>) = guest_call f s" for s :: machine
  by (simp add: guest_call_def sched_run_def hw_for_def hcr_bit_def vcpu_at_def cur_of_def cong: option.case_cong)

theorem guest_exception_returns_witness:
  "hyp_handle_exception abort_frame (running_machine2\<lparr>hw_in := (\<lambda>_ _. 0xffffffff)\<rparr>) \<noteq> None \<and>
   hyp_handle_exception (abort_frame\<lparr>frame_hsr := 0x4a000001\<rparr>) (running_machine2\<lparr>hw_in := (\<lambda>_ _. 0xffffffff)\<rparr>) = None"
proof -
  let ?s = "running_machine2\<lparr>hw_in := (\<lambda>_ _. 0xffffffff)\<rparr>" and ?g = "abort_frame\<lparr>frame_hsr := 0x4a000001\<rparr>"
  have live: "uart_live ?s" "rx_live ?s" by (auto simp: uart_live_def rx_live_def port_live_def)
  have call: "guest_call abort_frame ?s" using running2(1) by (simp add: guest_call_line)
  then have call': "guest_call ?g ?s" by (simp add: guest_call_def frame_ok_def)
  have t: "frame_exception_type abort_frame = HYP_EXCEPTION_LOWER_SYNC" "frame_exception_type ?g = HYP_EXCEPTION_LOWER_SYNC"
    by (simp_all add: abort_frame_def)
  have "answerable abort_frame ?s"
    by (simp add: answerable_def abort_frame_def hsr_ec_valid_def valid_hsr_ec_def reg_defs)
  moreover have "\<not> answerable ?g ?s" by (simp add: answerable_def hsr_iss_imm16_def reg_defs)
  ultimately show ?thesis
    using guest_exception_returns [OF call t(1) live] guest_exception_returns [OF call' t(2) live] by blast
qed

end
