(* ===== verification/Test_Hyp_Exceptions.thy ===== *)
theory Test_Hyp_Exceptions
  imports Guest_Systems Exceptions_Live
begin

section \<open>The tests of the hypervisor's own exceptions\<close>

text \<open>
  \<open>tests/test-hyp-exceptions.c\<close> calls \<open>hyp_handle_exception\<close> on frames it makes up, one for each kind of
  synchronous exception, and asserts the action; \<open>test-basic-hvc.c\<close>, \<open>test-hyp-undef.c\<close> and
  \<open>test-hyp-data-abort.c\<close> cause the exception by an instruction. There the registers of the frame are a
  parameter, its type and syndrome are what the vectors and the processor put into it, and the handler's
  action decides whether the program goes on. A program that stays in the loop of the vectors after
  \<open>HYP_ACTION_HALT\<close> has the result \<open>Inl\<close>, one whose \<open>main\<close> comes back \<open>Inr\<close>.
\<close>

definition HSR_FOR_EC :: "u32 \<Rightarrow> u32" where "HSR_FOR_EC ec = push_bit HSR_EC_SHIFT ec"
definition HSR_FOR_EC_ISS :: "u32 \<Rightarrow> u32 \<Rightarrow> u32" where "HSR_FOR_EC_ISS ec iss = HSR_FOR_EC ec OR (iss AND HSR_ISS_MASK)"

definition fill_state :: "u32 \<Rightarrow> u32 \<Rightarrow> HypExceptState" where
  "fill_state type hsr = \<lparr>frame_r = map (\<lambda>i. 0x1000 + of_nat i) [0..<13], frame_lr = 0x2000, frame_hsr = hsr,
     frame_elr_hyp = 0x3000, frame_spsr_hyp = 0x4000, frame_hdfar = 0x5000, frame_hifar = 0x6000,
     frame_hpfar = 0x7000, frame_exception_type = type\<rparr>"

definition run_case :: "string \<Rightarrow> u32 \<Rightarrow> u32 \<Rightarrow> int \<Rightarrow> machine \<Rightarrow> machine option" where
  "run_case name type hsr expected s = do {
     s \<leftarrow> printk (''---- %s ----'' @ nl) [PStr (Some name)] s;
     (action, state, s) \<leftarrow> hyp_handle_exception (fill_state type hsr) s;
     hv_assert (action = expected) s }"

definition test_hyp_exceptions_main :: "machine \<Rightarrow> machine option" where
  "test_hyp_exceptions_main s = do {
     s \<leftarrow> UART_Init s;
     s \<leftarrow> printk (''test-hyp-exceptions start'' @ nl) [] s;
     s \<leftarrow> printk (''mode: %b'' @ nl) [PInt (read_cpsr s AND 0x1F)] s;
     s \<leftarrow> run_case ''unknown'' HYP_EXCEPTION_UNKNOWN (HSR_FOR_EC HSR_EC_UNKNOWN) HYP_ACTION_HALT s;
     s \<leftarrow> run_case ''undefined instruction'' HYP_EXCEPTION_UNDEF_INSTR (HSR_FOR_EC HSR_EC_UNKNOWN) HYP_ACTION_HALT s;
     s \<leftarrow> run_case ''hvc from hyp'' HYP_EXCEPTION_HVC_FROM_HYP (HSR_FOR_EC_ISS HSR_EC_HVC_A32 0x1234) HYP_ACTION_RETURN s;
     s \<leftarrow> run_case ''prefetch abort'' HYP_EXCEPTION_PREFETCH_ABORT (HSR_FOR_EC HSR_EC_PREFETCH_ABORT_SAME) HYP_ACTION_HALT s;
     s \<leftarrow> run_case ''data abort'' HYP_EXCEPTION_DATA_ABORT (HSR_FOR_EC HSR_EC_DATA_ABORT_SAME) HYP_ACTION_HALT s;
     s \<leftarrow> run_case ''lower sync'' HYP_EXCEPTION_LOWER_SYNC (HSR_FOR_EC HSR_EC_CP15_MCR_MRC) HYP_ACTION_HALT s;
     printk (''test-hyp-exceptions done'' @ nl) [] s }"

text \<open>An instruction that traps to the hypervisor itself, and what the programs check before it.\<close>

definition own_exception :: "u32 \<Rightarrow> u32 \<Rightarrow> HypExceptState \<Rightarrow> machine \<Rightarrow> (int \<times> HypExceptState \<times> machine) option" where
  "own_exception type hsr f s = hyp_handle_exception (f\<lparr>frame_hsr := hsr, frame_exception_type := type\<rparr>) s"

definition check_hyp_mode :: "machine \<Rightarrow> machine option" where
  "check_hyp_mode s = do {
     s \<leftarrow> hv_assert (read_cpsr s AND CPSR_PEMODE_MASK = CPSR_PEMODE_HYP) s;
     hv_assert (read_hcr s AND 0x1F = HCR_SWIO) s }"

definition test_basic_hvc_main :: "HypExceptState \<Rightarrow> machine \<Rightarrow> (machine + machine) option" where
  "test_basic_hvc_main f s = do {
     s \<leftarrow> UART_Init s;
     s \<leftarrow> printk (''mode: %b'' @ nl) [PInt (read_cpsr s AND 0x1F)] s;
     s \<leftarrow> printk (''hcr: %b'' @ nl) [PInt (read_hcr s)] s;
     s \<leftarrow> check_hyp_mode s;
     s \<leftarrow> printk (''before hvc'' @ nl) [] s;
     (action, f, s) \<leftarrow> own_exception HYP_EXCEPTION_HVC_FROM_HYP (HSR_FOR_EC_ISS HSR_EC_HVC_A32 0 OR push_bit HSR_IL_SHIFT HSR_IL_MASK) f s;
     if action \<noteq> HYP_ACTION_RETURN then Some (Inl s)
     else do {
       s \<leftarrow> printk (''after hvc'' @ nl) [] s;
       s \<leftarrow> printk (''mode: %b'' @ nl) [PInt (read_cpsr s AND 0x1F)] s;
       Some (Inr s) } }"

definition test_hyp_undef_main :: "HypExceptState \<Rightarrow> machine \<Rightarrow> (machine + machine) option" where
  "test_hyp_undef_main f s = do {
     s \<leftarrow> UART_Init s;
     s \<leftarrow> printk (''test-hyp-undef start'' @ nl) [] s;
     s \<leftarrow> printk (''mode: %b'' @ nl) [PInt (read_cpsr s AND 0x1F)] s;
     s \<leftarrow> check_hyp_mode s;
     s \<leftarrow> printk (''triggering undefined instruction'' @ nl) [] s;
     (action, f, s) \<leftarrow> own_exception HYP_EXCEPTION_UNDEF_INSTR (HSR_FOR_EC HSR_EC_UNKNOWN OR push_bit HSR_IL_SHIFT HSR_IL_MASK) f s;
     if action \<noteq> HYP_ACTION_RETURN then Some (Inl s)
     else map_option Inr (hv_assert False s) }"

definition test_hyp_data_abort_main :: "u32 \<Rightarrow> HypExceptState \<Rightarrow> machine \<Rightarrow> (machine + machine) option" where
  "test_hyp_data_abort_main iss f s = do {
     s \<leftarrow> UART_Init s;
     s \<leftarrow> printk (''test-hyp-data-abort start'' @ nl) [] s;
     s \<leftarrow> printk (''mode: %b'' @ nl) [PInt (read_cpsr s AND 0x1F)] s;
     s \<leftarrow> check_hyp_mode s;
     s \<leftarrow> printk (''triggering data abort'' @ nl) [] s;
     (action, f, s) \<leftarrow> own_exception HYP_EXCEPTION_DATA_ABORT (HSR_FOR_EC_ISS HSR_EC_DATA_ABORT_SAME iss) f s;
     if action \<noteq> HYP_ACTION_RETURN then Some (Inl s) else Some (Inr s) }"

subsection \<open>The programs\<close>

lemma fin_uart_init: "uart_live s \<Longrightarrow> finishes (UART_Init s) (said s)"
  using uart_init_spec [of s] io_out_live unfolding finishes_def said_def by blast

lemma fin_case:
  assumes "said s0 s"
    "\<And>s. said s0 s \<Longrightarrow> finishes (hyp_handle_exception (fill_state t hsr) s) (answers r (fill_state t hsr) s0)"
  shows "finishes (run_case name t hsr r s) (said s0)"
  unfolding run_case_def
proof (rule fin_bind)
  show "finishes (printk (''---- %s ----'' @ nl) [PStr (Some name)] s) (said s0)"
    by (rule fin_printk [OF assms(1)]) (simp add: format_simps nl_def)
next
  fix s1 assume 1: "said s0 s1"
  show "finishes (do { (action, state, s) \<leftarrow> hyp_handle_exception (fill_state t hsr) s1; hv_assert (action = r) s }) (said s0)"
    by (rule fin_bind [OF assms(2) [OF 1]]) (auto intro: fin_assert fin_Some)
qed

lemma fill_sel: "frame_hsr (fill_state t hsr) = hsr" "frame_exception_type (fill_state t hsr) = t"
  by (simp_all add: fill_state_def)

lemmas syndrome_defs = hsr_ec_valid_def valid_hsr_ec_def reg_defs HSR_FOR_EC_def HSR_FOR_EC_ISS_def

lemma own_cases:
  assumes "said s0 s"
  shows "finishes (run_case ''unknown'' HYP_EXCEPTION_UNKNOWN (HSR_FOR_EC HSR_EC_UNKNOWN) HYP_ACTION_HALT s) (said s0)"
    "finishes (run_case ''undefined instruction'' HYP_EXCEPTION_UNDEF_INSTR (HSR_FOR_EC HSR_EC_UNKNOWN) HYP_ACTION_HALT s) (said s0)"
    "finishes (run_case ''hvc from hyp'' HYP_EXCEPTION_HVC_FROM_HYP (HSR_FOR_EC_ISS HSR_EC_HVC_A32 0x1234) HYP_ACTION_RETURN s) (said s0)"
    "finishes (run_case ''prefetch abort'' HYP_EXCEPTION_PREFETCH_ABORT (HSR_FOR_EC HSR_EC_PREFETCH_ABORT_SAME) HYP_ACTION_HALT s) (said s0)"
    "finishes (run_case ''data abort'' HYP_EXCEPTION_DATA_ABORT (HSR_FOR_EC HSR_EC_DATA_ABORT_SAME) HYP_ACTION_HALT s) (said s0)"
    "finishes (run_case ''lower sync'' HYP_EXCEPTION_LOWER_SYNC (HSR_FOR_EC HSR_EC_CP15_MCR_MRC) HYP_ACTION_HALT s) (said s0)"
  by (rule fin_case [OF assms], (erule own_fault own_call own_trap; simp add: fill_sel syndrome_defs))+

text \<open>C25: the handler does with every kind of exception of the hypervisor itself what the test expects: it halts
  for a fault, returns from a call of the hypervisor, and halts for a trapped system register of a guest.
  With a working serial line, tracing or not, the test comes to its end having only printed.\<close>

theorem test_hyp_exceptions_passes:
  assumes "uart_live s"
  shows "\<exists>s' out. test_hyp_exceptions_main s = Some s' \<and> io_out s s' out"
proof -
  have "finishes (test_hyp_exceptions_main s) (said s)"
    unfolding test_hyp_exceptions_main_def
    by (rule fin_bind [OF fin_uart_init [OF assms]],
        (rule fin_bind, (erule own_cases fin_printk; simp add: format_simps nl_def))+,
        erule fin_printk, simp add: format_simps nl_def)
  then show ?thesis by (auto simp: finishes_def said_def)
qed

definition test_machine :: machine where
  "test_machine = reset_machine\<lparr>hw_in := (\<lambda>_ _. 0xffffffff), hcr := HCR_SWIO\<rparr>"

lemma test_machine_ok: "uart_live test_machine" "cpsr test_machine AND CPSR_PEMODE_MASK = CPSR_PEMODE_HYP"
  "hcr test_machine AND 0x1F = HCR_SWIO"
  by (auto simp: test_machine_def uart_live_def port_live_def reset_machine_def reset_vuart_hw_def vuart_hw.defs)

theorem test_hyp_exceptions_passes_witness:
  "\<exists>s' out. test_hyp_exceptions_main test_machine = Some s' \<and> io_out test_machine s' out"
  by (rule test_hyp_exceptions_passes [OF test_machine_ok(1)])

text \<open>The checks before the instruction, and the exceptions it causes.\<close>

lemma fin_check:
  assumes "cpsr s0 AND CPSR_PEMODE_MASK = CPSR_PEMODE_HYP" "hcr s0 AND 0x1F = HCR_SWIO" "said s0 s"
  shows "finishes (check_hyp_mode s) (said s0)"
proof -
  have "cpsr s = cpsr s0" "hcr s = hcr s0" using assms(3) io_out_eqs by (auto simp: said_def)
  then show ?thesis
    using assms by (simp add: check_hyp_mode_def hv_assert_def read_cpsr_def read_hcr_def fin_Some)
qed

lemma own_exceptions:
  assumes "said s0 s"
  shows "\<exists>g. finishes (own_exception HYP_EXCEPTION_HVC_FROM_HYP (HSR_FOR_EC_ISS HSR_EC_HVC_A32 0 OR push_bit HSR_IL_SHIFT HSR_IL_MASK) f s)
      (answers HYP_ACTION_RETURN g s0)"
    "\<exists>g. finishes (own_exception HYP_EXCEPTION_UNDEF_INSTR (HSR_FOR_EC HSR_EC_UNKNOWN OR push_bit HSR_IL_SHIFT HSR_IL_MASK) f s)
      (answers HYP_ACTION_HALT g s0)"
    "\<exists>g. finishes (own_exception HYP_EXCEPTION_DATA_ABORT (HSR_FOR_EC_ISS HSR_EC_DATA_ABORT_SAME iss) f s)
      (answers HYP_ACTION_HALT g s0)"
proof -
  have d: "drop_bit 26 (HSR_FOR_EC_ISS HSR_EC_DATA_ABORT_SAME iss) = HSR_EC_DATA_ABORT_SAME"
    by (simp add: HSR_FOR_EC_ISS_def HSR_FOR_EC_def drop_bit_or drop_bit_and)
  show "\<exists>g. finishes (own_exception HYP_EXCEPTION_DATA_ABORT (HSR_FOR_EC_ISS HSR_EC_DATA_ABORT_SAME iss) f s)
      (answers HYP_ACTION_HALT g s0)"
    unfolding own_exception_def
    by (intro exI, rule own_fault [OF assms]) (simp_all add: hsr_ec_valid_def valid_hsr_ec_def reg_defs d)
  show "\<exists>g. finishes (own_exception HYP_EXCEPTION_HVC_FROM_HYP (HSR_FOR_EC_ISS HSR_EC_HVC_A32 0 OR push_bit HSR_IL_SHIFT HSR_IL_MASK) f s)
      (answers HYP_ACTION_RETURN g s0)"
    unfolding own_exception_def by (intro exI, rule own_call [OF assms]) (simp_all add: syndrome_defs)
  show "\<exists>g. finishes (own_exception HYP_EXCEPTION_UNDEF_INSTR (HSR_FOR_EC HSR_EC_UNKNOWN OR push_bit HSR_IL_SHIFT HSR_IL_MASK) f s)
      (answers HYP_ACTION_HALT g s0)"
    unfolding own_exception_def by (intro exI, rule own_fault [OF assms]) (simp_all add: syndrome_defs)
qed

text \<open>What the programs with a fault do before it, and a fault that is never left.\<close>

lemma mode_format: "format (''mode: %b'' @ nl) [PInt v] \<noteq> None" "format (''hcr: %b'' @ nl) [PInt v] \<noteq> None"
  by (simp_all add: format_simps nl_def)

lemma fin_before:
  assumes "uart_live s" "cpsr s AND CPSR_PEMODE_MASK = CPSR_PEMODE_HYP" "hcr s AND 0x1F = HCR_SWIO"
    and "format start [] \<noteq> None" "format trigger [] \<noteq> None" "\<And>t. said s t \<Longrightarrow> finishes (k t) Q"
  shows "finishes (do {
      s \<leftarrow> UART_Init s;
      s \<leftarrow> printk start [] s;
      s \<leftarrow> printk (''mode: %b'' @ nl) [PInt (read_cpsr s AND 0x1F)] s;
      s \<leftarrow> check_hyp_mode s;
      s \<leftarrow> printk trigger [] s;
      k s }) Q"
  by (rule fin_bind [OF fin_uart_init [OF assms(1)]], rule fin_bind, erule fin_printk, rule assms(4),
      rule fin_bind, erule fin_printk, rule mode_format, rule fin_bind, erule fin_check [OF assms(2,3)],
      rule fin_bind, erule fin_printk, rule assms(5), erule assms(6))

lemma fin_halted:
  assumes "\<exists>g. finishes m (answers HYP_ACTION_HALT g s0)"
  shows "finishes (do { (action, f, s) \<leftarrow> m; if action \<noteq> HYP_ACTION_RETURN then Some (Inl s) else k s }) (\<lambda>r. \<exists>t. r = Inl t \<and> said s0 t)"
  using assms by (auto simp: finishes_def)

text \<open>The instructions that trap to the hypervisor itself. With the board in Hyp mode as the bootloader leaves
  it and a working serial line, \<open>hvc\<close> comes back and the program goes on to its end, an undefined instruction and
  an aborting store never do; nothing but output happens in all three.\<close>

theorem own_exceptions_correct:
  assumes "uart_live s" "cpsr s AND CPSR_PEMODE_MASK = CPSR_PEMODE_HYP" "hcr s AND 0x1F = HCR_SWIO"
  shows "(\<exists>s' out. test_basic_hvc_main f s = Some (Inr s') \<and> io_out s s' out) \<and>
    (\<exists>s' out. test_hyp_undef_main f s = Some (Inl s') \<and> io_out s s' out) \<and>
    (\<exists>s' out. test_hyp_data_abort_main iss f s = Some (Inl s') \<and> io_out s s' out)"
proof -
  have "finishes (test_basic_hvc_main f s) (\<lambda>r. \<exists>t. r = Inr t \<and> said s t)"
    unfolding test_basic_hvc_main_def
  proof (rule fin_bind [OF fin_uart_init [OF assms(1)]], rule fin_bind, erule fin_printk, rule mode_format,
      rule fin_bind, erule fin_printk, rule mode_format, rule fin_bind, erule fin_check [OF assms(2,3)],
      rule fin_bind, erule fin_printk, simp add: format_simps nl_def)
    fix t assume "said s t"
    from own_exceptions(1) [OF this, of f] obtain g where
      g: "finishes (own_exception HYP_EXCEPTION_HVC_FROM_HYP (HSR_FOR_EC_ISS HSR_EC_HVC_A32 0 OR push_bit HSR_IL_SHIFT HSR_IL_MASK) f t)
        (answers HYP_ACTION_RETURN g s)" ..
    have k: "finishes (do { s \<leftarrow> printk (''after hvc'' @ nl) [] u; s \<leftarrow> printk (''mode: %b'' @ nl) [PInt (read_cpsr s AND 0x1F)] s;
        Some (Inr s) }) (\<lambda>r. \<exists>t. r = Inr t \<and> said s t)" if "said s u" for u
      by (rule fin_bind, rule fin_printk [OF that], simp add: format_simps nl_def, rule fin_bind, erule fin_printk,
          rule mode_format, rule fin_Some, simp)
    show "finishes (do {
        (action, f, s) \<leftarrow> own_exception HYP_EXCEPTION_HVC_FROM_HYP (HSR_FOR_EC_ISS HSR_EC_HVC_A32 0 OR push_bit HSR_IL_SHIFT HSR_IL_MASK) f t;
        if action \<noteq> HYP_ACTION_RETURN then Some (Inl s)
        else do { s \<leftarrow> printk (''after hvc'' @ nl) [] s; s \<leftarrow> printk (''mode: %b'' @ nl) [PInt (read_cpsr s AND 0x1F)] s;
          Some (Inr s) } }) (\<lambda>r. \<exists>t. r = Inr t \<and> said s t)"
      by (rule fin_bind [OF g]) (use k in auto)
  qed
  moreover have "finishes (test_hyp_undef_main f s) (\<lambda>r. \<exists>t. r = Inl t \<and> said s t)"
    unfolding test_hyp_undef_main_def
  proof (rule fin_before [OF assms])
    fix t assume "said s t"
    from own_exceptions(2) [OF this, of f] show "finishes (do {
        (action, f, s) \<leftarrow> own_exception HYP_EXCEPTION_UNDEF_INSTR (HSR_FOR_EC HSR_EC_UNKNOWN OR push_bit HSR_IL_SHIFT HSR_IL_MASK) f t;
        if action \<noteq> HYP_ACTION_RETURN then Some (Inl s) else map_option Inr (hv_assert False s) })
      (\<lambda>r. \<exists>t. r = Inl t \<and> said s t)" by (rule fin_halted)
  qed (simp_all add: format_simps nl_def)
  moreover have "finishes (test_hyp_data_abort_main iss f s) (\<lambda>r. \<exists>t. r = Inl t \<and> said s t)"
    unfolding test_hyp_data_abort_main_def
  proof (rule fin_before [OF assms])
    fix t assume "said s t"
    from own_exceptions(3) [OF this, of iss f] show "finishes (do {
        (action, f, s) \<leftarrow> own_exception HYP_EXCEPTION_DATA_ABORT (HSR_FOR_EC_ISS HSR_EC_DATA_ABORT_SAME iss) f t;
        if action \<noteq> HYP_ACTION_RETURN then Some (Inl s) else Some (Inr s) })
      (\<lambda>r. \<exists>t. r = Inl t \<and> said s t)" by (rule fin_halted)
  qed (simp_all add: format_simps nl_def)
  ultimately show ?thesis by (auto simp: finishes_def said_def)
qed

theorem own_exceptions_correct_witness:
  "(\<exists>s' out. test_basic_hvc_main zero_HypExceptState test_machine = Some (Inr s') \<and> io_out test_machine s' out) \<and>
   (\<exists>s' out. test_hyp_undef_main zero_HypExceptState test_machine = Some (Inl s') \<and> io_out test_machine s' out) \<and>
   (\<exists>s' out. test_hyp_data_abort_main 0x61 zero_HypExceptState test_machine = Some (Inl s') \<and> io_out test_machine s' out)"
  by (rule own_exceptions_correct [OF test_machine_ok])

end
