(* ===== verification/Spec2Isabelle.thy ===== *)
theory Spec2Isabelle
  imports Format_Spec Hv_System Delivery Rpi_Install Guest_Results Kernel_Main Test_Vm_Stage2 Test_Hv_Mmio
    Test_Hyp_Exceptions
begin

text \<open>
  \<^bold>\<open>pi-pervisor in Isabelle/HOL.\<close>

  pi-pervisor is a bare-metal hypervisor for the Raspberry Pi Zero 2 W: two guests share one core, each
  behind its own stage-2 page tables, with virtual interrupts, a virtual timer, an emulated UART and a
  round-robin scheduler. Programs reach the board through a bootloader: a program on the host sends them
  over the serial line to a loader on the Pi. This library models the C code of the hypervisor, of its
  drivers, of both sides of the bootloader, of the guest programs and of the bare kernel, function by
  function under the names of the code, and proves what makes them correct.

  \<^bold>\<open>The parts and their theories.\<close> In the order of the imports; paths are under \<open>src/\<close> of the repository.

  \<^item> \<open>Prelude\<close>: the C integer types as words, shared rewrite rules, loops and \<open>option\<close>s.

  \<^item> \<open>Arch_Regs\<close>: \<open>src/arch/hyp-regs.c\<close>, \<open>mmio.c\<close>, \<open>hyp-banked-regs.S\<close> and the register headers. The system
  registers are fields of the record \<open>hw\<close>; device accesses and barriers are appended to a history
  \<open>hw_log\<close>, and a device read returns the oracle \<open>hw_in\<close> at the current length of the history.

  \<^item> \<open>Uart\<close>, \<open>Printk\<close>, \<open>Format_Spec\<close>, \<open>Timers\<close>: \<open>src/drivers/\<close>, \<open>src/lib/\<close>, \<open>src/platform/irq.c\<close>. The mini UART and
  GPIO, formatted output and a reference for it, the interrupt controller, and the ARM, system and
  generic timers.

  \<^item> \<open>Vm_Region\<close>, \<open>Stage2\<close>, \<open>Stage2_Tables\<close>, \<open>Stage2_Map\<close>, \<open>Stage2_Range\<close>, \<open>Stage2_Spec\<close>, \<open>Vm\<close>: \<open>src/hv/vm.c\<close> and
  \<open>src/hv/stage2.c\<close>. A VM is a table of regions; its translation is a tree of tables in a pool of pages,
  here a flat list of descriptors indexed from the base of the pools. \<open>hv_stage2_translate\<close> is the walk
  of the hardware as the tests do it.

  \<^item> \<open>Vcpu\<close>, \<open>Virq\<close>: \<open>src/hv/vcpu.c\<close>, \<open>mmu.c\<close>, \<open>virq.c\<close>. The context of a virtual CPU, the two halves of a switch,
  the virtual timer, and 32 interrupt lines per vCPU with a pending and an active bit.

  \<^item> \<open>Vuart\<close>, \<open>Mmio\<close>: \<open>src/hv/vuart.c\<close>, \<open>mmio.c\<close>, \<open>virtual-device.c\<close>. The emulated UART of each VM and the decoding
  of trapped accesses.

  \<^item> \<open>Scheduler\<close>, \<open>Scheduler_Init\<close>, \<open>Scheduler_Spec\<close>, \<open>Separation\<close>: \<open>src/hv/scheduler.c\<close>. The global \<open>scheduler\<close> with
  both VMs and the vCPUs (two guests and the idle one), its initialisation, switching, blocking,
  yielding, and the physical timer; what a handler may do to the guest that does not run.

  \<^item> \<open>Hypercall\<close>, \<open>Exceptions\<close>, \<open>Exceptions_Spec\<close>, \<open>Exceptions_Live\<close>, \<open>Irq_Spec\<close>: \<open>src/hv/hypercall.c\<close> and
  \<open>src/arch/hyp-exceptions.c\<close>: what the handlers do, when they come back, and the interrupts.

  \<^item> \<open>Guest_Image\<close>, \<open>Guest_Systems\<close>: the programs under \<open>tests/\<close> that put guests on the board. They copy the images
  of the guests into their slots, by stores in the history, initialise the scheduler and enter a guest:
  \<open>test-guest-image.c\<close>, \<open>test-guest-sched-virq-image.c\<close>, \<open>test-guest-sched-yield.c\<close>, \<open>test-guest-sched-timer.c\<close>,
  \<open>test-guest-stage2-fault.c\<close> and \<open>test-guest-mmio-uart.c\<close>. The set \<open>guest_systems\<close> holds them all,
  \<open>quiet_systems\<close> those in which the scheduler does not trace, \<open>timed_systems\<close> those that start the
  scheduling timer.

  \<^item> \<open>Hv_Steps\<close>, \<open>Hv_System\<close>, \<open>Output\<close>: the running system. From the configuration a boot leaves, \<open>hv_step\<close> runs a
  guest or the idle loop, or enters a handler through the vectors of \<open>hyp-vectors.S\<close>.

  \<^item> \<open>Test_Vm_Stage2\<close>, \<open>Test_Hv_Mmio\<close>, \<open>Test_Hyp_Exceptions\<close>: \<open>tests/test-hv-vm-stage2.c\<close>, \<open>test-hv-mmio.c\<close>,
  \<open>test-hyp-exceptions.c\<close>, \<open>test-basic-hvc.c\<close>, \<open>test-hyp-undef.c\<close>, \<open>test-hyp-data-abort.c\<close>. They pass.

  \<^item> \<open>Guest_Lib\<close>, \<open>Guest_Programs\<close>, \<open>Guest_Contract\<close>, \<open>Guest_Spec\<close>, \<open>Guest_Irq\<close>, \<open>Guest_Live\<close>, \<open>Guest_Hosted\<close>, \<open>Guest_Results\<close>:
  \<open>guests/\<close>. The guest library and the six programs over an arbitrary processor, the contract they
  rely on, and the processor the hypervisor gives them.

  \<^item> \<open>Crc32\<close>, \<open>Boot_Protocol\<close>, \<open>Traffic\<close>, \<open>Bootloader\<close>, \<open>Bootloader_Spec\<close>: \<open>bootloader/src/main.c\<close> and its headers,
  the loader on the Pi.

  \<^item> \<open>Process\<close>, \<open>Host_Io\<close>, \<open>Put_Code\<close>, \<open>Put_Code_Spec\<close>, \<open>Pi_Echo\<close>, \<open>Rpi_Install\<close>: the rest of \<open>bootloader/src/\<close>, the
  install program on the host; \<open>Delivery\<close> joins both sides by a line.

  \<^item> \<open>Kernel_Main\<close>: \<open>src/kernel/main.c\<close>.

  \<^bold>\<open>State.\<close> The machine is a record that grows with the components that keep state: \<open>hw\<close> (registers, history,
  oracle), \<open>s2hw\<close> (the memory of the page tables), \<open>timer_hw\<close> (the period of the generic timer), \<open>vuart_hw\<close>
  (the banks of the emulated UARTs), \<open>machine\<close> (the scheduler and the counters of the handlers). The
  operations of a component are polymorphic in what comes after it, so they apply to the whole machine
  as they are. Pointers to vCPUs and VMs are indices into the arrays of the scheduler. A \<open>uint32_t\<close> is a
  32-bit word and wraps; a status code is an \<open>int\<close>. What the code leaves to the C library, the Unix kernel
  or the devices is an oracle in the state: theorems hold for every oracle unless they name a hypothesis
  on it.
\<close>

text \<open>
  \<^bold>\<open>Not returning.\<close> Where C may not return (a busy-wait on a device, a failed \<open>assert\<close>, an endless loop) or is
  undefined, the function has an \<open>option\<close> result, and \<open>None\<close> stands for it. Loops of this kind are
  \<open>partial_function (option)\<close>; no function takes fuel. That a function does return is stated as such:
  \<open>timer_advance_correct\<close>, \<open>printk_correct\<close>, \<open>system_boots\<close>, \<open>guest_exception_returns\<close>, \<open>timer_regains_control\<close>, \<open>timers_delivered\<close>,
  \<open>delivery_possible\<close> and the results of the guest programs. A handler that answers \<open>HYP_ACTION_HALT\<close> has
  returned to the vectors, which then stay in a loop: there is no further step.

  \<^bold>\<open>What is proved.\<close>

  \<^item> \<open>The system\<close> (\<open>Hv_System\<close>), for each of the six programs. It boots, and each guest finds its image in
  memory (\<open>guest_finds_image\<close>); every configuration it reaches is well formed; the running guest
  translates exactly its own slot of memory; what a guest does leaves the other one undisturbed; a timer
  interrupt gives the hypervisor control and hands it on. All by induction over the steps, from the
  results on single handlers (\<open>Exceptions_Spec\<close>, \<open>Irq_Spec\<close>, \<open>Hypercall\<close>).

  \<^item> \<open>The guests\<close> (\<open>Guest_Results\<close>). What the hypervisor transmits while it handles a guest program is what the
  program prints and, if it exits, the trace line of the exit: the contract proved of the hypervisor is the
  contract their proofs assume. The rest of the world is a parameter. That a program comes to its end
  is proved for those that do not wait for interrupts, where the processor is given back whenever
  the guest can run and the transmitter gets ready; for the two that wait, what a run that ends has done.

  \<^item> \<open>Memory\<close> (\<open>Vm\<close>, \<open>Stage2_Spec\<close>). \<open>hv_vm_build_stage2\<close> implements the region table; mapping and unmapping
  change exactly the range they are given, keep the tables a tree, and touch no other VM.

  \<^item> \<open>Scheduling, interrupts, devices\<close>. Round robin, switching as a round trip, delivery of timers, interrupts
  conserved over any history, trapped accesses emulated, registers of the UART kept per VM, every
  hypercall by number, the text of \<open>printk\<close> that of a reference which shares nothing with the code.

  \<^item> \<open>The bootloader\<close>. Each side follows the protocol in every run that ends; joined, they deliver the program,
  and for every program there is a run in which they do; the checksum is CRC-32; the relay loses nothing.

  \<^bold>\<open>Interfaces.\<close> \<open>page_table\<close> and \<open>page_loop\<close> (what the loop over pages needs of mapping one page), interpreted on
  \<open>stage2_map_page\<close> and the loop of \<open>hv_stage2_map_region\<close>; \<open>irq_lines\<close> (raise, claim, complete), interpreted on
  \<open>virq.c\<close>; \<open>guest_abi\<close>, \<open>guest_machine\<close>, \<open>guest_live\<close> (what a guest may rely on, without and with the promise
  that its operations come back), interpreted on the handlers of the hypervisor, with \<open>others\<close>, any run
  of the rest of the system, between a trap and the next instruction of the guest.

  \<^bold>\<open>Not modelled.\<close>

  \<^item> The assembly of the bring-up (\<open>src/boot/start.S\<close>, \<open>bootloader/src/boot-start.S\<close>, \<open>guests/start.S\<close>,
  \<open>hyp-enter-lower.S\<close>), the linker scripts and the parking of the other cores: modes, stacks and cleared
  memory are where the models start. The entry and exit code of the vectors is modelled by what it saves.

  \<^item> Memory that is not page tables or code received by the loader: what a guest does in its own RAM is
  below the model (\<open>guests_isolated\<close> says which RAM that is), as are caches and the TLB.

  \<^item> The other programs of \<open>tests/\<close>: they run code of their own in the lower mode without stage 2, or jump to
  an address that holds no program.

  \<^item> Between two operations of a guest program that takes virtual interrupts an interrupt may come; inside
  one, or inside plain computation, the model has none: the handler changes only the counter, which
  computation does not read but in the loops that wait for it.
\<close>

end
